(* ===== verification/Prelude.thy ===== *)
theory Prelude
  imports Main "HOL-Library.Word" "HOL-Library.Signed_Division"
begin

text \<open>
  Shared vocabulary of the AvocadOS development: the machine integer types of the
  i386 target, the byte-addressed memory all components share, little-endian loads
  and stores, address regions that may wrap around the 32-bit address space, and
  the generic facts about them. The collections \<open>region_simps\<close> and
  \<open>load_store_simps\<close> carry the component proofs.
\<close>

unbundle bit_operations_syntax

named_theorems region_simps
named_theorems load_store_simps

section \<open>Machine types\<close>

type_synonym u8 = "8 word"
type_synonym u16 = "16 word"
type_synonym u32 = "32 word"
type_synonym addr = "32 word"
type_synonym mem = "addr \<Rightarrow> u8"

abbreviation NULL :: addr where
  "NULL \<equiv> 0"

text \<open>The status codes of \<^verbatim>\<open>src/status.h\<close>; functions return them negated.\<close>

definition EIO :: int where "EIO = 5"
definition ENOEXEC :: int where "ENOEXEC = 8"
definition EBADF :: int where "EBADF = 9"
definition ENOMEM :: int where "ENOMEM = 12"
definition EINVAL :: int where "EINVAL = 22"
definition ENFILE :: int where "ENFILE = 23"
definition EMFILE :: int where "EMFILE = 24"
definition ENOSPC :: int where "ENOSPC = 28"
definition ENOMEDIUM :: int where "ENOMEDIUM = 123"
definition EMEDIUMTYPE :: int where "EMEDIUMTYPE = 124"

lemmas status_defs = EIO_def ENOEXEC_def EBADF_def ENOMEM_def EINVAL_def ENFILE_def EMFILE_def
  ENOSPC_def ENOMEDIUM_def EMEDIUMTYPE_def

section \<open>Regions of the address space\<close>

text \<open>
  The region of \<open>n\<close> bytes at \<open>p\<close>. The distance \<open>a - p\<close> is taken modulo
  \<open>2 ^ 32\<close>, so a region may run over the top of the address space, exactly as a
  C loop over \<open>p[i]\<close> would.
\<close>

definition in_region :: "addr \<Rightarrow> addr \<Rightarrow> nat \<Rightarrow> bool" where
  "in_region a p n \<longleftrightarrow> unat (a - p) < n"

definition regions_disjoint :: "addr \<Rightarrow> nat \<Rightarrow> addr \<Rightarrow> nat \<Rightarrow> bool" where
  "regions_disjoint p n q k \<longleftrightarrow> n \<le> unat (q - p) \<and> k \<le> unat (p - q)"

text \<open>The bytes of a region, in address order.\<close>

definition bytes :: "mem \<Rightarrow> addr \<Rightarrow> nat \<Rightarrow> u8 list" where
  "bytes m p n = map (\<lambda>i. m (p + word_of_nat i)) [0..<n]"

text \<open>Reference effect of filling a region with one byte, and of copying a region.\<close>

definition fill_mem :: "mem \<Rightarrow> addr \<Rightarrow> nat \<Rightarrow> u8 \<Rightarrow> mem" where
  "fill_mem m p n b = (\<lambda>a. if in_region a p n then b else m a)"

definition copy_mem :: "mem \<Rightarrow> addr \<Rightarrow> addr \<Rightarrow> nat \<Rightarrow> mem" where
  "copy_mem m d s n = (\<lambda>a. if in_region a d n then m (s + (a - d)) else m a)"

definition write_bytes :: "mem \<Rightarrow> addr \<Rightarrow> u8 list \<Rightarrow> mem" where
  "write_bytes m p xs = (\<lambda>a. if in_region a p (length xs) then xs ! unat (a - p) else m a)"

section \<open>Little-endian loads and stores\<close>

definition store8 :: "mem \<Rightarrow> addr \<Rightarrow> u8 \<Rightarrow> mem" where
  "store8 m a b = m(a := b)"

definition load16 :: "mem \<Rightarrow> addr \<Rightarrow> u16" where
  "load16 m a = ucast (m a) OR push_bit 8 (ucast (m (a + 1)))"

definition load32 :: "mem \<Rightarrow> addr \<Rightarrow> u32" where
  "load32 m a = ucast (m a) OR push_bit 8 (ucast (m (a + 1)))
     OR push_bit 16 (ucast (m (a + 2))) OR push_bit 24 (ucast (m (a + 3)))"

definition store32 :: "mem \<Rightarrow> addr \<Rightarrow> u32 \<Rightarrow> mem" where
  "store32 m a v = m(a := ucast v, a + 1 := ucast (drop_bit 8 v),
     a + 2 := ucast (drop_bit 16 v), a + 3 := ucast (drop_bit 24 v))"

section \<open>Facts about words\<close>

lemma unat_word_of_nat_lt: "i < 2 ^ 32 \<Longrightarrow> unat (word_of_nat i :: u32) = i"
  by (simp add: unat_of_nat take_bit_nat_eq_self)

lemma unat_lt_2p32: "unat (x :: u32) < 4294967296"
  using unsigned_less [of x] by simp

lemma u32_eq_iff_unat: "(a :: u32) = b \<longleftrightarrow> unat a = unat b"
  by (simp add: word_unat_eq_iff)

lemma unat_Suc_less: "(a :: u32) < b \<Longrightarrow> unat (a + 1) = Suc (unat a)"
  using unat_lt_2p32 [of b] by (simp add: unat_word_ariths word_less_nat_alt)

lemma unat_inc_measure: "(a :: u32) < b \<Longrightarrow> unat b - unat (a + 1) < unat b - unat a"
  using unat_Suc_less [of a b] by (simp add: word_less_nat_alt)

lemma word_of_nat_eq_iff_lt:
  "i < 2 ^ 32 \<Longrightarrow> j < 2 ^ 32 \<Longrightarrow> (word_of_nat i :: u32) = word_of_nat j \<longleftrightarrow> i = j"
  by (simp add: u32_eq_iff_unat unat_word_of_nat_lt)

lemma unat_add_of_nat: "unat (p :: u32) + n < 2 ^ 32 \<Longrightarrow> unat (p + word_of_nat n) = unat p + n"
  by (simp add: unat_word_ariths unat_of_nat take_bit_nat_eq_self)

lemma word_eq_of_nat_unat: "(a :: u32) = word_of_nat (unat a)"
  by simp

lemma div_round_up: "((n :: nat) + 4095) div 4096 = n div 4096 + (if n mod 4096 \<noteq> 0 then 1 else 0)"
proof -
  define q r where "q = n div 4096" and "r = n mod 4096"
  then have "n = 4096 * q + r" "r < 4096" by simp_all
  then have "(n + 4095) div 4096 = q + (if r \<noteq> 0 then 1 else 0)"
    by (intro div_nat_eqI) (auto split: if_splits)
  then show ?thesis by (simp only: q_def r_def)
qed

lemma sdiv_10_decreases: "(x :: int) sdiv 10 \<noteq> 0 \<Longrightarrow> \<bar>x sdiv 10\<bar> < \<bar>x\<bar>"
  by (auto simp: signed_divide_int_def sgn_if abs_if split: if_splits)

section \<open>First match in a range of indices\<close>

lemma find_upt_Some: "find P [0..<n] = Some i \<longleftrightarrow> i < n \<and> P i \<and> (\<forall>k<i. \<not> P k)"
proof
  assume "i < n \<and> P i \<and> (\<forall>k<i. \<not> P k)"
  then show "find P [0..<n] = Some i"
    by (auto simp: find_Some_iff intro!: exI [of _ i])
qed (auto simp: find_Some_iff)

lemma find_map: "find P (map f xs) = map_option f (find (P \<circ> f) xs)"
  by (induction xs) auto

lemma find_upt_None: "find P [0..<n] = None \<longleftrightarrow> (\<forall>i<n. \<not> P i)"
  by (auto simp: find_None_iff)

section \<open>Facts about regions\<close>

lemma in_region_0 [simp]: "\<not> in_region a p 0"
  by (simp add: in_region_def)

lemma in_region_1 [simp]: "in_region a p (Suc 0) \<longleftrightarrow> a = p"
  by (simp add: in_region_def unat_eq_zero)

lemma in_region_nth [region_simps]: "i < 2 ^ 32 \<Longrightarrow> in_region (p + word_of_nat i) p n \<longleftrightarrow> i < n"
  by (simp add: in_region_def unat_word_of_nat_lt)

lemma in_region_add:
  assumes "n + k \<le> 2 ^ 32"
  shows "in_region a p (n + k) \<longleftrightarrow> in_region a p n \<or> in_region a (p + word_of_nat n) k"
proof (cases "unat (a - p) < n \<or> k = 0")
  case True
  then show ?thesis by (auto simp: in_region_def)
next
  case False
  then have n: "n \<le> unat (a - p)" "n < 2 ^ 32" using assms by auto
  have "a - (p + word_of_nat n) = (a - p) - word_of_nat n" by simp
  moreover have "word_of_nat n \<le> a - p"
    using n by (simp add: word_le_nat_alt unat_word_of_nat_lt)
  ultimately have "unat (a - (p + word_of_nat n)) = unat (a - p) - n"
    using n by (metis unat_sub unat_word_of_nat_lt)
  with n show ?thesis by (auto simp: in_region_def)
qed

lemma in_region_Suc_left:
  assumes "n < 2 ^ 32"
  shows "in_region a p (Suc n) \<longleftrightarrow> a = p \<or> in_region a (p + 1) n" "\<not> in_region p (p + 1) n"
proof -
  have "p - (p + 1) = - 1" by simp
  then have "unat (p - (p + 1)) = 2 ^ 32 - 1"
    by (simp only: unsigned_minus_1_eq_mask) (simp add: mask_eq_exp_minus_1)
  then show "\<not> in_region p (p + 1) n" using assms by (simp only: in_region_def)
  show "in_region a p (Suc n) \<longleftrightarrow> a = p \<or> in_region a (p + 1) n"
    using in_region_add [of 1 n a p] assms by simp
qed

lemma in_region_exists:
  assumes "in_region a p n"
  obtains i where "i < n" "i < 2 ^ 32" "a = p + word_of_nat i"
proof -
  have "unat (a - p) < n" using assms by (simp add: in_region_def)
  moreover have "a = p + word_of_nat (unat (a - p))" by simp
  moreover have "unat (a - p) < 2 ^ 32" using unat_lt_2p32 [of "a - p"] by simp
  ultimately show ?thesis using that by blast
qed

lemma in_region_mono: "in_region a p n \<Longrightarrow> n \<le> k \<Longrightarrow> in_region a p k"
  by (simp add: in_region_def)

lemma in_region_Suc:
  "n < 2 ^ 32 \<Longrightarrow> in_region a p (Suc n) \<longleftrightarrow> in_region a p n \<or> a = p + word_of_nat n"
  by (auto simp: in_region_def less_Suc_eq unat_word_of_nat_lt)

lemma regions_disjointD:
  assumes "regions_disjoint p n q k" "in_region a p n"
  shows "\<not> in_region a q k"
proof
  assume q: "in_region a q k"
  let ?x = "a - p" and ?y = "a - q"
  have xy: "unat ?x < n" "unat ?y < k" using assms(2) q by (simp_all add: in_region_def)
  show False
  proof (cases "?y \<le> ?x")
    case True
    have "unat (q - p) = unat (?x - ?y)" by simp
    also have "\<dots> = unat ?x - unat ?y" by (rule unat_sub [OF True])
    finally show False using assms(1) xy unfolding regions_disjoint_def by linarith
  next
    case False
    have "unat (p - q) = unat (?y - ?x)" by simp
    also have "\<dots> = unat ?y - unat ?x" using False by (intro unat_sub) simp
    finally show False using assms(1) xy unfolding regions_disjoint_def by linarith
  qed
qed

lemma regions_disjoint_sym: "regions_disjoint p n q k \<longleftrightarrow> regions_disjoint q k p n"
  by (auto simp: regions_disjoint_def)

lemma regions_disjointI:
  assumes "\<And>a. in_region a p n \<Longrightarrow> \<not> in_region a q k" "0 < n" "0 < k"
  shows "regions_disjoint p n q k"
proof -
  have "in_region p p n" "in_region q q k" using assms(2,3) by (simp_all add: in_region_def)
  then have "\<not> in_region p q k" "\<not> in_region q p n" using assms(1) by blast+
  then show ?thesis by (auto simp: in_region_def regions_disjoint_def)
qed

lemma regions_disjoint_mono:
  "regions_disjoint p n q k \<Longrightarrow> n' \<le> n \<Longrightarrow> k' \<le> k \<Longrightarrow> regions_disjoint p n' q k'"
  by (auto simp: regions_disjoint_def)

lemma length_bytes [simp]: "length (bytes m p n) = n"
  by (simp add: bytes_def)

lemma nth_bytes [simp]: "i < n \<Longrightarrow> bytes m p n ! i = m (p + word_of_nat i)"
  by (simp add: bytes_def)

lemma bytes_cong:
  "(\<And>i. i < n \<Longrightarrow> m (p + word_of_nat i) = m' (q + word_of_nat i)) \<Longrightarrow> bytes m p n = bytes m' q n"
  by (simp add: bytes_def)

lemma bytes_cong_region:
  assumes "\<And>a. in_region a p n \<Longrightarrow> m a = m' a" "n \<le> 2 ^ 32"
  shows "bytes m p n = bytes m' p n"
  using assms by (intro bytes_cong) (simp add: in_region_nth order_less_le_trans)

lemma bytes_Suc: "bytes m p (Suc n) = bytes m p n @ [m (p + word_of_nat n)]"
  by (simp add: bytes_def)

lemma bytes_0 [simp]: "bytes m p 0 = []"
  by (simp add: bytes_def)

lemma bytes_Cons: "bytes m p (Suc n) = m p # bytes m (p + 1) n"
  by (rule nth_equalityI) (auto simp: bytes_def nth_Cons ac_simps simp del: upt_Suc split: nat.splits)

lemma bytes_append: "bytes m p (n + k) = bytes m p n @ bytes m (p + word_of_nat n) k"
  by (rule nth_equalityI) (auto simp: bytes_def nth_append ac_simps simp flip: of_nat_add)

lemma fill_mem_0 [simp]: "fill_mem m p 0 b = m"
  by (simp add: fill_mem_def)

lemma fill_mem_outside: "\<not> in_region a p n \<Longrightarrow> fill_mem m p n b a = m a"
  by (simp add: fill_mem_def)

lemma fill_mem_inside: "in_region a p n \<Longrightarrow> fill_mem m p n b a = b"
  by (simp add: fill_mem_def)

lemma copy_mem_0 [simp]: "copy_mem m d s 0 = m"
  by (simp add: copy_mem_def)

lemma copy_mem_outside: "\<not> in_region a d n \<Longrightarrow> copy_mem m d s n a = m a"
  by (simp add: copy_mem_def)

lemma bytes_fill_mem: "n \<le> 2 ^ 32 \<Longrightarrow> bytes (fill_mem m p n b) p n = replicate n b"
  by (rule nth_equalityI) (auto simp: fill_mem_def in_region_nth)

lemma bytes_copy_mem: "n \<le> 2 ^ 32 \<Longrightarrow> bytes (copy_mem m d s n) d n = bytes m s n"
  by (rule nth_equalityI) (auto simp: copy_mem_def in_region_nth)

section \<open>Facts about loads and stores\<close>

lemma store8_apply [load_store_simps]: "store8 m a b x = (if x = a then b else m x)"
  by (simp add: store8_def)

lemma write_bytes_Nil [simp]: "write_bytes m p [] = m"
  by (simp add: write_bytes_def)

lemma write_bytes_outside: "\<not> in_region a p (length xs) \<Longrightarrow> write_bytes m p xs a = m a"
  by (simp add: write_bytes_def)

lemma bytes_write_bytes: "length xs \<le> 2 ^ 32 \<Longrightarrow> bytes (write_bytes m p xs) p (length xs) = xs"
  by (rule nth_equalityI) (auto simp: write_bytes_def in_region_nth unat_word_of_nat_lt)

lemma write_bytes_snoc:
  assumes "length xs < 2 ^ 32"
  shows "write_bytes m p (xs @ [b]) = store8 (write_bytes m p xs) (p + word_of_nat (length xs)) b"
    and "write_bytes m p (xs @ [b]) = write_bytes (store8 m (p + word_of_nat (length xs)) b) p xs"
proof -
  have "write_bytes m p (xs @ [b]) a
      = (if a = p + word_of_nat (length xs) then b else write_bytes m p xs a)" for a
    using assms in_region_Suc [OF assms, of a p]
    by (auto simp: write_bytes_def nth_append in_region_def unat_word_of_nat_lt)
  moreover have "\<not> in_region (p + word_of_nat (length xs)) p (length xs)"
    using assms by (simp add: in_region_nth)
  ultimately show "write_bytes m p (xs @ [b]) = store8 (write_bytes m p xs) (p + word_of_nat (length xs)) b"
    and "write_bytes m p (xs @ [b]) = write_bytes (store8 m (p + word_of_nat (length xs)) b) p xs"
    by (auto simp: fun_eq_iff store8_apply write_bytes_def)
qed

lemma write_bytes_append:
  assumes "length xs + length ys \<le> 2 ^ 32"
  shows "write_bytes m p (xs @ ys) = write_bytes (write_bytes m p xs) (p + word_of_nat (length xs)) ys"
  using assms
proof (induction ys rule: rev_induct)
  case (snoc b ys)
  then show ?case
    using write_bytes_snoc(1) [of "xs @ ys" m p b]
      write_bytes_snoc(1) [of ys "write_bytes m p xs" "p + word_of_nat (length xs)" b]
    by (simp add: add.assoc)
qed simp

lemma write_bytes_Cons:
  assumes "length xs < 2 ^ 32"
  shows "write_bytes m p (b # xs) = store8 (write_bytes m (p + 1) xs) p b"
proof -
  have "\<not> in_region p (p + 1) (length xs)" by (rule in_region_Suc_left(2) [OF assms])
  moreover have "store8 m p b = write_bytes m p [b]"
    using write_bytes_snoc(1) [of "[]" m p b] by simp
  ultimately show ?thesis
    using write_bytes_append [of "[b]" xs m p] assms
    by (auto simp: fun_eq_iff write_bytes_def store8_apply)
qed

lemma copy_mem_write_bytes: "k \<le> 2 ^ 32 \<Longrightarrow> copy_mem m d s k = write_bytes m d (bytes m s k)"
  by (rule ext) (simp add: copy_mem_def write_bytes_def in_region_def)

lemma fill_mem_write_bytes: "k \<le> 2 ^ 32 \<Longrightarrow> fill_mem m d k b = write_bytes m d (replicate k b)"
  by (rule ext) (simp add: fill_mem_def write_bytes_def in_region_def)

lemma store32_apply:
  "store32 m a v b = (if in_region b a 4 then ucast (drop_bit (8 * unat (b - a)) v) else m b)"
proof (cases "in_region b a 4")
  case True
  then obtain i where i: "i < 4" "b = a + word_of_nat i"
    by (metis in_region_exists)
  then have "i = 0 \<or> i = 1 \<or> i = 2 \<or> i = 3" by auto
  with i True show ?thesis by (auto simp: store32_def)
next
  case False
  then have "b \<noteq> a" "b \<noteq> a + 1" "b \<noteq> a + 2" "b \<noteq> a + 3"
    by (auto simp: in_region_def)
  with False show ?thesis by (simp add: store32_def)
qed

lemma store32_outside: "\<not> in_region b a 4 \<Longrightarrow> store32 m a v b = m b"
  by (simp add: store32_apply)

lemma load32_cong:
  assumes "\<And>b. in_region b a 4 \<Longrightarrow> m b = m' b"
  shows "load32 m a = load32 m' a"
proof -
  have "in_region a a 4" "in_region (a + 1) a 4" "in_region (a + 2) a 4" "in_region (a + 3) a 4"
    by (simp_all add: in_region_def)
  then show ?thesis by (simp add: load32_def assms)
qed

lemma not_bit_u8: "8 \<le> n \<Longrightarrow> \<not> bit (x :: u8) n"
  using bit_imp_le_length [of x n] by auto

lemma not_bit_u8_low: "(b :: u8) < 128 \<Longrightarrow> \<not> bit b 7"
proof -
  assume "b < 128"
  then have "unat b < 2 ^ 7" by (simp add: word_less_nat_alt)
  then have "take_bit 7 (unat b) = unat b" by (simp add: take_bit_nat_eq_self)
  then have "\<not> bit (unat b) 7" by (metis bit_take_bit_iff less_irrefl)
  then show ?thesis by (simp add: bit_simps)
qed

lemma load32_byte: "j < 4 \<Longrightarrow> ucast (drop_bit (8 * j) (load32 m a)) = m (a + word_of_nat j)"
proof (rule bit_word_eqI)
  fix n assume j: "j < 4" and n: "n < LENGTH(8)"
  then consider "j = 0" | "j = 1" | "j = 2" | "j = 3" by linarith
  then show "bit (ucast (drop_bit (8 * j) (load32 m a)) :: u8) n = bit (m (a + word_of_nat j)) n"
    by cases (use n in \<open>simp_all add: load32_def bit_simps not_bit_u8\<close>)
qed

lemma load32_store32_same [load_store_simps]: "load32 (store32 m a v) a = v"
proof (rule bit_word_eqI)
  fix n assume n: "n < LENGTH(32)"
  consider "n < 8" | "8 \<le> n \<and> n < 16" | "16 \<le> n \<and> n < 24" | "24 \<le> n"
    by linarith
  then show "bit (load32 (store32 m a v) a) n = bit v n"
    by cases (use n in \<open>auto simp: load32_def store32_def bit_simps\<close>)
qed

lemma load32_store32_disjoint [load_store_simps]:
  "regions_disjoint a 4 b 4 \<Longrightarrow> load32 (store32 m a v) b = load32 m b"
  by (rule load32_cong) (metis regions_disjointD store32_outside)

lemma load32_zero:
  assumes "\<And>x. in_region x p 4 \<Longrightarrow> m x = 0"
  shows "load32 m p = 0"
proof -
  have "load32 m p = load32 (\<lambda>_. 0) p" using assms by (intro load32_cong) simp
  then show ?thesis by (simp add: load32_def)
qed

section \<open>Fields of structures in memory\<close>

text \<open>The word at offset \<open>k\<close> of the structure at \<open>p\<close>.\<close>

definition fld :: "u32 \<Rightarrow> mem \<Rightarrow> addr \<Rightarrow> u32" where "fld k m p = load32 m (p + k)"
definition set_fld :: "u32 \<Rightarrow> mem \<Rightarrow> addr \<Rightarrow> u32 \<Rightarrow> mem" where "set_fld k m p v = store32 m (p + k) v"

lemma field_region:
  assumes "in_region x (p + k) j" "unat k + j \<le> n" "n \<le> 2 ^ 32"
  shows "in_region x p n"
proof -
  have "in_region x (p + word_of_nat (unat k)) j" using assms(1) by simp
  then have "in_region x p (unat k + j)" using in_region_add [of "unat k" j x p] assms(2,3) by simp
  then show ?thesis using in_region_mono assms(2) by blast
qed

lemma set_fld_outside: "\<not> in_region x p n \<Longrightarrow> unat k + 4 \<le> n \<Longrightarrow> n \<le> 2 ^ 32 \<Longrightarrow> set_fld k m p v x = m x"
  unfolding set_fld_def using field_region store32_outside by blast

lemma fld_cong: "(\<And>x. in_region x p n \<Longrightarrow> m' x = m x) \<Longrightarrow> unat k + 4 \<le> n \<Longrightarrow> n \<le> 2 ^ 32 \<Longrightarrow> fld k m' p = fld k m p"
  unfolding fld_def using field_region by (intro load32_cong) blast

lemma fld_same [simp]: "fld k (set_fld k m p v) p = v"
  by (simp add: fld_def set_fld_def load32_store32_same)

lemma fld_field:
  assumes "4 \<le> unat (k - j)" "4 \<le> unat (j - k)"
  shows "fld j (set_fld k m p v) p = fld j m p"
  unfolding fld_def set_fld_def using assms by (intro load32_store32_disjoint) (simp add: regions_disjoint_def)

lemma fld_other:
  assumes "regions_disjoint p n q l" "unat k + 4 \<le> n" "unat j + 4 \<le> l" "n \<le> 2 ^ 32" "l \<le> 2 ^ 32"
  shows "fld j (set_fld k m p v) q = fld j m q"
  by (rule fld_cong [OF _ assms(3,5)]) (use assms set_fld_outside regions_disjointD in blast)

text \<open>A structure written word by word, and its bytes.\<close>

fun store_words :: "mem \<Rightarrow> addr \<Rightarrow> u32 list \<Rightarrow> mem" where
  "store_words m p [] = m"
| "store_words m p (w # ws) = store_words (store32 m p w) (p + 4) ws"

definition word_bytes :: "u32 \<Rightarrow> u8 list" where
  "word_bytes w = map (\<lambda>i. ucast (drop_bit (8 * i) w)) [0..<4]"

definition words_bytes :: "u32 list \<Rightarrow> u8 list" where "words_bytes ws = concat (map word_bytes ws)"

lemma length_word_bytes [simp]: "length (word_bytes w) = 4"
  by (simp add: word_bytes_def)

lemma words_bytes_simps [simp]: "words_bytes [] = []" "words_bytes (w # ws) = word_bytes w @ words_bytes ws"
  by (simp_all add: words_bytes_def)

lemma length_words_bytes [simp]: "length (words_bytes ws) = 4 * length ws"
  by (induction ws) simp_all

lemma take_words_bytes: "take (4 * n) (words_bytes ws) = words_bytes (take n ws)"
proof (induction ws arbitrary: n)
  case (Cons w ws)
  then show ?case by (cases n) simp_all
qed simp

lemma write_word: "write_bytes m p (word_bytes w) = store32 m p w"
  by (rule ext) (auto simp: write_bytes_def word_bytes_def store32_apply in_region_def)

lemma write_words: "length ws \<le> 2 ^ 30 \<Longrightarrow> write_bytes m p (words_bytes ws) = store_words m p ws"
proof (induction ws arbitrary: m p)
  case (Cons w ws)
  then have "length (word_bytes w) + length (words_bytes ws) \<le> 2 ^ 32" by simp
  from write_bytes_append [OF this, of m p] Cons show ?case by (simp add: write_word)
qed simp

lemma store_words_outside:
  "\<not> in_region a p (4 * length ws) \<Longrightarrow> length ws \<le> 2 ^ 30 \<Longrightarrow> store_words m p ws a = m a"
  using write_words [of ws m p] write_bytes_outside [of a p "words_bytes ws" m] by simp

lemma load_store_words: "i < length ws \<Longrightarrow> length ws \<le> 2 ^ 30 \<Longrightarrow> load32 (store_words m p ws) (p + 4 * word_of_nat i) = ws ! i"
proof (induction ws arbitrary: m p i)
  case (Cons w ws)
  show ?case
  proof (cases i)
    case 0
    have "regions_disjoint (p + 4) (4 * length ws) p 4"
      unfolding regions_disjoint_def using Cons.prems by (simp add: unat_sub_if')
    then have "load32 (store_words (store32 m p w) (p + 4) ws) p = load32 (store32 m p w) p"
      using Cons.prems store_words_outside [of _ "p + 4" ws] regions_disjointD regions_disjoint_sym
      by (intro load32_cong) (metis Suc_leD length_Cons)
    then show ?thesis using 0 by (simp add: load32_store32_same)
  next
    case (Suc j)
    then show ?thesis using Cons.IH [of j "store32 m p w" "p + 4"] Cons.prems by (simp add: algebra_simps)
  qed
qed simp

end
