(* ===== verification/String_C.thy ===== *)
theory String_C
  imports Prelude
begin

text \<open>
  The freestanding C string library, \<^verbatim>\<open>src/string/string.c\<close>, over the byte
  memory. Pointers are 32-bit addresses and every access wraps with them; \<open>char\<close> is
  the signed 8-bit type of the i386 ABI, so a comparison or a difference of characters
  goes through \<open>sint\<close>. Loops bounded by a \<open>size_t\<close> count run over a list of indices;
  loops that stop at a terminator are \<open>partial_function (option)\<close>, with \<open>None\<close> for a
  run that never ends. A function that returns its destination pointer returns the new
  memory here. \<open>memmove\<close> needs the kernel heap and is in the theory of that component.
\<close>

section \<open>Blocks of memory\<close>

definition memset_dword :: "u8 \<Rightarrow> u32" where
  "memset_dword byte = push_bit 24 (scast byte) OR push_bit 16 (scast byte)
     OR push_bit 8 (scast byte) OR scast byte"

definition memset :: "mem \<Rightarrow> addr \<Rightarrow> int \<Rightarrow> u32 \<Rightarrow> mem" where
  "memset m s c n =
     (let dwords = n div 4;
          remining_bytes = n mod 4;
          byte = word_of_int c :: u8;
          dword_value = memset_dword byte;
          m1 = fold (\<lambda>dword m. store32 m (s + 4 * word_of_nat dword) dword_value) [0..<unat dwords] m;
          byte_ptr = s + dwords * 4
      in fold (\<lambda>i m. store8 m (byte_ptr + word_of_nat i) byte) [0..<unat remining_bytes] m1)"

definition memcmp :: "mem \<Rightarrow> addr \<Rightarrow> addr \<Rightarrow> u32 \<Rightarrow> int" where
  "memcmp m s1 s2 n =
     (case find (\<lambda>i. m (s1 + word_of_nat i) \<noteq> m (s2 + word_of_nat i)) [0..<unat n] of
        Some i \<Rightarrow> (if m (s1 + word_of_nat i) \<noteq> m (s2 + word_of_nat i) then 1 else 0)
      | None \<Rightarrow> 0)"

definition memchr :: "mem \<Rightarrow> addr \<Rightarrow> int \<Rightarrow> u32 \<Rightarrow> addr" where
  "memchr m s c n =
     (case find (\<lambda>i. c = sint (m (s + word_of_nat i))) [0..<unat n] of
        Some i \<Rightarrow> s + word_of_nat i
      | None \<Rightarrow> NULL)"

definition memcpy :: "mem \<Rightarrow> addr \<Rightarrow> addr \<Rightarrow> u32 \<Rightarrow> mem" where
  "memcpy m dest source n =
     (let dwords = n div 4;
          remining_bytes = n mod 4;
          m1 = fold (\<lambda>dword m. store32 m (dest + 4 * word_of_nat dword)
                                  (load32 m (source + 4 * word_of_nat dword))) [0..<unat dwords] m;
          dest_reminder = dest + dwords * 4;
          source_reminder = source + dwords * 4
      in fold (\<lambda>i m. store8 m (dest_reminder + word_of_nat i) (m (source_reminder + word_of_nat i)))
           [0..<unat remining_bytes] m1)"

section \<open>Terminated strings\<close>

partial_function (option) strlen_loop :: "mem \<Rightarrow> addr \<Rightarrow> u32 \<Rightarrow> u32 option" where
  "strlen_loop m str len = (if m (str + len) \<noteq> 0 then strlen_loop m str (len + 1) else Some len)"

definition strlen :: "mem \<Rightarrow> addr \<Rightarrow> u32 option" where
  "strlen m str = strlen_loop m str 0"

function strnlen_loop :: "mem \<Rightarrow> addr \<Rightarrow> u32 \<Rightarrow> u32 \<Rightarrow> u32" where
  "strnlen_loop m str max_len len =
     (if len < max_len \<and> m (str + len) \<noteq> 0 then strnlen_loop m str max_len (len + 1) else len)"
  by pat_completeness auto
termination
  by (relation "measure (\<lambda>(m, str, max_len, len). unat max_len - unat len)")
    (auto intro: unat_inc_measure)

definition strnlen :: "mem \<Rightarrow> addr \<Rightarrow> u32 \<Rightarrow> u32" where
  "strnlen m str max_len = strnlen_loop m str max_len 0"

partial_function (option) strcmp :: "mem \<Rightarrow> addr \<Rightarrow> addr \<Rightarrow> int option" where
  "strcmp m s1 s2 =
     (if m s1 \<noteq> 0 \<and> m s2 \<noteq> 0
      then if m s1 \<noteq> m s2 then Some (sint (m s1) - sint (m s2))
           else strcmp m (s1 + 1) (s2 + 1)
      else Some (sint (m s1) - sint (m s2)))"

partial_function (option) strncmp_loop :: "mem \<Rightarrow> addr \<Rightarrow> addr \<Rightarrow> u32 \<Rightarrow> u32 \<Rightarrow> int option" where
  "strncmp_loop m s1 s2 n i =
     (if m s1 \<noteq> 0 \<and> m s2 \<noteq> 0
      then if m s1 \<noteq> m s2 then Some (sint (m s1) - sint (m s2))
           else if i + 1 = n then Some (sint (m s1) - sint (m s2))
           else strncmp_loop m (s1 + 1) (s2 + 1) n (i + 1)
      else Some (sint (m s1) - sint (m s2)))"

definition strncmp :: "mem \<Rightarrow> addr \<Rightarrow> addr \<Rightarrow> u32 \<Rightarrow> int option" where
  "strncmp m s1 s2 n = strncmp_loop m s1 s2 n 0"

definition to_upper :: "u8 \<Rightarrow> int" where
  "to_upper c = (if 97 \<le> sint c \<and> sint c \<le> 122 then sint c - (97 - 65) else sint c)"

definition to_lower :: "u8 \<Rightarrow> int" where
  "to_lower c = (if 65 \<le> sint c \<and> sint c \<le> 90 then sint c + (97 - 65) else sint c)"

partial_function (option) strcasecmp_loop :: "mem \<Rightarrow> addr \<Rightarrow> addr \<Rightarrow> u8 \<Rightarrow> u8 \<Rightarrow> int option" where
  "strcasecmp_loop m s1 s2 char_s1 char_s2 =
     (if m s1 \<noteq> 0 \<and> m s2 \<noteq> 0
      then (let char_s1 = word_of_int (to_upper (m s1)); char_s2 = word_of_int (to_upper (m s2))
            in if char_s1 \<noteq> char_s2 then Some (sint char_s1 - sint char_s2)
               else strcasecmp_loop m (s1 + 1) (s2 + 1) char_s1 char_s2)
      else Some (sint char_s1 - sint char_s2))"

definition strcasecmp :: "mem \<Rightarrow> addr \<Rightarrow> addr \<Rightarrow> int option" where
  "strcasecmp m s1 s2 = strcasecmp_loop m s1 s2 0 0"

partial_function (option) strncasecmp_loop :: "mem \<Rightarrow> addr \<Rightarrow> addr \<Rightarrow> u32 \<Rightarrow> u32 \<Rightarrow> int option" where
  "strncasecmp_loop m s1 s2 n i =
     (if m s1 \<noteq> 0 \<and> m s2 \<noteq> 0
      then if (word_of_int (to_upper (m s1)) :: u8) \<noteq> word_of_int (to_upper (m s2))
           then Some (sint (m s1) - sint (m s2))
           else if i + 1 = n then Some (sint (m s1) - sint (m s2))
           else strncasecmp_loop m (s1 + 1) (s2 + 1) n (i + 1)
      else Some (sint (m s1) - sint (m s2)))"

definition strncasecmp :: "mem \<Rightarrow> addr \<Rightarrow> addr \<Rightarrow> u32 \<Rightarrow> int option" where
  "strncasecmp m s1 s2 n = strncasecmp_loop m s1 s2 n 0"

partial_function (option) strcpy :: "mem \<Rightarrow> addr \<Rightarrow> addr \<Rightarrow> mem option" where
  "strcpy m ptr src =
     (if m src \<noteq> 0 then strcpy (store8 m ptr (m src)) (ptr + 1) (src + 1) else Some (store8 m ptr 0))"

function strncpy_loop :: "mem \<Rightarrow> addr \<Rightarrow> addr \<Rightarrow> u32 \<Rightarrow> u32 \<Rightarrow> mem \<times> u32" where
  "strncpy_loop m dest src n i =
     (if i < n \<and> m (src + i) \<noteq> 0 then strncpy_loop (store8 m (dest + i) (m (src + i))) dest src n (i + 1)
      else (m, i))"
  by pat_completeness auto
termination
  by (relation "measure (\<lambda>(m, dest, src, n, i). unat n - unat i)") (auto intro: unat_inc_measure)

definition strncpy :: "mem \<Rightarrow> addr \<Rightarrow> addr \<Rightarrow> u32 \<Rightarrow> mem" where
  "strncpy m dest src n =
     (case strncpy_loop m dest src n 0 of
        (m1, i) \<Rightarrow> fold (\<lambda>k m. store8 m (dest + word_of_nat k) 0) [unat i..<unat n] m1)"

partial_function (option) strchr :: "mem \<Rightarrow> addr \<Rightarrow> int \<Rightarrow> addr option" where
  "strchr m s c =
     (if m s \<noteq> 0 then if c = sint (m s) then Some s else strchr m (s + 1) c else Some NULL)"

section \<open>Numbers\<close>

definition is_digit :: "u8 \<Rightarrow> bool" where
  "is_digit c \<longleftrightarrow> 48 \<le> sint c \<and> sint c \<le> 57"

definition numeric_char_to_digit :: "u8 \<Rightarrow> int" where
  "numeric_char_to_digit c = sint c - 48"

definition digit_to_char :: "int \<Rightarrow> u8" where
  "digit_to_char c = (if c < 0 \<or> c > 9 then 69 else word_of_int (48 + c))"

text \<open>
  Conversion to a C \<open>int\<close> keeps the low 32 bits; \<open>/\<close> and \<open>%\<close> truncate towards
  zero. The two loops of \<open>itoa\<close> count the digits and then write them backwards.
\<close>

definition c_int :: "int \<Rightarrow> int" where
  "c_int x = signed_take_bit 31 x"

function itoa_count :: "int \<Rightarrow> addr \<Rightarrow> addr" where
  "itoa_count shifter ptr =
     (let shifter' = shifter sdiv 10; ptr' = ptr + 1
      in if shifter' \<noteq> 0 then itoa_count shifter' ptr' else ptr')"
  by pat_completeness auto
termination
  by (relation "measure (\<lambda>(shifter, ptr). nat \<bar>shifter\<bar>)") (auto simp: sdiv_10_decreases)

function itoa_write :: "mem \<Rightarrow> int \<Rightarrow> addr \<Rightarrow> mem \<times> addr" where
  "itoa_write m shifter ptr =
     (let m' = store8 m ptr (digit_to_char (shifter smod 10)); ptr' = ptr - 1; shifter' = shifter sdiv 10
      in if shifter' \<noteq> 0 then itoa_write m' shifter' ptr' else (m', ptr'))"
  by pat_completeness auto
termination
  by (relation "measure (\<lambda>(m, shifter, ptr). nat \<bar>shifter\<bar>)") (auto simp: sdiv_10_decreases)

definition itoa :: "mem \<Rightarrow> int \<Rightarrow> addr \<Rightarrow> mem" where
  "itoa m c buf =
     (let shifter = c_int c
      in if shifter = 0 then store8 (store8 m buf 48) (buf + 1) 0
         else let is_negative = shifter < 0;
                  ptr0 = (if is_negative then buf + 1 else buf);
                  magnitude = (if is_negative then c_int (shifter * -1) else shifter);
                  ptr1 = itoa_count magnitude ptr0;
                  m1 = store8 m ptr1 0;
                  shifter' = c_int (if is_negative then - c else c);
                  (m2, ptr2) = itoa_write m1 shifter' (ptr1 - 1)
              in if is_negative then store8 m2 ptr2 45 else m2)"

declare strnlen_loop.simps [simp del] strncpy_loop.simps [simp del]
  itoa_count.simps [simp del] itoa_write.simps [simp del]

section \<open>Blocks of memory: the loops do what the reference effects say\<close>

text \<open>
  A C string at \<open>p\<close>: the characters \<open>s\<close>, none of them the terminator, and then
  the terminator.
\<close>

definition cstring :: "mem \<Rightarrow> addr \<Rightarrow> u8 list \<Rightarrow> bool" where
  "cstring m p s \<longleftrightarrow> 0 \<notin> set s \<and> bytes m p (length s) = s \<and> m (p + word_of_nat (length s)) = 0
     \<and> length s < 2 ^ 32"

lemma fill_mem_step:
  assumes "n + k \<le> 2 ^ 32"
    and "\<And>a. in_region a (p + word_of_nat n) k \<Longrightarrow> m' a = b"
    and "\<And>a. \<not> in_region a (p + word_of_nat n) k \<Longrightarrow> m' a = fill_mem m p n b a"
  shows "m' = fill_mem m p (n + k) b"
proof
  fix a show "m' a = fill_mem m p (n + k) b a"
    using assms(2,3) [of a] in_region_add [OF assms(1), of a p]
    by (cases "in_region a (p + word_of_nat n) k") (auto simp: fill_mem_def)
qed

lemma memset_dwords_fill:
  assumes v: "\<And>j. j < 4 \<Longrightarrow> ucast (drop_bit (8 * j) v) = b" and k: "4 * k \<le> 2 ^ 32"
  shows "fold (\<lambda>dword m. store32 m (s + 4 * word_of_nat dword) v) [0..<k] m = fill_mem m s (4 * k) b"
  using k
proof (induction k)
  case (Suc k)
  have "store32 (fill_mem m s (4 * k) b) (s + word_of_nat (4 * k)) v = fill_mem m s (4 * k + 4) b"
    using Suc.prems by (intro fill_mem_step) (simp_all add: store32_apply v in_region_def del: of_nat_mult)
  with Suc show ?case by (simp add: add.commute)
qed simp

lemma memset_bytes_fill:
  assumes "n + k \<le> 2 ^ 32"
  shows "fold (\<lambda>i m. store8 m (s + word_of_nat n + word_of_nat i) b) [0..<k] (fill_mem m s n b)
     = fill_mem m s (n + k) b"
  using assms
proof (induction k)
  case (Suc k)
  let ?m = "store8 (fill_mem m s (n + k) b) (s + word_of_nat n + word_of_nat k) b"
  have "?m = fill_mem m s (n + k + 1) b"
    using Suc.prems by (intro fill_mem_step) (auto simp: store8_apply ac_simps)
  with Suc show ?case by simp
qed simp

lemma unat_dwords: "unat (n div 4 :: u32) = unat n div 4" "unat (n mod 4 :: u32) = unat n mod 4"
  by (simp_all add: unat_div unat_mod)

lemma word_dwords: "(n div 4 :: u32) * 4 = word_of_nat (4 * (unat n div 4))"
  by (simp flip: unat_dwords)

lemma dword_split: "4 * (unat (n :: u32) div 4) + unat n mod 4 = unat n"
  by simp

lemma memset_fill_mem:
  assumes "\<And>j. j < 4 \<Longrightarrow> ucast (drop_bit (8 * j) (memset_dword (word_of_int c))) = (word_of_int c :: u8)"
  shows "memset m s c n = fill_mem m s (unat n) (word_of_int c)"
proof -
  have le: "4 * (unat n div 4) + unat n mod 4 \<le> 2 ^ 32"
    using unat_lt_2p32 [of n] by simp
  then have "4 * (unat n div 4) \<le> 2 ^ 32" by linarith
  note dwords = memset_dwords_fill [OF assms this]
  show ?thesis
    unfolding memset_def Let_def unat_dwords word_dwords
    by (simp only: dwords memset_bytes_fill [OF le] dword_split)
qed

lemma memset_dword_low:
  assumes "b < 128 \<or> b = 255" "j < 4"
  shows "ucast (drop_bit (8 * j) (memset_dword b)) = b"
proof (rule bit_word_eqI)
  fix n assume n: "n < LENGTH(8)"
  have ones: "(255 :: u8) = - 1" by simp
  have high: "bit b 7 \<Longrightarrow> bit b n"
    using assms(1) n not_bit_u8_low [of b] by (auto simp: ones bit_simps)
  have sign: "bit b n" if "7 \<le> n" "bit b 7" using that n by (cases "n = 7") auto
  have sign': "bit b 7" if "7 \<le> n" "bit b n" using that n by (cases "n = 7") auto
  from assms(2) consider "j = 0" | "j = 1" | "j = 2" | "j = 3" by linarith
  then show "bit (ucast (drop_bit (8 * j) (memset_dword b)) :: u8) n = bit b n"
    by cases (use n high sign sign' in \<open>auto simp: memset_dword_def bit_simps not_bit_u8 min_def\<close>)
qed

lemma copy_mem_step:
  assumes "n + k \<le> 2 ^ 32"
    and "\<And>a. in_region a (d + word_of_nat n) k \<Longrightarrow> m' a = m (s + (a - d))"
    and "\<And>a. \<not> in_region a (d + word_of_nat n) k \<Longrightarrow> m' a = copy_mem m d s n a"
  shows "m' = copy_mem m d s (n + k)"
proof
  fix a show "m' a = copy_mem m d s (n + k) a"
    using assms(2,3) [of a] in_region_add [OF assms(1), of a d]
    by (cases "in_region a (d + word_of_nat n) k") (auto simp: copy_mem_def)
qed

lemma copy_mem_source:
  assumes "regions_disjoint d n s n" "in_region a s n"
  shows "copy_mem m d s k a = (if in_region a d k then m (s + (a - d)) else m a)"
    and "k \<le> n \<Longrightarrow> copy_mem m d s k a = m a"
  using assms regions_disjointD [OF assms(1), of a] in_region_mono [of a d k n]
  by (auto simp: copy_mem_def)

lemma load32_copy_mem_source:
  assumes "regions_disjoint d n s n" "i + 4 \<le> n" "n \<le> 2 ^ 32"
  shows "load32 (copy_mem m d s i) (s + word_of_nat i) = load32 m (s + word_of_nat i)"
proof (rule load32_cong)
  fix b assume "in_region b (s + word_of_nat i) 4"
  then have "in_region b s n"
    using assms in_region_add [of i 4 b s] in_region_mono [of b s "i + 4" n] by auto
  then show "copy_mem m d s i b = m b"
    using assms by (intro copy_mem_source(2) [OF assms(1)]) auto
qed

lemma store32_load32_byte:
  assumes "in_region a (d + x) 4"
  shows "store32 m' (d + x) (load32 m (s + x)) a = m (s + (a - d))"
proof -
  let ?j = "unat (a - (d + x))"
  have "?j < 4" using assms by (simp add: in_region_def)
  then have "store32 m' (d + x) (load32 m (s + x)) a = m (s + x + word_of_nat ?j)"
    using assms by (simp only: store32_apply load32_byte if_True)
  then show ?thesis by simp
qed

lemma memcpy_dwords_copy:
  assumes "regions_disjoint d n s n" "4 * k \<le> n" "n \<le> 2 ^ 32"
  shows "fold (\<lambda>dword m. store32 m (d + 4 * word_of_nat dword) (load32 m (s + 4 * word_of_nat dword)))
     [0..<k] m = copy_mem m d s (4 * k)"
  using assms(2)
proof (induction k)
  case (Suc k)
  let ?m = "copy_mem m d s (4 * k)" and ?x = "word_of_nat (4 * k) :: addr"
  have "load32 ?m (s + ?x) = load32 m (s + ?x)"
    using Suc.prems assms by (intro load32_copy_mem_source) auto
  moreover have "store32 ?m (d + ?x) (load32 m (s + ?x)) = copy_mem m d s (4 * k + 4)"
    using Suc.prems assms
    by (intro copy_mem_step) (simp_all add: store32_load32_byte store32_outside del: of_nat_mult)
  ultimately show ?case using Suc by (simp add: add.commute)
qed simp

lemma memcpy_bytes_copy:
  assumes "regions_disjoint d l s l" "n + k \<le> l" "l \<le> 2 ^ 32"
  shows "fold (\<lambda>i m. store8 m (d + word_of_nat n + word_of_nat i) (m (s + word_of_nat n + word_of_nat i)))
     [0..<k] (copy_mem m d s n) = copy_mem m d s (n + k)"
  using assms(2)
proof (induction k)
  case (Suc k)
  let ?m = "copy_mem m d s (n + k)" and ?x = "word_of_nat n + word_of_nat k :: addr"
  have x: "?x = word_of_nat (n + k)" by simp
  have "in_region (s + word_of_nat (n + k)) s l"
    using Suc.prems assms by (subst in_region_nth) auto
  then have "?m (s + ?x) = m (s + ?x)"
    unfolding x using Suc.prems assms by (intro copy_mem_source(2) [OF assms(1)]) auto
  moreover have "store8 ?m (d + ?x) (m (s + ?x)) = copy_mem m d s (n + k + 1)"
    unfolding x using Suc.prems assms by (intro copy_mem_step) (auto simp: store8_apply)
  ultimately show ?case using Suc by (simp add: ac_simps)
qed simp

lemma memcpy_copy_mem:
  assumes "regions_disjoint d (unat n) s (unat n)"
  shows "memcpy m d s n = copy_mem m d s (unat n)"
proof -
  have le: "unat n \<le> 2 ^ 32" using unat_lt_2p32 [of n] by simp
  have "4 * (unat n div 4) \<le> unat n" "4 * (unat n div 4) + unat n mod 4 \<le> unat n" by simp_all
  note loops = memcpy_dwords_copy [OF assms this(1) le] memcpy_bytes_copy [OF assms this(2) le]
  show ?thesis
    unfolding memcpy_def Let_def unat_dwords word_dwords by (simp only: loops dword_split)
qed

lemma memcmp_eq_0: "memcmp m s1 s2 n = 0 \<longleftrightarrow> bytes m s1 (unat n) = bytes m s2 (unat n)"
  by (auto simp: memcmp_def bytes_def find_None_iff find_Some_iff split: option.splits)

lemma memchr_Some:
  assumes "i < unat n" "c = sint (m (s + word_of_nat i))"
    and "\<And>k. k < i \<Longrightarrow> c \<noteq> sint (m (s + word_of_nat k))"
  shows "memchr m s c n = s + word_of_nat i"
proof -
  have "find (\<lambda>i. c = sint (m (s + word_of_nat i))) [0..<unat n] = Some i"
    using assms by (auto simp: find_upt_Some)
  then show ?thesis by (simp add: memchr_def)
qed

lemma memchr_None:
  "(\<And>i. i < unat n \<Longrightarrow> c \<noteq> sint (m (s + word_of_nat i))) \<Longrightarrow> memchr m s c n = NULL"
  by (auto simp: memchr_def find_upt_Some split: option.splits)

section \<open>Terminated strings\<close>

text \<open>
  The characters of the string at \<open>p\<close>, looking at no more than \<open>n\<close> bytes, and the
  comparison of two character lists that \<open>strcmp\<close> and \<open>strncmp\<close> compute: the
  difference of the first two characters that differ, with 0 past the end.
\<close>

definition zbytes :: "mem \<Rightarrow> addr \<Rightarrow> nat \<Rightarrow> u8 list" where
  "zbytes m p n = takeWhile (\<lambda>b. b \<noteq> 0) (bytes m p n)"

fun list_cmp :: "u8 list \<Rightarrow> u8 list \<Rightarrow> int" where
  "list_cmp (a # as) (b # bs) = (if a \<noteq> b then sint a - sint b else list_cmp as bs)"
| "list_cmp [] (b # bs) = - sint b"
| "list_cmp (a # as) [] = sint a"
| "list_cmp [] [] = 0"

lemma list_cmp_eq_0: "0 \<notin> set as \<Longrightarrow> 0 \<notin> set bs \<Longrightarrow> list_cmp as bs = 0 \<longleftrightarrow> as = bs"
  by (induction as bs rule: list_cmp.induct) (auto simp: signed_eq_0_iff dest: signed_word_eqI)

lemma zbytes_0 [simp]: "zbytes m p 0 = []"
  by (simp add: zbytes_def)

lemma zbytes_Suc: "zbytes m p (Suc n) = (if m p = 0 then [] else m p # zbytes m (p + 1) n)"
  by (simp add: zbytes_def bytes_Cons)

lemma zero_notin_zbytes [simp]: "0 \<notin> set (zbytes m p n)"
  by (auto simp: zbytes_def dest: set_takeWhileD)

lemma length_zbytes_le: "length (zbytes m p n) \<le> n"
  using length_takeWhile_le [of "\<lambda>b. b \<noteq> 0" "bytes m p n"] by (simp add: zbytes_def)

lemma zbytes_full: "0 \<notin> set (bytes m p n) \<Longrightarrow> zbytes m p n = bytes m p n"
  by (auto simp: zbytes_def takeWhile_eq_all_conv)

lemma cstring_Nil [simp]: "cstring m p [] \<longleftrightarrow> m p = 0"
  by (simp add: cstring_def)

lemma cstring_Cons:
  "cstring m p (c # s) \<longleftrightarrow> c \<noteq> 0 \<and> m p = c \<and> cstring m (p + 1) s \<and> Suc (length s) < 2 ^ 32"
  by (auto simp: cstring_def bytes_Cons ac_simps)

lemma cstring_cong: "cstring m p str \<Longrightarrow> (\<And>a. in_region a p (Suc (length str)) \<Longrightarrow> m' a = m a) \<Longrightarrow> cstring m' p str"
  unfolding cstring_def
proof (elim conjE, intro conjI)
  assume same: "\<And>a. in_region a p (Suc (length str)) \<Longrightarrow> m' a = m a" and len: "length str < 2 ^ 32"
    and str: "bytes m p (length str) = str" "m (p + word_of_nat (length str)) = 0"
  show "bytes m' p (length str) = str"
    using bytes_cong_region [of p "length str" m' m] same in_region_mono [of _ p "length str" "Suc (length str)"] str(1) len by simp
  show "m' (p + word_of_nat (length str)) = 0" using same str(2) len by (simp add: in_region_nth)
qed

lemma cstring_written: "0 \<notin> set str \<Longrightarrow> length str + Suc k < 2 ^ 32 \<Longrightarrow> cstring (write_bytes m p (str @ replicate (Suc k) 0)) p str"
proof -
  assume z: "0 \<notin> set str" "length str + Suc k < 2 ^ 32"
  let ?m = "write_bytes m p (str @ replicate (Suc k) 0)"
  have "bytes ?m p (length str + Suc k) = str @ replicate (Suc k) 0"
    using bytes_write_bytes [of "str @ replicate (Suc k) 0" m p] z(2) by simp
  then have "bytes ?m p (length str) = str" "bytes ?m (p + word_of_nat (length str)) (Suc k) = replicate (Suc k) 0"
    unfolding bytes_append by auto
  with z show ?thesis by (simp add: cstring_def bytes_Cons)
qed

lemma zbytes_cstring: "cstring m p s \<Longrightarrow> zbytes m p n = take n s"
proof (induction s arbitrary: p n)
  case Nil
  then show ?case by (cases n) (auto simp: zbytes_Suc)
next
  case (Cons c s)
  then show ?case by (cases n) (auto simp: zbytes_Suc cstring_Cons)
qed

lemma strlen_loop_cstring:
  "cstring m (p + k) s \<Longrightarrow> strlen_loop m p k = Some (k + word_of_nat (length s))"
proof (induction s arbitrary: k)
  case Nil
  then show ?case by (subst strlen_loop.simps) simp
next
  case (Cons c s)
  then show ?case
    by (subst strlen_loop.simps) (auto simp: cstring_Cons add.assoc)
qed

lemma strlen_cstring: "cstring m p s \<Longrightarrow> strlen m p = Some (word_of_nat (length s))"
  using strlen_loop_cstring [of m p 0 s] by (simp add: strlen_def)

lemma strnlen_loop_zbytes:
  "k \<le> n \<Longrightarrow> strnlen_loop m p n k = k + word_of_nat (length (zbytes m (p + k) (unat (n - k))))"
proof (induction m p n k rule: strnlen_loop.induct)
  case (1 m p n k)
  show ?case
  proof (cases "k < n")
    case True
    then have "unat (n - k) = Suc (unat (n - (k + 1)))"
      using "1.prems" unat_Suc_less [OF True] unat_sub [OF "1.prems"] unat_sub [of "k + 1" n]
      by (simp add: word_le_nat_alt word_less_nat_alt)
    moreover have "k + 1 \<le> n" using True unat_Suc_less [OF True] by (simp add: word_le_nat_alt word_less_nat_alt)
    ultimately show ?thesis
      using "1.IH" True by (subst strnlen_loop.simps) (auto simp: zbytes_Suc add.assoc)
  next
    case False
    with "1.prems" have "k = n" by simp
    then show ?thesis by (subst strnlen_loop.simps) simp
  qed
qed

lemma strnlen_zbytes: "strnlen m p n = word_of_nat (length (zbytes m p (unat n)))"
  using strnlen_loop_zbytes [of 0 n m p] by (simp add: strnlen_def)

lemma strcmp_cstring:
  "cstring m p as \<Longrightarrow> cstring m q bs \<Longrightarrow> strcmp m p q = Some (list_cmp as bs)"
proof (induction as bs arbitrary: p q rule: list_cmp.induct)
  case (1 a as b bs)
  then show ?case by (subst strcmp.simps) (auto simp: cstring_Cons)
qed (subst strcmp.simps; auto simp: cstring_Cons)+

lemma strncmp_loop_zbytes:
  assumes "i < n"
  shows "strncmp_loop m p q n i
    = Some (list_cmp (zbytes m p (unat (n - i))) (zbytes m q (unat (n - i))))"
  using assms
proof (induction "unat (n - i)" arbitrary: i p q)
  case 0
  then show ?case by (simp add: unat_eq_zero)
next
  case (Suc k)
  show ?case
  proof (cases "i + 1 = n")
    case True
    then have "unat (n - i) = 1" by auto
    with True show ?thesis
      by (subst strncmp_loop.simps) (simp add: zbytes_Suc)
  next
    case False
    then have i: "i + 1 < n"
      using Suc.prems unat_Suc_less [OF Suc.prems] by (simp add: word_less_nat_alt u32_eq_iff_unat)
    then have "unat (n - (i + 1)) = k"
      using Suc.hyps(2) unat_Suc_less [OF Suc.prems] unat_sub [of "i + 1" n] unat_sub [of i n] Suc.prems
      by (simp add: word_le_nat_alt word_less_nat_alt)
    with Suc.hyps(1) [OF _ i] Suc.hyps(2) [symmetric] False show ?thesis
      by (subst strncmp_loop.simps) (simp add: zbytes_Suc)
  qed
qed

lemma strncmp_zbytes:
  "0 < n \<Longrightarrow> strncmp m p q n = Some (list_cmp (zbytes m p (unat n)) (zbytes m q (unat n)))"
  using strncmp_loop_zbytes [of 0 n m p q] by (simp add: strncmp_def)

lemma strchr_cstring:
  "cstring m p s \<Longrightarrow> strchr m p c =
     Some (case find (\<lambda>i. c = sint (s ! i)) [0..<length s] of Some i \<Rightarrow> p + word_of_nat i | None \<Rightarrow> NULL)"
proof (induction s arbitrary: p)
  case Nil
  then show ?case by (subst strchr.simps) simp
next
  case (Cons b s)
  have up: "[0..<length (b # s)] = 0 # map Suc [0..<length s]"
    by (simp add: map_Suc_upt upt_conv_Cons del: upt_Suc)
  have "find (\<lambda>i. c = sint ((b # s) ! i)) (map Suc [0..<length s])
      = map_option Suc (find (\<lambda>i. c = sint (s ! i)) [0..<length s])"
    by (simp add: find_map comp_def)
  with Cons show ?case
    unfolding up by (subst strchr.simps) (auto simp: cstring_Cons split: option.splits)
qed

lemma copy_mem_Suc:
  assumes "regions_disjoint d l s l" "n < l" "l \<le> 2 ^ 32"
  shows "store8 (copy_mem m d s n) (d + word_of_nat n) (copy_mem m d s n (s + word_of_nat n))
    = copy_mem m d s (Suc n)"
  using memcpy_bytes_copy [OF assms(1), of n 1 m] assms by simp

lemma copy_mem_string:
  assumes "regions_disjoint d l s l" "n < l" "l \<le> 2 ^ 32"
  shows "copy_mem m d s n (s + word_of_nat n) = m (s + word_of_nat n)"
  using assms by (intro copy_mem_source(2) [OF assms(1)]) (auto simp: in_region_nth)

lemma strcpy_copy_mem_aux:
  assumes "cstring m src s" "regions_disjoint dest l src l" "l = Suc (length s)" "i \<le> length s"
  shows "strcpy (copy_mem m dest src i) (dest + word_of_nat i) (src + word_of_nat i)
     = Some (copy_mem m dest src l)"
  using assms(4)
proof (induction "length s - i" arbitrary: i)
  case 0
  then have i: "i = length s" by simp
  have at: "m (src + word_of_nat i) = 0" using assms(1) by (simp add: cstring_def i)
  show ?case
    using assms(1,3) copy_mem_Suc [OF assms(2), of i m] copy_mem_string [OF assms(2), of i m] at
    by (subst strcpy.simps) (simp add: i cstring_def)
next
  case (Suc k)
  have "s ! i \<in> set s" "s ! i = bytes m src (length s) ! i"
    using Suc assms(1) by (auto simp: cstring_def)
  then have at: "m (src + word_of_nat i) \<noteq> 0"
    using assms(1) Suc by (auto simp: cstring_def)
  then show ?case
    using assms(1,3) copy_mem_Suc [OF assms(2), of i m] copy_mem_string [OF assms(2), of i m] Suc.hyps(1) [of "Suc i"]
      Suc.hyps(2) by (subst strcpy.simps) (simp add: cstring_def ac_simps)
qed

lemma strcpy_copy_mem:
  assumes "cstring m src s" "regions_disjoint dest (Suc (length s)) src (Suc (length s))"
  shows "strcpy m dest src = Some (copy_mem m dest src (Suc (length s)))"
  using strcpy_copy_mem_aux [OF assms refl, of 0] by simp

lemma strncpy_loop_copy:
  assumes "regions_disjoint dest (unat n) src (unat n)" "i \<le> unat n"
  shows "strncpy_loop (copy_mem m dest src i) dest src n (word_of_nat i)
     = (let k = i + length (zbytes m (src + word_of_nat i) (unat n - i))
        in (copy_mem m dest src k, word_of_nat k))"
  using assms(2)
proof (induction "unat n - i" arbitrary: i)
  case 0
  then have "i = unat n" by simp
  then have "word_of_nat i = n" by simp
  with 0 show ?case by (subst strncpy_loop.simps) simp
next
  case (Suc k)
  then have i: "word_of_nat i < n" "i < unat n" "unat n - i = Suc (unat n - Suc i)"
    using unat_lt_2p32 [of n] by (auto simp: word_less_nat_alt unat_word_of_nat_lt)
  have src: "copy_mem m dest src i (src + word_of_nat i) = m (src + word_of_nat i)"
    "store8 (copy_mem m dest src i) (dest + word_of_nat i) (m (src + word_of_nat i)) = copy_mem m dest src (Suc i)"
    using copy_mem_string [OF assms(1) i(2), of m] copy_mem_Suc [OF assms(1) i(2), of m] unat_lt_2p32 [of n]
    by simp_all
  have "strncpy_loop (copy_mem m dest src (Suc i)) dest src n (word_of_nat i + 1)
     = (let k = Suc i + length (zbytes m (src + word_of_nat (Suc i)) (unat n - Suc i))
        in (copy_mem m dest src k, word_of_nat k))"
    using Suc.hyps(1) [of "Suc i"] Suc.hyps(2) i by (simp add: add.commute)
  with i src show ?case
    by (subst strncpy_loop.simps) (simp add: zbytes_Suc Let_def ac_simps)
qed

lemma strncpy_pad:
  assumes "k \<le> n" "n \<le> 2 ^ 32"
  shows "fold (\<lambda>i m. store8 m (d + word_of_nat i) 0) [k..<n] m = write_bytes m (d + word_of_nat k) (replicate (n - k) 0)"
  using assms
proof (induction n)
  case (Suc n)
  show ?case
  proof (cases "k = Suc n")
    case False
    then have "Suc n - k = Suc (n - k)" using Suc.prems by simp
    then have "write_bytes m (d + word_of_nat k) (replicate (Suc n - k) 0)
      = store8 (write_bytes m (d + word_of_nat k) (replicate (n - k) 0)) (d + word_of_nat k + word_of_nat (n - k)) 0"
      using Suc.prems write_bytes_snoc(1) [of "replicate (n - k) 0" m "d + word_of_nat k" 0]
      by (simp add: replicate_append_same [symmetric] del: replicate_append_same)
    moreover have "d + word_of_nat k + word_of_nat (n - k) = d + word_of_nat n"
      using False Suc.prems by (simp add: add.assoc flip: of_nat_add)
    ultimately show ?thesis using Suc False by simp
  qed simp
qed simp

lemma bytes_length_zbytes: "bytes m p (length (zbytes m p n)) = zbytes m p n"
proof (induction n arbitrary: p)
  case (Suc n)
  then show ?case by (simp add: zbytes_Suc bytes_Cons)
qed simp

lemma strncpy_write_bytes:
  assumes "regions_disjoint dest (unat n) src (unat n)"
  shows "strncpy m dest src n =
    write_bytes m dest (zbytes m src (unat n) @ replicate (unat n - length (zbytes m src (unat n))) 0)"
proof -
  let ?z = "zbytes m src (unat n)"
  have z: "length ?z \<le> unat n" "unat n \<le> 2 ^ 32" "unat (word_of_nat (length ?z) :: u32) = length ?z"
    using length_zbytes_le [of m src "unat n"] unat_lt_2p32 [of n] by (auto intro!: unat_word_of_nat_lt)
  have "strncpy m dest src n
     = write_bytes (copy_mem m dest src (length ?z)) (dest + word_of_nat (length ?z)) (replicate (unat n - length ?z) 0)"
    using strncpy_loop_copy [OF assms, of 0 m] strncpy_pad [OF z(1,2)] z
    by (simp add: strncpy_def Let_def)
  also have "\<dots> = write_bytes m dest (?z @ replicate (unat n - length ?z) 0)"
    using z by (simp add: copy_mem_write_bytes bytes_length_zbytes write_bytes_append)
  finally show ?thesis .
qed

lemma strcasecmp_loop_prefix:
  "cstring m p as \<Longrightarrow> cstring m q (as @ bs) \<Longrightarrow> strcasecmp_loop m p q c c = Some 0"
proof (induction as arbitrary: p q c)
  case Nil
  then show ?case by (subst strcasecmp_loop.simps) simp
next
  case (Cons a as)
  then show ?case by (subst strcasecmp_loop.simps) (auto simp: cstring_Cons Let_def)
qed

text \<open>
  Its bounded variant fails the other way: when the count stops the loop, the original
  characters are subtracted, so two strings that differ in case only compare as different.
\<close>

lemma strncasecmp_case_sensitive:
  "strncasecmp (write_bytes (\<lambda>_. 0) 0 [97, 0, 65, 0]) 0 2 1 = Some 32"
  by (simp add: strncasecmp_def strncasecmp_loop.simps write_bytes_def in_region_def to_upper_def)

section \<open>Decimal output\<close>

text \<open>The decimal digits of a number, as characters, most significant first.\<close>

fun dec_nat :: "nat \<Rightarrow> u8 list" where
  "dec_nat n = (if n < 10 then [48 + word_of_nat n] else dec_nat (n div 10) @ [48 + word_of_nat (n mod 10)])"

declare dec_nat.simps [simp del]

definition dec_int :: "int \<Rightarrow> u8 list" where
  "dec_int v = (if v < 0 then 45 # dec_nat (nat (- v)) else dec_nat (nat v))"

lemma dec_nat_nonempty [simp]: "dec_nat n \<noteq> []"
  by (subst dec_nat.simps) simp

lemma length_dec_nat: "length (dec_nat n) \<le> n + 1"
proof (induction n rule: dec_nat.induct)
  case (1 n)
  then show ?case by (cases "n < 10") (auto simp: dec_nat.simps [of n])
qed

lemma digit_to_char_digit: "d < 10 \<Longrightarrow> digit_to_char (int d) = 48 + word_of_nat d"
  by (simp add: digit_to_char_def)

lemma sdiv_10_nat: "int n sdiv 10 = int (n div 10)" "int n smod 10 = int (n mod 10)"
  by (simp_all add: signed_divide_int_def signed_modulo_int_def sgn_if zdiv_int zmod_int minus_mult_div_eq_mod)

lemma itoa_count_dec: "itoa_count (int n) p = p + word_of_nat (length (dec_nat n))"
proof (induction n arbitrary: p rule: dec_nat.induct)
  case (1 n)
  show ?case
  proof (cases "n < 10")
    case True
    then show ?thesis by (subst itoa_count.simps) (simp add: sdiv_10_nat dec_nat.simps [of n] Let_def)
  next
    case False
    then have "n div 10 \<noteq> 0" by simp
    with "1.IH" [OF False, of "p + 1"] False show ?thesis
      by (subst itoa_count.simps) (simp add: sdiv_10_nat dec_nat.simps [of n] Let_def)
  qed
qed

lemma itoa_write_dec:
  assumes "n < 2 ^ 32 - 1"
  shows "itoa_write m (int n) (p + word_of_nat (length (dec_nat n)) - 1) = (write_bytes m p (dec_nat n), p - 1)"
  using assms
proof (induction n arbitrary: m rule: dec_nat.induct)
  case (1 n)
  show ?case
  proof (cases "n < 10")
    case True
    then show ?thesis
      using write_bytes_snoc(1) [of "[]" m p "48 + word_of_nat n"]
      by (subst itoa_write.simps) (simp add: sdiv_10_nat dec_nat.simps [of n] digit_to_char_digit Let_def)
  next
    case False
    let ?k = "length (dec_nat (n div 10))" and ?d = "48 + word_of_nat (n mod 10) :: u8"
    have k: "?k < 2 ^ 32" using length_dec_nat [of "n div 10"] "1.prems" by simp
    have "itoa_write (store8 m (p + word_of_nat ?k) ?d) (int (n div 10)) (p + word_of_nat ?k - 1)
      = (write_bytes (store8 m (p + word_of_nat ?k) ?d) p (dec_nat (n div 10)), p - 1)"
      using "1.IH" [OF False] "1.prems" by simp
    moreover have "n div 10 \<noteq> 0" using False by simp
    ultimately show ?thesis
      using False write_bytes_snoc(2) [OF k, of m p ?d]
      by (subst itoa_write.simps) (simp add: sdiv_10_nat dec_nat.simps [of n] digit_to_char_digit Let_def)
  qed
qed

lemma c_int_range: "- (2 ^ 31) \<le> c_int x" "c_int x < 2 ^ 31"
  using signed_take_bit_int_greater_eq_minus_exp [of 31 x] signed_take_bit_int_less_exp [of 31 x]
  by (simp_all add: c_int_def)

lemma c_int_id: "- (2 ^ 31) \<le> x \<Longrightarrow> x < 2 ^ 31 \<Longrightarrow> c_int x = x"
  by (simp add: c_int_def signed_take_bit_int_eq_self)

lemma c_int_uminus: "c_int x \<noteq> - (2 ^ 31) \<Longrightarrow> c_int (- x) = - c_int x"
proof -
  assume "c_int x \<noteq> - (2 ^ 31)"
  then have "c_int (- c_int x) = - c_int x"
    using c_int_range [of x] by (intro c_int_id) auto
  then show ?thesis by (simp add: c_int_def signed_take_bit_minus)
qed

lemma itoa_pos:
  assumes "0 < n" "n < 2 ^ 31"
  shows "itoa_write (store8 m (itoa_count (int n) p) 0) (int n) (itoa_count (int n) p - 1)
     = (write_bytes m p (dec_nat n @ [0]), p - 1)"
proof -
  have "length (dec_nat n) < 2 ^ 32" using length_dec_nat [of n] assms by simp
  then show ?thesis
    using assms itoa_write_dec [of n "store8 m (p + word_of_nat (length (dec_nat n))) 0" p]
      write_bytes_snoc(2) [of "dec_nat n" m p 0]
    by (simp add: itoa_count_dec)
qed

lemma itoa_write_bytes:
  assumes "c_int c \<noteq> - (2 ^ 31)"
  shows "itoa m c buf = write_bytes m buf (dec_int (c_int c) @ [0])"
proof -
  let ?v = "c_int c"
  consider "?v = 0" | "0 < ?v" | "?v < 0" by linarith
  then show ?thesis
  proof cases
    case 1
    then show ?thesis
      using write_bytes_append [of "[48]" "[0]" m buf] write_bytes_snoc(1) [of "[]"]
      by (simp add: itoa_def dec_int_def dec_nat.simps [of 0])
  next
    case 2
    then have "?v = int (nat ?v)" "0 < nat ?v" "nat ?v < 2 ^ 31" using c_int_range [of c] by auto
    with 2 itoa_pos [of "nat ?v" m buf] show ?thesis
      by (simp add: itoa_def dec_int_def Let_def)
  next
    case 3
    then have n: "- ?v = int (nat (- ?v))" "0 < nat (- ?v)" "nat (- ?v) < 2 ^ 31"
      and neg: "c_int (- c) = - ?v" "c_int (- ?v) = - ?v"
      using c_int_range [of c] c_int_uminus [OF assms] assms c_int_id [of "- ?v"] by auto
    have "length (dec_nat (nat (- ?v)) @ [0]) < 2 ^ 32"
      using length_dec_nat [of "nat (- ?v)"] n by simp
    from write_bytes_Cons [OF this, of m buf 45] 3 n neg itoa_pos [OF n(2,3), of m "buf + 1"]
    show ?thesis by (simp add: itoa_def dec_int_def Let_def)
  qed
qed

text \<open>Reading the digits back.\<close>

definition dec_value :: "u8 list \<Rightarrow> int" where
  "dec_value ds = fold (\<lambda>d v. 10 * v + numeric_char_to_digit d) ds 0"

definition parse_dec :: "u8 list \<Rightarrow> int" where
  "parse_dec s = (case s of [] \<Rightarrow> 0 | c # ds \<Rightarrow> if c = 45 then - dec_value ds else dec_value s)"

lemma numeric_char_digit: "d < 10 \<Longrightarrow> numeric_char_to_digit (48 + word_of_nat d) = int d"
proof -
  assume "d < 10"
  then have "d \<in> set [0..<10]" by simp
  then show ?thesis by (auto simp: numeric_char_to_digit_def upt_rec)
qed

lemma dec_value_dec_nat: "dec_value (dec_nat n) = int n"
proof (induction n rule: dec_nat.induct)
  case (1 n)
  have "10 * int (n div 10) + int (n mod 10) = int n" by (simp add: zdiv_int zmod_int)
  with "1.IH" show ?case
    by (cases "n < 10") (auto simp: dec_nat.simps [of n] dec_value_def numeric_char_digit)
qed

lemma dec_nat_digits: "set (dec_nat n) \<subseteq> {48, 49, 50, 51, 52, 53, 54, 55, 56, 57}"
proof (induction n rule: dec_nat.induct)
  case (1 n)
  have digit: "48 + word_of_nat d \<in> {48, 49, 50, 51, 52, 53, 54, 55, 56, 57 :: u8}" if "d < 10" for d
  proof -
    from that have "d \<in> set [0..<10]" by simp
    then show ?thesis by (auto simp: upt_rec)
  qed
  show ?case
  proof (cases "n < 10")
    case True
    then show ?thesis using digit [of n] by (subst dec_nat.simps) simp
  next
    case False
    then show ?thesis using "1.IH" digit [of "n mod 10"] by (subst dec_nat.simps) simp
  qed
qed

lemma zero_notin_dec_nat [simp]: "0 \<notin> set (dec_nat n)"
  using dec_nat_digits [of n] by auto

lemma parse_dec_int: "parse_dec (dec_int v) = v"
proof (cases "v < 0")
  case True
  then show ?thesis by (simp add: parse_dec_def dec_int_def dec_value_dec_nat)
next
  case False
  obtain c ds where "dec_nat (nat v) = c # ds" by (cases "dec_nat (nat v)") auto
  with False dec_nat_digits [of "nat v"] dec_value_dec_nat [of "nat v"] show ?thesis
    by (auto simp: parse_dec_def dec_int_def)
qed

lemma itoa_cstring:
  assumes "c_int c \<noteq> - (2 ^ 31)"
  shows "cstring (itoa m c buf) buf (dec_int (c_int c))"
proof -
  let ?s = "dec_int (c_int c)"
  have "0 \<notin> set ?s" by (simp add: dec_int_def)
  moreover have "length (?s @ [0]) < 2 ^ 32"
    using length_dec_nat [of "nat (c_int c)"] length_dec_nat [of "nat (- c_int c)"] c_int_range [of c]
    by (auto simp: dec_int_def)
  moreover from this have "bytes (itoa m c buf) buf (length (?s @ [0])) = ?s @ [0]"
    using itoa_write_bytes [OF assms, of m buf] bytes_write_bytes [of "?s @ [0]"] by simp
  ultimately show ?thesis by (simp add: cstring_def bytes_Suc)
qed

section \<open>Properties\<close>

text \<open>
  C34: \<open>memset\<close>, which stores four bytes at a time, fills exactly the \<open>n\<close> bytes at
  \<open>s\<close> with the byte \<open>(char)c\<close> and changes nothing else, for every byte below 128
  and for 255, which are the values the kernel passes.
\<close>

theorem memset_fills:
  assumes "word_of_int c < (128 :: u8) \<or> word_of_int c = (255 :: u8)"
  shows "memset m s c n = fill_mem m s (unat n) (word_of_int c)"
  using assms by (intro memset_fill_mem memset_dword_low)

theorem memset_fills_witness:
  "memset (\<lambda>_. 7) 4294967294 32 5 = fill_mem (\<lambda>_. 7) 4294967294 5 32"
  using memset_fills [of 32 "\<lambda>_. 7" 4294967294 5] by simp

text \<open>
  For the other bytes with the top bit set \<open>memset\<close> is wrong: the byte is sign
  extended before it is shifted, so \<open>memset(s, 0x80, 4)\<close> stores 0x80 0xFF 0xFF 0xFF.
\<close>

theorem memset_sign_extension: "bytes (memset m s 128 4) s 4 = [128, 255, 255, 255]"
  by (simp add: memset_def memset_dword_def bytes_def store32_def upt_rec)

text \<open>
  \<open>memcpy\<close> copies the \<open>n\<close> bytes at \<open>source\<close> to \<open>dest\<close> and changes nothing
  else when the two regions do not overlap.
\<close>

theorem memcpy_copies:
  assumes "regions_disjoint dest (unat n) source (unat n)"
  shows "bytes (memcpy m dest source n) dest (unat n) = bytes m source (unat n)
    \<and> (\<forall>a. \<not> in_region a dest (unat n) \<longrightarrow> memcpy m dest source n a = m a)"
  using unat_lt_2p32 [of n]
  by (simp add: memcpy_copy_mem [OF assms] bytes_copy_mem copy_mem_outside)

theorem memcpy_copies_witness:
  "bytes (memcpy (\<lambda>a. ucast a) 200 100 7) 200 7 = bytes (\<lambda>a. ucast a) 100 7
    \<and> memcpy (\<lambda>a. ucast a) 200 100 7 207 = 207"
  using memcpy_copies [of 200 7 100 "\<lambda>a. ucast a"]
  by (auto simp: regions_disjoint_def in_region_def dest!: spec [where x = 207])

text \<open>
  On two C strings \<open>strcmp\<close> terminates; its result is 0 exactly for equal strings,
  and is otherwise the difference of the first two characters that differ, read as signed.
\<close>

theorem strcmp_compares:
  assumes "cstring m s1 as" "cstring m s2 bs"
  shows "strcmp m s1 s2 = Some (list_cmp as bs) \<and> (strcmp m s1 s2 = Some 0 \<longleftrightarrow> as = bs)"
  using assms list_cmp_eq_0 [of as bs] by (simp add: strcmp_cstring cstring_def)

theorem strcmp_compares_witness:
  "strcmp (write_bytes (\<lambda>_. 0) 0 [65, 66, 0, 65, 67, 0]) 0 3 = Some (list_cmp [65, 66] [65, 67])
   \<and> (strcmp (write_bytes (\<lambda>_. 0) 0 [65, 66, 0, 65, 67, 0]) 0 3 = Some 0 \<longleftrightarrow> [65, 66] = [65, 67 :: u8])"
  by (rule strcmp_compares) (simp_all add: cstring_def bytes_def write_bytes_def in_region_def upt_rec)

text \<open>
  For \<open>n > 0\<close>, \<open>strncmp\<close> always returns, whatever memory holds; it returns 0
  exactly when the strings agree in their first \<open>n\<close> characters.
\<close>

theorem strncmp_compares:
  assumes "0 < n"
  shows "\<exists>r. strncmp m s1 s2 n = Some r \<and> (r = 0 \<longleftrightarrow> zbytes m s1 (unat n) = zbytes m s2 (unat n))"
  using strncmp_zbytes [OF assms, of m s1 s2] list_cmp_eq_0 by simp

theorem strncmp_compares_witness:
  "\<exists>r. strncmp (\<lambda>a. ucast a) 1 257 8 = Some r
     \<and> (r = 0 \<longleftrightarrow> zbytes (\<lambda>a. ucast a) 1 8 = zbytes (\<lambda>a. ucast a) 257 8)"
  using strncmp_compares [of 8 "\<lambda>a. ucast a" 1 257] by simp

text \<open>
  \<open>strncpy\<close> writes exactly \<open>n\<close> bytes: the characters of the source string (at
  most \<open>n\<close> of them) and then zeros, and nothing outside them.
\<close>

theorem strncpy_copies_and_pads:
  assumes "regions_disjoint dest (unat n) src (unat n)"
  shows "bytes (strncpy m dest src n) dest (unat n)
      = zbytes m src (unat n) @ replicate (unat n - length (zbytes m src (unat n))) 0
    \<and> (\<forall>a. \<not> in_region a dest (unat n) \<longrightarrow> strncpy m dest src n a = m a)"
proof -
  let ?out = "zbytes m src (unat n) @ replicate (unat n - length (zbytes m src (unat n))) 0"
  have len: "length ?out = unat n" using length_zbytes_le [of m src "unat n"] by simp
  then have "length ?out \<le> 2 ^ 32" using unat_lt_2p32 [of n] by simp
  from bytes_write_bytes [OF this, of m dest] len show ?thesis
    by (simp add: strncpy_write_bytes [OF assms] write_bytes_outside)
qed

theorem strncpy_copies_and_pads_witness:
  "bytes (strncpy (\<lambda>a. ucast a) 100 250 8) 100 8
      = zbytes (\<lambda>a. ucast a) 250 8 @ replicate (8 - length (zbytes (\<lambda>a. ucast a) 250 8)) 0
    \<and> strncpy (\<lambda>a. ucast a) 100 250 8 108 = 108"
  using strncpy_copies_and_pads [of 100 8 250 "\<lambda>a. ucast a"]
  by (auto simp: regions_disjoint_def in_region_def dest!: spec [where x = 108])

text \<open>
  C33: \<open>itoa\<close> leaves at \<open>buf\<close> a C string that reads back, as a decimal number, as
  the low 32 bits of \<open>c\<close> taken as a signed integer, for every value but \<open>INT_MIN\<close>,
  and touches no byte outside that string.
\<close>

theorem itoa_roundtrip:
  assumes "c_int c \<noteq> - (2 ^ 31)"
  shows "\<exists>s. cstring (itoa m c buf) buf s \<and> parse_dec s = c_int c
    \<and> (\<forall>a. \<not> in_region a buf (length s + 1) \<longrightarrow> itoa m c buf a = m a)"
  using itoa_cstring [OF assms, of m buf] itoa_write_bytes [OF assms, of m buf] parse_dec_int [of "c_int c"]
    write_bytes_outside [of _ buf "dec_int (c_int c) @ [0]" m] by (intro exI [of _ "dec_int (c_int c)"]) simp

theorem itoa_roundtrip_witness:
  "\<exists>s. cstring (itoa (\<lambda>_. 1) 3221225472 64) 64 s \<and> parse_dec s = -1073741824"
proof -
  have "c_int 3221225472 = -1073741824" by (simp add: c_int_def signed_take_bit_eq_take_bit_minus)
  then show ?thesis using itoa_roundtrip [of 3221225472 "\<lambda>_. 1" 64] by auto
qed

text \<open>
  \<open>strcasecmp\<close> does not compare: it answers 0, equal, for any string and any
  extension of it, because it returns the difference of the last two characters that
  agreed instead of the ones that ended the loop.
\<close>

theorem strcasecmp_prefix_equal:
  assumes "cstring m s1 as" "cstring m s2 (as @ bs)"
  shows "strcasecmp m s1 s2 = Some 0"
  using strcasecmp_loop_prefix [OF assms] by (simp add: strcasecmp_def)

theorem strcasecmp_prefix_equal_witness:
  "strcasecmp (write_bytes (\<lambda>_. 0) 0 [65, 66, 0, 65, 66, 67, 0]) 0 3 = Some 0"
  by (rule strcasecmp_prefix_equal [of _ 0 "[65, 66]" 3 "[67]"])
    (simp_all add: cstring_def bytes_def write_bytes_def in_region_def upt_rec)

end
