(* ===== verification/Heap_C.thy ===== *)
theory Heap_C
  imports String_C
begin

text \<open>
  The block allocator, \<^verbatim>\<open>src/memory/heap.h\<close> and \<^verbatim>\<open>src/memory/heap.c\<close>. The
  table of one byte per block lives in the byte memory at \<open>ht_entries\<close>, as in the C
  code, so an index past the end of the table reads and writes whatever memory follows.
  Part 1 is the code; part 2 the abstract allocation map, the invariant that ties table
  and map together, and what each operation does to them.
\<close>

section \<open>The code\<close>

abbreviation KERNEL_HEAP_BLOCK_SIZE :: u32 where
  "KERNEL_HEAP_BLOCK_SIZE \<equiv> 4096"

definition HEAP_MEMORY_BLOCK_FREE :: u8 where "HEAP_MEMORY_BLOCK_FREE = 0"
definition HEAP_MEMORY_BLOCK_TAKEN :: u8 where "HEAP_MEMORY_BLOCK_TAKEN = 1"
definition HEAP_MEMORY_BLOCK_HAS_NEXT :: u8 where "HEAP_MEMORY_BLOCK_HAS_NEXT = 128"
definition HEAP_MEMORY_BLOCK_IS_FIRST :: u8 where "HEAP_MEMORY_BLOCK_IS_FIRST = 64"

definition BLOCK_TEST_FREE :: "u8 \<Rightarrow> bool" where
  "BLOCK_TEST_FREE b \<longleftrightarrow> b = HEAP_MEMORY_BLOCK_FREE"
definition BLOCK_TEST_TAKEN :: "u8 \<Rightarrow> bool" where
  "BLOCK_TEST_TAKEN b \<longleftrightarrow> b AND HEAP_MEMORY_BLOCK_TAKEN \<noteq> 0"
definition BLOCK_TEST_FIRST :: "u8 \<Rightarrow> bool" where
  "BLOCK_TEST_FIRST b \<longleftrightarrow> b AND HEAP_MEMORY_BLOCK_IS_FIRST \<noteq> 0"
definition BLOCK_SET_TAKEN :: "u8 \<Rightarrow> u8" where
  "BLOCK_SET_TAKEN b = b OR HEAP_MEMORY_BLOCK_TAKEN"
definition BLOCK_SET_NEXT :: "u8 \<Rightarrow> u8" where
  "BLOCK_SET_NEXT b = b OR HEAP_MEMORY_BLOCK_HAS_NEXT"
definition BLOCK_SET_NO_NEXT :: "u8 \<Rightarrow> u8" where
  "BLOCK_SET_NO_NEXT b = b AND NOT HEAP_MEMORY_BLOCK_HAS_NEXT"
definition BLOCK_SET_FIRST :: "u8 \<Rightarrow> u8" where
  "BLOCK_SET_FIRST b = b OR HEAP_MEMORY_BLOCK_IS_FIRST"
definition BLOCK_SET_NOT_FIRST :: "u8 \<Rightarrow> u8" where
  "BLOCK_SET_NOT_FIRST b = b AND NOT HEAP_MEMORY_BLOCK_IS_FIRST"

lemmas block_defs = HEAP_MEMORY_BLOCK_FREE_def HEAP_MEMORY_BLOCK_TAKEN_def
  HEAP_MEMORY_BLOCK_HAS_NEXT_def HEAP_MEMORY_BLOCK_IS_FIRST_def
  BLOCK_TEST_FREE_def BLOCK_TEST_TAKEN_def BLOCK_TEST_FIRST_def
  BLOCK_SET_TAKEN_def BLOCK_SET_NEXT_def BLOCK_SET_NO_NEXT_def BLOCK_SET_FIRST_def
  BLOCK_SET_NOT_FIRST_def

record heap_table =
  ht_entries :: addr
  ht_len :: u32
  ht_in_use :: u32

text \<open>
  \<open>struct heap\<close> points to its table; the only table of the kernel is reached only
  through its heap, so the record holds the table itself.
\<close>

record heap =
  hp_table :: heap_table
  hp_base_addr :: addr
  hp_last_allocated_block :: u32

definition heap_validate_table :: "addr \<Rightarrow> addr \<Rightarrow> heap_table \<Rightarrow> int" where
  "heap_validate_table ptr end_addr table =
     (let table_size = end_addr - ptr; total_blocks = table_size div KERNEL_HEAP_BLOCK_SIZE
      in if ht_len table \<noteq> total_blocks then - EINVAL else 0)"

definition heap_validate_alignment :: "addr \<Rightarrow> bool" where
  "heap_validate_alignment ptr \<longleftrightarrow> ptr mod KERNEL_HEAP_BLOCK_SIZE = 0"

definition heap_create :: "mem \<Rightarrow> heap \<Rightarrow> addr \<Rightarrow> addr \<Rightarrow> heap_table \<Rightarrow> int \<times> heap \<times> mem" where
  "heap_create m hp ptr end_addr table =
     (if \<not> heap_validate_alignment ptr \<or> \<not> heap_validate_alignment end_addr then (- EINVAL, hp, m)
      else let hp' = \<lparr>hp_table = table, hp_base_addr = ptr, hp_last_allocated_block = 0\<rparr>
           in if heap_validate_table ptr end_addr table \<noteq> 0 then (- EINVAL, hp', m)
              else (0, hp', memset m (ht_entries table) (uint HEAP_MEMORY_BLOCK_FREE) (ht_len table)))"

definition size_to_nblocks :: "u32 \<Rightarrow> u32" where
  "size_to_nblocks sz =
     sz div KERNEL_HEAP_BLOCK_SIZE + (if sz mod KERNEL_HEAP_BLOCK_SIZE \<noteq> 0 then 1 else 0)"

text \<open>
  The search loop of \<open>find_first_block\<close>: \<open>i\<close> the block looked at, \<open>last_block\<close> the field
  \<open>last_allocated_block\<close> the loop writes, \<open>found\<close> and \<open>remaining\<close> the local \<open>int\<close>s.
  \<open>None\<close> is a search that never ends.
\<close>

partial_function (option) find_first_block_loop ::
  "mem \<Rightarrow> heap_table \<Rightarrow> u32 \<Rightarrow> u32 \<Rightarrow> u32 \<Rightarrow> int \<Rightarrow> u32 \<Rightarrow> (u32 \<times> int \<times> u32) option" where
  "find_first_block_loop m t n_blocks i last_block found remaining =
     (if i \<noteq> last_block \<and> remaining \<noteq> 0
      then if BLOCK_TEST_TAKEN (m (ht_entries t + i))
           then find_first_block_loop m t n_blocks ((i + 1) mod ht_len t) 0 (- 1) n_blocks
           else find_first_block_loop m t n_blocks ((i + 1) mod ht_len t) i
                  (if found = - 1 then sint i else found) (remaining - 1)
      else Some (last_block, found, remaining))"

definition find_first_block :: "mem \<Rightarrow> heap \<Rightarrow> u32 \<Rightarrow> (int \<times> heap) option" where
  "find_first_block m hp n_blocks =
     (case find_first_block_loop m (hp_table hp) n_blocks (hp_last_allocated_block hp + 1)
             (hp_last_allocated_block hp) (- 1) n_blocks of
        None \<Rightarrow> None
      | Some (last_block, found_block, remaining_blocks) \<Rightarrow>
          Some (if remaining_blocks \<noteq> 0 then - ENOMEM else found_block,
                hp\<lparr>hp_last_allocated_block := last_block\<rparr>))"

function heap_reserve_loop :: "mem \<Rightarrow> addr \<Rightarrow> u32 \<Rightarrow> u32 \<Rightarrow> mem" where
  "heap_reserve_loop m heap_entries j end_block =
     (if j < end_block
      then heap_reserve_loop
             (store8 m (heap_entries + j)
               (BLOCK_SET_NEXT (BLOCK_SET_NOT_FIRST (BLOCK_SET_TAKEN (m (heap_entries + j))))))
             heap_entries (j + 1) end_block
      else m)"
  by pat_completeness auto
termination
  by (relation "measure (\<lambda>(m, e, j, end_block). unat end_block - unat j)") (auto intro: unat_inc_measure)

definition heap_reserve_blocks :: "mem \<Rightarrow> heap \<Rightarrow> u32 \<Rightarrow> u32 \<Rightarrow> mem" where
  "heap_reserve_blocks m hp first_block n_blocks =
     (let heap_entries = ht_entries (hp_table hp);
          end_block = first_block + n_blocks;
          m1 = heap_reserve_loop m heap_entries first_block end_block;
          m2 = store8 m1 (heap_entries + first_block) (BLOCK_SET_FIRST (m1 (heap_entries + first_block)))
      in store8 m2 (heap_entries + (end_block - 1)) (BLOCK_SET_NO_NEXT (m2 (heap_entries + (end_block - 1)))))"

definition heap_block_to_addr :: "heap \<Rightarrow> u32 \<Rightarrow> addr" where
  "heap_block_to_addr hp block_index = hp_base_addr hp + block_index * KERNEL_HEAP_BLOCK_SIZE"

definition heap_addr_to_block :: "heap \<Rightarrow> addr \<Rightarrow> u32" where
  "heap_addr_to_block hp ptr = (ptr - hp_base_addr hp) div KERNEL_HEAP_BLOCK_SIZE"

definition heap_add_in_use :: "heap \<Rightarrow> u32 \<Rightarrow> heap" where
  "heap_add_in_use hp n = hp\<lparr>hp_table := (hp_table hp)\<lparr>ht_in_use := ht_in_use (hp_table hp) + n\<rparr>\<rparr>"

definition heap_malloc_blocks :: "mem \<Rightarrow> heap \<Rightarrow> u32 \<Rightarrow> (addr \<times> heap \<times> mem) option" where
  "heap_malloc_blocks m hp n_blocks =
     (case find_first_block m hp n_blocks of
        None \<Rightarrow> None
      | Some (first_block, hp1) \<Rightarrow>
          if first_block < 0 then Some (0, hp1, m)
          else let b = word_of_int first_block;
                   m1 = heap_reserve_blocks m hp1 b n_blocks;
                   hp2 = heap_add_in_use hp1 n_blocks
               in Some (heap_block_to_addr hp2 b, hp2, m1))"

definition heap_malloc :: "mem \<Rightarrow> heap \<Rightarrow> u32 \<Rightarrow> (addr \<times> heap \<times> mem) option" where
  "heap_malloc m hp sz =
     (let n_blocks = size_to_nblocks sz
      in if n_blocks = 0 then Some (NULL, hp, m) else heap_malloc_blocks m hp n_blocks)"

partial_function (option) heap_free_loop ::
  "mem \<Rightarrow> addr \<Rightarrow> u32 \<Rightarrow> u32 \<Rightarrow> (mem \<times> u32) option" where
  "heap_free_loop m heap_entries block in_use =
     (if \<not> BLOCK_TEST_FREE (m (heap_entries + block)) \<and> \<not> BLOCK_TEST_FIRST (m (heap_entries + block))
      then heap_free_loop (store8 m (heap_entries + block) HEAP_MEMORY_BLOCK_FREE)
             heap_entries (block + 1) (in_use - 1)
      else Some (m, in_use))"

definition heap_free :: "mem \<Rightarrow> heap \<Rightarrow> addr \<Rightarrow> (heap \<times> mem) option" where
  "heap_free m hp ptr =
     (let heap_entries = ht_entries (hp_table hp);
          block = heap_addr_to_block hp ptr;
          m1 = memset m ptr 0xFF KERNEL_HEAP_BLOCK_SIZE
      in if \<not> BLOCK_TEST_FIRST (m1 (heap_entries + block)) then Some (hp, m1)
         else case heap_free_loop (store8 m1 (heap_entries + block) HEAP_MEMORY_BLOCK_FREE)
                     heap_entries (block + 1) (ht_in_use (hp_table hp) - 1) of
                None \<Rightarrow> None
              | Some (m2, in_use) \<Rightarrow> Some (hp\<lparr>hp_table := (hp_table hp)\<lparr>ht_in_use := in_use\<rparr>\<rparr>, m2))"

definition count_used_blocks :: "mem \<Rightarrow> heap \<Rightarrow> u32" where
  "count_used_blocks m hp =
     fold (\<lambda>i count. if BLOCK_TEST_TAKEN (m (ht_entries (hp_table hp) + word_of_nat i)) then count + 1 else count)
       [0..<unat (ht_len (hp_table hp))] 0"

declare heap_reserve_loop.simps [simp del]

section \<open>Allocation maps\<close>

text \<open>
  The abstract state of the allocator is the map from the first block of every live
  allocation to its length in blocks. A table of \<open>L\<close> entries \<open>e\<close> represents a map
  when each allocation is marked the way \<open>heap_reserve_blocks\<close> marks it and every
  entry that is not free belongs to an allocation.
\<close>

definition alloc_entry :: "nat \<Rightarrow> nat \<Rightarrow> u8" where
  "alloc_entry k n = HEAP_MEMORY_BLOCK_TAKEN OR (if k = 0 then HEAP_MEMORY_BLOCK_IS_FIRST else 0)
     OR (if Suc k < n then HEAP_MEMORY_BLOCK_HAS_NEXT else 0)"

definition owner :: "(nat \<rightharpoonup> nat) \<Rightarrow> nat \<Rightarrow> nat \<Rightarrow> bool" where
  "owner A b i \<longleftrightarrow> (case A b of None \<Rightarrow> False | Some n \<Rightarrow> b \<le> i \<and> i < b + n)"

definition table_rep :: "(nat \<Rightarrow> u8) \<Rightarrow> nat \<Rightarrow> (nat \<rightharpoonup> nat) \<Rightarrow> bool" where
  "table_rep e L A \<longleftrightarrow>
     (\<forall>b n. A b = Some n \<longrightarrow> 0 < n \<and> b + n \<le> L \<and> (\<forall>k<n. e (b + k) = alloc_entry k n))
     \<and> (\<forall>i<L. e i \<noteq> 0 \<longrightarrow> (\<exists>b. owner A b i))"

lemma alloc_entry_tests [simp]:
  "BLOCK_TEST_TAKEN (alloc_entry k n)" "BLOCK_TEST_FIRST (alloc_entry k n) \<longleftrightarrow> k = 0"
  "alloc_entry k n \<noteq> 0" "\<not> BLOCK_TEST_FREE (alloc_entry k n)"
  by (simp_all add: alloc_entry_def block_defs)

lemma block_test_0 [simp]: "\<not> BLOCK_TEST_TAKEN 0" "\<not> BLOCK_TEST_FIRST 0" "BLOCK_TEST_FREE 0"
  by (simp_all add: block_defs)

lemma owner_Some: "A b = Some n \<Longrightarrow> owner A b i \<longleftrightarrow> b \<le> i \<and> i < b + n"
  by (simp add: owner_def)

lemma table_repD:
  assumes "table_rep e L A" "A b = Some n"
  shows "0 < n" "b + n \<le> L" "k < n \<Longrightarrow> e (b + k) = alloc_entry k n"
    "b \<le> i \<Longrightarrow> i < b + n \<Longrightarrow> e i = alloc_entry (i - b) n"
proof -
  show "0 < n" "b + n \<le> L" and at: "k < n \<Longrightarrow> e (b + k) = alloc_entry k n" for k
    using assms by (auto simp: table_rep_def)
  show "e i = alloc_entry (i - b) n" if "b \<le> i" "i < b + n"
    using at [of "i - b"] that by simp
qed

lemma table_rep_owner: "table_rep e L A \<Longrightarrow> i < L \<Longrightarrow> e i \<noteq> 0 \<Longrightarrow> \<exists>b. owner A b i"
  by (simp add: table_rep_def)

lemma owner_taken:
  assumes "table_rep e L A" "owner A b i"
  shows "i < L" "\<exists>k n. A b = Some n \<and> k < n \<and> i = b + k \<and> e i = alloc_entry k n"
proof -
  from assms obtain n where n: "A b = Some n" "b \<le> i" "i < b + n"
    by (auto simp: owner_def split: option.splits)
  then have "i - b < n" "i = b + (i - b)" by auto
  with n table_repD [OF assms(1) n(1)]
  show "i < L" "\<exists>k n. A b = Some n \<and> k < n \<and> i = b + k \<and> e i = alloc_entry k n"
    by auto
qed

lemma table_rep_disjoint:
  assumes "table_rep e L A" "A b = Some n" "A b' = Some n'" "b < b'"
  shows "b + n \<le> b'"
proof (rule ccontr)
  assume "\<not> b + n \<le> b'"
  then have "e b' = alloc_entry (b' - b) n"
    using table_repD(4) [OF assms(1,2), of b'] assms(4) by simp
  moreover have "e b' = alloc_entry 0 n'"
    using table_repD(1) [OF assms(1,3)] table_repD(3) [OF assms(1,3), of 0] by simp
  ultimately show False
    using alloc_entry_tests(2) [of "b' - b" n] alloc_entry_tests(2) [of 0 n'] assms(4) by simp
qed

lemma owner_unique:
  assumes "table_rep e L A" "owner A b i" "owner A b' i"
  shows "b = b'"
proof (rule ccontr)
  assume ne: "b \<noteq> b'"
  from assms(2,3) obtain n n' where A: "A b = Some n" "A b' = Some n'"
    and i: "b \<le> i" "i < b + n" "b' \<le> i" "i < b' + n'"
    by (auto simp: owner_def split: option.splits)
  show False
    using ne i table_rep_disjoint [OF assms(1) A] table_rep_disjoint [OF assms(1) A(2,1)]
    by (cases "b < b'") auto
qed

lemma table_rep_next:
  assumes "table_rep e L A" "A b = Some n" "b + n < L"
  shows "e (b + n) = 0 \<or> BLOCK_TEST_FIRST (e (b + n))"
proof (rule disjCI)
  assume "\<not> BLOCK_TEST_FIRST (e (b + n))"
  show "e (b + n) = 0"
  proof (rule ccontr)
    assume "e (b + n) \<noteq> 0"
    then obtain b' where o: "owner A b' (b + n)" using table_rep_owner [OF assms(1,3)] by blast
    from owner_taken [OF assms(1) o] obtain k n' where k: "A b' = Some n'" "k < n'" "b + n = b' + k"
      "e (b + n) = alloc_entry k n'" by auto
    have "k \<noteq> 0" using k(4) \<open>\<not> BLOCK_TEST_FIRST (e (b + n))\<close> by auto
    moreover have "0 < n" using table_repD(1) [OF assms(1,2)] .
    ultimately show False
      using k table_rep_disjoint [OF assms(1,2) k(1)] table_rep_disjoint [OF assms(1) k(1) assms(2)] assms(2)
      by (cases "b < b'"; cases "b' < b") auto
  qed
qed

lemma table_rep_empty: "table_rep (\<lambda>_. 0) L Map.empty"
  by (simp add: table_rep_def)

lemma table_rep_cong:
  assumes "\<And>i. i < L \<Longrightarrow> e i = e' i" "table_rep e L A"
  shows "table_rep e' L A"
  unfolding table_rep_def
proof (intro conjI allI impI)
  fix b n assume A: "A b = Some n"
  note rep = table_repD [OF assms(2) A]
  show "0 < n" "b + n \<le> L" by (fact rep)+
  fix k assume "k < n"
  then show "e' (b + k) = alloc_entry k n" using rep(2) rep(3) [of k] assms(1) [of "b + k"] by simp
next
  fix i assume "i < L" "e' i \<noteq> 0"
  then show "\<exists>b. owner A b i" using table_rep_owner [OF assms(2)] assms(1) by simp
qed

lemma table_rep_alloc:
  assumes "table_rep e L A" "0 < n" "j + n \<le> L" "\<And>k. k < n \<Longrightarrow> e (j + k) = 0"
  shows "table_rep (\<lambda>i. if j \<le> i \<and> i < j + n then alloc_entry (i - j) n else e i) L (A(j \<mapsto> n))"
    (is "table_rep ?e L ?A")
  unfolding table_rep_def
proof (intro conjI allI impI)
  have free: "e i = 0" if "j \<le> i" "i < j + n" for i
    using assms(4) [of "i - j"] that by simp
  have none: "A j = None"
    using table_repD(1) [OF assms(1)] table_repD(3) [OF assms(1), of j _ 0] free [of j] assms(2)
    by (cases "A j") auto
  fix b l assume b: "?A b = Some l"
  show "0 < l" "b + l \<le> L"
    using b assms(2,3) table_repD(1,2) [OF assms(1), of b l] by (auto split: if_splits)
  fix k assume k: "k < l"
  show "?e (b + k) = alloc_entry k l"
  proof (cases "b = j")
    case False
    then have "e (b + k) = alloc_entry k l"
      using b k table_repD(3) [OF assms(1), of b l k] by simp
    then show ?thesis using free [of "b + k"] by auto
  qed (use b k in auto)
next
  fix i assume i: "i < L" "?e i \<noteq> 0"
  show "\<exists>b. owner ?A b i"
  proof (cases "j \<le> i \<and> i < j + n")
    case True
    then show ?thesis by (auto simp: owner_def intro!: exI [of _ j])
  next
    case False
    then obtain b where b: "owner A b i"
      using i table_rep_owner [OF assms(1), of i] by (auto split: if_splits)
    have "A j = None"
      using assms(4) [of 0] table_repD(1) [OF assms(1)] table_repD(3) [OF assms(1), of j _ 0] assms(2)
      by (cases "A j") auto
    with b show ?thesis by (auto simp: owner_def intro!: exI [of _ b])
  qed
qed

lemma table_rep_free:
  assumes "table_rep e L A" "A b = Some n"
  shows "table_rep (\<lambda>i. if b \<le> i \<and> i < b + n then 0 else e i) L (A(b := None))"
    (is "table_rep ?e L ?A")
  unfolding table_rep_def
proof (intro conjI allI impI)
  fix c l assume "?A c = Some l"
  then have c: "A c = Some l" "c \<noteq> b" by (auto split: if_splits)
  show "0 < l" "c + l \<le> L" using table_repD(1,2) [OF assms(1) c(1)] by auto
  fix k assume k: "k < l"
  have "owner A c (c + k)" using c k by (simp add: owner_Some)
  then have "\<not> owner A b (c + k)" using owner_unique [OF assms(1), of c "c + k" b] c(2) by auto
  then show "?e (c + k) = alloc_entry k l"
    using table_repD(3) [OF assms(1) c(1) k] assms(2) by (simp add: owner_Some)
next
  fix i assume i: "i < L" "?e i \<noteq> 0"
  then obtain c where c: "owner A c i" using table_rep_owner [OF assms(1)] by (auto split: if_splits)
  then have "c \<noteq> b" using i assms(2) by (auto simp: owner_Some split: if_splits)
  with c show "\<exists>c. owner ?A c i" by (auto simp: owner_def)
qed

text \<open>How many blocks are in use.\<close>

definition used :: "(nat \<Rightarrow> u8) \<Rightarrow> nat \<Rightarrow> nat" where
  "used e L = card {i. i < L \<and> e i \<noteq> 0}"

lemma used_alloc:
  assumes "j + n \<le> L" "\<And>k. k < n \<Longrightarrow> e (j + k) = 0"
  shows "used (\<lambda>i. if j \<le> i \<and> i < j + n then alloc_entry (i - j) n else e i) L = used e L + n"
proof -
  have "e i = 0" if "j \<le> i" "i < j + n" for i using assms(2) [of "i - j"] that by simp
  then have "{i. i < L \<and> (if j \<le> i \<and> i < j + n then alloc_entry (i - j) n else e i) \<noteq> 0}
      = {i. i < L \<and> e i \<noteq> 0} \<union> {j..<j + n}" "{i. i < L \<and> e i \<noteq> 0} \<inter> {j..<j + n} = {}"
    using assms(1) by auto
  then show ?thesis by (simp add: used_def card_Un_disjoint)
qed

lemma used_free:
  assumes "b + n \<le> L" "\<And>k. k < n \<Longrightarrow> e (b + k) \<noteq> 0"
  shows "used e L = used (\<lambda>i. if b \<le> i \<and> i < b + n then 0 else e i) L + n"
proof -
  have "e i \<noteq> 0" if "b \<le> i" "i < b + n" for i using assms(2) [of "i - b"] that by simp
  then have "{i. i < L \<and> e i \<noteq> 0}
      = {i. i < L \<and> (if b \<le> i \<and> i < b + n then 0 else e i) \<noteq> 0} \<union> {b..<b + n}"
    "{i. i < L \<and> (if b \<le> i \<and> i < b + n then 0 else e i) \<noteq> 0} \<inter> {b..<b + n} = {}"
    using assms(1) by (auto split: if_splits)
  then show ?thesis by (simp add: used_def card_Un_disjoint)
qed

lemma used_cong: "(\<And>i. i < L \<Longrightarrow> e i = e' i) \<Longrightarrow> used e L = used e' L"
  unfolding used_def by (rule arg_cong [of _ _ card]) auto

lemma used_le: "used e L \<le> L"
proof -
  have "used e L \<le> card {..<L}" unfolding used_def by (rule card_mono) auto
  then show ?thesis by simp
qed

section \<open>Marking and clearing blocks in memory\<close>

abbreviation entry :: "mem \<Rightarrow> addr \<Rightarrow> nat \<Rightarrow> u8" where
  "entry m E i \<equiv> m (E + word_of_nat i)"

lemma heap_reserve_loop_effect:
  assumes "j \<le> e" "e < 2 ^ 32"
  shows "heap_reserve_loop m E (word_of_nat j) (word_of_nat e) =
    (\<lambda>a. if in_region a (E + word_of_nat j) (e - j)
        then BLOCK_SET_NEXT (BLOCK_SET_NOT_FIRST (BLOCK_SET_TAKEN (m a))) else m a)"
  using assms(1)
proof (induction "e - j" arbitrary: j m)
  case 0
  then show ?case by (subst heap_reserve_loop.simps) simp
next
  case (Suc d)
  then have j: "j < e" "e - j = Suc (e - Suc j)" by auto
  have lt: "(word_of_nat j :: u32) < word_of_nat e"
    using j assms(2) by (simp add: word_less_nat_alt unat_word_of_nat_lt)
  have "e - Suc j < 2 ^ 32" using assms(2) by simp
  note split = in_region_Suc_left(1) [OF this, of _ "E + word_of_nat j"]
    in_region_Suc_left(2) [OF this, of "E + word_of_nat j"]
  show ?case
    using Suc.hyps(1) [of "Suc j"] Suc.hyps(2) j(1) lt split(2) unfolding j(2)
    by (subst heap_reserve_loop.simps) (auto simp: fun_eq_iff store8_apply split(1) ac_simps)
qed

definition alloc_entries :: "nat \<Rightarrow> u8 list" where
  "alloc_entries n = map (\<lambda>k. alloc_entry k n) [0..<n]"

lemma length_alloc_entries [simp]: "length (alloc_entries n) = n"
  by (simp add: alloc_entries_def)

lemma heap_reserve_blocks_effect:
  assumes "0 < n" "b + n < 2 ^ 32" "\<And>k. k < n \<Longrightarrow> entry m E (b + k) = 0" "ht_entries (hp_table hp) = E"
  shows "heap_reserve_blocks m hp (word_of_nat b) (word_of_nat n)
     = write_bytes m (E + word_of_nat b) (alloc_entries n)"
proof
  fix a
  let ?p = "E + word_of_nat b" and ?l = "E + word_of_nat (b + n - 1)"
  have sum: "word_of_nat b + word_of_nat n = (word_of_nat (b + n) :: u32)"
    "word_of_nat (b + n) - 1 = (word_of_nat (b + n - 1) :: u32)"
    using assms(1) by (simp_all add: of_nat_diff)
  have l: "?l = ?p + word_of_nat (n - 1)" using assms(1) by (simp add: of_nat_diff)
  have loop: "heap_reserve_loop m E (word_of_nat b) (word_of_nat (b + n)) =
     (\<lambda>a. if in_region a ?p n then BLOCK_SET_NEXT (BLOCK_SET_NOT_FIRST (BLOCK_SET_TAKEN (m a))) else m a)"
    using heap_reserve_loop_effect [of b "b + n" m E] assms(2) by simp
  show "heap_reserve_blocks m hp (word_of_nat b) (word_of_nat n) a = write_bytes m ?p (alloc_entries n) a"
  proof (cases "in_region a ?p n")
    case True
    then obtain k where k: "k < n" "a = ?p + word_of_nat k" by (metis in_region_exists)
    have inj: "(a = ?p) = (k = 0)" "(a = ?l) = (k = n - 1)"
      unfolding l k(2) using k(1) assms(1,2) word_of_nat_eq_iff_lt [of k "n - 1"] word_of_nat_eq_iff_lt [of k 0]
      by simp_all
    have "m a = 0" using assms(3) [OF k(1)] k(2) by (simp add: ac_simps)
    moreover have "unat (a - ?p) = k" using k assms(2) by (simp add: unat_word_of_nat_lt)
    ultimately show ?thesis
      using True inj k(1) assms(1)
      unfolding heap_reserve_blocks_def Let_def assms(4) sum loop
      by (cases "k = 0"; cases "k = n - 1")
        (simp_all add: store8_apply write_bytes_def alloc_entries_def alloc_entry_def block_defs)
  next
    case False
    have "in_region ?p ?p n" "in_region ?l ?p n"
      unfolding l using assms(1,2) in_region_nth [of 0 ?p n] in_region_nth [of "n - 1" ?p n] by simp_all
    then have "a \<noteq> ?p" "a \<noteq> ?l" using False by auto
    then show ?thesis
      using False unfolding heap_reserve_blocks_def Let_def assms(4) sum loop
      by (simp add: store8_apply write_bytes_outside)
  qed
qed

lemma heap_free_loop_effect:
  assumes "b + n < 2 ^ 32" "\<And>k. k < n \<Longrightarrow> entry m E (b + k) \<noteq> 0 \<and> \<not> BLOCK_TEST_FIRST (entry m E (b + k))"
    and "entry m E (b + n) = 0 \<or> BLOCK_TEST_FIRST (entry m E (b + n))"
  shows "heap_free_loop m E (word_of_nat b) u = Some (fill_mem m (E + word_of_nat b) n 0, u - word_of_nat n)"
  using assms
proof (induction n arbitrary: b m u)
  case 0
  then show ?case by (subst heap_free_loop.simps) (auto simp: block_defs)
next
  case (Suc n)
  let ?m = "store8 m (E + word_of_nat b) 0"
  have at: "entry ?m E (Suc b + k) = entry m E (b + Suc k)" if "k \<le> n" for k
  proof -
    have "word_of_nat (Suc b + k) \<noteq> (word_of_nat b :: u32)"
      using that Suc.prems(1) by (simp add: u32_eq_iff_unat unat_word_of_nat_lt del: of_nat_Suc of_nat_add)
    then show ?thesis by (simp add: store8_apply)
  qed
  have "heap_free_loop ?m E (word_of_nat (Suc b)) (u - 1)
      = Some (fill_mem ?m (E + word_of_nat (Suc b)) n 0, u - 1 - word_of_nat n)"
  proof (rule Suc.IH)
    fix k assume "k < n"
    then show "entry ?m E (Suc b + k) \<noteq> 0 \<and> \<not> BLOCK_TEST_FIRST (entry ?m E (Suc b + k))"
      using Suc.prems(2) [of "Suc k"] at [of k] by simp
  next
    show "entry ?m E (Suc b + n) = 0 \<or> BLOCK_TEST_FIRST (entry ?m E (Suc b + n))"
      using Suc.prems(3) at [of n] by simp
  qed (use Suc.prems(1) in simp)
  moreover have "fill_mem ?m (E + word_of_nat (Suc b)) n 0 = fill_mem m (E + word_of_nat b) (Suc n) 0"
    using in_region_add [of 1 n _ "E + word_of_nat b"] Suc.prems(1)
    by (auto simp: fun_eq_iff fill_mem_def store8_apply ac_simps)
  ultimately show ?case
    using Suc.prems(2) [of 0]
    by (subst heap_free_loop.simps) (simp add: BLOCK_TEST_FREE_def HEAP_MEMORY_BLOCK_FREE_def ac_simps)
qed

text \<open>What a range of table entries overwritten by a list of bytes reads back as.\<close>

lemma entry_write_bytes:
  assumes "i < 2 ^ 32" "j + length xs \<le> 2 ^ 32"
  shows "entry (write_bytes m (E + word_of_nat j) xs) E i
    = (if j \<le> i \<and> i < j + length xs then xs ! (i - j) else entry m E i)"
proof (cases "j \<le> i")
  case True
  then have "E + word_of_nat i = E + word_of_nat j + word_of_nat (i - j)"
    by (simp add: of_nat_diff)
  moreover have "unat (word_of_nat (i - j) :: u32) = i - j" using assms(1) by (intro unat_word_of_nat_lt) simp
  ultimately show ?thesis using True by (auto simp: write_bytes_def in_region_def)
next
  case False
  have "\<not> in_region (E + word_of_nat i) (E + word_of_nat j) (length xs)"
  proof
    assume "in_region (E + word_of_nat i) (E + word_of_nat j) (length xs)"
    then obtain k where "k < length xs" "E + word_of_nat i = E + word_of_nat j + word_of_nat k"
      by (metis in_region_exists)
    then have "(word_of_nat i :: u32) = word_of_nat (j + k)" by (simp add: add.assoc)
    then show False
      using word_of_nat_eq_iff_lt [of i "j + k"] assms \<open>k < length xs\<close> False by simp
  qed
  with False show ?thesis by (simp add: write_bytes_def)
qed

section \<open>The search for free blocks\<close>

abbreviation block_free :: "mem \<Rightarrow> heap_table \<Rightarrow> nat \<Rightarrow> bool" where
  "block_free m t i \<equiv> \<not> BLOCK_TEST_TAKEN (entry m (ht_entries t) i)"

text \<open>The first position from \<open>from\<close> on with \<open>n\<close> free blocks inside the table.\<close>

definition first_fit :: "(nat \<Rightarrow> bool) \<Rightarrow> nat \<Rightarrow> nat \<Rightarrow> nat \<Rightarrow> nat option" where
  "first_fit free from n L = find (\<lambda>j. \<forall>k<n. free (j + k)) [from..<Suc L - n]"

lemma first_fit_Some:
  assumes "first_fit free from n L = Some j"
  shows "from \<le> j" "j + n \<le> L" "k < n \<Longrightarrow> free (j + k)"
    and "from \<le> i \<Longrightarrow> i < j \<Longrightarrow> \<exists>k<n. \<not> free (i + k)"
proof -
  from assms obtain i where i: "i < Suc L - n - from" "\<forall>k<n. free (from + i + k)" "j = from + i"
    "\<forall>i'<i. \<exists>k<n. \<not> free (from + i' + k)"
    by (auto simp: first_fit_def find_Some_iff)
  then show "from \<le> j" "j + n \<le> L" "k < n \<Longrightarrow> free (j + k)" by auto
  show "\<exists>k<n. \<not> free (i + k)" if "from \<le> i" "i < j" for i
    using i(3,4) that by (metis add_diff_inverse_nat add_less_cancel_left not_less)
qed

lemma first_fit_None: "first_fit free from n L = None \<Longrightarrow> from \<le> i \<Longrightarrow> i + n \<le> L \<Longrightarrow> \<exists>k<n. \<not> free (i + k)"
  by (auto simp: first_fit_def find_None_iff)

lemma first_fit_here:
  assumes "\<And>k. k < n \<Longrightarrow> free (from + k)" "0 < n" "from + n \<le> L"
  shows "first_fit free from n L = Some from"
proof -
  have "[from..<Suc L - n] = from # [Suc from..<Suc L - n]" using assms(3) by (simp add: upt_conv_Cons)
  then show ?thesis using assms(1) by (simp add: first_fit_def)
qed

text \<open>One turn of the search loop, with the indices as natural numbers.\<close>

lemma word_of_nat_Suc_mod:
  assumes "Suc i < unat (L :: u32)"
  shows "(word_of_nat i + 1) mod L = word_of_nat (Suc i)"
proof -
  have "unat (word_of_nat (Suc i) :: u32) = Suc i"
    using assms unat_lt_2p32 [of L] by (intro unat_word_of_nat_lt) simp
  then have "unat (word_of_nat (Suc i) mod L) = Suc i" using assms by (simp add: unat_mod)
  then show ?thesis
    using \<open>unat (word_of_nat (Suc i) :: u32) = Suc i\<close> by (simp add: u32_eq_iff_unat add.commute)
qed

lemma sint_word_of_nat: "i < 2 ^ 31 \<Longrightarrow> sint (word_of_nat i :: u32) = int i"
  by (simp add: signed_of_nat signed_take_bit_int_eq_self)

lemma loop_taken:
  assumes "i \<noteq> lb" "rm \<noteq> 0" "BLOCK_TEST_TAKEN (m (ht_entries t + i))"
  shows "find_first_block_loop m t n i lb fd rm
    = find_first_block_loop m t n ((i + 1) mod ht_len t) 0 (- 1) n"
  using assms by (subst find_first_block_loop.simps) simp

lemma loop_free:
  assumes "i \<noteq> lb" "rm \<noteq> 0" "\<not> BLOCK_TEST_TAKEN (m (ht_entries t + i))"
  shows "find_first_block_loop m t n i lb fd rm
    = find_first_block_loop m t n ((i + 1) mod ht_len t) i (if fd = - 1 then sint i else fd) (rm - 1)"
  using assms by (subst find_first_block_loop.simps) simp

lemma loop_wrapped: "find_first_block_loop m t n 0 0 fd rm = Some (0, fd, rm)"
  by (subst find_first_block_loop.simps) simp

lemma loop_done: "find_first_block_loop m t n i lb fd 0 = Some (lb, fd, 0)"
  by (subst find_first_block_loop.simps) simp

text \<open>
  The states the search passes through before it reaches the first fit \<open>j0\<close>: between
  runs, or inside a run of free blocks that started at \<open>j\<close>.
\<close>

definition search_state ::
  "(nat \<Rightarrow> bool) \<Rightarrow> nat \<Rightarrow> nat \<Rightarrow> nat \<Rightarrow> nat \<Rightarrow> u32 \<Rightarrow> int \<Rightarrow> u32 \<Rightarrow> bool" where
  "search_state free from n j0 i lb fd rm \<longleftrightarrow> from \<le> i \<and>
     ((fd = - 1 \<and> rm = word_of_nat n \<and> i \<le> j0 \<and> (lb = 0 \<or> lb = word_of_nat (from - 1)))
      \<or> (\<exists>j. from \<le> j \<and> j \<le> j0 \<and> j < i \<and> i < j + n \<and> fd = int j \<and> rm = word_of_nat (n - (i - j))
           \<and> lb = word_of_nat (i - 1) \<and> (\<forall>k. j \<le> k \<and> k < i \<longrightarrow> free k)))"

lemma search_state_before_fit:
  assumes "search_state free from n j0 i lb fd rm" "0 < n"
    and fit: "\<And>k. k < n \<Longrightarrow> free (j0 + k)"
  shows "i < j0 + n" "\<not> free i \<Longrightarrow> i < j0"
proof -
  show i: "i < j0 + n" using assms(1,2) by (auto simp: search_state_def)
  show "i < j0" if "\<not> free i"
  proof (rule ccontr)
    assume "\<not> i < j0"
    then have "free (j0 + (i - j0))" using i by (intro fit) linarith
    then show False using that \<open>\<not> i < j0\<close> by simp
  qed
qed

lemma search_state_guard:
  assumes "search_state free from n j0 i lb fd rm" "0 < n" "0 < from" "j0 + n \<le> L" "L < 2 ^ 31"
  shows "(word_of_nat i :: u32) \<noteq> lb" "rm \<noteq> 0"
proof -
  have lt: "i < 2 ^ 32" "n < 2 ^ 32" "from - 1 < 2 ^ 32" "i - 1 < 2 ^ 32" "0 < i" "from \<le> i"
    using assms by (auto simp: search_state_def)
  show "(word_of_nat i :: u32) \<noteq> lb"
    using assms(1,3) lt word_of_nat_eq_iff_lt [of i 0] word_of_nat_eq_iff_lt [of i "from - 1"]
      word_of_nat_eq_iff_lt [of i "i - 1"] by (auto simp: search_state_def)
  show "rm \<noteq> 0"
  proof -
    obtain r where "rm = word_of_nat r" "0 < r" "r \<le> n"
      using assms(1,2) by (auto simp: search_state_def simp del: of_nat_diff)
    then show ?thesis using lt word_of_nat_eq_iff_lt [of r 0] by simp
  qed
qed

lemma search_state_taken:
  assumes "search_state free from n j0 i lb fd rm" "i < j0"
  shows "search_state free from n j0 (Suc i) 0 (- 1) (word_of_nat n)"
  using assms by (auto simp: search_state_def)

lemma search_state_free:
  assumes st: "search_state free from n j0 i lb fd rm" and "free i" "0 < n" "i < j0 + n"
    and least: "\<And>i. from \<le> i \<Longrightarrow> i < j0 \<Longrightarrow> \<exists>k<n. \<not> free (i + k)" and "j0 + n < 2 ^ 31"
  shows "(rm - 1 = 0 \<and> (if fd = - 1 then sint (word_of_nat i :: u32) else fd) = int j0 \<and> Suc i = j0 + n)
    \<or> (Suc i < j0 + n \<and> search_state free from n j0 (Suc i) (word_of_nat i)
          (if fd = - 1 then sint (word_of_nat i :: u32) else fd) (rm - 1))"
proof -
  obtain j where j: "from \<le> j" "j \<le> j0" "j \<le> i" "i < j + n"
      "(if fd = - 1 then sint (word_of_nat i :: u32) else fd) = int j"
      "rm - 1 = word_of_nat (n - (Suc i - j))" "\<forall>k. j \<le> k \<and> k < Suc i \<longrightarrow> free k"
  proof (cases "fd = - 1")
    case True
    then have "rm = word_of_nat n" "i \<le> j0" "from \<le> i" using st by (auto simp: search_state_def)
    moreover have "sint (word_of_nat i :: u32) = int i" using assms by (intro sint_word_of_nat) simp
    moreover have "\<forall>k. i \<le> k \<and> k < Suc i \<longrightarrow> free k" using assms(2) by (auto simp: le_less_Suc_eq)
    ultimately show ?thesis using that [of i] True assms(3) by (simp add: of_nat_diff)
  next
    case False
    then obtain j where "from \<le> j" "j \<le> j0" "j < i" "i < j + n" "fd = int j"
      "rm = word_of_nat (n - (i - j))" "\<forall>k. j \<le> k \<and> k < i \<longrightarrow> free k"
      using st unfolding search_state_def by blast
    moreover have "n - (i - j) = Suc (n - (Suc i - j))" using \<open>j < i\<close> \<open>i < j + n\<close> by linarith
    moreover have "\<forall>k. j \<le> k \<and> k < Suc i \<longrightarrow> free k"
      using assms(2) \<open>\<forall>k. j \<le> k \<and> k < i \<longrightarrow> free k\<close> by (auto simp: less_Suc_eq)
    ultimately show ?thesis using that [of j] False by (simp del: of_nat_diff)
  qed
  show ?thesis
  proof (cases "Suc i = j + n")
    case True
    have "j = j0"
    proof (rule ccontr)
      assume "j \<noteq> j0"
      then obtain k where "k < n" "\<not> free (j + k)" using least [of j] j(1,2) by auto
      then show False using j(7) True by auto
    qed
    with True j show ?thesis by simp
  next
    case False
    then have "Suc i < j + n" using j(4) by simp
    with j show ?thesis unfolding search_state_def
      by (intro disjI2 conjI) (auto intro!: exI [of _ j] simp del: of_nat_diff)
  qed
qed

lemma find_loop_first_fit:
  assumes fit: "first_fit (block_free m t) from n (unat (ht_len t)) = Some j0"
    and "0 < n" "0 < from" "unat (ht_len t) < 2 ^ 31"
    and "search_state (block_free m t) from n j0 i lb fd rm"
  shows "find_first_block_loop m t (word_of_nat n) (word_of_nat i) lb fd rm
    = Some (word_of_nat (j0 + n - 1), int j0, 0)"
  using assms(5)
proof (induction "j0 + n - i" arbitrary: i lb fd rm rule: less_induct)
  case less
  note ff = first_fit_Some [OF fit]
  note st = less.prems
  note guard = search_state_guard [OF st assms(2,3) ff(2) assms(4)]
  have i: "i < j0 + n" "\<not> block_free m t i \<Longrightarrow> i < j0"
    using search_state_before_fit [OF st assms(2)] ff(3) by blast+
  show ?case
  proof (cases "block_free m t i")
    case False
    then have "Suc i < unat (ht_len t)" using i ff(2) assms(2) by linarith
    with False guard less.hyps [OF _ search_state_taken [OF st]] i show ?thesis
      by (simp add: loop_taken word_of_nat_Suc_mod del: of_nat_Suc)
  next
    case True
    have small: "j0 + n < 2 ^ 31" using ff(2) assms(4) by linarith
    let ?fd = "if fd = - 1 then sint (word_of_nat i :: u32) else fd"
    have "(rm - 1 = 0 \<and> ?fd = int j0 \<and> Suc i = j0 + n)
      \<or> (Suc i < j0 + n \<and> search_state (block_free m t) from n j0 (Suc i) (word_of_nat i) ?fd (rm - 1))"
      by (rule search_state_free [OF st True assms(2) i(1) _ small]) (rule ff(4))
    then show ?thesis
    proof (elim disjE conjE)
      assume fin: "rm - 1 = 0" "?fd = int j0" "Suc i = j0 + n"
      then have eq: "j0 + n - 1 = i" by simp
      show ?thesis
        unfolding eq using fin(1,2) True guard by (simp add: loop_free loop_done split del: if_split)
    next
      assume go: "Suc i < j0 + n" "search_state (block_free m t) from n j0 (Suc i) (word_of_nat i) ?fd (rm - 1)"
      then have "Suc i < unat (ht_len t)" using ff(2) by linarith
      with True guard less.hyps [OF _ go(2)] i show ?thesis
        by (simp add: loop_free word_of_nat_Suc_mod del: of_nat_Suc)
    qed
  qed
qed

lemma find_first_block_fit:
  assumes "first_fit (block_free m (hp_table hp)) (Suc (unat (hp_last_allocated_block hp))) n
      (unat (ht_len (hp_table hp))) = Some j"
    and "0 < n" "unat (ht_len (hp_table hp)) < 2 ^ 31"
  shows "find_first_block m hp (word_of_nat n)
    = Some (int j, hp\<lparr>hp_last_allocated_block := word_of_nat (j + n - 1)\<rparr>)"
proof -
  let ?l = "hp_last_allocated_block hp"
  have "search_state (block_free m (hp_table hp)) (Suc (unat ?l)) n j (Suc (unat ?l)) ?l (- 1) (word_of_nat n)"
    using first_fit_Some(1) [OF assms(1)] by (simp add: search_state_def)
  from find_loop_first_fit [OF assms(1,2) _ assms(3) this] show ?thesis
    by (simp add: find_first_block_def add.commute)
qed

section \<open>The invariant of the heap\<close>

text \<open>
  A heap as \<open>heap_create\<close> leaves it: at least two blocks, block-aligned, inside the
  address space, not at address 0, and with its table outside the blocks it describes.
\<close>

definition heap_layout :: "heap \<Rightarrow> bool" where
  "heap_layout hp \<longleftrightarrow>
     (let L = unat (ht_len (hp_table hp)); b = unat (hp_base_addr hp)
      in 1 < L \<and> 0 < b \<and> b mod 4096 = 0 \<and> b + 4096 * L \<le> 2 ^ 32
         \<and> regions_disjoint (ht_entries (hp_table hp)) L (hp_base_addr hp) (4096 * L))"

definition heap_inv :: "mem \<Rightarrow> heap \<Rightarrow> (nat \<rightharpoonup> nat) \<Rightarrow> bool" where
  "heap_inv m hp A \<longleftrightarrow>
     (let E = ht_entries (hp_table hp); L = unat (ht_len (hp_table hp))
      in heap_layout hp \<and> table_rep (entry m E) L A \<and> unat (ht_in_use (hp_table hp)) = used (entry m E) L)"

definition block_addr :: "heap \<Rightarrow> nat \<Rightarrow> addr" where
  "block_addr hp b = hp_base_addr hp + word_of_nat (4096 * b)"

lemma heap_layoutD:
  assumes "heap_layout hp"
  shows "1 < unat (ht_len (hp_table hp))" "unat (ht_len (hp_table hp)) \<le> 2 ^ 20"
    "unat (ht_len (hp_table hp)) < 2 ^ 31" "0 < unat (hp_base_addr hp)" "unat (hp_base_addr hp) mod 4096 = 0"
    "unat (hp_base_addr hp) + 4096 * unat (ht_len (hp_table hp)) \<le> 2 ^ 32"
    "regions_disjoint (ht_entries (hp_table hp)) (unat (ht_len (hp_table hp)))
       (hp_base_addr hp) (4096 * unat (ht_len (hp_table hp)))"
  using assms by (auto simp: heap_layout_def Let_def)

lemma heap_invD:
  assumes "heap_inv m hp A"
  shows "heap_layout hp" "table_rep (entry m (ht_entries (hp_table hp))) (unat (ht_len (hp_table hp))) A"
    "unat (ht_in_use (hp_table hp)) = used (entry m (ht_entries (hp_table hp))) (unat (ht_len (hp_table hp)))"
  using assms by (auto simp: heap_inv_def Let_def)

lemma unat_size_to_nblocks: "unat (size_to_nblocks sz) = (unat sz + 4095) div 4096"
proof -
  have d: "unat (sz div 4096) = unat sz div 4096" "unat (sz mod 4096) = unat sz mod 4096"
    by (simp_all add: unat_div unat_mod)
  have "(sz mod 4096 \<noteq> 0) = (unat sz mod 4096 \<noteq> 0)"
    using d(2) by (simp add: u32_eq_iff_unat)
  moreover have "unat sz div 4096 + 1 < 2 ^ 32" using unat_lt_2p32 [of sz] by simp
  ultimately have "unat (size_to_nblocks sz) = unat sz div 4096 + (if unat sz mod 4096 \<noteq> 0 then 1 else 0)"
    using d(1) by (simp add: size_to_nblocks_def unat_word_ariths)
  then show ?thesis by (simp only: div_round_up)
qed

lemma unat_block_addr:
  assumes "heap_layout hp" "b < unat (ht_len (hp_table hp))"
  shows "unat (block_addr hp b) = unat (hp_base_addr hp) + 4096 * b"
proof -
  have "unat (hp_base_addr hp) + 4096 * b < 2 ^ 32"
    using heap_layoutD(6) [OF assms(1)] assms(2) by linarith
  then show ?thesis
    by (simp add: block_addr_def unat_word_ariths unat_word_of_nat_lt unat_of_nat take_bit_nat_eq_self)
qed

lemma block_addr_not_null:
  "heap_layout hp \<Longrightarrow> b < unat (ht_len (hp_table hp)) \<Longrightarrow> block_addr hp b \<noteq> NULL"
  using heap_layoutD(4) [of hp] unat_block_addr [of hp b] by auto

lemma heap_addr_to_block_block_addr:
  assumes "heap_layout hp" "b < unat (ht_len (hp_table hp))"
  shows "heap_addr_to_block hp (block_addr hp b) = word_of_nat b"
proof -
  have "4096 * b < 2 ^ 32" using heap_layoutD(2) [OF assms(1)] assms(2) by simp
  then have "unat (word_of_nat (4096 * b) div (4096 :: u32)) = b"
    by (simp add: unat_div unat_word_of_nat_lt del: of_nat_mult)
  moreover have "b < 2 ^ 32" using \<open>4096 * b < 2 ^ 32\<close> by simp
  ultimately show ?thesis
    by (simp add: heap_addr_to_block_def block_addr_def u32_eq_iff_unat unat_word_of_nat_lt del: of_nat_mult)
qed

lemma entry_block_outside:
  assumes "heap_layout hp" "i < unat (ht_len (hp_table hp))" "in_region a (hp_base_addr hp) (4096 * unat (ht_len (hp_table hp)))"
  shows "ht_entries (hp_table hp) + word_of_nat i \<noteq> a"
proof -
  have "i < 2 ^ 32" using assms(2) unat_lt_2p32 [of "ht_len (hp_table hp)"] by simp
  then have "in_region (ht_entries (hp_table hp) + word_of_nat i) (ht_entries (hp_table hp)) (unat (ht_len (hp_table hp)))"
    using assms(2) by (simp add: in_region_nth)
  then show ?thesis using regions_disjointD [OF heap_layoutD(7) [OF assms(1)]] assms(3) by blast
qed

lemma in_block_in_heap:
  assumes "heap_layout hp" "b + n \<le> unat (ht_len (hp_table hp))" "in_region a (block_addr hp b) (4096 * n)"
  shows "in_region a (hp_base_addr hp) (4096 * unat (ht_len (hp_table hp)))"
proof -
  have "4096 * b + 4096 * n \<le> 2 ^ 32" using heap_layoutD(2) [OF assms(1)] assms(2) by simp
  then have "in_region a (hp_base_addr hp) (4096 * b + 4096 * n)"
    using in_region_add [of "4096 * b" "4096 * n" a "hp_base_addr hp"] assms(3) by (simp add: block_addr_def)
  then show ?thesis by (rule in_region_mono) (use assms(2) in linarith)
qed

lemma block_free_entry_0:
  assumes "heap_inv m hp A" "i < unat (ht_len (hp_table hp))"
  shows "block_free m (hp_table hp) i \<longleftrightarrow> entry m (ht_entries (hp_table hp)) i = 0"
  using owner_taken [OF heap_invD(2) [OF assms(1)]] table_rep_owner [OF heap_invD(2) [OF assms(1)] assms(2)]
  by fastforce

lemma heap_inv_alloc:
  assumes "heap_inv m hp A" "0 < n" "j + n \<le> unat (ht_len (hp_table hp))"
    and "\<And>k. k < n \<Longrightarrow> entry m (ht_entries (hp_table hp)) (j + k) = 0"
  shows "heap_inv (write_bytes m (ht_entries (hp_table hp) + word_of_nat j) (alloc_entries n))
     ((heap_add_in_use hp (word_of_nat n))\<lparr>hp_last_allocated_block := l\<rparr>) (A(j \<mapsto> n))"
proof -
  let ?E = "ht_entries (hp_table hp)" and ?L = "unat (ht_len (hp_table hp))"
  let ?m = "write_bytes m (?E + word_of_nat j) (alloc_entries n)"
  let ?e = "\<lambda>i. if j \<le> i \<and> i < j + n then alloc_entry (i - j) n else entry m ?E i"
  have L: "?L < 2 ^ 32" using unat_lt_2p32 [of "ht_len (hp_table hp)"] by simp
  have at: "entry ?m ?E i = ?e i" if "i < ?L" for i
    using entry_write_bytes [of i j "alloc_entries n" m ?E] that L assms(3) by (auto simp: alloc_entries_def)
  note inv = heap_invD [OF assms(1)]
  have rep: "table_rep (entry ?m ?E) ?L (A(j \<mapsto> n))"
    using table_rep_alloc [OF inv(2) assms(2,3)] assms(4) table_rep_cong [of ?L ?e "entry ?m ?E"] at by simp
  have "used (entry ?m ?E) ?L = used (entry m ?E) ?L + n"
    using used_alloc [of j n ?L "entry m ?E", OF assms(3,4)] used_cong [of ?L "entry ?m ?E" ?e] at by simp
  moreover from this have "used (entry m ?E) ?L + n < 2 ^ 32"
    using used_le [of "entry ?m ?E" ?L] L by linarith
  ultimately have "unat (ht_in_use (hp_table hp) + word_of_nat n) = used (entry ?m ?E) ?L"
    using inv(3) by (simp add: unat_word_ariths unat_of_nat take_bit_nat_eq_self)
  with rep inv(1) show ?thesis
    by (simp add: heap_inv_def heap_layout_def heap_add_in_use_def Let_def)
qed

lemma heap_malloc_fit:
  assumes inv: "heap_inv m hp A" and n: "n = (unat sz + 4095) div 4096" "0 < n"
    and fit: "first_fit (block_free m (hp_table hp)) (Suc (unat (hp_last_allocated_block hp))) n
      (unat (ht_len (hp_table hp))) = Some j"
  shows "heap_malloc m hp sz = Some (block_addr hp j,
      (heap_add_in_use hp (word_of_nat n))\<lparr>hp_last_allocated_block := word_of_nat (j + n - 1)\<rparr>,
      write_bytes m (ht_entries (hp_table hp) + word_of_nat j) (alloc_entries n))"
proof -
  let ?E = "ht_entries (hp_table hp)" and ?hp = "hp\<lparr>hp_last_allocated_block := word_of_nat (j + n - 1)\<rparr>"
  note lay = heap_layoutD [OF heap_invD(1) [OF inv]]
  note ff = first_fit_Some [OF fit]
  have nb: "size_to_nblocks sz = word_of_nat n"
    unfolding u32_eq_iff_unat unat_size_to_nblocks using ff(2) lay(3) n(1) by (simp add: unat_word_of_nat_lt)
  have n0: "(word_of_nat n :: u32) \<noteq> 0"
    using word_of_nat_eq_iff_lt [of n 0] ff(2) lay(3) n(2) by simp
  have "entry m ?E (j + k) = 0" if "k < n" for k
    using ff(2) ff(3) [OF that] block_free_entry_0 [OF inv, of "j + k"] that by simp
  then have "heap_reserve_blocks m ?hp (word_of_nat j) (word_of_nat n)
      = write_bytes m (?E + word_of_nat j) (alloc_entries n)"
    using ff(2) lay(3) n(2) by (intro heap_reserve_blocks_effect) simp_all
  moreover have "(word_of_nat j :: u32) * 4096 = word_of_nat (4096 * j)" by simp
  ultimately show ?thesis
    using n0 find_first_block_fit [OF fit n(2) lay(3)]
    by (cases hp) (simp add: heap_malloc_def heap_malloc_blocks_def nb heap_block_to_addr_def
        heap_add_in_use_def block_addr_def Let_def mult.commute)
qed

lemma heap_malloc_fit_inv:
  assumes inv: "heap_inv m hp A" and n: "0 < n"
    and fit: "first_fit (block_free m (hp_table hp)) from n (unat (ht_len (hp_table hp))) = Some j"
  shows "heap_inv (write_bytes m (ht_entries (hp_table hp) + word_of_nat j) (alloc_entries n))
     ((heap_add_in_use hp (word_of_nat n))\<lparr>hp_last_allocated_block := l\<rparr>) (A(j \<mapsto> n))"
proof (rule heap_inv_alloc [OF inv n])
  note ff = first_fit_Some [OF fit]
  show "j + n \<le> unat (ht_len (hp_table hp))" by (rule ff(2))
  show "entry m (ht_entries (hp_table hp)) (j + k) = 0" if "k < n" for k
    using ff(2) ff(3) [OF that] block_free_entry_0 [OF inv, of "j + k"] that by simp
qed

text \<open>Freeing: the marks of the allocation go, its first block is filled with 0xFF.\<close>

lemma unat_4096: "unat (4096 :: u32) = 4096"
  by simp

lemma ucast_ones: "ucast (- 1 :: u32) = (255 :: u8)" "ucast (mask 24 :: u32) = (255 :: u8)"
  "ucast (mask 16 :: u32) = (255 :: u8)" "ucast (mask 8 :: u32) = (255 :: u8)"
  by (simp_all add: mask_eq_exp_minus_1 unsigned_minus_1_eq_mask)

lemma memset_0xFF: "memset m s 255 n = fill_mem m s (unat n) 255"
proof -
  have "ucast (drop_bit (8 * j) (memset_dword 255)) = (255 :: u8)" if "j < 4" for j
  proof -
    from that consider "j = 0" | "j = 1" | "j = 2" | "j = 3" by linarith
    then show ?thesis by cases (simp_all add: memset_dword_def ucast_ones)
  qed
  then show ?thesis using memset_fill_mem [of 255 m s n] by simp
qed

definition heap_freed :: "mem \<Rightarrow> heap \<Rightarrow> nat \<Rightarrow> nat \<Rightarrow> mem" where
  "heap_freed m hp b n =
     fill_mem (fill_mem m (block_addr hp b) 4096 255) (ht_entries (hp_table hp) + word_of_nat b) n 0"

lemma heap_free_live:
  assumes inv: "heap_inv m hp A" and A: "A b = Some n" and "b + n < unat (ht_len (hp_table hp))"
  shows "heap_free m hp (block_addr hp b) =
      Some (hp\<lparr>hp_table := (hp_table hp)\<lparr>ht_in_use := ht_in_use (hp_table hp) - word_of_nat n\<rparr>\<rparr>, heap_freed m hp b n)"
proof -
  let ?E = "ht_entries (hp_table hp)" and ?L = "unat (ht_len (hp_table hp))"
  let ?m = "fill_mem m (block_addr hp b) 4096 255"
  note lay = heap_layoutD [OF heap_invD(1) [OF inv]]
  note rep = heap_invD(2) [OF inv]
  note live = table_repD [OF rep A]
  have L: "?L < 2 ^ 32" using lay(3) by simp
  have same: "entry ?m ?E i = entry m ?E i" if "i < ?L" for i
  proof (rule fill_mem_outside)
    show "\<not> in_region (?E + word_of_nat i) (block_addr hp b) 4096"
      using entry_block_outside [OF heap_invD(1) [OF inv] that]
        in_block_in_heap [OF heap_invD(1) [OF inv], of b 1] live(1,2) by fastforce
  qed
  obtain n' where n': "n = Suc n'" using live(1) by (cases n) auto
  let ?m1 = "store8 ?m (?E + word_of_nat b) 0"
  have at: "entry ?m1 ?E (Suc b + k) = entry m ?E (b + Suc k)" if "k \<le> n'" for k
  proof -
    have "word_of_nat (Suc b + k) \<noteq> (word_of_nat b :: u32)"
      using word_of_nat_eq_iff_lt [of "Suc b + k" b] that assms(3) L n' by simp
    then show ?thesis using same [of "Suc b + k"] that assms(3) n' by (simp add: store8_apply)
  qed
  have "heap_free_loop ?m1 ?E (word_of_nat (Suc b)) (ht_in_use (hp_table hp) - 1)
    = Some (fill_mem ?m1 (?E + word_of_nat (Suc b)) n' 0, ht_in_use (hp_table hp) - 1 - word_of_nat n')"
  proof (rule heap_free_loop_effect)
    show "entry ?m1 ?E (Suc b + k) \<noteq> 0 \<and> \<not> BLOCK_TEST_FIRST (entry ?m1 ?E (Suc b + k))" if "k < n'" for k
      using at [of k] live(3) [of "Suc k"] that n' by simp
    show "entry ?m1 ?E (Suc b + n') = 0 \<or> BLOCK_TEST_FIRST (entry ?m1 ?E (Suc b + n'))"
      using at [of n'] table_rep_next [OF rep A assms(3)] n' by simp
  qed (use assms(3) L n' in simp)
  moreover have "fill_mem ?m1 (?E + word_of_nat (Suc b)) n' 0 = heap_freed m hp b n"
    using in_region_add [of 1 n' _ "?E + word_of_nat b"] assms(3) L n'
    by (auto simp: fun_eq_iff fill_mem_def store8_apply heap_freed_def ac_simps)
  moreover have "BLOCK_TEST_FIRST (entry ?m ?E b)" using same [of b] live(3) [of 0] assms(3) n' by simp
  moreover have "heap_addr_to_block hp (block_addr hp b) = word_of_nat b"
    using assms(3) by (intro heap_addr_to_block_block_addr [OF heap_invD(1) [OF inv]]) simp
  ultimately show ?thesis
    unfolding heap_free_def Let_def memset_0xFF HEAP_MEMORY_BLOCK_FREE_def unat_4096
    by (simp add: n' add.commute diff_diff_eq)
qed

lemma entry_heap_freed:
  assumes inv: "heap_inv m hp A" and A: "A b = Some n" and i: "i < unat (ht_len (hp_table hp))"
  shows "entry (heap_freed m hp b n) (ht_entries (hp_table hp)) i
    = (if b \<le> i \<and> i < b + n then 0 else entry m (ht_entries (hp_table hp)) i)"
proof -
  let ?E = "ht_entries (hp_table hp)"
  note lay = heap_layoutD [OF heap_invD(1) [OF inv]]
  note live = table_repD [OF heap_invD(2) [OF inv] A]
  have "\<not> in_region (?E + word_of_nat i) (block_addr hp b) 4096"
    using entry_block_outside [OF heap_invD(1) [OF inv] i]
      in_block_in_heap [OF heap_invD(1) [OF inv], of b 1] live(1,2) by fastforce
  moreover have "i < 2 ^ 32" "b + n \<le> 2 ^ 32" using i live(2) lay(3) by simp_all
  ultimately show ?thesis
    unfolding heap_freed_def using entry_write_bytes [of i b "replicate n 0"]
    by (auto simp: fill_mem_write_bytes write_bytes_outside)
qed

lemma heap_inv_free:
  assumes inv: "heap_inv m hp A" and A: "A b = Some n"
  shows "heap_inv (heap_freed m hp b n)
      (hp\<lparr>hp_table := (hp_table hp)\<lparr>ht_in_use := ht_in_use (hp_table hp) - word_of_nat n\<rparr>\<rparr>) (A(b := None))"
proof -
  let ?E = "ht_entries (hp_table hp)" and ?L = "unat (ht_len (hp_table hp))"
  let ?e = "\<lambda>i. if b \<le> i \<and> i < b + n then 0 else entry m ?E i" and ?m = "heap_freed m hp b n"
  note I = heap_invD [OF inv]
  note live = table_repD [OF I(2) A]
  note at = entry_heap_freed [OF inv A]
  have "table_rep (entry ?m ?E) ?L (A(b := None))"
    using table_rep_cong [OF _ table_rep_free [OF I(2) A]] at by simp
  moreover have "used (entry m ?E) ?L = used (entry ?m ?E) ?L + n"
    using used_free [of b n ?L "entry m ?E"] used_cong [of ?L "entry ?m ?E" ?e] at live(2,3) by simp
  moreover have "unat (word_of_nat n :: u32) = n"
    using live(2) heap_layoutD(3) [OF I(1)] by (intro unat_word_of_nat_lt) simp
  ultimately show ?thesis
    using I(1,3) by (simp add: heap_inv_def heap_layout_def Let_def unat_sub word_le_nat_alt)
qed

text \<open>The counter of blocks in use is the number of marked entries.\<close>

lemma fold_count:
  "fold (\<lambda>i count. if P i then count + 1 else count) xs c
     = c + (word_of_nat (length (filter P xs)) :: u32)"
  by (induction xs arbitrary: c) (simp_all add: add.assoc)

lemma count_used_blocks_in_use:
  assumes "heap_inv m hp A"
  shows "count_used_blocks m hp = ht_in_use (hp_table hp)"
proof -
  let ?E = "ht_entries (hp_table hp)" and ?L = "unat (ht_len (hp_table hp))"
  have "filter (\<lambda>i. BLOCK_TEST_TAKEN (entry m ?E i)) [0..<?L] = filter (\<lambda>i. entry m ?E i \<noteq> 0) [0..<?L]"
    using block_free_entry_0 [OF assms] by (intro filter_cong) auto
  moreover have "length (filter (\<lambda>i. entry m ?E i \<noteq> 0) [0..<?L]) = used (entry m ?E) ?L"
    by (simp add: used_def length_filter_conv_card cong: conj_cong)
  ultimately show ?thesis
    using heap_invD(3) [OF assms] by (simp add: count_used_blocks_def fold_count) (metis word_eq_of_nat_unat)
qed

lemma heap_create_inv:
  assumes "heap_create m hp0 p e t = (0, hp, m')" "p < e" "0 < p" "1 < ht_len t" "ht_in_use t = 0"
    "regions_disjoint (ht_entries t) (unat (ht_len t)) p (4096 * unat (ht_len t))"
  shows "heap_inv m' hp Map.empty" "m' = fill_mem m (ht_entries t) (unat (ht_len t)) 0"
    "hp = \<lparr>hp_table = t, hp_base_addr = p, hp_last_allocated_block = 0\<rparr>"
proof -
  from assms(1) have c: "p mod 4096 = 0" "e mod 4096 = 0" "ht_len t = (e - p) div 4096"
    and hp: "hp = \<lparr>hp_table = t, hp_base_addr = p, hp_last_allocated_block = 0\<rparr>"
    and m': "m' = memset m (ht_entries t) 0 (ht_len t)"
    by (auto simp: heap_create_def heap_validate_alignment_def heap_validate_table_def Let_def EINVAL_def
        HEAP_MEMORY_BLOCK_FREE_def split: if_splits)
  show hp: "hp = \<lparr>hp_table = t, hp_base_addr = p, hp_last_allocated_block = 0\<rparr>" by (rule hp)
  have fill: "m' = fill_mem m (ht_entries t) (unat (ht_len t)) 0"
    unfolding m' using memset_fill_mem [of 0] memset_dword_low [of 0] by simp
  then show "m' = fill_mem m (ht_entries t) (unat (ht_len t)) 0" .
  have "unat (e - p) = unat e - unat p" using assms(2) by (intro unat_sub) simp
  then have "4096 * unat (ht_len t) \<le> unat e - unat p" using c(3) by (simp add: unat_div)
  then have top: "unat p + 4096 * unat (ht_len t) \<le> 2 ^ 32"
    using assms(2) unat_lt_2p32 [of e] by (simp add: word_less_nat_alt)
  have "entry m' (ht_entries t) i = 0" if "i < unat (ht_len t)" for i
    using that unat_lt_2p32 [of "ht_len t"] unfolding fill by (intro fill_mem_inside) (simp add: in_region_nth)
  then have "table_rep (entry m' (ht_entries t)) (unat (ht_len t)) Map.empty"
    "used (entry m' (ht_entries t)) (unat (ht_len t)) = 0"
    by (auto simp: table_rep_def used_def)
  moreover have "unat p mod 4096 = 0" using c(1) by (metis unat_0 unat_4096 unat_mod)
  ultimately show "heap_inv m' hp Map.empty"
    using assms(3-6) top
    by (simp add: heap_inv_def heap_layout_def hp Let_def word_less_nat_alt)
qed

section \<open>Exhaustion\<close>

text \<open>A search without a fit up to the last block, which is taken, ends with \<open>ENOMEM\<close>.\<close>

lemma find_loop_enomem:
  assumes least: "\<And>i. from \<le> i \<Longrightarrow> i < L \<Longrightarrow> \<exists>k<n. \<not> block_free m t (i + k)"
    and L: "L = unat (ht_len t)" "L + n < 2 ^ 31" "\<not> block_free m t (L - 1)" and "0 < n" "0 < from"
    and "search_state (block_free m t) from n L i lb fd rm" "i < L"
  shows "find_first_block_loop m t (word_of_nat n) (word_of_nat i) lb fd rm = Some (0, - 1, word_of_nat n)"
  using assms(7,8)
proof (induction "L - i" arbitrary: i lb fd rm rule: less_induct)
  case less
  note guard = search_state_guard [OF less.prems(1) assms(5,6) order_refl L(2)]
  show ?case
  proof (cases "Suc i = L")
    case True
    then have i: "i = L - 1" by simp
    have "word_of_nat i + 1 = (word_of_nat (Suc i) :: u32)" by simp
    also have "\<dots> = ht_len t" unfolding True L(1) by simp
    finally have "word_of_nat i + 1 = ht_len t" .
    then have "(word_of_nat i + 1) mod ht_len t = 0" by simp
    then show ?thesis
      using L(3) guard loop_taken [of "word_of_nat i" lb rm m t "word_of_nat n" fd]
      unfolding i by (simp only: loop_wrapped simp_thms)
  next
    case False
    with less.prems(2) have Si: "Suc i < L" by simp
    show ?thesis
    proof (cases "block_free m t i")
      case False
      with guard less.hyps [OF _ search_state_taken [OF less.prems]] Si L(1) show ?thesis
        by (simp add: loop_taken word_of_nat_Suc_mod del: of_nat_Suc)
    next
      case True
      let ?fd = "if fd = - 1 then sint (word_of_nat i :: u32) else fd"
      have "(rm - 1 = 0 \<and> ?fd = int L \<and> Suc i = L + n)
        \<or> (Suc i < L + n \<and> search_state (block_free m t) from n L (Suc i) (word_of_nat i) ?fd (rm - 1))"
        by (rule search_state_free [OF less.prems(1) True assms(5)])
          (use less.prems(2) L(2) in simp, rule least, use L(2) in simp_all)
      then have st: "search_state (block_free m t) from n L (Suc i) (word_of_nat i) ?fd (rm - 1)"
        using Si by linarith
      with True guard less.hyps [OF _ st Si] Si L(1) show ?thesis
        by (simp add: loop_free word_of_nat_Suc_mod del: of_nat_Suc)
    qed
  qed
qed

lemma heap_malloc_no_fit:
  assumes inv: "heap_inv m hp A" and n: "n = (unat sz + 4095) div 4096" "0 < n"
    and "Suc (unat (hp_last_allocated_block hp)) < unat (ht_len (hp_table hp))"
    and none: "first_fit (block_free m (hp_table hp)) (Suc (unat (hp_last_allocated_block hp))) n
      (unat (ht_len (hp_table hp))) = None"
    and taken: "\<not> block_free m (hp_table hp) (unat (ht_len (hp_table hp)) - 1)"
  shows "heap_malloc m hp sz = Some (NULL, hp\<lparr>hp_last_allocated_block := 0\<rparr>, m)"
proof -
  let ?t = "hp_table hp" and ?L = "unat (ht_len (hp_table hp))" and ?l = "hp_last_allocated_block hp"
  note lay = heap_layoutD [OF heap_invD(1) [OF inv]]
  have "n \<le> 2 ^ 20" using n(1) unat_lt_2p32 [of sz] by simp
  then have small: "?L + n < 2 ^ 31" "n < 2 ^ 32" using lay(2) by simp_all
  have least: "\<exists>k<n. \<not> block_free m ?t (i + k)" if "Suc (unat ?l) \<le> i" "i < ?L" for i
  proof (cases "i + n \<le> ?L")
    case True
    with first_fit_None [OF none that(1)] show ?thesis by blast
  next
    case False
    with taken that(2) show ?thesis by (intro exI [of _ "?L - 1 - i"]) auto
  qed
  have "search_state (block_free m ?t) (Suc (unat ?l)) n ?L (Suc (unat ?l)) ?l (- 1) (word_of_nat n)"
    using assms(4) by (simp add: search_state_def)
  from find_loop_enomem [OF least refl small(1) taken n(2) _ this assms(4)]
  have loop: "find_first_block_loop m ?t (word_of_nat n) (?l + 1) ?l (- 1) (word_of_nat n)
    = Some (0, - 1, word_of_nat n)" by (simp add: add.commute)
  have nb: "size_to_nblocks sz = word_of_nat n" "(word_of_nat n :: u32) \<noteq> 0"
    unfolding u32_eq_iff_unat unat_size_to_nblocks using small(2) n by (simp_all add: unat_word_of_nat_lt)
  then show ?thesis
    by (simp add: heap_malloc_def heap_malloc_blocks_def find_first_block_def loop ENOMEM_def)
qed

text \<open>
  The search does not stop at the end of the table but wraps around, and it counts the
  free blocks before and after the end as one run.
\<close>

lemma unat_inc_mod:
  assumes "i < (L :: u32)"
  shows "unat ((i + 1) mod L) = (unat i + 1) mod unat L"
  using unat_Suc_less [OF assms] by (simp add: unat_mod)

lemma inc_mod_neq: "i < (L :: u32) \<Longrightarrow> 1 < L \<Longrightarrow> (i + 1) mod L \<noteq> i \<and> (i + 1) mod L < L"
  using unat_inc_mod [of i L]
  by (cases "unat i + 1 = unat L") (auto simp: word_less_nat_alt u32_eq_iff_unat)

lemma find_loop_all_free:
  assumes "\<And>i. i < ht_len t \<Longrightarrow> \<not> BLOCK_TEST_TAKEN (m (ht_entries t + i))" "1 < ht_len t"
    and "i < ht_len t" "i \<noteq> lb" "fd \<noteq> - 1"
  shows "\<exists>lb'. find_first_block_loop m t n i lb fd rm = Some (lb', fd, 0)"
  using assms(3,4)
proof (induction "unat rm" arbitrary: i lb rm)
  case 0
  then have "rm = 0" by (simp add: unat_eq_zero)
  then show ?case by (auto simp: loop_done)
next
  case (Suc k)
  have rm: "rm \<noteq> 0" using Suc.hyps(2) by auto
  then have "unat (rm - 1) = k" using Suc.hyps(2) by (simp add: unat_minus_one)
  with Suc.hyps(1) [of "rm - 1" "(i + 1) mod ht_len t" i] inc_mod_neq [OF Suc.prems(1) assms(2)]
  show ?case using Suc.prems rm assms(1,5) by (simp add: loop_free)
qed

lemma heap_malloc_empty:
  assumes inv: "heap_inv m hp Map.empty"
    and last: "Suc (unat (hp_last_allocated_block hp)) < unat (ht_len (hp_table hp))" and "sz \<noteq> 0"
  shows "\<exists>hp' m'. heap_malloc m hp sz = Some (block_addr hp (Suc (unat (hp_last_allocated_block hp))), hp', m')"
proof -
  let ?t = "hp_table hp" and ?l = "hp_last_allocated_block hp"
  note lay = heap_layoutD [OF heap_invD(1) [OF inv]]
  have "entry m (ht_entries ?t) i = 0" if "i < unat (ht_len ?t)" for i
    using table_rep_owner [OF heap_invD(2) [OF inv] that] by (auto simp: owner_def)
  then have free: "\<not> BLOCK_TEST_TAKEN (m (ht_entries ?t + i))" if "i < ht_len ?t" for i
    using that word_eq_of_nat_unat [of i] by (metis block_test_0(1) word_less_nat_alt)
  have l1: "?l + 1 < ht_len ?t" "unat (?l + 1) = Suc (unat ?l)" "?l + 1 \<noteq> ?l"
    using last lay(3) by (simp_all add: word_less_nat_alt unat_word_ariths)
  have s: "sint (?l + 1) = int (Suc (unat ?l))"
    using sint_word_of_nat [of "Suc (unat ?l)"] last lay(3) by (simp add: add.commute)
  have s': "sint (?l + 1) \<noteq> - 1" unfolding s by linarith
  have L1: "1 < ht_len ?t" using lay(1) by (simp add: word_less_nat_alt)
  have nb: "size_to_nblocks sz \<noteq> 0"
    unfolding u32_eq_iff_unat unat_size_to_nblocks using assms(3) by (simp add: u32_eq_iff_unat div_greater_zero_iff)
  obtain lb' where "find_first_block_loop m ?t (size_to_nblocks sz) ((?l + 1 + 1) mod ht_len ?t) (?l + 1)
      (sint (?l + 1)) (size_to_nblocks sz - 1) = Some (lb', sint (?l + 1), 0)"
    using find_loop_all_free [of ?t m "(?l + 1 + 1) mod ht_len ?t" "?l + 1" "sint (?l + 1)"
      "size_to_nblocks sz" "size_to_nblocks sz - 1"] free L1 inc_mod_neq [OF l1(1) L1] s' by blast
  then have "find_first_block_loop m ?t (size_to_nblocks sz) (?l + 1) ?l (- 1) (size_to_nblocks sz)
      = Some (lb', int (Suc (unat ?l)), 0)"
    using free [OF l1(1)] nb l1(3) s by (simp add: loop_free)
  then show ?thesis
    using nb by (simp add: heap_malloc_def heap_malloc_blocks_def find_first_block_def Let_def
        heap_block_to_addr_def block_addr_def heap_add_in_use_def algebra_simps del: int_Suc of_nat_Suc)
      (simp add: algebra_simps)
qed

text \<open>
  When the last block is free and no run of \<open>n\<close> free blocks exists, not even one that
  goes over the end of the table, the search never ends.
\<close>

definition no_cyclic_run :: "mem \<Rightarrow> heap_table \<Rightarrow> nat \<Rightarrow> bool" where
  "no_cyclic_run m t n \<longleftrightarrow>
     (\<forall>i < unat (ht_len t). \<exists>k<n. \<not> block_free m t ((i + k) mod unat (ht_len t)))"

definition hang_state :: "mem \<Rightarrow> heap_table \<Rightarrow> u32 \<Rightarrow> u32 \<Rightarrow> u32 \<Rightarrow> u32 \<Rightarrow> bool" where
  "hang_state m t n i lb rm \<longleftrightarrow> i \<noteq> lb \<and>
     (\<exists>x r. x < unat (ht_len t) \<and> r < unat n \<and> unat rm = unat n - r \<and> unat i = (x + r) mod unat (ht_len t)
        \<and> (\<forall>k<r. block_free m t ((x + k) mod unat (ht_len t))))"

lemma hang_state_taken:
  assumes "hang_state m t n i lb rm" "BLOCK_TEST_TAKEN (m (ht_entries t + i))"
    "block_free m t (unat (ht_len t) - 1)" "1 < ht_len t"
  shows "hang_state m t n ((i + 1) mod ht_len t) 0 n"
proof -
  let ?L = "unat (ht_len t)"
  have L: "1 < ?L" using assms(4) by (simp add: word_less_nat_alt)
  from assms(1) have i: "unat i < ?L" "0 < unat n" using L by (auto simp: hang_state_def)
  then have "unat i \<noteq> ?L - 1" using assms(2,3) by (metis word_eq_of_nat_unat)
  then have "unat ((i + 1) mod ht_len t) = unat i + 1" "unat i + 1 < ?L"
    using i unat_inc_mod [of i "ht_len t"] by (simp_all add: word_less_nat_alt)
  then show ?thesis unfolding hang_state_def using i(2)
    by (intro conjI exI [of _ "unat i + 1"] exI [of _ 0]) (auto simp: u32_eq_iff_unat)
qed

lemma hang_state_free:
  assumes st: "hang_state m t n i lb rm" and free: "\<not> BLOCK_TEST_TAKEN (m (ht_entries t + i))"
    and run: "no_cyclic_run m t (unat n)" and "1 < ht_len t"
  shows "hang_state m t n ((i + 1) mod ht_len t) i (rm - 1)"
proof -
  let ?L = "unat (ht_len t)"
  have L: "1 < ?L" using assms(4) by (simp add: word_less_nat_alt)
  from st obtain x r where x: "x < ?L" "r < unat n" "unat rm = unat n - r" "unat i = (x + r) mod ?L"
    "\<forall>k<r. block_free m t ((x + k) mod ?L)" by (auto simp: hang_state_def)
  have iL: "i < ht_len t" using x(4) L by (simp add: word_less_nat_alt)
  have "block_free m t ((x + r) mod ?L)" using free unfolding x(4) [symmetric] by simp
  then have all: "\<forall>k<Suc r. block_free m t ((x + k) mod ?L)" using x(5) by (auto simp: less_Suc_eq)
  obtain k where "k < unat n" "\<not> block_free m t ((x + k) mod ?L)"
    using run x(1) by (auto simp: no_cyclic_run_def)
  with all have r: "Suc r < unat n" by (metis Suc_lessI less_trans not_less_eq x(2))
  have "rm \<noteq> 0" using x(2,3) by auto
  then have rm: "unat (rm - 1) = unat n - Suc r" using x(2,3) by (simp add: unat_minus_one)
  have next_i: "unat ((i + 1) mod ht_len t) = (x + Suc r) mod ?L"
    using unat_inc_mod [OF iL] x(4) by (simp add: mod_Suc_eq)
  have neq: "(i + 1) mod ht_len t \<noteq> i" using inc_mod_neq [OF iL assms(4)] by simp
  show ?thesis unfolding hang_state_def
    by (intro conjI exI [of _ x] exI [of _ "Suc r"] neq x(1) r rm next_i all)
qed

lemma find_loop_hangs:
  assumes "hang_state m t n i lb rm" "no_cyclic_run m t (unat n)"
    and "block_free m t (unat (ht_len t) - 1)" "1 < ht_len t"
  shows "find_first_block_loop m t n i lb fd rm = None"
proof (rule ccontr)
  assume "find_first_block_loop m t n i lb fd rm \<noteq> None"
  then obtain y where "find_first_block_loop m t n i lb fd rm = Some y" by auto
  then have "no_cyclic_run m t (unat n) \<Longrightarrow> block_free m t (unat (ht_len t) - 1) \<Longrightarrow> 1 < ht_len t
    \<Longrightarrow> \<not> hang_state m t n i lb rm"
  proof (induction rule: find_first_block_loop.raw_induct [rotated, consumes 1, case_names step])
    case (step loop m t n i lb fd rm y)
    show ?case
    proof
      assume st: "hang_state m t n i lb rm"
      then have "i \<noteq> lb" "rm \<noteq> 0" by (auto simp: hang_state_def)
      then show False
        using step hang_state_taken [OF st _ step.prems(2,3)] hang_state_free [OF st _ step.prems(1,3)]
        by (auto split: if_splits)
    qed
  qed
  with assms show False by blast
qed

lemma heap_malloc_hang_state:
  assumes inv: "heap_inv m hp A"
    and last: "Suc (unat (hp_last_allocated_block hp)) < unat (ht_len (hp_table hp))"
    and "no_cyclic_run m (hp_table hp) ((unat sz + 4095) div 4096)" "sz \<noteq> 0"
    and free: "block_free m (hp_table hp) (unat (ht_len (hp_table hp)) - 1)"
  shows "heap_malloc m hp sz = None"
proof -
  let ?t = "hp_table hp" and ?l = "hp_last_allocated_block hp"
  note lay = heap_layoutD [OF heap_invD(1) [OF inv]]
  have l1: "unat (?l + 1) = Suc (unat ?l)" "?l + 1 \<noteq> ?l"
    using last lay(3) by (simp_all add: unat_word_ariths)
  have nb: "size_to_nblocks sz \<noteq> 0"
    unfolding u32_eq_iff_unat unat_size_to_nblocks using assms(4) by (simp add: u32_eq_iff_unat div_greater_zero_iff)
  have "hang_state m ?t (size_to_nblocks sz) (?l + 1) ?l (size_to_nblocks sz)"
    unfolding hang_state_def using l1 last nb
    by (intro conjI exI [of _ "Suc (unat ?l)"] exI [of _ 0]) (simp_all add: unat_gt_0)
  moreover have "no_cyclic_run m ?t (unat (size_to_nblocks sz))" using assms(3) by (simp add: unat_size_to_nblocks)
  moreover have "1 < ht_len ?t" using lay(1) by (simp add: word_less_nat_alt)
  ultimately have "find_first_block_loop m ?t (size_to_nblocks sz) (?l + 1) ?l (- 1) (size_to_nblocks sz) = None"
    using find_loop_hangs free by blast
  with nb show ?thesis by (simp add: heap_malloc_def heap_malloc_blocks_def find_first_block_def)
qed

lemma heap_malloc_0: "heap_malloc m hp 0 = Some (NULL, hp, m)"
  by (simp add: heap_malloc_def size_to_nblocks_def)

lemma live_disjoint_from_fit:
  assumes inv: "heap_inv m hp A" and fit: "first_fit (block_free m (hp_table hp)) from n
      (unat (ht_len (hp_table hp))) = Some j" and "0 < n" and A: "A b = Some l"
  shows "b + l \<le> j \<or> j + n \<le> b"
proof (rule ccontr)
  assume overlap: "\<not> (b + l \<le> j \<or> j + n \<le> b)"
  note ff = first_fit_Some [OF fit]
  note live = table_repD [OF heap_invD(2) [OF inv] A]
  let ?i = "max b j"
  have "?i < unat (ht_len (hp_table hp))" "?i - j < n" "b \<le> ?i" "?i < b + l"
    using overlap live(1,2) ff(2) assms(3) by (auto simp: max_def)
  then show False using live(4) [of ?i] ff(3) [of "?i - j"] by simp
qed

section \<open>Whatever the search finds\<close>

text \<open>
  The search between its turns, with no assumption on where a fit is: \<open>r\<close> free blocks in a row from \<open>x\<close> on, counted over the
  end of the table.
\<close>

definition scan_state :: "mem \<Rightarrow> heap_table \<Rightarrow> u32 \<Rightarrow> u32 \<Rightarrow> u32 \<Rightarrow> int \<Rightarrow> u32 \<Rightarrow> bool" where
  "scan_state m t n i lb fd rm \<longleftrightarrow> (let L = unat (ht_len t) in
     \<exists>x r. x < L \<and> r \<le> unat n \<and> unat rm = unat n - r \<and> unat i = (x + r) mod L \<and> (\<forall>k<r. block_free m t ((x + k) mod L))
       \<and> (if r = 0 then fd = - 1 \<and> (lb = 0 \<or> i \<noteq> lb) else fd = int x \<and> unat lb = (x + r - 1) mod L))"

lemma mod_Suc_neq: "1 < L \<Longrightarrow> Suc y mod L \<noteq> y mod (L :: nat)"
  by (auto simp: mod_Suc)

lemma scan_state_taken:
  assumes "scan_state m t n i lb fd rm" "1 < ht_len t"
  shows "scan_state m t n ((i + 1) mod ht_len t) 0 (- 1) n"
proof -
  let ?L = "unat (ht_len t)"
  have L: "1 < ?L" using assms(2) by (simp add: word_less_nat_alt)
  have "unat i < ?L" using assms(1) L by (auto simp: scan_state_def Let_def)
  then have "unat ((i + 1) mod ht_len t) < ?L" using unat_inc_mod [of i "ht_len t"] L by (simp add: word_less_nat_alt)
  then show ?thesis unfolding scan_state_def Let_def
    by (intro exI [of _ "unat ((i + 1) mod ht_len t)"] exI [of _ 0]) simp
qed

lemma scan_state_free:
  assumes st: "scan_state m t n i lb fd rm" and rm: "rm \<noteq> 0" and free: "\<not> BLOCK_TEST_TAKEN (m (ht_entries t + i))"
    and L: "1 < ht_len t" "unat (ht_len t) < 2 ^ 31"
  shows "scan_state m t n ((i + 1) mod ht_len t) i (if fd = - 1 then sint i else fd) (rm - 1)"
proof -
  let ?L = "unat (ht_len t)"
  from st obtain x r where x: "x < ?L" "r \<le> unat n" "unat rm = unat n - r" "unat i = (x + r) mod ?L"
    "\<forall>k<r. block_free m t ((x + k) mod ?L)"
    and fd: "if r = 0 then fd = - 1 \<and> (lb = 0 \<or> i \<noteq> lb) else fd = int x \<and> unat lb = (x + r - 1) mod ?L"
    by (auto simp: scan_state_def Let_def)
  have "0 < unat rm" using rm by (simp add: unat_gt_0)
  then have r: "Suc r \<le> unat n" "unat (rm - 1) = unat n - Suc r" using x(2,3) rm by (simp_all add: unat_minus_one)
  have iL: "i < ht_len t" using x(1,4) by (simp add: word_less_nat_alt)
  have next_i: "unat ((i + 1) mod ht_len t) = (x + Suc r) mod ?L" using unat_inc_mod [OF iL] x(4) by (simp add: mod_Suc_eq)
  have "block_free m t ((x + r) mod ?L)" using free unfolding x(4) [symmetric] by simp
  then have all: "\<forall>k<Suc r. block_free m t ((x + k) mod ?L)" using x(5) by (auto simp: less_Suc_eq)
  have "(if fd = - 1 then sint i else fd) = int x"
  proof (cases "r = 0")
    case True
    then have "unat i = x" using x(1,4) by simp
    then have "i = word_of_nat x" using word_eq_of_nat_unat [of i] by simp
    then show ?thesis using True fd sint_word_of_nat [of x] x(1) L(2) by simp
  qed (use fd in auto)
  then show ?thesis unfolding scan_state_def Let_def
    by (intro exI [of _ x] exI [of _ "Suc r"]) (use x(1,4) r next_i all in simp)
qed

lemma find_loop_result:
  assumes "find_first_block_loop m t n i lb fd rm = Some (lb', fd', rm')" "scan_state m t n i lb fd rm"
    and "1 < ht_len t" "unat (ht_len t) < 2 ^ 31"
  shows "\<exists>i'. scan_state m t n i' lb' fd' rm' \<and> (i' = lb' \<or> rm' = 0)"
proof -
  have "scan_state m t n i lb fd rm \<Longrightarrow> 1 < ht_len t \<Longrightarrow> unat (ht_len t) < 2 ^ 31 \<Longrightarrow>
      \<exists>i'. scan_state m t n i' (fst y) (fst (snd y)) (snd (snd y)) \<and> (i' = fst y \<or> snd (snd y) = 0)"
    if "find_first_block_loop m t n i lb fd rm = Some y" for y
    using that
  proof (induction rule: find_first_block_loop.raw_induct [rotated, consumes 1, case_names step])
    case (step loop m t n i lb fd rm y)
    show ?case
    proof (cases "i \<noteq> lb \<and> rm \<noteq> 0")
      case True
      then show ?thesis
        using step scan_state_taken [OF step.prems(1,2)] scan_state_free [OF step.prems(1) _ _ step.prems(2,3)]
        by (auto split: if_splits)
    next
      case False
      then have "y = (lb, fd, rm)" using step by (auto split: if_splits)
      then show ?thesis using step.prems(1) False by auto
    qed
  qed
  from this [OF assms(1) assms(2-4)] show ?thesis by simp
qed

lemma heap_malloc_result:
  assumes inv: "heap_inv m hp A" and last: "Suc (unat (hp_last_allocated_block hp)) < unat (ht_len (hp_table hp))"
    and run: "heap_malloc m hp sz = Some (p, hp', m')" and n: "n = (unat sz + 4095) div 4096"
  shows "(\<exists>l. p = NULL \<and> m' = m \<and> hp' = hp\<lparr>hp_last_allocated_block := l\<rparr> \<and> (l = 0 \<or> l = hp_last_allocated_block hp))
    \<or> (\<exists>j. j < unat (ht_len (hp_table hp)) \<and> p = block_addr hp j \<and> p \<noteq> NULL \<and> 0 < n
         \<and> (j + n \<le> unat (ht_len (hp_table hp)) \<longrightarrow> (\<forall>k<n. block_free m (hp_table hp) (j + k))
             \<and> hp' = (heap_add_in_use hp (word_of_nat n))\<lparr>hp_last_allocated_block := word_of_nat (j + n - 1)\<rparr>
             \<and> m' = write_bytes m (ht_entries (hp_table hp) + word_of_nat j) (alloc_entries n)))"
proof (cases "size_to_nblocks sz = 0")
  case True
  then have "p = NULL \<and> m' = m \<and> hp' = hp" using run by (simp add: heap_malloc_def)
  then show ?thesis by (intro disjI1 exI [of _ "hp_last_allocated_block hp"]) simp
next
  case False
  let ?t = "hp_table hp" and ?L = "unat (ht_len (hp_table hp))" and ?l = "hp_last_allocated_block hp" and ?E = "ht_entries (hp_table hp)"
  note lay = heap_layoutD [OF heap_invD(1) [OF inv]]
  have nb: "unat (size_to_nblocks sz) = n" "0 < n"
    using False by (simp_all add: n unat_size_to_nblocks u32_eq_iff_unat)
  then have w: "size_to_nblocks sz = word_of_nat n" by (metis word_eq_of_nat_unat)
  have L: "1 < ht_len ?t" using lay(1) by (simp add: word_less_nat_alt)
  obtain lb fd rm where loop: "find_first_block_loop m ?t (size_to_nblocks sz) (?l + 1) ?l (- 1) (size_to_nblocks sz) = Some (lb, fd, rm)"
    and r: "if rm \<noteq> 0 \<or> fd < 0 then p = NULL \<and> hp' = hp\<lparr>hp_last_allocated_block := lb\<rparr> \<and> m' = m
      else p = heap_block_to_addr hp (word_of_int fd) \<and> hp' = heap_add_in_use (hp\<lparr>hp_last_allocated_block := lb\<rparr>) (size_to_nblocks sz)
        \<and> m' = heap_reserve_blocks m hp (word_of_int fd) (size_to_nblocks sz)"
    using run False
    by (auto simp: heap_malloc_def heap_malloc_blocks_def find_first_block_def Let_def ENOMEM_def heap_add_in_use_def heap_block_to_addr_def
        heap_reserve_blocks_def split: option.splits if_splits)
  have l1: "unat (?l + 1) = Suc (unat ?l)" using last lay(3) by (simp add: unat_word_ariths)
  have "scan_state m ?t (size_to_nblocks sz) (?l + 1) ?l (- 1) (size_to_nblocks sz)"
    unfolding scan_state_def Let_def
    by (intro exI [of _ "Suc (unat ?l)"] exI [of _ 0]) (use last l1 in \<open>simp add: u32_eq_iff_unat\<close>)
  from find_loop_result [OF loop this L lay(3)] obtain i x r0 where x: "x < ?L" "r0 \<le> n" "unat rm = n - r0" "unat i = (x + r0) mod ?L"
    "\<forall>k<r0. block_free m ?t ((x + k) mod ?L)"
    and fd: "if r0 = 0 then fd = - 1 \<and> (lb = 0 \<or> i \<noteq> lb) else fd = int x \<and> unat lb = (x + r0 - 1) mod ?L"
    and stop: "i = lb \<or> rm = 0" unfolding scan_state_def Let_def nb(1) by blast
  show ?thesis
  proof (cases "rm = 0")
    case False
    have "r0 = 0"
    proof (rule ccontr)
      assume "r0 \<noteq> 0"
      then obtain y where "r0 = Suc y" by (cases r0) auto
      then have "Suc (x + y) mod ?L = (x + y) mod ?L" using stop False x(4) fd by simp
      then show False using mod_Suc_neq lay(1) by blast
    qed
    then show ?thesis using stop False fd r by (intro disjI1 exI [of _ lb]) auto
  next
    case True
    then have r0: "r0 = n" "fd = int x" "unat lb = (x + n - 1) mod ?L" using x(2,3) nb(2) fd by (auto split: if_splits)
    have b: "(word_of_int fd :: u32) = word_of_nat x" using r0(2) by simp
    have p: "p = block_addr hp x" using r True r0(2) b by (simp add: heap_block_to_addr_def block_addr_def mult.commute)
    moreover have "(\<forall>k<n. block_free m ?t (x + k))
       \<and> hp' = (heap_add_in_use hp (word_of_nat n))\<lparr>hp_last_allocated_block := word_of_nat (x + n - 1)\<rparr>
       \<and> m' = write_bytes m (?E + word_of_nat x) (alloc_entries n)" if fits: "x + n \<le> ?L"
    proof -
      have fr: "block_free m ?t (x + k)" if "k < n" for k using x(5) r0(1) that fits by simp
      have "entry m ?E (x + k) = 0" if "k < n" for k using fr [OF that] block_free_entry_0 [OF inv, of "x + k"] that fits by simp
      then have "heap_reserve_blocks m hp (word_of_nat x) (word_of_nat n) = write_bytes m (?E + word_of_nat x) (alloc_entries n)"
        using fits lay(3) nb(2) by (intro heap_reserve_blocks_effect) simp_all
      moreover have "lb = word_of_nat (x + n - 1)" using r0(3) fits nb(2) by (metis add_gr_0 diff_less less_numeral_extra(1) mod_less order_less_le_trans word_eq_of_nat_unat)
      ultimately show ?thesis using fr r True r0(2) b w by (simp add: heap_add_in_use_def)
    qed
    ultimately show ?thesis using x(1) nb(2) block_addr_not_null [OF heap_invD(1) [OF inv] x(1)] by blast
  qed
qed

section \<open>Properties\<close>

text \<open>A heap of four blocks at 0x2000 with its table at 0x1000, empty and with one allocation.\<close>

definition demo_heap :: heap where
  "demo_heap = \<lparr>hp_table = \<lparr>ht_entries = 0x1000, ht_len = 4, ht_in_use = 0\<rparr>,
     hp_base_addr = 0x2000, hp_last_allocated_block = 0\<rparr>"

definition demo_heap1 :: heap where
  "demo_heap1 = (heap_add_in_use demo_heap 1)\<lparr>hp_last_allocated_block := 1\<rparr>"

definition demo_mem1 :: mem where
  "demo_mem1 = write_bytes (\<lambda>_. 0) 0x1001 (alloc_entries 1)"

lemma demo_heap_inv: "heap_inv (\<lambda>_. 0) demo_heap Map.empty"
  by (simp add: heap_inv_def heap_layout_def demo_heap_def regions_disjoint_def used_def table_rep_empty)

lemma demo_heap1_inv: "heap_inv demo_mem1 demo_heap1 [1 \<mapsto> 1]"
  using heap_inv_alloc [OF demo_heap_inv, of 1 1 1]
  by (simp add: demo_heap1_def demo_mem1_def demo_heap_def)

lemma demo_mem1_apply: "demo_mem1 a = (if a = 0x1001 then 65 else 0)"
  by (simp add: demo_mem1_def write_bytes_def alloc_entries_def alloc_entry_def block_defs)

lemmas demo_defs = demo_heap_def demo_heap1_def heap_add_in_use_def demo_mem1_apply

lemma demo_fields:
  "unat (hp_last_allocated_block demo_heap1) = 1" "ht_len (hp_table demo_heap1) = 4"
  "ht_entries (hp_table demo_heap1) = 0x1000"
  "block_addr demo_heap1 (Suc 0) = 0x3000" "block_addr demo_heap1 2 = 0x4000" "block_addr demo_heap1 (Suc (Suc 0)) = 0x4000"
  by (simp_all add: demo_heap_def demo_heap1_def heap_add_in_use_def block_addr_def)

text \<open>
  C12: on a heap that satisfies the invariant, \<open>heap_malloc\<close> returns the first run of
  \<open>n = \<lceil>size / 4096\<rceil>\<close> free blocks after the last allocated block, whenever there is one
  before the end of the table. The run overlaps no live allocation, becomes one in the
  new heap, which satisfies the invariant again, and only the table is written.
\<close>

theorem heap_malloc_first_fit:
  assumes "heap_inv m hp A" "n = (unat sz + 4095) div 4096" "0 < n"
    and "first_fit (block_free m (hp_table hp)) (Suc (unat (hp_last_allocated_block hp))) n
      (unat (ht_len (hp_table hp))) = Some j"
  shows "\<exists>hp' m'. heap_malloc m hp sz = Some (block_addr hp j, hp', m')
     \<and> heap_inv m' hp' (A(j \<mapsto> n)) \<and> (\<forall>b l. A b = Some l \<longrightarrow> b + l \<le> j \<or> j + n \<le> b)
     \<and> hp_base_addr hp' = hp_base_addr hp \<and> unat (hp_last_allocated_block hp') = j + n - 1
     \<and> (\<forall>a. \<not> in_region a (ht_entries (hp_table hp)) (unat (ht_len (hp_table hp))) \<longrightarrow> m' a = m a)"
proof -
  let ?E = "ht_entries (hp_table hp)" and ?L = "unat (ht_len (hp_table hp))"
  let ?m = "write_bytes m (?E + word_of_nat j) (alloc_entries n)"
  note ff = first_fit_Some [OF assms(4)]
  have L: "?L < 2 ^ 31" using heap_layoutD(3) [OF heap_invD(1) [OF assms(1)]] .
  have "?m a = m a" if "\<not> in_region a ?E ?L" for a
  proof (rule write_bytes_outside)
    show "\<not> in_region a (?E + word_of_nat j) (length (alloc_entries n))"
      using that in_region_add [of j n a ?E] in_region_mono [of a ?E "j + n" ?L] ff(2) L by auto
  qed
  moreover have "unat (word_of_nat (j + n - 1) :: u32) = j + n - 1"
    using ff(2) L by (intro unat_word_of_nat_lt) simp
  ultimately show ?thesis
    using heap_malloc_fit [OF assms] heap_malloc_fit_inv [OF assms(1,3,4)] live_disjoint_from_fit [OF assms(1,4,3)]
    by (auto simp: heap_add_in_use_def)
qed

theorem heap_malloc_first_fit_witness:
  "\<exists>hp' m'. heap_malloc demo_mem1 demo_heap1 5000 = Some (0x4000, hp', m') \<and> heap_inv m' hp' [1 \<mapsto> 1, 2 \<mapsto> 2]"
proof -
  have "first_fit (block_free demo_mem1 (hp_table demo_heap1)) (Suc 1) 2 4 = Some (Suc 1)"
    by (rule first_fit_here) (auto simp: demo_defs less_2_cases_iff)
  with heap_malloc_first_fit [OF demo_heap1_inv, of 2 5000 "Suc 1"] show ?thesis
    by (auto simp: demo_fields simp flip: numeral_2_eq_2)
qed

text \<open>
  C13: \<open>heap_free\<close> of the pointer of a live allocation that does not end at the last
  block releases exactly that allocation: the invariant holds for the map without it,
  every other allocation keeps its data, the first block of the freed one is filled
  with 0xFF, and nothing else outside the table changes.
\<close>

theorem heap_free_releases:
  assumes "heap_inv m hp A" "A b = Some n" "b + n < unat (ht_len (hp_table hp))"
  shows "\<exists>hp' m'. heap_free m hp (block_addr hp b) = Some (hp', m') \<and> heap_inv m' hp' (A(b := None))
     \<and> hp_last_allocated_block hp' = hp_last_allocated_block hp
     \<and> unat (ht_in_use (hp_table hp')) + n = unat (ht_in_use (hp_table hp))
     \<and> (\<forall>a. \<not> in_region a (ht_entries (hp_table hp)) (unat (ht_len (hp_table hp))) \<longrightarrow>
          m' a = (if in_region a (block_addr hp b) 4096 then 255 else m a))"
proof -
  let ?E = "ht_entries (hp_table hp)" and ?L = "unat (ht_len (hp_table hp))"
  note live = table_repD [OF heap_invD(2) [OF assms(1)] assms(2)]
  have L: "?L < 2 ^ 31" using heap_layoutD(3) [OF heap_invD(1) [OF assms(1)]] .
  have "heap_freed m hp b n a = (if in_region a (block_addr hp b) 4096 then 255 else m a)"
    if "\<not> in_region a ?E ?L" for a
  proof -
    have "\<not> in_region a (?E + word_of_nat b) n"
      using that in_region_add [of b n a ?E] in_region_mono [of a ?E "b + n" ?L] assms(3) L by auto
    then show ?thesis by (simp add: heap_freed_def fill_mem_def)
  qed
  moreover have "unat (ht_in_use (hp_table hp) - word_of_nat n) + n = unat (ht_in_use (hp_table hp))"
  proof -
    have "unat (word_of_nat n :: u32) = n" using assms(3) L by (intro unat_word_of_nat_lt) simp
    moreover have "n \<le> unat (ht_in_use (hp_table hp))"
      using used_free [of b n ?L "entry m ?E"] live(2,3) heap_invD(3) [OF assms(1)] by simp
    ultimately show ?thesis by (simp add: unat_sub word_le_nat_alt)
  qed
  ultimately show ?thesis
    using heap_free_live [OF assms] heap_inv_free [OF assms(1,2)] by simp
qed

theorem heap_free_releases_witness:
  "\<exists>hp' m'. heap_free demo_mem1 demo_heap1 0x3000 = Some (hp', m') \<and> heap_inv m' hp' Map.empty
     \<and> m' 0x3000 = 255 \<and> m' 0x4000 = 0"
  using heap_free_releases [OF demo_heap1_inv, of 1 1]
  by (auto simp: demo_fields in_region_def demo_mem1_apply)

text \<open>
  C38: when no run of \<open>n\<close> free blocks lies between the last allocated block and the end
  of the table, and the last block of the table is taken, \<open>heap_malloc\<close> returns NULL,
  changes no memory, and makes the next search start from block 1.
\<close>

theorem heap_malloc_out_of_memory:
  assumes "heap_inv m hp A" "n = (unat sz + 4095) div 4096" "0 < n"
    and "Suc (unat (hp_last_allocated_block hp)) < unat (ht_len (hp_table hp))"
    and "first_fit (block_free m (hp_table hp)) (Suc (unat (hp_last_allocated_block hp))) n
      (unat (ht_len (hp_table hp))) = None"
    and "\<not> block_free m (hp_table hp) (unat (ht_len (hp_table hp)) - 1)"
  shows "heap_malloc m hp sz = Some (NULL, hp\<lparr>hp_last_allocated_block := 0\<rparr>, m)"
  by (rule heap_malloc_no_fit [OF assms])

definition demo_heap3 :: heap where
  "demo_heap3 = heap_add_in_use demo_heap 1"

definition demo_mem3 :: mem where
  "demo_mem3 = write_bytes (\<lambda>_. 0) 0x1003 (alloc_entries 1)"

lemma demo_heap3_inv: "heap_inv demo_mem3 demo_heap3 [3 \<mapsto> 1]"
  using heap_inv_alloc [OF demo_heap_inv, of 1 3 0]
  by (simp add: demo_heap3_def demo_mem3_def demo_heap_def heap_add_in_use_def)

lemma demo_mem3_apply: "demo_mem3 a = (if a = 0x1003 then 65 else 0)"
  by (simp add: demo_mem3_def write_bytes_def alloc_entries_def alloc_entry_def block_defs)

theorem heap_malloc_out_of_memory_witness:
  "heap_malloc demo_mem3 demo_heap3 12288 = Some (NULL, demo_heap3, demo_mem3)"
  using heap_malloc_out_of_memory [OF demo_heap3_inv, of 3 12288]
  by (simp add: demo_heap3_def demo_heap_def heap_add_in_use_def first_fit_def demo_mem3_apply upt_rec
      block_defs exI [of _ 2])

text \<open>
  C36: when instead the last block is free and there is no run of \<open>n\<close> free blocks, not
  even across the end of the table, \<open>heap_malloc\<close> never returns.
\<close>

theorem heap_malloc_never_returns:
  assumes "heap_inv m hp A" "sz \<noteq> 0"
    and "Suc (unat (hp_last_allocated_block hp)) < unat (ht_len (hp_table hp))"
    and "no_cyclic_run m (hp_table hp) ((unat sz + 4095) div 4096)"
    and "block_free m (hp_table hp) (unat (ht_len (hp_table hp)) - 1)"
  shows "heap_malloc m hp sz = None"
  by (rule heap_malloc_hang_state [OF assms(1,3,4,2,5)])

theorem heap_malloc_never_returns_witness: "heap_malloc demo_mem1 demo_heap1 16384 = None"
proof -
  have "no_cyclic_run demo_mem1 (hp_table demo_heap1) 4"
    unfolding no_cyclic_run_def
  proof (intro allI impI)
    fix i assume "i < unat (ht_len (hp_table demo_heap1))"
    then have "i = 0 \<or> i = 1 \<or> i = 2 \<or> i = 3" by (auto simp: demo_fields)
    moreover have "\<not> block_free demo_mem1 (hp_table demo_heap1) 1" by (simp add: demo_defs block_defs)
    ultimately show "\<exists>k<4. \<not> block_free demo_mem1 (hp_table demo_heap1) ((i + k) mod unat (ht_len (hp_table demo_heap1)))"
      by (intro exI [of _ "(5 - i) mod 4"]) (auto simp: demo_fields)
  qed
  with heap_malloc_never_returns [OF demo_heap1_inv, of 16384] show ?thesis
    by (simp add: demo_defs)
qed

text \<open>
  On a heap without allocations the search counts the same free blocks again and
  again, so that \<open>heap_malloc\<close> grants every positive size, also one larger than the
  heap, at the block after the last allocated one.
\<close>

theorem heap_malloc_empty_heap_grants_all:
  assumes "heap_inv m hp Map.empty"
    and "Suc (unat (hp_last_allocated_block hp)) < unat (ht_len (hp_table hp))" "sz \<noteq> 0"
  shows "\<exists>hp' m'. heap_malloc m hp sz = Some (block_addr hp (Suc (unat (hp_last_allocated_block hp))), hp', m')"
  by (rule heap_malloc_empty [OF assms])

theorem heap_malloc_empty_heap_grants_all_witness:
  "\<exists>hp' m'. heap_malloc (\<lambda>_. 0) demo_heap 0x10000 = Some (0x3000, hp', m')"
  using heap_malloc_empty_heap_grants_all [OF demo_heap_inv, of 65536]
  by (simp add: demo_heap_def block_addr_def)

text \<open>
  \<open>heap_create\<close> with a table of the right length and block-aligned bounds returns 0
  and establishes the invariant with no allocation.
\<close>

theorem heap_create_establishes_inv:
  assumes "ptr mod 4096 = 0" "end_addr mod 4096 = 0" "ht_len t = (end_addr - ptr) div 4096"
    and "0 < ptr" "ptr < end_addr" "1 < ht_len t" "ht_in_use t = 0"
    and "regions_disjoint (ht_entries t) (unat (ht_len t)) ptr (4096 * unat (ht_len t))"
  shows "\<exists>hp m'. heap_create m hp0 ptr end_addr t = (0, hp, m') \<and> heap_inv m' hp Map.empty
    \<and> hp_table hp = t \<and> hp_base_addr hp = ptr \<and> hp_last_allocated_block hp = 0"
proof -
  obtain hp m' where c: "heap_create m hp0 ptr end_addr t = (0, hp, m')"
    using assms(1-3) by (simp add: heap_create_def heap_validate_alignment_def heap_validate_table_def Let_def)
  from heap_create_inv [OF c assms(5,4,6,7,8)] c show ?thesis by simp
qed

theorem heap_create_establishes_inv_witness:
  "\<exists>hp m'. heap_create (\<lambda>_. 7) demo_heap 0x2000 0x6000 \<lparr>ht_entries = 0x1000, ht_len = 4, ht_in_use = 0\<rparr> = (0, hp, m')
     \<and> heap_inv m' hp Map.empty"
  using heap_create_establishes_inv [of 8192 24576 "\<lparr>ht_entries = 0x1000, ht_len = 4, ht_in_use = 0\<rparr>" "\<lambda>_. 7" demo_heap]
  by (auto simp: regions_disjoint_def)

text \<open>
  The counter \<open>in_use\<close> the operations keep is what \<open>count_used_blocks\<close> finds by
  going through the table.
\<close>

theorem count_used_blocks_is_in_use:
  assumes "heap_inv m hp A"
  shows "count_used_blocks m hp = ht_in_use (hp_table hp)"
  by (rule count_used_blocks_in_use [OF assms])

theorem count_used_blocks_is_in_use_witness: "count_used_blocks demo_mem1 demo_heap1 = 1"
  using count_used_blocks_is_in_use [OF demo_heap1_inv] by (simp add: demo_defs)

end
