(* ===== verification/Kheap.thy ===== *)
theory Kheap
  imports Heap_C
begin

text \<open>
  The kernel heap, \<^verbatim>\<open>src/memory/kheap.c\<close>, and \<open>memmove\<close> of
  \<^verbatim>\<open>src/string/string.c\<close>, which allocates its buffer from it. The state is the memory
  and the global \<open>kernel_heap\<close> with its table. The locale \<open>allocator\<close> states what the
  rest of the kernel relies on; it is interpreted on \<open>kzalloc\<close> and \<open>kfree\<close>.
\<close>

section \<open>The code\<close>

record kstate =
  ks_mem :: mem
  ks_heap :: heap

definition KERNEL_HEAP_SIZE :: u32 where "KERNEL_HEAP_SIZE = 0x1000000"

text \<open>
  \<open>kernel_end\<close> is the address of the linker symbol \<open>_kernel_end\<close>. \<open>None\<close> stands for
  \<open>panic\<close>, which never returns.
\<close>

definition page_round_up :: "addr \<Rightarrow> addr" where
  "page_round_up a = (if a AND 0xFFF \<noteq> 0 then (a AND NOT 0xFFF) + 0x1000 else a)"

definition kheap_init :: "addr \<Rightarrow> kstate \<Rightarrow> kstate option" where
  "kheap_init kernel_end s =
     (let table_ptr_begin = page_round_up kernel_end;
          kheap_table = \<lparr>ht_entries = table_ptr_begin,
                         ht_len = KERNEL_HEAP_SIZE div KERNEL_HEAP_BLOCK_SIZE, ht_in_use = 0\<rparr>;
          table_ptr_end = page_round_up (table_ptr_begin + ht_len kheap_table);
          end_addr = table_ptr_end + KERNEL_HEAP_SIZE
      in case heap_create (ks_mem s) (ks_heap s) table_ptr_end end_addr kheap_table of
           (r, hp, m) \<Rightarrow> if r \<noteq> 0 then None else Some \<lparr>ks_mem = m, ks_heap = hp\<rparr>)"

definition kmalloc :: "kstate \<Rightarrow> u32 \<Rightarrow> (addr \<times> kstate) option" where
  "kmalloc s sz =
     (case heap_malloc (ks_mem s) (ks_heap s) sz of
        None \<Rightarrow> None
      | Some (ptr, hp, m) \<Rightarrow> Some (ptr, \<lparr>ks_mem = m, ks_heap = hp\<rparr>))"

definition kzalloc :: "kstate \<Rightarrow> u32 \<Rightarrow> (addr \<times> kstate) option" where
  "kzalloc s sz =
     (case heap_malloc (ks_mem s) (ks_heap s) sz of
        None \<Rightarrow> None
      | Some (ptr, hp, m) \<Rightarrow>
          if ptr = NULL then Some (NULL, \<lparr>ks_mem = m, ks_heap = hp\<rparr>)
          else Some (ptr, \<lparr>ks_mem = memset m ptr 0 sz, ks_heap = hp\<rparr>))"

definition kfree :: "kstate \<Rightarrow> addr \<Rightarrow> kstate option" where
  "kfree s ptr =
     (case heap_free (ks_mem s) (ks_heap s) ptr of
        None \<Rightarrow> None
      | Some (hp, m) \<Rightarrow> Some \<lparr>ks_mem = m, ks_heap = hp\<rparr>)"

definition kheap_count_used_blocks :: "kstate \<Rightarrow> u32" where
  "kheap_count_used_blocks s = count_used_blocks (ks_mem s) (ks_heap s)"

definition kheap_addr_to_block :: "kstate \<Rightarrow> addr \<Rightarrow> u32" where
  "kheap_addr_to_block s ptr = heap_addr_to_block (ks_heap s) ptr"

definition kheap_free :: "kstate \<Rightarrow> u32" where
  "kheap_free s = (ht_len (hp_table (ks_heap s)) - ht_in_use (hp_table (ks_heap s))) * KERNEL_HEAP_BLOCK_SIZE"

definition kheap_used :: "kstate \<Rightarrow> u32" where
  "kheap_used s = ht_in_use (hp_table (ks_heap s)) * KERNEL_HEAP_BLOCK_SIZE"

definition memmove :: "kstate \<Rightarrow> addr \<Rightarrow> addr \<Rightarrow> u32 \<Rightarrow> (addr \<times> kstate) option" where
  "memmove s dest src n =
     (case kzalloc s n of
        None \<Rightarrow> None
      | Some (buf, s1) \<Rightarrow>
          if buf = NULL then Some (NULL, s1)
          else let m1 = memcpy (ks_mem s1) buf src n; m2 = memcpy m1 dest buf n
               in case kfree (s1\<lparr>ks_mem := m2\<rparr>) buf of
                    None \<Rightarrow> None
                  | Some s2 \<Rightarrow> Some (dest, s2))"

section \<open>The interface of the allocator\<close>

text \<open>
  A client sees live regions as a map from their address to their length. \<open>room s k\<close>
  says that requests of \<open>k\<close> blocks in total will be served without the search going
  back to the start of the heap, \<open>ext s a\<close> that the address \<open>a\<close> lies outside the memory
  the allocator manages.
\<close>

abbreviation nblocks :: "u32 \<Rightarrow> nat" where
  "nblocks sz \<equiv> (unat sz + 4095) div 4096"

lemma nblocks_le: "unat sz \<le> 4096 * nblocks sz"
  by simp

locale allocator =
  fixes alloc :: "'s \<Rightarrow> u32 \<Rightarrow> (addr \<times> 's) option"
    and release :: "'s \<Rightarrow> addr \<Rightarrow> 's option"
    and mem_of :: "'s \<Rightarrow> mem"
    and with_mem :: "'s \<Rightarrow> mem \<Rightarrow> 's"
    and inv :: "'s \<Rightarrow> (addr \<rightharpoonup> nat) \<Rightarrow> bool"
    and room :: "'s \<Rightarrow> nat \<Rightarrow> bool"
    and ext :: "'s \<Rightarrow> addr \<Rightarrow> bool"
  assumes alloc_ok: "inv s P \<Longrightarrow> room s k \<Longrightarrow> 0 < sz \<Longrightarrow> nblocks sz \<le> k \<Longrightarrow>
      \<exists>p s'. alloc s sz = Some (p, s') \<and> p \<noteq> NULL \<and> P p = None \<and> p mod 4096 = 0
        \<and> inv s' (P(p \<mapsto> 4096 * nblocks sz)) \<and> room s' (k - nblocks sz)
        \<and> bytes (mem_of s') p (unat sz) = replicate (unat sz) 0
        \<and> (\<forall>q l a. P q = Some l \<longrightarrow> in_region a q l \<longrightarrow> mem_of s' a = mem_of s a)
        \<and> (\<forall>a. ext s a \<longrightarrow> ext s' a \<and> mem_of s' a = mem_of s a)"
    and release_ok: "inv s P \<Longrightarrow> P p = Some l \<Longrightarrow>
      \<exists>s'. release s p = Some s' \<and> inv s' (P(p := None)) \<and> (\<forall>k. room s k \<longrightarrow> room s' k)
        \<and> (\<forall>q l' a. P q = Some l' \<longrightarrow> q \<noteq> p \<longrightarrow> in_region a q l' \<longrightarrow> mem_of s' a = mem_of s a)
        \<and> (\<forall>a. ext s a \<longrightarrow> ext s' a \<and> mem_of s' a = mem_of s a)"
    and write_live: "inv s P \<Longrightarrow> P p = Some l \<Longrightarrow> (\<And>a. \<not> in_region a p l \<Longrightarrow> m a = mem_of s a) \<Longrightarrow>
      inv (with_mem s m) P \<and> (\<forall>k. room s k \<longrightarrow> room (with_mem s m) k) \<and> (\<forall>a. ext s a \<longrightarrow> ext (with_mem s m) a)"
    and mem_of_with_mem: "mem_of (with_mem s m) = m"
    and live_disjoint: "inv s P \<Longrightarrow> P p = Some l \<Longrightarrow> P q = Some l' \<Longrightarrow> p \<noteq> q \<Longrightarrow> regions_disjoint p l q l'"
    and ext_not_live: "inv s P \<Longrightarrow> P p = Some l \<Longrightarrow> in_region a p l \<Longrightarrow> \<not> ext s a"
begin

lemma alloc_region:
  assumes "inv s P" "room s (nblocks sz + k)" "0 < sz"
  obtains p s' where "alloc s sz = Some (p, s')" "p \<noteq> NULL" "P p = None" "p mod 4096 = 0"
    "inv s' (P(p \<mapsto> 4096 * nblocks sz))" "room s' k" "bytes (mem_of s') p (unat sz) = replicate (unat sz) 0"
    "\<And>q l a. P q = Some l \<Longrightarrow> in_region a q l \<Longrightarrow> mem_of s' a = mem_of s a"
    "\<And>a. ext s a \<Longrightarrow> ext s' a" "\<And>a. ext s a \<Longrightarrow> mem_of s' a = mem_of s a"
  using alloc_ok [OF assms le_add1] unfolding add_diff_cancel_left'
  by (elim exE conjE) (rule that, assumption+, blast+)

text \<open>Requests of at most one page, the usual case.\<close>

lemma alloc_page:
  assumes "inv s P" "room s (Suc k)" "0 < sz" "sz \<le> 4096"
  obtains p s' where "alloc s sz = Some (p, s')" "p \<noteq> NULL" "P p = None" "p mod 4096 = 0"
    "inv s' (P(p \<mapsto> 4096))" "room s' k" "bytes (mem_of s') p (unat sz) = replicate (unat sz) 0"
    "\<And>q l a. P q = Some l \<Longrightarrow> in_region a q l \<Longrightarrow> mem_of s' a = mem_of s a"
    "\<And>a. ext s a \<Longrightarrow> ext s' a" "\<And>a. ext s a \<Longrightarrow> mem_of s' a = mem_of s a"
proof -
  have "nblocks sz = 1" using assms(3,4) by (intro div_nat_eqI) (simp_all add: word_less_nat_alt word_le_nat_alt)
  then show ?thesis
    using alloc_region [of s P sz k thesis] assms(1-3) that by (simp del: fun_upd_apply)
qed

text \<open>A store into a live region touches no other live region and nothing outside the heap.\<close>

lemma live_sep:
  "inv s P \<Longrightarrow> P p = Some l \<Longrightarrow> P q = Some l' \<Longrightarrow> p \<noteq> q \<Longrightarrow> in_region a q l' \<Longrightarrow> \<not> in_region a p l"
  using live_disjoint regions_disjointD regions_disjoint_sym by blast

lemma write_frame:
  assumes "inv s P" "P p = Some l" "\<forall>a. \<not> in_region a p l \<longrightarrow> m a = mem_of s a"
  shows "inv (with_mem s m) P" "\<And>k. room s k \<Longrightarrow> room (with_mem s m) k" "\<And>a. ext s a \<Longrightarrow> ext (with_mem s m) a"
    "\<And>a. ext s a \<Longrightarrow> m a = mem_of s a"
    "\<And>q l' a. P q = Some l' \<Longrightarrow> q \<noteq> p \<Longrightarrow> in_region a q l' \<Longrightarrow> m a = mem_of s a"
  using write_live [OF assms(1,2), of m] assms(3) ext_not_live [OF assms(1,2)] live_sep [OF assms(1,2)] by blast+

lemma release_frame:
  assumes "inv s P" "P p = Some l"
  obtains s' where "release s p = Some s'" "inv s' (P(p := None))" "\<And>k. room s k \<Longrightarrow> room s' k"
    "\<And>q l' a. P q = Some l' \<Longrightarrow> q \<noteq> p \<Longrightarrow> in_region a q l' \<Longrightarrow> mem_of s' a = mem_of s a"
    "\<And>a. ext s a \<Longrightarrow> ext s' a" "\<And>a. ext s a \<Longrightarrow> mem_of s' a = mem_of s a"
  using release_ok [OF assms] by blast

end

section \<open>The kernel heap as an allocator\<close>

text \<open>The live allocations of a heap, by address and in bytes.\<close>

definition live_map :: "heap \<Rightarrow> (nat \<rightharpoonup> nat) \<Rightarrow> addr \<rightharpoonup> nat" where
  "live_map hp A p = (let d = unat (p - hp_base_addr hp)
     in if d mod 4096 = 0 then map_option (\<lambda>n. 4096 * n) (A (d div 4096)) else None)"

text \<open>
  The kernel heap in normal operation: the heap invariant, and no allocation reaches the
  last block of the table, whose successor entry \<open>heap_free\<close> would read.
\<close>

definition kheap_inv :: "kstate \<Rightarrow> (addr \<rightharpoonup> nat) \<Rightarrow> bool" where
  "kheap_inv s P \<longleftrightarrow> (\<exists>A. heap_inv (ks_mem s) (ks_heap s) A \<and> P = live_map (ks_heap s) A
     \<and> (\<forall>b n. A b = Some n \<longrightarrow> b + n < unat (ht_len (hp_table (ks_heap s)))))"

definition kheap_room :: "kstate \<Rightarrow> nat \<Rightarrow> bool" where
  "kheap_room s k \<longleftrightarrow> (let hp = ks_heap s; l = unat (hp_last_allocated_block hp)
     in l + k + 1 < unat (ht_len (hp_table hp))
        \<and> (\<forall>i<k. entry (ks_mem s) (ht_entries (hp_table hp)) (l + 1 + i) = 0))"

definition kheap_ext :: "kstate \<Rightarrow> addr \<Rightarrow> bool" where
  "kheap_ext s a \<longleftrightarrow> (let hp = ks_heap s; L = unat (ht_len (hp_table hp))
     in \<not> in_region a (ht_entries (hp_table hp)) L \<and> \<not> in_region a (hp_base_addr hp) (4096 * L))"

lemma kheap_roomI:
  assumes "Suc (unat (hp_last_allocated_block (ks_heap s))) = j" "j + k < unat (ht_len (hp_table (ks_heap s)))"
    and "\<And>i. i < k \<Longrightarrow> entry (ks_mem s) (ht_entries (hp_table (ks_heap s))) (j + i) = 0"
  shows "kheap_room s k"
  unfolding kheap_room_def Let_def using assms by auto

lemma block_addr_offset:
  assumes "heap_layout hp" "b < unat (ht_len (hp_table hp))"
  shows "unat (block_addr hp b - hp_base_addr hp) = 4096 * b"
proof -
  have "4096 * b < 2 ^ 32" using heap_layoutD(2) [OF assms(1)] assms(2) by simp
  then show ?thesis by (simp add: block_addr_def unat_word_of_nat_lt del: of_nat_mult)
qed

lemma live_map_block:
  "heap_layout hp \<Longrightarrow> b < unat (ht_len (hp_table hp)) \<Longrightarrow> live_map hp A (block_addr hp b) = map_option (\<lambda>n. 4096 * n) (A b)"
  by (simp add: live_map_def block_addr_offset)

lemma live_map_Some:
  assumes "heap_inv m hp A" "live_map hp A p = Some l"
  obtains b n where "A b = Some n" "p = block_addr hp b" "l = 4096 * n" "b + n \<le> unat (ht_len (hp_table hp))" "0 < n"
proof -
  let ?d = "unat (p - hp_base_addr hp)"
  from assms(2) obtain n where n: "?d mod 4096 = 0" "A (?d div 4096) = Some n" "l = 4096 * n"
    by (auto simp: live_map_def Let_def split: if_splits)
  have "4096 * (?d div 4096) = ?d" using n(1) by auto
  then have "p = block_addr hp (?d div 4096)" by (simp only: block_addr_def) simp
  with that n table_repD(1,2) [OF heap_invD(2) [OF assms(1)] n(2)] show ?thesis by blast
qed

lemma block_addr_inj:
  assumes "heap_layout hp" "b < unat (ht_len (hp_table hp))" "b' < unat (ht_len (hp_table hp))"
  shows "block_addr hp b = block_addr hp b' \<longleftrightarrow> b = b'"
  unfolding u32_eq_iff_unat unat_block_addr [OF assms(1,2)] unat_block_addr [OF assms(1,3)] by simp

lemma live_map_upd:
  assumes "heap_layout hp" "b < unat (ht_len (hp_table hp))"
  shows "live_map hp (A(b := x)) = (live_map hp A)(block_addr hp b := map_option (\<lambda>n. 4096 * n) x)"
proof
  fix p
  let ?d = "unat (p - hp_base_addr hp)"
  show "live_map hp (A(b := x)) p = ((live_map hp A)(block_addr hp b := map_option (\<lambda>n. 4096 * n) x)) p"
  proof (cases "p = block_addr hp b")
    case True
    then show ?thesis using live_map_block [OF assms, of "A(b := x)"] by simp
  next
    case False
    have "?d div 4096 \<noteq> b" if "?d mod 4096 = 0"
    proof
      assume "?d div 4096 = b"
      then have "?d = 4096 * b" using that by auto
      then have "p = hp_base_addr hp + word_of_nat (4096 * b)" by (metis add_diff_cancel_left' diff_add_cancel word_eq_of_nat_unat add.commute)
      then show False using False by (simp add: block_addr_def)
    qed
    with False show ?thesis by (auto simp: live_map_def Let_def)
  qed
qed

lemma block_regions_disjoint:
  assumes "heap_layout hp" "b + n \<le> b'" "b' + n' \<le> unat (ht_len (hp_table hp))" "0 < n" "0 < n'"
  shows "regions_disjoint (block_addr hp b) (4096 * n) (block_addr hp b') (4096 * n')"
proof -
  have ub: "unat (block_addr hp b) = unat (hp_base_addr hp) + 4096 * b"
    "unat (block_addr hp b') = unat (hp_base_addr hp) + 4096 * b'"
    using unat_block_addr [OF assms(1)] assms by simp_all
  have "unat (block_addr hp b' - block_addr hp b) = 4096 * (b' - b)"
    using ub assms(2) by (subst unat_sub) (simp_all add: word_le_nat_alt)
  moreover have "4096 * n' \<le> unat (block_addr hp b - block_addr hp b')"
  proof (cases "b = b'")
    case True then show ?thesis using assms ub by simp
  next
    case False
    have "unat (block_addr hp b - block_addr hp b') = 2 ^ 32 - 4096 * (b' - b)"
      unfolding unat_sub_if' ub using False assms(2) by (simp add: diff_mult_distrib2)
    moreover have "4096 * (b' - b) + 4096 * n' \<le> 2 ^ 32" using heap_layoutD(6) [OF assms(1)] assms(2,3) by simp
    ultimately show ?thesis by simp
  qed
  ultimately show ?thesis using assms(2) by (simp add: regions_disjoint_def)
qed

lemma heap_inv_cong:
  assumes "heap_inv m hp A" "\<And>a. in_region a (ht_entries (hp_table hp)) (unat (ht_len (hp_table hp))) \<Longrightarrow> m' a = m a"
  shows "heap_inv m' hp A"
proof -
  let ?E = "ht_entries (hp_table hp)" and ?L = "unat (ht_len (hp_table hp))"
  have at: "entry m' ?E i = entry m ?E i" if "i < ?L" for i
    using that unat_lt_2p32 [of "ht_len (hp_table hp)"] by (intro assms(2)) (simp add: in_region_nth)
  note inv = heap_invD [OF assms(1)]
  have "table_rep (entry m' ?E) ?L A" using table_rep_cong [OF _ inv(2)] at by simp
  moreover have "used (entry m' ?E) ?L = used (entry m ?E) ?L" using at by (rule used_cong)
  ultimately show ?thesis using inv by (simp add: heap_inv_def)
qed

lemma block_not_table:
  assumes "heap_layout hp" "b + n \<le> unat (ht_len (hp_table hp))" "in_region a (block_addr hp b) (4096 * n)"
  shows "\<not> in_region a (ht_entries (hp_table hp)) (unat (ht_len (hp_table hp)))"
  using regions_disjointD [OF heap_layoutD(7) [OF assms(1)]] in_block_in_heap [OF assms] by blast

text \<open>The effect of \<open>kzalloc\<close> while there is room.\<close>

lemma memset_0: "memset m s 0 n = fill_mem m s (unat n) 0"
  using memset_fill_mem [of 0] memset_dword_low [of 0] by simp

lemma entry_region:
  "i < unat (ht_len (hp_table hp)) \<Longrightarrow>
    in_region (ht_entries (hp_table hp) + word_of_nat i) (ht_entries (hp_table hp)) (unat (ht_len (hp_table hp)))"
  using unat_lt_2p32 [of "ht_len (hp_table hp)"] by (simp add: in_region_nth)

lemma block_addr_aligned:
  assumes "heap_layout hp" "b < unat (ht_len (hp_table hp))"
  shows "block_addr hp b mod 4096 = 0"
proof -
  have "unat (block_addr hp b mod 4096) = 0"
    unfolding unat_mod unat_block_addr [OF assms] unat_4096 using heap_layoutD(5) [OF assms(1)] by simp
  then show ?thesis by (simp add: unat_eq_zero)
qed

lemma kzalloc_at:
  assumes inv: "heap_inv (ks_mem s) (ks_heap s) A" and n: "n = nblocks sz" "0 < n" and jL: "j + n < unat (ht_len (hp_table (ks_heap s)))"
    and free: "\<forall>k<n. block_free (ks_mem s) (hp_table (ks_heap s)) (j + k)"
    and run: "heap_malloc (ks_mem s) (ks_heap s) sz = Some (block_addr (ks_heap s) j,
      (heap_add_in_use (ks_heap s) (word_of_nat n))\<lparr>hp_last_allocated_block := word_of_nat (j + n - 1)\<rparr>,
      write_bytes (ks_mem s) (ht_entries (hp_table (ks_heap s)) + word_of_nat j) (alloc_entries n))"
  obtains s' where "kzalloc s sz = Some (block_addr (ks_heap s) j, s')"
    "heap_inv (ks_mem s') (ks_heap s') (A(j \<mapsto> n))"
    "hp_base_addr (ks_heap s') = hp_base_addr (ks_heap s)"
    "ht_len (hp_table (ks_heap s')) = ht_len (hp_table (ks_heap s))"
    "ht_entries (hp_table (ks_heap s')) = ht_entries (hp_table (ks_heap s))" "A j = None"
    "bytes (ks_mem s') (block_addr (ks_heap s) j) (unat sz) = replicate (unat sz) 0"
    "\<And>a. \<not> in_region a (ht_entries (hp_table (ks_heap s))) (unat (ht_len (hp_table (ks_heap s)))) \<Longrightarrow>
       \<not> in_region a (block_addr (ks_heap s) j) (unat sz) \<Longrightarrow> ks_mem s' a = ks_mem s a"
    "Suc (unat (hp_last_allocated_block (ks_heap s'))) = j + n"
    "\<And>i. j + n \<le> i \<Longrightarrow> i < unat (ht_len (hp_table (ks_heap s))) \<Longrightarrow>
       entry (ks_mem s') (ht_entries (hp_table (ks_heap s))) i = entry (ks_mem s) (ht_entries (hp_table (ks_heap s))) i"
proof -
  let ?hp = "ks_heap s" and ?m = "ks_mem s"
  let ?E = "ht_entries (hp_table ?hp)" and ?L = "unat (ht_len (hp_table ?hp))" and ?p = "block_addr ?hp j"
  note lay = heap_invD(1) [OF inv]
  have j: "j < ?L" using jL by simp
  have L: "?L < 2 ^ 31" using heap_layoutD(3) [OF lay] .
  have fit: "first_fit (block_free ?m (hp_table ?hp)) j n ?L = Some j" using free jL n(2) by (intro first_fit_here) auto
  have none: "A j = None"
    using live_disjoint_from_fit [OF inv fit n(2), of j] table_repD(1) [OF heap_invD(2) [OF inv], of j] n(2)
    by (cases "A j") auto
  let ?hp' = "(heap_add_in_use ?hp (word_of_nat n))\<lparr>hp_last_allocated_block := word_of_nat (j + n - 1)\<rparr>"
  let ?m1 = "write_bytes ?m (?E + word_of_nat j) (alloc_entries n)" and ?m2 = "\<lambda>m. fill_mem m ?p (unat sz) 0"
  let ?s = "\<lparr>ks_mem = ?m2 ?m1, ks_heap = ?hp'\<rparr>"
  have "kzalloc s sz = Some (?p, ?s)" using run block_addr_not_null [OF lay j] by (simp add: kzalloc_def memset_0)
  moreover have in_heap: "\<not> in_region a ?p (unat sz)" if "in_region a ?E ?L" for a
    using block_not_table [OF lay, of j n a] jL that in_region_mono [of a ?p "unat sz" "4096 * n"] n(1) by auto
  moreover have "heap_inv (?m2 ?m1) ?hp' (A(j \<mapsto> n))"
    by (rule heap_inv_cong [OF heap_malloc_fit_inv [OF inv n(2) fit]])
      (use in_heap in \<open>simp add: fill_mem_outside heap_add_in_use_def\<close>)
  moreover have l: "unat (word_of_nat (j + n - 1) :: u32) = j + n - 1" using jL L by (intro unat_word_of_nat_lt) simp
  moreover have "entry (?m2 ?m1) ?E i = entry ?m ?E i" if i: "j + n \<le> i" "i < ?L" for i
  proof -
    have "entry (?m2 ?m1) ?E i = entry ?m1 ?E i" using in_heap entry_region [OF i(2)] by (intro fill_mem_outside) blast
    also have "\<dots> = entry ?m ?E i" using entry_write_bytes [of i j "alloc_entries n" ?m ?E] i L by simp
    finally show ?thesis .
  qed
  moreover have "bytes (?m2 ?m1) ?p (unat sz) = replicate (unat sz) 0"
    using unat_lt_2p32 [of sz] by (intro bytes_fill_mem) simp
  moreover have "?m2 ?m1 a = ?m a" if "\<not> in_region a ?E ?L" "\<not> in_region a ?p (unat sz)" for a
  proof -
    have "\<not> in_region a (?E + word_of_nat j) n"
      using that(1) in_region_add [of j n a ?E] in_region_mono [of a ?E "j + n" ?L] jL L by auto
    with that(2) show ?thesis by (simp add: fill_mem_outside write_bytes_outside)
  qed
  ultimately show ?thesis using that [of ?s] n(2) none by (simp add: heap_add_in_use_def del: of_nat_diff of_nat_add)
qed

lemma room_fit:
  assumes inv: "heap_inv (ks_mem s) (ks_heap s) A" and room: "kheap_room s k" and n: "0 < sz" "nblocks sz \<le> k"
  defines "j \<equiv> Suc (unat (hp_last_allocated_block (ks_heap s)))"
  shows "0 < nblocks sz" "j + nblocks sz < unat (ht_len (hp_table (ks_heap s)))"
    "\<forall>i<nblocks sz. block_free (ks_mem s) (hp_table (ks_heap s)) (j + i)"
    "heap_malloc (ks_mem s) (ks_heap s) sz = Some (block_addr (ks_heap s) j,
      (heap_add_in_use (ks_heap s) (word_of_nat (nblocks sz)))\<lparr>hp_last_allocated_block := word_of_nat (j + nblocks sz - 1)\<rparr>,
      write_bytes (ks_mem s) (ht_entries (hp_table (ks_heap s)) + word_of_nat j) (alloc_entries (nblocks sz)))"
proof -
  let ?hp = "ks_heap s" and ?n = "nblocks sz"
  show n0: "0 < ?n" using n(1) by (simp add: word_less_nat_alt div_greater_zero_iff)
  show jL: "j + ?n < unat (ht_len (hp_table ?hp))" using room n(2) by (auto simp: kheap_room_def Let_def j_def)
  show fr: "\<forall>i<?n. block_free (ks_mem s) (hp_table ?hp) (j + i)" using room n(2) by (auto simp: kheap_room_def Let_def j_def)
  have "first_fit (block_free (ks_mem s) (hp_table ?hp)) j ?n (unat (ht_len (hp_table ?hp))) = Some j"
    using fr jL n0 by (intro first_fit_here) auto
  from heap_malloc_fit [OF inv refl n0 this [unfolded j_def]]
  show "heap_malloc (ks_mem s) ?hp sz = Some (block_addr ?hp j, (heap_add_in_use ?hp (word_of_nat ?n))\<lparr>hp_last_allocated_block := word_of_nat (j + ?n - 1)\<rparr>,
      write_bytes (ks_mem s) (ht_entries (hp_table ?hp) + word_of_nat j) (alloc_entries ?n))" by (simp add: j_def)
qed

lemma kzalloc_room:
  assumes inv: "heap_inv (ks_mem s) (ks_heap s) A" and room: "kheap_room s k"
    and n: "0 < sz" "nblocks sz \<le> k"
  defines "j \<equiv> Suc (unat (hp_last_allocated_block (ks_heap s)))"
  obtains s' where "kzalloc s sz = Some (block_addr (ks_heap s) j, s')" "kheap_room s' (k - nblocks sz)"
    "hp_base_addr (ks_heap s') = hp_base_addr (ks_heap s)"
    "Suc (unat (hp_last_allocated_block (ks_heap s'))) = j + nblocks sz"
proof -
  let ?hp = "ks_heap s" and ?n = "nblocks sz"
  let ?E = "ht_entries (hp_table ?hp)" and ?L = "unat (ht_len (hp_table ?hp))"
  note f = room_fit [OF assms(1-4), folded j_def]
  obtain s' where s': "kzalloc s sz = Some (block_addr ?hp j, s')" "hp_base_addr (ks_heap s') = hp_base_addr ?hp"
    "ht_len (hp_table (ks_heap s')) = ht_len (hp_table ?hp)" "ht_entries (hp_table (ks_heap s')) = ?E"
    "Suc (unat (hp_last_allocated_block (ks_heap s'))) = j + ?n"
    and same: "\<And>i. j + ?n \<le> i \<Longrightarrow> i < ?L \<Longrightarrow> entry (ks_mem s') ?E i = entry (ks_mem s) ?E i"
    by (rule kzalloc_at [OF inv refl f]) (rule that; assumption)
  have "kheap_room s' (k - ?n)"
  proof (rule kheap_roomI [OF s'(5)])
    show "j + ?n + (k - ?n) < unat (ht_len (hp_table (ks_heap s')))" using room n(2) s'(3) by (auto simp: kheap_room_def Let_def j_def)
    fix i assume "i < k - ?n"
    then have i: "j + ?n + i < ?L" "?n + i < k" using room by (auto simp: kheap_room_def Let_def j_def)
    then show "entry (ks_mem s') (ht_entries (hp_table (ks_heap s'))) (j + ?n + i) = 0"
      using same [of "j + ?n + i"] room s'(4) by (auto simp: kheap_room_def Let_def j_def add.assoc)
  qed
  then show thesis using that s'(1,2,5) by blast
qed

lemma live_map_cong: "hp_base_addr hp = hp_base_addr hp' \<Longrightarrow> live_map hp A = live_map hp' A"
  by (simp add: live_map_def fun_eq_iff)

lemma block_addr_cong: "hp_base_addr hp = hp_base_addr hp' \<Longrightarrow> block_addr hp b = block_addr hp' b"
  by (simp add: block_addr_def)

text \<open>The blocks behind the last one handed out are handed out next, in their order.\<close>

definition next_block :: "kstate \<Rightarrow> nat \<Rightarrow> addr" where
  "next_block s i = block_addr (ks_heap s) (Suc (unat (hp_last_allocated_block (ks_heap s))) + i)"

lemma kzalloc_next:
  assumes "kheap_inv s P" "kheap_room s (nblocks sz + k)" "0 < sz" "kzalloc s sz = Some (p, s')"
  shows "p = next_block s 0" "next_block s' i = next_block s (nblocks sz + i)"
proof -
  obtain A where "heap_inv (ks_mem s) (ks_heap s) A" using assms(1) by (auto simp: kheap_inv_def)
  then obtain s1 where "kzalloc s sz = Some (block_addr (ks_heap s) (Suc (unat (hp_last_allocated_block (ks_heap s)))), s1)"
    "hp_base_addr (ks_heap s1) = hp_base_addr (ks_heap s)"
    "Suc (unat (hp_last_allocated_block (ks_heap s1))) = Suc (unat (hp_last_allocated_block (ks_heap s))) + nblocks sz"
    by (rule kzalloc_room [OF _ assms(2,3)]) simp_all
  then show "p = next_block s 0" "next_block s' i = next_block s (nblocks sz + i)"
    using assms(4) by (auto simp: next_block_def block_addr_def add.assoc)
qed

text \<open>They lie inside the memory of the heap, and \<open>k\<close> blocks of it behind them.\<close>

lemma next_block_bounds:
  assumes inv: "kheap_inv s P" and room: "kheap_room s (i + k)"
    and ext: "\<forall>a. unat a < lo \<or> hi \<le> unat a \<longrightarrow> kheap_ext s a"
  shows "lo \<le> unat (next_block s i)" "unat (next_block s i) + 4096 * k < hi" "unat (next_block s i) mod 4096 = 0"
proof -
  let ?hp = "ks_heap s" let ?b = "unat (hp_base_addr ?hp)" and ?L = "unat (ht_len (hp_table ?hp))"
  obtain A where A: "heap_inv (ks_mem s) ?hp A" using inv by (auto simp: kheap_inv_def)
  note lay = heap_layoutD(1,5,6) [OF heap_invD(1) [OF A]]
  define j where "j = Suc (unat (hp_last_allocated_block ?hp)) + i"
  have j: "j + k < ?L" using room by (simp add: kheap_room_def Let_def j_def)
  have at: "unat (hp_base_addr ?hp + word_of_nat x) = ?b + x" if "x < 4096 * ?L" for x
  proof -
    have "unat (word_of_nat x :: u32) = x" using that lay(3) by (intro unat_word_of_nat_lt) simp
    then show ?thesis using that lay(3) by (simp add: unat_word_ariths)
  qed
  have in_heap: "\<not> kheap_ext s (hp_base_addr ?hp + word_of_nat x)" if "x < 4096 * ?L" for x
  proof -
    have "in_region (hp_base_addr ?hp + word_of_nat x) (hp_base_addr ?hp) (4096 * ?L)"
      using that lay(3) by (subst in_region_nth) simp_all
    then show ?thesis by (simp add: kheap_ext_def Let_def)
  qed
  have u: "unat (next_block s i) = ?b + 4096 * j" using at [of "4096 * j"] j by (simp add: next_block_def block_addr_def j_def)
  have b: "lo \<le> ?b + x \<and> ?b + x < hi" if "x < 4096 * ?L" for x
    using spec [OF ext, of "hp_base_addr ?hp + word_of_nat x"] in_heap [OF that] at [OF that] by (simp add: not_less not_le)
  show "lo \<le> unat (next_block s i)" "unat (next_block s i) + 4096 * k < hi" using b [of "4096 * j"] b [of "4096 * (j + k)"] j u by simp_all
  show "unat (next_block s i) mod 4096 = 0" using u lay(2) by simp
qed

lemma heap_layout_cong:
  "hp_base_addr hp = hp_base_addr hp' \<Longrightarrow> ht_len (hp_table hp) = ht_len (hp_table hp') \<Longrightarrow>
    ht_entries (hp_table hp) = ht_entries (hp_table hp') \<Longrightarrow> heap_layout hp = heap_layout hp'"
  by (simp add: heap_layout_def Let_def)

text \<open>A request that is granted: the region is new, and nothing but the table and the region changes.\<close>

lemma kzalloc_region:
  assumes P: "kheap_inv s P" and n: "n = nblocks sz" "0 < n" and jL: "j + n < unat (ht_len (hp_table (ks_heap s)))"
    and free: "\<forall>k<n. block_free (ks_mem s) (hp_table (ks_heap s)) (j + k)"
    and run: "heap_malloc (ks_mem s) (ks_heap s) sz = Some (block_addr (ks_heap s) j,
      (heap_add_in_use (ks_heap s) (word_of_nat n))\<lparr>hp_last_allocated_block := word_of_nat (j + n - 1)\<rparr>,
      write_bytes (ks_mem s) (ht_entries (hp_table (ks_heap s)) + word_of_nat j) (alloc_entries n))"
  obtains p s' where "kzalloc s sz = Some (p, s')" "p = block_addr (ks_heap s) j" "p \<noteq> NULL" "P p = None" "p mod 4096 = 0"
    "kheap_inv s' (P(p \<mapsto> 4096 * n))" "Suc (unat (hp_last_allocated_block (ks_heap s'))) = j + n"
    "ht_len (hp_table (ks_heap s')) = ht_len (hp_table (ks_heap s))" "bytes (ks_mem s') p (unat sz) = replicate (unat sz) 0"
    "\<forall>q l a. P q = Some l \<longrightarrow> in_region a q l \<longrightarrow> ks_mem s' a = ks_mem s a"
    "\<forall>a. kheap_ext s a \<longrightarrow> kheap_ext s' a \<and> ks_mem s' a = ks_mem s a"
proof -
  let ?hp = "ks_heap s"
  let ?L = "unat (ht_len (hp_table ?hp))"
  from P obtain A where inv: "heap_inv (ks_mem s) ?hp A" and PA: "P = live_map ?hp A"
    and top: "\<forall>b n. A b = Some n \<longrightarrow> b + n < ?L" by (auto simp: kheap_inv_def)
  note lay = heap_invD(1) [OF inv]
  obtain s' where s': "kzalloc s sz = Some (block_addr ?hp j, s')" "heap_inv (ks_mem s') (ks_heap s') (A(j \<mapsto> n))"
    "hp_base_addr (ks_heap s') = hp_base_addr ?hp" "ht_len (hp_table (ks_heap s')) = ht_len (hp_table ?hp)"
    "ht_entries (hp_table (ks_heap s')) = ht_entries (hp_table ?hp)" "A j = None"
    "bytes (ks_mem s') (block_addr ?hp j) (unat sz) = replicate (unat sz) 0" "Suc (unat (hp_last_allocated_block (ks_heap s'))) = j + n"
    and frame: "\<And>a. \<not> in_region a (ht_entries (hp_table ?hp)) ?L \<Longrightarrow>
       \<not> in_region a (block_addr ?hp j) (unat sz) \<Longrightarrow> ks_mem s' a = ks_mem s a"
    by (rule kzalloc_at [OF inv n jL free run]) (rule that; assumption)
  let ?p = "block_addr ?hp j"
  have j: "j < ?L" using jL by simp
  have P': "live_map (ks_heap s') (A(j \<mapsto> n)) = P(?p \<mapsto> 4096 * n)"
    unfolding PA live_map_cong [OF s'(3)] live_map_upd [OF lay j] by simp
  have "P ?p = None" unfolding PA live_map_block [OF lay j] using s'(6) by simp
  moreover have "kheap_inv s' (P(?p \<mapsto> 4096 * n))"
    unfolding kheap_inv_def P' [symmetric] using s'(2,4) jL top by (intro exI [of _ "A(j \<mapsto> n)"]) auto
  moreover have "ks_mem s' a = ks_mem s a" if q: "P q = Some l" "in_region a q l" for q l a
  proof (rule frame)
    from live_map_Some [OF inv q(1) [unfolded PA]] obtain b k where b: "A b = Some k" "q = block_addr ?hp b"
      "l = 4096 * k" "b + k \<le> ?L" "0 < k" by blast
    show "\<not> in_region a (ht_entries (hp_table ?hp)) ?L" using block_not_table [OF lay b(4)] q(2) b by simp
    have "first_fit (block_free (ks_mem s) (hp_table ?hp)) j n ?L = Some j" using free jL n(2) by (intro first_fit_here) auto
    from live_disjoint_from_fit [OF inv this n(2) b(1)] have "b + k \<le> j \<or> j + n \<le> b" .
    then have "regions_disjoint q l ?p (4096 * n)"
      using block_regions_disjoint [OF lay, of b k j n] block_regions_disjoint [OF lay, of j n b k]
        b jL n(2) regions_disjoint_sym by auto
    then show "\<not> in_region a ?p (unat sz)"
      using q(2) regions_disjointD [of q l ?p "4096 * n" a] in_region_mono [of a ?p "unat sz" "4096 * n"]
        nblocks_le [of sz] n(1) by blast
  qed
  moreover have "kheap_ext s' a \<and> ks_mem s' a = ks_mem s a" if "kheap_ext s a" for a
  proof
    show "kheap_ext s' a" using that s'(3,4,5) by (simp add: kheap_ext_def Let_def)
    have "\<not> in_region a ?p (4096 * n)"
      using in_block_in_heap [OF lay, of j n a] jL that by (auto simp: kheap_ext_def Let_def)
    then show "ks_mem s' a = ks_mem s a"
      using that in_region_mono [of a ?p "unat sz" "4096 * n"] nblocks_le [of sz] n(1)
      by (intro frame) (auto simp: kheap_ext_def Let_def)
  qed
  ultimately show thesis
    using that [OF s'(1) refl block_addr_not_null [OF lay j] _ block_addr_aligned [OF lay j] _ s'(8,4,7)] by blast
qed

lemma kzalloc_law:
  assumes "kheap_inv s P" "kheap_room s k" "0 < sz" "nblocks sz \<le> k"
  shows "\<exists>p s'. kzalloc s sz = Some (p, s') \<and> p \<noteq> NULL \<and> P p = None \<and> p mod 4096 = 0
        \<and> kheap_inv s' (P(p \<mapsto> 4096 * nblocks sz)) \<and> kheap_room s' (k - nblocks sz)
        \<and> bytes (ks_mem s') p (unat sz) = replicate (unat sz) 0
        \<and> (\<forall>q l a. P q = Some l \<longrightarrow> in_region a q l \<longrightarrow> ks_mem s' a = ks_mem s a)
        \<and> (\<forall>a. kheap_ext s a \<longrightarrow> kheap_ext s' a \<and> ks_mem s' a = ks_mem s a)"
proof -
  from assms(1) obtain A where inv: "heap_inv (ks_mem s) (ks_heap s) A" by (auto simp: kheap_inv_def)
  obtain s1 where r: "kzalloc s sz = Some (block_addr (ks_heap s) (Suc (unat (hp_last_allocated_block (ks_heap s)))), s1)" "kheap_room s1 (k - nblocks sz)"
    by (rule kzalloc_room [OF inv assms(2-4)])
  show ?thesis
    by (rule kzalloc_region [OF assms(1) refl room_fit [OF inv assms(2-4)]]) (use r in auto)
qed

lemma kfree_law:
  assumes "kheap_inv s P" "P p = Some l"
  shows "\<exists>s'. kfree s p = Some s' \<and> kheap_inv s' (P(p := None)) \<and> (\<forall>k. kheap_room s k \<longrightarrow> kheap_room s' k)
        \<and> (\<forall>q l' a. P q = Some l' \<longrightarrow> q \<noteq> p \<longrightarrow> in_region a q l' \<longrightarrow> ks_mem s' a = ks_mem s a)
        \<and> (\<forall>a. kheap_ext s a \<longrightarrow> kheap_ext s' a \<and> ks_mem s' a = ks_mem s a)"
proof -
  let ?hp = "ks_heap s"
  let ?L = "unat (ht_len (hp_table ?hp))" and ?E = "ht_entries (hp_table ?hp)"
  from assms(1) obtain A where inv: "heap_inv (ks_mem s) ?hp A" and P: "P = live_map ?hp A"
    and top: "\<forall>b n. A b = Some n \<longrightarrow> b + n < ?L" by (auto simp: kheap_inv_def)
  note lay = heap_invD(1) [OF inv]
  from live_map_Some [OF inv assms(2) [unfolded P]] obtain b n where b: "A b = Some n" "p = block_addr ?hp b"
    "l = 4096 * n" "b + n \<le> ?L" "0 < n" by blast
  have bL: "b + n < ?L" "b < ?L" using top b(1,5) by fastforce+
  let ?m = "heap_freed (ks_mem s) ?hp b n"
  let ?hp' = "?hp\<lparr>hp_table := (hp_table ?hp)\<lparr>ht_in_use := ht_in_use (hp_table ?hp) - word_of_nat n\<rparr>\<rparr>"
  let ?s = "\<lparr>ks_mem = ?m, ks_heap = ?hp'\<rparr>"
  have "kfree s p = Some ?s" using heap_free_live [OF inv b(1) bL(1)] b(2) by (simp add: kfree_def)
  moreover have "kheap_inv ?s (P(p := None))"
  proof -
    have "live_map ?hp' (A(b := None)) = P(p := None)"
      using live_map_upd [OF lay bL(2), of A None] live_map_cong [of ?hp' ?hp] b(2) P by simp
    then show ?thesis
      unfolding kheap_inv_def using heap_inv_free [OF inv b(1)] top by (intro exI [of _ "A(b := None)"]) auto
  qed
  moreover have "kheap_room ?s k" if "kheap_room s k" for k
    using that entry_heap_freed [OF inv b(1)]
    by (auto simp: kheap_room_def Let_def simp del: of_nat_add of_nat_Suc)
  moreover have "?m a = ks_mem s a" if q: "P q = Some l'" "q \<noteq> p" "in_region a q l'" for q l' a
  proof -
    from live_map_Some [OF inv q(1) [unfolded P]] obtain c k where c: "A c = Some k" "q = block_addr ?hp c"
      "l' = 4096 * k" "c + k \<le> ?L" "0 < k" by blast
    have "c + k \<le> b \<or> b + n \<le> c"
      using table_rep_disjoint [OF heap_invD(2) [OF inv] c(1) b(1)]
        table_rep_disjoint [OF heap_invD(2) [OF inv] b(1) c(1)] c(2) b(2) q(2) by (cases "c < b"; cases "b < c") auto
    then have "regions_disjoint q l' p l"
      using block_regions_disjoint [OF lay, of c k b n] block_regions_disjoint [OF lay, of b n c k]
        b c regions_disjoint_sym by auto
    then have "\<not> in_region a p l" using q(3) regions_disjointD by blast
    then have "\<not> in_region a p 4096" using in_region_mono [of a p 4096 l] b(3,5) by auto
    moreover have "\<not> in_region a ?E ?L" using block_not_table [OF lay c(4)] q(3) c by simp
    then have "\<not> in_region a (?E + word_of_nat b) n"
      using in_region_add [of b n a ?E] in_region_mono [of a ?E "b + n" ?L] b(4) heap_layoutD(3) [OF lay] by auto
    ultimately show ?thesis by (simp add: heap_freed_def fill_mem_outside b(2))
  qed
  moreover have "kheap_ext ?s a \<and> ?m a = ks_mem s a" if e: "kheap_ext s a" for a
  proof -
    have "\<not> in_region a ?E ?L" "\<not> in_region a (block_addr ?hp b) (4096 * 1)"
      using e in_block_in_heap [OF lay, of b 1 a] bL by (auto simp: kheap_ext_def Let_def)
    moreover from this have "\<not> in_region a (?E + word_of_nat b) n"
      using in_region_add [of b n a ?E] in_region_mono [of a ?E "b + n" ?L] b(4) heap_layoutD(3) [OF lay] by auto
    ultimately show ?thesis using e by (simp add: heap_freed_def fill_mem_outside kheap_ext_def Let_def)
  qed
  ultimately show ?thesis by auto
qed

interpretation kh: allocator kzalloc kfree ks_mem "\<lambda>s m. s\<lparr>ks_mem := m\<rparr>" kheap_inv kheap_room kheap_ext
proof unfold_locales
  fix s P p l m assume a: "kheap_inv s P" "P p = Some l" "\<And>a. \<not> in_region a p l \<Longrightarrow> m a = ks_mem s a"
  let ?hp = "ks_heap s"
  from a(1) obtain A where inv: "heap_inv (ks_mem s) ?hp A" and P: "P = live_map ?hp A"
    and top: "\<forall>b n. A b = Some n \<longrightarrow> b + n < unat (ht_len (hp_table ?hp))" by (auto simp: kheap_inv_def)
  from live_map_Some [OF inv a(2) [unfolded P]] obtain b n where b: "p = block_addr ?hp b" "l = 4096 * n"
    "b + n \<le> unat (ht_len (hp_table ?hp))" by blast
  have same: "m x = ks_mem s x" if "in_region x (ht_entries (hp_table ?hp)) (unat (ht_len (hp_table ?hp)))" for x
    using block_not_table [OF heap_invD(1) [OF inv] b(3)] that a(3) b(1,2) by blast
  show "kheap_inv (s\<lparr>ks_mem := m\<rparr>) P \<and> (\<forall>k. kheap_room s k \<longrightarrow> kheap_room (s\<lparr>ks_mem := m\<rparr>) k)
      \<and> (\<forall>a. kheap_ext s a \<longrightarrow> kheap_ext (s\<lparr>ks_mem := m\<rparr>) a)"
    unfolding kheap_inv_def kheap_room_def kheap_ext_def Let_def
    using heap_inv_cong [OF inv same] P top same entry_region [of _ ?hp]
    by (auto simp del: of_nat_add of_nat_Suc)
next
  fix s P p l q l' assume a: "kheap_inv s P" "P p = Some l" "P q = Some l'" "p \<noteq> q"
  let ?hp = "ks_heap s"
  from a(1) obtain A where inv: "heap_inv (ks_mem s) ?hp A" and P: "P = live_map ?hp A"
    by (auto simp: kheap_inv_def)
  from live_map_Some [OF inv a(2) [unfolded P]] obtain b n where b: "A b = Some n" "p = block_addr ?hp b"
    "l = 4096 * n" "b + n \<le> unat (ht_len (hp_table ?hp))" "0 < n" by blast
  from live_map_Some [OF inv a(3) [unfolded P]] obtain c k where c: "A c = Some k" "q = block_addr ?hp c"
    "l' = 4096 * k" "c + k \<le> unat (ht_len (hp_table ?hp))" "0 < k" by blast
  have "c + k \<le> b \<or> b + n \<le> c"
    using table_rep_disjoint [OF heap_invD(2) [OF inv] c(1) b(1)]
      table_rep_disjoint [OF heap_invD(2) [OF inv] b(1) c(1)] c(2) b(2) a(4) by (cases "c < b"; cases "b < c") auto
  then show "regions_disjoint p l q l'"
    using block_regions_disjoint [OF heap_invD(1) [OF inv], of c k b n]
      block_regions_disjoint [OF heap_invD(1) [OF inv], of b n c k] b c regions_disjoint_sym by auto
next
  fix s P p l a assume a: "kheap_inv s P" "P p = Some l" "in_region a p l"
  from a(1) obtain A where inv: "heap_inv (ks_mem s) (ks_heap s) A" and P: "P = live_map (ks_heap s) A"
    by (auto simp: kheap_inv_def)
  from live_map_Some [OF inv a(2) [unfolded P]] obtain b n where b: "p = block_addr (ks_heap s) b"
    "l = 4096 * n" "b + n \<le> unat (ht_len (hp_table (ks_heap s)))" by blast
  show "\<not> kheap_ext s a"
    using in_block_in_heap [OF heap_invD(1) [OF inv] b(3)] a(3) b(1,2) by (simp add: kheap_ext_def Let_def)
qed (use kzalloc_law kfree_law in auto)

section \<open>The state after initialisation\<close>

lemma page_round_up_eq:
  assumes "unat a + 4095 < 2 ^ 32"
  shows "unat (page_round_up a) = 4096 * ((unat a + 4095) div 4096)"
proof -
  have m: "a AND 0xFFF = a mod 4096" "a AND NOT 0xFFF = a - a mod 4096"
  proof -
    have k: "(0xFFF :: u32) = mask 12" "(4096 :: u32) = 2 ^ 12" by (simp_all add: mask_eq_exp_minus_1)
    show e: "a AND 0xFFF = a mod 4096" unfolding k by (simp only: take_bit_eq_mask [symmetric] take_bit_eq_mod)
    have "a AND NOT (mask 12) = push_bit 12 (drop_bit 12 a)" by (rule bit_word_eqI) (auto simp: bit_simps)
    also have "\<dots> = a - take_bit 12 a" using bits_ident [of 12 a] by (simp add: algebra_simps)
    finally show "a AND NOT 0xFFF = a - a mod 4096" unfolding k by (simp only: take_bit_eq_mod)
  qed
  have um: "unat (a mod 4096) = unat a mod 4096" by (simp add: unat_mod)
  have "unat (a - a mod 4096) = unat a - unat a mod 4096"
    using um by (subst unat_sub) (simp_all add: word_le_nat_alt)
  also have "\<dots> = 4096 * (unat a div 4096)" by (simp add: minus_mod_eq_mult_div)
  finally have d: "unat (a - a mod 4096) = 4096 * (unat a div 4096)" .
  have zero: "a mod 4096 = 0 \<longleftrightarrow> unat a mod 4096 = 0" using um by (metis unat_eq_zero)
  have fits: "4096 * (unat a div 4096) + 4096 < 2 ^ 32" if "unat a mod 4096 \<noteq> 0"
    using assms that mult_div_mod_eq [of 4096 "unat a"] by linarith
  show ?thesis
  proof (cases "unat a mod 4096 = 0")
    case True
    then have "4096 * (unat a div 4096) = unat a" by auto
    then show ?thesis using True zero m(1) by (simp add: page_round_up_def div_round_up)
  next
    case False
    then show ?thesis using fits zero m d by (simp add: page_round_up_def div_round_up unat_word_ariths)
  qed
qed

lemma kheap_init_geometry:
  assumes "0 < kernel_end" "unat kernel_end + 0x1003000 < 2 ^ 32"
  obtains s' where "kheap_init kernel_end s = Some s'" "kheap_inv s' Map.empty" "kheap_room s' 4094"
    "\<forall>a < kernel_end. kheap_ext s' a \<and> ks_mem s' a = ks_mem s a"
    "\<forall>a. unat kernel_end + 0x1003000 \<le> unat a \<longrightarrow> kheap_ext s' a"
proof -
  let ?b = "page_round_up kernel_end"
  let ?t = "\<lparr>ht_entries = ?b, ht_len = KERNEL_HEAP_SIZE div KERNEL_HEAP_BLOCK_SIZE, ht_in_use = 0\<rparr>"
  have len: "ht_len ?t = 4096" by (simp add: KERNEL_HEAP_SIZE_def)
  define q where "q = (unat kernel_end + 4095) div 4096"
  have q: "0 < q" "4096 * q \<le> unat kernel_end + 4095"
    using assms(1) by (simp_all add: q_def word_less_nat_alt div_greater_zero_iff)
  have ub: "unat ?b = 4096 * q" using page_round_up_eq [of kernel_end] assms(2) by (simp add: q_def)
  have ue: "unat (?b + 4096) = 4096 * Suc q" using ub q(2) assms(2) by (simp add: unat_word_ariths)
  have ur: "unat (page_round_up (?b + 4096)) = 4096 * Suc q"
    using page_round_up_eq [of "?b + 4096"] ue q(2) assms(2) by simp
  then have r: "page_round_up (?b + 4096) = ?b + 4096" using ue by (simp add: u32_eq_iff_unat)
  let ?p = "?b + 4096" and ?e = "?b + 4096 + KERNEL_HEAP_SIZE"
  have un: "unat ?e = 4096 * (Suc q + 4096)"
    using ue q(2) assms(2) unat_word_ariths(1) [of ?p KERNEL_HEAP_SIZE] by (simp add: KERNEL_HEAP_SIZE_def)
  have al: "?p mod 4096 = 0" "?e mod 4096 = 0"
    using ue un by (simp_all only: u32_eq_iff_unat unat_mod unat_4096) simp_all
  have d: "ht_len ?t = (?e - ?p) div 4096" by (simp add: KERNEL_HEAP_SIZE_def)
  obtain hp m where c: "heap_create (ks_mem s) (ks_heap s) ?p ?e ?t = (0, hp, m)"
    using al d by (simp add: heap_create_def heap_validate_alignment_def heap_validate_table_def Let_def)
  have dis: "regions_disjoint (ht_entries ?t) (unat (ht_len ?t)) ?p (4096 * unat (ht_len ?t))"
  proof -
    have "unat (?b - ?p) = 2 ^ 32 - 4096" by simp
    then show ?thesis unfolding regions_disjoint_def len by simp
  qed
  have "?p < ?e" "0 < ?p" "1 < ht_len ?t" using ue un len by (simp_all add: word_less_nat_alt)
  from heap_create_inv [OF c this _ dis] have inv: "heap_inv m hp Map.empty"
    "m = fill_mem (ks_mem s) ?b (unat (ht_len ?t)) 0"
    "hp = \<lparr>hp_table = ?t, hp_base_addr = ?p, hp_last_allocated_block = 0\<rparr>" by simp_all
  let ?s = "\<lparr>ks_mem = m, ks_heap = hp\<rparr>"
  have "kheap_init kernel_end s = Some ?s" using c len r by (simp add: kheap_init_def Let_def)
  moreover have "kheap_inv ?s Map.empty"
    using inv(1) by (auto simp: kheap_inv_def live_map_def fun_eq_iff intro!: exI [of _ Map.empty])
  moreover have "kheap_room ?s 4094"
  proof (rule kheap_roomI [of _ 1])
    fix i :: nat assume "i < 4094"
    then have "in_region (?b + word_of_nat (1 + i)) ?b (unat (ht_len ?t))"
      unfolding len by (subst in_region_nth) simp_all
    then show "entry (ks_mem ?s) (ht_entries (hp_table (ks_heap ?s))) (1 + i) = 0"
      using inv(2,3) by (simp add: fill_mem_inside)
  qed (simp_all add: inv(3) KERNEL_HEAP_SIZE_def)
  moreover have "kheap_ext ?s a \<and> m a = ks_mem s a" if a: "a < kernel_end" for a
  proof -
    have "unat a < 4096 * q" using a q_def by (simp add: word_less_nat_alt)
    then have "\<not> in_region a ?b 4096" "\<not> in_region a ?p (4096 * 4096)"
      using ub ue q(2) assms(2) by (simp_all add: in_region_def unat_sub_if')
    then show ?thesis using inv len by (simp add: kheap_ext_def fill_mem_outside)
  qed
  moreover have "kheap_ext ?s a" if a: "unat kernel_end + 0x1003000 \<le> unat a" for a
  proof -
    have "\<not> in_region a ?b 4096" "\<not> in_region a ?p (4096 * 4096)"
      using a ub ue q(2) assms(2) by (simp_all add: in_region_def unat_sub_if')
    then show ?thesis using inv len by (simp add: kheap_ext_def)
  qed
  ultimately show ?thesis using that [of ?s] by simp
qed

lemma kheap_init_state:
  assumes "0 < kernel_end" "unat kernel_end + 0x1003000 < 2 ^ 32"
  obtains s' where "kheap_init kernel_end s = Some s'" "kheap_inv s' Map.empty" "kheap_room s' 4094"
    "\<forall>a < kernel_end. kheap_ext s' a \<and> ks_mem s' a = ks_mem s a"
  by (rule kheap_init_geometry [OF assms, of s]) (rule that; assumption)

section \<open>Sequences of heap operations\<close>

text \<open>
  A granted region that ends before the last block of the table. Beyond that the search counts blocks over the end of the
  table, and a run found there does not lie in the heap.
\<close>

definition before_last_block :: "kstate \<Rightarrow> addr \<Rightarrow> u32 \<Rightarrow> bool" where
  "before_last_block s p sz \<longleftrightarrow> unat (p - hp_base_addr (ks_heap s)) + 4096 * nblocks sz < 4096 * unat (ht_len (hp_table (ks_heap s)))"

definition kheap_last :: "kstate \<Rightarrow> bool" where
  "kheap_last s \<longleftrightarrow> Suc (unat (hp_last_allocated_block (ks_heap s))) < unat (ht_len (hp_table (ks_heap s)))"

text \<open>A request of any size, wherever the search ends.\<close>

lemma kzalloc_any:
  assumes inv: "kheap_inv s P" "kheap_last s" and run: "kzalloc s sz = Some (p, s')"
  shows "p = NULL \<Longrightarrow> kheap_inv s' P \<and> kheap_last s' \<and> ks_mem s' = ks_mem s \<and> (\<forall>a. kheap_ext s a \<longrightarrow> kheap_ext s' a)"
    "p \<noteq> NULL \<Longrightarrow> before_last_block s p sz \<Longrightarrow> P p = None \<and> p mod 4096 = 0 \<and> kheap_inv s' (P(p \<mapsto> 4096 * nblocks sz)) \<and> kheap_last s'
       \<and> bytes (ks_mem s') p (unat sz) = replicate (unat sz) 0
       \<and> (\<forall>q l a. P q = Some l \<longrightarrow> in_region a q l \<longrightarrow> ks_mem s' a = ks_mem s a)
       \<and> (\<forall>a. kheap_ext s a \<longrightarrow> kheap_ext s' a \<and> ks_mem s' a = ks_mem s a)"
proof -
  let ?hp = "ks_heap s" and ?n = "nblocks sz" and ?L = "unat (ht_len (hp_table (ks_heap s)))"
  obtain A where A: "heap_inv (ks_mem s) ?hp A" "P = live_map ?hp A" "\<forall>b n. A b = Some n \<longrightarrow> b + n < ?L"
    using inv(1) by (auto simp: kheap_inv_def)
  note lay = heap_invD(1) [OF A(1)]
  obtain hp m where hm: "heap_malloc (ks_mem s) ?hp sz = Some (p, hp, m)"
    and s': "s' = (if p = NULL then \<lparr>ks_mem = m, ks_heap = hp\<rparr> else \<lparr>ks_mem = memset m p 0 sz, ks_heap = hp\<rparr>)"
    using run by (auto simp: kzalloc_def split: option.splits if_splits)
  note r = heap_malloc_result [OF A(1) inv(2) [unfolded kheap_last_def] hm refl]
  show "kheap_inv s' P \<and> kheap_last s' \<and> ks_mem s' = ks_mem s \<and> (\<forall>a. kheap_ext s a \<longrightarrow> kheap_ext s' a)" if null: "p = NULL"
  proof -
    obtain l where l: "m = ks_mem s" "hp = ?hp\<lparr>hp_last_allocated_block := l\<rparr>" "l = 0 \<or> l = hp_last_allocated_block ?hp"
      using r null by blast
    have "heap_inv m hp A" using A(1) by (simp add: l(1,2) heap_inv_def heap_layout_def)
    moreover have "live_map hp A = P" using A(2) live_map_cong [of hp ?hp] l(2) by simp
    ultimately have "kheap_inv s' P" unfolding kheap_inv_def using A(3) s' null l(2) by (intro exI [of _ A]) simp
    moreover have "kheap_last s'" using l(2,3) inv(2) heap_layoutD(1) [OF lay] s' null by (auto simp: kheap_last_def)
    ultimately show ?thesis using s' null l(1,2) by (simp add: kheap_ext_def Let_def)
  qed
  show "P p = None \<and> p mod 4096 = 0 \<and> kheap_inv s' (P(p \<mapsto> 4096 * ?n)) \<and> kheap_last s'
       \<and> bytes (ks_mem s') p (unat sz) = replicate (unat sz) 0
       \<and> (\<forall>q l a. P q = Some l \<longrightarrow> in_region a q l \<longrightarrow> ks_mem s' a = ks_mem s a)
       \<and> (\<forall>a. kheap_ext s a \<longrightarrow> kheap_ext s' a \<and> ks_mem s' a = ks_mem s a)"
    if p: "p \<noteq> NULL" "before_last_block s p sz"
  proof -
    obtain j where j: "j < ?L" "p = block_addr ?hp j" "0 < ?n"
      and fits: "j + ?n \<le> ?L \<longrightarrow> (\<forall>k<?n. block_free (ks_mem s) (hp_table ?hp) (j + k))
         \<and> hp = (heap_add_in_use ?hp (word_of_nat ?n))\<lparr>hp_last_allocated_block := word_of_nat (j + ?n - 1)\<rparr>
         \<and> m = write_bytes (ks_mem s) (ht_entries (hp_table ?hp) + word_of_nat j) (alloc_entries ?n)"
      using r p(1) by blast
    have jL: "j + ?n < ?L" using p(2) block_addr_offset [OF lay j(1)] by (simp add: before_last_block_def j(2))
    have run': "heap_malloc (ks_mem s) ?hp sz = Some (block_addr ?hp j,
      (heap_add_in_use ?hp (word_of_nat ?n))\<lparr>hp_last_allocated_block := word_of_nat (j + ?n - 1)\<rparr>,
      write_bytes (ks_mem s) (ht_entries (hp_table ?hp) + word_of_nat j) (alloc_entries ?n))"
      and fr: "\<forall>k<?n. block_free (ks_mem s) (hp_table ?hp) (j + k)" using fits jL hm j(2) by simp_all
    obtain p1 s1 where k: "kzalloc s sz = Some (p1, s1)" "P p1 = None" "p1 mod 4096 = 0" "kheap_inv s1 (P(p1 \<mapsto> 4096 * ?n))"
      "Suc (unat (hp_last_allocated_block (ks_heap s1))) = j + ?n" "ht_len (hp_table (ks_heap s1)) = ht_len (hp_table ?hp)"
      "bytes (ks_mem s1) p1 (unat sz) = replicate (unat sz) 0"
      "\<forall>q l a. P q = Some l \<longrightarrow> in_region a q l \<longrightarrow> ks_mem s1 a = ks_mem s a"
      "\<forall>a. kheap_ext s a \<longrightarrow> kheap_ext s1 a \<and> ks_mem s1 a = ks_mem s a"
      by (rule kzalloc_region [OF inv(1) refl j(3) jL fr run']) (rule that; assumption)
    have e: "p1 = p" "s1 = s'" using k(1) run by simp_all
    have "kheap_last s'" using k(5,6) jL unfolding e by (simp add: kheap_last_def)
    then show ?thesis using k(2-4,7-9) unfolding e by blast
  qed
qed

text \<open>\<open>kmalloc\<close> does the same and leaves the bytes of the region as they are.\<close>

lemma kmalloc_any:
  assumes inv: "kheap_inv s P" "kheap_last s" and run: "kmalloc s sz = Some (p, s')"
  shows "p = NULL \<Longrightarrow> kheap_inv s' P \<and> kheap_last s'"
    "p \<noteq> NULL \<Longrightarrow> before_last_block s p sz \<Longrightarrow> kheap_inv s' (P(p \<mapsto> 4096 * nblocks sz)) \<and> kheap_last s'"
proof -
  let ?s = "if p = NULL then s' else s'\<lparr>ks_mem := memset (ks_mem s') p 0 sz\<rparr>"
  have z: "kzalloc s sz = Some (p, ?s)" using run by (auto simp: kmalloc_def kzalloc_def split: option.splits)
  note k = kzalloc_any [OF inv z]
  show "kheap_inv s' P \<and> kheap_last s'" if "p = NULL" using k(1) that by simp
  show "kheap_inv s' (P(p \<mapsto> 4096 * nblocks sz)) \<and> kheap_last s'" if "p \<noteq> NULL" "before_last_block s p sz"
  proof
    let ?P = "P(p \<mapsto> 4096 * nblocks sz)"
    have i: "kheap_inv ?s ?P" "kheap_last ?s" using k(2) that by blast+
    then show "kheap_last s'" using that(1) by (simp add: kheap_last_def)
    have "ks_mem s' a = ks_mem ?s a" if "\<not> in_region a p (4096 * nblocks sz)" for a
    proof -
      have "\<not> in_region a p (unat sz)" using that in_region_mono [of a p "unat sz" "4096 * nblocks sz"] nblocks_le [of sz] by blast
      then show ?thesis by (simp add: memset_0 fill_mem_outside)
    qed
    then have "kheap_inv (?s\<lparr>ks_mem := ks_mem s'\<rparr>) ?P" using kh.write_live [OF i(1), of p] by auto
    then show "kheap_inv s' ?P" using that(1) by simp
  qed
qed

text \<open>
  The states the kernel heap goes through, with the regions the kernel owns: after \<open>kheap_init\<close>, by \<open>kmalloc\<close> and \<open>kzalloc\<close>, each
  granted or refused, by \<open>kfree\<close> of an owned region, and by stores into one.
\<close>

inductive kheap_reach :: "addr \<Rightarrow> kstate \<Rightarrow> (addr \<rightharpoonup> nat) \<Rightarrow> bool" for kernel_end where
  init: "kheap_init kernel_end s0 = Some s \<Longrightarrow> kheap_reach kernel_end s Map.empty"
| zalloc: "kheap_reach kernel_end s P \<Longrightarrow> kzalloc s sz = Some (p, s') \<Longrightarrow> p \<noteq> NULL \<Longrightarrow> before_last_block s p sz \<Longrightarrow>
    kheap_reach kernel_end s' (P(p \<mapsto> 4096 * nblocks sz))"
| zalloc_refused: "kheap_reach kernel_end s P \<Longrightarrow> kzalloc s sz = Some (NULL, s') \<Longrightarrow> kheap_reach kernel_end s' P"
| malloc: "kheap_reach kernel_end s P \<Longrightarrow> kmalloc s sz = Some (p, s') \<Longrightarrow> p \<noteq> NULL \<Longrightarrow> before_last_block s p sz \<Longrightarrow>
    kheap_reach kernel_end s' (P(p \<mapsto> 4096 * nblocks sz))"
| malloc_refused: "kheap_reach kernel_end s P \<Longrightarrow> kmalloc s sz = Some (NULL, s') \<Longrightarrow> kheap_reach kernel_end s' P"
| free: "kheap_reach kernel_end s P \<Longrightarrow> P p = Some l \<Longrightarrow> kfree s p = Some s' \<Longrightarrow>
    kheap_reach kernel_end s' (P(p := None))"
| store: "kheap_reach kernel_end s P \<Longrightarrow> P p = Some l \<Longrightarrow> in_region a p l \<Longrightarrow>
    kheap_reach kernel_end (s\<lparr>ks_mem := store8 (ks_mem s) a b\<rparr>) P"

lemma kheap_last_room: "kheap_last s \<longleftrightarrow> kheap_room s 0"
  by (simp add: kheap_last_def kheap_room_def Let_def)

lemma kheap_reach_inv:
  assumes "kheap_reach kernel_end s P" "0 < kernel_end" "unat kernel_end + 0x1003000 < 2 ^ 32"
  shows "kheap_inv s P \<and> kheap_last s"
  using assms(1)
proof induction
  case (init s0 s)
  obtain s1 where "kheap_init kernel_end s0 = Some s1" "kheap_inv s1 Map.empty" "kheap_room s1 4094"
    by (rule kheap_init_state [OF assms(2,3), of s0])
  then show ?case using init by (simp add: kheap_last_def kheap_room_def Let_def)
next
  case (zalloc s P sz p s')
  then show ?case using kzalloc_any(2) [of s P sz p s'] by blast
next
  case (zalloc_refused s P sz s')
  then show ?case using kzalloc_any(1) [of s P sz NULL s'] by blast
next
  case (malloc s P sz p s')
  then show ?case using kmalloc_any(2) [of s P sz p s'] by blast
next
  case (malloc_refused s P sz s')
  then show ?case using kmalloc_any(1) [of s P sz NULL s'] by blast
next
  case (free s P p l s')
  have i: "kheap_inv s P" "kheap_room s 0" using free.IH kheap_last_room by simp_all
  then show ?case using kh.release_ok [OF i(1) free.hyps(2)] free.hyps(3) i(2) kheap_last_room by (auto simp del: fun_upd_apply)
next
  case (store s P p l a b)
  have "store8 (ks_mem s) a b x = ks_mem s x" if "\<not> in_region x p l" for x
    using that store.hyps(3) by (auto simp: store8_apply)
  then show ?case using kh.write_live [of s P p l] store.IH store.hyps(2) by (auto simp: kheap_last_def)
qed

section \<open>Properties\<close>

text \<open>
  C1: the kernel heap is safe. In every state it reaches from \<open>kheap_init\<close> by any sequence of \<open>kmalloc\<close> and \<open>kzalloc\<close> of any
  size, wherever the search finds the blocks and whether it grants the request or answers NULL, of \<open>kfree\<close> of owned regions
  and of stores into owned regions, distinct owned regions do not overlap, none starts at address 0, all are page aligned and
  lie in the memory of the heap apart from its table, and the block counter is exact. The one thing excluded is a grant that
  reaches the last block of the table: there the search counts blocks over the end of the table, and what it grants, such as a
  request larger than an empty heap, does not lie in the heap. A call that never returns leads to no state.
\<close>

theorem kheap_reach_safe:
  assumes "kheap_reach kernel_end s P" "0 < kernel_end" "unat kernel_end + 0x1003000 < 2 ^ 32"
  shows "(\<forall>p q l l'. P p = Some l \<longrightarrow> P q = Some l' \<longrightarrow> p \<noteq> q \<longrightarrow> regions_disjoint p l q l')
    \<and> (\<forall>p l. P p = Some l \<longrightarrow> p \<noteq> NULL \<and> p mod 4096 = 0 \<and> (\<forall>a. in_region a p l \<longrightarrow>
         in_region a (hp_base_addr (ks_heap s)) (4096 * unat (ht_len (hp_table (ks_heap s))))
         \<and> \<not> in_region a (ht_entries (hp_table (ks_heap s))) (unat (ht_len (hp_table (ks_heap s))))))
    \<and> kheap_used s = kheap_count_used_blocks s * 4096"
proof -
  have reach: "kheap_inv s P" using kheap_reach_inv [OF assms] by simp
  from reach obtain A where A: "heap_inv (ks_mem s) (ks_heap s) A" "P = live_map (ks_heap s) A"
    by (auto simp: kheap_inv_def)
  note lay = heap_invD(1) [OF A(1)]
  have "p \<noteq> NULL \<and> p mod 4096 = 0 \<and> (\<forall>a. in_region a p l \<longrightarrow>
         in_region a (hp_base_addr (ks_heap s)) (4096 * unat (ht_len (hp_table (ks_heap s))))
         \<and> \<not> in_region a (ht_entries (hp_table (ks_heap s))) (unat (ht_len (hp_table (ks_heap s)))))" if "P p = Some l" for p l
  proof -
    from live_map_Some [OF A(1) that [unfolded A(2)]] obtain b n where b: "p = block_addr (ks_heap s) b" "l = 4096 * n"
      "b + n \<le> unat (ht_len (hp_table (ks_heap s)))" "0 < n" by blast
    then have "b < unat (ht_len (hp_table (ks_heap s)))" by simp
    then show ?thesis
      unfolding b(1,2)
      using block_addr_not_null [OF lay] block_addr_aligned [OF lay] in_block_in_heap [OF lay b(3)] block_not_table [OF lay b(3)] by blast
  qed
  with kh.live_disjoint [OF reach] count_used_blocks_in_use [OF A(1)] show ?thesis
    by (simp add: kheap_used_def kheap_count_used_blocks_def)
qed

text \<open>Requests there is room for end before the last block.\<close>

lemma room_before_last:
  assumes inv: "heap_inv (ks_mem s) (ks_heap s) A" and room: "kheap_room s k" and n: "0 < sz" "nblocks sz \<le> k"
    and run: "kzalloc s sz = Some (p, s')"
  shows "before_last_block s p sz" "p \<noteq> NULL"
proof -
  let ?hp = "ks_heap s" and ?j = "Suc (unat (hp_last_allocated_block (ks_heap s)))"
  note f = room_fit [OF inv room n] and lay = heap_invD(1) [OF inv]
  obtain s1 where "kzalloc s sz = Some (block_addr ?hp ?j, s1)" by (rule kzalloc_room [OF inv room n])
  then have p: "p = block_addr ?hp ?j" using run by simp
  have j: "?j < unat (ht_len (hp_table ?hp))" using f(2) by simp
  show "before_last_block s p sz" using f(2) unfolding before_last_block_def p block_addr_offset [OF lay j] by simp
  show "p \<noteq> NULL" using block_addr_not_null [OF lay j] p by simp
qed

text \<open>A state two operations after initialisation.\<close>

lemma kheap_reach_example:
  obtains s p where "kheap_reach 0xC0101234 s [p \<mapsto> 8192]" "kheap_inv s [p \<mapsto> 8192]" "kheap_room s 4092"
proof -
  obtain s where i: "kheap_init 0xC0101234 \<lparr>ks_mem = \<lambda>_. 7, ks_heap = demo_heap\<rparr> = Some s" "kheap_inv s Map.empty"
    "kheap_room s 4094"
    by (rule kheap_init_state [of "0xC0101234"]) auto
  from kh.alloc_ok [OF i(2,3), of 5000] obtain p s' where a: "kzalloc s 5000 = Some (p, s')"
    "kheap_inv s' [p \<mapsto> 8192]" "kheap_room s' 4092" by auto
  obtain A where A: "heap_inv (ks_mem s) (ks_heap s) A" using i(2) by (auto simp: kheap_inv_def)
  have "before_last_block s p 5000" "p \<noteq> NULL"
    using room_before_last [OF A i(3) _ _ a(1)] by simp_all
  from kheap_reach.zalloc [OF kheap_reach.init [OF i(1)] a(1) this(2,1)] show ?thesis using that [OF _ a(2,3)] by simp
qed

theorem kheap_reach_safe_witness:
  "\<exists>s p. kheap_reach 0xC0101234 s [p \<mapsto> 8192] \<and> p \<noteq> NULL \<and> p mod 4096 = 0
     \<and> kheap_used s = kheap_count_used_blocks s * 4096"
proof -
  obtain s p where s: "kheap_reach 0xC0101234 s [p \<mapsto> 8192]" by (rule kheap_reach_example)
  have "p \<noteq> NULL \<and> p mod 4096 = 0" "kheap_used s = kheap_count_used_blocks s * 4096"
    using kheap_reach_safe [OF s] by (simp_all add: spec [of _ p])
  with s show ?thesis by (intro exI [of _ s] exI [of _ p]) simp
qed

text \<open>
  \<open>kheap_init\<close> does not panic and leaves a heap without allocations in which 4094 of
  the 4096 blocks can be handed out, wherever the kernel image ends, as long as the table
  and the 16 MiB heap after it fit below the end of the address space.
\<close>

theorem kheap_init_ready:
  assumes "0 < kernel_end" "unat kernel_end + 0x1003000 < 2 ^ 32"
  shows "\<exists>s'. kheap_init kernel_end s = Some s' \<and> kheap_inv s' Map.empty \<and> kheap_room s' 4094"
  using kheap_init_state [OF assms, of s] by blast

theorem kheap_init_ready_witness:
  "\<exists>s'. kheap_init 0xC0101234 \<lparr>ks_mem = \<lambda>_. 7, ks_heap = demo_heap\<rparr> = Some s' \<and> kheap_room s' 4094"
  using kheap_init_ready [of "0xC0101234" "\<lparr>ks_mem = \<lambda>_. 7, ks_heap = demo_heap\<rparr>"] by auto

text \<open>
  \<open>kzalloc\<close> returns a page-aligned region of zeros that was not owned before, keeps
  the contents of every owned region, and keeps the heap invariant.
\<close>

theorem kzalloc_zeroed:
  assumes "kheap_inv s P" "kheap_room s k" "0 < sz" "nblocks sz \<le> k"
  shows "\<exists>p s'. kzalloc s sz = Some (p, s') \<and> p \<noteq> NULL \<and> P p = None \<and> p mod 4096 = 0
        \<and> kheap_inv s' (P(p \<mapsto> 4096 * nblocks sz)) \<and> kheap_room s' (k - nblocks sz)
        \<and> bytes (ks_mem s') p (unat sz) = replicate (unat sz) 0
        \<and> (\<forall>q l a. P q = Some l \<longrightarrow> in_region a q l \<longrightarrow> ks_mem s' a = ks_mem s a)
        \<and> (\<forall>a. kheap_ext s a \<longrightarrow> kheap_ext s' a \<and> ks_mem s' a = ks_mem s a)"
  by (rule kh.alloc_ok [OF assms])

theorem kzalloc_zeroed_witness:
  "\<exists>s q p s'. kheap_inv s [q \<mapsto> 8192] \<and> kzalloc s 3 = Some (p, s') \<and> p \<noteq> q
     \<and> bytes (ks_mem s') p 3 = [0, 0, 0] \<and> ks_mem s' q = ks_mem s q"
proof -
  obtain s q where s: "kheap_inv s [q \<mapsto> 8192]" "kheap_room s 4092" by (rule kheap_reach_example)
  from kzalloc_zeroed [OF s, of 3] obtain p s' where "kzalloc s 3 = Some (p, s')" "[q \<mapsto> 8192 :: nat] p = None"
    "bytes (ks_mem s') p 3 = replicate 3 0"
    "\<forall>r l a. [q \<mapsto> 8192] r = Some l \<longrightarrow> in_region a r l \<longrightarrow> ks_mem s' a = ks_mem s a" by auto
  then show ?thesis using s(1)
    by (intro exI [of _ s] exI [of _ q] exI [of _ p] exI [of _ s'])
      (auto simp: in_region_def numeral_3_eq_3 split: if_splits)
qed

text \<open>
  C23: \<open>memmove\<close> copies the bytes \<open>src\<close> had before the call to \<open>dest\<close>, also when both lie
  in the same region and overlap; its temporary buffer is released again.
\<close>

theorem memmove_moves:
  assumes inv: "kheap_inv s P" and room: "kheap_room s k" "0 < n" "nblocks n \<le> k"
    and q: "P q = Some l" "\<And>a. in_region a src (unat n) \<Longrightarrow> in_region a q l"
    and r: "P r = Some l'" "\<And>a. in_region a dest (unat n) \<Longrightarrow> in_region a r l'"
  shows "\<exists>s'. memmove s dest src n = Some (dest, s') \<and> kheap_inv s' P
     \<and> bytes (ks_mem s') dest (unat n) = bytes (ks_mem s) src (unat n)
     \<and> (\<forall>p l a. P p = Some l \<longrightarrow> in_region a p l \<longrightarrow> \<not> in_region a dest (unat n) \<longrightarrow> ks_mem s' a = ks_mem s a)"
proof -
  let ?n = "unat n" and ?N = "4096 * nblocks n"
  from kh.alloc_ok [OF inv room] obtain b s1 where b: "kzalloc s n = Some (b, s1)" "b \<noteq> NULL" "P b = None"
    "kheap_inv s1 (P(b \<mapsto> ?N))" "\<forall>q l a. P q = Some l \<longrightarrow> in_region a q l \<longrightarrow> ks_mem s1 a = ks_mem s a" by blast
  have sep: "\<not> in_region a b ?N" if "P p = Some l" "in_region a p l" for a p l
    using kh.live_disjoint [OF b(4), of p l b ?N] regions_disjointD [of p l b ?N a] that b(3)
    by (cases "p = b") auto
  have n0: "0 < ?n" "?n \<le> 2 ^ 32" using room(2) unat_lt_2p32 [of n] by (simp_all add: word_less_nat_alt)
  have small: "in_region a b ?n \<Longrightarrow> in_region a b ?N" for a using in_region_mono nblocks_le by blast
  have d: "regions_disjoint b ?n src ?n" "regions_disjoint dest ?n b ?n"
    using sep [OF q(1) q(2)] sep [OF r(1) r(2)] small n0 by (blast intro!: regions_disjointI)+
  let ?m1 = "copy_mem (ks_mem s1) b src ?n"
  let ?m2 = "copy_mem ?m1 dest b ?n"
  have src: "bytes (ks_mem s1) src ?n = bytes (ks_mem s) src ?n"
    using b(5) q by (intro bytes_cong_region n0) blast
  have dest: "bytes ?m2 dest ?n = bytes (ks_mem s) src ?n" using bytes_copy_mem [OF n0(2)] src by simp
  have m1: "?m1 a = ks_mem s1 a" if "\<not> in_region a b ?N" for a
    using that small by (blast intro: copy_mem_outside)
  have m2: "?m2 a = ?m1 a" if "\<not> in_region a r l'" for a
    using that r(2) by (blast intro: copy_mem_outside)
  have inv1: "kheap_inv (s1\<lparr>ks_mem := ?m1\<rparr>) (P(b \<mapsto> ?N))"
    using kh.write_live [OF b(4), of b ?N ?m1] m1 by simp
  have "kheap_inv (s1\<lparr>ks_mem := ?m1, ks_mem := ?m2\<rparr>) (P(b \<mapsto> ?N))"
    using kh.write_live [OF inv1, of r l' ?m2] m2 r(1) b(3) by (cases "r = b") simp_all
  then have inv2: "kheap_inv (s1\<lparr>ks_mem := ?m2\<rparr>) (P(b \<mapsto> ?N))" by simp
  from kh.release_ok [OF inv2, of b] obtain s2 where f: "kfree (s1\<lparr>ks_mem := ?m2\<rparr>) b = Some s2"
    "kheap_inv s2 (P(b \<mapsto> ?N, b := None))"
    "\<forall>p l a. (P(b \<mapsto> ?N)) p = Some l \<longrightarrow> p \<noteq> b \<longrightarrow> in_region a p l \<longrightarrow> ks_mem s2 a = ?m2 a" by auto
  have P: "P(b \<mapsto> ?N, b := None) = P" using b(3) by auto
  have keep: "ks_mem s2 a = ?m2 a" if "P p = Some l" "in_region a p l" for p l a
    using f(3) that b(3) by (metis fun_upd_apply option.distinct(1))
  have "bytes (ks_mem s2) dest ?n = bytes ?m2 dest ?n"
    using keep r by (intro bytes_cong_region n0) blast
  moreover have "ks_mem s2 a = ks_mem s a" if "P p = Some l" "in_region a p l" "\<not> in_region a dest ?n" for p l a
    using keep [OF that(1,2)] sep [OF that(1,2)] small that b(5) by (auto simp: copy_mem_def)
  ultimately show ?thesis
    using b(1,2) f(1,2) dest memcpy_copy_mem [OF d(1)] memcpy_copy_mem [OF d(2)] P by (auto simp: memmove_def Let_def)
qed

theorem memmove_moves_witness:
  "\<exists>s q s'. kheap_inv s [q \<mapsto> 8192] \<and> memmove s (q + 1) q 4 = Some (q + 1, s')
     \<and> bytes (ks_mem s') (q + 1) 4 = bytes (ks_mem s) q 4"
proof -
  obtain s q where s: "kheap_inv s [q \<mapsto> 8192]" "kheap_room s 4092" by (rule kheap_reach_example)
  have "in_region a q 4 \<Longrightarrow> in_region a q 8192" "in_region a (q + 1) 4 \<Longrightarrow> in_region a q 8192" for a
    using in_region_add [of 1 4 a q] in_region_mono [of a q _ 8192] by auto
  with memmove_moves [OF s, of 4 q 8192 q q 8192 "q + 1"] s(1) show ?thesis by auto
qed

end
