(* ===== verification/Path_Parser.thy ===== *)
theory Path_Parser
  imports Kheap
begin

text \<open>
  The path parser, \<^verbatim>\<open>src/fs/path_parser.c\<close>. Its result is a \<open>struct path_root\<close> (drive number
  at offset 0, pointer to the first part at offset 4) and a linked list of
  \<open>struct path_part\<close> (text at offset 0, next part at offset 4), all of it allocated on the
  kernel heap, byte by byte as the C code lays it out.
\<close>

section \<open>The code\<close>

definition MAX_PATH_LEN :: u32 where "MAX_PATH_LEN = 250"

definition pathparser_path_is_valid :: "mem \<Rightarrow> addr \<Rightarrow> bool" where
  "pathparser_path_is_valid m path \<longleftrightarrow>
     3 \<le> sint (strnlen m path MAX_PATH_LEN) \<and> is_digit (m path) \<and> bytes m (path + 1) 2 = [58, 47]"

definition pathparser_path_get_drive :: "mem \<Rightarrow> addr \<Rightarrow> int" where
  "pathparser_path_get_drive m path = numeric_char_to_digit (m path)"

text \<open>
  The body of the loop of \<open>pathparser_path_parse\<close>: allocate a part and copy its text;
  \<open>current_segment\<close> is the address of the pointer to fill in.
\<close>

definition pathparser_add_part :: "kstate \<Rightarrow> addr \<Rightarrow> addr \<Rightarrow> u32 \<Rightarrow> kstate option" where
  "pathparser_add_part s current_segment path_ptr part_len =
     (case kzalloc s 8 of None \<Rightarrow> None | Some (seg, s1) \<Rightarrow>
        let s2 = s1\<lparr>ks_mem := store32 (ks_mem s1) current_segment seg\<rparr>
        in case kzalloc s2 (part_len + 1) of None \<Rightarrow> None | Some (part, s3) \<Rightarrow>
          let m4 = store32 (ks_mem s3) (load32 (ks_mem s3) current_segment) part;
              m5 = memcpy m4 (load32 m4 (load32 m4 current_segment)) path_ptr part_len
          in Some (s3\<lparr>ks_mem := m5\<rparr>))"

partial_function (option) pathparser_loop :: "kstate \<Rightarrow> addr \<Rightarrow> addr \<Rightarrow> addr \<Rightarrow> kstate option" where
  "pathparser_loop s path_ptr path_end current_segment =
     (if path_ptr \<le> path_end
      then let next_slash0 = memchr (ks_mem s) path_ptr 47 (path_end - path_ptr);
               next_slash = (if next_slash0 \<noteq> NULL then next_slash0 else path_end);
               part_len = next_slash - path_ptr
           in if part_len = 0 then Some s
              else case pathparser_add_part s current_segment path_ptr part_len of
                     None \<Rightarrow> None
                   | Some s1 \<Rightarrow> pathparser_loop s1 (path_ptr + (part_len + 1)) path_end
                                 (load32 (ks_mem s1) current_segment + 4)
      else Some s)"

partial_function (option) pathparse_free_loop :: "kstate \<Rightarrow> addr \<Rightarrow> kstate option" where
  "pathparse_free_loop s ptr =
     (if ptr \<noteq> NULL
      then let next_part = load32 (ks_mem s) (ptr + 4); part = load32 (ks_mem s) ptr
           in case (if part \<noteq> NULL then kfree s part else Some s) of None \<Rightarrow> None | Some s1 \<Rightarrow>
                (case kfree s1 ptr of None \<Rightarrow> None | Some s2 \<Rightarrow> pathparse_free_loop s2 next_part)
      else Some s)"

definition pathparse_path_free :: "kstate \<Rightarrow> addr \<Rightarrow> kstate option" where
  "pathparse_path_free s path =
     (case pathparse_free_loop s (load32 (ks_mem s) (path + 4)) of
        None \<Rightarrow> None
      | Some s1 \<Rightarrow> kfree s1 path)"

definition pathparser_path_parse :: "kstate \<Rightarrow> addr \<Rightarrow> (addr \<times> kstate) option" where
  "pathparser_path_parse s path =
     (if \<not> pathparser_path_is_valid (ks_mem s) path then Some (NULL, s)
      else let path_end = path + strnlen (ks_mem s) path MAX_PATH_LEN
           in case kzalloc s 8 of None \<Rightarrow> None | Some (p, s1) \<Rightarrow>
             if p = NULL then Some (NULL, s1)
             else let drive = pathparser_path_get_drive (ks_mem s1) path;
                      s2 = s1\<lparr>ks_mem := store32 (ks_mem s1) p (word_of_int drive)\<rparr>
                  in if drive < 0
                     then map_option (\<lambda>s3. (NULL, s3)) (pathparse_path_free s2 p)
                     else map_option (\<lambda>s3. (p, s3)) (pathparser_loop s2 (path + 3) path_end (p + 4)))"

section \<open>What a path means\<close>

text \<open>
  The parts of the text after \<open>d:/\<close>: what lies between slashes, up to the first empty
  part or the end.
\<close>

function path_segments :: "u8 list \<Rightarrow> u8 list list" where
  "path_segments xs =
     (let seg = takeWhile (\<lambda>b. b \<noteq> 47) xs; rest = dropWhile (\<lambda>b. b \<noteq> 47) xs
      in if seg = [] \<or> rest = [] then (if seg = [] then [] else [seg])
         else seg # path_segments (tl rest))"
  by pat_completeness auto
termination
proof (relation "measure length")
  fix xs seg rest :: "u8 list"
  assume "seg = takeWhile (\<lambda>b. b \<noteq> 47) xs" "rest = dropWhile (\<lambda>b. b \<noteq> 47) xs" "\<not> (seg = [] \<or> rest = [])"
  moreover from this have "length xs = length seg + length rest"
    by (metis length_append takeWhile_dropWhile_id)
  moreover have "0 < length seg" "length (tl rest) \<le> length rest" using calculation(3) by auto
  ultimately show "(tl rest, xs) \<in> measure length" by (simp only: in_measure)
qed simp

declare path_segments.simps [simp del]

text \<open>
  A list of parts in memory: the address of each \<open>struct path_part\<close>, the address of its
  text, and the text.
\<close>

fun path_list :: "mem \<Rightarrow> addr \<Rightarrow> (addr \<times> addr \<times> u8 list) list \<Rightarrow> bool" where
  "path_list m q [] \<longleftrightarrow> q = NULL"
| "path_list m q ((a, b, seg) # ns) \<longleftrightarrow> q = a \<and> a \<noteq> NULL \<and> b \<noteq> NULL \<and> load32 m a = b
     \<and> length seg < 4096 \<and> bytes m b (length seg + 1) = seg @ [0] \<and> path_list m (load32 m (a + 4)) ns"

fun path_nodes :: "(addr \<times> addr \<times> u8 list) list \<Rightarrow> addr list" where
  "path_nodes [] = []"
| "path_nodes ((a, b, seg) # ns) = a # b # path_nodes ns"

text \<open>The regions owned after a list of nodes of one block each has been allocated.\<close>

fun own :: "(addr \<rightharpoonup> nat) \<Rightarrow> addr list \<Rightarrow> addr \<rightharpoonup> nat" where
  "own P [] = P"
| "own P (a # as) = own (P(a \<mapsto> 4096)) as"

definition fresh :: "(addr \<rightharpoonup> nat) \<Rightarrow> addr list \<Rightarrow> bool" where
  "fresh P as \<longleftrightarrow> distinct as \<and> (\<forall>a\<in>set as. P a = None)"

lemma own_other: "x \<notin> set as \<Longrightarrow> own P as x = P x"
  by (induction as arbitrary: P) auto

lemma own_upd: "x \<notin> set as \<Longrightarrow> own (P(x := v)) as = (own P as)(x := v)"
proof (induction as arbitrary: P)
  case (Cons a as)
  then have "own (P(x := v)) (a # as) = own ((P(a \<mapsto> 4096))(x := v)) as"
    using fun_upd_twist [of a x P "Some 4096" v] by (metis list.set_intros(1) own.simps(2))
  with Cons show ?case by (simp del: fun_upd_apply)
qed simp

lemma own_in: "distinct as \<Longrightarrow> x \<in> set as \<Longrightarrow> own P as x = Some 4096"
proof (induction as arbitrary: P)
  case (Cons a as)
  then show ?case by (cases "x = a") (auto simp: own_other)
qed simp

lemma own_release:
  assumes "fresh P (a # as)"
  shows "(own P (a # as))(a := None) = own P as"
  using assms own_upd [of a as "P" "Some 4096"] own_other [of a as P]
  by (auto simp: fresh_def fun_eq_iff simp del: fun_upd_apply) (simp add: fun_upd_apply)

lemma fresh_Cons: "fresh P (a # as) \<longleftrightarrow> P a = None \<and> a \<notin> set as \<and> fresh P as"
  by (auto simp: fresh_def)

lemma fresh_upd: "fresh (P(a \<mapsto> v)) as \<longleftrightarrow> a \<notin> set as \<and> fresh P as"
  by (auto simp: fresh_def split: if_splits)

lemma path_list_cong:
  assumes "path_list m q ns" "\<And>x a. x \<in> set (path_nodes ns) \<Longrightarrow> in_region a x 4096 \<Longrightarrow> m' a = m a"
  shows "path_list m' q ns"
  using assms
proof (induction m q ns rule: path_list.induct)
  case (2 m q a b seg ns)
  have node: "m' x = m x" if "in_region x a 4096" for x using "2.prems"(2) [of a] that by simp
  have part: "m' x = m x" if "in_region x b 4096" for x using "2.prems"(2) [of b] that by simp
  have sub: "in_region x a 4096" if "in_region x a 4 \<or> in_region x (a + 4) 4" for x
    using that in_region_add [of 4 4 x a] in_region_mono [of x a _ 4096] by auto
  have "load32 m' a = load32 m a" "load32 m' (a + 4) = load32 m (a + 4)"
    using node sub by (auto intro!: load32_cong)
  moreover have "bytes m' b (length seg + 1) = bytes m b (length seg + 1)"
    using "2.prems"(1) part in_region_mono [of _ b "length seg + 1" 4096] by (intro bytes_cong_region) auto
  moreover have "path_list m' (load32 m (a + 4)) ns" using "2.IH" "2.prems" by auto
  ultimately show ?case using "2.prems"(1) by auto
qed simp

section \<open>Freeing a path\<close>

lemma free_loop_frees:
  assumes "kheap_inv s (own P (path_nodes ns))" "fresh P (path_nodes ns)" "path_list (ks_mem s) q ns"
  shows "\<exists>s'. pathparse_free_loop s q = Some s' \<and> kheap_inv s' P
    \<and> (\<forall>p l a. P p = Some l \<longrightarrow> in_region a p l \<longrightarrow> ks_mem s' a = ks_mem s a)
    \<and> (\<forall>a. kheap_ext s a \<longrightarrow> kheap_ext s' a \<and> ks_mem s' a = ks_mem s a)"
  using assms
proof (induction ns arbitrary: s q)
  case Nil
  then show ?case by (subst pathparse_free_loop.simps) simp
next
  case (Cons n ns)
  obtain a b seg where n: "n = (a, b, seg)" by (cases n)
  let ?as = "path_nodes ns"
  have fr: "fresh P (a # b # ?as)" "fresh P (b # ?as)" "fresh P ?as" "a \<noteq> b" "a \<notin> set ?as" "b \<notin> set ?as"
    "P a = None" "P b = None"
    using Cons.prems(2) by (auto simp: n fresh_Cons)
  have pl: "q = a" "a \<noteq> NULL" "b \<noteq> NULL" "load32 (ks_mem s) a = b" "path_list (ks_mem s) (load32 (ks_mem s) (a + 4)) ns"
    using Cons.prems(3) by (auto simp: n)
  let ?P0 = "own P (a # b # ?as)"
  have P0: "kheap_inv s ?P0" using Cons.prems(1) by (simp add: n)
  have in_P0: "?P0 x = Some 4096" if "x \<in> set (a # b # ?as)" for x
    using fr(1) that by (intro own_in) (simp_all add: fresh_def)
  have P_P0: "?P0 p = Some l \<and> p \<noteq> a \<and> p \<noteq> b" if "P p = Some l" for p l
  proof -
    have "p \<notin> set (a # b # ?as)" using that fr(1) by (auto simp: fresh_def)
    then show ?thesis using that own_other [of p "a # b # ?as" P] by simp
  qed
  from kh.release_ok [OF P0 in_P0, of b] obtain s1 where s1: "kfree s b = Some s1" "kheap_inv s1 (?P0(b := None))"
    "\<And>q l' x. ?P0 q = Some l' \<Longrightarrow> q \<noteq> b \<Longrightarrow> in_region x q l' \<Longrightarrow> ks_mem s1 x = ks_mem s x"
    "\<And>x. kheap_ext s x \<Longrightarrow> kheap_ext s1 x \<and> ks_mem s1 x = ks_mem s x" by auto
  have "?P0 = own P (b # a # ?as)"
    using fun_upd_twist [OF fr(4), of P "Some 4096" "Some 4096"] by (metis own.simps(2))
  then have P1: "?P0(b := None) = own P (a # ?as)"
    using own_release [of P b "a # ?as"] fr by (simp add: fresh_Cons del: own.simps)
  have in_P1: "own P (a # ?as) x = Some 4096" if "x \<in> set (a # ?as)" for x
    using fr that by (intro own_in) (simp_all add: fresh_def)
  from kh.release_ok [OF s1(2) [unfolded P1] in_P1, of a] obtain s2 where s2: "kfree s1 a = Some s2"
    "kheap_inv s2 ((own P (a # ?as))(a := None))"
    "\<And>q l' x. own P (a # ?as) q = Some l' \<Longrightarrow> q \<noteq> a \<Longrightarrow> in_region x q l' \<Longrightarrow> ks_mem s2 x = ks_mem s1 x"
    "\<And>x. kheap_ext s1 x \<Longrightarrow> kheap_ext s2 x \<and> ks_mem s2 x = ks_mem s1 x" by auto
  have P2: "(own P (a # ?as))(a := None) = own P ?as" using own_release [of P a ?as] fr by (simp add: fresh_Cons)
  have keep: "ks_mem s2 x = ks_mem s x" if "y \<in> set ?as" "in_region x y 4096" for x y
  proof -
    have "y \<noteq> a" "y \<noteq> b" using that(1) fr(5,6) by auto
    then show ?thesis using s1(3) [OF in_P0, of y x] s2(3) [OF in_P1, of y x] that by simp
  qed
  have keepP: "ks_mem s2 x = ks_mem s x" if "P p = Some l" "in_region x p l" for x p l
  proof -
    have "own P (a # ?as) p = Some l" using P_P0 [OF that(1)] P1 by (metis fun_upd_apply)
    then show ?thesis using s1(3) [of p l x] s2(3) [of p l x] P_P0 [OF that(1)] that(2) by simp
  qed
  have "path_list (ks_mem s2) (load32 (ks_mem s) (a + 4)) ns"
    using keep by (intro path_list_cong [OF pl(5)]) auto
  from Cons.IH [OF _ fr(3) this] s2(2) P2 obtain s' where s': "pathparse_free_loop s2 (load32 (ks_mem s) (a + 4)) = Some s'"
    "kheap_inv s' P" "\<forall>p l x. P p = Some l \<longrightarrow> in_region x p l \<longrightarrow> ks_mem s' x = ks_mem s2 x"
    "\<forall>x. kheap_ext s2 x \<longrightarrow> kheap_ext s' x \<and> ks_mem s' x = ks_mem s2 x" by auto
  have "pathparse_free_loop s q = Some s'"
    using pl s1(1) s2(1) s'(1) by (subst pathparse_free_loop.simps) (simp add: Let_def)
  with s' keepP s1(4) s2(4) show ?case by auto
qed

section \<open>Parsing a path\<close>

lemma sint_eq_47: "47 = sint (b :: u8) \<longleftrightarrow> b = 47"
proof
  assume "47 = sint b"
  then have "word_of_int 47 = (word_of_int (sint b) :: u8)" by simp
  then show "b = 47" by simp
qed simp

text \<open>Where the next slash is.\<close>

lemma next_slash:
  assumes xs: "xs = bytes m ptr n" and n: "unat ptr + n < 2 ^ 32" "ptr \<noteq> NULL"
  defines "seg \<equiv> takeWhile (\<lambda>b. b \<noteq> 47) xs"
  shows "(let p = memchr m ptr 47 (word_of_nat n) in if p \<noteq> NULL then p else ptr + word_of_nat n)
    = ptr + word_of_nat (length seg)"
proof -
  have un: "unat (word_of_nat n :: u32) = n" using n(1) by (intro unat_word_of_nat_lt) simp
  have le: "length seg \<le> n" using length_takeWhile_le [of "\<lambda>b. b \<noteq> 47" xs] by (simp add: seg_def xs)
  have before: "m (ptr + word_of_nat i) \<noteq> 47" if "i < length seg" for i
    using that le takeWhile_nth [of i "\<lambda>b. b \<noteq> 47" xs] nth_mem [OF that] set_takeWhileD [of _ "\<lambda>b. b \<noteq> 47" xs]
    by (auto simp: seg_def xs)
  show ?thesis
  proof (cases "length seg < n")
    case True
    then have "xs ! length seg = 47"
      using nth_length_takeWhile [of "\<lambda>b. b \<noteq> 47" xs] by (auto simp: seg_def xs)
    then have "47 = sint (m (ptr + word_of_nat (length seg)))" using True by (simp add: xs)
    then have "memchr m ptr 47 (word_of_nat n) = ptr + word_of_nat (length seg)"
      using before True un by (intro memchr_Some) (auto simp: sint_eq_47)
    moreover have "ptr + word_of_nat (length seg) \<noteq> NULL"
      using True n unat_add_of_nat [of ptr "length seg"] by (simp add: u32_eq_iff_unat)
    ultimately show ?thesis by simp
  next
    case False
    then have "length seg = n" using le by simp
    moreover from this have "memchr m ptr 47 (word_of_nat n) = NULL"
      using before un by (intro memchr_None) (auto simp: sint_eq_47)
    ultimately show ?thesis by simp
  qed
qed

lemma in_region_4_8: "in_region x (a + 4) 4 \<Longrightarrow> in_region x a 4096" "in_region x a 4 \<Longrightarrow> in_region x a 4096"
  "in_region x a 4 \<Longrightarrow> \<not> in_region x (a + 4) 4"
proof -
  show "in_region x (a + 4) 4 \<Longrightarrow> in_region x a 4096" "in_region x a 4 \<Longrightarrow> in_region x a 4096"
    using in_region_add [of 4 4 x a] in_region_mono [of x a _ 4096] by auto
  have "regions_disjoint a 4 (a + 4) 4" by (simp add: regions_disjoint_def)
  then show "in_region x a 4 \<Longrightarrow> \<not> in_region x (a + 4) 4" using regions_disjointD by blast
qed

lemma bytes_zero:
  assumes "bytes m p n = replicate n 0" "in_region x p n" "n \<le> 2 ^ 32"
  shows "m x = 0"
proof -
  from assms(2) obtain i where i: "i < n" "x = p + word_of_nat i" by (metis in_region_exists)
  then have "m x = bytes m p n ! i" by simp
  also have "\<dots> = 0" using assms(1) i(1) by simp
  finally show ?thesis .
qed

text \<open>
  The two allocations of \<open>pathparser_add_part\<close>: the node \<open>a\<close>, which \<open>cs\<close> points to, and
  the text \<open>b\<close>.
\<close>

lemma add_part_allocs:
  assumes inv: "kheap_inv s P" and room: "kheap_room s (Suc (Suc k))" and len: "0 < len" "len \<le> 4096"
    and cs: "P p0 = Some l0" "\<forall>x. in_region x cs 4 \<longrightarrow> in_region x p0 l0"
  obtains a s1 b s3 where "kzalloc s 8 = Some (a, s1)"
    "kzalloc (s1\<lparr>ks_mem := store32 (ks_mem s1) cs a\<rparr>) len = Some (b, s3)"
    "a \<noteq> NULL" "b \<noteq> NULL" "a \<noteq> b" "P a = None" "P b = None"
    "kheap_inv s3 (P(a \<mapsto> 4096, b \<mapsto> 4096))" "kheap_room s3 k"
    "load32 (ks_mem s3) cs = a" "load32 (ks_mem s3) (a + 4) = NULL"
    "bytes (ks_mem s3) b (unat len) = replicate (unat len) 0"
    "\<forall>p l x. P p = Some l \<longrightarrow> in_region x p l \<longrightarrow> \<not> in_region x cs 4 \<longrightarrow> ks_mem s3 x = ks_mem s x"
    "\<forall>x. kheap_ext s x \<longrightarrow> kheap_ext s3 x \<and> ks_mem s3 x = ks_mem s x"
proof -
  obtain a s1 where a: "kzalloc s 8 = Some (a, s1)" "a \<noteq> NULL" "P a = None" "kheap_inv s1 (P(a \<mapsto> 4096))"
    "kheap_room s1 (Suc k)" "bytes (ks_mem s1) a (unat (8 :: u32)) = replicate (unat (8 :: u32)) 0"
    "\<And>q l x. P q = Some l \<Longrightarrow> in_region x q l \<Longrightarrow> ks_mem s1 x = ks_mem s x"
    "\<And>x. kheap_ext s x \<Longrightarrow> kheap_ext s1 x" "\<And>x. kheap_ext s x \<Longrightarrow> ks_mem s1 x = ks_mem s x"
    by (rule kh.alloc_page [OF inv room, of 8]) simp_all
  let ?m2 = "store32 (ks_mem s1) cs a" and ?P1 = "P(a \<mapsto> 4096)"
  have p0: "p0 \<noteq> a" "?P1 p0 = Some l0" "?P1 a = Some 4096" using cs(1) a(3) by auto
  have m2: "?m2 x = ks_mem s1 x" if "\<not> in_region x cs 4" for x using that by (rule store32_outside)
  have "\<forall>x. \<not> in_region x p0 l0 \<longrightarrow> ?m2 x = ks_mem s1 x" using m2 cs(2) by blast
  note s2 = kh.write_frame [OF a(4) p0(2) this]
  obtain b s3 where b: "kzalloc (s1\<lparr>ks_mem := ?m2\<rparr>) len = Some (b, s3)" "b \<noteq> NULL" "?P1 b = None"
    "kheap_inv s3 (?P1(b \<mapsto> 4096))" "kheap_room s3 k" "bytes (ks_mem s3) b (unat len) = replicate (unat len) 0"
    "\<And>q l x. ?P1 q = Some l \<Longrightarrow> in_region x q l \<Longrightarrow> ks_mem s3 x = ?m2 x"
    "\<And>x. kheap_ext (s1\<lparr>ks_mem := ?m2\<rparr>) x \<Longrightarrow> kheap_ext s3 x"
    "\<And>x. kheap_ext (s1\<lparr>ks_mem := ?m2\<rparr>) x \<Longrightarrow> ks_mem s3 x = ?m2 x"
    by (rule kh.alloc_page [OF s2(1) s2(2) [OF a(5)] len]) simp_all
  have ne: "a \<noteq> b" "P b = None" using b(3) by (auto split: if_splits)
  have "load32 (ks_mem s3) cs = load32 ?m2 cs" using b(7) [OF p0(2)] cs(2) by (intro load32_cong) blast
  then have cs3: "load32 (ks_mem s3) cs = a" by (simp add: load_store_simps)
  have next0: "load32 (ks_mem s3) (a + 4) = NULL"
  proof (rule load32_zero)
    fix x assume "in_region x (a + 4) 4"
    then have x: "in_region x a 4096" "in_region x a 8" using in_region_4_8 in_region_add [of 4 4 x a] by auto
    then show "ks_mem s3 x = 0"
      using b(7) [OF p0(3)] s2(5) [OF p0(3)] p0(1) bytes_zero [OF a(6), of x] by simp
  qed
  have keep: "ks_mem s3 x = ks_mem s x" if "P p = Some l" "in_region x p l" "\<not> in_region x cs 4" for p l x
  proof -
    have "?P1 p = Some l" using that(1) a(3) by auto
    from b(7) [OF this that(2)] m2 [OF that(3)] a(7) [OF that(1,2)] show ?thesis by simp
  qed
  show ?thesis
    by (rule that [OF a(1) b(1) a(2) b(2) ne(1) a(3) ne(2) b(4,5) cs3 next0 b(6)])
      (use keep b(8,9) s2(3,4) a(8,9) in auto)
qed

lemma add_part_ok:
  assumes inv: "kheap_inv s P" and room: "kheap_room s (Suc (Suc k))" and n: "0 < n" "n < 4096"
    and cs: "P p0 = Some l0" "\<forall>x. in_region x cs 4 \<longrightarrow> in_region x p0 l0"
    and src: "\<And>x. in_region x ptr n \<Longrightarrow> kheap_ext s x"
  obtains a b s' where "pathparser_add_part s cs ptr (word_of_nat n) = Some s'"
    "a \<noteq> NULL" "b \<noteq> NULL" "fresh P [a, b]" "kheap_inv s' (own P [a, b])" "kheap_room s' k"
    "load32 (ks_mem s') cs = a" "load32 (ks_mem s') a = b" "load32 (ks_mem s') (a + 4) = NULL"
    "bytes (ks_mem s') b (n + 1) = bytes (ks_mem s) ptr n @ [0]"
    "\<forall>p l x. P p = Some l \<longrightarrow> in_region x p l \<longrightarrow> \<not> in_region x cs 4 \<longrightarrow> ks_mem s' x = ks_mem s x"
    "\<forall>x. kheap_ext s x \<longrightarrow> kheap_ext s' x \<and> ks_mem s' x = ks_mem s x"
proof -
  define len :: u32 where "len = word_of_nat n + 1"
  have ulen: "unat len = Suc n" unfolding len_def using n(2) by (simp add: unat_word_ariths unat_of_nat take_bit_nat_eq_self)
  have len: "0 < len" "len \<le> 4096" using ulen n by (simp_all add: word_less_nat_alt word_le_nat_alt)
  obtain a s1 b s3 where k: "kzalloc s 8 = Some (a, s1)"
    "kzalloc (s1\<lparr>ks_mem := store32 (ks_mem s1) cs a\<rparr>) len = Some (b, s3)"
    and ab: "a \<noteq> NULL" "b \<noteq> NULL" "a \<noteq> b" "P a = None" "P b = None"
    and i3: "kheap_inv s3 (P(a \<mapsto> 4096, b \<mapsto> 4096))" "kheap_room s3 k"
    and c3: "load32 (ks_mem s3) cs = a" "load32 (ks_mem s3) (a + 4) = NULL"
    "bytes (ks_mem s3) b (unat len) = replicate (unat len) 0"
    and keep3: "\<forall>p l x. P p = Some l \<longrightarrow> in_region x p l \<longrightarrow> \<not> in_region x cs 4 \<longrightarrow> ks_mem s3 x = ks_mem s x"
    and e3: "\<forall>x. kheap_ext s x \<longrightarrow> kheap_ext s3 x \<and> ks_mem s3 x = ks_mem s x"
    by (rule add_part_allocs [OF inv room len cs])
  let ?P2 = "P(a \<mapsto> 4096, b \<mapsto> 4096)" and ?m4 = "store32 (ks_mem s3) a b" and ?m5 = "copy_mem (store32 (ks_mem s3) a b) b ptr n"
  have P2: "?P2 a = Some 4096" "?P2 b = Some 4096" "?P2 p0 = Some l0" "p0 \<noteq> a" "p0 \<noteq> b" using ab cs(1) by auto
  have m4: "?m4 x = ks_mem s3 x" if "\<not> in_region x a 4" for x using that by (rule store32_outside)
  have m4': "\<forall>x. \<not> in_region x a 4096 \<longrightarrow> ?m4 x = ks_mem s3 x" using m4 in_region_4_8(2) by blast
  note s4 = kh.write_frame [OF i3(1) P2(1) m4']
  have m5: "\<forall>x. \<not> in_region x b 4096 \<longrightarrow> ?m5 x = ks_mem (s3\<lparr>ks_mem := ?m4\<rparr>) x"
    using in_region_mono [of _ b n 4096] n(2) by (auto intro!: copy_mem_outside)
  note s5 = kh.write_frame [OF s4(1) P2(2) m5, unfolded kstate.simps kstate.update_convs]
  have cs4: "load32 ?m4 cs = a" "load32 ?m4 a = b"
    using c3(1) s4(5) [OF P2(3,4)] cs(2) load32_cong [of cs ?m4 "ks_mem s3"] by (auto simp: load_store_simps)
  have dj: "regions_disjoint b n ptr n"
    using kh.ext_not_live [OF i3(1) P2(2)] in_region_mono [of _ b n 4096] src e3 n by (intro regions_disjointI) auto
  have n32: "unat (word_of_nat n :: u32) = n" using n by (intro unat_word_of_nat_lt) simp
  have "pathparser_add_part s cs ptr (word_of_nat n) = Some (s3\<lparr>ks_mem := ?m5\<rparr>)"
    using k c3(1) cs4 memcpy_copy_mem [of b "word_of_nat n" ptr ?m4] dj n32
    by (simp add: pathparser_add_part_def Let_def len_def)
  moreover have "load32 ?m5 cs = a" using cs4(1) s5(5) [OF P2(3,5)] cs(2) load32_cong [of cs ?m5 ?m4] by auto
  moreover have "load32 ?m5 a = b"
    using cs4(2) s5(5) [OF P2(1)] ab(3) in_region_4_8(2) load32_cong [of a ?m5 ?m4] by auto
  moreover have "load32 ?m5 (a + 4) = NULL"
  proof -
    have "?m5 x = ks_mem s3 x" if "in_region x (a + 4) 4" for x
      using s5(5) [OF P2(1) ab(3), of x] m4 [of x] in_region_4_8(1,3) [of x a] that by auto
    then have "load32 ?m5 (a + 4) = load32 (ks_mem s3) (a + 4)" by (rule load32_cong)
    then show ?thesis using c3(2) by simp
  qed
  moreover have "bytes ?m5 b (n + 1) = bytes (ks_mem s) ptr n @ [0]"
  proof -
    have "bytes ?m5 b n = bytes ?m4 ptr n" using n(2) by (intro bytes_copy_mem) simp
    also have "\<dots> = bytes (ks_mem s) ptr n"
      using s4(4) e3 src n(2) by (intro bytes_cong_region) auto
    finally have 1: "bytes ?m5 b n = bytes (ks_mem s) ptr n" .
    have l: "in_region (b + word_of_nat n) b (Suc n)" "in_region (b + word_of_nat n) b 4096" "\<not> in_region (b + word_of_nat n) b n"
      using n(2) by (simp_all add: in_region_nth)
    then have "?m5 (b + word_of_nat n) = ks_mem s3 (b + word_of_nat n)"
      using copy_mem_outside [OF l(3)] s4(5) [OF P2(2) ab(3) [symmetric]] by simp
    also have "\<dots> = 0" using bytes_zero [OF c3(3), of "b + word_of_nat n"] l(1) n(2) ulen by simp
    finally show ?thesis using 1 by (simp add: bytes_Suc)
  qed
  moreover have "?m5 x = ks_mem s x" if "P p = Some l" "in_region x p l" "\<not> in_region x cs 4" for p l x
  proof -
    have "?P2 p = Some l" "p \<noteq> a" "p \<noteq> b" using that(1) ab by auto
    with s5(5) [of p l x] s4(5) [of p l x] keep3 that show ?thesis by simp
  qed
  moreover have "kheap_ext (s3\<lparr>ks_mem := ?m5\<rparr>) x" "?m5 x = ks_mem s x" if "kheap_ext s x" for x
    using s5(3,4) s4(3,4) e3 that by auto
  ultimately show ?thesis
    using that [of "s3\<lparr>ks_mem := ?m5\<rparr>" a b] ab s5(1) s5(2) [OF s4(2) [OF i3(2)]]
    by (simp add: fresh_def del: fun_upd_apply)
qed

lemma segment_split:
  assumes "xs = bytes m p n" "seg = takeWhile (\<lambda>b. b \<noteq> 47) xs" "dropWhile (\<lambda>b. b \<noteq> 47) xs \<noteq> []"
  shows "length seg < n" "seg = bytes m p (length seg)"
    "tl (dropWhile (\<lambda>b. b \<noteq> 47) xs) = bytes m (p + (word_of_nat (length seg) + 1)) (n - length seg - 1)"
proof -
  have "length xs = length seg + length (dropWhile (\<lambda>b. b \<noteq> 47) xs)"
    using assms(2) by (metis length_append takeWhile_dropWhile_id)
  moreover have "0 < length (dropWhile (\<lambda>b. b \<noteq> 47) xs)" using assms(3) by (metis length_greater_0_conv)
  ultimately show lt: "length seg < n" using assms(1) by (simp only: length_bytes)
  show "seg = bytes m p (length seg)"
    using assms(1,2) lt takeWhile_eq_take [of "\<lambda>b. b \<noteq> 47" xs] by (simp add: bytes_def take_map)
  have "dropWhile (\<lambda>b. b \<noteq> 47) xs = drop (length seg) xs" using assms(2) by (simp add: dropWhile_eq_drop)
  also have "tl \<dots> = drop (Suc (length seg)) xs" by (simp add: drop_Suc drop_tl)
  also have "\<dots> = bytes m (p + word_of_nat (Suc (length seg))) (n - Suc (length seg))"
    using bytes_append [of m p "Suc (length seg)" "n - Suc (length seg)"] lt assms(1) by simp
  finally show "tl (dropWhile (\<lambda>b. b \<noteq> 47) xs) = bytes m (p + (word_of_nat (length seg) + 1)) (n - length seg - 1)"
    by (simp add: add.commute)
qed

lemma path_segments_Nil: "path_segments [] = []"
  by (simp add: path_segments.simps)

text \<open>
  The outcome of the loop: \<open>cs\<close> points to the list of the nodes \<open>ns\<close>, which are newly
  owned; everything owned before, but for the pointer at \<open>cs\<close>, and everything outside the
  heap is as it was.
\<close>

definition parsed :: "kstate \<Rightarrow> (addr \<rightharpoonup> nat) \<Rightarrow> addr \<Rightarrow> kstate \<Rightarrow> (addr \<times> addr \<times> u8 list) list \<Rightarrow> bool" where
  "parsed s P cs s' ns \<longleftrightarrow> fresh P (path_nodes ns) \<and> kheap_inv s' (own P (path_nodes ns))
     \<and> path_list (ks_mem s') (load32 (ks_mem s') cs) ns
     \<and> (\<forall>p l x. P p = Some l \<longrightarrow> in_region x p l \<longrightarrow> \<not> in_region x cs 4 \<longrightarrow> ks_mem s' x = ks_mem s x)
     \<and> (\<forall>x. kheap_ext s x \<longrightarrow> kheap_ext s' x \<and> ks_mem s' x = ks_mem s x)"

lemma parsed_Nil: "kheap_inv s P \<Longrightarrow> load32 (ks_mem s) cs = NULL \<Longrightarrow> parsed s P cs s []"
  by (simp add: parsed_def fresh_def)

lemma parsed_Cons:
  assumes s1: "a \<noteq> NULL" "b \<noteq> NULL" "fresh P [a, b]" "kheap_inv s1 (own P [a, b])"
      "load32 (ks_mem s1) cs = a" "load32 (ks_mem s1) a = b"
      "bytes (ks_mem s1) b (length seg + 1) = seg @ [0]" "length seg < 4096"
      "\<forall>p l x. P p = Some l \<longrightarrow> in_region x p l \<longrightarrow> \<not> in_region x cs 4 \<longrightarrow> ks_mem s1 x = ks_mem s x"
      "\<forall>x. kheap_ext s x \<longrightarrow> kheap_ext s1 x \<and> ks_mem s1 x = ks_mem s x"
    and rest: "parsed s1 (own P [a, b]) (a + 4) s' ns"
    and cs: "P p0 = Some l0" "\<forall>x. in_region x cs 4 \<longrightarrow> in_region x p0 l0"
  shows "parsed s P cs s' ((a, b, seg) # ns)"
proof -
  let ?P1 = "own P [a, b]"
  have ab: "a \<noteq> b" "P a = None" "P b = None" using s1(3) by (auto simp: fresh_def)
  have P1: "?P1 a = Some 4096" "?P1 b = Some 4096" using ab by auto
  have keep: "ks_mem s' x = ks_mem s1 x" if "?P1 p = Some l" "in_region x p l" "\<not> in_region x (a + 4) 4" for p l x
    using rest that by (auto simp: parsed_def)
  have other: "?P1 p = Some l \<and> p \<noteq> a \<and> p \<noteq> b" if "P p = Some l" for p l using that ab by auto
  have sep: "\<not> in_region x (a + 4) 4" if "?P1 p = Some l" "p \<noteq> a" "in_region x p l" for p l x
    using kh.live_sep [OF s1(4) P1(1) that(1) that(2) [symmetric] that(3)] in_region_4_8(1) by blast
  have "load32 (ks_mem s') cs = load32 (ks_mem s1) cs"
    using cs other [OF cs(1)] keep sep by (intro load32_cong) blast
  moreover have "load32 (ks_mem s') a = load32 (ks_mem s1) a"
    using keep [OF P1(1)] in_region_4_8(2,3) by (intro load32_cong) blast
  moreover have "bytes (ks_mem s') b (length seg + 1) = bytes (ks_mem s1) b (length seg + 1)"
  proof (rule bytes_cong_region)
    fix x assume "in_region x b (length seg + 1)"
    then have "in_region x b 4096" using s1(8) by (auto elim: in_region_mono)
    then show "ks_mem s' x = ks_mem s1 x" using keep [OF P1(2)] sep [OF P1(2)] ab(1) by simp
  qed (use s1(8) in simp)
  moreover have "ks_mem s' x = ks_mem s x" if "P p = Some l" "in_region x p l" "\<not> in_region x cs 4" for p l x
    using keep [of p l x] sep [of p l x] other [OF that(1)] that s1(9) by simp
  moreover have "fresh P (path_nodes ((a, b, seg) # ns))"
    using rest s1(3) by (auto simp: parsed_def fresh_def split: if_splits)
  ultimately show ?thesis using s1 rest by (auto simp: parsed_def)
qed

lemma parse_loop_step:
  assumes "seg = takeWhile (\<lambda>b. b \<noteq> 47) (bytes (ks_mem s) ptr n)" "n < 4096" "unat ptr + n < 2 ^ 32" "ptr \<noteq> NULL"
    and "pend = ptr + word_of_nat n"
  shows "pathparser_loop s ptr pend cs = (if seg = [] then Some s
      else case pathparser_add_part s cs ptr (word_of_nat (length seg)) of None \<Rightarrow> None
        | Some s1 \<Rightarrow> pathparser_loop s1 (ptr + (word_of_nat (length seg) + 1)) pend (load32 (ks_mem s1) cs + 4))"
proof -
  have "length seg \<le> n" using length_takeWhile_le [of "\<lambda>b. b \<noteq> 47" "bytes (ks_mem s) ptr n"] assms(1) by simp
  then have "(word_of_nat (length seg) :: u32) = 0 \<longleftrightarrow> seg = []"
    using word_of_nat_eq_iff_lt [of "length seg" 0] assms(2) by simp
  moreover have "ptr \<le> pend" using unat_add_of_nat [OF assms(3)] assms(5) by (simp add: word_le_nat_alt)
  moreover have "(if memchr (ks_mem s) ptr 47 (pend - ptr) \<noteq> NULL then memchr (ks_mem s) ptr 47 (pend - ptr) else pend)
      = ptr + word_of_nat (length seg)"
    using next_slash [OF refl assms(3,4), of "ks_mem s"] unfolding assms(5)
    by (simp only: assms(1) Let_def add_diff_cancel_left')
  ultimately show ?thesis
    by (subst pathparser_loop.simps, cases "seg = []") (simp_all add: Let_def split: option.split split del: if_split)
qed

lemma parse_loop_correct:
  assumes "kheap_inv s P" "kheap_room s k" "2 * length (path_segments xs) \<le> k"
    and "P p0 = Some l0" "\<forall>x. in_region x cs 4 \<longrightarrow> in_region x p0 l0" "load32 (ks_mem s) cs = NULL"
    and "xs = bytes (ks_mem s) ptr n" "n < 4096" "unat ptr + n < 2 ^ 32 - 1" "ptr \<noteq> NULL" "pend = ptr + word_of_nat n"
    and "\<forall>x. in_region x ptr n \<longrightarrow> kheap_ext s x"
  shows "\<exists>s' ns. pathparser_loop s ptr pend cs = Some s' \<and> map (snd \<circ> snd) ns = path_segments xs \<and> parsed s P cs s' ns"
  using assms
proof (induction xs arbitrary: s P k p0 l0 cs ptr n rule: path_segments.induct)
  case (1 xs)
  define seg where "seg = takeWhile (\<lambda>b. b \<noteq> 47) xs"
  define rest where "rest = dropWhile (\<lambda>b. b \<noteq> 47) xs"
  note pr = "1.prems"
  have lens: "length seg \<le> n" using length_takeWhile_le [of "\<lambda>b. b \<noteq> 47" xs] pr(7) by (simp add: seg_def)
  have small: "unat ptr + n < 2 ^ 32" using pr(9) by simp
  note loop = parse_loop_step [OF seg_def [unfolded pr(7)] pr(8) small pr(10,11), of cs]
  show ?case
  proof (cases "seg = []")
    case True
    then have "path_segments xs = []" by (subst path_segments.simps) (simp add: seg_def)
    with True loop parsed_Nil [OF pr(1,6)] show ?thesis by (intro exI [of _ s] exI [of _ "[]"]) simp
  next
    case False
    have segs: "path_segments xs = (if rest = [] then [seg] else seg # path_segments (tl rest))"
      using False unfolding seg_def rest_def by (subst path_segments.simps) (simp only: Let_def if_False simp_thms)
    then obtain k' where k': "k = Suc (Suc k')" using pr(3) le_Suc_ex [of 2 k] by (auto split: if_splits)
    have src: "\<And>x. in_region x ptr (length seg) \<Longrightarrow> kheap_ext s x"
      using pr(12) in_region_mono [OF _ lens] by blast
    have l: "0 < length seg" "length seg < 4096" using False lens pr(8) by auto
    obtain a b s1 where s1: "pathparser_add_part s cs ptr (word_of_nat (length seg)) = Some s1"
      "a \<noteq> NULL" "b \<noteq> NULL" "fresh P [a, b]" "kheap_inv s1 (own P [a, b])" "kheap_room s1 k'"
      "load32 (ks_mem s1) cs = a" "load32 (ks_mem s1) a = b" "load32 (ks_mem s1) (a + 4) = NULL"
      "bytes (ks_mem s1) b (length seg + 1) = bytes (ks_mem s) ptr (length seg) @ [0]"
      "\<forall>p l x. P p = Some l \<longrightarrow> in_region x p l \<longrightarrow> \<not> in_region x cs 4 \<longrightarrow> ks_mem s1 x = ks_mem s x"
      "\<forall>x. kheap_ext s x \<longrightarrow> kheap_ext s1 x \<and> ks_mem s1 x = ks_mem s x"
      by (rule add_part_ok [OF pr(1) pr(2) [unfolded k'] l pr(4,5) src])
    let ?ptr = "ptr + (word_of_nat (length seg) + 1)"
    have uptr: "unat ?ptr = unat ptr + length seg + 1"
      using unat_add_of_nat [of ptr "Suc (length seg)"] lens pr(9) by (simp add: add.commute)
    have seg_bytes: "seg = bytes (ks_mem s) ptr (length seg)"
      using lens takeWhile_eq_take [of "\<lambda>b. b \<noteq> 47" xs] by (simp add: seg_def pr(7) bytes_def take_map)
    have cons: "parsed s P cs s' ((a, b, seg) # ns)" if "parsed s1 (own P [a, b]) (a + 4) s' ns" for s' ns
      using s1(10) seg_bytes by (intro parsed_Cons [OF s1(2-5,7,8) _ l(2) s1(11,12) that pr(4,5)]) simp
    have step: "pathparser_loop s ptr pend cs = pathparser_loop s1 ?ptr pend (a + 4)" using loop s1(1,7) False by simp
    show ?thesis
    proof (cases "rest = []")
      case True
      then have "length seg = n" using pr(7) by (metis append_Nil2 length_bytes rest_def seg_def takeWhile_dropWhile_id)
      then have "unat pend < unat ?ptr" using uptr unat_add_of_nat [OF small] pr(11) by simp
      then have "\<not> ?ptr \<le> pend" by (simp add: word_le_nat_alt)
      then have "pathparser_loop s1 ?ptr pend (a + 4) = Some s1" by (subst pathparser_loop.simps) simp
      with step cons [OF parsed_Nil [OF s1(5,9)]] segs True show ?thesis
        by (intro exI [of _ s1] exI [of _ "[(a, b, seg)]"]) simp
    next
      case nonempty: False
      note sp = segment_split [OF pr(7) seg_def nonempty [unfolded rest_def]]
      let ?n = "n - length seg - 1"
      have ext1: "kheap_ext s x" if "in_region x ?ptr ?n" for x
      proof -
        have "in_region x ptr (Suc (length seg) + ?n)"
          using that in_region_add [of "Suc (length seg)" ?n x ptr] sp(1) pr(8) by (simp add: add.commute)
        then show ?thesis using pr(12) sp(1) by simp
      qed
      have tl: "tl rest = bytes (ks_mem s1) ?ptr ?n"
        unfolding rest_def sp(3) using ext1 s1(12) pr(8) by (intro bytes_cong_region) auto
      have room: "2 * length (path_segments (tl rest)) \<le> k'" using pr(3) segs nonempty k' by simp
      have own_a: "own P [a, b] a = Some 4096" using s1(4) by (simp add: fresh_def)
      have ptr: "?n < 4096" "unat ?ptr + ?n < 2 ^ 32 - 1" "?ptr \<noteq> NULL" "pend = ?ptr + word_of_nat ?n"
      proof -
        show "?n < 4096" "unat ?ptr + ?n < 2 ^ 32 - 1" using uptr pr(8,9) sp(1) by auto
        show "?ptr \<noteq> NULL" using uptr by auto
        have "n = Suc (length seg) + ?n" using sp(1) by simp
        then have "(word_of_nat n :: u32) = word_of_nat (Suc (length seg) + ?n)" by (rule arg_cong)
        also have "\<dots> = word_of_nat (length seg) + 1 + word_of_nat ?n" by (simp only: of_nat_add of_nat_Suc add.commute)
        finally show "pend = ?ptr + word_of_nat ?n" unfolding pr(11) by (simp only: add.assoc)
      qed
      have "\<exists>s' ns. pathparser_loop s1 ?ptr pend (a + 4) = Some s' \<and> map (snd \<circ> snd) ns = path_segments (tl rest)
          \<and> parsed s1 (own P [a, b]) (a + 4) s' ns"
        by (rule "1.IH" [OF seg_def rest_def _ s1(5,6) room own_a _ s1(9) tl ptr])
          (use False nonempty in_region_4_8(1) ext1 s1(12) in auto)
      then obtain s' ns where "pathparser_loop s1 ?ptr pend (a + 4) = Some s'"
        "map (snd \<circ> snd) ns = path_segments (tl rest)" "parsed s1 (own P [a, b]) (a + 4) s' ns" by blast
      with step cons segs nonempty show ?thesis by (intro exI [of _ s'] exI [of _ "(a, b, seg) # ns"]) (simp add: comp_def)
    qed
  qed
qed

section \<open>Properties\<close>

lemma valid_path:
  assumes "zbytes m path 250 = d # 58 # 47 # xs" "is_digit d"
  shows "pathparser_path_is_valid m path" "m path = d"
    "strnlen m path MAX_PATH_LEN = word_of_nat (length xs + 3)" "length xs + 3 \<le> 250"
    "xs = bytes m (path + 3) (length xs)"
proof -
  have len: "length xs + 3 \<le> 250" using length_zbytes_le [of m path 250] assms(1) by simp
  then show "length xs + 3 \<le> 250" .
  have z: "zbytes m path 250 = take (length xs + 3) (bytes m path 250)"
    using takeWhile_eq_take [of "\<lambda>b. b \<noteq> 0" "bytes m path 250"] assms(1) by (simp add: zbytes_def numeral_3_eq_3)
  have all: "d # 58 # 47 # xs = bytes m path (length xs + 3)"
    using z assms(1) len by (simp add: bytes_def take_map)
  have three: "bytes m path (3 + length xs) = bytes m path 3 @ bytes m (path + 3) (length xs)"
    using bytes_append [of m path 3 "length xs"] by simp
  have b3: "bytes m path 3 = [m path, m (path + 1), m (path + 2)]" by (simp add: bytes_def upt_rec)
  show xs: "xs = bytes m (path + 3) (length xs)" and "m path = d"
    using all three b3 by (simp_all add: add.commute)
  show sl: "strnlen m path MAX_PATH_LEN = word_of_nat (length xs + 3)"
    using assms(1) by (simp add: strnlen_zbytes MAX_PATH_LEN_def)
  have "sint (word_of_nat (length xs + 3) :: u32) = int (length xs + 3)"
    using len by (intro sint_word_of_nat) simp
  moreover have "bytes m (path + 1) 2 = [58, 47]"
    using all three b3 by (simp add: bytes_def upt_rec add.commute)
  ultimately show "pathparser_path_is_valid m path"
    using sl \<open>m path = d\<close> assms(2) by (simp add: pathparser_path_is_valid_def del: of_nat_add)
qed

text \<open>The root: drive number stored, list still empty.\<close>

lemma parse_root:
  assumes inv: "kheap_inv s P" "kheap_room s (Suc k)"
  obtains p s1 where "kzalloc s 8 = Some (p, s1)" "p \<noteq> NULL" "P p = None"
    "\<forall>dr s2. s2 = s1\<lparr>ks_mem := store32 (ks_mem s1) p dr\<rparr> \<longrightarrow> kheap_inv s2 (P(p \<mapsto> 4096)) \<and> kheap_room s2 k
       \<and> load32 (ks_mem s2) p = dr \<and> load32 (ks_mem s2) (p + 4) = NULL
       \<and> (\<forall>q l x. P q = Some l \<longrightarrow> in_region x q l \<longrightarrow> ks_mem s2 x = ks_mem s x)
       \<and> (\<forall>x. kheap_ext s x \<longrightarrow> kheap_ext s2 x \<and> ks_mem s2 x = ks_mem s x \<and> ks_mem s1 x = ks_mem s x)"
proof -
  obtain p s1 where a: "kzalloc s 8 = Some (p, s1)" "p \<noteq> NULL" "P p = None" "kheap_inv s1 (P(p \<mapsto> 4096))"
    "kheap_room s1 k" "bytes (ks_mem s1) p (unat (8 :: u32)) = replicate (unat (8 :: u32)) 0"
    "\<And>q l x. P q = Some l \<Longrightarrow> in_region x q l \<Longrightarrow> ks_mem s1 x = ks_mem s x"
    "\<And>x. kheap_ext s x \<Longrightarrow> kheap_ext s1 x" "\<And>x. kheap_ext s x \<Longrightarrow> ks_mem s1 x = ks_mem s x"
    by (rule kh.alloc_page [OF inv, of 8]) simp_all
  have "kheap_inv s2 (P(p \<mapsto> 4096)) \<and> kheap_room s2 k
       \<and> load32 (ks_mem s2) p = dr \<and> load32 (ks_mem s2) (p + 4) = NULL
       \<and> (\<forall>q l x. P q = Some l \<longrightarrow> in_region x q l \<longrightarrow> ks_mem s2 x = ks_mem s x)
       \<and> (\<forall>x. kheap_ext s x \<longrightarrow> kheap_ext s2 x \<and> ks_mem s2 x = ks_mem s x \<and> ks_mem s1 x = ks_mem s x)"
    if s2: "s2 = s1\<lparr>ks_mem := store32 (ks_mem s1) p dr\<rparr>" for dr s2
  proof -
    let ?m2 = "store32 (ks_mem s1) p dr"
    have m2: "?m2 x = ks_mem s1 x" if "\<not> in_region x p 4" for x using that by (rule store32_outside)
    have P1: "(P(p \<mapsto> 4096)) p = Some 4096" by simp
    have "\<forall>x. \<not> in_region x p 4096 \<longrightarrow> ?m2 x = ks_mem s1 x" using m2 in_region_4_8(2) by blast
    note w = kh.write_frame [OF a(4) P1 this]
    have "load32 ?m2 (p + 4) = NULL"
    proof (rule load32_zero)
      fix x assume x: "in_region x (p + 4) 4"
      then have "in_region x p 8" using in_region_add [of 4 4 x p] by simp
      then show "?m2 x = 0" using bytes_zero [OF a(6), of x] m2 [of x] in_region_4_8(3) [of x p] x by auto
    qed
    moreover have "?m2 x = ks_mem s x" if "P q = Some l" "in_region x q l" for q l x
      using w(5) [of q l x] a(3,7) that by (cases "q = p") auto
    ultimately show ?thesis
      using s2 w(1) w(2) [OF a(5)] w(3,4) a(8,9) by (simp add: load_store_simps del: fun_upd_apply)
  qed
  with that [OF a(1-3)] show ?thesis by blast
qed

lemma free_root:
  assumes "kheap_inv s (own P (p # path_nodes ns))" "fresh P (p # path_nodes ns)"
    and "path_list (ks_mem s) (load32 (ks_mem s) (p + 4)) ns"
  obtains s' where "pathparse_path_free s p = Some s'" "kheap_inv s' P"
    "\<forall>q l x. P q = Some l \<longrightarrow> in_region x q l \<longrightarrow> ks_mem s' x = ks_mem s x"
proof -
  let ?P1 = "P(p \<mapsto> 4096)"
  have fr: "fresh ?P1 (path_nodes ns)" "P p = None" using assms(2) by (auto simp: fresh_def)
  from free_loop_frees [OF _ fr(1) assms(3)] assms(1) obtain s1 where
    s1: "pathparse_free_loop s (load32 (ks_mem s) (p + 4)) = Some s1" "kheap_inv s1 ?P1"
    "\<forall>q l a. ?P1 q = Some l \<longrightarrow> in_region a q l \<longrightarrow> ks_mem s1 a = ks_mem s a" by (auto simp del: fun_upd_apply)
  obtain s2 where s2: "kfree s1 p = Some s2" "kheap_inv s2 (?P1(p := None))"
    "\<And>q l' a. ?P1 q = Some l' \<Longrightarrow> q \<noteq> p \<Longrightarrow> in_region a q l' \<Longrightarrow> ks_mem s2 a = ks_mem s1 a"
    using kh.release_frame [OF s1(2), of p 4096] by (metis fun_upd_same)
  have "?P1(p := None) = P" using fr(2) by auto
  moreover have "ks_mem s2 x = ks_mem s x" if "P q = Some l" "in_region x q l" for q l x
  proof -
    have q: "q \<noteq> p" "?P1 q = Some l" using that(1) fr(2) by auto
    then show ?thesis using s1(3) s2(3) [OF q(2,1) that(2)] that(2) by (metis (no_types))
  qed
  ultimately show ?thesis using that [of s2] s1(1) s2(1,2) by (simp add: pathparse_path_free_def)
qed

text \<open>
  C16: parsing a valid path \<open>d:/...\<close> returns a newly allocated root that holds the drive
  number and the list of the path's parts, each a terminated string of its own; nothing the
  kernel owned before changes. Freeing the result releases all of it again.
\<close>

theorem path_parse_free:
  assumes inv: "kheap_inv s P" "kheap_room s k" "2 * length (path_segments xs) < k"
    and path: "zbytes (ks_mem s) path 250 = d # 58 # 47 # xs" "is_digit d"
    and ext: "\<forall>x. in_region x path (length xs + 3) \<longrightarrow> kheap_ext s x" "unat path + length xs + 4 < 2 ^ 32"
  shows "\<exists>p s1 ns s2. pathparser_path_parse s path = Some (p, s1) \<and> p \<noteq> NULL
    \<and> load32 (ks_mem s1) p = word_of_int (numeric_char_to_digit d)
    \<and> path_list (ks_mem s1) (load32 (ks_mem s1) (p + 4)) ns \<and> map (snd \<circ> snd) ns = path_segments xs
    \<and> kheap_inv s1 (own P (p # path_nodes ns)) \<and> fresh P (p # path_nodes ns)
    \<and> (\<forall>q l x. P q = Some l \<longrightarrow> in_region x q l \<longrightarrow> ks_mem s1 x = ks_mem s x)
    \<and> pathparse_path_free s1 p = Some s2 \<and> kheap_inv s2 P
    \<and> (\<forall>q l x. P q = Some l \<longrightarrow> in_region x q l \<longrightarrow> ks_mem s2 x = ks_mem s x)"
proof -
  note v = valid_path [OF path]
  obtain k' where k: "k = Suc k'" using inv(3) by (cases k) auto
  let ?dr = "word_of_int (numeric_char_to_digit d) :: u32"
  obtain p s1 where a: "kzalloc s 8 = Some (p, s1)" "p \<noteq> NULL" "P p = None"
    and root: "\<forall>dr s2. s2 = s1\<lparr>ks_mem := store32 (ks_mem s1) p dr\<rparr> \<longrightarrow> kheap_inv s2 (P(p \<mapsto> 4096)) \<and> kheap_room s2 k'
       \<and> load32 (ks_mem s2) p = dr \<and> load32 (ks_mem s2) (p + 4) = NULL
       \<and> (\<forall>q l x. P q = Some l \<longrightarrow> in_region x q l \<longrightarrow> ks_mem s2 x = ks_mem s x)
       \<and> (\<forall>x. kheap_ext s x \<longrightarrow> kheap_ext s2 x \<and> ks_mem s2 x = ks_mem s x \<and> ks_mem s1 x = ks_mem s x)"
    by (rule parse_root [OF inv(1) inv(2) [unfolded k]])
  let ?s2 = "s1\<lparr>ks_mem := store32 (ks_mem s1) p ?dr\<rparr>" and ?P1 = "P(p \<mapsto> 4096)"
  have s2: "kheap_inv ?s2 ?P1" "kheap_room ?s2 k'" "load32 (ks_mem ?s2) p = ?dr" "load32 (ks_mem ?s2) (p + 4) = NULL"
    "\<forall>q l x. P q = Some l \<longrightarrow> in_region x q l \<longrightarrow> ks_mem ?s2 x = ks_mem s x"
    "\<forall>x. kheap_ext s x \<longrightarrow> kheap_ext ?s2 x \<and> ks_mem ?s2 x = ks_mem s x \<and> ks_mem s1 x = ks_mem s x"
    using root [rule_format, OF refl, of ?dr] by blast+
  have px: "\<forall>x. in_region x (path + 3) (length xs) \<longrightarrow> kheap_ext s x"
    using ext(1) in_region_add [of 3 "length xs" _ path] v(4) by (simp add: add.commute)
  have "bytes (ks_mem ?s2) (path + 3) (length xs) = bytes (ks_mem s) (path + 3) (length xs)"
    using s2(6) px v(4) by (intro bytes_cong_region) auto
  then have xs: "xs = bytes (ks_mem ?s2) (path + 3) (length xs)" using v(5) by simp
  have u3: "unat (path + 3) = unat path + 3" using unat_add_of_nat [of path 3] ext(2) by simp
  then have ptr: "unat (path + 3) + length xs < 2 ^ 32 - 1" "path + 3 \<noteq> NULL" "length xs < 4096"
    using ext(2) v(4) by auto
  have pend: "path + strnlen (ks_mem s) path MAX_PATH_LEN = path + 3 + word_of_nat (length xs)"
    unfolding v(3) by simp
  have ex: "\<forall>x. in_region x (path + 3) (length xs) \<longrightarrow> kheap_ext ?s2 x" using px s2(6) by blast
  have room: "2 * length (path_segments xs) \<le> k'" using inv(3) k by simp
  have p4: "\<forall>x. in_region x (p + 4) 4 \<longrightarrow> in_region x p 4096" using in_region_4_8(1) by blast
  from parse_loop_correct [OF s2(1,2) room _ p4 s2(4) xs ptr(3,1,2) pend ex]
  obtain s3 ns where s3: "pathparser_loop ?s2 (path + 3) (path + strnlen (ks_mem s) path MAX_PATH_LEN) (p + 4) = Some s3"
    "map (snd \<circ> snd) ns = path_segments xs" "parsed ?s2 ?P1 (p + 4) s3 ns" by auto
  have "ks_mem s1 path = d" using s2(6) ext(1) v(2) by (auto simp: in_region_def)
  moreover have "\<not> numeric_char_to_digit d < 0" using path(2) by (simp add: is_digit_def numeric_char_to_digit_def)
  ultimately have parse: "pathparser_path_parse s path = Some (p, s3)"
    using v(1) a s3(1) by (simp add: pathparser_path_parse_def pathparser_path_get_drive_def Let_def)
  have pl: "path_list (ks_mem s3) (load32 (ks_mem s3) (p + 4)) ns" and fr: "fresh P (p # path_nodes ns)"
    and inv3: "kheap_inv s3 (own P (p # path_nodes ns))"
    using s3(3) a(3) by (auto simp: parsed_def fresh_upd fresh_Cons simp del: fun_upd_apply)
  have keep: "ks_mem s3 x = ks_mem ?s2 x" if "?P1 q = Some l" "in_region x q l" "\<not> in_region x (p + 4) 4" for q l x
    using s3(3) that by (auto simp: parsed_def)
  have drive: "load32 (ks_mem s3) p = ?dr"
  proof -
    have "load32 (ks_mem s3) p = load32 (ks_mem ?s2) p"
      using keep [of p 4096] in_region_4_8(2,3) by (intro load32_cong) auto
    then show ?thesis using s2(3) by simp
  qed
  have old: "ks_mem s3 x = ks_mem s x" if "P q = Some l" "in_region x q l" for q l x
  proof -
    have q: "?P1 q = Some l" "q \<noteq> p" using that(1) a(3) by auto
    then have "\<not> in_region x (p + 4) 4"
      using kh.live_sep [OF s2(1), of p 4096 q l x] that(2) in_region_4_8(1) by auto
    then show ?thesis using keep [OF q(1) that(2)] s2(5) that by simp
  qed
  from free_root [OF inv3 fr pl] obtain s4 where "pathparse_path_free s3 p = Some s4" "kheap_inv s4 P"
    "\<forall>q l x. P q = Some l \<longrightarrow> in_region x q l \<longrightarrow> ks_mem s4 x = ks_mem s3 x" by blast
  with parse a(2) drive pl s3(2) inv3 fr old show ?thesis by auto
qed

text \<open>A kernel whose image holds the path \<open>0:/a/bc\<close> at address 0x1000.\<close>

definition demo_path_mem :: mem where
  "demo_path_mem = write_bytes (\<lambda>_. 0) 0x1000 [48, 58, 47, 97, 47, 98, 99]"

lemma demo_path_state:
  obtains s where "kheap_inv s Map.empty" "kheap_room s 4094"
    "zbytes (ks_mem s) 0x1000 250 = [48, 58, 47, 97, 47, 98, 99]" "\<forall>x. in_region x 0x1000 300 \<longrightarrow> kheap_ext s x"
proof -
  let ?s0 = "\<lparr>ks_mem = demo_path_mem, ks_heap = demo_heap\<rparr>"
  obtain s where s: "kheap_init 0xC0101234 ?s0 = Some s" "kheap_inv s Map.empty" "kheap_room s 4094"
    "\<forall>a < 0xC0101234. kheap_ext s a \<and> ks_mem s a = ks_mem ?s0 a"
    by (rule kheap_init_state [of "0xC0101234" ?s0]) auto
  have low: "x < 0xC0101234" if "in_region x 0x1000 300" for x
  proof -
    from that obtain i where i: "i < 300" "x = 0x1000 + word_of_nat i" by (metis in_region_exists)
    then have "unat x = 4096 + i" using unat_add_of_nat [of "0x1000" i] by simp
    then show ?thesis using i(1) by (simp add: word_less_nat_alt)
  qed
  have "bytes (ks_mem s) 0x1000 250 = bytes demo_path_mem 0x1000 250"
    using s(4) low in_region_mono [of _ "0x1000" 250 300] by (intro bytes_cong_region) auto
  also have "\<dots> = [48, 58, 47, 97, 47, 98, 99] @ bytes demo_path_mem 0x1007 243"
  proof -
    have "bytes demo_path_mem 0x1000 7 = [48, 58, 47, 97, 47, 98, 99]"
      by (simp add: bytes_def upt_rec demo_path_mem_def write_bytes_def in_region_def)
    then show ?thesis using bytes_append [of demo_path_mem "0x1000" 7 243] by simp
  qed
  also have "bytes demo_path_mem 0x1007 243 = 0 # bytes demo_path_mem 0x1008 242"
    using bytes_Cons [of demo_path_mem "0x1007" 242] by (simp add: demo_path_mem_def write_bytes_def in_region_def)
  finally show ?thesis using that [OF s(2,3)] low s(4) by (simp add: zbytes_def)
qed

theorem path_parse_free_witness:
  "\<exists>s p s1 ns s2. kheap_inv s Map.empty \<and> pathparser_path_parse s 0x1000 = Some (p, s1) \<and> load32 (ks_mem s1) p = 0
     \<and> path_list (ks_mem s1) (load32 (ks_mem s1) (p + 4)) ns \<and> map (snd \<circ> snd) ns = [[97], [98, 99]]
     \<and> pathparse_path_free s1 p = Some s2 \<and> kheap_inv s2 Map.empty"
proof -
  obtain s where s: "kheap_inv s Map.empty" "kheap_room s 4094"
    "zbytes (ks_mem s) 0x1000 250 = [48, 58, 47, 97, 47, 98, 99]" "\<forall>x. in_region x 0x1000 300 \<longrightarrow> kheap_ext s x"
    by (rule demo_path_state)
  have segs: "path_segments [97, 47, 98, 99] = [[97], [98, 99]]" by (simp add: path_segments.simps)
  have ext: "\<forall>x. in_region x 0x1000 (length [97, 47, 98, 99 :: u8] + 3) \<longrightarrow> kheap_ext s x"
    using s(4) in_region_mono [of _ "0x1000" 7 300] by simp
  have digit: "is_digit 48" "numeric_char_to_digit 48 = 0" by (simp_all add: is_digit_def numeric_char_to_digit_def)
  have "2 * length (path_segments [97, 47, 98, 99]) < 4094" "unat (0x1000 :: u32) + length [97, 47, 98, 99 :: u8] + 4 < 2 ^ 32"
    by (simp_all add: segs)
  from path_parse_free [OF s(1,2) this(1) s(3) digit(1) ext this(2), unfolded segs digit(2) of_int_0] s(1)
  show ?thesis by (elim exE conjE) (intro exI conjI, assumption+)
qed

text \<open>
  A path that does not start with a digit, a colon and a slash, or that is shorter, is
  refused with NULL before anything is allocated.
\<close>

theorem path_parse_invalid:
  assumes "zbytes (ks_mem s) path 250 = cs" "\<not> (\<exists>d xs. cs = d # 58 # 47 # xs \<and> is_digit d)"
  shows "pathparser_path_parse s path = Some (NULL, s)"
proof -
  have "\<not> pathparser_path_is_valid (ks_mem s) path"
  proof
    assume v: "pathparser_path_is_valid (ks_mem s) path"
    have "length cs \<le> 250" using assms(1) length_zbytes_le by metis
    then have "3 \<le> length cs"
      using v assms(1) sint_word_of_nat [of "length cs"] by (simp add: pathparser_path_is_valid_def strnlen_zbytes MAX_PATH_LEN_def)
    then obtain a b c xs where cs: "cs = a # b # c # xs" by (auto simp: numeral_3_eq_3 Suc_le_length_iff)
    have at: "cs ! i = ks_mem s (path + word_of_nat i)" if "i < length cs" for i
      using that assms(1) takeWhile_nth [of i "\<lambda>b. b \<noteq> 0" "bytes (ks_mem s) path 250"] \<open>length cs \<le> 250\<close>
      by (simp add: zbytes_def)
    have "a = ks_mem s path" "b = ks_mem s (path + 1)" "c = ks_mem s (path + 2)"
      using at [of 0] at [of 1] at [of 2] cs by simp_all
    then show False using v assms(2) cs by (simp add: pathparser_path_is_valid_def bytes_def upt_rec add.commute)
  qed
  then show ?thesis by (simp add: pathparser_path_parse_def)
qed

theorem path_parse_invalid_witness:
  "pathparser_path_parse \<lparr>ks_mem = \<lambda>_. 0, ks_heap = demo_heap\<rparr> 0x1000 = Some (NULL, \<lparr>ks_mem = \<lambda>_. 0, ks_heap = demo_heap\<rparr>)"
  by (rule path_parse_invalid [of _ _ "[]"]) (simp_all add: zbytes_Suc [of _ _ 249, simplified])

end
