(* ===== verification/Gdt.thy ===== *)
theory Gdt
  imports Prelude
begin

text \<open>
  Segment descriptors and the task state segment, \<^verbatim>\<open>src/kernel/gdt.c\<close> and
  \<^verbatim>\<open>src/kernel/gdt.h\<close>. A native descriptor is its eight bytes. The assembly
  routines \<open>gdt_load\<close> and \<open>tss_load\<close> only load processor registers and are left out.
\<close>

section \<open>The code\<close>

record gdt_structure =
  gs_base :: u32
  gs_limit :: u32
  gs_type :: u8

record tss =
  tss_link :: u32
  tss_esp0 :: u32
  tss_ss0 :: u32
  tss_esp1 :: u32
  tss_esp2 :: u32
  tss_ss2 :: u32
  tss_sr3 :: u32
  tss_eip :: u32
  tss_eflags :: u32
  tss_eax :: u32
  tss_ecx :: u32
  tss_edx :: u32
  tss_ebx :: u32
  tss_esp :: u32
  tss_ebp :: u32
  tss_esi :: u32
  tss_edi :: u32
  tss_es :: u32
  tss_cs :: u32
  tss_ss :: u32
  tss_ds :: u32
  tss_fs :: u32
  tss_gs :: u32
  tss_ldtr :: u32
  tss_iopb :: u32

definition sizeof_tss :: u32 where "sizeof_tss = 25 * 4"

definition zero_tss :: tss where
  "zero_tss = \<lparr>tss_link = 0, tss_esp0 = 0, tss_ss0 = 0, tss_esp1 = 0, tss_esp2 = 0, tss_ss2 = 0, tss_sr3 = 0,
     tss_eip = 0, tss_eflags = 0, tss_eax = 0, tss_ecx = 0, tss_edx = 0, tss_ebx = 0, tss_esp = 0, tss_ebp = 0,
     tss_esi = 0, tss_edi = 0, tss_es = 0, tss_cs = 0, tss_ss = 0, tss_ds = 0, tss_fs = 0, tss_gs = 0,
     tss_ldtr = 0, tss_iopb = 0\<rparr>"

definition GDT_FLAG_DATASEG :: u8 where "GDT_FLAG_DATASEG = 0x02"
definition GDT_FLAG_CODESEG :: u8 where "GDT_FLAG_CODESEG = 0x0a"
definition GDT_FLAG_TSS :: u8 where "GDT_FLAG_TSS = 0x09"
definition GDT_FLAG_SEGMENT :: u8 where "GDT_FLAG_SEGMENT = 0x10"
definition GDT_FLAG_RING0 :: u8 where "GDT_FLAG_RING0 = 0x00"
definition GDT_FLAG_RING3 :: u8 where "GDT_FLAG_RING3 = 0x60"
definition GDT_FLAG_PRESENT :: u8 where "GDT_FLAG_PRESENT = 0x80"

lemmas gdt_flag_defs = GDT_FLAG_DATASEG_def GDT_FLAG_CODESEG_def GDT_FLAG_TSS_def GDT_FLAG_SEGMENT_def
  GDT_FLAG_RING0_def GDT_FLAG_RING3_def GDT_FLAG_PRESENT_def

text \<open>The globals of \<open>gdt.c\<close>.\<close>

record gdt_state =
  gdt_native :: "u8 list list"
  gdt_segments :: "gdt_structure list"
  tss_global :: tss
  GDT_PTR_limit :: u16
  GDT_PTR_base :: u32

text \<open>
  The encoding of one descriptor; \<open>None\<close> is \<open>panic\<close>. The limit in the structure is
  overwritten when it is scaled to pages.
\<close>

definition gdt_structure_to_native ::
  "u8 list \<Rightarrow> gdt_structure \<Rightarrow> (u8 list \<times> gdt_structure) option" where
  "gdt_structure_to_native target g =
     (if gs_limit g > 65536 \<and> gs_limit g AND 0xFFF \<noteq> 0xFFF then None
      else let t1 = target[6 := 0x40];
               (g', t2) = (if gs_limit g > 65536
                           then (g\<lparr>gs_limit := drop_bit 12 (gs_limit g)\<rparr>, t1[6 := 0xC0]) else (g, t1));
               t3 = t2[0 := ucast (gs_limit g' AND 0xFF)];
               t4 = t3[1 := ucast (drop_bit 8 (gs_limit g') AND 0xFF)];
               t5 = t4[6 := t4 ! 6 OR ucast (drop_bit 16 (gs_limit g') AND 0xF)];
               t6 = t5[2 := ucast (gs_base g' AND 0xFF)];
               t7 = t6[3 := ucast (drop_bit 8 (gs_base g') AND 0xFF)];
               t8 = t7[4 := ucast (drop_bit 16 (gs_base g') AND 0xFF)];
               t9 = t8[7 := ucast (drop_bit 24 (gs_base g') AND 0xFF)]
           in Some (t9[5 := gs_type g'], g'))"

fun gdt_structures_to_native_gdts ::
  "u8 list list \<Rightarrow> gdt_structure list \<Rightarrow> (u8 list list \<times> gdt_structure list) option" where
  "gdt_structures_to_native_gdts (t # ts) (g # gs) =
     (case gdt_structure_to_native t g of None \<Rightarrow> None
      | Some (t', g') \<Rightarrow> (case gdt_structures_to_native_gdts ts gs of None \<Rightarrow> None
          | Some (ts', gs') \<Rightarrow> Some (t' # ts', g' # gs')))"
| "gdt_structures_to_native_gdts ts gs = Some (ts, gs)"

definition tss_init :: "addr \<Rightarrow> gdt_state \<Rightarrow> gdt_state" where
  "tss_init system_task_stack_bottom s =
     s\<lparr>tss_global := zero_tss\<lparr>tss_esp0 := system_task_stack_bottom, tss_ss0 := 2 * 8, tss_cs := 0x0b,
        tss_ss := 0x13, tss_ds := 0x13, tss_es := 0x13, tss_fs := 0x13, tss_gs := 0x13\<rparr>\<rparr>"

definition tss_set_kernel_stack :: "addr \<Rightarrow> gdt_state \<Rightarrow> gdt_state" where
  "tss_set_kernel_stack kernel_stack_pointer s =
     s\<lparr>tss_global := (tss_global s)\<lparr>tss_esp0 := kernel_stack_pointer\<rparr>\<rparr>"

text \<open>
  \<open>gdt_init\<close> depends on the link addresses of \<open>tss\<close>, of \<open>gdt_native\<close> and of the
  stack of the system task.
\<close>

definition gdt_init_segments :: "addr \<Rightarrow> gdt_structure list" where
  "gdt_init_segments tss_addr =
    [\<lparr>gs_base = 0, gs_limit = 0, gs_type = 0\<rparr>,
     \<lparr>gs_base = 0, gs_limit = 0xffffffff,
      gs_type = GDT_FLAG_RING0 OR GDT_FLAG_SEGMENT OR GDT_FLAG_CODESEG OR GDT_FLAG_PRESENT\<rparr>,
     \<lparr>gs_base = 0, gs_limit = 0xffffffff,
      gs_type = GDT_FLAG_RING0 OR GDT_FLAG_SEGMENT OR GDT_FLAG_DATASEG OR GDT_FLAG_PRESENT\<rparr>,
     \<lparr>gs_base = 0, gs_limit = 0xffffffff,
      gs_type = GDT_FLAG_RING3 OR GDT_FLAG_SEGMENT OR GDT_FLAG_CODESEG OR GDT_FLAG_PRESENT\<rparr>,
     \<lparr>gs_base = 0, gs_limit = 0xffffffff,
      gs_type = GDT_FLAG_RING3 OR GDT_FLAG_SEGMENT OR GDT_FLAG_DATASEG OR GDT_FLAG_PRESENT\<rparr>,
     \<lparr>gs_base = tss_addr, gs_limit = sizeof_tss - 1,
      gs_type = GDT_FLAG_PRESENT OR GDT_FLAG_TSS OR GDT_FLAG_RING0\<rparr>]"

definition gdt_init :: "addr \<Rightarrow> addr \<Rightarrow> addr \<Rightarrow> gdt_state \<Rightarrow> gdt_state option" where
  "gdt_init tss_addr gdt_native_addr stack_bottom s =
     (case gdt_structures_to_native_gdts (gdt_native s) (gdt_init_segments tss_addr) of
        None \<Rightarrow> None
      | Some (native, segs) \<Rightarrow>
          Some (tss_init stack_bottom
            (s\<lparr>gdt_native := native, gdt_segments := segs, GDT_PTR_base := gdt_native_addr,
               GDT_PTR_limit := 6 * 8 - 1\<rparr>)))"

section \<open>What the processor reads\<close>

text \<open>Base, limit in bytes and access byte of a descriptor, as the processor decodes them.\<close>

definition descriptor_base :: "u8 list \<Rightarrow> u32" where
  "descriptor_base d = ucast (d ! 2) OR push_bit 8 (ucast (d ! 3)) OR push_bit 16 (ucast (d ! 4))
     OR push_bit 24 (ucast (d ! 7))"

definition descriptor_limit20 :: "u8 list \<Rightarrow> u32" where
  "descriptor_limit20 d = ucast (d ! 0) OR push_bit 8 (ucast (d ! 1)) OR push_bit 16 (ucast (d ! 6 AND 0x0F))"

definition descriptor_limit :: "u8 list \<Rightarrow> u32" where
  "descriptor_limit d = (if bit (d ! 6) 7 then push_bit 12 (descriptor_limit20 d) OR 0xFFF else descriptor_limit20 d)"

definition descriptor_access :: "u8 list \<Rightarrow> u8" where
  "descriptor_access d = d ! 5"

section \<open>Encoding and decoding\<close>

lemma mask_numerals: "(0xFF :: u32) = mask 8" "(0xF :: u32) = mask 4" "(0x0F :: u8) = mask 4" "(0xFFF :: u32) = mask 12"
  by (simp_all add: mask_eq_exp_minus_1)

lemma bytes_of_base:
  fixes v :: u32
  shows "ucast (ucast (v AND 0xFF) :: u8) OR push_bit 8 (ucast (ucast (drop_bit 8 v AND 0xFF) :: u8))
    OR push_bit 16 (ucast (ucast (drop_bit 16 v AND 0xFF) :: u8)) OR push_bit 24 (ucast (ucast (drop_bit 24 v AND 0xFF) :: u8)) = v"
    (is "?l = v")
proof (rule bit_word_eqI)
  fix n assume n: "n < LENGTH(32)"
  consider "n < 8" | "8 \<le> n \<and> n < 16" | "16 \<le> n \<and> n < 24" | "24 \<le> n" by linarith
  then show "bit ?l n = bit v n"
    unfolding mask_numerals by cases (use n in \<open>auto simp: bit_simps\<close>)
qed

lemma bytes_of_limit:
  fixes v :: u32 and g :: u8
  assumes "g AND mask 4 = 0"
  shows "ucast (ucast (v AND 0xFF) :: u8) OR push_bit 8 (ucast (ucast (drop_bit 8 v AND 0xFF) :: u8))
    OR push_bit 16 (ucast ((g OR ucast (drop_bit 16 v AND 0xF)) AND 0x0F :: u8)) = take_bit 20 v"
    (is "?l = _")
    and "bit (g OR ucast (drop_bit 16 v AND 0xF)) 7 \<longleftrightarrow> bit g 7"
proof -
  have "(g OR ucast (drop_bit 16 v AND mask 4)) AND mask 4 = (ucast (drop_bit 16 v AND mask 4) AND mask 4 :: u8)"
    using assms by (simp add: bit.conj_disj_distrib2)
  also have "\<dots> = ucast (drop_bit 16 v AND mask 4)" by (rule bit_word_eqI) (auto simp: bit_simps)
  finally have h: "(g OR ucast (drop_bit 16 v AND mask 4)) AND mask 4 = (ucast (drop_bit 16 v AND mask 4) :: u8)" .
  show "?l = take_bit 20 v"
  proof (rule bit_word_eqI)
    fix n assume n: "n < LENGTH(32)"
    consider "n < 8" | "8 \<le> n \<and> n < 16" | "16 \<le> n \<and> n < 20" | "20 \<le> n" by linarith
    then show "bit ?l n = bit (take_bit 20 v) n"
      unfolding mask_numerals h by cases (use n in \<open>auto simp: bit_simps\<close>)
  qed
  show "bit (g OR ucast (drop_bit 16 v AND 0xF)) 7 \<longleftrightarrow> bit g 7"
    unfolding mask_numerals by (simp add: bit_simps)
qed

lemma scaled_limit:
  fixes v :: u32
  assumes "v AND 0xFFF = 0xFFF"
  shows "push_bit 12 (take_bit 20 (drop_bit 12 v)) OR 0xFFF = v"
proof (rule bit_word_eqI)
  fix n assume n: "n < LENGTH(32)"
  have "bit (v AND mask 12) n = bit (mask 12 :: u32) n" using assms by (simp only: mask_numerals)
  then show "bit (push_bit 12 (take_bit 20 (drop_bit 12 v)) OR 0xFFF) n = bit v n"
    unfolding mask_numerals using n by (auto simp: bit_simps)
qed

lemma to_native_decodes:
  assumes "length t = 8" "gs_limit g > 65536 \<longrightarrow> gs_limit g AND 0xFFF = 0xFFF"
  obtains d g' where "gdt_structure_to_native t g = Some (d, g')" "length d = 8" "descriptor_base d = gs_base g"
    "descriptor_limit d = gs_limit g" "descriptor_access d = gs_type g"
proof -
  from assms(1) obtain a b c e f h i j where t: "t = [a, b, c, e, f, h, i, j]"
    by (auto simp: length_Suc_conv eval_nat_numeral)
  let ?v = "if gs_limit g > 65536 then drop_bit 12 (gs_limit g) else gs_limit g"
  let ?g = "if gs_limit g > 65536 then 0xC0 else 0x40 :: u8"
  let ?d = "[ucast (?v AND 0xFF), ucast (drop_bit 8 ?v AND 0xFF), ucast (gs_base g AND 0xFF),
     ucast (drop_bit 8 (gs_base g) AND 0xFF), ucast (drop_bit 16 (gs_base g) AND 0xFF), gs_type g,
     ?g OR ucast (drop_bit 16 ?v AND 0xF), ucast (drop_bit 24 (gs_base g) AND 0xFF)]"
  have 1: "gdt_structure_to_native t g = Some (?d, if gs_limit g > 65536 then g\<lparr>gs_limit := drop_bit 12 (gs_limit g)\<rparr> else g)"
    using assms(2) unfolding gdt_structure_to_native_def t
    by (cases "gs_limit g > 65536") (simp_all only: Let_def split if_True if_False simp_thms, simp_all add: eval_nat_numeral)
  have l20: "descriptor_limit20 ?d = take_bit 20 ?v" "bit (?d ! 6) 7 \<longleftrightarrow> gs_limit g > 65536"
  proof -
    have g: "?g AND mask 4 = 0" "bit ?g 7 \<longleftrightarrow> gs_limit g > 65536" by (simp_all add: mask_eq_exp_minus_1)
    show "descriptor_limit20 ?d = take_bit 20 ?v"
      using bytes_of_limit(1) [OF g(1), of ?v] by (simp only: descriptor_limit20_def) simp
    show "bit (?d ! 6) 7 \<longleftrightarrow> gs_limit g > 65536" using bytes_of_limit(2) [OF g(1), of ?v] g(2) by (simp only:) simp
  qed
  have "descriptor_limit ?d = gs_limit g"
  proof (cases "gs_limit g > 65536")
    case True
    then show ?thesis using l20 assms(2) scaled_limit [of "gs_limit g"] by (simp only: descriptor_limit_def if_True simp_thms)
  next
    case False
    then have "unat (gs_limit g) < 2 ^ 20" by (simp add: word_less_nat_alt)
    then have "take_bit 20 (gs_limit g) = gs_limit g"
      by (simp add: u32_eq_iff_unat unsigned_take_bit_eq take_bit_nat_eq_self)
    then show ?thesis using l20 False by (simp only: descriptor_limit_def if_False simp_thms)
  qed
  moreover have "descriptor_base ?d = gs_base g" using bytes_of_base [of "gs_base g"] by (simp add: descriptor_base_def)
  moreover have "descriptor_access ?d = gs_type g" by (simp add: descriptor_access_def)
  ultimately show ?thesis using that [OF 1] by simp
qed

section \<open>Properties\<close>

text \<open>
  C30: a segment whose limit the descriptor format can express (at most 64 KiB, or all ones
  in the low twelve bits) is encoded without panic, and the processor decodes base, limit
  and access byte back from the eight bytes.
\<close>

theorem gdt_encode_decode:
  assumes "length t = 8" "gs_limit g > 65536 \<longrightarrow> gs_limit g AND 0xFFF = 0xFFF"
  shows "\<exists>d g'. gdt_structure_to_native t g = Some (d, g') \<and> length d = 8 \<and> descriptor_base d = gs_base g
     \<and> descriptor_limit d = gs_limit g \<and> descriptor_access d = gs_type g"
  by (rule to_native_decodes [OF assms]) blast

theorem gdt_encode_decode_witness:
  "\<exists>d g'. gdt_structure_to_native (replicate 8 0) \<lparr>gs_base = 0x12345678, gs_limit = 0xABCDEFFF, gs_type = 0x9A\<rparr> = Some (d, g')
     \<and> descriptor_base d = 0x12345678 \<and> descriptor_limit d = 0xABCDEFFF"
  using gdt_encode_decode [of "replicate 8 0" "\<lparr>gs_base = 0x12345678, gs_limit = 0xABCDEFFF, gs_type = 0x9A\<rparr>"]
  by auto

text \<open>
  \<open>gdt_init\<close> does not panic; the four flat segments decode to the whole address space
  with the access bytes of kernel code, kernel data, user code and user data, the sixth to
  the task state segment, whose kernel stack is the given one.
\<close>

theorem gdt_init_descriptors:
  assumes "length (gdt_native s) = 6" "\<forall>d\<in>set (gdt_native s). length d = 8"
  shows "\<exists>s'. gdt_init tss_addr native_addr stack s = Some s' \<and> length (gdt_native s') = 6
     \<and> map descriptor_base (tl (gdt_native s')) = [0, 0, 0, 0, tss_addr]
     \<and> map descriptor_limit (tl (gdt_native s')) = [0xFFFFFFFF, 0xFFFFFFFF, 0xFFFFFFFF, 0xFFFFFFFF, 99]
     \<and> map descriptor_access (tl (gdt_native s')) = [0x9A, 0x92, 0xFA, 0xF2, 0x89]
     \<and> tss_esp0 (tss_global s') = stack \<and> tss_ss0 (tss_global s') = 0x10 \<and> GDT_PTR_limit s' = 47"
proof -
  from assms(1) obtain t0 t1 t2 t3 t4 t5 where t: "gdt_native s = [t0, t1, t2, t3, t4, t5]"
    by (auto simp: length_Suc_conv eval_nat_numeral)
  have len: "length t0 = 8" "length t1 = 8" "length t2 = 8" "length t3 = 8" "length t4 = 8" "length t5 = 8"
    using assms(2) t by auto
  have enc: "\<exists>d g'. gdt_structure_to_native t \<lparr>gs_base = b, gs_limit = l, gs_type = ty\<rparr> = Some (d, g')
      \<and> descriptor_base d = b \<and> descriptor_limit d = l \<and> descriptor_access d = ty"
    if "length t = 8" "l = 0 \<or> l = 0xFFFFFFFF \<or> l = 99" for t b l ty
    using to_native_decodes [OF that(1), of "\<lparr>gs_base = b, gs_limit = l, gs_type = ty\<rparr>"] that(2) by fastforce
  note e = enc [OF len(1), of 0 0 0] enc [OF len(2), of "0xFFFFFFFF" 0 "0x9A"] enc [OF len(3), of "0xFFFFFFFF" 0 "0x92"]
    enc [OF len(4), of "0xFFFFFFFF" 0 "0xFA"] enc [OF len(5), of "0xFFFFFFFF" 0 "0xF2"] enc [OF len(6), of 99 tss_addr "0x89"]
  show ?thesis
    using e unfolding gdt_init_def gdt_init_segments_def t gdt_flag_defs sizeof_tss_def
    by (auto simp: tss_init_def)
qed

theorem gdt_init_descriptors_witness:
  "\<exists>s'. gdt_init 0xC0105000 0xC0104000 0xC0108000 \<lparr>gdt_native = replicate 6 (replicate 8 0), gdt_segments = [],
      tss_global = zero_tss, GDT_PTR_limit = 0, GDT_PTR_base = 0\<rparr> = Some s'
     \<and> map descriptor_access (tl (gdt_native s')) = [0x9A, 0x92, 0xFA, 0xF2, 0x89] \<and> tss_esp0 (tss_global s') = 0xC0108000"
  using gdt_init_descriptors [of "\<lparr>gdt_native = replicate 6 (replicate 8 0), gdt_segments = [],
      tss_global = zero_tss, GDT_PTR_limit = 0, GDT_PTR_base = 0\<rparr>" "0xC0105000" "0xC0104000" "0xC0108000"] by auto

end
