(* ===== verification/Circ_Buffer.thy ===== *)
theory Circ_Buffer
  imports Prelude
begin

text \<open>
  The circular buffer of pointers, \<^verbatim>\<open>buffer.c\<close>. The locale \<open>bounded_fifo\<close> is the
  contract of a bounded queue; it is interpreted on the buffer.
\<close>

section \<open>The code\<close>

definition BUFFER_SIZE :: int where "BUFFER_SIZE = 3"

record circular_buffer =
  cb_buffer :: "addr list"
  cb_head :: int
  cb_end :: int
  cb_count :: int

text \<open>\<open>init\<close> of a buffer whose array has \<open>BUFFER_SIZE\<close> elements.\<close>

definition cb_init :: "circular_buffer \<Rightarrow> circular_buffer" where
  "cb_init cb = \<lparr>cb_buffer = fold (\<lambda>i b. b[i := NULL]) [0..<nat BUFFER_SIZE] (cb_buffer cb),
     cb_head = 0, cb_end = 0, cb_count = 0\<rparr>"

definition cb_full :: "circular_buffer \<Rightarrow> bool" where
  "cb_full cb \<longleftrightarrow> cb_count cb = BUFFER_SIZE"

definition cb_empty :: "circular_buffer \<Rightarrow> bool" where
  "cb_empty cb \<longleftrightarrow> cb_count cb = 0"

definition push_back :: "circular_buffer \<Rightarrow> addr \<Rightarrow> int \<times> circular_buffer" where
  "push_back cb v =
     (if cb_full cb then (0, cb)
      else (1, cb\<lparr>cb_buffer := (cb_buffer cb)[nat (cb_head cb) := v],
                  cb_head := (cb_head cb + 1) smod BUFFER_SIZE, cb_count := cb_count cb + 1\<rparr>))"

definition pop_front :: "circular_buffer \<Rightarrow> addr \<times> circular_buffer" where
  "pop_front cb =
     (if cb_empty cb then (NULL, cb)
      else (cb_buffer cb ! nat (cb_end cb),
            cb\<lparr>cb_end := (cb_end cb + 1) smod BUFFER_SIZE, cb_count := cb_count cb - 1\<rparr>))"

section \<open>The contract\<close>

text \<open>
  A sequence of operations with the answers they give. The abstract queue is a list: a push is refused with 0 when the
  list has \<open>capacity\<close> elements, and a pop of the empty list answers \<open>nothing\<close>.
\<close>

datatype 'v queue_op = Push 'v | Pop

datatype 'v queue_answer = Pushed int | Popped 'v

definition queue_step :: "('q \<Rightarrow> 'v \<Rightarrow> int \<times> 'q) \<Rightarrow> ('q \<Rightarrow> 'v \<times> 'q) \<Rightarrow> 'v queue_op \<Rightarrow> 'q \<Rightarrow> 'v queue_answer \<times> 'q" where
  "queue_step push pop op q = (case op of Push v \<Rightarrow> (case push q v of (r, q') \<Rightarrow> (Pushed r, q'))
     | Pop \<Rightarrow> (case pop q of (v, q') \<Rightarrow> (Popped v, q')))"

fun fifo_step :: "nat \<Rightarrow> 'v \<Rightarrow> 'v queue_op \<Rightarrow> 'v list \<Rightarrow> 'v queue_answer \<times> 'v list" where
  "fifo_step capacity nothing (Push v) vs = (if length vs < capacity then (Pushed 1, vs @ [v]) else (Pushed 0, vs))"
| "fifo_step capacity nothing Pop [] = (Popped nothing, [])"
| "fifo_step capacity nothing Pop (v # vs) = (Popped v, vs)"

fun run_steps :: "('o \<Rightarrow> 's \<Rightarrow> 'a \<times> 's) \<Rightarrow> 'o list \<Rightarrow> 's \<Rightarrow> 'a list \<times> 's" where
  "run_steps step [] s = ([], s)"
| "run_steps step (op # ops) s = (case step op s of (a, s1) \<Rightarrow> case run_steps step ops s1 of (as, s2) \<Rightarrow> (a # as, s2))"

lemma queue_step_simps [simp]:
  "queue_step push pop (Push v) q = (case push q v of (r, q') \<Rightarrow> (Pushed r, q'))"
  "queue_step push pop Pop q = (case pop q of (v, q') \<Rightarrow> (Popped v, q'))"
  by (simp_all add: queue_step_def)

locale bounded_fifo =
  fixes wf :: "'q \<Rightarrow> bool" and contents :: "'q \<Rightarrow> 'v list" and capacity :: nat
    and push :: "'q \<Rightarrow> 'v \<Rightarrow> int \<times> 'q" and pop :: "'q \<Rightarrow> 'v \<times> 'q" and nothing :: 'v
  assumes size_bound: "wf q \<Longrightarrow> length (contents q) \<le> capacity"
    and push_ok: "wf q \<Longrightarrow> length (contents q) < capacity \<Longrightarrow>
      \<exists>q'. push q v = (1, q') \<and> wf q' \<and> contents q' = contents q @ [v]"
    and push_refused: "wf q \<Longrightarrow> length (contents q) = capacity \<Longrightarrow> push q v = (0, q)"
    and pop_ok: "wf q \<Longrightarrow> contents q = v # vs \<Longrightarrow> \<exists>q'. pop q = (v, q') \<and> wf q' \<and> contents q' = vs"
    and pop_nothing: "wf q \<Longrightarrow> contents q = [] \<Longrightarrow> pop q = (nothing, q)"
begin

text \<open>Every sequence of operations is answered as by the abstract queue, and leaves what it leaves.\<close>

lemma step_refines:
  assumes "wf q"
  shows "\<exists>q'. queue_step push pop op q = (fst (fifo_step capacity nothing op (contents q)), q') \<and> wf q'
    \<and> contents q' = snd (fifo_step capacity nothing op (contents q))"
proof (cases op)
  case (Push v)
  show ?thesis
  proof (cases "length (contents q) < capacity")
    case True
    with push_ok [OF assms True, of v] Push show ?thesis by auto
  next
    case False
    then have "length (contents q) = capacity" using size_bound [OF assms] by simp
    with push_refused [OF assms this, of v] Push assms show ?thesis by simp
  qed
next
  case Pop
  then show ?thesis using pop_ok [OF assms] pop_nothing [OF assms] assms by (cases "contents q") fastforce+
qed

lemma run_refines:
  assumes "wf q"
  shows "\<exists>q'. run_steps (queue_step push pop) ops q = (fst (run_steps (fifo_step capacity nothing) ops (contents q)), q') \<and> wf q'
    \<and> contents q' = snd (run_steps (fifo_step capacity nothing) ops (contents q))"
  using assms
proof (induction ops arbitrary: q)
  case (Cons op ops)
  obtain q1 where q1: "queue_step push pop op q = (fst (fifo_step capacity nothing op (contents q)), q1)" "wf q1"
    "contents q1 = snd (fifo_step capacity nothing op (contents q))" using step_refines [OF Cons.prems, of op] by blast
  obtain q2 where "run_steps (queue_step push pop) ops q1 = (fst (run_steps (fifo_step capacity nothing) ops (contents q1)), q2)" "wf q2"
    "contents q2 = snd (run_steps (fifo_step capacity nothing) ops (contents q1))" using Cons.IH [OF q1(2)] by blast
  with q1 show ?case by (simp add: split_beta)
qed simp

end

section \<open>The buffer as a queue\<close>

definition cb_wf :: "circular_buffer \<Rightarrow> bool" where
  "cb_wf cb \<longleftrightarrow> length (cb_buffer cb) = 3 \<and> cb_head cb \<in> {0, 1, 2} \<and> cb_end cb \<in> {0, 1, 2}
     \<and> cb_count cb \<in> {0, 1, 2, 3} \<and> (cb_end cb + cb_count cb) mod 3 = cb_head cb"

definition cb_contents :: "circular_buffer \<Rightarrow> addr list" where
  "cb_contents cb = map (\<lambda>i. cb_buffer cb ! nat ((cb_end cb + int i) mod 3)) [0..<nat (cb_count cb)]"

lemma smod_3: "0 \<le> x \<Longrightarrow> x smod 3 = (x mod 3 :: int)"
  by (cases "x = 0") (simp_all add: signed_modulo_int_def)

lemmas cb_defs = BUFFER_SIZE_def cb_full_def cb_empty_def push_back_def pop_front_def

lemma cb_wf_cases:
  assumes "cb_wf cb"
  obtains a b c h e n where "cb = \<lparr>cb_buffer = [a, b, c], cb_head = h, cb_end = e, cb_count = n\<rparr>"
    "(e, n, h) \<in> {(0, 0, 0), (0, 1, 1), (0, 2, 2), (0, 3, 0), (1, 0, 1), (1, 1, 2), (1, 2, 0), (1, 3, 1),
       (2, 0, 2), (2, 1, 0), (2, 2, 1), (2, 3, 2)}"
proof -
  from assms have "length (cb_buffer cb) = 3" by (simp add: cb_wf_def)
  then obtain a b c where "cb_buffer cb = [a, b, c]" by (auto simp: length_Suc_conv numeral_3_eq_3)
  moreover have "(cb_end cb, cb_count cb, cb_head cb) \<in> {(0, 0, 0), (0, 1, 1), (0, 2, 2), (0, 3, 0), (1, 0, 1),
     (1, 1, 2), (1, 2, 0), (1, 3, 1), (2, 0, 2), (2, 1, 0), (2, 2, 1), (2, 3, 2)}"
    using assms unfolding cb_wf_def by (elim conjE insertE emptyE) simp_all
  ultimately show ?thesis
    by (intro that [of a b c "cb_head cb" "cb_end cb" "cb_count cb"]) (simp_all only:, simp add: circular_buffer.equality)
qed

lemma push_contents:
  assumes "cb_wf cb" "cb_count cb < 3"
  shows "\<exists>cb'. push_back cb v = (1, cb') \<and> cb_wf cb' \<and> cb_contents cb' = cb_contents cb @ [v]"
  using assms(2)
  by (cases rule: cb_wf_cases [OF assms(1)])
    (auto simp: cb_defs smod_3 cb_wf_def cb_contents_def upt_rec [of _ "Suc _"] upt_rec [of _ "numeral _"])

lemma pop_contents:
  assumes "cb_wf cb" "cb_contents cb = v # vs"
  shows "\<exists>cb'. pop_front cb = (v, cb') \<and> cb_wf cb' \<and> cb_contents cb' = vs"
  using assms(2)
  by (cases rule: cb_wf_cases [OF assms(1)])
    (auto simp: cb_defs smod_3 cb_wf_def cb_contents_def upt_rec [of _ "Suc _"] upt_rec [of _ "numeral _"])

interpretation cb: bounded_fifo cb_wf cb_contents 3 push_back pop_front NULL
proof unfold_locales
  show "cb_wf q \<Longrightarrow> length (cb_contents q) \<le> 3" for q by (auto simp: cb_wf_def cb_contents_def)
  show "cb_wf q \<Longrightarrow> length (cb_contents q) < 3 \<Longrightarrow>
      \<exists>q'. push_back q v = (1, q') \<and> cb_wf q' \<and> cb_contents q' = cb_contents q @ [v]" for q v
    by (rule push_contents) (auto simp: cb_wf_def cb_contents_def)
  show "cb_wf q \<Longrightarrow> length (cb_contents q) = 3 \<Longrightarrow> push_back q v = (0, q)" for q v
    by (auto simp: cb_wf_def cb_contents_def cb_defs)
  show "cb_wf q \<Longrightarrow> cb_contents q = [] \<Longrightarrow> pop_front q = (NULL, q)" for q
    by (auto simp: cb_wf_def cb_contents_def cb_defs)
qed (rule pop_contents)

lemma cb_init_wf:
  assumes "length (cb_buffer cb) = 3"
  shows "cb_wf (cb_init cb)" "cb_contents (cb_init cb) = []"
  using assms by (simp_all add: cb_init_def cb_wf_def cb_contents_def cb_defs eval_nat_numeral)

section \<open>Properties\<close>

text \<open>
  C29: the circular buffer is a bounded first-in first-out queue. After \<open>init\<close>, whatever the buffer held, every sequence of
  \<open>push_back\<close> and \<open>pop_front\<close> gives the answers of a queue of capacity three: a push is taken with 1 or, when three pointers
  are waiting, refused with 0 and without effect; a pop gives the oldest waiting pointer, or \<open>NULL\<close> when none waits;
  \<open>full\<close> and \<open>empty\<close> tell these two states, and no sequence leaves the well-formed states.
\<close>

theorem circular_buffer_fifo:
  assumes "length (cb_buffer cb) = 3"
  shows "\<exists>cb'. run_steps (queue_step push_back pop_front) ops (cb_init cb) = (fst (run_steps (fifo_step 3 NULL) ops []), cb')
     \<and> cb_wf cb' \<and> cb_contents cb' = snd (run_steps (fifo_step 3 NULL) ops [])
     \<and> (cb_full cb' \<longleftrightarrow> length (cb_contents cb') = 3) \<and> (cb_empty cb' \<longleftrightarrow> cb_contents cb' = [])"
proof -
  have "(cb_full q \<longleftrightarrow> length (cb_contents q) = 3) \<and> (cb_empty q \<longleftrightarrow> cb_contents q = [])" if "cb_wf q" for q
    using that by (auto simp: cb_wf_def cb_contents_def cb_defs)
  with cb.run_refines [OF cb_init_wf(1) [OF assms], of ops] cb_init_wf(2) [OF assms] show ?thesis by fastforce
qed

theorem circular_buffer_fifo_witness:
  "\<exists>cb'. run_steps (queue_step push_back pop_front) [Push 100, Push 200, Push 300, Push 400, Pop, Push 500, Pop, Pop, Pop, Pop]
      (cb_init \<lparr>cb_buffer = [7, 8, 9], cb_head = 1, cb_end = 2, cb_count = 2\<rparr>)
     = ([Pushed 1, Pushed 1, Pushed 1, Pushed 0, Popped 100, Pushed 1, Popped 200, Popped 300, Popped 500, Popped NULL], cb')"
  using circular_buffer_fifo [of "\<lparr>cb_buffer = [7, 8, 9], cb_head = 1, cb_end = 2, cb_count = 2\<rparr>"
      "[Push 100, Push 200, Push 300, Push 400, Pop, Push 500, Pop, Pop, Pop, Pop]"]
  by (auto simp del: queue_step_simps)

end
