(* ===== verification/Termio.thy ===== *)
theory Termio
  imports String_C
begin

text \<open>
  The text terminal, \<^verbatim>\<open>src/termio/termio.c\<close>. The frame buffer at 0xB8000 is an array of
  16-bit cells by index; the strings printed live in the byte memory.
\<close>

section \<open>The code\<close>

definition VGA_WIDTH :: nat where "VGA_WIDTH = 80"
definition VGA_HEIGHT :: nat where "VGA_HEIGHT = 25"

record terminal =
  video_memory :: "nat \<Rightarrow> u16"
  terminal_row :: u16
  terminal_column :: u16

text \<open>\<open>char\<close> is signed: the character is sign extended before it is combined.\<close>

definition terminal_make_char :: "u8 \<Rightarrow> u16 \<Rightarrow> u16" where
  "terminal_make_char c colour = push_bit 8 colour OR scast c"

definition terminal_print_char_x_y :: "u16 \<Rightarrow> u16 \<Rightarrow> u16 \<Rightarrow> terminal \<Rightarrow> terminal" where
  "terminal_print_char_x_y character x y t =
     t\<lparr>video_memory := (video_memory t)
        ((unat y * VGA_WIDTH + unat x) mod (VGA_HEIGHT * VGA_WIDTH) := character)\<rparr>"

definition terminal_init :: "terminal \<Rightarrow> terminal" where
  "terminal_init t =
     fold (\<lambda>y. fold (\<lambda>x. terminal_print_char_x_y (terminal_make_char 32 0) (word_of_nat x) (word_of_nat y))
                 [0..<VGA_WIDTH]) [0..<VGA_HEIGHT]
       (t\<lparr>terminal_row := 0, terminal_column := 0\<rparr>)"

definition terminal_put_char :: "u8 \<Rightarrow> u16 \<Rightarrow> terminal \<Rightarrow> terminal" where
  "terminal_put_char character colour t =
     (if character = 10
      then t\<lparr>terminal_row := (terminal_row t + 1) mod word_of_nat VGA_HEIGHT, terminal_column := 0\<rparr>
      else let t1 = (terminal_print_char_x_y (terminal_make_char character colour) (terminal_column t)
                       (terminal_row t) t)\<lparr>terminal_column := terminal_column t + 1\<rparr>
           in if terminal_column t1 = word_of_nat VGA_WIDTH
              then t1\<lparr>terminal_column := 0, terminal_row := (terminal_row t1 + 1) mod word_of_nat VGA_HEIGHT\<rparr>
              else t1)"

partial_function (option) terminal_print_string_loop ::
  "mem \<Rightarrow> addr \<Rightarrow> u16 \<Rightarrow> nat \<Rightarrow> terminal \<Rightarrow> terminal option" where
  "terminal_print_string_loop m str colour index t =
     (if m str \<noteq> 0
      then terminal_print_string_loop m (str + 1) colour ((index + 1) mod (VGA_WIDTH * VGA_HEIGHT))
             (t\<lparr>video_memory := (video_memory t)(index := terminal_make_char (m str) colour)\<rparr>)
      else Some t)"

definition terminal_print_string_x_y :: "mem \<Rightarrow> addr \<Rightarrow> u16 \<Rightarrow> u8 \<Rightarrow> u8 \<Rightarrow> terminal \<Rightarrow> terminal option" where
  "terminal_print_string_x_y m str colour x y t =
     terminal_print_string_loop m str colour (unat y * VGA_WIDTH + unat x) t"

partial_function (option) terminal_put_str :: "mem \<Rightarrow> addr \<Rightarrow> u16 \<Rightarrow> terminal \<Rightarrow> terminal option" where
  "terminal_put_str m str colour t =
     (if m str \<noteq> 0 then terminal_put_str m (str + 1) colour (terminal_put_char (m str) colour t) else Some t)"

definition print_str :: "mem \<Rightarrow> addr \<Rightarrow> terminal \<Rightarrow> terminal option" where
  "print_str m str t = terminal_put_str m str 15 t"

definition print_char :: "u8 \<Rightarrow> terminal \<Rightarrow> terminal" where
  "print_char chr t = terminal_put_char chr 15 t"

text \<open>
  \<open>print\<close> of a string literal, and of a number that \<open>itoa\<close> wrote into a local buffer: the buffer is no
  part of the memory the callers share.
\<close>

definition print_literal :: "string \<Rightarrow> terminal \<Rightarrow> terminal" where
  "print_literal s t = fold (\<lambda>c. terminal_put_char (of_char c) 15) s t"

definition print_itoa :: "u32 \<Rightarrow> terminal \<Rightarrow> terminal option" where
  "print_itoa n t = print_str (itoa (\<lambda>_. 0) (sint n) 0x1000) 0x1000 t"

section \<open>The cursor stays on the screen\<close>

definition term_inv :: "terminal \<Rightarrow> bool" where
  "term_inv t \<longleftrightarrow> unat (terminal_row t) < VGA_HEIGHT \<and> unat (terminal_column t) < VGA_WIDTH"

lemmas vga_defs = VGA_WIDTH_def VGA_HEIGHT_def

definition cursor :: "terminal \<Rightarrow> nat" where
  "cursor t = unat (terminal_row t) * VGA_WIDTH + unat (terminal_column t)"

lemma next_row: "(unat ((r + 1) mod word_of_nat VGA_HEIGHT :: u16)) = (unat r + 1) mod 25" if "unat (r :: u16) < 25"
  using that by (simp add: vga_defs unat_mod unat_word_ariths)

lemma put_char_newline:
  assumes "term_inv t"
  shows "term_inv (terminal_put_char 10 c t)" "video_memory (terminal_put_char 10 c t) = video_memory t"
    "cursor (terminal_put_char 10 c t) = ((unat (terminal_row t) + 1) mod 25) * 80"
  using assms next_row [of "terminal_row t"]
  by (simp_all add: term_inv_def terminal_put_char_def cursor_def vga_defs)

lemma put_char_printable:
  assumes "term_inv t" "ch \<noteq> 10"
  shows "term_inv (terminal_put_char ch c t)"
    "video_memory (terminal_put_char ch c t) = (video_memory t)(cursor t := terminal_make_char ch c)"
    "cursor (terminal_put_char ch c t) = (cursor t + 1) mod (VGA_HEIGHT * VGA_WIDTH)"
proof -
  have r: "unat (terminal_row t) < 25" and col: "unat (terminal_column t) < 80"
    using assms(1) by (simp_all add: term_inv_def vga_defs)
  have suc: "unat (terminal_column t + 1) = unat (terminal_column t) + 1"
    using col by (simp add: unat_word_ariths)
  have eq: "terminal_column t + 1 = 80 \<longleftrightarrow> unat (terminal_column t) = 79"
    unfolding word_unat_eq_iff suc by simp
  have small: "cursor t < 2000" using r col by (simp add: cursor_def vga_defs)
  show "video_memory (terminal_put_char ch c t) = (video_memory t)(cursor t := terminal_make_char ch c)"
    using assms(2) small
    by (simp add: terminal_put_char_def terminal_print_char_x_y_def Let_def cursor_def vga_defs)
  show "term_inv (terminal_put_char ch c t)"
    using assms(2) r col suc eq next_row [OF r]
    by (auto simp: terminal_put_char_def terminal_print_char_x_y_def Let_def term_inv_def vga_defs)
  show "cursor (terminal_put_char ch c t) = (cursor t + 1) mod (VGA_HEIGHT * VGA_WIDTH)"
  proof (cases "unat (terminal_column t) = 79")
    case True
    then show ?thesis
      using assms(2) r eq next_row [OF r]
      by (cases "unat (terminal_row t) = 24")
        (auto simp: terminal_put_char_def terminal_print_char_x_y_def Let_def cursor_def vga_defs)
  next
    case False
    then have "unat (terminal_row t) * 80 + (unat (terminal_column t) + 1) < 2000" using r col by linarith
    with False show ?thesis
      using assms(2) suc eq
      by (auto simp: terminal_put_char_def terminal_print_char_x_y_def Let_def cursor_def vga_defs)
  qed
qed

lemma put_char_inv: "term_inv t \<Longrightarrow> term_inv (terminal_put_char ch c t)"
  by (cases "ch = 10") (simp_all add: put_char_newline put_char_printable)

lemma put_str_fold:
  "cstring m str s \<Longrightarrow> terminal_put_str m str c t = Some (fold (\<lambda>ch. terminal_put_char ch c) s t)"
proof (induction s arbitrary: str t)
  case Nil
  then show ?case by (subst terminal_put_str.simps) (simp add: cstring_def bytes_def)
next
  case (Cons ch s)
  then show ?case by (subst terminal_put_str.simps) (simp add: cstring_Cons)
qed

lemma print_literal_string:
  "cstring m str (map of_char s) \<Longrightarrow> print_str m str t = Some (print_literal s t)"
  by (simp add: print_str_def print_literal_def put_str_fold fold_map comp_def)

lemma print_itoa_total: "\<exists>t'. print_itoa n t = Some t'"
proof -
  have "\<exists>s. cstring (itoa (\<lambda>_. 0) (sint n) 0x1000) 0x1000 s"
  proof (cases "c_int (sint n) = - (2 ^ 31)")
    case True
    have "c_int (sint n) = sint n" by (simp add: c_int_def sint_uint)
    then have n: "sint n = -2147483648" using True by simp
    have "cstring (itoa (\<lambda>_. 0) (-2147483648) 0x1000) 0x1000 [45, 69, 69, 69, 69, 69, 69, 69, 69, 69, 69]"
      by (simp add: itoa_def c_int_def itoa_count.simps itoa_write.simps digit_to_char_def cstring_Cons store8_apply)
    then show ?thesis unfolding n by blast
  next
    case False
    then show ?thesis using itoa_cstring by blast
  qed
  then show ?thesis using put_str_fold by (auto simp: print_itoa_def print_str_def)
qed

text \<open>The cells a run of characters goes to, one after the other and wrapping at the end.\<close>

lemma fold_put_char:
  assumes "term_inv t" "10 \<notin> set s" "length s \<le> 2000"
  shows "term_inv (fold (\<lambda>ch. terminal_put_char ch c) s t)
    \<and> cursor (fold (\<lambda>ch. terminal_put_char ch c) s t) = (cursor t + length s) mod 2000
    \<and> (\<forall>i<length s. video_memory (fold (\<lambda>ch. terminal_put_char ch c) s t) ((cursor t + i) mod 2000)
          = terminal_make_char (s ! i) c)
    \<and> (\<forall>k. (\<forall>i<length s. k \<noteq> (cursor t + i) mod 2000) \<longrightarrow>
          video_memory (fold (\<lambda>ch. terminal_put_char ch c) s t) k = video_memory t k)"
  using assms
proof (induction s rule: rev_induct)
  case Nil
  then have "cursor t < 2000" by (simp add: term_inv_def cursor_def vga_defs)
  with Nil show ?case by simp
next
  case (snoc ch s)
  let ?t = "fold (\<lambda>ch. terminal_put_char ch c) s t"
  from snoc have IH: "term_inv ?t" "cursor ?t = (cursor t + length s) mod 2000"
    "\<forall>i<length s. video_memory ?t ((cursor t + i) mod 2000) = terminal_make_char (s ! i) c"
    "\<forall>k. (\<forall>i<length s. k \<noteq> (cursor t + i) mod 2000) \<longrightarrow> video_memory ?t k = video_memory t k" by auto
  note step = put_char_printable [OF IH(1), of ch c]
  have ne: "(cursor t + i) mod 2000 \<noteq> (cursor t + length s) mod 2000" if "i < length s" for i
  proof
    assume "(cursor t + i) mod 2000 = (cursor t + length s) mod 2000"
    then have "2000 dvd (cursor t + length s) - (cursor t + i)" using that by (intro mod_eq_dvd_iff_nat [THEN iffD1]) auto
    then have "2000 dvd length s - i" by simp
    then show False using that snoc.prems(3) by (auto dest: dvd_imp_le)
  qed
  have idx: "(s @ [ch]) ! i = (if i < length s then s ! i else ch)" if "i < length (s @ [ch])" for i
    using that by (auto simp: nth_append)
  show ?case
    using step snoc.prems(2) IH ne by (auto simp: vga_defs nth_append less_Suc_eq mod_Suc_eq)
qed

section \<open>Properties\<close>

text \<open>
  C32: printing a terminated string of at most 2000 characters without line breaks puts its
  characters into consecutive cells from the cursor on, wrapping at the end of the screen,
  leaves every other cell alone, and keeps the cursor on the screen.
\<close>

theorem terminal_put_str_prints:
  assumes "cstring m str s" "10 \<notin> set s" "length s \<le> 2000" "term_inv t"
  shows "\<exists>t'. terminal_put_str m str c t = Some t' \<and> term_inv t' \<and> cursor t' = (cursor t + length s) mod 2000
    \<and> (\<forall>i<length s. video_memory t' ((cursor t + i) mod 2000) = terminal_make_char (s ! i) c)
    \<and> (\<forall>k. (\<forall>i<length s. k \<noteq> (cursor t + i) mod 2000) \<longrightarrow> video_memory t' k = video_memory t k)"
  using fold_put_char [OF assms(4,2,3), of c] put_str_fold [OF assms(1), of c t] by simp

theorem terminal_put_str_prints_witness:
  "\<exists>t'. terminal_put_str (write_bytes (\<lambda>_. 0) 0x1000 [72, 105]) 0x1000 15
      \<lparr>video_memory = \<lambda>_. 0, terminal_row = 24, terminal_column = 79\<rparr> = Some t'
    \<and> video_memory t' 1999 = 0x0F48 \<and> video_memory t' 0 = 0x0F69 \<and> cursor t' = 1"
proof -
  let ?m = "write_bytes (\<lambda>_. 0) 0x1000 [72, 105 :: u8]"
    and ?t = "\<lparr>video_memory = \<lambda>_. 0, terminal_row = 24, terminal_column = 79\<rparr>"
  have 1: "cstring ?m 0x1000 [72, 105]" by (simp add: cstring_Cons write_bytes_def in_region_def)
  have 2: "term_inv ?t" "cursor ?t = 1999" by (simp_all add: term_inv_def cursor_def vga_defs)
  from terminal_put_str_prints [OF 1 _ _ 2(1), of 15] obtain t' where t': "terminal_put_str ?m 0x1000 15 ?t = Some t'"
    "cursor t' = 2001 mod 2000"
    "\<forall>i<length [72, 105 :: u8]. video_memory t' ((1999 + i) mod 2000) = terminal_make_char ([72, 105] ! i) 15"
    by (auto simp: 2(2))
  have "video_memory t' 1999 = 0x0F48" "video_memory t' 0 = 0x0F69"
    using t'(3) [rule_format, of 0] t'(3) [rule_format, of 1] by (simp_all add: terminal_make_char_def)
  with t' show ?thesis by auto
qed

text \<open>
  A character with the top bit set loses its colour: it is sign extended before the
  colour is combined with it, so the attribute byte of the cell is 0xFF for every colour.
\<close>

theorem terminal_make_char_high:
  assumes "128 \<le> ch"
  shows "drop_bit 8 (terminal_make_char ch colour) = 0xFF"
proof -
  have high: "bit ch 7"
  proof (rule ccontr)
    assume "\<not> bit ch 7"
    then have "take_bit 7 ch = ch"
      by (intro bit_word_eqI) (auto simp: bit_take_bit_iff less_Suc_eq eval_nat_numeral)
    then have "take_bit 7 (unat ch) = unat ch" by (metis unsigned_take_bit_eq)
    then have "unat ch < 2 ^ 7" by (metis take_bit_nat_less_exp)
    then show False using assms by (simp add: word_le_nat_alt)
  qed
  have ff: "(0xFF :: u16) = mask 8" by (simp add: mask_eq_exp_minus_1)
  show ?thesis unfolding ff by (rule bit_word_eqI) (auto simp: terminal_make_char_def bit_simps high)
qed

theorem terminal_make_char_high_witness: "drop_bit 8 (terminal_make_char 0xE9 4) = 0xFF"
  using terminal_make_char_high [of "0xE9" 4] by simp

end
