(* ===== verification/Disk.thy ===== *)
theory Disk
  imports Kheap
begin

text \<open>
  The ATA disk driver, \<^verbatim>\<open>src/disk/disk.c\<close>, and byte streams over it,
  \<^verbatim>\<open>src/disk/disk_stream.c\<close>. The port instructions of \<^verbatim>\<open>src/io\<close> act on a device state \<open>'d\<close>
  and are a parameter of the model; the locale \<open>ata_device\<close> states what the ATA protocol
  promises about them, and the locale \<open>block_device\<close> what the stream layer needs of the
  driver. Buffers that are filled from their start are the list of the bytes written.
\<close>

section \<open>The code\<close>

record 'd port_io =
  outb :: "u16 \<Rightarrow> u8 \<Rightarrow> 'd \<Rightarrow> 'd"
  insb :: "u16 \<Rightarrow> 'd \<Rightarrow> u8 \<times> 'd"
  insw :: "u16 \<Rightarrow> 'd \<Rightarrow> u16 \<times> 'd"

definition BUSY_BIT :: u8 where "BUSY_BIT = 0x80"
definition DRQ_BIT :: u8 where "DRQ_BIT = 0x08"
definition DISK_TYPE_PHYSICAL :: u8 where "DISK_TYPE_PHYSICAL = 0"
definition DISK_SECTOR_SIZE :: int where "DISK_SECTOR_SIZE = 512"
definition ATA_MASTER :: u8 where "ATA_MASTER = 0xE0"
definition ATA_COMMAND_READ_SECTORS :: u8 where "ATA_COMMAND_READ_SECTORS = 0x20"
definition ATA_PRIMARY_IO_BASE_REGISTER :: u16 where "ATA_PRIMARY_IO_BASE_REGISTER = 0x1F0"
definition ATA_PRIMARY_CONTROL_BASE_REGISTER :: u16 where "ATA_PRIMARY_CONTROL_BASE_REGISTER = 0x3F6"

record ata_ports_t =
  data_register :: u16
  features_error_register :: u16
  sector_count_register :: u16
  sector_number_register :: u16
  cylinder_low_register :: u16
  cylinder_high_register :: u16
  drive_head_register :: u16
  status_command_register :: u16
  device_control_alternate_status_register :: u16
  drive_address_register :: u16

record disk_t =
  dk_type :: u8
  dk_sector_size :: int
  dk_master_slave_flag :: u8
  dk_id :: int
  dk_fs_operations :: addr
  dk_fs_private :: addr
  dk_ata_ports :: ata_ports_t

definition ATA_PORTS_PRIMARY :: ata_ports_t where
  "ATA_PORTS_PRIMARY =
     \<lparr>data_register = ATA_PRIMARY_IO_BASE_REGISTER,
      features_error_register = ATA_PRIMARY_IO_BASE_REGISTER + 1,
      sector_count_register = ATA_PRIMARY_IO_BASE_REGISTER + 2,
      sector_number_register = ATA_PRIMARY_IO_BASE_REGISTER + 3,
      cylinder_low_register = ATA_PRIMARY_IO_BASE_REGISTER + 4,
      cylinder_high_register = ATA_PRIMARY_IO_BASE_REGISTER + 5,
      drive_head_register = ATA_PRIMARY_IO_BASE_REGISTER + 6,
      status_command_register = ATA_PRIMARY_IO_BASE_REGISTER + 7,
      device_control_alternate_status_register = ATA_PRIMARY_CONTROL_BASE_REGISTER,
      drive_address_register = ATA_PRIMARY_CONTROL_BASE_REGISTER + 1\<rparr>"

text \<open>The two polling loops; \<open>None\<close> is a device that never becomes ready.\<close>

partial_function (option) ata_wait_data :: "'d port_io \<Rightarrow> ata_ports_t \<Rightarrow> 'd \<Rightarrow> 'd option" where
  "ata_wait_data io ports d =
     (case insb io (status_command_register ports) d of (status, d1) \<Rightarrow>
        if status AND BUSY_BIT \<noteq> 0 \<or> status AND DRQ_BIT = 0 then ata_wait_data io ports d1 else Some d1)"

partial_function (option) ata_wait_idle :: "'d port_io \<Rightarrow> ata_ports_t \<Rightarrow> 'd \<Rightarrow> 'd option" where
  "ata_wait_idle io ports d =
     (case insb io (device_control_alternate_status_register ports) d of (status, d1) \<Rightarrow>
        if status AND BUSY_BIT \<noteq> 0 then ata_wait_idle io ports d1 else Some d1)"

text \<open>One block of 256 words, stored in little-endian order.\<close>

fun ata_read_words :: "'d port_io \<Rightarrow> ata_ports_t \<Rightarrow> nat \<Rightarrow> 'd \<Rightarrow> u8 list \<times> 'd" where
  "ata_read_words io ports 0 d = ([], d)"
| "ata_read_words io ports (Suc i) d =
     (case insw io (data_register ports) d of (w, d1) \<Rightarrow>
        case ata_read_words io ports i d1 of (bs, d2) \<Rightarrow> (ucast w # ucast (drop_bit 8 w) # bs, d2))"

fun ata_read_blocks :: "'d port_io \<Rightarrow> ata_ports_t \<Rightarrow> nat \<Rightarrow> 'd \<Rightarrow> (u8 list \<times> 'd) option" where
  "ata_read_blocks io ports 0 d = Some ([], d)"
| "ata_read_blocks io ports (Suc n) d =
     (case ata_wait_data io ports d of None \<Rightarrow> None | Some d1 \<Rightarrow>
        case ata_read_words io ports 256 d1 of (bs, d2) \<Rightarrow>
          (case ata_read_blocks io ports n d2 of None \<Rightarrow> None | Some (bs', d3) \<Rightarrow> Some (bs @ bs', d3)))"

definition ata_command :: "'d port_io \<Rightarrow> disk_t \<Rightarrow> u32 \<Rightarrow> int \<Rightarrow> 'd \<Rightarrow> 'd" where
  "ata_command io disk lba n d0 =
     (let ports = dk_ata_ports disk;
          d1 = outb io (device_control_alternate_status_register ports) 0x2 d0;
          d2 = outb io (drive_head_register ports) (ucast (drop_bit 24 lba) OR dk_master_slave_flag disk) d1;
          d3 = outb io (sector_count_register ports) (word_of_int n) d2;
          d4 = outb io (sector_number_register ports) (ucast (lba AND 0xFF)) d3;
          d5 = outb io (cylinder_low_register ports) (ucast (drop_bit 8 lba)) d4;
          d6 = outb io (cylinder_high_register ports) (ucast (drop_bit 16 lba)) d5
      in outb io (status_command_register ports) ATA_COMMAND_READ_SECTORS d6)"

definition disk_read_sector :: "'d port_io \<Rightarrow> disk_t \<Rightarrow> u32 \<Rightarrow> int \<Rightarrow> 'd \<Rightarrow> (int \<times> u8 list \<times> 'd) option" where
  "disk_read_sector io disk lba n d =
     (case ata_read_blocks io (dk_ata_ports disk) (nat n) (ata_command io disk lba n d) of
        None \<Rightarrow> None
      | Some (bs, d1) \<Rightarrow>
          (case ata_wait_idle io (dk_ata_ports disk) d1 of None \<Rightarrow> None | Some d2 \<Rightarrow> Some (0, bs, d2)))"

text \<open>
  \<open>disks_addr\<close> is the link address of the array \<open>disks\<close>, which has one element. The
  probing of file systems at the end of \<open>disk_init\<close> is an argument: it reads the disk,
  may fill in \<open>fs_private\<close> and returns the operations of the file system that resolved.
\<close>

definition disk_init :: "(disk_t \<Rightarrow> 's \<Rightarrow> (addr \<times> disk_t \<times> 's) option) \<Rightarrow> 's \<Rightarrow> (disk_t \<times> 's) option" where
  "disk_init fs_probe_fs s =
     (let d0 = \<lparr>dk_type = DISK_TYPE_PHYSICAL, dk_sector_size = DISK_SECTOR_SIZE, dk_master_slave_flag = ATA_MASTER,
                dk_id = 0, dk_fs_operations = NULL, dk_fs_private = NULL, dk_ata_ports = ATA_PORTS_PRIMARY\<rparr>
      in case fs_probe_fs d0 s of None \<Rightarrow> None
         | Some (ops, d1, s1) \<Rightarrow> Some (d1\<lparr>dk_fs_operations := ops\<rparr>, s1))"

definition disk_get :: "addr \<Rightarrow> int \<Rightarrow> int \<times> addr" where
  "disk_get disks_addr disk_index = (if disk_index \<noteq> 0 then (- ENOMEDIUM, NULL) else (0, disks_addr))"

definition disk_read_block ::
  "'d port_io \<Rightarrow> addr \<Rightarrow> disk_t \<Rightarrow> addr \<Rightarrow> u32 \<Rightarrow> int \<Rightarrow> 'd \<Rightarrow> (int \<times> u8 list \<times> 'd) option" where
  "disk_read_block io disks_addr disk0 disk lba n d =
     (if disk \<noteq> disks_addr then Some (- ENOMEDIUM, [], d) else disk_read_sector io disk0 lba n d)"

record disk_stream =
  ds_ppos :: u32
  ds_disk :: addr

definition diskstream_seek :: "disk_stream \<Rightarrow> u32 \<Rightarrow> disk_stream" where
  "diskstream_seek stream ppos = stream\<lparr>ds_ppos := ppos\<rparr>"

text \<open>The allocation is not checked: when it fails, \<open>stream->disk = disk\<close> is a store through \<open>NULL\<close>, which is \<open>None\<close>.\<close>

definition diskstream_new :: "addr \<Rightarrow> kstate \<Rightarrow> int \<Rightarrow> (addr \<times> disk_stream \<times> kstate) option" where
  "diskstream_new disks_addr s disk_id =
     (case disk_get disks_addr disk_id of (res, disk) \<Rightarrow>
        if res \<noteq> 0 then Some (NULL, \<lparr>ds_ppos = 0, ds_disk = NULL\<rparr>, s)
        else case kzalloc s 8 of None \<Rightarrow> None
             | Some (p, s1) \<Rightarrow> if p = NULL then None else Some (p, \<lparr>ds_ppos = 0, ds_disk = disk\<rparr>, s1))"

text \<open>
  The loop of \<open>diskstream_read\<close>, over the block reader of the stream's disk. It returns
  the final value of \<open>ret\<close> (0, or the error it stops with), the bytes copied to the
  buffer, \<open>read_so_far\<close> and the device.
\<close>

partial_function (option) diskstream_loop ::
  "(u32 \<Rightarrow> 'd \<Rightarrow> (int \<times> u8 list \<times> 'd) option) \<Rightarrow> int \<Rightarrow> int \<Rightarrow> int \<Rightarrow> int \<Rightarrow> u8 list \<Rightarrow> 'd
     \<Rightarrow> (int \<times> u8 list \<times> int \<times> 'd) option" where
  "diskstream_loop rb len offset sector read_so_far buf d =
     (if read_so_far < len
      then case rb (word_of_int sector) d of None \<Rightarrow> None
           | Some (ret, sector_buffer, d1) \<Rightarrow>
               if ret \<noteq> 0 then Some (ret, buf, read_so_far, d1)
               else let remaining = len - read_so_far;
                        to_copy = (if remaining < DISK_SECTOR_SIZE - offset then remaining else DISK_SECTOR_SIZE - offset)
                    in diskstream_loop rb len 0 (sector + 1) (read_so_far + to_copy)
                         (buf @ take (nat to_copy) (drop (nat offset) sector_buffer)) d1
      else Some (0, buf, read_so_far, d))"

definition diskstream_read_with ::
  "(u32 \<Rightarrow> 'd \<Rightarrow> (int \<times> u8 list \<times> 'd) option) \<Rightarrow> disk_stream \<Rightarrow> int \<Rightarrow> 'd
     \<Rightarrow> (int \<times> u8 list \<times> disk_stream \<times> 'd) option" where
  "diskstream_read_with rb stream len d =
     (case diskstream_loop rb len (uint (ds_ppos stream mod 512)) (sint (ds_ppos stream div 512)) 0 [] d of
        None \<Rightarrow> None
      | Some (ret, buf, read_so_far, d1) \<Rightarrow>
          if ret \<noteq> 0 then Some (ret, buf, stream, d1)
          else Some (read_so_far, buf, stream\<lparr>ds_ppos := ds_ppos stream + word_of_int read_so_far\<rparr>, d1))"

definition diskstream_read ::
  "'d port_io \<Rightarrow> addr \<Rightarrow> disk_t \<Rightarrow> disk_stream \<Rightarrow> int \<Rightarrow> 'd \<Rightarrow> (int \<times> u8 list \<times> disk_stream \<times> 'd) option" where
  "diskstream_read io disks_addr disk0 stream len d =
     diskstream_read_with (\<lambda>lba. disk_read_block io disks_addr disk0 (ds_disk stream) lba 1) stream len d"

definition diskstream_close :: "kstate \<Rightarrow> addr \<Rightarrow> kstate option" where
  "diskstream_close s stream = kfree s stream"

section \<open>Streams over a block device\<close>

text \<open>The contract of a block reader: sectors of a fixed image, as often as one likes.\<close>

definition sector_bytes :: "(nat \<Rightarrow> u8) \<Rightarrow> nat \<Rightarrow> u8 list" where
  "sector_bytes img lba = map img [512 * lba..<512 * lba + 512]"

lemma length_sector_bytes [simp]: "length (sector_bytes img lba) = 512"
  by (simp add: sector_bytes_def)

lemma unat_word_of_int: "0 \<le> i \<Longrightarrow> i < 4294967296 \<Longrightarrow> unat (word_of_int i :: u32) = nat i"
  by (simp add: unat_eq_nat_uint uint_word_of_int)

lemma map_upt_append:
  assumes "a \<le> b" "b = b' \<or> (b = e \<and> e \<le> b')" "b \<le> e"
  shows "map f [a..<b] @ map f [b'..<e] = map f [a..<e :: nat]"
  using assms(2)
proof
  assume "b = b'"
  then show ?thesis using assms upt_add_eq_append [of a b "e - b"] by (simp flip: map_append)
qed simp

locale block_device =
  fixes rb :: "u32 \<Rightarrow> 'd \<Rightarrow> (int \<times> u8 list \<times> 'd) option" and img :: "nat \<Rightarrow> u8"
    and nsec :: nat and ready :: "'d \<Rightarrow> bool"
  assumes read_sector: "ready d \<Longrightarrow> unat lba < nsec \<Longrightarrow>
      \<exists>d'. rb lba d = Some (0, sector_bytes img (unat lba), d') \<and> ready d'"
    and nsec_bound: "nsec \<le> 2 ^ 23"
begin

lemma loop_reads:
  assumes "ready d" "0 \<le> off" "off < 512" "0 \<le> sec" "rd \<le> len"
    and "512 * sec + off + (len - rd) \<le> 512 * int nsec"
  shows "\<exists>d'. diskstream_loop rb len off sec rd buf d
      = Some (0, buf @ map img [nat (512 * sec + off)..<nat (512 * sec + off + (len - rd))], len, d') \<and> ready d'"
  using assms
proof (induction "nat (len - rd)" arbitrary: off sec rd buf d rule: less_induct)
  case less
  show ?case
  proof (cases "rd < len")
    case False
    then show ?thesis using less.prems by (subst diskstream_loop.simps) simp
  next
    case True
    have sec: "sec < int nsec" using less.prems True by linarith
    have usec: "unat (word_of_int sec :: u32) = nat sec"
      using less.prems(4) nsec_bound sec by (simp add: unat_word_of_int)
    have "nat sec < nsec" using sec less.prems(4) by linarith
    then obtain d1 where d1: "rb (word_of_int sec) d = Some (0, sector_bytes img (nat sec), d1)" "ready d1"
      using read_sector [OF less.prems(1), of "word_of_int sec"] unfolding usec by blast
    define c where "c = (if len - rd < 512 - off then len - rd else 512 - off)"
    have c: "0 < c" "rd + c \<le> len" "off + c \<le> 512" "c = 512 - off \<or> c = len - rd"
      using True less.prems by (auto simp: c_def)
    have take: "take (nat c) (drop (nat off) (sector_bytes img (nat sec)))
        = map img [nat (512 * sec + off)..<nat (512 * sec + off + c)]"
      using c less.prems(2,4)
      by (simp add: sector_bytes_def take_map drop_map nat_add_distrib nat_mult_distrib)
    have less_rd: "nat (len - (rd + c)) < nat (len - rd)" using c(1) True by linarith
    have bnd: "512 * (sec + 1) + 0 + (len - (rd + c)) \<le> 512 * int nsec"
      using c(4) less.prems(4,6) sec by auto
    obtain d2 where d2: "diskstream_loop rb len 0 (sec + 1) (rd + c) (buf @ take (nat c) (drop (nat off) (sector_bytes img (nat sec)))) d1
      = Some (0, (buf @ take (nat c) (drop (nat off) (sector_bytes img (nat sec))))
          @ map img [nat (512 * (sec + 1) + 0)..<nat (512 * (sec + 1) + 0 + (len - (rd + c)))], len, d2)" "ready d2"
      using less.hyps [OF less_rd d1(2) _ _ _ c(2) bnd,
          of "buf @ take (nat c) (drop (nat off) (sector_bytes img (nat sec)))"] less.prems(4) by auto
    have "map img [nat (512 * sec + off)..<nat (512 * sec + off + c)]
          @ map img [nat (512 * (sec + 1) + 0)..<nat (512 * (sec + 1) + 0 + (len - (rd + c)))]
        = map img [nat (512 * sec + off)..<nat (512 * sec + off + (len - rd))]"
      using c(4)
    proof
      assume "c = 512 - off"
      then have "512 * (sec + 1) + 0 = 512 * sec + off + c"
        "512 * (sec + 1) + 0 + (len - (rd + c)) = 512 * sec + off + (len - rd)" by simp_all
      then show ?thesis using c less.prems by (simp only: ) (rule map_upt_append, auto)
    qed (use c in simp)
    then show ?thesis
      using True d1(1) d2 unfolding diskstream_loop.simps [of rb len off sec rd buf d] DISK_SECTOR_SIZE_def Let_def
        c_def [symmetric]
      by (simp add: take)
  qed
qed

lemma stream_reads:
  assumes "ready d" "0 \<le> len" "int (unat (ds_ppos st)) + len \<le> 512 * int nsec"
  shows "\<exists>d'. diskstream_read_with rb st len d
      = Some (len, map img [unat (ds_ppos st)..<unat (ds_ppos st) + nat len],
          st\<lparr>ds_ppos := ds_ppos st + word_of_int len\<rparr>, d') \<and> ready d'"
proof -
  let ?p = "ds_ppos st"
  have u: "uint ?p = int (unat ?p)" by simp
  have d: "uint (?p div 512) = int (unat ?p div 512)" "uint (?p mod 512) = int (unat ?p mod 512)"
    by (simp_all only: uint_div uint_mod u zdiv_int zmod_int) simp_all
  moreover have "unat ?p div 512 < 2 ^ 31" using unat_lt_2p32 [of ?p] by (simp add: div_less_iff_less_mult)
  ultimately have sec: "sint (?p div 512) = int (unat ?p div 512)" and off: "uint (?p mod 512) = int (unat ?p mod 512)"
    using signed_take_bit_int_eq_self [of 31 "int (unat ?p div 512)"] by (simp_all only: sint_uint) simp_all
  have "512 * int (unat ?p div 512) + int (unat ?p mod 512) = int (unat ?p)"
    by (metis mult_div_mod_eq of_nat_add of_nat_mult of_nat_numeral)
  then obtain d' where "diskstream_loop rb len (int (unat ?p mod 512)) (int (unat ?p div 512)) 0 [] d
      = Some (0, [] @ map img [nat (int (unat ?p))..<nat (int (unat ?p) + len)], len, d')" "ready d'"
    using loop_reads [of d "int (unat ?p mod 512)" "int (unat ?p div 512)" 0 len "[]"] assms by auto
  then show ?thesis using assms(2) by (simp add: diskstream_read_with_def off sec nat_add_distrib)
qed

end

section \<open>The ATA protocol\<close>

text \<open>
  What a driver can observe of an ATA drive: the five task file registers that carry the address and the count, the words
  a read command still has to transfer, how many of them the data register offers now, which is 0 while DRQ is clear,
  and how many more status reads the drive may go on to be busy.
\<close>

record ata_view =
  av_head :: u8
  av_count :: u8
  av_number :: u8
  av_cyl_low :: u8
  av_cyl_high :: u8
  av_pending :: "u16 list"
  av_block :: nat
  av_busy :: nat

text \<open>Neither BSY nor DRQ is set and no command is under way: only then does a drive take register writes and commands.\<close>

definition av_idle :: "ata_view \<Rightarrow> bool" where
  "av_idle v \<longleftrightarrow> av_busy v = 0 \<and> av_block v = 0 \<and> av_pending v = []"

text \<open>The 28-bit LBA held by the registers, and the words of a run of sectors.\<close>

definition av_lba :: "ata_view \<Rightarrow> nat" where
  "av_lba v = unat (av_number v) + 256 * unat (av_cyl_low v) + 65536 * unat (av_cyl_high v)
     + 16777216 * (unat (av_head v) mod 16)"

definition sector_words :: "(nat \<Rightarrow> u8) \<Rightarrow> nat \<Rightarrow> nat \<Rightarrow> u16 list" where
  "sector_words img lba n =
     map (\<lambda>i. ucast (img (2 * i)) OR push_bit 8 (ucast (img (2 * i + 1)))) [256 * lba..<256 * (lba + n)]"

text \<open>
  The part of the ATA protocol that reading by programmed input uses. An idle drive takes the registers; the command, with
  LBA mode (bit 6) and the first drive (bit 4 clear) selected, makes the drive busy. A read of the status finds it busy or
  not yet ready, for a bounded number of times, or BSY clear, and then, while there are words to transfer, DRQ set with a
  sector of 256 words in the data register. Only then does the data register deliver them, one a read; behind the last
  one of a sector the drive may be busy again. A drive without words to transfer becomes idle.
\<close>

locale ata_device =
  fixes io :: "'d port_io" and ports :: ata_ports_t and img :: "nat \<Rightarrow> u8" and nsec :: nat
    and view :: "'d \<Rightarrow> ata_view"
  assumes w_control: "view (outb io (device_control_alternate_status_register ports) 2 d) = view d"
    and w_head: "av_idle (view d) \<Longrightarrow> view (outb io (drive_head_register ports) b d) = (view d)\<lparr>av_head := b\<rparr>"
    and w_count: "av_idle (view d) \<Longrightarrow> view (outb io (sector_count_register ports) b d) = (view d)\<lparr>av_count := b\<rparr>"
    and w_number: "av_idle (view d) \<Longrightarrow> view (outb io (sector_number_register ports) b d) = (view d)\<lparr>av_number := b\<rparr>"
    and w_cyl_low: "av_idle (view d) \<Longrightarrow> view (outb io (cylinder_low_register ports) b d) = (view d)\<lparr>av_cyl_low := b\<rparr>"
    and w_cyl_high: "av_idle (view d) \<Longrightarrow> view (outb io (cylinder_high_register ports) b d) = (view d)\<lparr>av_cyl_high := b\<rparr>"
    and w_read_sectors: "av_idle (view d) \<Longrightarrow> bit (av_head (view d)) 6 \<Longrightarrow> \<not> bit (av_head (view d)) 4 \<Longrightarrow>
      0 < unat (av_count (view d)) \<Longrightarrow> av_lba (view d) + unat (av_count (view d)) \<le> nsec \<Longrightarrow>
      d' = outb io (status_command_register ports) ATA_COMMAND_READ_SECTORS d \<Longrightarrow>
      av_pending (view d') = sector_words img (av_lba (view d)) (unat (av_count (view d))) \<and> av_block (view d') = 0"
    and r_status: "av_block (view d) = 0 \<Longrightarrow> insb io (status_command_register ports) d = (st, d') \<Longrightarrow>
      av_pending (view d') = av_pending (view d)
      \<and> ((st AND BUSY_BIT \<noteq> 0 \<or> st AND DRQ_BIT = 0) \<and> av_busy (view d') < av_busy (view d) \<and> av_block (view d') = 0
         \<or> st AND BUSY_BIT = 0 \<and> av_busy (view d') = 0
           \<and> (if av_pending (view d) = [] then av_block (view d') = 0 else st AND DRQ_BIT \<noteq> 0 \<and> av_block (view d') = 256))"
    and r_alternate: "av_block (view d) = 0 \<Longrightarrow> av_pending (view d) = [] \<Longrightarrow>
      insb io (device_control_alternate_status_register ports) d = (st, d') \<Longrightarrow>
      av_pending (view d') = [] \<and> av_block (view d') = 0
      \<and> (st AND BUSY_BIT \<noteq> 0 \<and> av_busy (view d') < av_busy (view d) \<or> st AND BUSY_BIT = 0 \<and> av_busy (view d') = 0)"
    and r_data: "av_busy (view d) = 0 \<Longrightarrow> av_block (view d) = Suc n \<Longrightarrow> av_pending (view d) = w # ws \<Longrightarrow>
      \<exists>d'. insw io (data_register ports) d = (w, d') \<and> av_pending (view d') = ws \<and> av_block (view d') = n
        \<and> (0 < n \<longrightarrow> av_busy (view d') = 0)"
begin

lemma wait_data:
  assumes "av_pending (view d) \<noteq> []" "av_block (view d) = 0"
  shows "\<exists>d'. ata_wait_data io ports d = Some d' \<and> av_pending (view d') = av_pending (view d)
    \<and> av_block (view d') = 256 \<and> av_busy (view d') = 0"
  using assms
proof (induction "av_busy (view d)" arbitrary: d rule: less_induct)
  case less
  obtain st d1 where e: "insb io (status_command_register ports) d = (st, d1)" by fastforce
  note r = r_status [OF less.prems(2) e]
  show ?case
  proof (cases "st AND BUSY_BIT \<noteq> 0 \<or> st AND DRQ_BIT = 0")
    case True
    then have d1: "av_busy (view d1) < av_busy (view d)" "av_block (view d1) = 0" using r less.prems by auto
    then show ?thesis
      using less.hyps [OF d1(1) _ d1(2)] r less.prems True e by (subst ata_wait_data.simps) auto
  next
    case False
    then show ?thesis using r less.prems(1) e by (subst ata_wait_data.simps) auto
  qed
qed

lemma wait_idle:
  assumes "av_pending (view d) = []" "av_block (view d) = 0"
  shows "\<exists>d'. ata_wait_idle io ports d = Some d' \<and> av_idle (view d')"
  using assms
proof (induction "av_busy (view d)" arbitrary: d rule: less_induct)
  case less
  obtain st d1 where e: "insb io (device_control_alternate_status_register ports) d = (st, d1)" by fastforce
  then show ?case
    using less.hyps [of d1] r_alternate [OF less.prems(2,1) e] by (subst ata_wait_idle.simps) (auto simp: av_idle_def)
qed

lemma read_words:
  assumes "av_pending (view d) = ws @ rest" "av_block (view d) = length ws" "ws \<noteq> [] \<longrightarrow> av_busy (view d) = 0"
  shows "\<exists>d'. ata_read_words io ports (length ws) d
      = (concat (map (\<lambda>w. [ucast w, ucast (drop_bit 8 w)]) ws), d') \<and> av_pending (view d') = rest \<and> av_block (view d') = 0"
  using assms
proof (induction ws arbitrary: d)
  case (Cons w ws)
  then obtain d1 where "insw io (data_register ports) d = (w, d1)" "av_pending (view d1) = ws @ rest" "av_block (view d1) = length ws"
    "ws \<noteq> [] \<longrightarrow> av_busy (view d1) = 0"
    using r_data [of d "length ws" w "ws @ rest"] by auto
  with Cons.IH [of d1] show ?case by auto
qed simp

lemma sector_words_bytes:
  "concat (map (\<lambda>w. [ucast w, ucast (drop_bit 8 w)]) (sector_words img lba n)) = map img [512 * lba..<512 * (lba + n)]"
proof -
  have w: "ucast (ucast (a :: u8) OR push_bit 8 (ucast (b :: u8)) :: u16) = a"
    "ucast (drop_bit 8 (ucast a OR push_bit 8 (ucast b) :: u16)) = b" for a b
    by (rule bit_word_eqI; auto simp: bit_simps not_bit_u8)+
  have "concat (map (\<lambda>i. [img (2 * i), img (2 * i + 1)]) [a..<a + k]) = map img [2 * a..<2 * a + 2 * k]" for a k
    by (induction k) (auto simp: upt_rec [of "2 * a + 2 * _"])
  from this [of "256 * lba" "256 * n"] show ?thesis
    by (simp add: sector_words_def w o_def distrib_left del: drop_bit_or)
qed

lemma sector_words_Suc: "sector_words img lba (Suc n) = sector_words img lba 1 @ sector_words img (Suc lba) n"
  using map_upt_append [of "256 * lba" "256 * (lba + 1)" "256 * Suc lba" "256 * (lba + Suc n)"
      "\<lambda>i. ucast (img (2 * i)) OR push_bit 8 (ucast (img (2 * i + 1))) :: u16"]
  by (simp add: sector_words_def)

lemma length_sector_words [simp]: "length (sector_words img lba n) = 256 * n"
  by (simp add: sector_words_def diff_mult_distrib2)

lemma read_blocks:
  assumes "av_pending (view d) = sector_words img lba n" "av_block (view d) = 0"
  shows "\<exists>d'. ata_read_blocks io ports n d = Some (map img [512 * lba..<512 * (lba + n)], d')
      \<and> av_pending (view d') = [] \<and> av_block (view d') = 0"
  using assms
proof (induction n arbitrary: d lba)
  case (Suc n)
  then have p: "av_pending (view d) = sector_words img lba 1 @ sector_words img (Suc lba) n"
    by (simp only: sector_words_Suc)
  then have "av_pending (view d) \<noteq> []" by (force simp flip: length_0_conv)
  then obtain d1 where d1: "ata_wait_data io ports d = Some d1" "av_pending (view d1) = av_pending (view d)"
    "av_block (view d1) = 256" "av_busy (view d1) = 0" using wait_data [of d] Suc.prems(2) by blast
  then obtain d2 where d2: "ata_read_words io ports 256 d1 = (map img [512 * lba..<512 * (lba + 1)], d2)"
      "av_pending (view d2) = sector_words img (Suc lba) n" "av_block (view d2) = 0"
    using read_words [of d1, unfolded d1(2), OF p] by (auto simp: sector_words_bytes)
  with Suc.IH [of d2 "Suc lba"] d1 show ?case
    using map_upt_append [of "512 * lba" "512 * (lba + 1)" "512 * (lba + 1)" "512 * (lba + Suc n)" img]
    by (auto simp: add.commute)
qed (simp add: sector_words_def)

lemma lba_registers:
  assumes "unat lba < 2 ^ 28"
  shows "unat (ucast (lba AND 0xFF) :: u8) + 256 * unat (ucast (drop_bit 8 lba) :: u8)
      + 65536 * unat (ucast (drop_bit 16 lba) :: u8) + 16777216 * (unat (ucast (drop_bit 24 lba) OR 0xE0 :: u8) mod 16)
      = unat (lba :: u32)"
proof -
  define x where "x = unat lba"
  have "take_bit 4 (ucast (drop_bit 24 lba) OR 0xE0 :: u8) = take_bit 4 (ucast (drop_bit 24 lba))"
    by (simp add: take_bit_or)
  then have "take_bit 4 (unat (ucast (drop_bit 24 lba) OR 0xE0 :: u8)) = take_bit 4 (unat (ucast (drop_bit 24 lba) :: u8))"
    by (simp only: flip: unsigned_take_bit_eq)
  then have "unat (ucast (drop_bit 24 lba) OR 0xE0 :: u8) mod 16 = x div 16777216 mod 16"
    by (simp add: x_def unsigned_ucast_eq unsigned_drop_bit_eq drop_bit_eq_div take_bit_eq_mod mod_mod_cancel
        unat_div)
  moreover have "lba AND 0xFF = take_bit 8 lba" by (simp add: take_bit_eq_mask mask_eq_exp_minus_1)
  then have "unat (ucast (lba AND 0xFF) :: u8) = x mod 256"
    by (simp add: x_def unsigned_ucast_eq unsigned_take_bit_eq take_bit_eq_mod unat_mod)
  moreover have "unat (ucast (drop_bit 8 lba) :: u8) = x div 256 mod 256"
    "unat (ucast (drop_bit 16 lba) :: u8) = x div 65536 mod 256"
    by (simp_all add: x_def unsigned_ucast_eq unsigned_drop_bit_eq drop_bit_eq_div take_bit_eq_mod unat_div)
  moreover have "x mod 256 + 256 * (x div 256 mod 256) + 65536 * (x div 65536 mod 256)
      + 16777216 * (x div 16777216 mod 16) = x"
  proof -
    define y z t where "y = x div 256" and "z = y div 256" and "t = z div 256"
    have d: "x div 256 = y" "x div 65536 = z" "x div 16777216 = t"
      by (simp_all add: y_def z_def t_def div_mult2_eq [symmetric])
    have "t < 16" using assms by (simp add: x_def flip: d(3))
    moreover have "x = 256 * y + x mod 256" "y = 256 * z + y mod 256" "z = 256 * t + z mod 256"
      by (simp_all only: y_def z_def t_def mult_div_mod_eq)
    ultimately show ?thesis unfolding d by (simp only: mod_less)
  qed
  ultimately show ?thesis by (simp only: x_def)
qed

lemma head_register:
  assumes "unat (lba :: u32) < 2 ^ 28"
  shows "bit (ucast (drop_bit 24 lba) OR ATA_MASTER :: u8) 6" "\<not> bit (ucast (drop_bit 24 lba) OR ATA_MASTER :: u8) 4"
proof -
  have "\<not> bit lba 28"
  proof
    assume "bit lba 28"
    then have "bit (unat lba) 28" by (simp add: bit_unsigned_iff)
    then show False using assms by (simp add: bit_iff_odd)
  qed
  then show "bit (ucast (drop_bit 24 lba) OR ATA_MASTER :: u8) 6" "\<not> bit (ucast (drop_bit 24 lba) OR ATA_MASTER :: u8) 4"
    by (simp_all add: ATA_MASTER_def bit_simps)
qed

lemma read_sector_ata:
  assumes "dk_ata_ports dk = ports" "dk_master_slave_flag dk = ATA_MASTER" "0 < n" "n < 256"
    and "unat lba < 2 ^ 28" "unat lba + nat n \<le> nsec" "av_idle (view d)"
  shows "\<exists>d'. disk_read_sector io dk lba n d = Some (0, map img [512 * unat lba..<512 * (unat lba + nat n)], d')
      \<and> av_idle (view d')"
proof -
  have n: "unat (word_of_int n :: u8) = nat n" using assms(3,4) by (simp add: unat_eq_nat_uint uint_word_of_int)
  define v where "v = (view d)\<lparr>av_head := ucast (drop_bit 24 lba) OR ATA_MASTER, av_count := word_of_int n,
    av_number := ucast (lba AND 0xFF), av_cyl_low := ucast (drop_bit 8 lba), av_cyl_high := ucast (drop_bit 16 lba)\<rparr>"
  have keep: "av_idle (x\<lparr>av_head := b\<rparr>) = av_idle x" "av_idle (x\<lparr>av_count := b\<rparr>) = av_idle x" "av_idle (x\<lparr>av_number := b\<rparr>) = av_idle x"
    "av_idle (x\<lparr>av_cyl_low := b\<rparr>) = av_idle x" "av_idle (x\<lparr>av_cyl_high := b\<rparr>) = av_idle x" for x b
    by (simp_all add: av_idle_def)
  define d6 where "d6 = outb io (cylinder_high_register ports) (ucast (drop_bit 16 lba)) (outb io (cylinder_low_register ports) (ucast (drop_bit 8 lba))
    (outb io (sector_number_register ports) (ucast (lba AND 0xFF)) (outb io (sector_count_register ports) (word_of_int n)
    (outb io (drive_head_register ports) (ucast (drop_bit 24 lba) OR ATA_MASTER) (outb io (device_control_alternate_status_register ports) 2 d)))))"
  have d6: "view d6 = v" "ata_command io dk lba n d = outb io (status_command_register ports) ATA_COMMAND_READ_SECTORS d6"
    using assms(1,2,7)
    by (simp_all add: ata_command_def Let_def v_def d6_def w_control w_head w_count w_number w_cyl_low w_cyl_high keep)
  have "av_idle v" "av_lba v = unat lba" "unat (av_count v) = nat n"
    using assms(7) n lba_registers [OF assms(5)] by (simp_all add: v_def av_idle_def av_lba_def ATA_MASTER_def)
  then have "av_pending (view (ata_command io dk lba n d)) = sector_words img (unat lba) (nat n)
      \<and> av_block (view (ata_command io dk lba n d)) = 0"
    using w_read_sectors [of d6, OF _ _ _ _ _ d6(2)] head_register [OF assms(5)] assms(3,6) d6(1) by (simp add: v_def)
  from read_blocks [OF this [THEN conjunct1] this [THEN conjunct2]] obtain d1 where "ata_read_blocks io ports (nat n) (ata_command io dk lba n d)
      = Some (map img [512 * unat lba..<512 * (unat lba + nat n)], d1)" "av_pending (view d1) = []" "av_block (view d1) = 0" by blast
  with wait_idle [of d1] show ?thesis by (auto simp: disk_read_sector_def assms(1))
qed

end

text \<open>The driver over such a drive is a block device; the stream lemmas apply to it.\<close>

locale ata_disk = ata_device +
  fixes dk :: disk_t and disks_addr :: addr
  assumes dk_ports: "dk_ata_ports dk = ports" and dk_master: "dk_master_slave_flag dk = ATA_MASTER"
    and dk_nsec: "nsec \<le> 2 ^ 23"

sublocale ata_disk \<subseteq> bd: block_device "\<lambda>lba. disk_read_block io disks_addr dk disks_addr lba 1" img nsec "\<lambda>d. av_idle (view d)"
proof
  fix d :: 'a and lba :: u32
  assume "av_idle (view d)" "unat lba < nsec"
  moreover from this have "unat lba < 2 ^ 28" using dk_nsec by simp
  ultimately show "\<exists>d'. disk_read_block io disks_addr dk disks_addr lba 1 d = Some (0, sector_bytes img (unat lba), d')
      \<and> av_idle (view d')"
    using read_sector_ata [OF dk_ports dk_master, of 1 lba d]
    by (auto simp: disk_read_block_def sector_bytes_def add.commute)
qed (rule dk_nsec)

context ata_disk
begin

lemmas bd_block_device = bd.block_device_axioms

end

section \<open>A simulated drive\<close>

text \<open>
  A drive that keeps exactly the observable state, reports itself busy for three status reads before each sector, ignores
  the registers while it is not idle and delivers 0xFFFF when no data are due: the contract of \<open>ata_device\<close> is satisfiable.
\<close>

definition sim_io :: "(nat \<Rightarrow> u8) \<Rightarrow> ata_view port_io" where
  "sim_io img =
     \<lparr>outb = (\<lambda>port v d.
        if \<not> av_idle d then d
        else if port = drive_head_register ATA_PORTS_PRIMARY then d\<lparr>av_head := v\<rparr>
        else if port = sector_count_register ATA_PORTS_PRIMARY then d\<lparr>av_count := v\<rparr>
        else if port = sector_number_register ATA_PORTS_PRIMARY then d\<lparr>av_number := v\<rparr>
        else if port = cylinder_low_register ATA_PORTS_PRIMARY then d\<lparr>av_cyl_low := v\<rparr>
        else if port = cylinder_high_register ATA_PORTS_PRIMARY then d\<lparr>av_cyl_high := v\<rparr>
        else if port = status_command_register ATA_PORTS_PRIMARY \<and> v = ATA_COMMAND_READ_SECTORS
        then d\<lparr>av_pending := sector_words img (av_lba d) (unat (av_count d)), av_busy := 3\<rparr>
        else d),
      insb = (\<lambda>port d.
        if 0 < av_busy d then (BUSY_BIT, d\<lparr>av_busy := av_busy d - 1\<rparr>)
        else if av_pending d = [] then (0x40, d)
        else (0x48, d\<lparr>av_block := if av_block d = 0 then 256 else av_block d\<rparr>)),
      insw = (\<lambda>port d. case av_pending d of [] \<Rightarrow> (0xFFFF, d) | w # ws \<Rightarrow>
        if 0 < av_busy d \<or> av_block d = 0 then (0xFFFF, d)
        else (w, d\<lparr>av_pending := ws, av_block := av_block d - 1, av_busy := if av_block d = 1 \<and> ws \<noteq> [] then 3 else 0\<rparr>))\<rparr>"

definition primary_disk :: disk_t where
  "primary_disk =
     \<lparr>dk_type = DISK_TYPE_PHYSICAL, dk_sector_size = DISK_SECTOR_SIZE, dk_master_slave_flag = ATA_MASTER, dk_id = 0,
      dk_fs_operations = NULL, dk_fs_private = NULL, dk_ata_ports = ATA_PORTS_PRIMARY\<rparr>"

lemmas ata_defs = ATA_PORTS_PRIMARY_def ATA_PRIMARY_IO_BASE_REGISTER_def ATA_PRIMARY_CONTROL_BASE_REGISTER_def
  ATA_COMMAND_READ_SECTORS_def BUSY_BIT_def DRQ_BIT_def

interpretation sim: ata_disk "sim_io img" ATA_PORTS_PRIMARY img 8192 "\<lambda>d. d" primary_disk "0x8000" for img
  by unfold_locales (auto simp: sim_io_def av_idle_def ata_defs primary_disk_def split: if_splits list.splits)

section \<open>What the driver does\<close>

text \<open>
  C18: on an idle drive that obeys the ATA protocol, reading \<open>n\<close> sectors (1 to 255) from a 28-bit LBA
  that the drive has returns 0 with exactly the bytes of those sectors in the buffer, in order; the polling loops end,
  no word is taken from the data register before the drive offers it, and the drive is idle again.
\<close>
theorem disk_read_sector_reads:
  assumes "ata_device io (dk_ata_ports dk) img nsec view" "dk_master_slave_flag dk = ATA_MASTER"
    and "0 < n" "n < 256" "unat lba < 2 ^ 28" "unat lba + nat n \<le> nsec" "av_idle (view d)"
  shows "\<exists>d'. disk_read_sector io dk lba n d = Some (0, map img [512 * unat lba..<512 * (unat lba + nat n)], d')
      \<and> av_idle (view d')"
  by (rule ata_device.read_sector_ata [OF assms(1) refl assms(2-)])

definition demo_img :: "nat \<Rightarrow> u8" where
  "demo_img i = word_of_nat (i mod 251)"

definition demo_view :: ata_view where
  "demo_view = \<lparr>av_head = 0, av_count = 0, av_number = 0, av_cyl_low = 0, av_cyl_high = 0, av_pending = [], av_block = 0,
     av_busy = 0\<rparr>"

lemma demo_view_idle: "av_idle demo_view"
  by (simp add: demo_view_def av_idle_def)

theorem disk_read_sector_reads_witness:
  "\<exists>d'. disk_read_sector (sim_io demo_img) primary_disk 3 2 demo_view = Some (0, map demo_img [1536..<2560], d')
      \<and> av_idle d'"
  using disk_read_sector_reads [of "sim_io demo_img" primary_disk demo_img 8192 "\<lambda>d. d" 2 3 demo_view]
    sim.ata_device_axioms [of demo_img] demo_view_idle by (simp add: primary_disk_def)

text \<open>
  C19: a stream over an idle disk reads, from any byte position and for any length that stays on the
  disk, exactly the bytes of the image from \<open>ppos\<close>, whatever the alignment to sectors; it
  returns the number of bytes asked for, advances \<open>ppos\<close> by it, and leaves the disk idle.
\<close>
theorem diskstream_read_content:
  assumes "ata_disk io ports img nsec view dk" "ds_disk st = disks_addr"
    and "0 \<le> len" "int (unat (ds_ppos st)) + len \<le> 512 * int nsec" "av_idle (view d)"
  shows "\<exists>d'. diskstream_read io disks_addr dk st len d
      = Some (len, map img [unat (ds_ppos st)..<unat (ds_ppos st) + nat len],
          st\<lparr>ds_ppos := ds_ppos st + word_of_int len\<rparr>, d') \<and> av_idle (view d')"
  using block_device.stream_reads [OF ata_disk.bd_block_device [OF assms(1), of disks_addr] assms(5,3,4)]
  by (auto simp: diskstream_read_def assms(2))

theorem diskstream_read_content_witness:
  "\<exists>d'. diskstream_read (sim_io demo_img) 0x8000 primary_disk \<lparr>ds_ppos = 500, ds_disk = 0x8000\<rparr> 600 demo_view
      = Some (600, map demo_img [500..<1100], \<lparr>ds_ppos = 1100, ds_disk = 0x8000\<rparr>, d')"
  using diskstream_read_content [of "sim_io demo_img" ATA_PORTS_PRIMARY demo_img 8192 "\<lambda>d. d" primary_disk
      "\<lparr>ds_ppos = 500, ds_disk = 0x8000\<rparr>" "0x8000" 600 demo_view] sim.ata_disk_axioms demo_view_idle
  by auto

end
