(* ===== verification/Fat16.thy ===== *)
theory Fat16
  imports Disk
begin

text \<open>
  The FAT16 driver, \<^verbatim>\<open>src/fs/fat16.c\<close> and \<^verbatim>\<open>src/fs/fat16.h\<close>. The structures of the
  driver are records; an allocated structure is its record next to the pointer that
  \<open>kzalloc\<close> gave it. The stream \<open>private->dev\<close> and the drive are the pair \<open>'d fat_dev\<close>
  that every read threads; \<open>rb\<close> is the block reader of the stream's disk. A buffer that
  a read fills is the list of the bytes written. \<open>None\<close> is a loop that never ends or a
  division by zero, which raises an exception.
\<close>

section \<open>Data\<close>

definition FAT16_SIGNATURE :: u8 where "FAT16_SIGNATURE = 0x29"
definition FAT16_SYSTEM_ID :: "u8 list" where "FAT16_SYSTEM_ID = [0x46, 0x41, 0x54, 0x31, 0x36, 0x20, 0x20, 0x20]"
definition FAT16_DIRECTORY_FLAG :: u8 where "FAT16_DIRECTORY_FLAG = 0"
definition FAT16_FILE_FLAG :: u8 where "FAT16_FILE_FLAG = 1"
definition FAT16_ROOT_DIRECTORY_FLAG :: u8 where "FAT16_ROOT_DIRECTORY_FLAG = 255"
definition FAT16_FILE_VOLUME_LABEL :: u8 where "FAT16_FILE_VOLUME_LABEL = 0x8"
definition FAT16_FILE_SUBDIRECTORY :: u8 where "FAT16_FILE_SUBDIRECTORY = 0x10"
definition FAT16_FILE_LFN :: u8 where "FAT16_FILE_LFN = 0x0F"
definition FAT16_CLUSTER_RESERVED :: u16 where "FAT16_CLUSTER_RESERVED = 0xFFF6"
definition FAT16_CLUSTER_BAD_OR_RESERVED :: u16 where "FAT16_CLUSTER_BAD_OR_RESERVED = 0xFFF7"
definition FAT16_CLUSTER_CHAIN_END_BEGIN :: u16 where "FAT16_CLUSTER_CHAIN_END_BEGIN = 0xFFF8"

record fat_header_t =
  fh_jump_nop :: "u8 list"
  fh_oem_identifier :: "u8 list"
  fh_bytes_per_sector :: u16
  fh_sectors_per_cluster :: u8
  fh_reserved_sectors :: u16
  fh_fat_copies :: u8
  fh_root_dir_entries :: u16
  fh_total_sectors :: u16
  fh_media_type :: u8
  fh_sectors_per_fat :: u16
  fh_sectors_per_track :: u16
  fh_number_of_heads :: u16
  fh_hidden_sectors :: u32
  fh_sectors_big :: u32
  fh_drive_number :: u8
  fh_win_nt_bit :: u8
  fh_signature :: u8
  fh_volume_id :: u32
  fh_volume_id_string :: "u8 list"
  fh_system_id_string :: "u8 list"

record fat_entry_t =
  fe_filename :: "u8 list"
  fe_extension :: "u8 list"
  fe_attributes :: u8
  fe_reserved_win_nt :: u8
  fe_creation_time_tenths_of_sec :: u8
  fe_creation_time :: u16
  fe_creation_date :: u16
  fe_last_access :: u16
  fe_high16_bits_first_cluster :: u16
  fe_last_mod_time :: u16
  fe_last_mod_date :: u16
  fe_low16_bits_first_cluster :: u16
  fe_size_bytes :: u32

record fat_item_t =
  fi_type :: u8
  fi_entry :: fat_entry_t
  fi_first_sector :: u32
  fi_parent_dir_first_sector :: u32
  fi_parent_dir_position :: u32

record fat_descriptor_t =
  fd_item :: fat_item_t
  fd_eof :: bool
  fd_pos :: u32
  fd_relative_pos :: u32
  fd_current_cluster_first_sector :: u32
  fd_disk :: addr
  fd_error :: int

record fat_private_data_t =
  fp_header :: fat_header_t
  fp_bytes_per_cluster :: u32
  fp_data_sector :: u32
  fp_root_directory :: fat_item_t
  fp_dev :: addr

record fat_cluster_chain =
  fc_first :: u16
  fc_previous :: u16
  fc_current :: u16

type_synonym 'd fat_dev = "disk_stream \<times> 'd"
type_synonym 'd block_reader = "u32 \<Rightarrow> 'd \<Rightarrow> (int \<times> u8 list \<times> 'd) option"

text \<open>The packed structures as they lie on the disk.\<close>

definition le16 :: "u8 list \<Rightarrow> nat \<Rightarrow> u16" where
  "le16 bs i = ucast (bs ! i) OR push_bit 8 (ucast (bs ! (i + 1)))"

definition le32 :: "u8 list \<Rightarrow> nat \<Rightarrow> u32" where
  "le32 bs i = ucast (bs ! i) OR push_bit 8 (ucast (bs ! (i + 1)))
     OR push_bit 16 (ucast (bs ! (i + 2))) OR push_bit 24 (ucast (bs ! (i + 3)))"

definition sizeof_fat_header :: nat where "sizeof_fat_header = 62"
definition sizeof_fat_entry :: nat where "sizeof_fat_entry = 32"
definition sizeof_fat_item :: u32 where "sizeof_fat_item = 48"
definition sizeof_fat_descriptor :: u32 where "sizeof_fat_descriptor = 72"
definition sizeof_fat_private :: u32 where "sizeof_fat_private = 124"

definition fat_header_of :: "u8 list \<Rightarrow> fat_header_t" where
  "fat_header_of bs =
     \<lparr>fh_jump_nop = take 3 bs, fh_oem_identifier = take 8 (drop 3 bs),
      fh_bytes_per_sector = le16 bs 11, fh_sectors_per_cluster = bs ! 13, fh_reserved_sectors = le16 bs 14,
      fh_fat_copies = bs ! 16, fh_root_dir_entries = le16 bs 17, fh_total_sectors = le16 bs 19,
      fh_media_type = bs ! 21, fh_sectors_per_fat = le16 bs 22, fh_sectors_per_track = le16 bs 24,
      fh_number_of_heads = le16 bs 26, fh_hidden_sectors = le32 bs 28, fh_sectors_big = le32 bs 32,
      fh_drive_number = bs ! 36, fh_win_nt_bit = bs ! 37, fh_signature = bs ! 38, fh_volume_id = le32 bs 39,
      fh_volume_id_string = take 11 (drop 43 bs), fh_system_id_string = take 8 (drop 54 bs)\<rparr>"

definition fat_entry_of :: "u8 list \<Rightarrow> fat_entry_t" where
  "fat_entry_of bs =
     \<lparr>fe_filename = take 8 bs, fe_extension = take 3 (drop 8 bs), fe_attributes = bs ! 11,
      fe_reserved_win_nt = bs ! 12, fe_creation_time_tenths_of_sec = bs ! 13, fe_creation_time = le16 bs 14,
      fe_creation_date = le16 bs 16, fe_last_access = le16 bs 18, fe_high16_bits_first_cluster = le16 bs 20,
      fe_last_mod_time = le16 bs 22, fe_last_mod_date = le16 bs 24,
      fe_low16_bits_first_cluster = le16 bs 26, fe_size_bytes = le32 bs 28\<rparr>"

text \<open>A structure on the stack whose first bytes are overwritten by a read.\<close>

definition overwrite :: "u8 list \<Rightarrow> u8 list \<Rightarrow> u8 list" where
  "overwrite old bs = bs @ drop (length bs) old"

text \<open>\<open>strncmp\<close> of two arrays on the stack, laid out in a memory of their own.\<close>

definition strncmp_arrays :: "u8 list \<Rightarrow> u8 list \<Rightarrow> u32 \<Rightarrow> int option" where
  "strncmp_arrays xs ys n = strncmp (write_bytes (write_bytes (\<lambda>_. 0) 0 xs) 0x100 ys) 0 0x100 n"

section \<open>Clusters and the file allocation table\<close>

text \<open>A seek and the read that follows it.\<close>

definition dev_read_at :: "'d block_reader \<Rightarrow> u32 \<Rightarrow> int \<Rightarrow> 'd fat_dev \<Rightarrow> (int \<times> u8 list \<times> 'd fat_dev) option" where
  "dev_read_at rb ppos n dv =
     (case diskstream_read_with rb (diskstream_seek (fst dv) ppos) n (snd dv) of
        None \<Rightarrow> None
      | Some (r, bs, st, d) \<Rightarrow> Some (r, bs, (st, d)))"

definition fat16_cluster_number_to_data_sector :: "fat_private_data_t \<Rightarrow> u16 \<Rightarrow> u32" where
  "fat16_cluster_number_to_data_sector priv cluster =
     (if cluster < 2 then 0
      else fp_data_sector priv + (ucast cluster - 2) * ucast (fh_sectors_per_cluster (fp_header priv)))"

definition fat16_cluster_number_to_data_address :: "fat_private_data_t \<Rightarrow> u16 \<Rightarrow> u32" where
  "fat16_cluster_number_to_data_address priv cluster =
     fat16_cluster_number_to_data_sector priv cluster * ucast (fh_bytes_per_sector (fp_header priv))"

definition fat16_sector_to_cluster_number :: "fat_private_data_t \<Rightarrow> u32 \<Rightarrow> u16 option" where
  "fat16_sector_to_cluster_number priv sector =
     (if fh_sectors_per_cluster (fp_header priv) = 0 then None
      else Some (ucast (2 + (sector - fp_data_sector priv) div ucast (fh_sectors_per_cluster (fp_header priv)))))"

text \<open>
  \<open>junk\<close> is the indeterminate content of the uninitialised local \<open>next_cluster\<close>, which is
  what the function returns when the read fails.
\<close>

definition fat16_read_fat :: "'d block_reader \<Rightarrow> u8 list \<Rightarrow> fat_private_data_t \<Rightarrow> u16 \<Rightarrow> 'd fat_dev \<Rightarrow> (u16 \<times> 'd fat_dev) option" where
  "fat16_read_fat rb junk priv cluster dv =
     (if FAT16_CLUSTER_CHAIN_END_BEGIN \<le> cluster then Some (FAT16_CLUSTER_CHAIN_END_BEGIN, dv)
      else let cluster_fat_byte_offset = ucast cluster * 2 :: u32;
               cluster_address = ucast (fh_reserved_sectors (fp_header priv)) * ucast (fh_bytes_per_sector (fp_header priv))
                 + cluster_fat_byte_offset
           in case dev_read_at rb cluster_address 2 dv of None \<Rightarrow> None
              | Some (r, bs, dv1) \<Rightarrow> Some (le16 (overwrite junk bs) 0, dv1))"

definition fat16_write_fat :: "fat_private_data_t \<Rightarrow> u16 \<Rightarrow> u16 \<Rightarrow> int" where
  "fat16_write_fat priv cluster v = 0"

definition fat16_get_free_cluster :: "fat_private_data_t \<Rightarrow> u16" where
  "fat16_get_free_cluster priv = FAT16_CLUSTER_CHAIN_END_BEGIN"

fun fat16_follow_loop ::
  "'d block_reader \<Rightarrow> u8 list \<Rightarrow> fat_private_data_t \<Rightarrow> nat \<Rightarrow> u16 \<Rightarrow> 'd fat_dev \<Rightarrow> (u16 \<times> 'd fat_dev) option" where
  "fat16_follow_loop rb junk priv 0 next_cluster dv = Some (next_cluster, dv)"
| "fat16_follow_loop rb junk priv (Suc n) next_cluster dv =
     (if next_cluster < FAT16_CLUSTER_CHAIN_END_BEGIN
      then case fat16_read_fat rb junk priv next_cluster dv of None \<Rightarrow> None
           | Some (nc, dv1) \<Rightarrow>
               if nc = 0 \<or> nc = FAT16_CLUSTER_RESERVED \<or> nc = FAT16_CLUSTER_BAD_OR_RESERVED then Some (nc, dv1)
               else fat16_follow_loop rb junk priv n nc dv1
      else Some (next_cluster, dv))"

definition fat16_follow_cluster_chain ::
  "'d block_reader \<Rightarrow> u8 list \<Rightarrow> fat_private_data_t \<Rightarrow> u16 \<Rightarrow> u32 \<Rightarrow> 'd fat_dev \<Rightarrow> (u16 \<times> 'd fat_dev) option" where
  "fat16_follow_cluster_chain rb junk priv cluster steps dv = fat16_follow_loop rb junk priv (unat steps) cluster dv"

definition fat16_cluster_chain_init :: "u16 \<Rightarrow> fat_cluster_chain" where
  "fat16_cluster_chain_init b = \<lparr>fc_first = b, fc_previous = b, fc_current = b\<rparr>"

definition fat16_cluster_chain_next ::
  "'d block_reader \<Rightarrow> u8 list \<Rightarrow> fat_private_data_t \<Rightarrow> fat_cluster_chain \<Rightarrow> 'd fat_dev \<Rightarrow> (fat_cluster_chain \<times> 'd fat_dev) option" where
  "fat16_cluster_chain_next rb junk priv chain dv =
     (if fc_current chain = FAT16_CLUSTER_BAD_OR_RESERVED \<or> fc_current chain = FAT16_CLUSTER_RESERVED
         \<or> FAT16_CLUSTER_CHAIN_END_BEGIN \<le> fc_current chain
      then Some (chain, dv)
      else case fat16_read_fat rb junk priv (fc_current chain) dv of None \<Rightarrow> None
           | Some (c, dv1) \<Rightarrow> Some (chain\<lparr>fc_previous := fc_current chain, fc_current := c\<rparr>, dv1))"

definition fat16_cluster_chain_is_over :: "fat_cluster_chain \<Rightarrow> bool" where
  "fat16_cluster_chain_is_over chain \<longleftrightarrow> fc_current chain = FAT16_CLUSTER_CHAIN_END_BEGIN"

definition fat16_cluster_chain_ok :: "fat_cluster_chain \<Rightarrow> bool" where
  "fat16_cluster_chain_ok chain \<longleftrightarrow>
     fc_current chain \<noteq> FAT16_CLUSTER_BAD_OR_RESERVED \<and> fc_current chain \<noteq> FAT16_CLUSTER_RESERVED"

definition fat16_cluster_allocate_next :: "fat_private_data_t \<Rightarrow> fat_cluster_chain \<Rightarrow> int \<times> fat_cluster_chain" where
  "fat16_cluster_allocate_next priv chain =
     (if \<not> fat16_cluster_chain_is_over chain then (- EINVAL, chain)
      else let free_cluster = fat16_get_free_cluster priv
           in if FAT16_CLUSTER_CHAIN_END_BEGIN \<le> free_cluster then (- ENOSPC, chain)
              else if fat16_write_fat priv free_cluster FAT16_CLUSTER_CHAIN_END_BEGIN \<noteq> 0 then (- EIO, chain)
              else if fat16_write_fat priv (fc_previous chain) free_cluster \<noteq> 0 then (- EIO, chain)
              else (0, chain\<lparr>fc_current := free_cluster\<rparr>))"

section \<open>Cursors\<close>

definition fat16_item_is_root_dir :: "fat_private_data_t \<Rightarrow> fat_item_t \<Rightarrow> bool" where
  "fat16_item_is_root_dir priv dir \<longleftrightarrow>
     fi_type dir = FAT16_ROOT_DIRECTORY_FLAG \<and> fi_first_sector dir = fi_first_sector (fp_root_directory priv)"

definition fat16_adjust_cursors_root_dir :: "fat_private_data_t \<Rightarrow> fat_descriptor_t \<Rightarrow> int \<times> fat_descriptor_t" where
  "fat16_adjust_cursors_root_dir priv desc =
     (let desc1 = desc\<lparr>fd_relative_pos := fd_pos desc\<rparr>
      in if fp_data_sector priv \<le> fd_pos desc1
         then if fp_data_sector priv < fd_pos desc1
              then (- EIO, desc1\<lparr>fd_eof := True, fd_error := - EIO\<rparr>)
              else (0, desc1\<lparr>fd_eof := True\<rparr>)
         else (0, desc1))"

definition fat16_adjust_cursors_non_root ::
  "'d block_reader \<Rightarrow> u8 list \<Rightarrow> fat_private_data_t \<Rightarrow> fat_descriptor_t \<Rightarrow> 'd fat_dev
     \<Rightarrow> (int \<times> fat_descriptor_t \<times> 'd fat_dev) option" where
  "fat16_adjust_cursors_non_root rb junk priv desc dv =
     (if fe_low16_bits_first_cluster (fi_entry (fd_item desc)) = 0 then Some (0, desc\<lparr>fd_eof := True\<rparr>, dv)
      else if fp_bytes_per_cluster priv = 0 then None
      else let cluster_count = fd_pos desc div fp_bytes_per_cluster priv
           in case fat16_sector_to_cluster_number priv (fi_first_sector (fd_item desc)) of None \<Rightarrow> None
              | Some first_cluster \<Rightarrow>
          (case fat16_follow_cluster_chain rb junk priv first_cluster cluster_count dv of None \<Rightarrow> None
           | Some (current_cluster, dv1) \<Rightarrow>
               let desc1 = desc\<lparr>fd_relative_pos := fd_pos desc mod fp_bytes_per_cluster priv\<rparr>
               in if current_cluster = FAT16_CLUSTER_RESERVED \<or> current_cluster = FAT16_CLUSTER_BAD_OR_RESERVED
                  then Some (- EIO, desc1\<lparr>fd_error := - EIO\<rparr>, dv1)
                  else if current_cluster < FAT16_CLUSTER_CHAIN_END_BEGIN
                  then Some (0, desc1\<lparr>fd_current_cluster_first_sector :=
                                   fat16_cluster_number_to_data_sector priv current_cluster\<rparr>, dv1)
                  else Some (0, desc1\<lparr>fd_eof := True\<rparr>, dv1)))"

definition fat16_adjust_cursors ::
  "'d block_reader \<Rightarrow> u8 list \<Rightarrow> fat_private_data_t \<Rightarrow> fat_descriptor_t \<Rightarrow> int \<Rightarrow> 'd fat_dev
     \<Rightarrow> (int \<times> fat_descriptor_t \<times> 'd fat_dev) option" where
  "fat16_adjust_cursors rb junk priv desc offset dv =
     (let desc1 = desc\<lparr>fd_pos := fd_pos desc + word_of_int offset\<rparr>
      in if fat16_item_is_root_dir priv (fd_item desc1)
         then case fat16_adjust_cursors_root_dir priv desc1 of (r, desc2) \<Rightarrow> Some (r, desc2, dv)
         else fat16_adjust_cursors_non_root rb junk priv desc1 dv)"

definition fat16_descriptor_to_absolute_address :: "fat_private_data_t \<Rightarrow> fat_descriptor_t \<Rightarrow> u32" where
  "fat16_descriptor_to_absolute_address priv desc =
     fd_current_cluster_first_sector desc * ucast (fh_bytes_per_sector (fp_header priv)) + fd_relative_pos desc"

definition fat16_reset_cursors :: "fat_descriptor_t \<Rightarrow> fat_descriptor_t" where
  "fat16_reset_cursors desc =
     desc\<lparr>fd_pos := 0, fd_relative_pos := 0,
          fd_current_cluster_first_sector := fi_first_sector (fd_item desc), fd_eof := False\<rparr>"

section \<open>Reading\<close>

text \<open>
  \<open>__fat16_read\<close>, called \<open>fat16_read_impl\<close> here: the loop returns the \<open>size_t\<close> result, the bytes
  written through \<open>ptr\<close> and the descriptor.
\<close>

partial_function (option) fat16_read_loop ::
  "'d block_reader \<Rightarrow> u8 list \<Rightarrow> fat_private_data_t \<Rightarrow> u32 \<Rightarrow> u32 \<Rightarrow> u8 list \<Rightarrow> fat_descriptor_t \<Rightarrow> 'd fat_dev
     \<Rightarrow> (u32 \<times> u8 list \<times> fat_descriptor_t \<times> 'd fat_dev) option" where
  "fat16_read_loop rb junk priv len rd buf desc dv =
     (if rd < len \<and> \<not> fd_eof desc
      then let to_read_sequentially = min (len - rd) (fp_bytes_per_cluster priv - fd_relative_pos desc)
           in case dev_read_at rb (fat16_descriptor_to_absolute_address priv desc) (sint to_read_sequentially) dv of
                None \<Rightarrow> None
              | Some (chunk_read, bs, dv1) \<Rightarrow>
                  if chunk_read \<le> 0 then Some (word_of_int chunk_read, buf @ bs, desc\<lparr>fd_error := chunk_read\<rparr>, dv1)
                  else (case fat16_adjust_cursors rb junk priv desc chunk_read dv1 of
                          None \<Rightarrow> None
                        | Some (res, desc1, dv2) \<Rightarrow>
                            if res \<noteq> 0 then Some (word_of_int res, buf @ bs, desc1, dv2)
                            else fat16_read_loop rb junk priv len (rd + word_of_int chunk_read) (buf @ bs) desc1 dv2)
      else Some (rd, buf, desc, dv))"

definition fat16_read_impl ::
  "'d block_reader \<Rightarrow> u8 list \<Rightarrow> fat_private_data_t \<Rightarrow> fat_descriptor_t \<Rightarrow> u32 \<Rightarrow> 'd fat_dev
     \<Rightarrow> (u32 \<times> u8 list \<times> fat_descriptor_t \<times> 'd fat_dev) option" where
  "fat16_read_impl rb junk priv desc len dv = fat16_read_loop rb junk priv len 0 [] desc dv"

definition fat16_read_file ::
  "'d block_reader \<Rightarrow> u8 list \<Rightarrow> fat_private_data_t \<Rightarrow> fat_descriptor_t \<Rightarrow> u32 \<Rightarrow> 'd fat_dev
     \<Rightarrow> (u32 \<times> u8 list \<times> fat_descriptor_t \<times> 'd fat_dev) option" where
  "fat16_read_file rb junk priv desc len dv =
     (case fat16_adjust_cursors rb junk priv desc 0 dv of None \<Rightarrow> None
      | Some (res, desc1, dv1) \<Rightarrow>
          if res \<noteq> 0 then Some (word_of_int res, [], desc1, dv1)
          else if fd_eof desc1 then Some (0, [], desc1, dv1)
          else let sz = fe_size_bytes (fi_entry (fd_item desc1))
               in if sz \<le> fd_pos desc1 then Some (0, [], desc1\<lparr>fd_eof := True\<rparr>, dv1)
                  else case fat16_read_impl rb junk priv desc1 (min len (sz - fd_pos desc1)) dv1 of None \<Rightarrow> None
                       | Some (res2, bs, desc2, dv2) \<Rightarrow>
                           if res2 \<noteq> 0 then Some (res2, bs, desc2, dv2)
                           else Some (res2, bs, if sz \<le> fd_pos desc2 then desc2\<lparr>fd_eof := True\<rparr> else desc2, dv2))"

definition fat16_read ::
  "'d block_reader \<Rightarrow> u8 list \<Rightarrow> fat_private_data_t \<Rightarrow> fat_descriptor_t \<Rightarrow> u32 \<Rightarrow> u32 \<Rightarrow> 'd fat_dev
     \<Rightarrow> (u32 \<times> u8 list \<times> fat_descriptor_t \<times> 'd fat_dev) option" where
  "fat16_read rb junk priv desc sz nmemb dv =
     (case fat16_adjust_cursors rb junk priv desc 0 dv of None \<Rightarrow> None
      | Some (res, desc1, dv1) \<Rightarrow>
          if res \<noteq> 0 then Some (word_of_int res, [], desc1, dv1)
          else if fd_eof desc1 then Some (0, [], desc1, dv1)
          else let sb = fe_size_bytes (fi_entry (fd_item desc1))
               in if sb \<le> fd_pos desc1 then Some (0, [], desc1\<lparr>fd_eof := True\<rparr>, dv1)
                  else let len = min (sz * nmemb) (sb - fd_pos desc1)
                       in case fat16_read_impl rb junk priv desc1 len dv1 of None \<Rightarrow> None
                          | Some (res2, bs, desc2, dv2) \<Rightarrow>
                              Some (res2, bs, if sb \<le> fd_pos desc2 then desc2\<lparr>fd_eof := True\<rparr> else desc2, dv2))"

definition fat16_seek_set :: "fat_descriptor_t \<Rightarrow> u32 \<Rightarrow> int \<times> fat_descriptor_t" where
  "fat16_seek_set desc pos = (0, desc\<lparr>fd_pos := pos, fd_eof := False\<rparr>)"

definition fat16_seek :: "fat_descriptor_t \<Rightarrow> u32 \<Rightarrow> int \<Rightarrow> int \<times> fat_descriptor_t" where
  "fat16_seek desc offset whence =
     (if whence = 0 then fat16_seek_set desc offset
      else if whence = 1 then fat16_seek_set desc (fd_pos desc + offset)
      else if whence = 2 then fat16_seek_set desc (fe_size_bytes (fi_entry (fd_item desc)))
      else (1, desc))"

definition fat16_write :: "disk_t \<Rightarrow> int" where
  "fat16_write disk = 0"

definition fat16_unlink :: "disk_t \<Rightarrow> int" where
  "fat16_unlink disk = 0"

record stat_t =
  st_dev :: int
  st_size :: u32

definition fat16_stat :: "disk_t \<Rightarrow> fat_descriptor_t \<Rightarrow> int \<times> stat_t" where
  "fat16_stat disk desc = (0, \<lparr>st_dev = dk_id disk, st_size = fe_size_bytes (fi_entry (fd_item desc))\<rparr>)"

section \<open>Directories\<close>

text \<open>
  The caller's arrays \<open>filename_out\<close> and \<open>extension_out\<close> are in memory, where the copies
  may run past their 8 and 3 bytes.
\<close>

definition fat16_split_entry_name :: "mem \<Rightarrow> addr \<Rightarrow> addr \<Rightarrow> addr \<Rightarrow> mem" where
  "fat16_split_entry_name m name filename_out extension_out =
     (let len = strnlen m name 12;
          m1 = memset m filename_out 32 8;
          m2 = memset m1 extension_out 32 3;
          point_pointer = memchr m2 name 46 len
      in if point_pointer = NULL then memcpy m2 filename_out name len
         else memcpy (memcpy m2 filename_out name (point_pointer - name))
                extension_out (point_pointer + 1) ((name + len) - point_pointer - 1))"

partial_function (option) fat16_count_loop ::
  "'d block_reader \<Rightarrow> u8 list \<Rightarrow> u8 list \<Rightarrow> fat_private_data_t \<Rightarrow> int \<Rightarrow> fat_descriptor_t \<Rightarrow> 'd fat_dev
     \<Rightarrow> (int \<times> bool \<times> fat_descriptor_t \<times> 'd fat_dev) option" where
  "fat16_count_loop rb junk junk_entry priv count desc dv =
     (if \<not> fd_eof desc
      then case fat16_read_impl rb junk priv desc (word_of_nat sizeof_fat_entry) dv of None \<Rightarrow> None
           | Some (res, bs, desc1, dv1) \<Rightarrow>
               if sint res < 0 then Some (- EIO, False, desc1, dv1)
               else let entry_bytes = overwrite junk_entry bs; entry = fat_entry_of entry_bytes
                    in if fe_attributes entry = FAT16_FILE_LFN \<or> fe_attributes entry AND FAT16_FILE_VOLUME_LABEL \<noteq> 0
                       then fat16_count_loop rb junk entry_bytes priv count desc1 dv1
                       else if fe_filename entry ! 0 = 0 then Some (count, True, desc1\<lparr>fd_eof := True\<rparr>, dv1)
                       else fat16_count_loop rb junk entry_bytes priv (count + 1) desc1 dv1
      else Some (count, True, desc, dv))"

definition fat16_count_dir_items ::
  "'d block_reader \<Rightarrow> u8 list \<Rightarrow> u8 list \<Rightarrow> fat_private_data_t \<Rightarrow> fat_descriptor_t \<Rightarrow> 'd fat_dev
     \<Rightarrow> (int \<times> fat_descriptor_t \<times> 'd fat_dev) option" where
  "fat16_count_dir_items rb junk junk_entry priv desc dv =
     (case fat16_count_loop rb junk junk_entry priv 0 (fat16_reset_cursors desc) dv of None \<Rightarrow> None
      | Some (count, normal, desc1, dv1) \<Rightarrow>
          Some (count, if normal then fat16_reset_cursors desc1 else desc1, dv1))"

text \<open>
  The search loop. The result is the pointer and value of the new item, or \<open>NULL\<close>; the flag
  says whether the exit passes the label \<open>out\<close>, which resets the cursors. \<open>entry_bytes\<close> is the local
  \<open>entry\<close>, zero at first.
\<close>

definition blank_entry :: fat_entry_t where
  "blank_entry = fat_entry_of (replicate 32 0)"

definition blank_item :: fat_item_t where
  "blank_item = \<lparr>fi_type = 0, fi_entry = blank_entry, fi_first_sector = 0, fi_parent_dir_first_sector = 0,
     fi_parent_dir_position = 0\<rparr>"

partial_function (option) fat16_find_loop ::
  "'d block_reader \<Rightarrow> u8 list \<Rightarrow> fat_private_data_t \<Rightarrow> u8 list \<Rightarrow> u8 list \<Rightarrow> u8 list \<Rightarrow> u32 \<Rightarrow> kstate
     \<Rightarrow> fat_descriptor_t \<Rightarrow> 'd fat_dev \<Rightarrow> (addr \<times> fat_item_t \<times> bool \<times> kstate \<times> fat_descriptor_t \<times> 'd fat_dev) option" where
  "fat16_find_loop rb junk priv padded_filename padded_extension entry_bytes dir_pos s desc dv =
     (if \<not> fd_eof desc
      then case fat16_read_impl rb junk priv desc (word_of_nat sizeof_fat_entry) dv of None \<Rightarrow> None
           | Some (res, bs, desc1, dv1) \<Rightarrow>
               if sint res < 0 then Some (NULL, blank_item, True, s, desc1, dv1)
               else let entry_bytes1 = overwrite entry_bytes bs; entry = fat_entry_of entry_bytes1; dir_pos1 = dir_pos + 1
                    in if fe_attributes entry = FAT16_FILE_LFN \<or> fe_attributes entry AND FAT16_FILE_VOLUME_LABEL \<noteq> 0
                       then fat16_find_loop rb junk priv padded_filename padded_extension entry_bytes1 dir_pos1 s desc1 dv1
                       else if fe_filename entry ! 0 = 0
                       then Some (NULL, blank_item, True, s, desc1\<lparr>fd_eof := True\<rparr>, dv1)
                       else case strncmp_arrays padded_filename (fe_filename entry) 8 of None \<Rightarrow> None
                            | Some r1 \<Rightarrow>
                       (case strncmp_arrays padded_extension (fe_extension entry) 3 of None \<Rightarrow> None
                        | Some r2 \<Rightarrow>
                            if r1 \<noteq> 0 \<or> r2 \<noteq> 0
                            then fat16_find_loop rb junk priv padded_filename padded_extension entry_bytes1 dir_pos1 s desc1 dv1
                            else case kzalloc s sizeof_fat_item of None \<Rightarrow> None
                                 | Some (p, s1) \<Rightarrow>
                                     if p = NULL then Some (NULL, blank_item, False, s1, desc1, dv1)
                                     else Some (p,
                                       \<lparr>fi_type = (if FAT16_FILE_SUBDIRECTORY AND fe_attributes entry \<noteq> 0
                                                  then FAT16_DIRECTORY_FLAG else FAT16_FILE_FLAG),
                                        fi_entry = entry,
                                        fi_first_sector = fat16_cluster_number_to_data_sector priv (fe_low16_bits_first_cluster entry),
                                        fi_parent_dir_first_sector = fi_first_sector (fd_item desc1),
                                        fi_parent_dir_position = dir_pos1\<rparr>, True, s1, desc1, dv1))
      else Some (NULL, blank_item, True, s, desc, dv))"

definition fat16_find_entry_in_dir ::
  "'d block_reader \<Rightarrow> u8 list \<Rightarrow> fat_private_data_t \<Rightarrow> kstate \<Rightarrow> fat_descriptor_t \<Rightarrow> addr \<Rightarrow> addr \<Rightarrow> 'd fat_dev
     \<Rightarrow> (addr \<times> fat_item_t \<times> kstate \<times> fat_descriptor_t \<times> 'd fat_dev) option" where
  "fat16_find_entry_in_dir rb junk priv s desc filename extension dv =
     (if fi_type (fd_item desc) \<noteq> FAT16_DIRECTORY_FLAG \<and> fi_type (fd_item desc) \<noteq> FAT16_ROOT_DIRECTORY_FLAG
      then Some (NULL, blank_item, s, desc, dv)
      else let m = ks_mem s;
               padded_filename = overwrite (replicate 8 32) (bytes m filename (unat (strnlen m filename 8)));
               padded_extension = overwrite (replicate 3 32) (bytes m extension (unat (strnlen m extension 3)))
           in case fat16_find_loop rb junk priv padded_filename padded_extension (replicate 32 0) 0 s
                     (fat16_reset_cursors desc) dv of None \<Rightarrow> None
              | Some (p, item, reset, s1, desc1, dv1) \<Rightarrow>
                  Some (p, item, s1, if reset then fat16_reset_cursors desc1 else desc1, dv1))"

text \<open>\<open>__fat16_open\<close>, called \<open>fat16_open_impl\<close> here.\<close>

definition fat16_open_impl ::
  "fat_private_data_t \<Rightarrow> addr \<Rightarrow> kstate \<Rightarrow> fat_item_t \<Rightarrow> (addr \<times> fat_descriptor_t \<times> kstate) option" where
  "fat16_open_impl priv disk s item =
     (case kzalloc s sizeof_fat_descriptor of None \<Rightarrow> None
      | Some (p, s1) \<Rightarrow>
          let desc = fat16_reset_cursors
                \<lparr>fd_item = item, fd_eof = False, fd_pos = 0, fd_relative_pos = 0,
                 fd_current_cluster_first_sector = 0, fd_disk = disk, fd_error = 0\<rparr>;
              ty = (if fat16_item_is_root_dir priv item then FAT16_ROOT_DIRECTORY_FLAG
                    else if fe_attributes (fi_entry item) AND FAT16_FILE_SUBDIRECTORY \<noteq> 0 then FAT16_DIRECTORY_FLAG
                    else FAT16_FILE_FLAG)
          in Some (p, desc\<lparr>fd_item := item\<lparr>fi_type := ty\<rparr>\<rparr>, s1))"

text \<open>
  The walk along the parsed path, a linked list in memory. \<open>filename\<close> and \<open>extension\<close> are the
  stack addresses of the two local arrays.
\<close>

partial_function (option) traverse_loop ::
  "'d block_reader \<Rightarrow> u8 list \<Rightarrow> fat_private_data_t \<Rightarrow> addr \<Rightarrow> addr \<Rightarrow> addr \<Rightarrow> kstate \<Rightarrow> addr \<Rightarrow> fat_item_t \<Rightarrow> addr
     \<Rightarrow> 'd fat_dev \<Rightarrow> (addr \<times> fat_item_t \<times> kstate \<times> 'd fat_dev) option" where
  "traverse_loop rb junk priv filename extension disk s item_ptr item path dv =
     (if path \<noteq> NULL
      then case fat16_open_impl priv disk s item of None \<Rightarrow> None
           | Some (folder_ptr, folder, s1) \<Rightarrow>
          (case kfree s1 item_ptr of None \<Rightarrow> None
           | Some s2 \<Rightarrow>
               if folder_ptr = NULL then Some (NULL, blank_item, s2, dv)
               else let part = load32 (ks_mem s2) path;
                        s3 = s2\<lparr>ks_mem := fat16_split_entry_name (ks_mem s2) part filename extension\<rparr>
                    in case fat16_find_entry_in_dir rb junk priv s3 folder filename extension dv of None \<Rightarrow> None
                       | Some (p, found, s4, folder1, dv1) \<Rightarrow>
                   (case kfree s4 folder_ptr of None \<Rightarrow> None
                    | Some s5 \<Rightarrow>
                        if p = NULL then Some (NULL, blank_item, s5, dv1)
                        else traverse_loop rb junk priv filename extension disk s5 p found
                               (load32 (ks_mem s5) (path + 4)) dv1))
      else Some (item_ptr, item, s, dv))"

definition traverse_path ::
  "'d block_reader \<Rightarrow> u8 list \<Rightarrow> fat_private_data_t \<Rightarrow> addr \<Rightarrow> addr \<Rightarrow> addr \<Rightarrow> kstate \<Rightarrow> addr \<Rightarrow> 'd fat_dev
     \<Rightarrow> (addr \<times> fat_item_t \<times> kstate \<times> 'd fat_dev) option" where
  "traverse_path rb junk priv filename extension disk s path dv =
     (case kzalloc s sizeof_fat_item of None \<Rightarrow> None
      | Some (p, s1) \<Rightarrow> traverse_loop rb junk priv filename extension disk s1 p (fp_root_directory priv) path dv)"

definition fat16_open ::
  "'d block_reader \<Rightarrow> u8 list \<Rightarrow> fat_private_data_t \<Rightarrow> addr \<Rightarrow> addr \<Rightarrow> addr \<Rightarrow> kstate \<Rightarrow> addr \<Rightarrow> 'd fat_dev
     \<Rightarrow> (addr \<times> fat_descriptor_t option \<times> kstate \<times> 'd fat_dev) option" where
  "fat16_open rb junk priv filename extension disk s path dv =
     (case traverse_path rb junk priv filename extension disk s path dv of None \<Rightarrow> None
      | Some (item_ptr, item, s1, dv1) \<Rightarrow>
          if item_ptr = NULL then Some (NULL, None, s1, dv1)
          else case fat16_open_impl priv disk s1 item of None \<Rightarrow> None
               | Some (p, desc, s2) \<Rightarrow>
              (case kfree s2 item_ptr of None \<Rightarrow> None
               | Some s3 \<Rightarrow> Some (p, if p = NULL then None else Some desc, s3, dv1)))"

definition fat16_close :: "kstate \<Rightarrow> addr \<Rightarrow> (int \<times> kstate) option" where
  "fat16_close s priv_ptr = (case kfree s priv_ptr of None \<Rightarrow> None | Some s1 \<Rightarrow> Some (0, s1))"

definition fat16_fat_private_free :: "kstate \<Rightarrow> addr \<Rightarrow> addr \<Rightarrow> kstate option" where
  "fat16_fat_private_free s ptr dev =
     (case (if ptr \<noteq> NULL \<and> dev \<noteq> NULL then kfree s dev else Some s) of None \<Rightarrow> None
      | Some s1 \<Rightarrow> if ptr \<noteq> NULL then kfree s1 ptr else Some s1)"

section \<open>Probing\<close>

text \<open>
  The result is the status, the disk (whose \<open>fs_private\<close> is set on success), the private
  data with the stream it opened, the heap and the drive.
\<close>

definition fat16_probe ::
  "'d block_reader \<Rightarrow> addr \<Rightarrow> disk_t \<Rightarrow> kstate \<Rightarrow> 'd
     \<Rightarrow> (int \<times> disk_t \<times> (fat_private_data_t \<times> disk_stream) option \<times> kstate \<times> 'd) option" where
  "fat16_probe rb disks_addr disk s d =
     (case diskstream_new disks_addr s (dk_id disk) of None \<Rightarrow> None
      | Some (stream, st, s1) \<Rightarrow>
          if stream = NULL then Some (- ENOMEM, disk, None, s1, d)
          else case diskstream_read_with rb st (int sizeof_fat_header) d of None \<Rightarrow> None
               | Some (res, bs, st1, d1) \<Rightarrow>
              (case diskstream_close s1 stream of None \<Rightarrow> None
               | Some s2 \<Rightarrow>
                   if res < 0 then Some (- EIO, disk, None, s2, d1)
                   else let header = fat_header_of (overwrite (replicate sizeof_fat_header 0) bs)
                        in if fh_signature header \<noteq> FAT16_SIGNATURE then Some (- EMEDIUMTYPE, disk, None, s2, d1)
                           else case strncmp_arrays (fh_system_id_string header) FAT16_SYSTEM_ID 8 of None \<Rightarrow> None
                                | Some r \<Rightarrow>
                                    if r \<noteq> 0 then Some (- EMEDIUMTYPE, disk, None, s2, d1)
                                    else case kzalloc s2 sizeof_fat_private of None \<Rightarrow> None
                                         | Some (priv_ptr, s3) \<Rightarrow>
                    if priv_ptr = NULL then Some (- ENOMEM, disk, None, s3, d1)
                    else if fh_bytes_per_sector header = 0 then None
                    else let first = ucast (fh_reserved_sectors header)
                               + ucast (fh_fat_copies header) * ucast (fh_sectors_per_fat header) :: u32;
                             root = blank_item\<lparr>fi_first_sector := first, fi_type := FAT16_ROOT_DIRECTORY_FLAG\<rparr>;
                             bps = ucast (fh_bytes_per_sector header) :: u32;
                             root_dir_sector_len = (ucast (fh_root_dir_entries header) * 32 + bps - 1) div bps
                         in case diskstream_new disks_addr s3 (dk_id disk) of None \<Rightarrow> None
                            | Some (dev, dev_st, s4) \<Rightarrow>
                                if dev = NULL
                                then (case fat16_fat_private_free s4 priv_ptr dev of None \<Rightarrow> None
                                      | Some s5 \<Rightarrow> Some (- ENOMEM, disk, None, s5, d1))
                                else Some (0, disk\<lparr>dk_fs_private := priv_ptr\<rparr>,
                                  Some (\<lparr>fp_header = header,
                                         fp_bytes_per_cluster = bps * ucast (fh_sectors_per_cluster header),
                                         fp_data_sector = first + root_dir_sector_len,
                                         fp_root_directory = root, fp_dev = dev\<rparr>, dev_st), s4, d1)))"

end
