(* ===== verification/Fat16_Volume.thy ===== *)
theory Fat16_Volume
  imports Fat16
begin

text \<open>
  What the FAT16 driver promises: the reference view of a volume (clusters, chains of the
  file allocation table, entries of the root directory), the locale \<open>fat_volume\<close> in which
  reads along a chain and the search of the root directory are proved, its interpretation
  on the disk driver, and the properties of the driver.
\<close>

section \<open>The volume a file lies on\<close>

text \<open>
  The reference view of a volume: where a cluster starts, the successor the first FAT
  records for it, chains of clusters that end with an end marker, and the bytes along a chain.
\<close>

definition cluster_addr :: "fat_private_data_t \<Rightarrow> u16 \<Rightarrow> nat" where
  "cluster_addr priv c =
     (unat (fp_data_sector priv) + (unat c - 2) * unat (fh_sectors_per_cluster (fp_header priv)))
       * unat (fh_bytes_per_sector (fp_header priv))"

definition fat_entry_addr :: "fat_private_data_t \<Rightarrow> u16 \<Rightarrow> nat" where
  "fat_entry_addr priv c =
     unat (fh_reserved_sectors (fp_header priv)) * unat (fh_bytes_per_sector (fp_header priv)) + 2 * unat c"

definition fat_next :: "(nat \<Rightarrow> u8) \<Rightarrow> fat_private_data_t \<Rightarrow> u16 \<Rightarrow> u16" where
  "fat_next img priv c = ucast (img (fat_entry_addr priv c)) OR push_bit 8 (ucast (img (fat_entry_addr priv c + 1)))"

definition fat_geometry :: "fat_private_data_t \<Rightarrow> bool" where
  "fat_geometry priv \<longleftrightarrow> fh_bytes_per_sector (fp_header priv) \<noteq> 0 \<and> fh_sectors_per_cluster (fp_header priv) \<noteq> 0
     \<and> fp_bytes_per_cluster priv
         = ucast (fh_bytes_per_sector (fp_header priv)) * ucast (fh_sectors_per_cluster (fp_header priv))"

definition cluster_ok :: "fat_private_data_t \<Rightarrow> nat \<Rightarrow> u16 \<Rightarrow> bool" where
  "cluster_ok priv nsec c \<longleftrightarrow> 2 \<le> c \<and> c < FAT16_CLUSTER_RESERVED
     \<and> cluster_addr priv c + unat (fp_bytes_per_cluster priv) \<le> 512 * nsec
     \<and> fat_entry_addr priv c + 2 \<le> 512 * nsec"

fun fat_chain :: "(nat \<Rightarrow> u8) \<Rightarrow> fat_private_data_t \<Rightarrow> nat \<Rightarrow> u16 list \<Rightarrow> bool" where
  "fat_chain img priv nsec [] \<longleftrightarrow> False"
| "fat_chain img priv nsec [c] \<longleftrightarrow> cluster_ok priv nsec c \<and> FAT16_CLUSTER_CHAIN_END_BEGIN \<le> fat_next img priv c"
| "fat_chain img priv nsec (c # c' # cs) \<longleftrightarrow>
     cluster_ok priv nsec c \<and> fat_next img priv c = c' \<and> fat_chain img priv nsec (c' # cs)"

definition cluster_bytes :: "(nat \<Rightarrow> u8) \<Rightarrow> fat_private_data_t \<Rightarrow> u16 \<Rightarrow> u8 list" where
  "cluster_bytes img priv c = map img [cluster_addr priv c..<cluster_addr priv c + unat (fp_bytes_per_cluster priv)]"

definition chain_data :: "(nat \<Rightarrow> u8) \<Rightarrow> fat_private_data_t \<Rightarrow> u16 list \<Rightarrow> u8 list" where
  "chain_data img priv cs = concat (map (cluster_bytes img priv) cs)"

lemma length_cluster_bytes [simp]: "length (cluster_bytes img priv c) = unat (fp_bytes_per_cluster priv)"
  by (simp add: cluster_bytes_def)

lemma length_chain_data: "length (chain_data img priv cs) = length cs * unat (fp_bytes_per_cluster priv)"
  by (induction cs) (simp_all add: chain_data_def)

lemma take_drop_concat:
  assumes "\<And>x. length (f x) = b" "i < length xs" "r + k \<le> b"
  shows "take k (drop (i * b + r) (concat (map f xs))) = take k (drop r (f (xs ! i)))"
  using assms(2)
proof (induction xs arbitrary: i)
  case (Cons x xs)
  show ?case
  proof (cases i)
    case 0
    then show ?thesis using assms(1,3) by simp
  next
    case (Suc j)
    then have "b + (j * b + r) = i * b + r" by simp
    moreover have "drop (b + (j * b + r)) (concat (map f (x # xs))) = drop (j * b + r) (concat (map f xs))"
      using assms(1) by simp
    ultimately have "drop (i * b + r) (concat (map f (x # xs))) = drop (j * b + r) (concat (map f xs))" by metis
    moreover have "take k (drop (j * b + r) (concat (map f xs))) = take k (drop r (f (xs ! j)))"
      using Cons.IH [of j] Cons.prems Suc by simp
    ultimately show ?thesis using Suc by (simp only: nth_Cons_Suc)
  qed
qed simp

lemma chain_data_chunk:
  assumes "i < length cs" "r + k \<le> unat (fp_bytes_per_cluster priv)"
  shows "take k (drop (i * unat (fp_bytes_per_cluster priv) + r) (chain_data img priv cs))
    = map img [cluster_addr priv (cs ! i) + r..<cluster_addr priv (cs ! i) + r + k]"
  unfolding chain_data_def
  by (subst take_drop_concat [OF length_cluster_bytes assms])
    (use assms(2) in \<open>simp add: cluster_bytes_def take_map drop_map\<close>)

lemmas cluster_consts = FAT16_CLUSTER_RESERVED_def FAT16_CLUSTER_BAD_OR_RESERVED_def FAT16_CLUSTER_CHAIN_END_BEGIN_def

lemma unat_u16_lt: "unat (x :: u16) < 65536"
  using unsigned_less [of x] by simp

lemma unat_u8_lt: "unat (x :: u8) < 256"
  using unsigned_less [of x] by simp

lemma unat_ucast_u16 [simp]: "unat (ucast (x :: u16) :: u32) = unat x"
  using unat_u16_lt [of x] by (simp add: unsigned_ucast_eq take_bit_nat_eq_self)

lemma unat_ucast_u8 [simp]: "unat (ucast (x :: u8) :: u32) = unat x"
  using unat_u8_lt [of x] by (simp add: unsigned_ucast_eq take_bit_nat_eq_self)

lemma unat_bytes_per_cluster:
  assumes "fat_geometry priv"
  shows "unat (fp_bytes_per_cluster priv)
      = unat (fh_bytes_per_sector (fp_header priv)) * unat (fh_sectors_per_cluster (fp_header priv))"
    and "0 < unat (fp_bytes_per_cluster priv)" "unat (fp_bytes_per_cluster priv) < 2 ^ 24"
proof -
  let ?b = "unat (fh_bytes_per_sector (fp_header priv))" and ?s = "unat (fh_sectors_per_cluster (fp_header priv))"
  have le: "?b * ?s \<le> 65535 * 255"
    using unat_u16_lt [of "fh_bytes_per_sector (fp_header priv)"] unat_u8_lt [of "fh_sectors_per_cluster (fp_header priv)"]
    by (intro mult_le_mono) auto
  then show e: "unat (fp_bytes_per_cluster priv) = ?b * ?s"
    using assms by (simp add: fat_geometry_def unat_word_ariths)
  have "0 < ?b" "0 < ?s" using assms by (simp_all add: fat_geometry_def unat_gt_0)
  then show "0 < unat (fp_bytes_per_cluster priv)" unfolding e by simp
  show "unat (fp_bytes_per_cluster priv) < 2 ^ 24" using le by (simp add: e)
qed

lemma unat_fat_entry_addr:
  "unat (ucast (fh_reserved_sectors (fp_header priv)) * ucast (fh_bytes_per_sector (fp_header priv)) + ucast (c :: u16) * 2 :: u32)
     = fat_entry_addr priv c"
proof -
  let ?r = "unat (fh_reserved_sectors (fp_header priv))" and ?b = "unat (fh_bytes_per_sector (fp_header priv))"
  have "?r * ?b \<le> 65535 * 65535"
    using unat_u16_lt [of "fh_bytes_per_sector (fp_header priv)"] unat_u16_lt [of "fh_reserved_sectors (fp_header priv)"]
    by (intro mult_le_mono) auto
  then show ?thesis
    using unat_u16_lt [of c] by (simp add: fat_entry_addr_def unat_word_ariths)
qed

lemma unat_cluster_sector:
  assumes "fat_geometry priv" "cluster_ok priv nsec c" "nsec \<le> 2 ^ 23"
  shows "unat (fat16_cluster_number_to_data_sector priv c)
      = unat (fp_data_sector priv) + (unat c - 2) * unat (fh_sectors_per_cluster (fp_header priv))"
    and "unat (fp_data_sector priv) + (unat c - 2) * unat (fh_sectors_per_cluster (fp_header priv)) < 2 ^ 32"
proof -
  let ?s = "unat (fp_data_sector priv) + (unat c - 2) * unat (fh_sectors_per_cluster (fp_header priv))"
  let ?b = "unat (fh_bytes_per_sector (fp_header priv))"
  have "1 \<le> ?b" using assms(1) by (simp add: fat_geometry_def Suc_le_eq unat_gt_0)
  then have "?s \<le> ?s * ?b" by simp
  moreover have "?s * ?b + unat (fp_bytes_per_cluster priv) \<le> 2 ^ 32"
    using assms(2,3) by (simp add: cluster_ok_def cluster_addr_def)
  ultimately have "?s + unat (fp_bytes_per_cluster priv) \<le> 2 ^ 32" by (meson add_le_mono1 order_trans)
  then show lt: "?s < 2 ^ 32" using unat_bytes_per_cluster(2) [OF assms(1)] by simp
  have "2 \<le> c" using assms(2) by (simp add: cluster_ok_def)
  then have c: "2 \<le> unat c" by (simp add: word_le_nat_alt)
  then have "unat (ucast c - 2 :: u32) = unat c - 2"
    by (subst unat_sub) (simp_all add: word_le_nat_alt)
  with lt c \<open>2 \<le> c\<close> show "unat (fat16_cluster_number_to_data_sector priv c) = ?s"
    by (simp add: fat16_cluster_number_to_data_sector_def unat_word_ariths word_less_nat_alt)
qed

lemma sector_cluster_inverse:
  assumes "fat_geometry priv" "cluster_ok priv nsec c" "nsec \<le> 2 ^ 23"
  shows "fat16_sector_to_cluster_number priv (fat16_cluster_number_to_data_sector priv c) = Some c"
proof -
  let ?s = "unat (fh_sectors_per_cluster (fp_header priv))" and ?d = "fp_data_sector priv"
  let ?sec = "fat16_cluster_number_to_data_sector priv c"
  note sec = unat_cluster_sector(1) [OF assms]
  have "2 \<le> unat c" using assms(2) by (simp add: cluster_ok_def word_le_nat_alt)
  have s: "0 < ?s" using assms(1) by (simp add: fat_geometry_def unat_gt_0)
  have "unat (?sec - ?d) = (unat c - 2) * ?s"
    by (subst unat_sub) (simp_all add: sec word_le_nat_alt)
  then have "unat ((?sec - ?d) div ucast (fh_sectors_per_cluster (fp_header priv))) = unat c - 2"
    using s by (simp add: unat_div)
  then have "unat (2 + (?sec - ?d) div ucast (fh_sectors_per_cluster (fp_header priv))) = unat c"
    using \<open>2 \<le> unat c\<close> unat_u16_lt [of c] by (simp add: unat_word_ariths)
  then have "2 + (?sec - ?d) div ucast (fh_sectors_per_cluster (fp_header priv)) = ucast c"
    by (simp add: word_unat_eq_iff)
  moreover have "ucast (ucast c :: u32) = c" by (rule bit_word_eqI) (simp add: bit_simps)
  ultimately show ?thesis
    using assms(1) by (simp add: fat16_sector_to_cluster_number_def fat_geometry_def)
qed

text \<open>Comparison of two space-padded names of the same length.\<close>

lemma takeWhile_nonzero_eq:
  "length xs = length ys \<Longrightarrow> (0 :: u8) \<notin> set xs \<Longrightarrow> xs = takeWhile (\<lambda>b. b \<noteq> 0) ys \<longleftrightarrow> xs = ys"
  by (induction xs ys rule: list_induct2) auto

lemma strncmp_arrays_eq:
  assumes "length xs = n" "length ys = n" "0 < n" "n \<le> 16" "0 \<notin> set xs"
  shows "\<exists>r. strncmp_arrays xs ys (word_of_nat n) = Some r \<and> (r = 0 \<longleftrightarrow> xs = ys)"
proof -
  let ?m1 = "write_bytes (\<lambda>_. 0) 0 xs" and ?m = "write_bytes (write_bytes (\<lambda>_. 0) 0 xs) 0x100 ys"
  have n: "unat (word_of_nat n :: u32) = n" using assms(4) by (simp add: unat_word_of_nat_lt)
  then have "(0 :: u32) < word_of_nat n" using assms(3) by (simp add: word_less_nat_alt)
  then have cmp: "strncmp_arrays xs ys (word_of_nat n) = Some (list_cmp (zbytes ?m 0 n) (zbytes ?m 0x100 n))"
    by (simp add: strncmp_arrays_def strncmp_zbytes n)
  have "bytes ?m 0x100 n = ys" using bytes_write_bytes [of ys ?m1 "0x100"] assms(2,4) by simp
  moreover have "bytes ?m 0 n = bytes ?m1 0 n"
  proof (rule bytes_cong)
    fix i assume "i < n"
    then have "unat (0 + word_of_nat i - 0x100 :: u32) \<ge> n"
      using assms(4) by (simp add: unat_sub_if' unat_word_of_nat_lt)
    then show "?m (0 + word_of_nat i) = ?m1 (0 + word_of_nat i)"
      using assms(2) by (intro write_bytes_outside) (simp add: in_region_def not_less)
  qed
  moreover have "bytes ?m1 0 n = xs" using bytes_write_bytes [of xs "\<lambda>_. 0" 0] assms(1,4) by simp
  ultimately have z: "zbytes ?m 0 n = xs" "zbytes ?m 0x100 n = takeWhile (\<lambda>b. b \<noteq> 0) ys"
    using assms(5) by (auto simp: zbytes_def takeWhile_eq_all_conv)
  have "list_cmp (zbytes ?m 0 n) (zbytes ?m 0x100 n) = 0 \<longleftrightarrow> zbytes ?m 0 n = zbytes ?m 0x100 n"
    by (rule list_cmp_eq_0) simp_all
  also have "\<dots> \<longleftrightarrow> xs = ys" unfolding z using assms(1,2,5) by (intro takeWhile_nonzero_eq) simp_all
  finally show ?thesis using cmp by blast
qed

text \<open>Entries of the root directory, and the test the search applies to them.\<close>

definition root_entry :: "(nat \<Rightarrow> u8) \<Rightarrow> fat_private_data_t \<Rightarrow> nat \<Rightarrow> fat_entry_t" where
  "root_entry img priv i =
     (let a = unat (fi_first_sector (fp_root_directory priv)) * unat (fh_bytes_per_sector (fp_header priv)) + 32 * i
      in fat_entry_of (map img [a..<a + 32]))"

definition entry_skipped :: "fat_entry_t \<Rightarrow> bool" where
  "entry_skipped e \<longleftrightarrow> fe_attributes e = FAT16_FILE_LFN \<or> fe_attributes e AND FAT16_FILE_VOLUME_LABEL \<noteq> 0"

definition entry_named :: "u8 list \<Rightarrow> u8 list \<Rightarrow> fat_entry_t \<Rightarrow> bool" where
  "entry_named filename extension e \<longleftrightarrow>
     \<not> entry_skipped e \<and> fe_filename e ! 0 \<noteq> 0 \<and> fe_filename e = filename \<and> fe_extension e = extension"

definition entry_passed :: "u8 list \<Rightarrow> u8 list \<Rightarrow> fat_entry_t \<Rightarrow> bool" where
  "entry_passed filename extension e \<longleftrightarrow>
     entry_skipped e \<or> fe_filename e ! 0 \<noteq> 0 \<and> \<not> (fe_filename e = filename \<and> fe_extension e = extension)"

definition found_item :: "fat_private_data_t \<Rightarrow> u32 \<Rightarrow> fat_entry_t \<Rightarrow> u32 \<Rightarrow> fat_item_t" where
  "found_item priv parent e dir_pos =
     \<lparr>fi_type = (if FAT16_FILE_SUBDIRECTORY AND fe_attributes e \<noteq> 0 then FAT16_DIRECTORY_FLAG else FAT16_FILE_FLAG),
      fi_entry = e, fi_first_sector = fat16_cluster_number_to_data_sector priv (fe_low16_bits_first_cluster e),
      fi_parent_dir_first_sector = parent, fi_parent_dir_position = dir_pos\<rparr>"

lemma length_entry_name [simp]:
  "length (fe_filename (root_entry img priv i)) = 8" "length (fe_extension (root_entry img priv i)) = 3"
  by (simp_all add: root_entry_def fat_entry_of_def Let_def)

section \<open>Reading along a chain\<close>

locale fat_volume = block_device rb img nsec ready
  for rb :: "'d block_reader" and img nsec ready +
  fixes priv :: fat_private_data_t and junk :: "u8 list"
  assumes geometry: "fat_geometry priv"
begin

abbreviation bpc :: nat where
  "bpc \<equiv> unat (fp_bytes_per_cluster priv)"

lemma read_at:
  assumes "ready (snd dv)" "0 \<le> n" "int (unat a) + n \<le> 512 * int nsec"
  shows "\<exists>dv'. dev_read_at rb a n dv = Some (n, map img [unat a..<unat a + nat n], dv') \<and> ready (snd dv')"
  using stream_reads [of "snd dv" n "diskstream_seek (fst dv) a"] assms
  by (auto simp: dev_read_at_def diskstream_seek_def)

lemma read_fat:
  assumes "ready (snd dv)" "cluster_ok priv nsec c"
  shows "\<exists>dv'. fat16_read_fat rb junk priv c dv = Some (fat_next img priv c, dv') \<and> ready (snd dv')"
proof -
  have "\<not> FAT16_CLUSTER_CHAIN_END_BEGIN \<le> c"
    using assms(2) by (auto simp: cluster_ok_def cluster_consts word_less_nat_alt word_le_nat_alt)
  moreover have "int (fat_entry_addr priv c) + 2 \<le> 512 * int nsec" using assms(2) by (simp add: cluster_ok_def)
  then obtain dv' where "dev_read_at rb (ucast (fh_reserved_sectors (fp_header priv))
        * ucast (fh_bytes_per_sector (fp_header priv)) + ucast c * 2) 2 dv
      = Some (2, map img [fat_entry_addr priv c..<fat_entry_addr priv c + 2], dv')" "ready (snd dv')"
    using read_at [OF assms(1), of 2 "ucast (fh_reserved_sectors (fp_header priv))
        * ucast (fh_bytes_per_sector (fp_header priv)) + ucast c * 2"]
    by (auto simp: unat_fat_entry_addr)
  ultimately show ?thesis
    by (simp add: fat16_read_fat_def Let_def fat_next_def overwrite_def le16_def upt_rec)
qed

lemma follow_chain:
  assumes "ready (snd dv)" "fat_chain img priv nsec cs"
  shows "\<exists>dv'. fat16_follow_loop rb junk priv n (hd cs) dv
      = Some (if n < length cs then cs ! n else fat_next img priv (List.last cs), dv') \<and> ready (snd dv')"
  using assms
proof (induction n arbitrary: cs dv)
  case 0
  then show ?case by (cases cs) auto
next
  case (Suc n)
  then obtain c cs' where cs: "cs = c # cs'" by (cases cs) auto
  then have ok: "cluster_ok priv nsec c" using Suc.prems(2) by (cases cs') auto
  then have lt: "c < FAT16_CLUSTER_CHAIN_END_BEGIN"
    by (auto simp: cluster_ok_def cluster_consts word_less_nat_alt)
  obtain dv1 where dv1: "fat16_read_fat rb junk priv c dv = Some (fat_next img priv c, dv1)" "ready (snd dv1)"
    using read_fat [OF Suc.prems(1) ok] by blast
  show ?case
  proof (cases cs')
    case Nil
    then have e: "FAT16_CLUSTER_CHAIN_END_BEGIN \<le> fat_next img priv c" using Suc.prems(2) cs by simp
    then have "fat16_follow_loop rb junk priv n (fat_next img priv c) dv1 = Some (fat_next img priv c, dv1)"
      by (cases n) (simp_all add: leD)
    then show ?thesis using e dv1 lt cs Nil by (intro exI [of _ dv1]) (auto simp: cluster_consts)
  next
    case (Cons c' cs'')
    then have nx: "fat_next img priv c = c'" "fat_chain img priv nsec cs'" using Suc.prems(2) cs by simp_all
    then have "cluster_ok priv nsec c'" using Cons by (cases cs'') auto
    then have "c' \<noteq> 0" "c' \<noteq> FAT16_CLUSTER_RESERVED" "c' \<noteq> FAT16_CLUSTER_BAD_OR_RESERVED"
      by (auto simp: cluster_ok_def cluster_consts)
    then show ?thesis
      using Suc.IH [OF dv1(2) nx(2)] dv1(1) lt nx(1) cs Cons by auto
  qed
qed

text \<open>The cursors agree with position \<open>p\<close> of the file whose clusters are \<open>cs\<close>.\<close>

definition at_pos :: "u16 list \<Rightarrow> nat \<Rightarrow> fat_descriptor_t \<Rightarrow> bool" where
  "at_pos cs p desc \<longleftrightarrow> unat (fd_pos desc) = p \<and> (fd_eof desc \<longleftrightarrow> length cs * bpc \<le> p)
     \<and> (p < length cs * bpc \<longrightarrow> unat (fd_relative_pos desc) = p mod bpc
          \<and> fd_current_cluster_first_sector desc = fat16_cluster_number_to_data_sector priv (cs ! (p div bpc)))"

definition file_item :: "u16 list \<Rightarrow> fat_item_t \<Rightarrow> bool" where
  "file_item cs item \<longleftrightarrow> \<not> fat16_item_is_root_dir priv item \<and> fe_low16_bits_first_cluster (fi_entry item) = hd cs
     \<and> fi_first_sector item = fat16_cluster_number_to_data_sector priv (hd cs)"

lemma chain_ok:
  "fat_chain img priv nsec cs \<Longrightarrow> c \<in> set cs \<Longrightarrow> cluster_ok priv nsec c"
  by (induction img priv nsec cs rule: fat_chain.induct) auto

lemma chain_end: "fat_chain img priv nsec cs \<Longrightarrow> FAT16_CLUSTER_CHAIN_END_BEGIN \<le> fat_next img priv (List.last cs)"
  by (induction img priv nsec cs rule: fat_chain.induct) auto

lemma adjust:
  assumes "ready (snd dv)" "fat_chain img priv nsec cs" "file_item cs (fd_item desc)" "\<not> fd_eof desc"
    and "unat (fd_pos desc + word_of_int k) = p"
  shows "\<exists>desc' dv'. fat16_adjust_cursors rb junk priv desc k dv = Some (0, desc', dv') \<and> ready (snd dv')
      \<and> at_pos cs p desc' \<and> fd_item desc' = fd_item desc"
proof -
  have ne: "cs \<noteq> []" using assms(2) by auto
  then have ok: "cluster_ok priv nsec (hd cs)" by (intro chain_ok [OF assms(2)]) simp
  then have c0: "hd cs \<noteq> 0" by (auto simp: cluster_ok_def)
  note bpc = unat_bytes_per_cluster [OF geometry]
  then have b0: "fp_bytes_per_cluster priv \<noteq> 0" by auto
  let ?i = "p div bpc" and ?c = "if p div bpc < length cs then cs ! (p div bpc) else fat_next img priv (List.last cs)"
  obtain dv' where dv': "fat16_follow_loop rb junk priv ?i (hd cs) dv = Some (?c, dv')" "ready (snd dv')"
    using follow_chain [OF assms(1,2)] by blast
  have i: "?i < length cs \<longleftrightarrow> p < length cs * bpc" using bpc(2) by (simp add: div_less_iff_less_mult)
  have "?c \<noteq> FAT16_CLUSTER_RESERVED \<and> ?c \<noteq> FAT16_CLUSTER_BAD_OR_RESERVED
      \<and> (?c < FAT16_CLUSTER_CHAIN_END_BEGIN \<longleftrightarrow> p < length cs * bpc)"
  proof (cases "?i < length cs")
    case True
    then have "cluster_ok priv nsec (cs ! ?i)" by (intro chain_ok [OF assms(2)]) simp
    with True show ?thesis
      by (auto simp: cluster_ok_def cluster_consts i [symmetric] word_less_nat_alt)
  next
    case False
    then show ?thesis using chain_end [OF assms(2)] by (auto simp: cluster_consts i [symmetric])
  qed
  then show ?thesis
    using assms(3-5) c0 b0 dv' sector_cluster_inverse [OF geometry ok nsec_bound] i
    by (cases dv') (auto simp: fat16_adjust_cursors_def fat16_adjust_cursors_non_root_def
        fat16_follow_cluster_chain_def Let_def file_item_def at_pos_def unat_div unat_mod)
qed

lemma chunk_size:
  assumes "rd < len" "at_pos cs p desc" "p < length cs * bpc"
    and "k = min (unat len - unat rd) (bpc - p mod bpc)"
  shows "sint (min (len - rd) (fp_bytes_per_cluster priv - fd_relative_pos desc)) = int k" "0 < k"
proof -
  let ?t = "min (len - rd) (fp_bytes_per_cluster priv - fd_relative_pos desc)"
  note bpc = unat_bytes_per_cluster(2,3) [OF geometry]
  have rel: "unat (fd_relative_pos desc) = p mod bpc" using assms(2,3) by (simp add: at_pos_def)
  have lt: "p mod bpc < bpc" using bpc(1) by simp
  have "unat (fp_bytes_per_cluster priv - fd_relative_pos desc) = bpc - p mod bpc"
    using lt by (subst unat_sub) (simp_all add: rel word_le_nat_alt)
  moreover have "unat (len - rd) = unat len - unat rd"
    using assms(1) by (intro unat_sub) simp
  ultimately have u: "unat ?t = k" by (auto simp: min_def word_le_nat_alt assms(4))
  have "k < 2 ^ 31" using bpc(2) lt by (simp add: assms(4))
  then have "signed_take_bit 31 (int k) = int k" by (intro signed_take_bit_int_eq_self) auto
  moreover have "sint ?t = signed_take_bit 31 (int (unat ?t))" by (simp add: sint_uint)
  ultimately show "sint ?t = int k" by (simp only: u)
  show "0 < k" using assms(1) lt by (simp add: assms(4) word_less_nat_alt)
qed

lemma chunk_address:
  assumes "fat_chain img priv nsec cs" "at_pos cs p desc" "p < length cs * bpc"
  shows "unat (fat16_descriptor_to_absolute_address priv desc) = cluster_addr priv (cs ! (p div bpc)) + p mod bpc"
    and "cluster_addr priv (cs ! (p div bpc)) + bpc \<le> 512 * nsec"
proof -
  let ?c = "cs ! (p div bpc)"
  note bpc = unat_bytes_per_cluster(2) [OF geometry]
  have "p div bpc < length cs" using assms(3) bpc by (simp add: div_less_iff_less_mult)
  then have ok: "cluster_ok priv nsec ?c" by (intro chain_ok [OF assms(1)]) simp
  then show le: "cluster_addr priv ?c + bpc \<le> 512 * nsec" by (simp add: cluster_ok_def)
  have "p mod bpc < bpc" using bpc by simp
  then have lt: "cluster_addr priv ?c + p mod bpc < 2 ^ 32" using le nsec_bound by simp
  have "unat (fd_current_cluster_first_sector desc) * unat (fh_bytes_per_sector (fp_header priv)) = cluster_addr priv ?c"
    using assms(2,3) unat_cluster_sector(1) [OF geometry ok nsec_bound] by (simp add: at_pos_def cluster_addr_def)
  then show "unat (fat16_descriptor_to_absolute_address priv desc) = cluster_addr priv ?c + p mod bpc"
    using lt assms(2,3) by (simp add: fat16_descriptor_to_absolute_address_def unat_word_ariths at_pos_def)
qed

lemma read_impl_loop:
  assumes "ready (snd dv)" "fat_chain img priv nsec cs" "file_item cs (fd_item desc)" "at_pos cs p desc"
    and "rd \<le> len" "p + (unat len - unat rd) \<le> length cs * bpc" "p + (unat len - unat rd) < 2 ^ 32"
  shows "\<exists>desc' dv'. fat16_read_loop rb junk priv len rd buf desc dv
      = Some (len, buf @ take (unat len - unat rd) (drop p (chain_data img priv cs)), desc', dv') \<and> ready (snd dv')
      \<and> at_pos cs (p + (unat len - unat rd)) desc' \<and> fd_item desc' = fd_item desc"
  using assms(1,3-)
proof (induction "unat len - unat rd" arbitrary: rd p buf desc dv rule: less_induct)
  case less
  show ?case
  proof (cases "rd < len")
    case False
    then have "rd = len" using less.prems(4) by simp
    then show ?thesis using less.prems by (subst fat16_read_loop.simps) auto
  next
    case True
    define n where "n = unat len - unat rd"
    have n0: "unat rd < unat len" using True by (simp add: word_less_nat_alt)
    have p: "p < length cs * bpc" using less.prems(5) n0 by linarith
    define k where "k = min n (bpc - p mod bpc)"
    note k = chunk_size [OF True less.prems(3) p k_def [unfolded n_def]]
    have "p mod bpc < bpc" using unat_bytes_per_cluster(2) [OF geometry] by simp
    then have kn: "k \<le> n" "p mod bpc + k \<le> bpc" by (auto simp: k_def)
    note addr = chunk_address [OF assms(2) less.prems(3) p]
    let ?a = "cluster_addr priv (cs ! (p div bpc)) + p mod bpc"
    obtain dv1 where dv1: "dev_read_at rb (fat16_descriptor_to_absolute_address priv desc) (int k) dv
        = Some (int k, map img [?a..<?a + k], dv1)" "ready (snd dv1)"
      using read_at [OF less.prems(1), of "int k" "fat16_descriptor_to_absolute_address priv desc"] addr kn(2) by auto
    have "p div bpc < length cs" using p unat_bytes_per_cluster(2) [OF geometry] by (simp add: div_less_iff_less_mult)
    then have chunk: "map img [?a..<?a + k] = take k (drop p (chain_data img priv cs))"
      using chain_data_chunk [of "p div bpc" cs "p mod bpc" k priv img] kn(2) by simp
    have pk: "p + k < 2 ^ 32" using less.prems(6) kn(1) by (simp add: n_def)
    have "unat (fd_pos desc + word_of_int (int k)) = p + k"
      using pk less.prems(3) by (simp add: at_pos_def unat_add_of_nat)
    moreover have "\<not> fd_eof desc" using p less.prems(3) by (simp add: at_pos_def)
    ultimately obtain desc1 dv2 where d1: "fat16_adjust_cursors rb junk priv desc (int k) dv1 = Some (0, desc1, dv2)"
        "ready (snd dv2)" "at_pos cs (p + k) desc1" "fd_item desc1 = fd_item desc"
      using adjust [OF dv1(2) assms(2) less.prems(2)] by metis
    have rk: "unat (rd + word_of_nat k) = unat rd + k"
      using kn(1) n0 unat_lt_2p32 [of len] by (intro unat_add_of_nat) (simp add: n_def)
    then have rk': "rd + word_of_nat k \<le> len" "unat len - unat (rd + word_of_nat k) = n - k"
      using kn(1) n0 by (simp_all add: word_le_nat_alt n_def)
    obtain desc' dv' where fin: "fat16_read_loop rb junk priv len (rd + word_of_nat k) (buf @ map img [?a..<?a + k]) desc1 dv2
      = Some (len, (buf @ map img [?a..<?a + k]) @ take (n - k) (drop (p + k) (chain_data img priv cs)), desc', dv')"
      "ready (snd dv')" "at_pos cs (p + k + (n - k)) desc'" "fd_item desc' = fd_item desc"
    proof -
      have "unat len - unat (rd + word_of_nat k) < unat len - unat rd" using rk' k(2) kn(1) by (simp add: n_def)
      moreover have "p + k + (unat len - unat (rd + word_of_nat k)) \<le> length cs * bpc"
        "p + k + (unat len - unat (rd + word_of_nat k)) < 2 ^ 32"
        using less.prems(5,6) kn(1) by (simp_all add: rk'(2) n_def)
      ultimately show thesis
        using less.hyps [OF _ d1(2) _ d1(3) rk'(1), of "buf @ map img [?a..<?a + k]"] less.prems(2) d1(4) that
        unfolding rk'(2) by metis
    qed
    moreover have "map img [?a..<?a + k] @ take (n - k) (drop (p + k) (chain_data img priv cs))
        = take n (drop p (chain_data img priv cs))"
      unfolding chunk using take_add [of k "n - k" "drop p (chain_data img priv cs)"] kn(1) by (simp add: add.commute)
    ultimately show ?thesis
      using True \<open>\<not> fd_eof desc\<close> k dv1 d1 kn(1)
      by (subst fat16_read_loop.simps) (auto simp: Let_def n_def)
  qed
qed

lemma read_content:
  fixes sz nmemb :: u32 and desc
  defines "fsize \<equiv> unat (fe_size_bytes (fi_entry (fd_item desc)))" and "p \<equiv> unat (fd_pos desc)"
  defines "n \<equiv> min (unat sz * unat nmemb) (fsize - p)"
  assumes "ready (snd dv)" "fat_chain img priv nsec cs" "file_item cs (fd_item desc)" "\<not> fd_eof desc"
    and "fsize \<le> length (chain_data img priv cs)" "unat sz * unat nmemb < 2 ^ 32"
  shows "\<exists>desc' dv'. fat16_read rb junk priv desc sz nmemb dv
      = Some (word_of_nat n, take n (drop p (take fsize (chain_data img priv cs))), desc', dv') \<and> ready (snd dv')
      \<and> unat (fd_pos desc') = p + n \<and> (fd_eof desc' \<longleftrightarrow> fsize \<le> p + n) \<and> fd_item desc' = fd_item desc"
proof -
  let ?sb = "fe_size_bytes (fi_entry (fd_item desc))"
  obtain desc1 dv1 where d1: "fat16_adjust_cursors rb junk priv desc 0 dv = Some (0, desc1, dv1)" "ready (snd dv1)"
      "at_pos cs p desc1" "fd_item desc1 = fd_item desc"
    using adjust [OF assms(4-7), of 0 p] by (auto simp: p_def)
  have total: "fsize \<le> length cs * bpc" using assms(8) by (simp add: length_chain_data)
  have pos1: "unat (fd_pos desc1) = p" and eof1: "fd_eof desc1 \<longleftrightarrow> length cs * bpc \<le> p"
    using d1(3) by (simp_all add: at_pos_def)
  show ?thesis
  proof (cases "fsize \<le> p")
    case True
    then have "?sb \<le> fd_pos desc1" by (simp add: word_le_nat_alt pos1 fsize_def)
    with True show ?thesis
      using d1 pos1 by (cases "fd_eof desc1"; cases dv1) (auto simp: fat16_read_def n_def)
  next
    case False
    then have lt: "\<not> ?sb \<le> fd_pos desc1" by (simp add: word_le_nat_alt pos1 fsize_def)
    let ?len = "min (sz * nmemb) (?sb - fd_pos desc1)"
    have "unat (?sb - fd_pos desc1) = fsize - p" using lt by (subst unat_sub) (simp_all add: pos1 fsize_def)
    moreover have "unat (sz * nmemb) = unat sz * unat nmemb" using assms(9) by (simp add: unat_word_ariths)
    ultimately have len: "unat ?len = n" by (auto simp: min_def word_le_nat_alt n_def)
    then have len': "?len = word_of_nat n" by (metis word_eq_of_nat_unat)
    have pn: "p + n \<le> fsize" using False by (simp add: n_def)
    then have "p + n < 2 ^ 32" using unat_lt_2p32 [of ?sb] by (simp add: fsize_def)
    with pn total obtain desc2 dv2 where d2: "fat16_read_impl rb junk priv desc1 ?len dv1
        = Some (?len, take n (drop p (chain_data img priv cs)), desc2, dv2)" "ready (snd dv2)"
        "at_pos cs (p + n) desc2" "fd_item desc2 = fd_item desc"
      using read_impl_loop [OF d1(2) assms(5) _ d1(3), of 0 ?len "[]"] assms(6) d1(4) len
      by (auto simp: fat16_read_impl_def)
    have eof2: "fd_eof desc2 \<longrightarrow> fsize \<le> p + n" and pos2: "unat (fd_pos desc2) = p + n"
      using d2(3) total by (auto simp: at_pos_def)
    have "?sb \<le> fd_pos desc2 \<longleftrightarrow> fsize \<le> p + n" by (simp add: word_le_nat_alt pos2 fsize_def)
    moreover have "take n (drop p (chain_data img priv cs)) = take n (drop p (take fsize (chain_data img priv cs)))"
      using pn by (simp add: drop_take)
    moreover have "\<not> fd_eof desc1" using False total eof1 by simp
    ultimately show ?thesis
      using d1(1,4) d2 eof2 pos2 lt
      by (cases dv2) (auto simp: fat16_read_def Let_def len'[symmetric])
  qed
qed

text \<open>The root directory, read one entry at a time.\<close>

abbreviation root_addr :: nat where
  "root_addr \<equiv> unat (fi_first_sector (fp_root_directory priv)) * unat (fh_bytes_per_sector (fp_header priv))"

definition root_at :: "nat \<Rightarrow> fat_descriptor_t \<Rightarrow> bool" where
  "root_at p desc \<longleftrightarrow> fat16_item_is_root_dir priv (fd_item desc) \<and> unat (fd_pos desc) = p \<and> unat (fd_relative_pos desc) = p
     \<and> fd_current_cluster_first_sector desc = fi_first_sector (fp_root_directory priv)"

lemma root_read_entry:
  assumes "ready (snd dv)" "root_at p desc" "\<not> fd_eof desc" "p + 32 \<le> bpc" "root_addr + p + 32 \<le> 512 * nsec"
  shows "\<exists>desc' dv'. fat16_read_impl rb junk priv desc 32 dv
      = Some (if p + 32 \<le> unat (fp_data_sector priv) then 32 else word_of_int (- EIO),
          map img [root_addr + p..<root_addr + p + 32], desc', dv') \<and> ready (snd dv')
      \<and> root_at (p + 32) desc' \<and> (fd_eof desc' \<longleftrightarrow> unat (fp_data_sector priv) \<le> p + 32) \<and> fd_item desc' = fd_item desc"
proof -
  have p: "p + 32 < 2 ^ 24" using assms(4) unat_bytes_per_cluster(3) [OF geometry] by simp
  have "512 * nsec \<le> 4294967296" using nsec_bound by simp
  then have "root_addr + p < 4294967296" using assms(5) by linarith
  then have a: "unat (fat16_descriptor_to_absolute_address priv desc) = root_addr + p"
    using assms(2) by (simp add: fat16_descriptor_to_absolute_address_def root_at_def unat_word_ariths)
  have "unat (fp_bytes_per_cluster priv - fd_relative_pos desc) = bpc - p"
    using assms(2,4) by (subst unat_sub) (simp_all add: root_at_def word_le_nat_alt)
  moreover have "32 \<le> bpc - p" using assms(4) by linarith
  ultimately have t: "min (32 - 0) (fp_bytes_per_cluster priv - fd_relative_pos desc) = 32"
    by (simp add: min_def word_le_nat_alt)
  have "int (root_addr + p) + 32 \<le> 512 * int nsec" using assms(5) by linarith
  then obtain dv1 where dv1: "dev_read_at rb (fat16_descriptor_to_absolute_address priv desc) 32 dv
      = Some (32, map img [root_addr + p..<root_addr + p + 32], dv1)" "ready (snd dv1)"
    using read_at [OF assms(1), of 32 "fat16_descriptor_to_absolute_address priv desc"] unfolding a by auto
  have "unat (fd_pos desc + 32) = p + 32" using assms(2) p by (simp add: root_at_def unat_word_ariths)
  then have le: "fp_data_sector priv \<le> fd_pos desc + 32 \<longleftrightarrow> unat (fp_data_sector priv) \<le> p + 32"
    "fp_data_sector priv < fd_pos desc + 32 \<longleftrightarrow> \<not> p + 32 \<le> unat (fp_data_sector priv)"
    by (auto simp: word_le_nat_alt word_less_nat_alt)
  show ?thesis
    using assms(2,3) dv1 t \<open>unat (fd_pos desc + 32) = p + 32\<close> le
    unfolding fat16_read_impl_def fat16_read_loop.simps [of rb junk priv 32 0]
    by (cases dv1) (auto simp: fat16_adjust_cursors_def fat16_adjust_cursors_root_dir_def root_at_def Let_def EIO_def
        fat16_read_loop.simps)
qed

text \<open>What one turn of the search does after it has read entry \<open>i\<close>.\<close>

definition find_turn ::
  "u8 list \<Rightarrow> u8 list \<Rightarrow> nat \<Rightarrow> u32 \<Rightarrow> kstate \<Rightarrow> fat_item_t \<Rightarrow> u8 list \<Rightarrow> fat_descriptor_t \<Rightarrow> 'd fat_dev
     \<Rightarrow> (addr \<times> fat_item_t \<times> bool \<times> kstate \<times> fat_descriptor_t \<times> 'd fat_dev) option" where
  "find_turn fn ext i dpos s dir eb desc dv =
     (if unat (fp_data_sector priv) < 32 * Suc i then Some (NULL, blank_item, True, s, desc, dv)
      else if entry_passed fn ext (root_entry img priv i)
      then fat16_find_loop rb junk priv fn ext eb (dpos + 1) s desc dv
      else if entry_named fn ext (root_entry img priv i)
      then case kzalloc s sizeof_fat_item of None \<Rightarrow> None
           | Some (p, s1) \<Rightarrow> if p = NULL then Some (NULL, blank_item, False, s1, desc, dv)
               else Some (p, found_item priv (fi_first_sector dir) (root_entry img priv i) (dpos + 1), True, s1, desc, dv)
      else Some (NULL, blank_item, True, s, desc\<lparr>fd_eof := True\<rparr>, dv))"

lemma find_step:
  assumes "ready (snd dv)" "root_at (32 * i) desc" "\<not> fd_eof desc"
    and "32 * Suc i \<le> bpc" "root_addr + 32 * Suc i \<le> 512 * nsec"
    and "length fn = 8" "length ext = 3" "0 \<notin> set fn" "0 \<notin> set ext" "length eb = 32"
  obtains desc' dv' eb' where "ready (snd dv')" "root_at (32 * Suc i) desc'" "length eb' = 32"
    "fd_eof desc' \<longleftrightarrow> unat (fp_data_sector priv) \<le> 32 * Suc i" "fd_item desc' = fd_item desc"
    "fat16_find_loop rb junk priv fn ext eb dpos s desc dv = find_turn fn ext i dpos s (fd_item desc) eb' desc' dv'"
proof -
  have b: "32 * i + 32 \<le> bpc" "root_addr + 32 * i + 32 \<le> 512 * nsec" using assms(4,5) by simp_all
  obtain desc' dv' where d: "fat16_read_impl rb junk priv desc 32 dv
      = Some (if 32 * i + 32 \<le> unat (fp_data_sector priv) then 32 else word_of_int (- EIO),
          map img [root_addr + 32 * i..<root_addr + 32 * i + 32], desc', dv')" "ready (snd dv')"
      "root_at (32 * i + 32) desc'" "fd_eof desc' \<longleftrightarrow> unat (fp_data_sector priv) \<le> 32 * i + 32" "fd_item desc' = fd_item desc"
    using root_read_entry [OF assms(1-3) b] by metis
  define eb' where "eb' = map img [root_addr + 32 * i..<root_addr + 32 * i + 32]"
  have eb: "length eb' = 32" "overwrite eb eb' = eb'" "fat_entry_of eb' = root_entry img priv i"
    using assms(10) by (simp_all add: eb'_def overwrite_def root_entry_def Let_def)
  let ?e = "root_entry img priv i"
  obtain r1 where r1: "strncmp_arrays fn (fe_filename ?e) 8 = Some r1" "r1 = 0 \<longleftrightarrow> fn = fe_filename ?e"
    using strncmp_arrays_eq [of fn 8 "fe_filename ?e"] assms(6,8) by auto
  obtain r2 where r2: "strncmp_arrays ext (fe_extension ?e) 3 = Some r2" "r2 = 0 \<longleftrightarrow> ext = fe_extension ?e"
    using strncmp_arrays_eq [of ext 3 "fe_extension ?e"] assms(7,9) by auto
  have neg: "sint (word_of_int (- EIO) :: u32) < 0" by (simp add: EIO_def)
  have "fat16_find_loop rb junk priv fn ext eb dpos s desc dv = find_turn fn ext i dpos s (fd_item desc) eb' desc' dv'"
    unfolding fat16_find_loop.simps [of rb junk priv fn ext eb dpos s desc dv] find_turn_def
    using assms(3) d(1,5) neg r1 r2 eb
    by (auto simp: sizeof_fat_entry_def Let_def entry_passed_def entry_named_def entry_skipped_def found_item_def
        simp flip: eb'_def split: option.split)
  then show thesis
    by (intro that [of dv' desc' eb']) (use d(2-5) eb(1) in \<open>simp_all add: add.commute\<close>)
qed

lemma find_named:
  assumes "ready (snd dv)" "root_at (32 * i) desc" "\<not> fd_eof desc" "i \<le> j"
    and "32 * Suc j \<le> bpc" "32 * Suc j \<le> unat (fp_data_sector priv)" "root_addr + 32 * Suc j \<le> 512 * nsec"
    and names: "length fn = 8" "length ext = 3" "0 \<notin> set fn" "0 \<notin> set ext" and "length eb = 32"
    and "\<And>k. i \<le> k \<Longrightarrow> k < j \<Longrightarrow> entry_passed fn ext (root_entry img priv k)"
    and named: "entry_named fn ext (root_entry img priv j)"
    and alloc: "kzalloc s sizeof_fat_item = Some (p, s1)" "p \<noteq> NULL"
  shows "\<exists>desc' dv'. fat16_find_loop rb junk priv fn ext eb (word_of_nat i) s desc dv
      = Some (p, found_item priv (fi_first_sector (fd_item desc)) (root_entry img priv j) (word_of_nat (Suc j)),
          True, s1, desc', dv') \<and> ready (snd dv') \<and> fd_item desc' = fd_item desc"
  using assms(1-7,12,13)
proof (induction "j - i" arbitrary: i desc dv eb)
  case 0
  then have ij: "i = j" by simp
  have b: "32 * Suc i \<le> bpc" "root_addr + 32 * Suc i \<le> 512 * nsec" using 0 ij by simp_all
  have np: "\<not> entry_passed fn ext (root_entry img priv j)"
    using named by (auto simp: entry_named_def entry_passed_def)
  obtain desc' dv' eb' where st: "ready (snd dv')" "fd_item desc' = fd_item desc"
    "fat16_find_loop rb junk priv fn ext eb (word_of_nat i) s desc dv
      = find_turn fn ext i (word_of_nat i) s (fd_item desc) eb' desc' dv'"
    by (rule find_step [OF 0(2,3,4) b names 0(9)])
  then show ?case
    using 0(7) np named alloc by (intro exI [of _ desc'] exI [of _ dv']) (simp add: find_turn_def ij add.commute)
next
  case (Suc d)
  have b: "32 * Suc i \<le> bpc" "root_addr + 32 * Suc i \<le> 512 * nsec" using Suc by auto
  obtain desc' dv' eb' where st: "ready (snd dv')" "root_at (32 * Suc i) desc'" "length eb' = 32"
    "fd_eof desc' \<longleftrightarrow> unat (fp_data_sector priv) \<le> 32 * Suc i" "fd_item desc' = fd_item desc"
    "fat16_find_loop rb junk priv fn ext eb (word_of_nat i) s desc dv
      = find_turn fn ext i (word_of_nat i) s (fd_item desc) eb' desc' dv'"
    by (rule find_step [OF Suc(3,4,5) b names Suc(10)])
  have i: "d = j - Suc i" "Suc i \<le> j" "i < j" using Suc(2) by simp_all
  then have "entry_passed fn ext (root_entry img priv i)" "\<not> unat (fp_data_sector priv) < 32 * Suc i" "\<not> fd_eof desc'"
    using Suc(8) Suc(11) [of i] st(4) by auto
  then show ?case
    using Suc.hyps(1) [OF i(1) st(1,2) _ i(2) Suc(7-9) st(3)] Suc(11) st(5,6)
    by (auto simp: find_turn_def add.commute)
qed

text \<open>The search stops where the position passes the sector number of the data region.\<close>

lemma find_blind:
  assumes "ready (snd dv)" "root_at (32 * i) desc" "\<not> fd_eof desc" "i \<le> N"
    and "N = unat (fp_data_sector priv) div 32"
    and "32 * Suc N \<le> bpc" "root_addr + 32 * Suc N \<le> 512 * nsec"
    and names: "length fn = 8" "length ext = 3" "0 \<notin> set fn" "0 \<notin> set ext" and "length eb = 32"
    and "\<And>k. i \<le> k \<Longrightarrow> k < N \<Longrightarrow> entry_passed fn ext (root_entry img priv k)"
  shows "\<exists>desc' dv'. fat16_find_loop rb junk priv fn ext eb dpos s desc dv = Some (NULL, blank_item, True, s, desc', dv')
      \<and> ready (snd dv') \<and> fd_item desc' = fd_item desc"
  using assms(1-7,12,13)
proof (induction "N - i" arbitrary: i desc dv eb dpos)
  case 0
  then have iN: "i = N" by simp
  have b: "32 * Suc i \<le> bpc" "root_addr + 32 * Suc i \<le> 512 * nsec" using 0 iN by simp_all
  obtain desc' dv' eb' where st: "ready (snd dv')" "fd_item desc' = fd_item desc"
    "fat16_find_loop rb junk priv fn ext eb dpos s desc dv = find_turn fn ext i dpos s (fd_item desc) eb' desc' dv'"
    by (rule find_step [OF 0(2,3,4) b names 0(9)])
  moreover have "unat (fp_data_sector priv) < 32 * Suc i" unfolding iN 0(6) by simp
  ultimately show ?case by (intro exI [of _ desc'] exI [of _ dv']) (simp add: find_turn_def)
next
  case (Suc d)
  have b: "32 * Suc i \<le> bpc" "root_addr + 32 * Suc i \<le> 512 * nsec" using Suc by auto
  obtain desc' dv' eb' where st: "ready (snd dv')" "root_at (32 * Suc i) desc'" "length eb' = 32"
    "fd_eof desc' \<longleftrightarrow> unat (fp_data_sector priv) \<le> 32 * Suc i" "fd_item desc' = fd_item desc"
    "fat16_find_loop rb junk priv fn ext eb dpos s desc dv = find_turn fn ext i dpos s (fd_item desc) eb' desc' dv'"
    by (rule find_step [OF Suc(3,4,5) b names Suc(10)])
  have i: "d = N - Suc i" "Suc i \<le> N" "i < N" using Suc(2) by simp_all
  have "32 * N \<le> unat (fp_data_sector priv)" unfolding Suc(7) by simp
  then have "entry_passed fn ext (root_entry img priv i)" "\<not> unat (fp_data_sector priv) < 32 * Suc i"
    using i Suc(11) [of i] by auto
  then have turn: "fat16_find_loop rb junk priv fn ext eb dpos s desc dv
      = fat16_find_loop rb junk priv fn ext eb' (dpos + 1) s desc' dv'"
    using st(6) by (simp add: find_turn_def)
  show ?case
  proof (cases "fd_eof desc'")
    case True
    then show ?thesis using turn st(1,5) by (intro exI [of _ desc'] exI [of _ dv']) (simp add: fat16_find_loop.simps)
  next
    case False
    then show ?thesis
      using Suc.hyps(1) [OF i(1) st(1,2) False i(2) Suc(7-9) st(3), of "dpos + 1"] Suc(11) turn st(5) by auto
  qed
qed

end

lemma padded_array:
  assumes "bytes m p (unat n) = xs" "0 \<notin> set xs"
  shows "overwrite (replicate (unat n) 32) (bytes m p (unat (strnlen m p n))) = xs"
proof -
  have "zbytes m p (unat n) = xs" using assms by (simp add: zbytes_full)
  then have "strnlen m p n = word_of_nat (unat n)" using assms(1) length_bytes [of m p "unat n"] by (simp add: strnlen_zbytes)
  then show ?thesis using assms(1) length_bytes [of m p "unat n"] by (simp add: overwrite_def)
qed

section \<open>The volume the repository builds\<close>

text \<open>
  The header of \<^verbatim>\<open>src/boot/fat16_header.inc\<close> and what \<open>fat16_probe\<close> makes of it: clusters of 64 KiB,
  the root directory at sector 712 and the data at sector 716.
\<close>

definition avocado_header :: fat_header_t where
  "avocado_header = (fat_header_of (replicate 62 0))\<lparr>fh_bytes_per_sector := 0x200, fh_sectors_per_cluster := 0x80,
     fh_reserved_sectors := 200, fh_fat_copies := 2, fh_root_dir_entries := 0x40, fh_sectors_per_fat := 0x100,
     fh_signature := FAT16_SIGNATURE, fh_system_id_string := FAT16_SYSTEM_ID\<rparr>"

definition avocado_priv :: fat_private_data_t where
  "avocado_priv = \<lparr>fp_header = avocado_header, fp_bytes_per_cluster = 0x10000, fp_data_sector = 716,
     fp_root_directory = blank_item\<lparr>fi_first_sector := 712, fi_type := FAT16_ROOT_DIRECTORY_FLAG\<rparr>, fp_dev = 0xC0109000\<rparr>"

definition sim_rb :: "(nat \<Rightarrow> u8) \<Rightarrow> ata_view block_reader" where
  "sim_rb img = (\<lambda>lba. disk_read_block (sim_io img) 0x8000 primary_disk 0x8000 lba 1)"

lemma avocado_fields [simp]:
  "fp_bytes_per_cluster avocado_priv = 0x10000" "fp_data_sector avocado_priv = 716"
  "fh_bytes_per_sector (fp_header avocado_priv) = 0x200" "fh_sectors_per_cluster (fp_header avocado_priv) = 0x80"
  "fh_reserved_sectors (fp_header avocado_priv) = 200" "fi_first_sector (fp_root_directory avocado_priv) = 712"
  by (simp_all add: avocado_priv_def avocado_header_def)

interpretation fv: fat_volume "sim_rb img" img 8192 av_idle avocado_priv junk for img junk
proof -
  have "fat_geometry avocado_priv" by (simp add: fat_geometry_def)
  then show "fat_volume (sim_rb img) img 8192 av_idle avocado_priv"
    using sim.bd_block_device [of img] by (simp add: fat_volume_def fat_volume_axioms_def sim_rb_def)
qed

section \<open>Properties of the driver\<close>

text \<open>
  C4: reading a file. On a volume with a sound geometry, for a file whose clusters form a chain
  of the FAT that ends with an end marker and is long enough for its size, \<open>fat16_read\<close>
  from any position returns \<open>min (size * nmemb) (size_bytes - pos)\<close>, delivers exactly those
  bytes of the file, across cluster boundaries, advances the position and raises the end-of-file
  flag exactly at the end.
\<close>
theorem fat16_read_returns_content:
  fixes sz nmemb :: u32 and desc :: fat_descriptor_t
  defines "fsize \<equiv> unat (fe_size_bytes (fi_entry (fd_item desc)))" and "p \<equiv> unat (fd_pos desc)"
  defines "n \<equiv> min (unat sz * unat nmemb) (fsize - p)"
  assumes "fat_volume rb img nsec ready priv" "ready (snd dv)" "fat_chain img priv nsec cs"
    and "\<not> fat16_item_is_root_dir priv (fd_item desc)" "fe_low16_bits_first_cluster (fi_entry (fd_item desc)) = hd cs"
    and "fi_first_sector (fd_item desc) = fat16_cluster_number_to_data_sector priv (hd cs)"
    and "\<not> fd_eof desc" "fsize \<le> length (chain_data img priv cs)" "unat sz * unat nmemb < 2 ^ 32"
  shows "\<exists>desc' dv'. fat16_read rb junk priv desc sz nmemb dv
      = Some (word_of_nat n, take n (drop p (take fsize (chain_data img priv cs))), desc', dv') \<and> ready (snd dv')
      \<and> unat (fd_pos desc') = p + n \<and> (fd_eof desc' \<longleftrightarrow> fsize \<le> p + n) \<and> fd_item desc' = fd_item desc"
  unfolding n_def fsize_def p_def
  by (rule fat_volume.read_content [OF assms(4-6)])
    (use assms(7-) in \<open>simp_all add: fat_volume.file_item_def [OF assms(4)] fsize_def\<close>)

text \<open>A file of two clusters, 2 and 5, of 70000 bytes, read across the cluster boundary.\<close>

definition demo_volume :: "nat \<Rightarrow> u8" where
  "demo_volume i = (if i = 102404 then 5 else if i = 102405 then 0 else if i = 102410 \<or> i = 102411 then 0xFF
     else word_of_nat (i mod 251))"

definition demo_item :: fat_item_t where
  "demo_item = \<lparr>fi_type = FAT16_FILE_FLAG,
     fi_entry = blank_entry\<lparr>fe_low16_bits_first_cluster := 2, fe_size_bytes := 70000\<rparr>,
     fi_first_sector = 716, fi_parent_dir_first_sector = 712, fi_parent_dir_position = 1\<rparr>"

definition demo_desc :: fat_descriptor_t where
  "demo_desc = \<lparr>fd_item = demo_item, fd_eof = False, fd_pos = 65530, fd_relative_pos = 0,
     fd_current_cluster_first_sector = 0, fd_disk = 0x8000, fd_error = 0\<rparr>"

definition demo_dev :: "ata_view fat_dev" where
  "demo_dev = (\<lparr>ds_ppos = 0, ds_disk = 0x8000\<rparr>, demo_view)"

lemma demo_dev_idle: "av_idle (snd demo_dev)"
  by (simp add: demo_dev_def demo_view_idle)

lemma demo_chain: "fat_chain demo_volume avocado_priv 8192 [2, 5]"
  by (simp add: cluster_ok_def cluster_addr_def fat_entry_addr_def fat_next_def demo_volume_def cluster_consts)

theorem fat16_read_returns_content_witness:
  "\<exists>desc' dv'. fat16_read (sim_rb demo_volume) [0, 0] avocado_priv demo_desc 2 5 demo_dev
      = Some (10, take 10 (drop 65530 (take 70000 (chain_data demo_volume avocado_priv [2, 5]))), desc', dv')
      \<and> unat (fd_pos desc') = 65540 \<and> \<not> fd_eof desc'"
  using fat16_read_returns_content [OF fv.fat_volume_axioms [of demo_volume] demo_dev_idle demo_chain,
      where desc = demo_desc and junk = "[0, 0]" and sz = 2 and nmemb = 5]
  by (auto simp: demo_desc_def demo_item_def fat16_item_is_root_dir_def FAT16_FILE_FLAG_def FAT16_ROOT_DIRECTORY_FLAG_def
      fat16_cluster_number_to_data_sector_def length_chain_data)

text \<open>
  Cluster numbers and sectors are inverse to each other on every cluster that lies on the disk,
  in 32-bit and 16-bit arithmetic.
\<close>
theorem fat16_cluster_sector_roundtrip:
  assumes "fat_geometry priv" "cluster_ok priv nsec c" "nsec \<le> 2 ^ 23"
  shows "fat16_sector_to_cluster_number priv (fat16_cluster_number_to_data_sector priv c) = Some c"
  by (rule sector_cluster_inverse [OF assms])

theorem fat16_cluster_sector_roundtrip_witness:
  "fat16_sector_to_cluster_number avocado_priv (fat16_cluster_number_to_data_sector avocado_priv 5) = Some 5"
  by (rule fat16_cluster_sector_roundtrip [of _ 8192])
    (simp_all add: fat_geometry_def cluster_ok_def cluster_addr_def fat_entry_addr_def cluster_consts)

text \<open>
  C21: looking up a name in the root directory returns the first entry with that 8.3 name, whatever
  deleted, long-name or volume-label entries come before it, provided it lies among the first
  \<open>data_sector / 32\<close> entries and in the first \<open>bytes_per_cluster\<close> bytes of the directory: the
  new item holds the entry, its kind, its first sector and its position, and the cursors are reset.
\<close>
theorem fat16_find_entry_in_root:
  assumes "fat_volume rb img nsec ready priv" "ready (snd dv)" "fat16_item_is_root_dir priv (fd_item desc)"
    and "32 * Suc j \<le> unat (fp_bytes_per_cluster priv)" "32 * Suc j \<le> unat (fp_data_sector priv)"
    and "unat (fi_first_sector (fp_root_directory priv)) * unat (fh_bytes_per_sector (fp_header priv)) + 32 * Suc j \<le> 512 * nsec"
    and "bytes (ks_mem s) filename 8 = fn" "0 \<notin> set fn" "bytes (ks_mem s) extension 3 = ext" "0 \<notin> set ext"
    and "\<And>k. k < j \<Longrightarrow> entry_passed fn ext (root_entry img priv k)" "entry_named fn ext (root_entry img priv j)"
    and "kzalloc s sizeof_fat_item = Some (p, s1)" "p \<noteq> NULL"
  shows "\<exists>desc' dv'. fat16_find_entry_in_dir rb junk priv s desc filename extension dv
      = Some (p, found_item priv (fi_first_sector (fd_item desc)) (root_entry img priv j) (word_of_nat (Suc j)), s1,
          fat16_reset_cursors desc', dv') \<and> ready (snd dv') \<and> fd_item desc' = fd_item desc"
proof -
  have r: "fat_volume.root_at priv (32 * 0) (fat16_reset_cursors desc)"
    using assms(3) by (simp add: fat_volume.root_at_def [OF assms(1)] fat16_reset_cursors_def fat16_item_is_root_dir_def)
  have len: "length fn = 8" "length ext = 3" using length_bytes assms(7,9) by metis+
  have eof: "\<not> fd_eof (fat16_reset_cursors desc)" by (simp add: fat16_reset_cursors_def)
  obtain desc' dv' where "fat16_find_loop rb junk priv fn ext (replicate 32 0) (word_of_nat 0) s (fat16_reset_cursors desc) dv
      = Some (p, found_item priv (fi_first_sector (fd_item (fat16_reset_cursors desc))) (root_entry img priv j)
          (word_of_nat (Suc j)), True, s1, desc', dv')" "ready (snd dv')" "fd_item desc' = fd_item (fat16_reset_cursors desc)"
    using fat_volume.find_named [OF assms(1,2) r eof le0 assms(4-6) len assms(8,10) _ _ assms(12-14), of "replicate 32 0" junk]
      assms(11) by auto
  moreover have "overwrite (replicate 8 32) (bytes (ks_mem s) filename (unat (strnlen (ks_mem s) filename 8))) = fn"
    "overwrite (replicate 3 32) (bytes (ks_mem s) extension (unat (strnlen (ks_mem s) extension 3))) = ext"
    using padded_array [of "ks_mem s" filename 8 fn] padded_array [of "ks_mem s" extension 3 ext] assms(7-10) by simp_all
  ultimately show ?thesis
    using assms(3)
    by (intro exI [of _ desc'] exI [of _ dv'])
      (simp add: fat16_find_entry_in_dir_def fat16_item_is_root_dir_def fat16_reset_cursors_def)
qed

text \<open>A root directory whose entry \<open>j\<close> is \<open>INIT.BIN\<close>, all others deleted.\<close>

definition init_entry :: "u8 list" where
  "init_entry = [0x49, 0x4E, 0x49, 0x54, 0x20, 0x20, 0x20, 0x20, 0x42, 0x49, 0x4E, 0x20] @ replicate 14 0
     @ [2, 0, 0x70, 0x11, 1, 0]"

definition dir_img :: "nat \<Rightarrow> nat \<Rightarrow> u8" where
  "dir_img j i = (if 364544 + 32 * j \<le> i \<and> i < 364544 + 32 * j + 32 then init_entry ! (i - (364544 + 32 * j)) else 0xE5)"

lemma dir_img_entry:
  "root_entry (dir_img j) avocado_priv j = fat_entry_of init_entry"
  "k \<noteq> j \<Longrightarrow> root_entry (dir_img j) avocado_priv k = fat_entry_of (replicate 32 0xE5)"
proof -
  have "map (dir_img j) [364544 + 32 * j..<364544 + 32 * j + 32] = init_entry"
    by (rule nth_equalityI) (simp_all add: dir_img_def init_entry_def)
  then show "root_entry (dir_img j) avocado_priv j = fat_entry_of init_entry" by (simp add: root_entry_def)
  assume "k \<noteq> j"
  then have "map (dir_img j) [364544 + 32 * k..<364544 + 32 * k + 32] = replicate 32 0xE5"
    by (intro nth_equalityI) (auto simp: dir_img_def)
  then show "root_entry (dir_img j) avocado_priv k = fat_entry_of (replicate 32 0xE5)" by (simp add: root_entry_def)
qed

abbreviation INIT :: "u8 list" where "INIT \<equiv> [0x49, 0x4E, 0x49, 0x54, 0x20, 0x20, 0x20, 0x20]"
abbreviation BIN :: "u8 list" where "BIN \<equiv> [0x42, 0x49, 0x4E]"

lemma deleted_not_INIT: "replicate 8 0xE5 \<noteq> INIT"
proof
  assume "replicate 8 0xE5 = INIT"
  then have "replicate 8 0xE5 ! 0 = INIT ! 0" by (rule arg_cong)
  then show False by simp
qed

lemma dir_img_lookup:
  "entry_named INIT BIN (root_entry (dir_img j) avocado_priv j)"
  "k \<noteq> j \<Longrightarrow> entry_passed INIT BIN (root_entry (dir_img j) avocado_priv k)"
  using deleted_not_INIT
  by (simp_all add: dir_img_entry entry_named_def entry_passed_def entry_skipped_def fat_entry_of_def init_entry_def
      FAT16_FILE_LFN_def FAT16_FILE_VOLUME_LABEL_def)

definition demo_root :: fat_descriptor_t where
  "demo_root = demo_desc\<lparr>fd_item := fp_root_directory avocado_priv\<rparr>"

lemma demo_root_is_root: "fat16_item_is_root_dir avocado_priv (fd_item demo_root)"
  by (simp add: demo_root_def fat16_item_is_root_dir_def avocado_priv_def)

lemma demo_name_state:
  obtains s p s1 where "bytes (ks_mem s) 0x1000 8 = INIT" "bytes (ks_mem s) 0x1010 3 = BIN"
    "kzalloc s sizeof_fat_item = Some (p, s1)" "p \<noteq> NULL"
proof -
  let ?m = "write_bytes (write_bytes (\<lambda>_. 0) 0x1000 INIT) 0x1010 BIN"
  let ?s0 = "\<lparr>ks_mem = ?m, ks_heap = demo_heap\<rparr>"
  obtain s where s: "kheap_init 0xC0101234 ?s0 = Some s" "kheap_inv s Map.empty" "kheap_room s 4094"
    "\<forall>a < 0xC0101234. kheap_ext s a \<and> ks_mem s a = ks_mem ?s0 a"
    by (rule kheap_init_state [of "0xC0101234" ?s0]) auto
  have "kheap_room s (Suc 4093)" using s(3) by simp
  moreover have "0 < sizeof_fat_item" "sizeof_fat_item \<le> 4096" by (simp_all add: sizeof_fat_item_def)
  ultimately obtain p s1 where "kzalloc s sizeof_fat_item = Some (p, s1)" "p \<noteq> NULL"
    by (rule kh.alloc_page [OF s(2)])
  moreover have "bytes (ks_mem s) 0x1000 8 = INIT" "bytes (ks_mem s) 0x1010 3 = BIN"
    using s(4) by (simp_all add: bytes_def upt_rec write_bytes_def in_region_def)
  ultimately show thesis by (intro that)
qed

theorem fat16_find_entry_in_root_witness:
  "\<exists>s p s1 desc' dv'. fat16_find_entry_in_dir (sim_rb (dir_img 3)) [0, 0] avocado_priv s demo_root 0x1000 0x1010 demo_dev
      = Some (p, found_item avocado_priv 712 (fat_entry_of init_entry) 4, s1, fat16_reset_cursors desc', dv') \<and> p \<noteq> NULL"
proof -
  obtain s p s1 where s: "bytes (ks_mem s) 0x1000 8 = INIT" "bytes (ks_mem s) 0x1010 3 = BIN"
    "kzalloc s sizeof_fat_item = Some (p, s1)" "p \<noteq> NULL" by (rule demo_name_state)
  have "fi_first_sector (fd_item demo_root) = 712" by (simp add: demo_root_def)
  with fat16_find_entry_in_root [OF fv.fat_volume_axioms [of "dir_img 3"] demo_dev_idle demo_root_is_root _ _ _ s(1) _ s(2) _
      dir_img_lookup(2) dir_img_lookup(1) s(3,4), where junk = "[0, 0]"] s(4)
  show ?thesis by (intro exI [of _ s] exI [of _ p] exI [of _ s1]) (auto simp: dir_img_entry)
qed

text \<open>
  C37: the same lookup fails when the name is not among the first \<open>data_sector / 32\<close> entries, however
  many entries the directory has after them: the root cursor compares a byte position with the
  sector number of the data region.
\<close>
theorem fat16_root_lookup_blind:
  assumes "fat_volume rb img nsec ready priv" "ready (snd dv)" "fat16_item_is_root_dir priv (fd_item desc)"
    and "N = unat (fp_data_sector priv) div 32" "32 * Suc N \<le> unat (fp_bytes_per_cluster priv)"
    and "unat (fi_first_sector (fp_root_directory priv)) * unat (fh_bytes_per_sector (fp_header priv)) + 32 * Suc N \<le> 512 * nsec"
    and "bytes (ks_mem s) filename 8 = fn" "0 \<notin> set fn" "bytes (ks_mem s) extension 3 = ext" "0 \<notin> set ext"
    and "\<And>k. k < N \<Longrightarrow> entry_passed fn ext (root_entry img priv k)"
  shows "\<exists>desc' dv'. fat16_find_entry_in_dir rb junk priv s desc filename extension dv
      = Some (NULL, blank_item, s, fat16_reset_cursors desc', dv') \<and> ready (snd dv')"
proof -
  have r: "fat_volume.root_at priv (32 * 0) (fat16_reset_cursors desc)"
    using assms(3) by (simp add: fat_volume.root_at_def [OF assms(1)] fat16_reset_cursors_def fat16_item_is_root_dir_def)
  have len: "length fn = 8" "length ext = 3" using length_bytes assms(7,9) by metis+
  have eof: "\<not> fd_eof (fat16_reset_cursors desc)" by (simp add: fat16_reset_cursors_def)
  obtain desc' dv' where "fat16_find_loop rb junk priv fn ext (replicate 32 0) 0 s (fat16_reset_cursors desc) dv
      = Some (NULL, blank_item, True, s, desc', dv')" "ready (snd dv')"
    using fat_volume.find_blind [OF assms(1,2) r eof le0 assms(4-6) len assms(8,10), of "replicate 32 0" junk 0 s]
      assms(11) by auto
  moreover have "overwrite (replicate 8 32) (bytes (ks_mem s) filename (unat (strnlen (ks_mem s) filename 8))) = fn"
    "overwrite (replicate 3 32) (bytes (ks_mem s) extension (unat (strnlen (ks_mem s) extension 3))) = ext"
    using padded_array [of "ks_mem s" filename 8 fn] padded_array [of "ks_mem s" extension 3 ext] assms(7-10) by simp_all
  ultimately show ?thesis
    using assms(3)
    by (intro exI [of _ desc'] exI [of _ dv']) (simp add: fat16_find_entry_in_dir_def fat16_item_is_root_dir_def)
qed

theorem fat16_root_lookup_blind_witness:
  "entry_named INIT BIN (root_entry (dir_img 30) avocado_priv 30)
   \<and> (\<exists>s desc' dv'. bytes (ks_mem s) 0x1000 8 = INIT \<and> bytes (ks_mem s) 0x1010 3 = BIN
       \<and> fat16_find_entry_in_dir (sim_rb (dir_img 30)) [0, 0] avocado_priv s demo_root 0x1000 0x1010 demo_dev
           = Some (NULL, blank_item, s, fat16_reset_cursors desc', dv'))"
proof -
  obtain s p s1 where s: "bytes (ks_mem s) 0x1000 8 = INIT" "bytes (ks_mem s) 0x1010 3 = BIN"
    "kzalloc s sizeof_fat_item = Some (p, s1)" by (rule demo_name_state)
  from fat16_root_lookup_blind [OF fv.fat_volume_axioms [of "dir_img 30"] demo_dev_idle demo_root_is_root _ _ _ s(1) _ s(2) _
      dir_img_lookup(2), where junk = "[0, 0]" and N = 22] s dir_img_lookup(1) [of 30]
  show ?thesis by auto
qed

end
