(* ===== verification/Paging.thy ===== *)
theory Paging
  imports Kheap Termio
begin

text \<open>
  Page directories, \<^verbatim>\<open>src/memory/paging.c\<close>. A \<open>page_directory_handle\<close> lies in memory: the pointer
  to the directory at offset 0 and the 1024 pointers \<open>directory_virtual\<close> to the page tables from
  offset 4. The memory is the one the kernel sees through its own mapping. The state keeps the heap,
  \<open>current_directory\<close>, the page bitmap, the terminal and the control registers; the link addresses of
  \<open>kernel_page_directory\<close> and \<open>BOOT_PAGE_DIRECTORY\<close> are arguments. \<open>None\<close> is a panic or an allocation
  that never returns.
\<close>

section \<open>The code\<close>

definition PAGING_ACCESS_FROM_ALL :: u32 where "PAGING_ACCESS_FROM_ALL = 4"
definition PAGING_WRITABLE_PAGE :: u32 where "PAGING_WRITABLE_PAGE = 2"
definition PAGING_PRESENT :: u32 where "PAGING_PRESENT = 1"
definition PSE_BIT :: u32 where "PSE_BIT = 0x10"
definition PAGING_PAGE_SIZE :: u32 where "PAGING_PAGE_SIZE = 4096"
definition ADDR_MASK :: u32 where "ADDR_MASK = 0xfffff000"

definition V_ADDR_PAGEDIR_INDEX :: "addr \<Rightarrow> u32" where "V_ADDR_PAGEDIR_INDEX vaddr = drop_bit 22 vaddr"
definition V_ADDR_PAGETBL_INDEX :: "addr \<Rightarrow> u32" where "V_ADDR_PAGETBL_INDEX vaddr = drop_bit 12 vaddr AND 0x3ff"
definition V_ADDR_PAGEFRAME_INDEX :: "addr \<Rightarrow> u32" where "V_ADDR_PAGEFRAME_INDEX vaddr = vaddr AND 0xfff"
definition V_ADDR_PAGEFRAME_INDEX_PSE :: "addr \<Rightarrow> u32" where "V_ADDR_PAGEFRAME_INDEX_PSE vaddr = vaddr AND 0x3fffff"
definition PAGE_ENTRY_PSE_BIT :: "u32 \<Rightarrow> u32" where "PAGE_ENTRY_PSE_BIT e = e AND 0x80"
definition PAGE_ENTRY_ADDR :: "u32 \<Rightarrow> u32" where "PAGE_ENTRY_ADDR e = e AND ADDR_MASK"
definition PAGE_ENTRY_FLAGS :: "u32 \<Rightarrow> u32" where "PAGE_ENTRY_FLAGS e = e AND NOT ADDR_MASK"

record paging_state =
  pg_ks :: kstate
  pg_current_directory :: addr
  pg_bitmap_begin :: addr
  pg_bitmap_end :: addr
  pg_cr0 :: u32
  pg_cr3 :: u32
  pg_cr4 :: u32
  pg_interrupts :: bool
  pg_term :: terminal

definition sizeof_page_directory_handle :: u32 where "sizeof_page_directory_handle = 4 + 4 * 1024"

text \<open>The places \<open>handle->directory[i]\<close>, \<open>handle->directory_virtual[i]\<close> and \<open>handle->directory_virtual[i][j]\<close>.\<close>

definition directory_at :: "mem \<Rightarrow> addr \<Rightarrow> u32 \<Rightarrow> addr" where
  "directory_at m handle i = load32 m handle + 4 * i"

definition directory_virtual_at :: "addr \<Rightarrow> u32 \<Rightarrow> addr" where
  "directory_virtual_at handle i = handle + 4 + 4 * i"

definition table_at :: "mem \<Rightarrow> addr \<Rightarrow> u32 \<Rightarrow> u32 \<Rightarrow> addr" where
  "table_at m handle i j = load32 m (directory_virtual_at handle i) + 4 * j"

abbreviation pg_mem :: "paging_state \<Rightarrow> mem" where
  "pg_mem st \<equiv> ks_mem (pg_ks st)"

definition pg_store :: "paging_state \<Rightarrow> addr \<Rightarrow> u32 \<Rightarrow> paging_state" where
  "pg_store st a v = st\<lparr>pg_ks := (pg_ks st)\<lparr>ks_mem := store32 (pg_mem st) a v\<rparr>\<rparr>"

definition virtual_to_physical_addr :: "paging_state \<Rightarrow> addr \<Rightarrow> addr \<Rightarrow> u32 option" where
  "virtual_to_physical_addr st handle virtual_addr =
     (let m = pg_mem st;
          page_directory_entry = load32 m (directory_at m handle (V_ADDR_PAGEDIR_INDEX virtual_addr))
      in if PAGE_ENTRY_PSE_BIT page_directory_entry \<noteq> 0
         then if pg_cr4 st AND PSE_BIT = 0 then None
              else Some (PAGE_ENTRY_ADDR page_directory_entry + V_ADDR_PAGEFRAME_INDEX_PSE virtual_addr)
         else let page_table_entry =
                    load32 m (table_at m handle (V_ADDR_PAGEDIR_INDEX virtual_addr) (V_ADDR_PAGETBL_INDEX virtual_addr))
              in Some (PAGE_ENTRY_ADDR page_table_entry + V_ADDR_PAGEFRAME_INDEX virtual_addr))"

definition paging_addr_is_page_aligned :: "addr \<Rightarrow> bool" where
  "paging_addr_is_page_aligned a \<longleftrightarrow> a AND (PAGING_PAGE_SIZE - 1) = 0"

definition paging_align_address :: "addr \<Rightarrow> addr" where
  "paging_align_address a = PAGING_PAGE_SIZE * ((a + (PAGING_PAGE_SIZE - 1)) div PAGING_PAGE_SIZE)"

definition init_page_bitmap :: "u32 \<Rightarrow> paging_state \<Rightarrow> paging_state option" where
  "init_page_bitmap number_of_pages st =
     (case kzalloc (pg_ks st) number_of_pages of None \<Rightarrow> None
      | Some (b, ks) \<Rightarrow>
          if \<not> paging_addr_is_page_aligned b then None
          else Some (st\<lparr>pg_ks := ks\<lparr>ks_mem := memset (ks_mem ks) b 1 (drop_bit 12 number_of_pages)\<rparr>,
                        pg_bitmap_begin := b, pg_bitmap_end := b + number_of_pages\<rparr>))"

definition paging_switch_directory :: "addr \<Rightarrow> paging_state \<Rightarrow> paging_state" where
  "paging_switch_directory handle st =
     st\<lparr>pg_cr3 := PAGE_ENTRY_ADDR (load32 (pg_mem st) (directory_at (pg_mem st) handle 1023)),
        pg_current_directory := handle\<rparr>"

text \<open>
  The first guard of \<open>paging_map_page\<close> allocates the page table, and its second one allocates again
  if that failed.
\<close>

definition paging_alloc_table :: "paging_state \<Rightarrow> addr \<Rightarrow> u32 \<Rightarrow> paging_state option" where
  "paging_alloc_table st handle directory_index =
     (case kzalloc (pg_ks st) PAGING_PAGE_SIZE of None \<Rightarrow> None
      | Some (t, ks) \<Rightarrow> Some (pg_store (st\<lparr>pg_ks := ks\<rparr>) (directory_virtual_at handle directory_index) t))"

definition paging_new_table :: "paging_state \<Rightarrow> addr \<Rightarrow> u32 \<Rightarrow> u16 \<Rightarrow> paging_state option" where
  "paging_new_table st handle directory_index flags =
     (case paging_alloc_table st handle directory_index of None \<Rightarrow> None
      | Some st1 \<Rightarrow>
          (case virtual_to_physical_addr st1 (pg_current_directory st1)
                  (load32 (pg_mem st1) (directory_virtual_at handle directory_index)) of None \<Rightarrow> None
           | Some pa \<Rightarrow> Some (pg_store st1 (directory_at (pg_mem st1) handle directory_index) (pa OR ucast flags))))"

text \<open>The message \<open>paging_map_page\<close> prints before it returns.\<close>

definition paging_print_mapping :: "paging_state \<Rightarrow> addr \<Rightarrow> u32 \<Rightarrow> u32 \<Rightarrow> u32 \<Rightarrow> paging_state option" where
  "paging_print_mapping st handle directory_index table_index page_ptr =
     (let m = pg_mem st in
      case print_itoa (PAGE_ENTRY_ADDR (load32 m (directory_at m handle 1023))) (print_literal ''*('' (pg_term st)) of
        None \<Rightarrow> None
      | Some t1 \<Rightarrow>
     (case print_itoa directory_index (print_literal '')['' t1) of None \<Rightarrow> None
      | Some t2 \<Rightarrow>
     (case print_itoa (load32 m (directory_at m handle directory_index)) (print_literal ''] -> (*'' t2) of None \<Rightarrow> None
      | Some t3 \<Rightarrow>
     (case print_itoa table_index (print_literal '')['' t3) of None \<Rightarrow> None
      | Some t4 \<Rightarrow>
     (case print_itoa page_ptr (print_literal ''] -> '' t4) of None \<Rightarrow> None
      | Some t5 \<Rightarrow> Some (st\<lparr>pg_term := print_literal [CHR 0x0A] t5\<rparr>))))))"

definition paging_map_page :: "paging_state \<Rightarrow> addr \<Rightarrow> addr \<Rightarrow> u32 \<Rightarrow> u16 \<Rightarrow> (int \<times> paging_state) option" where
  "paging_map_page st handle virt_addr page_ptr flags =
     (if \<not> paging_addr_is_page_aligned virt_addr \<or> \<not> paging_addr_is_page_aligned page_ptr then Some (- EINVAL, st)
      else let directory_index = V_ADDR_PAGEDIR_INDEX virt_addr; table_index = V_ADDR_PAGETBL_INDEX virt_addr
           in case (if load32 (pg_mem st) (directory_virtual_at handle directory_index) = NULL
                    then paging_new_table st handle directory_index flags else Some st) of None \<Rightarrow> None
              | Some st1 \<Rightarrow>
             (case (if load32 (pg_mem st1) (directory_virtual_at handle directory_index) = NULL
                    then paging_alloc_table st1 handle directory_index else Some st1) of None \<Rightarrow> None
              | Some st2 \<Rightarrow>
                  let st3 = pg_store st2 (table_at (pg_mem st2) handle directory_index table_index) (page_ptr OR ucast flags)
                  in case paging_print_mapping st3 handle directory_index table_index page_ptr of None \<Rightarrow> None
                     | Some st4 \<Rightarrow> Some (0, st4)))"

text \<open>The \<open>for\<close> loop of \<open>paging_map_range\<close>, with the number of pages left.\<close>

fun paging_map_range_loop ::
  "paging_state \<Rightarrow> addr \<Rightarrow> addr \<Rightarrow> u32 \<Rightarrow> nat \<Rightarrow> u16 \<Rightarrow> (int \<times> paging_state) option" where
  "paging_map_range_loop st handle virt_addr phys_addr 0 flags = Some (0, st)"
| "paging_map_range_loop st handle virt_addr phys_addr (Suc n) flags =
     (case paging_map_page st handle virt_addr phys_addr flags of None \<Rightarrow> None
      | Some (res, st1) \<Rightarrow>
          if res \<noteq> 0 then Some (res, st1)
          else paging_map_range_loop st1 handle (virt_addr + PAGING_PAGE_SIZE) (phys_addr + PAGING_PAGE_SIZE) n flags)"

definition paging_map_range ::
  "paging_state \<Rightarrow> addr \<Rightarrow> addr \<Rightarrow> u32 \<Rightarrow> int \<Rightarrow> u32 \<Rightarrow> (int \<times> paging_state) option" where
  "paging_map_range st handle virt_addr phys_addr count flags =
     (if \<not> paging_addr_is_page_aligned virt_addr \<or> \<not> paging_addr_is_page_aligned phys_addr then Some (- EINVAL, st)
      else paging_map_range_loop st handle virt_addr phys_addr (nat count) (ucast flags))"

definition paging_map_from_to ::
  "paging_state \<Rightarrow> addr \<Rightarrow> addr \<Rightarrow> u32 \<Rightarrow> u32 \<Rightarrow> u32 \<Rightarrow> (int \<times> paging_state) option" where
  "paging_map_from_to st handle virt_addr phys_begin phys_end flags =
     (if \<not> paging_addr_is_page_aligned virt_addr \<or> \<not> paging_addr_is_page_aligned phys_begin then Some (- EINVAL, st)
      else if \<not> paging_addr_is_page_aligned phys_end then Some (- EINVAL, st)
      else if phys_end < phys_begin then Some (- EINVAL, st)
      else let total_pages = sint ((phys_end - phys_begin) div PAGING_PAGE_SIZE)
           in paging_map_range st handle virt_addr phys_begin total_pages flags)"

text \<open>One turn of the loop of \<open>paging_clone_directory\<close>, and the whole function.\<close>

definition paging_clone_entry :: "addr \<Rightarrow> addr \<Rightarrow> addr \<Rightarrow> u32 \<Rightarrow> paging_state \<Rightarrow> paging_state option" where
  "paging_clone_entry kernel_page_directory src copy i st =
     (let m = pg_mem st; e = load32 m (directory_at m src i)
      in if e = 0 then Some st
         else if load32 m (directory_at m kernel_page_directory i) = e
         then let st1 = pg_store st (directory_at m copy i) (load32 m (directory_at m kernel_page_directory i))
              in Some (pg_store st1 (directory_virtual_at copy i)
                         (load32 (pg_mem st1) (directory_virtual_at kernel_page_directory i)))
         else case paging_alloc_table st copy i of None \<Rightarrow> None
              | Some st1 \<Rightarrow>
                  let m1 = pg_mem st1; t = load32 m1 (directory_virtual_at copy i);
                      m2 = memcpy m1 t (load32 m1 (directory_virtual_at src i)) PAGING_PAGE_SIZE;
                      st2 = st1\<lparr>pg_ks := (pg_ks st1)\<lparr>ks_mem := m2\<rparr>\<rparr>
                  in case virtual_to_physical_addr st2 (pg_current_directory st2)
                            (load32 m2 (directory_virtual_at copy i)) of None \<Rightarrow> None
                     | Some pa \<Rightarrow>
                         let st3 = pg_store st2 (directory_at m2 copy i) pa; m3 = pg_mem st3
                         in Some (pg_store st3 (directory_at m3 copy i)
                              (load32 m3 (directory_at m3 copy i) OR PAGE_ENTRY_FLAGS (load32 m3 (directory_at m3 src i)))))"

fun paging_clone_loop :: "addr \<Rightarrow> addr \<Rightarrow> addr \<Rightarrow> nat list \<Rightarrow> paging_state \<Rightarrow> paging_state option" where
  "paging_clone_loop kernel_page_directory src copy [] st = Some st"
| "paging_clone_loop kernel_page_directory src copy (i # is) st =
     (case paging_clone_entry kernel_page_directory src copy (word_of_nat i) st of None \<Rightarrow> None
      | Some st1 \<Rightarrow> paging_clone_loop kernel_page_directory src copy is st1)"

definition paging_clone_directory :: "addr \<Rightarrow> addr \<Rightarrow> paging_state \<Rightarrow> (addr \<times> paging_state) option" where
  "paging_clone_directory kernel_page_directory src st =
     (case kzalloc (pg_ks st) sizeof_page_directory_handle of None \<Rightarrow> None
      | Some (copy, ks) \<Rightarrow>
     (case kzalloc ks PAGING_PAGE_SIZE of None \<Rightarrow> None
      | Some (d, ks1) \<Rightarrow>
          let st1 = pg_store (st\<lparr>pg_ks := ks1\<rparr>) copy d;
              st2 = st1\<lparr>pg_ks := (pg_ks st1)\<lparr>ks_mem := memset (pg_mem st1) (copy + 4) 0 4096\<rparr>\<rparr>
          in case paging_clone_loop kernel_page_directory src copy [0..<1023] st2 of None \<Rightarrow> None
             | Some st3 \<Rightarrow>
                 let st4 = pg_store st3 (directory_virtual_at copy 1023) (load32 (pg_mem st3) copy)
                 in case virtual_to_physical_addr st4 (pg_current_directory st4)
                           (load32 (pg_mem st4) (directory_virtual_at copy 1023)) of None \<Rightarrow> None
                    | Some pa \<Rightarrow>
                        let st5 = pg_store st4 (directory_at (pg_mem st4) copy 1023) pa; m5 = pg_mem st5
                        in Some (copy, pg_store st5 (directory_at m5 copy 1023)
                             (load32 m5 (directory_at m5 copy 1023) OR (PAGING_WRITABLE_PAGE OR PAGING_PRESENT)))))"

text \<open>
  \<open>paging_init\<close>, from the state the boot code leaves: the empty directory of the kernel that maps itself in its last
  entry, the two mappings, and the switch to the new directory. Setting the top bit of \<open>cr0\<close> turns paging on.
\<close>

definition paging_init_directory :: "addr \<Rightarrow> addr \<Rightarrow> paging_state \<Rightarrow> paging_state option" where
  "paging_init_directory BOOT_PAGE_DIRECTORY kernel_page_directory st =
     (let number_of_pages = (KERNEL_HEAP_SIZE + PAGING_PAGE_SIZE - 1) div PAGING_PAGE_SIZE
      in case init_page_bitmap number_of_pages st of None \<Rightarrow> None
         | Some st1 \<Rightarrow>
        (case kzalloc (pg_ks st1) sizeof_page_directory_handle of None \<Rightarrow> None
         | Some (cur, ks) \<Rightarrow>
             let st2 = pg_store (st1\<lparr>pg_ks := ks, pg_current_directory := cur\<rparr>) cur BOOT_PAGE_DIRECTORY;
                 st3 = st2\<lparr>pg_ks := (pg_ks st2)\<lparr>ks_mem := memset (pg_mem st2) kernel_page_directory 0 sizeof_page_directory_handle\<rparr>\<rparr>
             in case kzalloc (pg_ks st3) PAGING_PAGE_SIZE of None \<Rightarrow> None
                | Some (d, ks3) \<Rightarrow>
                    let st4 = pg_store (st3\<lparr>pg_ks := ks3\<rparr>) kernel_page_directory d
                    in case virtual_to_physical_addr st4 cur (load32 (pg_mem st4) kernel_page_directory) of None \<Rightarrow> None
                       | Some pa \<Rightarrow>
             let e = directory_at (pg_mem st4) kernel_page_directory 1023;
                 st5 = pg_store st4 e pa;
                 st6 = pg_store st5 e (load32 (pg_mem st5) e OR (PAGING_WRITABLE_PAGE OR PAGING_PRESENT));
                 st7 = pg_store st6 (directory_virtual_at kernel_page_directory 1023) (load32 (pg_mem st6) kernel_page_directory)
             in case virtual_to_physical_addr st7 cur (load32 (pg_mem st7) kernel_page_directory) of None \<Rightarrow> None
                | Some pa2 \<Rightarrow> if pa2 AND NOT ADDR_MASK \<noteq> 0 then None else Some st7))"

definition paging_init_enter :: "addr \<Rightarrow> paging_state \<Rightarrow> paging_state option" where
  "paging_init_enter kernel_page_directory st =
     (let st1 = st\<lparr>pg_interrupts := False,
                   pg_cr3 := PAGE_ENTRY_ADDR (load32 (pg_mem st) (directory_at (pg_mem st) kernel_page_directory 1023)),
                   pg_cr4 := pg_cr4 st AND NOT PSE_BIT, pg_cr0 := pg_cr0 st OR 0x80000000\<rparr>
      in case kfree (pg_ks st1) (pg_current_directory st1) of None \<Rightarrow> None
         | Some ks \<Rightarrow> Some (st1\<lparr>pg_ks := ks, pg_current_directory := kernel_page_directory\<rparr>))"

definition paging_init :: "addr \<Rightarrow> addr \<Rightarrow> paging_state \<Rightarrow> paging_state option" where
  "paging_init BOOT_PAGE_DIRECTORY kernel_page_directory st =
     (case paging_init_directory BOOT_PAGE_DIRECTORY kernel_page_directory st of None \<Rightarrow> None
      | Some st1 \<Rightarrow>
     (case paging_map_from_to st1 kernel_page_directory 0 0 0x400000 (PAGING_WRITABLE_PAGE OR PAGING_PRESENT) of None \<Rightarrow> None
      | Some (r1, st2) \<Rightarrow>
          if r1 \<noteq> 0 then None
          else case paging_map_from_to st2 kernel_page_directory 0xC0000000 0 0x400000 (PAGING_WRITABLE_PAGE OR PAGING_PRESENT) of
                 None \<Rightarrow> None
               | Some (r2, st3) \<Rightarrow> if r2 \<noteq> 0 then None else paging_init_enter kernel_page_directory st3))"

section \<open>Walking the tables\<close>

text \<open>Directory, directory entries, tables and table entries of a handle, with indices as numbers.\<close>

definition pdir :: "mem \<Rightarrow> addr \<Rightarrow> addr" where "pdir m h = load32 m h"
definition pde :: "mem \<Rightarrow> addr \<Rightarrow> nat \<Rightarrow> u32" where "pde m h i = load32 m (pdir m h + 4 * word_of_nat i)"
definition ptbl :: "mem \<Rightarrow> addr \<Rightarrow> nat \<Rightarrow> addr" where "ptbl m h i = load32 m (h + 4 + 4 * word_of_nat i)"
definition pte :: "mem \<Rightarrow> addr \<Rightarrow> nat \<Rightarrow> nat \<Rightarrow> u32" where "pte m h i j = load32 m (ptbl m h i + 4 * word_of_nat j)"

abbreviation dir_index :: "addr \<Rightarrow> nat" where "dir_index v \<equiv> unat v div 4194304"
abbreviation tbl_index :: "addr \<Rightarrow> nat" where "tbl_index v \<equiv> unat v div 4096 mod 1024"

lemma page_indices:
  "V_ADDR_PAGEDIR_INDEX v = word_of_nat (dir_index v)" "V_ADDR_PAGETBL_INDEX v = word_of_nat (tbl_index v)"
proof -
  have "unat (drop_bit 22 v) = dir_index v" by (simp add: unsigned_drop_bit_eq drop_bit_eq_div unat_div)
  then show "V_ADDR_PAGEDIR_INDEX v = word_of_nat (dir_index v)"
    unfolding V_ADDR_PAGEDIR_INDEX_def by (metis word_eq_of_nat_unat)
  have "drop_bit 12 v AND 0x3ff = take_bit 10 (drop_bit 12 v)" by (simp add: take_bit_eq_mask mask_eq_exp_minus_1)
  moreover have "unat (take_bit 10 (drop_bit 12 v)) = tbl_index v"
    by (simp add: unsigned_take_bit_eq unsigned_drop_bit_eq take_bit_eq_mod drop_bit_eq_div unat_div unat_mod)
  ultimately show "V_ADDR_PAGETBL_INDEX v = word_of_nat (tbl_index v)"
    unfolding V_ADDR_PAGETBL_INDEX_def by (metis word_eq_of_nat_unat)
qed

lemma dir_index_lt: "dir_index v < 1024"
  using unat_lt_2p32 [of v] by (simp add: div_less_iff_less_mult)

lemma virtual_to_physical_eq:
  "virtual_to_physical_addr st h v =
     (if pde (pg_mem st) h (dir_index v) AND 0x80 \<noteq> 0
      then if pg_cr4 st AND PSE_BIT = 0 then None
           else Some (PAGE_ENTRY_ADDR (pde (pg_mem st) h (dir_index v)) + V_ADDR_PAGEFRAME_INDEX_PSE v)
      else Some (PAGE_ENTRY_ADDR (pte (pg_mem st) h (dir_index v) (tbl_index v)) + V_ADDR_PAGEFRAME_INDEX v))"
  by (simp add: virtual_to_physical_addr_def Let_def directory_at_def table_at_def directory_virtual_at_def
      page_indices pde_def pdir_def pte_def ptbl_def PAGE_ENTRY_PSE_BIT_def)

text \<open>Entries of a table of 1024 words.\<close>

lemma unat_4_mult: "i < 1024 \<Longrightarrow> unat (4 * word_of_nat i :: u32) = 4 * i"
  by (simp add: unat_word_ariths unat_word_of_nat_lt)

lemma entry_place_region:
  assumes "i < 1024" "in_region a (p + 4 * word_of_nat i) 4"
  shows "in_region a p 4096"
proof -
  have "in_region a (p + word_of_nat (4 * i)) 4" using assms(2) by simp
  then have "in_region a p (4 * i + 4)"
    using assms(1) in_region_add [of "4 * i" 4 a p] by (simp del: of_nat_mult)
  then show ?thesis by (rule in_region_mono) (use assms(1) in simp)
qed

lemma handle_place_region:
  assumes "i < 1024" "in_region a (h + 4 + 4 * word_of_nat i) 4"
  shows "in_region a h 4100"
proof -
  have "in_region a (h + 4) 4096" using entry_place_region [OF assms] .
  then show ?thesis using in_region_add [of 4 4096 a h] by simp
qed

lemma entry_places_disjoint:
  assumes "i < 1024" "j < 1024" "i \<noteq> j"
  shows "regions_disjoint (p + 4 * word_of_nat i) 4 (p + 4 * word_of_nat j) 4"
proof -
  have "4 \<le> unat (4 * word_of_nat k - 4 * word_of_nat l :: u32)" if "k < 1024" "l < 1024" "k \<noteq> l" for k l
    using that by (cases "l \<le> k") (auto simp: unat_sub_if' unat_4_mult)
  from this [of i j] this [of j i] assms show ?thesis by (simp add: regions_disjoint_def)
qed

lemma load32_region:
  assumes "\<And>a. in_region a p n \<Longrightarrow> m' a = m a" "\<And>a. in_region a q 4 \<Longrightarrow> in_region a p n"
  shows "load32 m' q = load32 m q"
  using assms by (intro load32_cong) blast

text \<open>A change of memory that spares the handle and the directory keeps what they say.\<close>

lemma pd_frame:
  assumes "\<And>a. in_region a h 4100 \<Longrightarrow> m' a = m a" "\<And>a. in_region a (pdir m h) 4096 \<Longrightarrow> m' a = m a"
  shows "pdir m' h = pdir m h" "i < 1024 \<Longrightarrow> pde m' h i = pde m h i" "i < 1024 \<Longrightarrow> ptbl m' h i = ptbl m h i"
proof -
  show d: "pdir m' h = pdir m h"
    unfolding pdir_def by (rule load32_region [OF assms(1)]) (auto intro: in_region_mono)
  show "pde m' h i = pde m h i" if "i < 1024"
    unfolding pde_def d by (rule load32_region [OF assms(2)]) (use that entry_place_region in auto)
  show "ptbl m' h i = ptbl m h i" if "i < 1024"
    unfolding ptbl_def by (rule load32_region [OF assms(1)]) (use that handle_place_region in auto)
qed

lemma pte_frame:
  assumes "ptbl m' h i = ptbl m h i" "\<And>a. in_region a (ptbl m h i) 4096 \<Longrightarrow> m' a = m a" "j < 1024"
  shows "pte m' h i j = pte m h i j"
  unfolding pte_def assms(1) by (rule load32_region [OF assms(2)]) (use assms(3) entry_place_region in auto)

section \<open>Well-formed directories\<close>

text \<open>
  A region the heap will not hand out: it is owned, or lies outside the memory of the heap.
\<close>

definition held :: "kstate \<Rightarrow> (addr \<rightharpoonup> nat) \<Rightarrow> addr \<Rightarrow> nat \<Rightarrow> bool" where
  "held s P p n \<longleftrightarrow> (\<exists>l. P p = Some l \<and> n \<le> l) \<or> (\<forall>a. in_region a p n \<longrightarrow> kheap_ext s a)"

lemma held_keep:
  assumes "held s P p n" "\<And>q l a. P q = Some l \<Longrightarrow> in_region a q l \<Longrightarrow> m' a = ks_mem s a"
    and "\<And>a. kheap_ext s a \<Longrightarrow> m' a = ks_mem s a" "in_region a p n"
  shows "m' a = ks_mem s a"
  using assms in_region_mono unfolding held_def by blast

lemma held_mono:
  "held s P p n \<Longrightarrow> (\<And>a. kheap_ext s a \<Longrightarrow> kheap_ext s' a) \<Longrightarrow> P q = None \<Longrightarrow> held s' (P(q \<mapsto> l)) p n"
  unfolding held_def by auto

lemma held_disjoint_new:
  assumes "held s P p n" "P q = None" "kheap_inv s' (P(q \<mapsto> l))" "\<And>a. kheap_ext s a \<Longrightarrow> kheap_ext s' a" "0 < n" "0 < l"
  shows "regions_disjoint q l p n"
  using assms(1) unfolding held_def
proof
  assume "\<exists>l'. P p = Some l' \<and> n \<le> l'"
  then obtain l' where l': "P p = Some l'" "n \<le> l'" by blast
  then have "p \<noteq> q" using assms(2) by auto
  then have "regions_disjoint q l p l'"
    using kh.live_disjoint [OF assms(3), of q l p l'] l'(1) by simp
  then show ?thesis using regions_disjoint_mono l'(2) by blast
next
  assume "\<forall>a. in_region a p n \<longrightarrow> kheap_ext s a"
  then have "\<And>a. in_region a q l \<Longrightarrow> \<not> in_region a p n"
    using kh.ext_not_live [OF assms(3), of q l] assms(4) by auto
  then show ?thesis by (intro regions_disjointI assms(5,6))
qed

definition pd_wf :: "paging_state \<Rightarrow> (addr \<rightharpoonup> nat) \<Rightarrow> addr \<Rightarrow> bool" where
  "pd_wf st P h \<longleftrightarrow> (let m = pg_mem st; s = pg_ks st; d = pdir m h in
     held s P h 4100 \<and> held s P d 4096 \<and> regions_disjoint h 4100 d 4096
     \<and> (\<forall>i<1023. ptbl m h i \<noteq> 0 \<longrightarrow> held s P (ptbl m h i) 4096
          \<and> regions_disjoint h 4100 (ptbl m h i) 4096 \<and> regions_disjoint d 4096 (ptbl m h i) 4096)
     \<and> (\<forall>i<1023. \<forall>j<1023. i \<noteq> j \<longrightarrow> ptbl m h i \<noteq> 0 \<longrightarrow> ptbl m h j \<noteq> 0
          \<longrightarrow> regions_disjoint (ptbl m h i) 4096 (ptbl m h j) 4096))"

text \<open>
  The directory in force can translate addresses while \<open>h\<close> changes: large pages are on, or it has
  none and is \<open>h\<close> itself or apart from everything \<open>h\<close> owns.
\<close>

definition apart :: "mem \<Rightarrow> addr \<Rightarrow> addr \<Rightarrow> nat \<Rightarrow> bool" where
  "apart m h q n \<longleftrightarrow> regions_disjoint h 4100 q n \<and> regions_disjoint (pdir m h) 4096 q n
     \<and> (\<forall>i<1023. ptbl m h i \<noteq> 0 \<longrightarrow> regions_disjoint (ptbl m h i) 4096 q n)"

definition can_translate :: "paging_state \<Rightarrow> (addr \<rightharpoonup> nat) \<Rightarrow> addr \<Rightarrow> bool" where
  "can_translate st P h \<longleftrightarrow> (let m = pg_mem st; s = pg_ks st; cur = pg_current_directory st in
     pg_cr4 st AND PSE_BIT \<noteq> 0
     \<or> (\<forall>i<1024. pde m cur i AND 0x80 = 0) \<and> held s P (pdir m cur) 4096
       \<and> (cur = h \<or> held s P cur 4 \<and> apart m h cur 4 \<and> apart m h (pdir m cur) 4096))"

definition pg_inv :: "paging_state \<Rightarrow> (addr \<rightharpoonup> nat) \<Rightarrow> addr \<Rightarrow> nat \<Rightarrow> bool" where
  "pg_inv st P h k \<longleftrightarrow> kheap_inv (pg_ks st) P \<and> kheap_room (pg_ks st) k \<and> pd_wf st P h \<and> can_translate st P h"

lemma held_heap: "ks_heap s' = ks_heap s \<Longrightarrow> held s' P p n = held s P p n"
  by (simp add: held_def kheap_ext_def)

text \<open>Writes to regions that are held leave the heap alone.\<close>

lemma held_not_table:
  assumes "kheap_inv s P" "held s P p n" "in_region x p n"
  shows "\<not> in_region x (ht_entries (hp_table (ks_heap s))) (unat (ht_len (hp_table (ks_heap s))))"
  using assms(2) unfolding held_def
proof
  assume "\<exists>l. P p = Some l \<and> n \<le> l"
  then obtain l where l: "P p = Some l" "n \<le> l" by blast
  from assms(1) obtain A where inv: "heap_inv (ks_mem s) (ks_heap s) A" and P: "P = live_map (ks_heap s) A"
    by (auto simp: kheap_inv_def)
  from live_map_Some [OF inv l(1) [unfolded P]] obtain b k where b: "p = block_addr (ks_heap s) b" "l = 4096 * k"
    "b + k \<le> unat (ht_len (hp_table (ks_heap s)))" by blast
  show ?thesis using block_not_table [OF heap_invD(1) [OF inv] b(3)] in_region_mono [OF assms(3) l(2)] b by blast
qed (use assms(3) in \<open>auto simp: kheap_ext_def Let_def\<close>)

lemma held_writes:
  assumes "kheap_inv s P" "\<And>x. (\<And>p n. held s P p n \<Longrightarrow> \<not> in_region x p n) \<Longrightarrow> m x = ks_mem s x"
  shows "kheap_inv (s\<lparr>ks_mem := m\<rparr>) P" "kheap_room s k \<Longrightarrow> kheap_room (s\<lparr>ks_mem := m\<rparr>) k"
proof -
  let ?hp = "ks_heap s"
  from assms(1) obtain A where inv: "heap_inv (ks_mem s) ?hp A" and P: "P = live_map ?hp A"
    and top: "\<forall>b n. A b = Some n \<longrightarrow> b + n < unat (ht_len (hp_table ?hp))" by (auto simp: kheap_inv_def)
  have same: "m x = ks_mem s x" if "in_region x (ht_entries (hp_table ?hp)) (unat (ht_len (hp_table ?hp)))" for x
    using that assms(2) held_not_table [OF assms(1)] by blast
  show "kheap_inv (s\<lparr>ks_mem := m\<rparr>) P"
    unfolding kheap_inv_def using heap_inv_cong [OF inv same] P top by auto
  show "kheap_room s k \<Longrightarrow> kheap_room (s\<lparr>ks_mem := m\<rparr>) k"
    unfolding kheap_room_def Let_def using same entry_region [of _ ?hp] by (auto simp del: of_nat_add of_nat_Suc)
qed

lemma held_write:
  assumes "kheap_inv s P" "held s P p n" "\<And>a. \<not> in_region a p n \<Longrightarrow> m a = ks_mem s a"
  shows "kheap_inv (s\<lparr>ks_mem := m\<rparr>) P" "kheap_room s k \<Longrightarrow> kheap_room (s\<lparr>ks_mem := m\<rparr>) k"
  using held_writes [OF assms(1), of m] assms(2,3) by blast+

lemma pg_store_simps [simp]:
  "pg_mem (pg_store st a v) = store32 (pg_mem st) a v" "ks_heap (pg_ks (pg_store st a v)) = ks_heap (pg_ks st)"
  "pg_cr4 (pg_store st a v) = pg_cr4 st" "pg_current_directory (pg_store st a v) = pg_current_directory st"
  by (simp_all add: pg_store_def)

lemma pg_store_heap:
  assumes "kheap_inv (pg_ks st) P" "held (pg_ks st) P p n" "\<And>x. in_region x a 4 \<Longrightarrow> in_region x p n"
  shows "kheap_inv (pg_ks (pg_store st a v)) P"
    "kheap_room (pg_ks st) k \<Longrightarrow> kheap_room (pg_ks (pg_store st a v)) k"
proof -
  have "store32 (pg_mem st) a v x = pg_mem st x" if "\<not> in_region x p n" for x
    using that assms(3) store32_outside by blast
  from held_write [OF assms(1,2) this]
  show "kheap_inv (pg_ks (pg_store st a v)) P"
    "kheap_room (pg_ks st) k \<Longrightarrow> kheap_room (pg_ks (pg_store st a v)) k" by (simp_all add: pg_store_def)
qed

lemma pd_wfD:
  assumes "pd_wf st P h"
  shows "held (pg_ks st) P h 4100" "held (pg_ks st) P (pdir (pg_mem st) h) 4096"
    "regions_disjoint h 4100 (pdir (pg_mem st) h) 4096"
    "\<And>i. i < 1023 \<Longrightarrow> ptbl (pg_mem st) h i \<noteq> 0 \<Longrightarrow> held (pg_ks st) P (ptbl (pg_mem st) h i) 4096
        \<and> regions_disjoint h 4100 (ptbl (pg_mem st) h i) 4096
        \<and> regions_disjoint (pdir (pg_mem st) h) 4096 (ptbl (pg_mem st) h i) 4096"
    "\<And>i j. i < 1023 \<Longrightarrow> j < 1023 \<Longrightarrow> i \<noteq> j \<Longrightarrow> ptbl (pg_mem st) h i \<noteq> 0 \<Longrightarrow> ptbl (pg_mem st) h j \<noteq> 0
        \<Longrightarrow> regions_disjoint (ptbl (pg_mem st) h i) 4096 (ptbl (pg_mem st) h j) 4096"
  using assms unfolding pd_wf_def Let_def by blast+

text \<open>The directory in force is spared by a write into something \<open>h\<close> owns.\<close>

lemma current_spared:
  assumes "can_translate st P h" "pg_cr4 st AND PSE_BIT = 0" "pg_current_directory st \<noteq> h"
    and "\<And>q n. apart (pg_mem st) h q n \<Longrightarrow> regions_disjoint r l q n"
    and "\<And>a. \<not> in_region a r l \<Longrightarrow> m' a = pg_mem st a"
  shows "pdir m' (pg_current_directory st) = pdir (pg_mem st) (pg_current_directory st)"
    "i < 1024 \<Longrightarrow> pde m' (pg_current_directory st) i = pde (pg_mem st) (pg_current_directory st) i"
proof -
  let ?m = "pg_mem st" and ?c = "pg_current_directory st"
  have a: "apart ?m h ?c 4" "apart ?m h (pdir ?m ?c) 4096"
    using assms(1-3) by (auto simp: can_translate_def Let_def)
  have same: "m' x = ?m x" if "apart ?m h q n" "in_region x q n" for x q n
    using assms(4) [OF that(1)] that(2) assms(5) [of x] regions_disjointD by blast
  show d: "pdir m' ?c = pdir ?m ?c" unfolding pdir_def by (rule load32_cong) (rule same [OF a(1)])
  show "pde m' ?c i = pde ?m ?c i" if "i < 1024"
    unfolding pde_def d by (rule load32_region [OF same [OF a(2)]]) (use that entry_place_region in auto)
qed

lemma can_translate_keep:
  assumes "can_translate st P h" "ks_heap (pg_ks st') = ks_heap (pg_ks st)" "pg_cr4 st' = pg_cr4 st"
    "pg_current_directory st' = pg_current_directory st"
    and "\<And>a. \<not> in_region a r l \<Longrightarrow> pg_mem st' a = pg_mem st a"
    and "\<And>q n. apart (pg_mem st) h q n \<Longrightarrow> regions_disjoint r l q n"
    and "pdir (pg_mem st') h = pdir (pg_mem st) h" "\<And>i. i < 1024 \<Longrightarrow> pde (pg_mem st) h i AND 0x80 = 0 \<Longrightarrow> pde (pg_mem st') h i AND 0x80 = 0"
    and "\<And>i. i < 1024 \<Longrightarrow> ptbl (pg_mem st') h i = ptbl (pg_mem st) h i"
  shows "can_translate st' P h"
proof (cases "pg_cr4 st AND PSE_BIT = 0")
  case True
  have ap: "apart (pg_mem st') h q n = apart (pg_mem st) h q n" for q n
    using assms(7,9) by (auto simp: apart_def)
  show ?thesis
  proof (cases "pg_current_directory st = h")
    case h: True
    then show ?thesis
      using assms(1,7,8) True unfolding can_translate_def Let_def assms(3,4) held_heap [OF assms(2)] by auto
  next
    case False
    note c = current_spared [OF assms(1) True False assms(6,5)]
    then show ?thesis
      using assms(1) True False unfolding can_translate_def Let_def assms(3,4) held_heap [OF assms(2)] by (auto simp: ap)
  qed
qed (use assms(3) in \<open>simp add: can_translate_def\<close>)

text \<open>Writing a page table entry.\<close>

lemma store_entry:
  fixes w :: u32
  assumes inv: "pg_inv st P h k" and i: "i < 1023" "ptbl (pg_mem st) h i \<noteq> 0" and j: "j < 1024"
  defines "st' \<equiv> pg_store st (ptbl (pg_mem st) h i + 4 * word_of_nat j) w"
  shows "pg_inv st' P h k" "pte (pg_mem st') h i j = w"
    "\<And>i'. i' < 1024 \<Longrightarrow> pde (pg_mem st') h i' = pde (pg_mem st) h i'"
    "\<And>i'. i' < 1024 \<Longrightarrow> ptbl (pg_mem st') h i' = ptbl (pg_mem st) h i'"
    "\<And>i' j'. i' < 1023 \<Longrightarrow> ptbl (pg_mem st) h i' \<noteq> 0 \<Longrightarrow> j' < 1024 \<Longrightarrow> (i', j') \<noteq> (i, j) \<Longrightarrow>
       pte (pg_mem st') h i' j' = pte (pg_mem st) h i' j'"
    "pdir (pg_mem st') h = pdir (pg_mem st) h"
proof -
  let ?m = "pg_mem st" and ?m' = "pg_mem st'" and ?t = "ptbl (pg_mem st) h i"
  have hp: "kheap_inv (pg_ks st) P" "kheap_room (pg_ks st) k" and wf: "pd_wf st P h" and ct: "can_translate st P h"
    using inv by (auto simp: pg_inv_def)
  note t = pd_wfD(4) [OF wf i]
  have out: "?m' a = ?m a" if "\<not> in_region a ?t 4096" for a
  proof -
    have "\<not> in_region a (?t + 4 * word_of_nat j) 4" using that entry_place_region [OF j] by blast
    then show ?thesis by (simp add: st'_def store32_outside)
  qed
  have h: "?m' a = ?m a" if "in_region a h 4100" for a using t that out regions_disjointD by blast
  have d: "?m' a = ?m a" if "in_region a (pdir ?m h) 4096" for a using t that out regions_disjointD by blast
  note fr = pd_frame [of h ?m' ?m, OF h d]
  then show pde: "\<And>i'. i' < 1024 \<Longrightarrow> pde ?m' h i' = pde ?m h i'" and tbl: "\<And>i'. i' < 1024 \<Longrightarrow> ptbl ?m' h i' = ptbl ?m h i'"
    by blast+
  have heap: "ks_heap (pg_ks st') = ks_heap (pg_ks st)" by (simp add: st'_def)
  have "pd_wf st' P h"
    using wf fr(1) tbl unfolding pd_wf_def Let_def held_heap [OF heap] by simp
  moreover have "can_translate st' P h"
    by (rule can_translate_keep [OF ct heap, of ?t 4096]) (use i out fr in \<open>auto simp: st'_def apart_def\<close>)
  moreover have "kheap_inv (pg_ks st') P" "kheap_room (pg_ks st') k"
    using pg_store_heap [OF hp(1) conjunct1 [OF t] entry_place_region [OF j]] hp(2) by (simp_all add: st'_def)
  ultimately show "pg_inv st' P h k" by (simp add: pg_inv_def)
  have ti: "ptbl ?m' h i = ?t" using tbl i(1) by simp
  show "pdir ?m' h = pdir ?m h" by (rule fr(1))
  show "pte ?m' h i j = w" unfolding pte_def ti by (simp add: st'_def load_store_simps)
  fix i' j' assume a: "i' < 1023" "ptbl ?m h i' \<noteq> 0" "j' < 1024" "(i', j') \<noteq> (i, j)"
  show "pte ?m' h i' j' = pte ?m h i' j'"
  proof (cases "i' = i")
    case True
    then show ?thesis
      using a j entry_places_disjoint [of j j' ?t] unfolding True pte_def ti
      by (simp add: st'_def load_store_simps)
  next
    case False
    then have "regions_disjoint (ptbl ?m h i') 4096 ?t 4096" using pd_wfD(5) [OF wf] a i by blast
    then show ?thesis using a tbl out regions_disjointD by (intro pte_frame) auto
  qed
qed

text \<open>A new region: everything held keeps its contents, stays held and is apart from it.\<close>

lemma held_region:
  assumes "kheap_inv s P" "kheap_room s (nblocks sz + k)" "0 < sz"
  obtains p ks where "kzalloc s sz = Some (p, ks)" "p \<noteq> NULL" "P p = None" "p mod 4096 = 0"
    "kheap_inv ks (P(p \<mapsto> 4096 * nblocks sz))" "kheap_room ks k" "bytes (ks_mem ks) p (unat sz) = replicate (unat sz) 0"
    "\<forall>q n. held s P q n \<longrightarrow> held ks (P(p \<mapsto> 4096 * nblocks sz)) q n
       \<and> (0 < n \<longrightarrow> regions_disjoint p (4096 * nblocks sz) q n)
       \<and> (\<forall>a. in_region a q n \<longrightarrow> ks_mem ks a = ks_mem s a)"
proof -
  have pos: "0 < 4096 * nblocks sz" using assms(3) by (simp add: word_less_nat_alt div_greater_zero_iff)
  obtain p ks where ks: "kzalloc s sz = Some (p, ks)" "p \<noteq> NULL" "P p = None" "p mod 4096 = 0"
    "kheap_inv ks (P(p \<mapsto> 4096 * nblocks sz))" "kheap_room ks k" "bytes (ks_mem ks) p (unat sz) = replicate (unat sz) 0"
    "\<And>q l a. P q = Some l \<Longrightarrow> in_region a q l \<Longrightarrow> ks_mem ks a = ks_mem s a"
    "\<And>a. kheap_ext s a \<Longrightarrow> kheap_ext ks a" "\<And>a. kheap_ext s a \<Longrightarrow> ks_mem ks a = ks_mem s a"
    by (rule kh.alloc_region [OF assms]) metis
  have keep: "ks_mem ks a = ks_mem s a" if "held s P q n" "in_region a q n" for q n a
    using held_keep [OF that(1) ks(8,10) that(2)] .
  have new: "regions_disjoint p (4096 * nblocks sz) q n" if "held s P q n" "0 < n" for q n
    using held_disjoint_new [OF that(1) ks(3,5,9) that(2)] pos by simp
  have up: "held ks (P(p \<mapsto> 4096 * nblocks sz)) q n" if "held s P q n" for q n
    using held_mono [OF that ks(9,3)] .
  from ks(1-7) show thesis by (rule that) (use keep new up in blast)
qed

lemma new_region:
  assumes "pg_inv st P h (nblocks sz + k)" "0 < sz"
  obtains p ks where "kzalloc (pg_ks st) sz = Some (p, ks)" "p \<noteq> NULL" "P p = None" "p mod 4096 = 0"
    "pg_inv (st\<lparr>pg_ks := ks\<rparr>) (P(p \<mapsto> 4096 * nblocks sz)) h k" "bytes (ks_mem ks) p (unat sz) = replicate (unat sz) 0"
    "\<forall>q n. held (pg_ks st) P q n \<longrightarrow> held ks (P(p \<mapsto> 4096 * nblocks sz)) q n
       \<and> (0 < n \<longrightarrow> regions_disjoint p (4096 * nblocks sz) q n)
       \<and> (\<forall>a. in_region a q n \<longrightarrow> ks_mem ks a = pg_mem st a)"
proof -
  have hp: "kheap_inv (pg_ks st) P" "kheap_room (pg_ks st) (nblocks sz + k)" and wf: "pd_wf st P h" and ct: "can_translate st P h"
    using assms(1) by (auto simp: pg_inv_def)
  obtain p ks where ks: "kzalloc (pg_ks st) sz = Some (p, ks)" "p \<noteq> NULL" "P p = None" "p mod 4096 = 0"
    "kheap_inv ks (P(p \<mapsto> 4096 * nblocks sz))" "kheap_room ks k" "bytes (ks_mem ks) p (unat sz) = replicate (unat sz) 0"
    "\<forall>q n. held (pg_ks st) P q n \<longrightarrow> held ks (P(p \<mapsto> 4096 * nblocks sz)) q n
       \<and> (0 < n \<longrightarrow> regions_disjoint p (4096 * nblocks sz) q n)
       \<and> (\<forall>a. in_region a q n \<longrightarrow> ks_mem ks a = pg_mem st a)"
    by (rule held_region [OF hp assms(2)])
  have keep: "ks_mem ks a = pg_mem st a" if "held (pg_ks st) P q n" "in_region a q n" for q n a
    using ks(8) that by blast
  have up: "held ks (P(p \<mapsto> 4096 * nblocks sz)) q n" if "held (pg_ks st) P q n" for q n
    using ks(8) that by blast
  note fr = pd_frame [of h "ks_mem ks" "pg_mem st", OF keep [OF pd_wfD(1) [OF wf]] keep [OF pd_wfD(2) [OF wf]]]
  have wf': "pd_wf (st\<lparr>pg_ks := ks\<rparr>) (P(p \<mapsto> 4096 * nblocks sz)) h"
    using wf unfolding pd_wf_def Let_def by (simp add: fr up del: fun_upd_apply)
  have "can_translate (st\<lparr>pg_ks := ks\<rparr>) (P(p \<mapsto> 4096 * nblocks sz)) h"
  proof (cases "pg_cr4 st AND PSE_BIT = 0")
    case True
    let ?c = "pg_current_directory st"
    have c: "held (pg_ks st) P ?c 4" "held (pg_ks st) P (pdir (pg_mem st) ?c) 4096"
      using ct True pd_wfD(1) [OF wf] in_region_mono [of _ _ 4 4100] by (auto simp: can_translate_def Let_def held_def)
    have cd: "pdir (ks_mem ks) ?c = pdir (pg_mem st) ?c"
      unfolding pdir_def by (rule load32_cong) (rule keep [OF c(1)])
    have ce: "pde (ks_mem ks) ?c i = pde (pg_mem st) ?c i" if "i < 1024" for i
      unfolding pde_def cd by (rule load32_region [OF keep [OF c(2)]]) (use that entry_place_region in auto)
    have ap: "apart (ks_mem ks) h q n = apart (pg_mem st) h q n" for q n using fr by (auto simp: apart_def)
    show ?thesis using ct c up True unfolding can_translate_def Let_def by (simp add: cd ce ap del: fun_upd_apply)
  qed (simp add: can_translate_def)
  with wf' ks(5,6) have "pg_inv (st\<lparr>pg_ks := ks\<rparr>) (P(p \<mapsto> 4096 * nblocks sz)) h k" by (simp add: pg_inv_def)
  with ks(1-4) show thesis by (rule that [OF _ _ _ _ _ ks(7,8)])
qed

lemma new_page:
  assumes "pg_inv st P h (Suc k)"
  obtains p ks where "kzalloc (pg_ks st) PAGING_PAGE_SIZE = Some (p, ks)" "p \<noteq> NULL" "P p = None" "p mod 4096 = 0"
    "pg_inv (st\<lparr>pg_ks := ks\<rparr>) (P(p \<mapsto> 4096)) h k" "bytes (ks_mem ks) p 4096 = replicate 4096 0"
    "\<forall>q n. held (pg_ks st) P q n \<longrightarrow> held ks (P(p \<mapsto> 4096)) q n \<and> (0 < n \<longrightarrow> regions_disjoint p 4096 q n)
       \<and> (\<forall>a. in_region a q n \<longrightarrow> ks_mem ks a = pg_mem st a)"
  by (rule new_region [of st P h PAGING_PAGE_SIZE k])
    (use assms in \<open>auto simp: PAGING_PAGE_SIZE_def simp del: fun_upd_apply\<close>)

lemma and_fff: "x AND 0xFFF = take_bit 12 (x :: u32)"
  by (simp add: take_bit_eq_mask mask_eq_exp_minus_1)

lemma page_aligned_iff: "paging_addr_is_page_aligned a \<longleftrightarrow> take_bit 12 a = 0"
  by (simp add: paging_addr_is_page_aligned_def PAGING_PAGE_SIZE_def and_fff)

lemma page_aligned_mod: "take_bit 12 (a :: u32) = 0 \<longleftrightarrow> a mod 4096 = 0"
  by (simp add: take_bit_eq_mod)

lemma aligned_unat: "take_bit 12 (a :: u32) = 0 \<longleftrightarrow> unat a mod 4096 = 0"
proof -
  have "a mod 4096 = 0 \<longleftrightarrow> unat (a mod 4096) = 0" by (simp add: unat_eq_zero)
  then show ?thesis by (simp add: page_aligned_mod unat_mod)
qed

lemma entry_addr_aligned: "take_bit 12 (PAGE_ENTRY_ADDR e) = 0"
  by (simp add: PAGE_ENTRY_ADDR_def ADDR_MASK_def take_bit_and)

lemma aligned_add: "take_bit 12 (a :: u32) = 0 \<Longrightarrow> take_bit 12 b = 0 \<Longrightarrow> take_bit 12 (a + b) = 0"
  using mod_mod_cancel [of 4096 4294967296 "unat a + unat b"]
  by (simp add: aligned_unat unat_word_ariths) (metis mod_0 mod_add_eq add_0)

lemma translate_page:
  assumes "can_translate st P h" "p mod 4096 = 0"
  obtains pa where "virtual_to_physical_addr st (pg_current_directory st) p = Some pa" "take_bit 12 pa = 0"
proof -
  have p: "take_bit 12 p = 0" using assms(2) by (simp add: page_aligned_mod)
  let ?e = "pde (pg_mem st) (pg_current_directory st) (dir_index p)"
  have "?e AND 0x80 = 0 \<or> pg_cr4 st AND PSE_BIT \<noteq> 0"
    using assms(1) dir_index_lt [of p] by (auto simp: can_translate_def Let_def)
  moreover have "take_bit 12 (PAGE_ENTRY_ADDR e + (p AND n)) = 0" for e n
    by (intro aligned_add entry_addr_aligned) (simp add: take_bit_and p)
  ultimately show thesis
    by (intro that [of "the (virtual_to_physical_addr st (pg_current_directory st) p)"])
      (auto simp: virtual_to_physical_eq V_ADDR_PAGEFRAME_INDEX_PSE_def V_ADDR_PAGEFRAME_INDEX_def)
qed

text \<open>The slot of a table in the handle, and the slot of a directory entry.\<close>

lemma handle_slot_disjoint:
  assumes "i < 1024"
  shows "regions_disjoint (h + 4 + 4 * word_of_nat i) 4 h 4"
proof -
  define x :: u32 where "x = 4 + 4 * word_of_nat i"
  have x: "unat x = 4 + 4 * i" using assms by (simp add: x_def unat_word_ariths unat_word_of_nat_lt)
  have "unat (0 - x) = 2 ^ 32 - unat x" using x by (simp only: unat_sub_if') simp
  then have "4 \<le> unat (0 - x)" using x assms by simp
  moreover have hx: "h + 4 + 4 * word_of_nat i = h + x" by (simp add: x_def)
  ultimately show ?thesis using x unfolding hx regions_disjoint_def by simp
qed

lemma tbl_slot:
  assumes "i < 1024"
  shows "pdir (store32 m (h + 4 + 4 * word_of_nat i) p) h = pdir m h"
    "ptbl (store32 m (h + 4 + 4 * word_of_nat i) p) h i = p"
    "j < 1024 \<Longrightarrow> j \<noteq> i \<Longrightarrow> ptbl (store32 m (h + 4 + 4 * word_of_nat i) p) h j = ptbl m h j"
proof -
  show "pdir (store32 m (h + 4 + 4 * word_of_nat i) p) h = pdir m h"
    using handle_slot_disjoint [OF assms, of h] by (simp add: pdir_def load_store_simps)
  show "ptbl (store32 m (h + 4 + 4 * word_of_nat i) p) h i = p" by (simp add: ptbl_def load_store_simps)
  show "ptbl (store32 m (h + 4 + 4 * word_of_nat i) p) h j = ptbl m h j" if "j < 1024" "j \<noteq> i"
    using entry_places_disjoint [OF assms that(1), of "h + 4"] that(2) by (simp add: ptbl_def load_store_simps)
qed

lemma dir_slot:
  assumes "i < 1024" "pdir m h = d" "pdir (store32 m (d + 4 * word_of_nat i) e) h = d"
  shows "pde (store32 m (d + 4 * word_of_nat i) e) h i = e"
    "j < 1024 \<Longrightarrow> j \<noteq> i \<Longrightarrow> pde (store32 m (d + 4 * word_of_nat i) e) h j = pde m h j"
  using entry_places_disjoint [of i j d] assms by (simp_all add: pde_def load_store_simps)

text \<open>Hanging a new table into slot \<open>i\<close> of the handle and entry \<open>i\<close> of the directory.\<close>

lemma link_table:
  assumes inv: "pg_inv st P h k" and i: "i < 1023" "ptbl (pg_mem st) h i = 0"
    and p: "p \<noteq> 0" "P p = Some 4096" "regions_disjoint p 4096 h 4100" "regions_disjoint p 4096 (pdir (pg_mem st) h) 4096"
    and pt: "\<And>i'. i' < 1023 \<Longrightarrow> ptbl (pg_mem st) h i' \<noteq> 0 \<Longrightarrow> regions_disjoint p 4096 (ptbl (pg_mem st) h i') 4096"
    and pc: "pg_current_directory st \<noteq> h \<Longrightarrow> pg_cr4 st AND PSE_BIT = 0 \<Longrightarrow>
      regions_disjoint p 4096 (pg_current_directory st) 4 \<and> regions_disjoint p 4096 (pdir (pg_mem st) (pg_current_directory st)) 4096"
  defines "st' \<equiv> pg_store st (h + 4 + 4 * word_of_nat i) p"
  shows "pg_inv st' P h k" "ptbl (pg_mem st') h i = p" "pdir (pg_mem st') h = pdir (pg_mem st) h"
    "\<And>i'. i' < 1024 \<Longrightarrow> pde (pg_mem st') h i' = pde (pg_mem st) h i'"
    "\<And>i'. i' < 1024 \<Longrightarrow> i' \<noteq> i \<Longrightarrow> ptbl (pg_mem st') h i' = ptbl (pg_mem st) h i'"
    "\<And>i' j'. i' < 1023 \<Longrightarrow> i' \<noteq> i \<Longrightarrow> ptbl (pg_mem st) h i' \<noteq> 0 \<Longrightarrow> j' < 1024 \<Longrightarrow>
       pte (pg_mem st') h i' j' = pte (pg_mem st) h i' j'"
proof -
  let ?m = "pg_mem st" and ?m' = "pg_mem st'" and ?c = "pg_current_directory st"
  have hp: "kheap_inv (pg_ks st) P" "kheap_room (pg_ks st) k" and wf: "pd_wf st P h" and ct: "can_translate st P h"
    using inv by (auto simp: pg_inv_def)
  have i': "i < 1024" using i by simp
  note slot = tbl_slot [OF i', where m = ?m and h = h and p = p]
  have m': "?m' = store32 ?m (h + 4 + 4 * word_of_nat i) p" by (simp add: st'_def)
  have out: "?m' a = ?m a" if "\<not> in_region a h 4100" for a
    unfolding m' by (rule store32_outside) (use that handle_place_region [OF i'] in blast)
  show t: "ptbl ?m' h i = p" and d: "pdir ?m' h = pdir ?m h"
    and ts: "\<And>i'. i' < 1024 \<Longrightarrow> i' \<noteq> i \<Longrightarrow> ptbl ?m' h i' = ptbl ?m h i'"
    unfolding m' using slot by blast+
  have dm: "?m' a = ?m a" if "in_region a (pdir ?m h) 4096" for a
    using that pd_wfD(3) [OF wf] out regions_disjointD by blast
  show e: "pde ?m' h i' = pde ?m h i'" if "i' < 1024" for i'
    unfolding pde_def d by (rule load32_region [OF dm]) (use that entry_place_region in auto)
  have heap: "ks_heap (pg_ks st') = ks_heap (pg_ks st)" by (simp add: st'_def)
  have cr: "pg_cr4 st' = pg_cr4 st" "pg_current_directory st' = ?c" by (simp_all add: st'_def)
  have hh: "held s P p 4096" for s using p(2) by (simp add: held_def)
  have old: "i' \<noteq> i \<and> ptbl ?m' h i' = ptbl ?m h i' \<or> i' = i \<and> ptbl ?m' h i' = p" if "i' < 1023" for i'
    using ts [of i'] t that by auto
  have "pd_wf st' P h"
    unfolding pd_wf_def Let_def held_heap [OF heap] d
  proof (intro conjI allI impI)
    fix i1 i2 assume a: "i1 < 1023" "i2 < 1023" "i1 \<noteq> i2" "ptbl ?m' h i1 \<noteq> 0" "ptbl ?m' h i2 \<noteq> 0"
    then show "regions_disjoint (ptbl ?m' h i1) 4096 (ptbl ?m' h i2) 4096"
      using old [of i1] old [of i2] pd_wfD(5) [OF wf, of i1 i2] pt [of i1] pt [of i2] regions_disjoint_sym by metis
  next
    fix i1 assume a: "i1 < 1023" "ptbl ?m' h i1 \<noteq> 0"
    show "held (pg_ks st) P (ptbl ?m' h i1) 4096" "regions_disjoint h 4100 (ptbl ?m' h i1) 4096"
      "regions_disjoint (pdir ?m h) 4096 (ptbl ?m' h i1) 4096"
      using a old [of i1] pd_wfD(4) [OF wf, of i1] p hh regions_disjoint_sym by metis+
  qed (use pd_wfD(1-3) [OF wf] in auto)
  moreover have "can_translate st' P h"
  proof (cases "?c \<noteq> h \<and> pg_cr4 st AND PSE_BIT = 0")
    case True
    note cs = current_spared [OF ct _ _ _ out, of h 4100]
    have ca: "pdir ?m' ?c = pdir ?m ?c" "\<And>i. i < 1024 \<Longrightarrow> pde ?m' ?c i = pde ?m ?c i"
      using cs True by (auto simp: apart_def)
    have ap: "apart ?m' h q n" if "apart ?m h q n" "regions_disjoint p 4096 q n" for q n
      using that old unfolding apart_def d by metis
    show ?thesis
      using ct True pc ap unfolding can_translate_def Let_def held_heap [OF heap] cr by (auto simp: ca)
  next
    case False
    then show ?thesis
      using ct e d unfolding can_translate_def Let_def held_heap [OF heap] cr by auto
  qed
  moreover have "kheap_inv (pg_ks st') P" "kheap_room (pg_ks st') k"
    using pg_store_heap [OF hp(1) pd_wfD(1) [OF wf] handle_place_region [OF i']] hp(2) by (simp_all add: st'_def)
  ultimately show "pg_inv st' P h k" by (simp add: pg_inv_def)
  fix i1 j1 assume a: "i1 < 1023" "i1 \<noteq> i" "ptbl ?m h i1 \<noteq> 0" "j1 < (1024 :: nat)"
  then show "pte ?m' h i1 j1 = pte ?m h i1 j1"
    using ts [of i1] pd_wfD(4) [OF wf, of i1] out regions_disjointD [of h 4100 "ptbl ?m h i1" 4096]
    by (intro pte_frame) auto
qed

lemma link_directory:
  assumes inv: "pg_inv st P h k" and i: "i < 1023" and e: "e AND 0x80 = 0"
  defines "st' \<equiv> pg_store st (pdir (pg_mem st) h + 4 * word_of_nat i) e"
  shows "pg_inv st' P h k" "pde (pg_mem st') h i = e"
    "\<And>i'. i' < 1024 \<Longrightarrow> i' \<noteq> i \<Longrightarrow> pde (pg_mem st') h i' = pde (pg_mem st) h i'"
    "\<And>i'. i' < 1024 \<Longrightarrow> ptbl (pg_mem st') h i' = ptbl (pg_mem st) h i'"
    "\<And>i' j'. i' < 1023 \<Longrightarrow> ptbl (pg_mem st) h i' \<noteq> 0 \<Longrightarrow> j' < 1024 \<Longrightarrow>
       pte (pg_mem st') h i' j' = pte (pg_mem st) h i' j'"
    "pdir (pg_mem st') h = pdir (pg_mem st) h"
proof -
  let ?m = "pg_mem st" and ?m' = "pg_mem st'" and ?c = "pg_current_directory st" and ?d = "pdir (pg_mem st) h"
  have hp: "kheap_inv (pg_ks st) P" "kheap_room (pg_ks st) k" and wf: "pd_wf st P h" and ct: "can_translate st P h"
    using inv by (auto simp: pg_inv_def)
  have i': "i < 1024" using i by simp
  have m': "?m' = store32 ?m (?d + 4 * word_of_nat i) e" by (simp add: st'_def)
  have out: "?m' a = ?m a" if "\<not> in_region a ?d 4096" for a
    unfolding m' by (rule store32_outside) (use that entry_place_region [OF i'] in blast)
  have hm: "?m' a = ?m a" if "in_region a h 4100" for a
    using that pd_wfD(3) [OF wf] out regions_disjointD by blast
  show d: "pdir ?m' h = ?d" unfolding pdir_def by (rule load32_region [OF hm]) (auto intro: in_region_mono)
  show ts: "ptbl ?m' h i1 = ptbl ?m h i1" if "i1 < 1024" for i1
    unfolding ptbl_def by (rule load32_region [OF hm]) (use that handle_place_region in auto)
  show ei: "pde ?m' h i = e" and es: "\<And>i1. i1 < 1024 \<Longrightarrow> i1 \<noteq> i \<Longrightarrow> pde ?m' h i1 = pde ?m h i1"
    using dir_slot [OF i' refl, of ?m h e] d unfolding m' by blast+
  have heap: "ks_heap (pg_ks st') = ks_heap (pg_ks st)" by (simp add: st'_def)
  have "pd_wf st' P h" using wf ts unfolding pd_wf_def Let_def held_heap [OF heap] d by simp
  moreover have "can_translate st' P h"
  proof (rule can_translate_keep [OF ct heap, of ?d 4096])
    show "pde ?m' h i1 AND 0x80 = 0" if "i1 < 1024" "pde ?m h i1 AND 0x80 = 0" for i1
      using that es ei e by (cases "i1 = i") auto
  qed (use out d ts in \<open>auto simp: st'_def apart_def\<close>)
  moreover have "kheap_inv (pg_ks st') P" "kheap_room (pg_ks st') k"
    using pg_store_heap [OF hp(1) pd_wfD(2) [OF wf] entry_place_region [OF i']] hp(2) by (simp_all add: st'_def)
  ultimately show "pg_inv st' P h k" by (simp add: pg_inv_def)
  fix i1 j1 assume a: "i1 < 1023" "ptbl ?m h i1 \<noteq> 0" "j1 < (1024 :: nat)"
  then show "pte ?m' h i1 j1 = pte ?m h i1 j1"
    using ts [of i1] pd_wfD(4) [OF wf, of i1] out regions_disjointD [of ?d 4096 "ptbl ?m h i1" 4096]
    by (intro pte_frame) auto
qed

text \<open>
  What an operation on \<open>h\<close> leaves alone: the registers, the places of the page tables it has, and every held
  region apart from what \<open>h\<close> owns, which stays so.
\<close>

definition pg_frame :: "paging_state \<Rightarrow> (addr \<rightharpoonup> nat) \<Rightarrow> addr \<Rightarrow> paging_state \<Rightarrow> (addr \<rightharpoonup> nat) \<Rightarrow> bool" where
  "pg_frame st P h st' P' \<longleftrightarrow> pg_current_directory st' = pg_current_directory st \<and> pg_cr4 st' = pg_cr4 st
     \<and> pg_cr0 st' = pg_cr0 st \<and> P \<subseteq>\<^sub>m P' \<and> pdir (pg_mem st') h = pdir (pg_mem st) h
     \<and> pde (pg_mem st') h 1023 = pde (pg_mem st) h 1023
     \<and> (\<forall>i<1024. pde (pg_mem st) h i AND 0x80 = 0 \<longrightarrow> pde (pg_mem st') h i AND 0x80 = 0)
     \<and> (\<forall>i<1023. ptbl (pg_mem st) h i \<noteq> 0 \<longrightarrow> ptbl (pg_mem st') h i = ptbl (pg_mem st) h i)
     \<and> (\<forall>q n. held (pg_ks st) P q n \<longrightarrow> 0 < n \<longrightarrow> apart (pg_mem st) h q n \<longrightarrow>
          held (pg_ks st') P' q n \<and> apart (pg_mem st') h q n \<and> (\<forall>a. in_region a q n \<longrightarrow> pg_mem st' a = pg_mem st a))"

lemma pg_frame_refl: "pg_frame st P h st P"
  by (simp add: pg_frame_def)

lemma pg_frame_trans:
  assumes a: "pg_frame st P h st1 P1" and b: "pg_frame st1 P1 h st2 P2"
  shows "pg_frame st P h st2 P2"
proof -
  have "P \<subseteq>\<^sub>m P2" using a b map_le_trans [of P P1 P2] by (simp add: pg_frame_def)
  moreover have "held (pg_ks st2) P2 q n \<and> apart (pg_mem st2) h q n \<and> (\<forall>a. in_region a q n \<longrightarrow> pg_mem st2 a = pg_mem st a)"
    if q: "held (pg_ks st) P q n" "0 < n" "apart (pg_mem st) h q n" for q n
  proof -
    have 1: "held (pg_ks st1) P1 q n \<and> apart (pg_mem st1) h q n \<and> (\<forall>a. in_region a q n \<longrightarrow> pg_mem st1 a = pg_mem st a)"
      using a q by (simp add: pg_frame_def)
    have "held (pg_ks st2) P2 q n \<and> apart (pg_mem st2) h q n \<and> (\<forall>a. in_region a q n \<longrightarrow> pg_mem st2 a = pg_mem st1 a)"
      using b q(2) conjunct1 [OF 1] conjunct1 [OF conjunct2 [OF 1]] by (simp add: pg_frame_def)
    with 1 show ?thesis by simp
  qed
  ultimately show ?thesis using a b by (simp add: pg_frame_def)
qed

lemma pg_frame_store:
  assumes "\<And>x. in_region x a 4 \<Longrightarrow> in_region x r l" "\<And>q n. apart (pg_mem st) h q n \<Longrightarrow> regions_disjoint r l q n"
    and "pdir (pg_mem (pg_store st a v)) h = pdir (pg_mem st) h"
    and "\<And>i. i < 1023 \<Longrightarrow> ptbl (pg_mem (pg_store st a v)) h i = ptbl (pg_mem st) h i"
    and "\<And>i. i < 1024 \<Longrightarrow> pde (pg_mem (pg_store st a v)) h i = pde (pg_mem st) h i"
  shows "pg_frame st P h (pg_store st a v) P"
proof -
  have "pg_mem (pg_store st a v) x = pg_mem st x" if "apart (pg_mem st) h q n" "in_region x q n" for x q n
  proof -
    have "\<not> in_region x r l" using assms(2) [OF that(1)] that(2) regions_disjointD by blast
    then show ?thesis using assms(1) store32_outside by (metis pg_store_simps(1))
  qed
  moreover have "apart (pg_mem (pg_store st a v)) h q n" if "apart (pg_mem st) h q n" for q n
    using that assms(3,4) by (auto simp: apart_def)
  moreover have "pg_cr0 (pg_store st a v) = pg_cr0 st" by (simp add: pg_store_def)
  ultimately show ?thesis using assms(3-5) by (auto simp: pg_frame_def held_heap [of "pg_ks (pg_store st a v)" "pg_ks st"])
qed

lemma new_table:
  assumes inv: "pg_inv st P h (Suc k)" and i: "i < 1023" "ptbl (pg_mem st) h i = 0" and fl: "flags AND 0x80 = 0"
  obtains st' p where "paging_new_table st h (word_of_nat i) flags = Some st'" "P p = None" "p \<noteq> 0"
    "pg_inv st' (P(p \<mapsto> 4096)) h k" "ptbl (pg_mem st') h i = p"
    "pde (pg_mem st') h i AND 0x80 = 0 \<and> (flags \<noteq> 0 \<longrightarrow> pde (pg_mem st') h i \<noteq> 0)"
    "\<forall>i'<1024. i' \<noteq> i \<longrightarrow> pde (pg_mem st') h i' = pde (pg_mem st) h i' \<and> ptbl (pg_mem st') h i' = ptbl (pg_mem st) h i'"
    "\<forall>i'<1023. i' \<noteq> i \<longrightarrow> ptbl (pg_mem st) h i' \<noteq> 0 \<longrightarrow> (\<forall>j'<1024. pte (pg_mem st') h i' j' = pte (pg_mem st) h i' j')"
    "pg_frame st P h st' (P(p \<mapsto> 4096))"
proof -
  obtain p ks where ks: "kzalloc (pg_ks st) PAGING_PAGE_SIZE = Some (p, ks)" "p \<noteq> NULL" "P p = None" "p mod 4096 = 0"
    "pg_inv (st\<lparr>pg_ks := ks\<rparr>) (P(p \<mapsto> 4096)) h k" "bytes (ks_mem ks) p 4096 = replicate 4096 0"
    "\<forall>q n. held (pg_ks st) P q n \<longrightarrow> held ks (P(p \<mapsto> 4096)) q n \<and> (0 < n \<longrightarrow> regions_disjoint p 4096 q n)
       \<and> (\<forall>a. in_region a q n \<longrightarrow> ks_mem ks a = pg_mem st a)"
    by (rule new_page [OF inv])
  let ?st0 = "st\<lparr>pg_ks := ks\<rparr>" and ?m = "pg_mem st"
  have wf: "pd_wf st P h" and ct: "can_translate st P h" using inv by (auto simp: pg_inv_def)
  have keep: "ks_mem ks a = ?m a" if "held (pg_ks st) P q n" "in_region a q n" for q n a
    using ks(7) that by blast
  have new: "regions_disjoint p 4096 q n" if "held (pg_ks st) P q n" "0 < n" for q n
    using ks(7) that by blast
  have mh: "ks_mem ks a = ?m a" if "in_region a h 4100" for a
    using keep [OF pd_wfD(1) [OF wf]] that by simp
  have md: "ks_mem ks a = ?m a" if "in_region a (pdir ?m h) 4096" for a
    using keep [OF pd_wfD(2) [OF wf]] that by simp
  note fr = pd_frame [of h "ks_mem ks" ?m, OF mh md]
  have pt: "pte (ks_mem ks) h i1 j1 = pte ?m h i1 j1" if "i1 < 1023" "ptbl ?m h i1 \<noteq> 0" "j1 < 1024" for i1 j1
    using that fr(3) pd_wfD(4) [OF wf that(1,2)] keep by (intro pte_frame) auto
  let ?P = "P(p \<mapsto> 4096)" and ?c = "pg_current_directory st"
  let ?st1 = "pg_store ?st0 (h + 4 + 4 * word_of_nat i) p"
  have pc: "regions_disjoint p 4096 ?c 4 \<and> regions_disjoint p 4096 (pdir (ks_mem ks) ?c) 4096"
    if "?c \<noteq> h" "pg_cr4 st AND PSE_BIT = 0"
  proof -
    have c: "held (pg_ks st) P ?c 4" "held (pg_ks st) P (pdir ?m ?c) 4096"
      using ct that by (auto simp: can_translate_def Let_def)
    have "pdir (ks_mem ks) ?c = pdir ?m ?c" unfolding pdir_def by (rule load32_cong) (use keep [OF c(1)] in simp)
    then show ?thesis using new [OF c(1)] new [OF c(2)] by simp
  qed
  have i': "i < 1024" using i by simp
  note l1 = link_table [OF ks(5) i(1), of p, OF _ ks(2)]
  have l1: "pg_inv ?st1 ?P h k" "ptbl (pg_mem ?st1) h i = p" "pdir (pg_mem ?st1) h = pdir (ks_mem ks) h"
    "\<And>i1. i1 < 1024 \<Longrightarrow> pde (pg_mem ?st1) h i1 = pde (ks_mem ks) h i1"
    "\<And>i1. i1 < 1024 \<Longrightarrow> i1 \<noteq> i \<Longrightarrow> ptbl (pg_mem ?st1) h i1 = ptbl (ks_mem ks) h i1"
    "\<And>i1 j1. i1 < 1023 \<Longrightarrow> i1 \<noteq> i \<Longrightarrow> ptbl (ks_mem ks) h i1 \<noteq> 0 \<Longrightarrow> j1 < 1024 \<Longrightarrow>
       pte (pg_mem ?st1) h i1 j1 = pte (ks_mem ks) h i1 j1"
    using l1 i(2) i' fr new pd_wfD(1,2,4) [OF wf] pc by simp_all
  obtain pa where pa: "virtual_to_physical_addr ?st1 ?c p = Some pa" "take_bit 12 pa = 0"
    using translate_page [of ?st1 ?P h p] l1(1) ks(4) by (auto simp: pg_inv_def)
  have "bit (take_bit 12 pa) 7 \<longleftrightarrow> bit pa 7" by (simp add: bit_take_bit_iff)
  then have "\<not> bit pa 7" using pa(2) by simp
  moreover have "\<not> bit flags 7" using fl and_exp_eq_0_iff_not_bit [of flags 7] by simp
  ultimately have e: "(pa OR ucast flags) AND 0x80 = 0"
    using and_exp_eq_0_iff_not_bit [of "pa OR ucast flags" 7] by (simp add: bit_simps)
  have nz: "pa OR ucast flags \<noteq> 0" if "flags \<noteq> 0"
  proof
    assume "pa OR ucast flags = 0"
    then have "unat (ucast flags :: u32) = 0" by (simp add: or_eq_0_iff)
    moreover have "unat flags < 2 ^ 32" using unsigned_less [where w = flags and 'a = nat] by simp
    ultimately show False using that by (simp add: unsigned_ucast_eq take_bit_nat_eq_self unat_eq_zero)
  qed
  note l2 = link_directory [OF l1(1) i(1) e]
  have "paging_new_table st h (word_of_nat i) flags
      = Some (pg_store ?st1 (pdir (pg_mem ?st1) h + 4 * word_of_nat i) (pa OR ucast flags))"
    using ks(1) l1(2) pa(1)
    by (simp add: paging_new_table_def paging_alloc_table_def directory_virtual_at_def directory_at_def ptbl_def pdir_def)
  moreover have "pg_frame st P h (pg_store ?st1 (pdir (pg_mem ?st1) h + 4 * word_of_nat i) (pa OR ucast flags)) ?P"
  proof -
    let ?F = "pg_store ?st1 (pdir (pg_mem ?st1) h + 4 * word_of_nat i) (pa OR ucast flags)"
    have same: "pg_mem ?F x = ?m x" if "held (pg_ks st) P q n" "apart ?m h q n" "in_region x q n" for q n x
    proof -
      have x: "\<not> in_region x h 4100" "\<not> in_region x (pdir ?m h) 4096"
        using that(2,3) regions_disjointD unfolding apart_def by blast+
      have "\<not> in_region x (h + 4 + 4 * word_of_nat i) 4" "\<not> in_region x (pdir (pg_mem ?st1) h + 4 * word_of_nat i) 4"
        using x l1(3) fr(1) handle_place_region [OF i'] entry_place_region [OF i'] by (metis+)
      then show ?thesis using keep [OF that(1,3)] by (simp add: store32_outside)
    qed
    have tab: "ptbl (pg_mem ?F) h i1 = (if i1 = i then p else ptbl ?m h i1)" if "i1 < 1023" for i1
      using that l1(2,5) l2(4) fr(3) by simp
    have "apart (pg_mem ?F) h q n" if "held (pg_ks st) P q n" "0 < n" "apart ?m h q n" for q n
      using that new [OF that(1,2)] l2(6) l1(3) fr(1) tab by (simp add: apart_def)
    moreover have "held (pg_ks ?F) ?P q n" if "held (pg_ks st) P q n" for q n
      using ks(7) that held_heap [of "pg_ks ?F" ks] by simp
    moreover have "P \<subseteq>\<^sub>m ?P" using ks(3) by (auto simp: map_le_def)
    moreover have "pde (pg_mem ?F) h i1 = (if i1 = i then pa OR ucast flags else pde ?m h i1)" if "i1 < 1024" for i1
      using that l1(4) l2(2,3) fr(2) i' by simp
    moreover have "pdir (pg_mem ?F) h = pdir ?m h" "pg_cr0 ?F = pg_cr0 st" using l2(6) l1(3) fr(1) by (simp_all add: pg_store_def)
    ultimately show ?thesis using same tab i e by (simp add: pg_frame_def)
  qed
  ultimately show thesis
    by (intro that [OF _ ks(3,2) l2(1)]) (use l1 l2 fr pt i i' e nz in auto)
qed

section \<open>Mapping pages\<close>

lemma pg_inv_less: "pg_inv st P h k \<Longrightarrow> k' \<le> k \<Longrightarrow> pg_inv st P h k'"
  unfolding pg_inv_def kheap_room_def Let_def by auto

text \<open>Printing ends and changes only the terminal.\<close>

lemma print_mapping: "\<exists>t. paging_print_mapping st h i j page = Some (st\<lparr>pg_term := t\<rparr>)"
proof -
  have "\<exists>t'. print_itoa n t = Some t'" for n t by (rule print_itoa_total)
  then obtain f where "\<And>n t. print_itoa n t = Some (f n t)" by metis
  then show ?thesis by (auto simp: paging_print_mapping_def Let_def)
qed

lemma pg_term_irrelevant [simp]:
  "pg_inv (st\<lparr>pg_term := t\<rparr>) P h k = pg_inv st P h k"
  "virtual_to_physical_addr (st\<lparr>pg_term := t\<rparr>) h v = virtual_to_physical_addr st h v"
  "pg_frame st0 P h (st\<lparr>pg_term := t\<rparr>) P' = pg_frame st0 P h st P'"
  by (simp_all add: pg_inv_def pd_wf_def can_translate_def virtual_to_physical_addr_def Let_def pg_frame_def)

lemma entry_frame:
  assumes "pg_inv st P h k" "i < 1023" "ptbl (pg_mem st) h i \<noteq> 0" "j < 1024"
  shows "pg_frame st P h (pg_store st (ptbl (pg_mem st) h i + 4 * word_of_nat j) w) P"
proof (rule pg_frame_store [of _ "ptbl (pg_mem st) h i" 4096])
  note se = store_entry [OF assms, where w = w]
  show "\<And>i'. i' < 1023 \<Longrightarrow> ptbl (pg_mem (pg_store st (ptbl (pg_mem st) h i + 4 * word_of_nat j) w)) h i' = ptbl (pg_mem st) h i'"
    using se(4) by simp
  show "pdir (pg_mem (pg_store st (ptbl (pg_mem st) h i + 4 * word_of_nat j) w)) h = pdir (pg_mem st) h"
    by (rule se(6))
  show "\<And>i'. i' < 1024 \<Longrightarrow> pde (pg_mem (pg_store st (ptbl (pg_mem st) h i + 4 * word_of_nat j) w)) h i' = pde (pg_mem st) h i'"
    by (rule se(3))
qed (use assms(2-4) entry_place_region in \<open>auto simp: apart_def\<close>)

lemma map_page:
  assumes inv: "pg_inv st P h (if ptbl (pg_mem st) h (dir_index v) = 0 then Suc k else k)" and al: "take_bit 12 v = 0" "take_bit 12 page = 0" and i: "dir_index v < 1023"
    and fl: "flags AND 0x80 = 0" "flags \<noteq> 0"
    and np: "ptbl (pg_mem st) h (dir_index v) \<noteq> 0 \<Longrightarrow> pde (pg_mem st) h (dir_index v) AND 0x80 = 0 \<and> pde (pg_mem st) h (dir_index v) \<noteq> 0"
  obtains st' P' where "paging_map_page st h v page flags = Some (0, st')" "pg_inv st' P' h k"
    "ptbl (pg_mem st') h (dir_index v) \<noteq> 0" "pde (pg_mem st') h (dir_index v) AND 0x80 = 0" "pde (pg_mem st') h (dir_index v) \<noteq> 0"
    "pte (pg_mem st') h (dir_index v) (tbl_index v) = page OR ucast flags"
    "\<forall>i'<1023. ptbl (pg_mem st) h i' \<noteq> 0 \<longrightarrow> ptbl (pg_mem st') h i' \<noteq> 0 \<and> pde (pg_mem st') h i' = pde (pg_mem st) h i'
       \<and> (\<forall>j'<1024. (i', j') \<noteq> (dir_index v, tbl_index v) \<longrightarrow> pte (pg_mem st') h i' j' = pte (pg_mem st) h i' j')"
    "\<forall>i'<1023. ptbl (pg_mem st) h i' = 0 \<longrightarrow> i' \<noteq> dir_index v \<longrightarrow> ptbl (pg_mem st') h i' = 0 \<and> pde (pg_mem st') h i' = pde (pg_mem st) h i'"
    "pg_frame st P h st' P'"
proof -
  let ?m = "pg_mem st" and ?i = "dir_index v" and ?j = "tbl_index v"
  have j: "?j < 1024" by simp
  let ?w = "page OR ucast flags"
  have aligned: "paging_addr_is_page_aligned v" "paging_addr_is_page_aligned page" using al by (simp_all add: page_aligned_iff)
  show thesis
  proof (cases "ptbl ?m h ?i = 0")
    case True
    obtain st1 p where st1: "paging_new_table st h (word_of_nat ?i) flags = Some st1" "P p = None" "p \<noteq> 0"
      "pg_inv st1 (P(p \<mapsto> 4096)) h k" "ptbl (pg_mem st1) h ?i = p"
      "pde (pg_mem st1) h ?i AND 0x80 = 0 \<and> (flags \<noteq> 0 \<longrightarrow> pde (pg_mem st1) h ?i \<noteq> 0)"
      "\<forall>i'<1024. i' \<noteq> ?i \<longrightarrow> pde (pg_mem st1) h i' = pde ?m h i' \<and> ptbl (pg_mem st1) h i' = ptbl ?m h i'"
      "\<forall>i'<1023. i' \<noteq> ?i \<longrightarrow> ptbl ?m h i' \<noteq> 0 \<longrightarrow> (\<forall>j'<1024. pte (pg_mem st1) h i' j' = pte ?m h i' j')"
      "pg_frame st P h st1 (P(p \<mapsto> 4096))"
      by (rule new_table [OF _ i True fl(1), of P k]) (use inv True in simp)
    have t: "ptbl (pg_mem st1) h ?i \<noteq> 0" using st1(3,5) by simp
    note se = store_entry [OF st1(4) i t j, where w = ?w]
    obtain tm where tm: "paging_print_mapping (pg_store st1 (ptbl (pg_mem st1) h ?i + 4 * word_of_nat ?j) ?w) h
        (word_of_nat ?i) (word_of_nat ?j) page = Some ((pg_store st1 (ptbl (pg_mem st1) h ?i + 4 * word_of_nat ?j) ?w)\<lparr>pg_term := tm\<rparr>)"
      using print_mapping by blast
    have "paging_map_page st h v page flags
        = Some (0, (pg_store st1 (ptbl (pg_mem st1) h ?i + 4 * word_of_nat ?j) ?w)\<lparr>pg_term := tm\<rparr>)"
      using aligned True t st1(1) tm
      by (simp add: paging_map_page_def Let_def page_indices directory_virtual_at_def table_at_def ptbl_def)
    moreover have old: "i' \<noteq> ?i \<and> ptbl (pg_mem st1) h i' = ptbl ?m h i' \<and> pde (pg_mem st1) h i' = pde ?m h i'
        \<and> (\<forall>j'<1024. pte (pg_mem st1) h i' j' = pte ?m h i' j')" if "i' < 1023" "ptbl ?m h i' \<noteq> 0" for i'
    proof -
      have "i' \<noteq> ?i" using that(2) True by auto
      then show ?thesis using that st1(7,8) by simp
    qed
    moreover have "ptbl (pg_mem st1) h i' = 0 \<and> pde (pg_mem st1) h i' = pde ?m h i'" if "i' < 1023" "ptbl ?m h i' = 0" "i' \<noteq> ?i" for i'
      using that st1(7) by simp
    ultimately show thesis
      by (intro that [of "(pg_store st1 (ptbl (pg_mem st1) h ?i + 4 * word_of_nat ?j) ?w)\<lparr>pg_term := tm\<rparr>" "P(p \<mapsto> 4096)"])
        (use se(1-5) t st1(6) i fl(2) pg_frame_trans [OF st1(9) entry_frame [OF st1(4) i t j]] in simp_all)
  next
    case False
    have inv': "pg_inv st P h k" using inv False by simp
    note se = store_entry [OF inv' i False j, where w = ?w]
    obtain tm where tm: "paging_print_mapping (pg_store st (ptbl ?m h ?i + 4 * word_of_nat ?j) ?w) h
        (word_of_nat ?i) (word_of_nat ?j) page = Some ((pg_store st (ptbl ?m h ?i + 4 * word_of_nat ?j) ?w)\<lparr>pg_term := tm\<rparr>)"
      using print_mapping by blast
    have "paging_map_page st h v page flags
        = Some (0, (pg_store st (ptbl ?m h ?i + 4 * word_of_nat ?j) ?w)\<lparr>pg_term := tm\<rparr>)"
      using aligned False tm
      by (simp add: paging_map_page_def Let_def page_indices directory_virtual_at_def table_at_def ptbl_def)
    then show thesis
      by (rule that) (use se False i np entry_frame [OF inv' i False j] in auto)
  qed
qed

lemma entry_addr_of_page:
  assumes "take_bit 12 page = 0" "flags < 0x80"
  shows "PAGE_ENTRY_ADDR (page OR ucast (flags :: u16)) = page"
proof (rule bit_word_eqI)
  fix n assume n: "n < LENGTH(32)"
  have "unat flags < 2 ^ 7" using assms(2) by (simp add: word_less_nat_alt)
  then have "unat (take_bit 7 flags) = unat flags" by (simp add: unsigned_take_bit_eq take_bit_nat_eq_self)
  then have "take_bit 7 flags = flags" by (simp add: word_unat_eq_iff)
  then have fb: "\<not> bit flags n" if "7 \<le> n" using that bit_take_bit_iff [of 7 flags n] by simp
  have pb: "\<not> bit page n" if "n < 12"
    using assms(1) that bit_take_bit_iff [of 12 page n] by simp
  have am: "ADDR_MASK = NOT (mask 12)" by (simp add: ADDR_MASK_def mask_eq_exp_minus_1)
  have mb: "bit ADDR_MASK n \<longleftrightarrow> 12 \<le> n" unfolding am using n by (auto simp: bit_simps)
  show "bit (PAGE_ENTRY_ADDR (page OR ucast flags)) n = bit page n"
    using fb pb mb by (auto simp: PAGE_ENTRY_ADDR_def bit_simps)
qed

lemma page_offset:
  assumes "take_bit 12 v = 0" "unat u div 4096 = unat v div 4096"
  shows "u AND 0xFFF = u - v" "dir_index u = dir_index v" "tbl_index u = tbl_index v"
proof -
  have v: "unat v = 4096 * (unat u div 4096)"
    using assms by (simp add: aligned_unat) (metis mult_div_mod_eq add_0_right)
  then have "unat (u - v) = unat u mod 4096"
    by (subst unat_sub) (simp_all add: word_le_nat_alt minus_mult_div_eq_mod)
  moreover have "unat (u AND 0xFFF) = unat u mod 4096" by (simp add: and_fff unsigned_take_bit_eq take_bit_eq_mod unat_mod)
  ultimately show "u AND 0xFFF = u - v" by (simp add: word_unat_eq_iff)
  have "dir_index w = unat w div 4096 div 1024" for w by (simp add: div_mult2_eq [symmetric])
  then show "dir_index u = dir_index v" by (simp add: assms(2))
  show "tbl_index u = tbl_index v" by (simp add: assms(2))
qed

lemma other_page:
  assumes "unat u div 4096 \<noteq> unat v div 4096"
  shows "(dir_index u, tbl_index u) \<noteq> (dir_index v, tbl_index v)"
proof
  assume a: "(dir_index u, tbl_index u) = (dir_index v, tbl_index v)"
  have "unat w div 4096 = 1024 * (unat w div 4194304) + unat w div 4096 mod 1024" for w :: u32
    using mult_div_mod_eq [of 1024 "unat w div 4096"] by (simp add: div_mult2_eq [symmetric])
  then show False using a assms by (metis prod.inject)
qed

text \<open>Small pages only: the directory entry of a table that exists is not empty and maps no large page.\<close>

definition small_pages :: "mem \<Rightarrow> addr \<Rightarrow> bool" where
  "small_pages m h \<longleftrightarrow> (\<forall>i<1023. ptbl m h i \<noteq> 0 \<longrightarrow> pde m h i AND 0x80 = 0 \<and> pde m h i \<noteq> 0)"

text \<open>The entries for the addresses from \<open>0x400000\<close> up to \<open>0x4400000\<close>, where programs and their stacks live, are empty.\<close>

definition user_space_empty :: "mem \<Rightarrow> addr \<Rightarrow> bool" where
  "user_space_empty m h \<longleftrightarrow> (\<forall>i. 1 \<le> i \<longrightarrow> i \<le> 16 \<longrightarrow> pde m h i = 0 \<and> ptbl m h i = 0)"

lemma user_space_cong:
  "user_space_empty m h \<Longrightarrow> (\<And>i. i < 1024 \<Longrightarrow> pde m' h i = pde m h i \<and> ptbl m' h i = ptbl m h i) \<Longrightarrow> user_space_empty m' h"
  by (simp add: user_space_empty_def)

lemma map_page_translation:
  assumes inv: "pg_inv st P h (if ptbl (pg_mem st) h (dir_index v) = 0 then Suc k else k)" and al: "take_bit 12 v = 0" "take_bit 12 page = 0" and i: "dir_index v < 1023"
    and fl: "flags < 0x80" "flags \<noteq> 0" and sp: "small_pages (pg_mem st) h"
  obtains st' P' where "paging_map_page st h v page flags = Some (0, st')" "pg_inv st' P' h k" "small_pages (pg_mem st') h"
    "\<forall>i<1023. ptbl (pg_mem st) h i \<noteq> 0 \<longrightarrow> ptbl (pg_mem st') h i \<noteq> 0" "ptbl (pg_mem st') h (dir_index v) \<noteq> 0"
    "\<forall>u. unat u div 4096 = unat v div 4096 \<longrightarrow> virtual_to_physical_addr st' h u = Some (page + (u - v))"
    "\<forall>u. unat u div 4096 \<noteq> unat v div 4096 \<longrightarrow> dir_index u < 1023 \<longrightarrow> ptbl (pg_mem st) h (dir_index u) \<noteq> 0 \<longrightarrow>
       virtual_to_physical_addr st' h u = virtual_to_physical_addr st h u"
    "pg_frame st P h st' P'"
    "\<forall>i<1023. ptbl (pg_mem st) h i = 0 \<longrightarrow> i \<noteq> dir_index v \<longrightarrow> ptbl (pg_mem st') h i = 0 \<and> pde (pg_mem st') h i = pde (pg_mem st) h i"
proof -
  have fl': "flags AND 0x80 = 0"
  proof -
    have "unat flags < 2 ^ 7" using fl(1) by (simp add: word_less_nat_alt)
    then have "unat (take_bit 7 flags) = unat flags" by (simp add: unsigned_take_bit_eq take_bit_nat_eq_self)
    then have "take_bit 7 flags = flags" by (simp add: word_unat_eq_iff)
    then have "\<not> bit flags 7" using bit_take_bit_iff [of 7 flags 7] by simp
    then show ?thesis using and_exp_eq_0_iff_not_bit [of flags 7] by simp
  qed
  obtain st' P' where st': "paging_map_page st h v page flags = Some (0, st')" "pg_inv st' P' h k"
    "ptbl (pg_mem st') h (dir_index v) \<noteq> 0" "pde (pg_mem st') h (dir_index v) AND 0x80 = 0" "pde (pg_mem st') h (dir_index v) \<noteq> 0"
    "pte (pg_mem st') h (dir_index v) (tbl_index v) = page OR ucast flags"
    "\<forall>i'<1023. ptbl (pg_mem st) h i' \<noteq> 0 \<longrightarrow> ptbl (pg_mem st') h i' \<noteq> 0 \<and> pde (pg_mem st') h i' = pde (pg_mem st) h i'
       \<and> (\<forall>j'<1024. (i', j') \<noteq> (dir_index v, tbl_index v) \<longrightarrow> pte (pg_mem st') h i' j' = pte (pg_mem st) h i' j')"
    "\<forall>i'<1023. ptbl (pg_mem st) h i' = 0 \<longrightarrow> i' \<noteq> dir_index v \<longrightarrow> ptbl (pg_mem st') h i' = 0 \<and> pde (pg_mem st') h i' = pde (pg_mem st) h i'"
    "pg_frame st P h st' P'"
    by (rule map_page [OF inv al i fl' fl(2)]) (use sp i in \<open>auto simp: small_pages_def\<close>)
  have "small_pages (pg_mem st') h"
    using sp st'(4,5,7,8) unfolding small_pages_def by metis
  moreover have "virtual_to_physical_addr st' h u = Some (page + (u - v))" if "unat u div 4096 = unat v div 4096" for u
    using page_offset [OF al(1) that] st'(4,6) entry_addr_of_page [OF al(2) fl(1)]
    by (simp add: virtual_to_physical_eq V_ADDR_PAGEFRAME_INDEX_def)
  moreover have "virtual_to_physical_addr st' h u = virtual_to_physical_addr st h u"
    if "unat u div 4096 \<noteq> unat v div 4096" "dir_index u < 1023" "ptbl (pg_mem st) h (dir_index u) \<noteq> 0" for u
  proof -
    have "tbl_index u < 1024" by simp
    then have "pde (pg_mem st') h (dir_index u) = pde (pg_mem st) h (dir_index u)"
      "pte (pg_mem st') h (dir_index u) (tbl_index u) = pte (pg_mem st) h (dir_index u) (tbl_index u)"
      using st'(7) that(2,3) other_page [OF that(1)] by blast+
    then show ?thesis using st'(9) by (simp only: virtual_to_physical_eq pg_frame_def)
  qed
  ultimately show thesis by (intro that [OF st'(1,2)]) (use st'(3,7,8,9) in auto)
qed

text \<open>
  The page tables a range of \<open>n\<close> pages may still need: one for its first directory entry, unless that
  has one, and one for each directory entry it enters after that.
\<close>

definition tables_needed :: "mem \<Rightarrow> addr \<Rightarrow> addr \<Rightarrow> nat \<Rightarrow> nat" where
  "tables_needed m h v n =
     (if n = 0 then 0
      else (unat v + 4096 * n - 1) div 4194304 - dir_index v + (if ptbl m h (dir_index v) = 0 then 1 else 0))"

lemma tables_needed_step:
  assumes "unat w = unat v + 4096" and t: "ptbl m' h (dir_index v) \<noteq> 0"
  shows "tables_needed m' h w n + (if ptbl m h (dir_index v) = 0 then 1 else 0) \<le> tables_needed m h v (Suc n)"
proof (cases n)
  case (Suc l)
  define last_dir where "last_dir = (unat v + 4096 * Suc n - 1) div 4194304"
  have eq: "(unat w + 4096 * n - 1) div 4194304 = last_dir" using assms(1) by (simp add: last_dir_def)
  have le: "dir_index v \<le> dir_index w" "dir_index w \<le> last_dir"
    using assms(1) Suc by (auto simp: last_dir_def intro!: div_le_mono)
  have old: "tables_needed m h v (Suc n) = last_dir - dir_index v + (if ptbl m h (dir_index v) = 0 then 1 else 0)"
    by (simp add: tables_needed_def last_dir_def)
  have new: "tables_needed m' h w n = last_dir - dir_index w + (if ptbl m' h (dir_index w) = 0 then 1 else 0)"
    using Suc unfolding tables_needed_def eq by simp
  show ?thesis
  proof (cases "dir_index w = dir_index v")
    case True
    then show ?thesis using t unfolding old new by simp
  next
    case False
    then have "last_dir - dir_index w + 1 \<le> last_dir - dir_index v" using le by linarith
    then show ?thesis unfolding old new by auto
  qed
qed (simp add: tables_needed_def)

lemma same_page_iff:
  fixes a b :: nat
  assumes "b mod 4096 = 0"
  shows "a div 4096 = b div 4096 \<longleftrightarrow> b \<le> a \<and> a < b + 4096"
proof -
  have "b = 4096 * (b div 4096)" using assms by (metis add_0_right mult_div_mod_eq)
  then show ?thesis using div_less_iff_less_mult [of 4096 a "Suc (b div 4096)"] less_eq_div_iff_mult_less_eq [of 4096 "b div 4096" a]
    by (simp only: mult.commute [of _ 4096] mult_Suc_right) linarith
qed

lemma map_range_loop:
  assumes "pg_inv st P h (tables_needed (pg_mem st) h v n + k)" "take_bit 12 v = 0" "take_bit 12 page = 0" "flags < 0x80" "flags \<noteq> 0"
    and "small_pages (pg_mem st) h" "unat v + 4096 * n \<le> 0xFFC00000"
  shows "\<exists>st' P'. paging_map_range_loop st h v page n flags = Some (0, st') \<and> pg_inv st' P' h k \<and> small_pages (pg_mem st') h
    \<and> pg_frame st P h st' P' \<and> (\<forall>i<1023. ptbl (pg_mem st) h i \<noteq> 0 \<longrightarrow> ptbl (pg_mem st') h i \<noteq> 0)
    \<and> (\<forall>u. unat v \<le> unat u \<longrightarrow> unat u < unat v + 4096 * n \<longrightarrow> ptbl (pg_mem st') h (dir_index u) \<noteq> 0)
    \<and> (\<forall>u. unat v \<le> unat u \<longrightarrow> unat u < unat v + 4096 * n \<longrightarrow> virtual_to_physical_addr st' h u = Some (page + (u - v)))
    \<and> (\<forall>u. unat u < unat v \<or> unat v + 4096 * n \<le> unat u \<longrightarrow> dir_index u < 1023 \<longrightarrow> ptbl (pg_mem st) h (dir_index u) \<noteq> 0 \<longrightarrow>
         virtual_to_physical_addr st' h u = virtual_to_physical_addr st h u)
    \<and> (\<forall>i<1023. ptbl (pg_mem st) h i = 0 \<longrightarrow> 4194304 * Suc i \<le> unat v \<or> unat v + 4096 * n \<le> 4194304 * i \<longrightarrow>
         ptbl (pg_mem st') h i = 0 \<and> pde (pg_mem st') h i = pde (pg_mem st) h i)"
  using assms
proof (induction n arbitrary: st P v page)
  case 0
  then show ?case using pg_frame_refl by (auto simp: tables_needed_def)
next
  case (Suc n)
  let ?m = "pg_mem st" and ?k = "tables_needed (pg_mem st) h v (Suc n) + k"
  let ?l = "if ptbl ?m h (dir_index v) = 0 then ?k - 1 else ?k"
  have i: "dir_index v < 1023" using Suc.prems(7) by (simp add: div_less_iff_less_mult)
  have pos: "0 < ?k" if "ptbl ?m h (dir_index v) = 0" using that by (simp add: tables_needed_def)
  have room: "pg_inv st P h (if ptbl ?m h (dir_index v) = 0 then Suc ?l else ?l)"
    using Suc.prems(1) pos by auto
  obtain st1 P1 where st1: "paging_map_page st h v page flags = Some (0, st1)" "pg_inv st1 P1 h ?l" "small_pages (pg_mem st1) h"
    "\<forall>i<1023. ptbl ?m h i \<noteq> 0 \<longrightarrow> ptbl (pg_mem st1) h i \<noteq> 0" "ptbl (pg_mem st1) h (dir_index v) \<noteq> 0"
    "\<forall>u. unat u div 4096 = unat v div 4096 \<longrightarrow> virtual_to_physical_addr st1 h u = Some (page + (u - v))"
    "\<forall>u. unat u div 4096 \<noteq> unat v div 4096 \<longrightarrow> dir_index u < 1023 \<longrightarrow> ptbl ?m h (dir_index u) \<noteq> 0 \<longrightarrow>
       virtual_to_physical_addr st1 h u = virtual_to_physical_addr st h u" "pg_frame st P h st1 P1"
    "\<forall>i<1023. ptbl ?m h i = 0 \<longrightarrow> i \<noteq> dir_index v \<longrightarrow> ptbl (pg_mem st1) h i = 0 \<and> pde (pg_mem st1) h i = pde ?m h i"
    by (rule map_page_translation [OF room Suc.prems(2,3) i Suc.prems(4,5,6)])
  let ?w = "v + 4096"
  have w: "unat ?w = unat v + 4096" using Suc.prems(7) by (simp add: unat_word_ariths)
  have v: "unat v mod 4096 = 0" using Suc.prems(2) by (simp add: aligned_unat)
  have need: "tables_needed (pg_mem st1) h ?w n + k \<le> ?l"
    using tables_needed_step [OF w st1(5), of n ?m] by (simp split: if_splits)
  have al: "take_bit 12 ?w = 0" "take_bit 12 (page + 4096) = 0"
    using Suc.prems(2,3) aligned_add by auto
  have fit: "unat ?w + 4096 * n \<le> 0xFFC00000" using w Suc.prems(7) by simp
  from Suc.IH [OF pg_inv_less [OF st1(2) need] al Suc.prems(4,5) st1(3) fit]
  obtain st' P' where st': "paging_map_range_loop st1 h ?w (page + 4096) n flags = Some (0, st')" "pg_inv st' P' h k"
    "small_pages (pg_mem st') h"
    "\<forall>u. unat ?w \<le> unat u \<longrightarrow> unat u < unat ?w + 4096 * n \<longrightarrow> virtual_to_physical_addr st' h u = Some (page + 4096 + (u - ?w))"
    "\<forall>u. unat u < unat ?w \<or> unat ?w + 4096 * n \<le> unat u \<longrightarrow> dir_index u < 1023 \<longrightarrow> ptbl (pg_mem st1) h (dir_index u) \<noteq> 0 \<longrightarrow>
         virtual_to_physical_addr st' h u = virtual_to_physical_addr st1 h u" "pg_frame st1 P1 h st' P'"
    "\<forall>i<1023. ptbl (pg_mem st1) h i \<noteq> 0 \<longrightarrow> ptbl (pg_mem st') h i \<noteq> 0"
    "\<forall>u. unat ?w \<le> unat u \<longrightarrow> unat u < unat ?w + 4096 * n \<longrightarrow> ptbl (pg_mem st') h (dir_index u) \<noteq> 0"
    "\<forall>i<1023. ptbl (pg_mem st1) h i = 0 \<longrightarrow> 4194304 * Suc i \<le> unat ?w \<or> unat ?w + 4096 * n \<le> 4194304 * i \<longrightarrow>
         ptbl (pg_mem st') h i = 0 \<and> pde (pg_mem st') h i = pde (pg_mem st1) h i" by blast
  note page = same_page_iff [OF v]
  have "virtual_to_physical_addr st' h u = Some (page + (u - v))" if "unat v \<le> unat u" "unat u < unat v + 4096 * Suc n" for u
  proof (cases "unat u < unat v + 4096")
    case True
    then have d: "unat u div 4096 = unat v div 4096" using page that by simp
    have du: "dir_index u = dir_index v" by (rule page_offset(2) [OF Suc.prems(2) d])
    have "virtual_to_physical_addr st' h u = virtual_to_physical_addr st1 h u"
      by (rule st'(5) [rule_format]) (use True w du i st1(5) in \<open>simp_all only: simp_thms not_False_eq_True\<close>)
    then show ?thesis by (simp only: st1(6) [rule_format, OF d])
  next
    case False
    have "virtual_to_physical_addr st' h u = Some (page + 4096 + (u - ?w))"
      by (rule st'(4) [rule_format]) (use False that(2) w in simp_all)
    then show ?thesis by simp
  qed
  moreover have "ptbl (pg_mem st') h (dir_index u) \<noteq> 0" if "unat v \<le> unat u" "unat u < unat v + 4096 * Suc n" for u
  proof (cases "unat u < unat v + 4096")
    case True
    then have d: "unat u div 4096 = unat v div 4096" using page that by simp
    show ?thesis unfolding page_offset(2) [OF Suc.prems(2) d] using st1(5) st'(7) i by blast
  next
    case False
    show ?thesis by (rule st'(8) [rule_format]) (use False that(2) w in simp_all)
  qed
  moreover have "virtual_to_physical_addr st' h u = virtual_to_physical_addr st h u"
    if "unat u < unat v \<or> unat v + 4096 * Suc n \<le> unat u" "dir_index u < 1023" "ptbl ?m h (dir_index u) \<noteq> 0" for u
  proof -
    have n: "unat u div 4096 \<noteq> unat v div 4096" unfolding page using that(1) by auto
    have "virtual_to_physical_addr st' h u = virtual_to_physical_addr st1 h u"
      by (rule st'(5) [rule_format]) (use that w st1(4) in auto)
    then show ?thesis by (simp only: st1(7) [rule_format, OF n that(2,3)])
  qed
  moreover have "ptbl (pg_mem st') h i = 0 \<and> pde (pg_mem st') h i = pde ?m h i"
    if i: "i < 1023" "ptbl ?m h i = 0" "4194304 * Suc i \<le> unat v \<or> unat v + 4096 * Suc n \<le> 4194304 * i" for i
  proof -
    have "i \<noteq> dir_index v" using i(3) mult_div_mod_eq [of 4194304 "unat v"] mod_less_divisor [of 4194304 "unat v"] by auto
    then have 1: "ptbl (pg_mem st1) h i = 0 \<and> pde (pg_mem st1) h i = pde ?m h i" using st1(9) i(1,2) by blast
    have "4194304 * Suc i \<le> unat ?w \<or> unat ?w + 4096 * n \<le> 4194304 * i" using i(3) w by auto
    then show ?thesis using st'(9) [rule_format, OF i(1)] 1 by metis
  qed
  ultimately show ?case
    using st1(1,4) st'(1-3,7) pg_frame_trans [OF st1(8) st'(6)] by (auto simp: PAGING_PAGE_SIZE_def)
qed

lemma map_from_to:
  assumes "pg_inv st P h (tables_needed (pg_mem st) h virt n + k)" "small_pages (pg_mem st) h"
    and "paging_addr_is_page_aligned virt" "paging_addr_is_page_aligned phys_begin" "flags < 0x80" "flags \<noteq> 0"
    and "unat phys_end = unat phys_begin + 4096 * n" "unat virt + 4096 * n \<le> 0xFFC00000"
  shows "\<exists>st' P'. paging_map_from_to st h virt phys_begin phys_end flags = Some (0, st')
    \<and> pg_inv st' P' h k \<and> small_pages (pg_mem st') h
    \<and> pg_frame st P h st' P' \<and> (\<forall>i<1023. ptbl (pg_mem st) h i \<noteq> 0 \<longrightarrow> ptbl (pg_mem st') h i \<noteq> 0)
    \<and> (\<forall>u. unat virt \<le> unat u \<longrightarrow> unat u < unat virt + 4096 * n \<longrightarrow> ptbl (pg_mem st') h (dir_index u) \<noteq> 0)
    \<and> (\<forall>u. unat virt \<le> unat u \<longrightarrow> unat u < unat virt + 4096 * n \<longrightarrow>
         virtual_to_physical_addr st' h u = Some (phys_begin + (u - virt)))
    \<and> (\<forall>u. unat u < unat virt \<or> unat virt + 4096 * n \<le> unat u \<longrightarrow> dir_index u < 1023 \<longrightarrow>
         ptbl (pg_mem st) h (dir_index u) \<noteq> 0 \<longrightarrow> virtual_to_physical_addr st' h u = virtual_to_physical_addr st h u)
    \<and> (\<forall>i<1023. ptbl (pg_mem st) h i = 0 \<longrightarrow> 4194304 * Suc i \<le> unat virt \<or> unat virt + 4096 * n \<le> 4194304 * i \<longrightarrow>
         ptbl (pg_mem st') h i = 0 \<and> pde (pg_mem st') h i = pde (pg_mem st) h i)"
proof -
  have al: "take_bit 12 virt = 0" "take_bit 12 phys_begin = 0" using assms(3,4) by (simp_all add: page_aligned_iff)
  have "unat phys_begin mod 4096 = 0" using al(2) by (simp add: aligned_unat)
  then have end_al: "paging_addr_is_page_aligned phys_end"
    using assms(7) by (simp add: page_aligned_iff aligned_unat)
  have le: "\<not> phys_end < phys_begin" using assms(7) by (simp add: word_less_nat_alt)
  then have d: "unat (phys_end - phys_begin) = 4096 * n" using assms(7) by (simp add: unat_sub not_less)
  have n: "n < 2 ^ 20" using assms(8) by simp
  have q: "unat ((phys_end - phys_begin) div PAGING_PAGE_SIZE) = n" using d by (simp add: PAGING_PAGE_SIZE_def unat_div)
  then have "sint ((phys_end - phys_begin) div PAGING_PAGE_SIZE) = int n"
    using n by (simp add: sint_uint uint_nat signed_take_bit_int_eq_self)
  then have c: "nat (sint ((phys_end - phys_begin) div PAGING_PAGE_SIZE)) = n" by simp
  have f: "unat flags < 0x80" using assms(5) by (simp add: word_less_nat_alt)
  then have uf: "unat (ucast flags :: u16) = unat flags" by (simp add: unsigned_ucast_eq take_bit_nat_eq_self)
  have fl: "(ucast flags :: u16) < 0x80" "(ucast flags :: u16) \<noteq> 0"
    using f uf assms(6) by (simp_all add: word_less_nat_alt) (metis unat_eq_zero)
  have "paging_map_from_to st h virt phys_begin phys_end flags = paging_map_range_loop st h virt phys_begin n (ucast flags)"
    using assms(3,4) end_al le c by (simp add: paging_map_from_to_def paging_map_range_def Let_def)
  then show ?thesis using map_range_loop [OF assms(1) al fl assms(2,8)] by simp
qed

section \<open>Properties\<close>

text \<open>
  C5: \<open>paging_map_from_to\<close> maps a range linearly. Let the directory be well formed and use small
  pages, the range end before the last directory entry (which holds the directory itself), and the
  heap have room for the page tables the range needs. Then the call returns 0, every address at
  offset \<open>o\<close> into the range translates to \<open>phys_begin + o\<close>, the translation of every other address with a
  page table is what it was, and the invariant of heap and directory holds again.
\<close>

theorem paging_map_from_to_linear:
  assumes "pg_inv st P h (tables_needed (pg_mem st) h virt n + k)" "small_pages (pg_mem st) h"
    and "paging_addr_is_page_aligned virt" "paging_addr_is_page_aligned phys_begin" "flags < 0x80" "flags \<noteq> 0"
    and "unat phys_end = unat phys_begin + 4096 * n" "unat virt + 4096 * n \<le> 0xFFC00000"
  shows "\<exists>st' P'. paging_map_from_to st h virt phys_begin phys_end flags = Some (0, st')
    \<and> pg_inv st' P' h k \<and> small_pages (pg_mem st') h
    \<and> (\<forall>u. unat virt \<le> unat u \<longrightarrow> unat u < unat virt + 4096 * n \<longrightarrow>
         virtual_to_physical_addr st' h u = Some (phys_begin + (u - virt)))
    \<and> (\<forall>u. unat u < unat virt \<or> unat virt + 4096 * n \<le> unat u \<longrightarrow> unat u < 0xFFC00000 \<longrightarrow>
         ptbl (pg_mem st) h (dir_index u) \<noteq> 0 \<longrightarrow> virtual_to_physical_addr st' h u = virtual_to_physical_addr st h u)"
proof -
  have "unat u < 0xFFC00000 \<Longrightarrow> dir_index u < 1023" for u :: u32 by (simp add: div_less_iff_less_mult)
  then show ?thesis using map_from_to [OF assms] by metis
qed

text \<open>An empty directory below the heap, with large pages on as the boot code leaves them.\<close>

definition demo_mem :: mem where "demo_mem = store32 (\<lambda>_. 0) 0x10000 0x20000"

lemma demo_directory:
  obtains st where "pg_inv st Map.empty 0x10000 4094" "small_pages (pg_mem st) 0x10000" "pg_current_directory st = 0x10000"
    "\<forall>i<1024. ptbl (pg_mem st) 0x10000 i = 0" "\<forall>i<1024. pde (pg_mem st) 0x10000 i = 0"
proof -
  obtain s where s: "kheap_init 0xC0101234 \<lparr>ks_mem = demo_mem, ks_heap = demo_heap\<rparr> = Some s" "kheap_inv s Map.empty"
    "kheap_room s 4094" "\<forall>a < 0xC0101234. kheap_ext s a \<and> ks_mem s a = demo_mem a"
    by (rule kheap_init_state [of "0xC0101234" "\<lparr>ks_mem = demo_mem, ks_heap = demo_heap\<rparr>"]) auto
  define st where "st = \<lparr>pg_ks = s, pg_current_directory = 0x10000, pg_bitmap_begin = 0, pg_bitmap_end = 0,
    pg_cr0 = 0, pg_cr3 = 0, pg_cr4 = PSE_BIT, pg_interrupts = False,
    pg_term = \<lparr>video_memory = \<lambda>_. 0, terminal_row = 0, terminal_column = 0\<rparr>\<rparr>"
  have low: "a < 0xC0101234" if "in_region a p 4100" "p = 0x10000 \<or> p = 0x20000" for a p
  proof -
    define x where "x = a - p"
    have "unat x < 4100" using that(1) by (simp add: in_region_def x_def)
    then have "unat (p + x) < 0xC0101234" using that(2) by (auto simp: unat_word_ariths)
    moreover have "a = p + x" by (simp add: x_def)
    ultimately have "unat a < 0xC0101234" by simp
    then show ?thesis by (simp add: word_less_nat_alt)
  qed
  have mem: "pg_mem st a = demo_mem a" "kheap_ext s a" if "in_region a p 4100" "p = 0x10000 \<or> p = 0x20000" for a p
    using low [OF that] s(4) by (auto simp: st_def)
  have d: "pdir (pg_mem st) 0x10000 = 0x20000"
  proof -
    have "load32 (pg_mem st) 0x10000 = load32 demo_mem 0x10000"
      by (rule load32_cong, rule mem(1)) (auto intro: in_region_mono)
    then show ?thesis by (simp add: pdir_def demo_mem_def load_store_simps)
  qed
  have t: "ptbl (pg_mem st) 0x10000 i = 0" if "i < 1024" for i
  proof -
    have "ptbl (pg_mem st) 0x10000 i = ptbl demo_mem 0x10000 i"
      unfolding ptbl_def by (rule load32_cong, rule mem(1), rule handle_place_region [OF that]) auto
    also have "\<dots> = ptbl (\<lambda>_. 0) 0x10000 i"
    proof -
      have "regions_disjoint 0x10000 4 (0x10000 + 4 + 4 * word_of_nat i) 4"
        using handle_slot_disjoint [OF that, of "0x10000"] regions_disjoint_sym by blast
      then show ?thesis by (simp add: ptbl_def demo_mem_def load_store_simps)
    qed
    finally show ?thesis by (simp add: ptbl_def load32_def)
  qed
  have e: "pde (pg_mem st) 0x10000 i = 0" if "i < 1024" for i
    unfolding pde_def d
  proof (rule load32_zero)
    fix a assume "in_region a (0x20000 + 4 * word_of_nat i) 4"
    then have a: "in_region a 0x20000 4100" using entry_place_region [OF that] in_region_mono [of a "0x20000" 4096 4100] by simp
    then have "\<not> in_region a 0x10000 4" using regions_disjointD [of "0x10000" 4 "0x20000" 4100 a] by (auto simp: regions_disjoint_def)
    then show "pg_mem st a = 0" using mem(1) [OF a] by (simp add: demo_mem_def store32_outside)
  qed
  have "held s Map.empty 0x10000 4100" "held s Map.empty 0x20000 4096"
    using mem(2) in_region_mono [of _ "0x20000" 4096 4100] by (auto simp: held_def)
  moreover have "regions_disjoint 0x10000 4100 0x20000 4096" by (simp add: regions_disjoint_def)
  ultimately have "pd_wf st Map.empty 0x10000"
    unfolding pd_wf_def Let_def d using t by (simp add: st_def)
  moreover have "can_translate st Map.empty 0x10000" by (simp add: can_translate_def st_def PSE_BIT_def)
  ultimately have "pg_inv st Map.empty 0x10000 4094" using s(2,3) by (simp add: pg_inv_def st_def)
  then show thesis by (rule that) (use t e in \<open>auto simp: small_pages_def st_def\<close>)
qed

theorem paging_map_from_to_linear_witness:
  "\<exists>st st'. pg_inv st Map.empty 0x10000 4094
     \<and> paging_map_from_to st 0x10000 0xC0000000 0 0x400000 3 = Some (0, st')
     \<and> virtual_to_physical_addr st' 0x10000 0xC0123456 = Some 0x123456"
proof -
  obtain st where st: "pg_inv st Map.empty 0x10000 4094" "small_pages (pg_mem st) 0x10000"
    "\<forall>i<1024. ptbl (pg_mem st) 0x10000 i = 0" by (rule demo_directory)
  have "tables_needed (pg_mem st) 0x10000 0xC0000000 1024 = 1" using st(3) by (simp add: tables_needed_def)
  with paging_map_from_to_linear [of st Map.empty "0x10000" "0xC0000000" 1024 4093 0 3 "0x400000"] st(1,2)
  obtain st' where "paging_map_from_to st 0x10000 0xC0000000 0 0x400000 3 = Some (0, st')"
    "\<forall>u. unat (0xC0000000 :: u32) \<le> unat u \<longrightarrow> unat u < unat (0xC0000000 :: u32) + 4096 * 1024 \<longrightarrow>
         virtual_to_physical_addr st' 0x10000 u = Some (0 + (u - 0xC0000000))"
    by (auto simp: page_aligned_iff)
  then show ?thesis using st(1) by (intro exI [of _ st] exI [of _ st']) (simp add: spec [of _ "0xC0123456"])
qed

text \<open>
  C35: \<open>paging_align_address\<close> gives the least page-aligned address that is not below its argument, for
  every address up to the start of the last page; above that the sum wraps and the result is 0.
\<close>

theorem paging_align_address_bounds:
  "if unat a \<le> 0xFFFFF000
   then paging_addr_is_page_aligned (paging_align_address a) \<and> a \<le> paging_align_address a
     \<and> unat (paging_align_address a) - unat a < 4096
     \<and> (paging_addr_is_page_aligned a = (paging_align_address a = a))
   else paging_align_address a = 0"
proof (cases "unat a \<le> 0xFFFFF000")
  case True
  have s: "unat (a + 0xFFF) = unat a + 4095" using True by (simp add: unat_word_ariths)
  define q where "q = (unat a + 4095) div 4096"
  have q: "4096 * q \<le> unat a + 4095" "unat a + 4095 < 4096 * q + 4096"
    unfolding q_def by (simp_all add: dividend_less_times_div add.commute)
  have r: "unat (paging_align_address a) = 4096 * q"
    using s q True by (simp add: paging_align_address_def PAGING_PAGE_SIZE_def unat_word_ariths unat_div q_def [symmetric])
  have "paging_addr_is_page_aligned a \<longleftrightarrow> unat a = 4096 * q"
  proof -
    have "unat a mod 4096 = 0 \<longleftrightarrow> unat a = 4096 * q"
    proof
      assume "unat a mod 4096 = 0"
      then obtain k where k: "unat a = 4096 * k" by (metis mod_0_imp_dvd dvdE)
      then have "k = q" using q by simp
      then show "unat a = 4096 * q" using k by simp
    qed simp
    then show ?thesis by (simp add: page_aligned_iff aligned_unat)
  qed
  moreover have "paging_addr_is_page_aligned (paging_align_address a)" using r by (simp add: page_aligned_iff aligned_unat)
  ultimately show ?thesis using r q True by (auto simp: word_le_nat_alt word_unat_eq_iff)
next
  case False
  have "unat (a + 0xFFF) = unat a + 4095 - 2 ^ 32"
    using False unat_lt_2p32 [of a] by (simp add: unat_word_ariths mod_if)
  then have "unat ((a + 0xFFF) div 4096) = 0" using False unat_lt_2p32 [of a] by (simp add: unat_div)
  then have "(a + 0xFFF) div 4096 = 0" by (simp only: unat_eq_zero)
  then show ?thesis using False by (simp add: paging_align_address_def PAGING_PAGE_SIZE_def)
qed

end
