(* ===== verification/Page_Clone.thy ===== *)
theory Page_Clone
  imports Paging
begin

text \<open>
  What \<open>paging_clone_directory\<close> makes of the kernel's own directory, the way \<open>process_map_memory\<close> calls
  it: a new directory that shares the kernel's page tables, ready to get mappings of its own.
\<close>

section \<open>The loop over the directory\<close>

abbreviation pg_with :: "paging_state \<Rightarrow> mem \<Rightarrow> paging_state" where
  "pg_with st m \<equiv> st\<lparr>pg_ks := (pg_ks st)\<lparr>ks_mem := m\<rparr>\<rparr>"

lemma pg_store_with: "pg_store st a v = pg_with st (store32 (pg_mem st) a v)"
  by (simp add: pg_store_def)

lemma clone_loop_append:
  "paging_clone_loop K src copy (xs @ ys) st =
     (case paging_clone_loop K src copy xs st of None \<Rightarrow> None | Some st1 \<Rightarrow> paging_clone_loop K src copy ys st1)"
  by (induction xs arbitrary: st) (auto split: option.splits)

text \<open>The handle and the directory of the copy are apart from each other and from those of the source.\<close>

definition clone_sep :: "mem \<Rightarrow> addr \<Rightarrow> addr \<Rightarrow> addr \<Rightarrow> bool" where
  "clone_sep m K copy d \<longleftrightarrow> regions_disjoint copy 4100 d 4096
     \<and> regions_disjoint copy 4100 K 4100 \<and> regions_disjoint copy 4100 (pdir m K) 4096
     \<and> regions_disjoint d 4096 K 4100 \<and> regions_disjoint d 4096 (pdir m K) 4096"

text \<open>The first \<open>n\<close> entries are copied, the others are still empty, and nothing else has changed.\<close>

definition cloned :: "mem \<Rightarrow> addr \<Rightarrow> addr \<Rightarrow> addr \<Rightarrow> nat \<Rightarrow> mem \<Rightarrow> bool" where
  "cloned m0 K copy d n m \<longleftrightarrow> pdir m copy = d
     \<and> (\<forall>a. \<not> in_region a copy 4100 \<longrightarrow> \<not> in_region a d 4096 \<longrightarrow> m a = m0 a)
     \<and> (\<forall>i<n. pde m copy i = pde m0 K i \<and> ptbl m copy i = (if pde m0 K i = 0 then 0 else ptbl m0 K i))
     \<and> (\<forall>i<1024. n \<le> i \<longrightarrow> pde m copy i = 0 \<and> ptbl m copy i = 0)"

lemma cloned_source:
  assumes "clone_sep m0 K copy d" "cloned m0 K copy d n m" "i < 1024"
  shows "pdir m K = pdir m0 K" "pde m K i = pde m0 K i" "ptbl m K i = ptbl m0 K i"
proof -
  have "m a = m0 a" if "in_region a K 4100 \<or> in_region a (pdir m0 K) 4096" for a
    using assms(1,2) that regions_disjointD unfolding clone_sep_def cloned_def by blast
  then show "pdir m K = pdir m0 K" "pde m K i = pde m0 K i" "ptbl m K i = ptbl m0 K i"
    using pd_frame [of K m m0] assms(3) by blast+
qed

text \<open>A directory entry and its table in the handle, written one after the other.\<close>

lemma copy_entry:
  fixes e t :: u32
  assumes "pdir m copy = d" "regions_disjoint copy 4100 d 4096" "i < 1024"
  defines "m' \<equiv> store32 (store32 m (d + 4 * word_of_nat i) e) (copy + 4 + 4 * word_of_nat i) t"
  shows "pdir m' copy = d" "pde m' copy i = e" "ptbl m' copy i = t"
    "\<And>j. j < 1024 \<Longrightarrow> j \<noteq> i \<Longrightarrow> pde m' copy j = pde m copy j \<and> ptbl m' copy j = ptbl m copy j"
    "\<And>a. \<not> in_region a copy 4100 \<Longrightarrow> \<not> in_region a d 4096 \<Longrightarrow> m' a = m a"
proof -
  let ?m1 = "store32 m (d + 4 * word_of_nat i) e"
  have o1: "?m1 a = m a" if "\<not> in_region a d 4096" for a
    by (rule store32_outside) (use that entry_place_region [OF assms(3)] in blast)
  have o2: "m' a = ?m1 a" if "\<not> in_region a copy 4100" for a
    unfolding m'_def by (rule store32_outside) (use that handle_place_region [OF assms(3)] in blast)
  show "m' a = m a" if "\<not> in_region a copy 4100" "\<not> in_region a d 4096" for a using o1 o2 that by simp
  have h: "?m1 a = m a" if "in_region a copy 4100" for a
    using that assms(2) o1 regions_disjointD by blast
  have "pdir ?m1 copy = pdir m copy" unfolding pdir_def by (rule load32_region [OF h]) (auto intro: in_region_mono)
  then have d1: "pdir ?m1 copy = d" using assms(1) by simp
  have t1: "ptbl ?m1 copy j = ptbl m copy j" if "j < 1024" for j
    unfolding ptbl_def by (rule load32_region [OF h]) (use that handle_place_region in auto)
  have dd: "m' a = ?m1 a" if "in_region a d 4096" for a
    using that assms(2) o2 regions_disjointD by blast
  show d': "pdir m' copy = d" unfolding m'_def using tbl_slot(1) [OF assms(3)] d1 by simp
  have e': "pde m' copy j = pde ?m1 copy j" if "j < 1024" for j
    unfolding pde_def d' d1 by (rule load32_region [OF dd]) (use that entry_place_region in auto)
  show "pde m' copy i = e" using e' assms(3) dir_slot(1) [OF assms(3,1) d1] by simp
  show "ptbl m' copy i = t" unfolding m'_def by (rule tbl_slot(2) [OF assms(3)])
  show "pde m' copy j = pde m copy j \<and> ptbl m' copy j = ptbl m copy j" if "j < 1024" "j \<noteq> i" for j
    using e' [OF that(1)] dir_slot(2) [OF assms(3,1) d1 that] tbl_slot(3) [OF assms(3) that] t1 [OF that(1)]
    unfolding m'_def by simp
qed

lemma clone_entry_step:
  assumes "clone_sep m0 K copy d" "cloned m0 K copy d n (pg_mem st)" "n < 1023"
  obtains m where "paging_clone_entry K K copy (word_of_nat n) st = Some (pg_with st m)" "cloned m0 K copy d (Suc n) m"
proof (cases "pde m0 K n = 0")
  case True
  have "load32 (pg_mem st) (directory_at (pg_mem st) K (word_of_nat n)) = 0"
    using cloned_source(2) [OF assms(1,2), of n] assms(3) True by (simp add: directory_at_def pde_def pdir_def)
  then have "paging_clone_entry K K copy (word_of_nat n) st = Some (pg_with st (pg_mem st))"
    by (simp add: paging_clone_entry_def)
  moreover have "cloned m0 K copy d (Suc n) (pg_mem st)"
    using assms(2,3) True by (auto simp: cloned_def less_Suc_eq)
  ultimately show thesis by (rule that)
next
  case False
  let ?m = "pg_mem st" and ?e = "pde m0 K n" and ?t = "ptbl m0 K n"
  have n: "n < 1024" using assms(3) by simp
  have c: "pdir ?m copy = d" "regions_disjoint copy 4100 d 4096" using assms(1,2) by (simp_all add: cloned_def clone_sep_def)
  note src = cloned_source [OF assms(1,2) n]
  let ?m1 = "store32 ?m (d + 4 * word_of_nat n) ?e"
  let ?m2 = "store32 ?m1 (copy + 4 + 4 * word_of_nat n) ?t"
  note ce = copy_entry [OF c n, where e = ?e and t = ?t]
  have "?m1 a = ?m a" if "in_region a K 4100" for a
    by (rule store32_outside) (use that assms(1) entry_place_region [OF n] regions_disjointD in \<open>auto simp: clone_sep_def\<close>)
  then have "ptbl ?m1 K n = ptbl ?m K n"
    unfolding ptbl_def by (rule load32_region) (use n handle_place_region in auto)
  then have "paging_clone_entry K K copy (word_of_nat n) st = Some (pg_with st ?m2)"
    using src c(1) False
    by (simp add: paging_clone_entry_def Let_def directory_at_def directory_virtual_at_def pg_store_with pde_def pdir_def ptbl_def)
  moreover have "cloned m0 K copy d (Suc n) ?m2"
    using assms(2,3) ce False unfolding cloned_def by (auto simp: less_Suc_eq)
  ultimately show thesis by (rule that)
qed

lemma clone_loop:
  assumes "clone_sep m0 K copy d" "cloned m0 K copy d 0 (pg_mem st)" "n \<le> 1023"
  shows "\<exists>m. paging_clone_loop K K copy [0..<n] st = Some (pg_with st m) \<and> cloned m0 K copy d n m"
  using assms(3)
proof (induction n)
  case 0
  then show ?case using assms(2) by (intro exI [of _ "pg_mem st"]) simp
next
  case (Suc n)
  then obtain m where m: "paging_clone_loop K K copy [0..<n] st = Some (pg_with st m)" "cloned m0 K copy d n m" by auto
  obtain m' where "paging_clone_entry K K copy (word_of_nat n) (pg_with st m) = Some (pg_with (pg_with st m) m')"
    "cloned m0 K copy d (Suc n) m'"
    by (rule clone_entry_step [OF assms(1), of n "pg_with st m"]) (use m(2) Suc.prems in auto)
  then show ?case using m(1) by (auto simp: clone_loop_append)
qed

section \<open>The new directory\<close>

lemma zero_region:
  assumes "bytes m p n = replicate n 0" "in_region a p n"
  shows "m a = 0"
proof -
  have i: "unat (a - p) < n" using assms(2) by (simp add: in_region_def)
  have "bytes m p n ! unat (a - p) = m (p + word_of_nat (unat (a - p)))" by (rule nth_bytes [OF i])
  then show ?thesis using assms(1) i by simp
qed

text \<open>The state before the loop: an empty directory, and the handle cleared.\<close>

lemma clone_start:
  assumes "bytes m d 4096 = replicate 4096 0" "regions_disjoint copy 4100 d 4096"
  shows "cloned m K copy d 0 (memset (store32 m copy d) (copy + 4) 0 4096)" (is "cloned m K copy d 0 ?m")
proof -
  have m: "?m = fill_mem (store32 m copy d) (copy + 4) 4096 0" by (simp add: memset_0)
  have sub: "in_region a (copy + 4) 4096 \<Longrightarrow> in_region a copy 4100" "in_region a copy 4 \<Longrightarrow> in_region a copy 4100" for a
    using in_region_add [of 4 4096 a copy] in_region_mono [of a copy 4 4100] by simp_all
  have out: "?m a = m a" if "\<not> in_region a copy 4100" for a
    unfolding m using that sub fill_mem_outside store32_outside by metis
  have "\<not> in_region a (copy + 4) 4096" if "in_region a copy 4" for a
  proof -
    have "unat (a - copy) < 4" using that by (simp add: in_region_def)
    then have "unat (a - copy - 4) = unat (a - copy) + 2 ^ 32 - 4" by (simp add: unat_sub_if')
    moreover have "a - (copy + 4) = a - copy - 4" by simp
    ultimately show ?thesis by (simp only: in_region_def) simp
  qed
  then have "pdir ?m copy = d"
    using load32_cong [of copy ?m "store32 m copy d"] by (simp add: m pdir_def fill_mem_outside load_store_simps)
  moreover have "pde ?m copy i = 0" if "i < 1024" for i
    unfolding pde_def \<open>pdir ?m copy = d\<close>
  proof (rule load32_zero)
    fix a assume "in_region a (d + 4 * word_of_nat i) 4"
    then have a: "in_region a d 4096" using entry_place_region [OF that] by blast
    then have "?m a = m a" using out assms(2) regions_disjointD by blast
    then show "?m a = 0" using zero_region [OF assms(1) a] by simp
  qed
  moreover have "ptbl ?m copy i = 0" if "i < 1024" for i
    unfolding ptbl_def by (rule load32_zero) (use entry_place_region [OF that] in \<open>simp add: m fill_mem_inside\<close>)
  ultimately show ?thesis using out by (auto simp: cloned_def)
qed

text \<open>All entries but the last are those of the kernel.\<close>

definition shares :: "mem \<Rightarrow> addr \<Rightarrow> addr \<Rightarrow> addr \<Rightarrow> mem \<Rightarrow> bool" where
  "shares m0 K copy d m \<longleftrightarrow> pdir m copy = d
     \<and> (\<forall>a. \<not> in_region a copy 4100 \<longrightarrow> \<not> in_region a d 4096 \<longrightarrow> m a = m0 a)
     \<and> (\<forall>i<1023. pde m copy i = pde m0 K i \<and> ptbl m copy i = (if pde m0 K i = 0 then 0 else ptbl m0 K i))"

lemma shares_last:
  assumes "shares m0 K copy d m" "regions_disjoint copy 4100 d 4096"
  shows "shares m0 K copy d (store32 m (copy + 4 + 4 * word_of_nat 1023) v)"
    "shares m0 K copy d (store32 m (d + 4 * word_of_nat 1023) v)"
    "pde (store32 m (d + 4 * word_of_nat 1023) v) copy 1023 = v"
    "ptbl (store32 m (d + 4 * word_of_nat 1023) v) copy 1023 = ptbl m copy 1023"
proof -
  have d: "pdir m copy = d" using assms(1) by (simp add: shares_def)
  have l: "1023 < (1024 :: nat)" by simp
  let ?m1 = "store32 m (copy + 4 + 4 * word_of_nat 1023) v"
  have o1: "?m1 a = m a" if "\<not> in_region a copy 4100" for a
    by (rule store32_outside) (use that handle_place_region [OF l] in blast)
  then have o1d: "?m1 a = m a" if "in_region a d 4096" for a using that assms(2) regions_disjointD by blast
  have d1: "pdir ?m1 copy = d" using tbl_slot(1) [OF l] d by simp
  have "pde ?m1 copy i = pde m copy i" if "i < 1024" for i
    unfolding pde_def d1 d by (rule load32_region [OF o1d]) (use that entry_place_region in auto)
  then show "shares m0 K copy d ?m1"
    using assms(1) o1 d1 tbl_slot(3) [OF l] by (simp add: shares_def)
  let ?m2 = "store32 m (d + 4 * word_of_nat 1023) v"
  have o2: "?m2 a = m a" if "\<not> in_region a d 4096" for a
    by (rule store32_outside) (use that entry_place_region [OF l] in blast)
  then have o2h: "?m2 a = m a" if "in_region a copy 4100" for a using that assms(2) regions_disjointD by blast
  have "pdir ?m2 copy = pdir m copy" unfolding pdir_def by (rule load32_region [OF o2h]) (auto intro: in_region_mono)
  then have d2: "pdir ?m2 copy = d" using d by simp
  have t2: "ptbl ?m2 copy i = ptbl m copy i" if "i < 1024" for i
    unfolding ptbl_def by (rule load32_region [OF o2h]) (use that handle_place_region in auto)
  show "shares m0 K copy d ?m2" using assms(1) o2 d2 t2 dir_slot(2) [OF l d d2] by (simp add: shares_def)
  show "pde ?m2 copy 1023 = v" by (rule dir_slot(1) [OF l d d2])
  show "ptbl ?m2 copy 1023 = ptbl m copy 1023" by (rule t2 [OF l])
qed

text \<open>The regions of the copy, apart from everything the kernel's directory consists of.\<close>

definition clone_setup :: "paging_state \<Rightarrow> (addr \<rightharpoonup> nat) \<Rightarrow> addr \<Rightarrow> addr \<Rightarrow> addr \<Rightarrow> bool" where
  "clone_setup st P K copy d \<longleftrightarrow> held (pg_ks st) P copy 4100 \<and> held (pg_ks st) P d 4096 \<and> clone_sep (pg_mem st) K copy d
     \<and> (\<forall>i<1023. ptbl (pg_mem st) K i \<noteq> 0 \<longrightarrow> regions_disjoint copy 4100 (ptbl (pg_mem st) K i) 4096
          \<and> regions_disjoint d 4096 (ptbl (pg_mem st) K i) 4096)"

lemma held_write2:
  assumes "kheap_inv s P" "kheap_room s k" "held s P p n" "held s P q l"
    and out: "\<And>a. \<not> in_region a p n \<Longrightarrow> \<not> in_region a q l \<Longrightarrow> m a = ks_mem s a"
  shows "kheap_inv (s\<lparr>ks_mem := m\<rparr>) P" "kheap_room (s\<lparr>ks_mem := m\<rparr>) k"
proof -
  have "m x = ks_mem s x" if "\<And>p n. held s P p n \<Longrightarrow> \<not> in_region x p n" for x using that assms(3,4) out by blast
  from held_writes(1) [OF assms(1) this] held_writes(2) [OF assms(1) this assms(2)]
  show "kheap_inv (s\<lparr>ks_mem := m\<rparr>) P" "kheap_room (s\<lparr>ks_mem := m\<rparr>) k" by simp_all
qed

lemma kernel_kept:
  assumes inv: "pg_inv st P K k" and cur: "pg_current_directory st = K" and su: "clone_setup st P K copy d"
    and out: "\<forall>a. \<not> in_region a copy 4100 \<longrightarrow> \<not> in_region a d 4096 \<longrightarrow> m a = pg_mem st a"
  shows "pg_inv (pg_with st m) P K k"
    "\<And>i. i < 1024 \<Longrightarrow> pde m K i = pde (pg_mem st) K i \<and> ptbl m K i = ptbl (pg_mem st) K i" "pdir m K = pdir (pg_mem st) K"
    "\<And>i j. i < 1023 \<Longrightarrow> j < 1024 \<Longrightarrow> ptbl (pg_mem st) K i \<noteq> 0 \<Longrightarrow> pte m K i j = pte (pg_mem st) K i j"
proof -
  let ?m = "pg_mem st"
  have sep: "clone_sep ?m K copy d" and h: "held (pg_ks st) P copy 4100" "held (pg_ks st) P d 4096"
    and tb: "\<And>i. i < 1023 \<Longrightarrow> ptbl ?m K i \<noteq> 0 \<Longrightarrow> regions_disjoint copy 4100 (ptbl ?m K i) 4096
          \<and> regions_disjoint d 4096 (ptbl ?m K i) 4096" using su by (auto simp: clone_setup_def)
  have same: "m a = ?m a" if "in_region a q n" "regions_disjoint copy 4100 q n" "regions_disjoint d 4096 q n" for a q n
    using that out regions_disjointD by blast
  note fr = pd_frame [of K m ?m, OF same same]
  have fr: "pdir m K = pdir ?m K" "\<And>i. i < 1024 \<Longrightarrow> pde m K i = pde ?m K i" "\<And>i. i < 1024 \<Longrightarrow> ptbl m K i = ptbl ?m K i"
    using sep fr by (auto simp: clone_sep_def)
  then show "pdir m K = pdir ?m K" "\<And>i. i < 1024 \<Longrightarrow> pde m K i = pde ?m K i \<and> ptbl m K i = ptbl ?m K i" by auto
  have k: "kheap_inv (pg_ks st) P" "kheap_room (pg_ks st) k" and wf: "pd_wf st P K" and ct: "can_translate st P K"
    using inv by (auto simp: pg_inv_def)
  have heap: "ks_heap (pg_ks (pg_with st m)) = ks_heap (pg_ks st)" by simp
  have "pd_wf (pg_with st m) P K"
    using wf unfolding pd_wf_def Let_def held_heap [OF heap] by (simp add: fr)
  moreover have "can_translate (pg_with st m) P K"
    using ct unfolding can_translate_def Let_def held_heap [OF heap] by (simp add: fr cur)
  ultimately show "pg_inv (pg_with st m) P K k"
    using held_write2 [OF k h] out by (simp add: pg_inv_def)
  show "pte m K i j = pte ?m K i j" if "i < 1023" "j < 1024" "ptbl ?m K i \<noteq> 0" for i j
    using tb [OF that(1,3)] fr(3) [of i] that same by (intro pte_frame) auto
qed

lemma shares_wf:
  assumes inv: "pg_inv st P K k" and cur: "pg_current_directory st = K" and su: "clone_setup st P K copy d"
    and sh: "shares (pg_mem st) K copy d m" and ne: "copy \<noteq> K"
  shows "pg_inv (pg_with st m) P copy k"
    "\<And>u. dir_index u < 1023 \<Longrightarrow> pde (pg_mem st) K (dir_index u) \<noteq> 0 \<Longrightarrow> ptbl (pg_mem st) K (dir_index u) \<noteq> 0 \<Longrightarrow>
       virtual_to_physical_addr (pg_with st m) copy u = virtual_to_physical_addr st K u"
proof -
  let ?m = "pg_mem st"
  have out: "\<forall>a. \<not> in_region a copy 4100 \<longrightarrow> \<not> in_region a d 4096 \<longrightarrow> m a = ?m a" and d: "pdir m copy = d"
    and e: "\<And>i. i < 1023 \<Longrightarrow> pde m copy i = pde ?m K i"
    and t: "\<And>i. i < 1023 \<Longrightarrow> ptbl m copy i = (if pde ?m K i = 0 then 0 else ptbl ?m K i)"
    using sh by (auto simp: shares_def)
  note kept = kernel_kept [OF inv cur su out]
  have tk: "ptbl m copy i \<noteq> 0 \<Longrightarrow> ptbl m copy i = ptbl ?m K i" if "i < 1023" for i using t [OF that] by (simp split: if_splits)
  have wf: "pd_wf st P K" and ct: "can_translate st P K" using inv by (auto simp: pg_inv_def)
  have sep: "clone_sep ?m K copy d" and h: "held (pg_ks st) P copy 4100" "held (pg_ks st) P d 4096"
    and tb: "\<And>i. i < 1023 \<Longrightarrow> ptbl ?m K i \<noteq> 0 \<Longrightarrow> regions_disjoint copy 4100 (ptbl ?m K i) 4096
          \<and> regions_disjoint d 4096 (ptbl ?m K i) 4096" using su by (auto simp: clone_setup_def)
  have heap: "ks_heap (pg_ks (pg_with st m)) = ks_heap (pg_ks st)" by simp
  have "pd_wf (pg_with st m) P copy"
    unfolding pd_wf_def Let_def held_heap [OF heap]
  proof (intro conjI allI impI, simp_all add: d)
    show "held (pg_ks st) P copy 4100" "held (pg_ks st) P d 4096" "regions_disjoint copy 4100 d 4096"
      using h sep by (auto simp: clone_sep_def)
    fix i assume i: "i < 1023" "ptbl m copy i \<noteq> 0"
    then show "held (pg_ks st) P (ptbl m copy i) 4096" "regions_disjoint copy 4100 (ptbl m copy i) 4096"
      "regions_disjoint d 4096 (ptbl m copy i) 4096"
      using tk pd_wfD(4) [OF wf, of i] tb [of i] by auto
    fix j assume "j < 1023" "i \<noteq> j" "ptbl m copy j \<noteq> 0"
    then show "regions_disjoint (ptbl m copy i) 4096 (ptbl m copy j) 4096"
      using i tk [of i] tk [of j] pd_wfD(5) [OF wf, of i j] by auto
  qed
  moreover have "can_translate (pg_with st m) P copy"
  proof -
    have k4: "regions_disjoint q n K 4" if "regions_disjoint K 4100 q n" for q n
      using that by (auto simp: regions_disjoint_def)
    have tabs: "regions_disjoint (ptbl m copy i) 4096 K 4 \<and> regions_disjoint (ptbl m copy i) 4096 (pdir ?m K) 4096"
      if "i < 1023" "ptbl m copy i \<noteq> 0" for i
      using tk [OF that] pd_wfD(4) [OF wf, of i] that k4 regions_disjoint_sym by metis
    have "regions_disjoint copy 4100 K 4" "regions_disjoint d 4096 K 4"
      by (rule k4; use sep regions_disjoint_sym in \<open>unfold clone_sep_def, blast\<close>)+
    then have "apart m copy K 4" "apart m copy (pdir ?m K) 4096"
      using sep tabs by (simp_all add: apart_def clone_sep_def d)
    moreover have "held (pg_ks st) P K 4"
      using pd_wfD(1) [OF wf] in_region_mono [of _ K 4 4100] by (auto simp: held_def)
    ultimately show ?thesis
      using ct kept(2,3) cur unfolding can_translate_def Let_def held_heap [OF heap] by auto
  qed
  ultimately show "pg_inv (pg_with st m) P copy k" using kept(1) by (simp add: pg_inv_def)
  fix u assume u: "dir_index u < 1023" "pde ?m K (dir_index u) \<noteq> 0" "ptbl ?m K (dir_index u) \<noteq> 0"
  have "tbl_index u < 1024" by simp
  moreover have "ptbl m copy (dir_index u) = ptbl m K (dir_index u)" using t [OF u(1)] u(2) kept(2) [of "dir_index u"] u(1) by simp
  ultimately have "pte m copy (dir_index u) (tbl_index u) = pte ?m K (dir_index u) (tbl_index u)"
    using kept(4) [OF u(1) _ u(3)] by (simp add: pte_def)
  then show "virtual_to_physical_addr (pg_with st m) copy u = virtual_to_physical_addr st K u"
    using e [OF u(1)] by (simp only: virtual_to_physical_eq) simp
qed

lemma clone_alloc:
  assumes inv: "pg_inv st P K (k + 3)"
  obtains copy ks1 d ks2 where "kzalloc (pg_ks st) sizeof_page_directory_handle = Some (copy, ks1)" "P copy = None"
    "kzalloc ks1 PAGING_PAGE_SIZE = Some (d, ks2)" "(P(copy \<mapsto> 8192)) d = None" "d mod 4096 = 0"
    "pg_inv (st\<lparr>pg_ks := ks2\<rparr>) (P(copy \<mapsto> 8192, d \<mapsto> 4096)) K k" "bytes (ks_mem ks2) d 4096 = replicate 4096 0"
    "clone_setup (st\<lparr>pg_ks := ks2\<rparr>) (P(copy \<mapsto> 8192, d \<mapsto> 4096)) K copy d"
    "\<forall>i<1024. pde (ks_mem ks2) K i = pde (pg_mem st) K i \<and> ptbl (ks_mem ks2) K i = ptbl (pg_mem st) K i"
    "\<forall>u. dir_index u < 1023 \<longrightarrow> ptbl (pg_mem st) K (dir_index u) \<noteq> 0 \<longrightarrow>
       virtual_to_physical_addr (st\<lparr>pg_ks := ks2\<rparr>) K u = virtual_to_physical_addr st K u"
    "\<forall>q n. held (pg_ks st) P q n \<longrightarrow> 0 < n \<longrightarrow> held ks2 (P(copy \<mapsto> 8192, d \<mapsto> 4096)) q n
       \<and> regions_disjoint copy 4100 q n \<and> regions_disjoint d 4096 q n \<and> (\<forall>a. in_region a q n \<longrightarrow> ks_mem ks2 a = pg_mem st a)"
proof -
  have nb: "nblocks sizeof_page_directory_handle = 2" by (simp add: sizeof_page_directory_handle_def)
  have "pg_inv st P K (nblocks sizeof_page_directory_handle + Suc k)" using inv by (simp only: nb) (simp add: numeral_3_eq_3)
  then obtain copy ks1 where c: "kzalloc (pg_ks st) sizeof_page_directory_handle = Some (copy, ks1)" "P copy = None"
    "pg_inv (st\<lparr>pg_ks := ks1\<rparr>) (P(copy \<mapsto> 8192)) K (Suc k)"
    "\<forall>q n. held (pg_ks st) P q n \<longrightarrow> held ks1 (P(copy \<mapsto> 8192)) q n \<and> (0 < n \<longrightarrow> regions_disjoint copy 8192 q n)
       \<and> (\<forall>a. in_region a q n \<longrightarrow> ks_mem ks1 a = pg_mem st a)"
    by (rule new_region) (use nb in \<open>simp_all add: sizeof_page_directory_handle_def\<close>)
  let ?st1 = "st\<lparr>pg_ks := ks1\<rparr>" and ?P1 = "P(copy \<mapsto> 8192)"
  obtain d ks2 where d: "kzalloc (pg_ks ?st1) PAGING_PAGE_SIZE = Some (d, ks2)" "?P1 d = None" "d mod 4096 = 0"
    "pg_inv (?st1\<lparr>pg_ks := ks2\<rparr>) (?P1(d \<mapsto> 4096)) K k" "bytes (ks_mem ks2) d 4096 = replicate 4096 0"
    "\<forall>q n. held ks1 ?P1 q n \<longrightarrow> held ks2 (?P1(d \<mapsto> 4096)) q n \<and> (0 < n \<longrightarrow> regions_disjoint d 4096 q n)
       \<and> (\<forall>a. in_region a q n \<longrightarrow> ks_mem ks2 a = ks_mem ks1 a)"
    by (rule new_page [OF c(3)]) simp
  let ?st2 = "st\<lparr>pg_ks := ks2\<rparr>" and ?P2 = "?P1(d \<mapsto> 4096)" and ?m0 = "pg_mem st"
  have inv2: "pg_inv ?st2 ?P2 K k" using d(4) by simp
  have hc: "held ks1 ?P1 copy 4100" by (simp add: held_def)
  have dc: "regions_disjoint d 4096 copy 4100" using d(6) hc by simp
  have old: "regions_disjoint copy 4100 q n" "regions_disjoint d 4096 q n" "in_region a q n \<Longrightarrow> ks_mem ks2 a = ?m0 a"
    if "held (pg_ks st) P q n" "0 < n" for q n a
  proof -
    have h1: "held ks1 ?P1 q n" "regions_disjoint copy 8192 q n" "\<forall>a. in_region a q n \<longrightarrow> ks_mem ks1 a = ?m0 a"
      using c(4) that by blast+
    show "regions_disjoint copy 4100 q n" using h1(2) regions_disjoint_mono [of copy 8192 q n 4100 n] by simp
    show "regions_disjoint d 4096 q n" "in_region a q n \<Longrightarrow> ks_mem ks2 a = ?m0 a"
      using d(6) h1(1,3) that(2) by (blast, metis)
  qed
  have up: "held ks2 ?P2 q n" if "held (pg_ks st) P q n" for q n using c(4) d(6) that by blast
  have wf: "pd_wf st P K" using inv by (simp add: pg_inv_def)
  note fr = pd_frame [of K "ks_mem ks2" ?m0, OF old(3) [OF pd_wfD(1) [OF wf]] old(3) [OF pd_wfD(2) [OF wf]], simplified]
  have su: "clone_setup ?st2 ?P2 K copy d"
    unfolding clone_setup_def clone_sep_def
    using d(6) hc dc old(1,2) [OF pd_wfD(1) [OF wf]] old(1,2) [OF pd_wfD(2) [OF wf]] old(1,2) [OF conjunct1 [OF pd_wfD(4) [OF wf]]]
    by (auto simp: fr held_def regions_disjoint_sym [of d 4096 copy 4100])
  have tr: "virtual_to_physical_addr ?st2 K u = virtual_to_physical_addr st K u"
    if "dir_index u < 1023" "ptbl ?m0 K (dir_index u) \<noteq> 0" for u
  proof -
    have "pte (ks_mem ks2) K (dir_index u) (tbl_index u) = pte ?m0 K (dir_index u) (tbl_index u)"
      using fr(3) [of "dir_index u"] that old(3) [OF conjunct1 [OF pd_wfD(4) [OF wf that]]] by (intro pte_frame) auto
    then show ?thesis using fr(2) [of "dir_index u"] that(1) by (simp only: virtual_to_physical_eq) simp
  qed
  show thesis
    by (rule that [OF c(1,2) _ d(2,3) inv2 d(5) su]) (use d(1) fr tr old up in \<open>auto simp del: fun_upd_apply\<close>)
qed

lemma clone_kernel:
  assumes inv: "pg_inv st P K (k + 3)" and cur: "pg_current_directory st = K"
  obtains copy d st' where "paging_clone_directory K K st = Some (copy, st')" "P copy = None" "P d = None" "copy \<noteq> d"
    "pg_current_directory st' = K" "pg_inv st' (P(copy \<mapsto> 8192, d \<mapsto> 4096)) copy k"
    "\<forall>u. dir_index u < 1023 \<longrightarrow> pde (pg_mem st) K (dir_index u) \<noteq> 0 \<longrightarrow> ptbl (pg_mem st) K (dir_index u) \<noteq> 0 \<longrightarrow>
       virtual_to_physical_addr st' copy u = virtual_to_physical_addr st K u"
    "\<forall>i<1023. pde (pg_mem st') copy i = pde (pg_mem st) K i
       \<and> ptbl (pg_mem st') copy i = (if pde (pg_mem st) K i = 0 then 0 else ptbl (pg_mem st) K i)"
    "dir_index d < 1023 \<longrightarrow> ptbl (pg_mem st) K (dir_index d) \<noteq> 0 \<longrightarrow>
       virtual_to_physical_addr st K d = Some (PAGE_ENTRY_ADDR (pde (pg_mem st') copy 1023))"
    "pdir (pg_mem st') copy = d" "pg_cr4 st' = pg_cr4 st"
    "\<forall>q n. held (pg_ks st) P q n \<longrightarrow> 0 < n \<longrightarrow> held (pg_ks st') (P(copy \<mapsto> 8192, d \<mapsto> 4096)) q n
       \<and> regions_disjoint copy 4100 q n \<and> regions_disjoint d 4096 q n \<and> (\<forall>a. in_region a q n \<longrightarrow> pg_mem st' a = pg_mem st a)"
proof -
  obtain copy ks1 d ks2 where c: "kzalloc (pg_ks st) sizeof_page_directory_handle = Some (copy, ks1)" "P copy = None"
    and d: "kzalloc ks1 PAGING_PAGE_SIZE = Some (d, ks2)" "(P(copy \<mapsto> 8192)) d = None" "d mod 4096 = 0"
    and inv2: "pg_inv (st\<lparr>pg_ks := ks2\<rparr>) (P(copy \<mapsto> 8192, d \<mapsto> 4096)) K k"
    and zero: "bytes (ks_mem ks2) d 4096 = replicate 4096 0"
    and su: "clone_setup (st\<lparr>pg_ks := ks2\<rparr>) (P(copy \<mapsto> 8192, d \<mapsto> 4096)) K copy d"
    and fr: "\<forall>i<1024. pde (ks_mem ks2) K i = pde (pg_mem st) K i \<and> ptbl (ks_mem ks2) K i = ptbl (pg_mem st) K i"
    and tr: "\<forall>u. dir_index u < 1023 \<longrightarrow> ptbl (pg_mem st) K (dir_index u) \<noteq> 0 \<longrightarrow>
       virtual_to_physical_addr (st\<lparr>pg_ks := ks2\<rparr>) K u = virtual_to_physical_addr st K u"
    and old: "\<forall>q n. held (pg_ks st) P q n \<longrightarrow> 0 < n \<longrightarrow> held ks2 (P(copy \<mapsto> 8192, d \<mapsto> 4096)) q n
       \<and> regions_disjoint copy 4100 q n \<and> regions_disjoint d 4096 q n \<and> (\<forall>a. in_region a q n \<longrightarrow> ks_mem ks2 a = pg_mem st a)"
    by (rule clone_alloc [OF inv])
  let ?st2 = "st\<lparr>pg_ks := ks2\<rparr>" and ?P2 = "P(copy \<mapsto> 8192, d \<mapsto> 4096)" and ?m0 = "pg_mem st"
  have cd: "regions_disjoint copy 4100 d 4096" using su by (simp add: clone_setup_def clone_sep_def)
  have sep: "clone_sep (ks_mem ks2) K copy d" using su by (simp add: clone_setup_def)
  let ?m3 = "memset (store32 (ks_mem ks2) copy d) (copy + 4) 0 4096"
  obtain m4 where m4: "paging_clone_loop K K copy [0..<1023] (pg_with ?st2 ?m3) = Some (pg_with ?st2 m4)"
    "cloned (ks_mem ks2) K copy d 1023 m4"
    using clone_loop [OF sep, of "pg_with ?st2 ?m3" 1023] clone_start [OF zero cd] by auto
  then have sh4: "shares (ks_mem ks2) K copy d m4" by (simp add: shares_def cloned_def)
  let ?m5 = "store32 m4 (copy + 4 + 4 * word_of_nat 1023) d"
  have sh5: "shares (ks_mem ks2) K copy d ?m5" by (rule shares_last(1) [OF sh4 cd])
  have cur2: "pg_current_directory ?st2 = K" using cur by simp
  have out5: "\<forall>a. \<not> in_region a copy 4100 \<longrightarrow> \<not> in_region a d 4096 \<longrightarrow> ?m5 a = pg_mem ?st2 a"
    using sh5 by (simp add: shares_def)
  note kept = kernel_kept [OF inv2 cur2 su out5]
  have ct5: "can_translate (pg_with ?st2 ?m5) ?P2 K" using kept(1) by (simp add: pg_inv_def)
  obtain pa where "virtual_to_physical_addr (pg_with ?st2 ?m5) (pg_current_directory (pg_with ?st2 ?m5)) d = Some pa"
    and pa12: "take_bit 12 pa = 0" by (rule translate_page [OF ct5 d(3)])
  then have pa: "virtual_to_physical_addr (pg_with ?st2 ?m5) K d = Some pa" "take_bit 12 pa = 0" using cur by simp_all
  let ?m6 = "store32 ?m5 (d + 4 * word_of_nat 1023) pa"
  let ?m7 = "store32 ?m6 (d + 4 * word_of_nat 1023) (pa OR 3)"
  note sh6 = shares_last(2,3) [OF sh5 cd, of pa]
  note sh7 = shares_last(2,3) [OF sh6(1) cd, of "pa OR 3"]
  have ne: "copy \<noteq> K"
    using sep by (auto simp: clone_sep_def regions_disjoint_def)
  have tr5: "virtual_to_physical_addr (pg_with ?st2 ?m5) K u = virtual_to_physical_addr ?st2 K u"
    if "dir_index u < 1023" "ptbl ?m0 K (dir_index u) \<noteq> 0" for u
    using kept(2) [of "dir_index u"] kept(4) [of "dir_index u" "tbl_index u"] that fr [rule_format, of "dir_index u"]
    by (simp only: virtual_to_physical_eq) simp
  note wf7 = shares_wf [OF inv2 cur2 su _ ne, of ?m7]
  show thesis
  proof (rule that [of copy "pg_with ?st2 ?m7" d])
    have p4: "load32 m4 copy = d" "load32 ?m5 copy = d" "load32 ?m6 copy = d"
      using sh4 sh5 sh6(1) by (simp_all add: shares_def pdir_def)
    have "ptbl ?m5 copy 1023 = d" by (rule tbl_slot(2)) simp
    moreover have "load32 ?m6 (d + 4 * word_of_nat 1023) = pa" using sh6(2) p4(3) by (simp add: pde_def pdir_def)
    ultimately show "paging_clone_directory K K st = Some (copy, pg_with ?st2 ?m7)"
      using c(1) d(1) m4(1) pa(1) p4 cur
      by (simp add: paging_clone_directory_def Let_def pg_store_with directory_at_def directory_virtual_at_def ptbl_def
          PAGING_WRITABLE_PAGE_def PAGING_PRESENT_def)
    have "PAGE_ENTRY_ADDR (pa OR ucast (3 :: u16)) = pa" by (rule entry_addr_of_page [OF pa(2)]) simp
    then show "dir_index d < 1023 \<longrightarrow> ptbl ?m0 K (dir_index d) \<noteq> 0 \<longrightarrow>
       virtual_to_physical_addr st K d = Some (PAGE_ENTRY_ADDR (pde (pg_mem (pg_with ?st2 ?m7)) copy 1023))"
      using tr [rule_format, of d] tr5 [of d] pa(1) sh7(2) by simp
    have out7: "\<forall>a. \<not> in_region a copy 4100 \<longrightarrow> \<not> in_region a d 4096 \<longrightarrow> ?m7 a = ks_mem ks2 a" and d7: "pdir ?m7 copy = d"
      using sh7(1) by (simp_all add: shares_def)
    then show "pdir (pg_mem (pg_with ?st2 ?m7)) copy = d" by simp
    have hh: "held (pg_ks (pg_with ?st2 ?m7)) ?P2 q n = held ks2 ?P2 q n" for q n by (rule held_heap) simp
    show "\<forall>q n. held (pg_ks st) P q n \<longrightarrow> 0 < n \<longrightarrow> held (pg_ks (pg_with ?st2 ?m7)) ?P2 q n
       \<and> regions_disjoint copy 4100 q n \<and> regions_disjoint d 4096 q n
       \<and> (\<forall>a. in_region a q n \<longrightarrow> pg_mem (pg_with ?st2 ?m7) a = pg_mem st a)"
    proof (intro allI impI)
      fix q n assume q: "held (pg_ks st) P q n" "0 < n"
      note o = old [rule_format, OF q]
      have "?m7 a = pg_mem st a" if "in_region a q n" for a
        using o out7 that regions_disjointD by metis
      then show "held (pg_ks (pg_with ?st2 ?m7)) ?P2 q n \<and> regions_disjoint copy 4100 q n \<and> regions_disjoint d 4096 q n
       \<and> (\<forall>a. in_region a q n \<longrightarrow> pg_mem (pg_with ?st2 ?m7) a = pg_mem st a)" using o unfolding hh by simp
    qed
  qed (use c(2) d(2) cur sh7(1) wf7 tr fr in \<open>auto simp: shares_def split: if_splits\<close>)
qed

section \<open>Properties\<close>

text \<open>
  C14: cloning the kernel's directory, while it is the one in force, gives a new directory that
  translates every address the kernel maps as the kernel's does, has no other entry below the last
  one, and is well formed: it can be extended by \<open>paging_map_from_to\<close>. Its last entry is the physical
  address of the new directory itself, if the kernel maps the page it lies in.
\<close>

theorem paging_clone_shares_kernel:
  assumes "pg_inv st P K (k + 3)" "pg_current_directory st = K"
  shows "\<exists>copy d st'. paging_clone_directory K K st = Some (copy, st') \<and> P copy = None \<and> P d = None \<and> copy \<noteq> d
    \<and> pg_inv st' (P(copy \<mapsto> 8192, d \<mapsto> 4096)) copy k
    \<and> (\<forall>u. dir_index u < 1023 \<longrightarrow> pde (pg_mem st) K (dir_index u) \<noteq> 0 \<longrightarrow> ptbl (pg_mem st) K (dir_index u) \<noteq> 0 \<longrightarrow>
         virtual_to_physical_addr st' copy u = virtual_to_physical_addr st K u)
    \<and> (\<forall>i<1023. pde (pg_mem st) K i = 0 \<longrightarrow> pde (pg_mem st') copy i = 0 \<and> ptbl (pg_mem st') copy i = 0)
    \<and> (dir_index d < 1023 \<longrightarrow> ptbl (pg_mem st) K (dir_index d) \<noteq> 0 \<longrightarrow>
         virtual_to_physical_addr st K d = Some (PAGE_ENTRY_ADDR (pde (pg_mem st') copy 1023)))"
  by (rule clone_kernel [OF assms]) (metis (no_types, lifting))

text \<open>The first megabytes mapped at the kernel's address, in the directory in force.\<close>

lemma demo_mapped:
  obtains st P where "pg_inv st P 0x10000 4093" "pg_current_directory st = 0x10000" "small_pages (pg_mem st) 0x10000"
    "ptbl (pg_mem st) 0x10000 768 \<noteq> 0"
    "\<forall>u. 0xC0000000 \<le> unat u \<longrightarrow> unat u < 0xC0400000 \<longrightarrow> virtual_to_physical_addr st 0x10000 u = Some (u - 0xC0000000)"
    "user_space_empty (pg_mem st) 0x10000"
proof -
  obtain st where st: "pg_inv st Map.empty 0x10000 4094" "small_pages (pg_mem st) 0x10000" "pg_current_directory st = 0x10000"
    "\<forall>i<1024. ptbl (pg_mem st) 0x10000 i = 0" "\<forall>i<1024. pde (pg_mem st) 0x10000 i = 0" by (rule demo_directory)
  have "tables_needed (pg_mem st) 0x10000 0xC0000000 1024 = 1" using st(4) by (simp add: tables_needed_def)
  with map_from_to [of st Map.empty "0x10000" "0xC0000000" 1024 4093 0 3 "0x400000"] st(1,2)
  obtain st' P' where st': "pg_inv st' P' 0x10000 4093" "small_pages (pg_mem st') 0x10000" "pg_frame st Map.empty 0x10000 st' P'"
    "\<forall>u. unat (0xC0000000 :: u32) \<le> unat u \<longrightarrow> unat u < unat (0xC0000000 :: u32) + 4096 * 1024 \<longrightarrow>
         ptbl (pg_mem st') 0x10000 (dir_index u) \<noteq> 0"
    "\<forall>u. unat (0xC0000000 :: u32) \<le> unat u \<longrightarrow> unat u < unat (0xC0000000 :: u32) + 4096 * 1024 \<longrightarrow>
         virtual_to_physical_addr st' 0x10000 u = Some (0 + (u - 0xC0000000))"
    "\<forall>i<1023. ptbl (pg_mem st) 0x10000 i = 0 \<longrightarrow> 4194304 * Suc i \<le> unat (0xC0000000 :: u32) \<or> unat (0xC0000000 :: u32) + 4096 * 1024 \<le> 4194304 * i \<longrightarrow>
         ptbl (pg_mem st') 0x10000 i = 0 \<and> pde (pg_mem st') 0x10000 i = pde (pg_mem st) 0x10000 i"
    by (auto simp: page_aligned_iff)
  have "ptbl (pg_mem st') 0x10000 768 \<noteq> 0" using st'(4) [rule_format, of "0xC0123456"] by simp
  moreover have "\<forall>u. 0xC0000000 \<le> unat u \<longrightarrow> unat u < 0xC0400000 \<longrightarrow> virtual_to_physical_addr st' 0x10000 u = Some (u - 0xC0000000)"
    using st'(5) by simp
  moreover have "user_space_empty (pg_mem st') 0x10000"
    unfolding user_space_empty_def
  proof (intro allI impI)
    fix i :: nat assume "1 \<le> i" "i \<le> 16"
    then show "pde (pg_mem st') 0x10000 i = 0 \<and> ptbl (pg_mem st') 0x10000 i = 0" using st'(6) [rule_format, of i] st(4,5) by simp
  qed
  ultimately show thesis using that [OF st'(1) _ st'(2)] st'(3) st(3) by (simp add: pg_frame_def)
qed

theorem paging_clone_shares_kernel_witness:
  "\<exists>st copy st'. paging_clone_directory 0x10000 0x10000 st = Some (copy, st')
     \<and> virtual_to_physical_addr st' copy 0xC0123456 = Some 0x123456"
proof -
  obtain st P where st: "pg_inv st P 0x10000 4093" "pg_current_directory st = 0x10000" "small_pages (pg_mem st) 0x10000"
    "ptbl (pg_mem st) 0x10000 768 \<noteq> 0"
    "\<forall>u. 0xC0000000 \<le> unat u \<longrightarrow> unat u < 0xC0400000 \<longrightarrow> virtual_to_physical_addr st 0x10000 u = Some (u - 0xC0000000)"
    by (rule demo_mapped)
  have "pg_inv st P 0x10000 (4090 + 3)" using st(1) by simp
  from paging_clone_shares_kernel [OF this st(2)] obtain copy st' where
    "paging_clone_directory 0x10000 0x10000 st = Some (copy, st')"
    "\<forall>u. dir_index u < 1023 \<longrightarrow> pde (pg_mem st) 0x10000 (dir_index u) \<noteq> 0 \<longrightarrow> ptbl (pg_mem st) 0x10000 (dir_index u) \<noteq> 0 \<longrightarrow>
         virtual_to_physical_addr st' copy u = virtual_to_physical_addr st 0x10000 u" by blast
  moreover have "pde (pg_mem st) 0x10000 768 \<noteq> 0" using st(3,4) by (simp add: small_pages_def)
  ultimately show ?thesis
    using st(4) spec [OF st(5), of "0xC0123456"]
    by (intro exI [of _ st] exI [of _ copy] exI [of _ st']) (simp add: spec [of _ "0xC0123456"])
qed

end
