(* ===== verification/Paging_Init.thy ===== *)
theory Paging_Init
  imports Page_Clone
begin

text \<open>
  \<open>paging_init\<close>: from the state the boot code leaves, with large pages on and the boot directory in force, it builds
  the kernel's own directory, maps the first four megabytes at 0 and at \<open>0xC0000000\<close>, turns paging on and frees the
  temporary handle of the boot directory. What it leaves is the state the other lemmas on paging start from.
\<close>

section \<open>An empty directory that maps itself\<close>

lemma empty_directory:
  assumes K: "\<And>a. in_region a K 4100 \<Longrightarrow> m a = 0" and d: "bytes m d 4096 = replicate 4096 0" and dj: "regions_disjoint K 4100 d 4096"
  shows "pdir (store32 m K d) K = d" "i < 1024 \<Longrightarrow> pde (store32 m K d) K i = 0" "i < 1024 \<Longrightarrow> ptbl (store32 m K d) K i = 0"
    "\<not> in_region a K 4100 \<Longrightarrow> store32 m K d a = m a"
proof -
  show p: "pdir (store32 m K d) K = d" by (simp add: pdir_def load_store_simps)
  show out: "store32 m K d a = m a" if "\<not> in_region a K 4100" for a
    using that in_region_mono [of a K 4 4100] by (intro store32_outside) auto
  show "pde (store32 m K d) K i = 0" if "i < 1024"
    unfolding pde_def p
  proof (rule load32_zero)
    fix a assume "in_region a (d + 4 * word_of_nat i) 4"
    then have a: "in_region a d 4096" using entry_place_region [OF that] by blast
    then have "\<not> in_region a K 4100" using dj regions_disjointD by blast
    then show "store32 m K d a = 0" using out zero_region [OF d a] by simp
  qed
  show "ptbl (store32 m K d) K i = 0" if i: "i < 1024"
  proof -
    have "regions_disjoint K 4 (K + 4 + 4 * word_of_nat i) 4"
      using handle_slot_disjoint [OF i, of K] regions_disjoint_sym by blast
    then have "ptbl (store32 m K d) K i = ptbl m K i" by (simp add: ptbl_def load_store_simps)
    also have "\<dots> = 0" unfolding ptbl_def by (rule load32_zero) (use K handle_place_region [OF i] in blast)
    finally show ?thesis .
  qed
qed

lemma self_map:
  fixes d K pa e v :: addr and l :: nat
  assumes m: "pdir m K = d" "\<And>i. i < 1024 \<Longrightarrow> pde m K i = 0" "\<And>i. i < 1024 \<Longrightarrow> ptbl m K i = 0" and dj: "regions_disjoint K 4100 d 4096"
    and l: "l < 1024"
  defines "m' \<equiv> store32 (store32 (store32 m (d + 4 * word_of_nat l) pa) (d + 4 * word_of_nat l) e) (K + 4 + 4 * word_of_nat l) v"
  shows "pdir m' K = d" "i < 1024 \<Longrightarrow> i \<noteq> l \<Longrightarrow> pde m' K i = 0" "pde m' K l = e" "i < 1024 \<Longrightarrow> i \<noteq> l \<Longrightarrow> ptbl m' K i = 0"
    "\<not> in_region a K 4100 \<Longrightarrow> \<not> in_region a d 4096 \<Longrightarrow> m' a = m a"
proof -
  have slot: "\<And>x. in_region x (d + 4 * word_of_nat l) 4 \<Longrightarrow> in_region x d 4096"
    "\<And>x. in_region x (K + 4 + 4 * word_of_nat l) 4 \<Longrightarrow> in_region x K 4100"
    using entry_place_region [OF l] handle_place_region [OF l] by blast+
  let ?m1 = "store32 (store32 m (d + 4 * word_of_nat l) pa) (d + 4 * word_of_nat l) e"
  have o1: "?m1 a = m a" if "\<not> in_region a d 4096" for a using that slot(1) store32_outside by metis
  have o2: "m' a = ?m1 a" if "\<not> in_region a K 4100" for a unfolding m'_def using that slot(2) store32_outside by blast
  show "m' a = m a" if "\<not> in_region a K 4100" "\<not> in_region a d 4096" for a using that o1 o2 by simp
  have K1: "?m1 a = m a" if "in_region a K 4100" for a using that o1 dj regions_disjointD by blast
  have d2: "m' a = ?m1 a" if "in_region a d 4096" for a using that o2 dj regions_disjointD by blast
  have "pdir ?m1 K = pdir m K" unfolding pdir_def by (rule load32_region [OF K1]) (auto intro: in_region_mono)
  then have p1: "pdir ?m1 K = d" using m(1) by simp
  have "regions_disjoint (K + 4 + 4 * word_of_nat l) 4 K 4" using handle_slot_disjoint [OF l, of K] .
  then show p: "pdir m' K = d"
    using p1 regions_disjoint_sym [of "K + 4 + 4 * word_of_nat l" 4 K 4] by (simp add: m'_def pdir_def load_store_simps)
  have e: "pde m' K i = load32 ?m1 (d + 4 * word_of_nat i)" if "i < 1024" for i
    unfolding pde_def p by (rule load32_region [OF d2]) (use that entry_place_region in auto)
  show "pde m' K l = e" using l by (simp add: e load_store_simps)
  show "pde m' K i = 0" if "i < 1024" "i \<noteq> l" for i
  proof -
    have "regions_disjoint (d + 4 * word_of_nat l) 4 (d + 4 * word_of_nat i) 4"
      using entry_places_disjoint [of l i d] that l by simp
    then have "load32 ?m1 (d + 4 * word_of_nat i) = load32 m (d + 4 * word_of_nat i)"
      using regions_disjoint_sym by (simp add: load_store_simps)
    then show ?thesis using e m(1) m(2) [of i] that by (simp add: pde_def)
  qed
  show "ptbl m' K i = 0" if "i < 1024" "i \<noteq> l" for i
  proof -
    have "regions_disjoint (K + 4 + 4 * word_of_nat l) 4 (K + 4 + 4 * word_of_nat i) 4"
      using entry_places_disjoint [of l i "K + 4"] that l by simp
    then have "ptbl m' K i = ptbl ?m1 K i"
      using regions_disjoint_sym by (simp add: m'_def ptbl_def load_store_simps)
    also have "\<dots> = ptbl m K i"
      unfolding ptbl_def by (rule load32_region [OF K1]) (use that handle_place_region in auto)
    finally show ?thesis using m(3) that by simp
  qed
qed

section \<open>Leaving the boot directory\<close>

lemma held_after_free:
  assumes "kheap_inv s P" "P p = Some l"
  obtains s' where "kfree s p = Some s'" "kheap_inv s' (P(p := None))" "\<forall>k. kheap_room s k \<longrightarrow> kheap_room s' k"
    "\<forall>q n. held s P q n \<longrightarrow> 0 < n \<longrightarrow> regions_disjoint q n p l \<longrightarrow>
       held s' (P(p := None)) q n \<and> (\<forall>a. in_region a q n \<longrightarrow> ks_mem s' a = ks_mem s a)"
proof -
  obtain s' where s': "kfree s p = Some s'" "kheap_inv s' (P(p := None))" "\<And>k. kheap_room s k \<Longrightarrow> kheap_room s' k"
    "\<And>q l' a. P q = Some l' \<Longrightarrow> q \<noteq> p \<Longrightarrow> in_region a q l' \<Longrightarrow> ks_mem s' a = ks_mem s a"
    "\<And>a. kheap_ext s a \<Longrightarrow> kheap_ext s' a" "\<And>a. kheap_ext s a \<Longrightarrow> ks_mem s' a = ks_mem s a"
    using kh.release_ok [OF assms] by blast
  have "held s' (P(p := None)) q n \<and> (\<forall>a. in_region a q n \<longrightarrow> ks_mem s' a = ks_mem s a)"
    if q: "held s P q n" "0 < n" "regions_disjoint q n p l" for q n
    using q(1) unfolding held_def
  proof
    assume "\<exists>l'. P q = Some l' \<and> n \<le> l'"
    then obtain l' where l': "P q = Some l'" "n \<le> l'" by blast
    have "q \<noteq> p"
    proof
      assume "q = p"
      then have "in_region q p l" using l' q(2) assms(2) by (simp add: in_region_def)
      moreover have "in_region q q n" using q(2) by (simp add: in_region_def)
      ultimately show False using regions_disjointD [OF q(3)] by blast
    qed
    then show "((\<exists>l'. (P(p := None)) q = Some l' \<and> n \<le> l') \<or> (\<forall>a. in_region a q n \<longrightarrow> kheap_ext s' a))
        \<and> (\<forall>a. in_region a q n \<longrightarrow> ks_mem s' a = ks_mem s a)"
      using l' s'(4) in_region_mono by auto
  qed (use s'(5,6) in auto)
  then show thesis using that [OF s'(1,2)] s'(3) by blast
qed

text \<open>
  Turning large pages off, freeing the boot handle at \<open>cur\<close> and making \<open>K\<close> the directory in force keeps \<open>K\<close> and
  what it translates, provided \<open>K\<close> has no large pages.
\<close>

lemma leave_boot:
  assumes inv: "pg_inv st P K k" and cur: "P cur = Some l" "apart (pg_mem st) K cur l" and small: "\<forall>i<1024. pde (pg_mem st) K i AND 0x80 = 0"
  obtains ks where "kfree (pg_ks st) cur = Some ks"
    "\<forall>c0 c3 c4 i. pg_inv (st\<lparr>pg_interrupts := i, pg_cr3 := c3, pg_cr4 := c4, pg_cr0 := c0, pg_ks := ks, pg_current_directory := K\<rparr>) (P(cur := None)) K k"
    "pdir (ks_mem ks) K = pdir (pg_mem st) K"
    "\<forall>i<1024. pde (ks_mem ks) K i = pde (pg_mem st) K i \<and> ptbl (ks_mem ks) K i = ptbl (pg_mem st) K i"
    "\<forall>i<1023. \<forall>j<1024. ptbl (pg_mem st) K i \<noteq> 0 \<longrightarrow> pte (ks_mem ks) K i j = pte (pg_mem st) K i j"
    "\<forall>q n. held (pg_ks st) P q n \<longrightarrow> 0 < n \<longrightarrow> regions_disjoint q n cur l \<longrightarrow> held ks (P(cur := None)) q n"
proof -
  let ?m = "pg_mem st"
  have k: "kheap_inv (pg_ks st) P" "kheap_room (pg_ks st) k" and wf: "pd_wf st P K" using inv by (auto simp: pg_inv_def)
  obtain ks where ks: "kfree (pg_ks st) cur = Some ks" "kheap_inv ks (P(cur := None))" "\<forall>k. kheap_room (pg_ks st) k \<longrightarrow> kheap_room ks k"
    and fr: "\<forall>q n. held (pg_ks st) P q n \<longrightarrow> 0 < n \<longrightarrow> regions_disjoint q n cur l \<longrightarrow>
       held ks (P(cur := None)) q n \<and> (\<forall>a. in_region a q n \<longrightarrow> ks_mem ks a = ?m a)"
    by (rule held_after_free [OF k(1) cur(1)])
  have h: "held ks (P(cur := None)) K 4100 \<and> (\<forall>a. in_region a K 4100 \<longrightarrow> ks_mem ks a = ?m a)"
    "held ks (P(cur := None)) (pdir ?m K) 4096 \<and> (\<forall>a. in_region a (pdir ?m K) 4096 \<longrightarrow> ks_mem ks a = ?m a)"
    using fr pd_wfD(1,2) [OF wf] cur(2) by (simp_all add: apart_def)
  have t: "held ks (P(cur := None)) (ptbl ?m K i) 4096 \<and> (\<forall>a. in_region a (ptbl ?m K i) 4096 \<longrightarrow> ks_mem ks a = ?m a)"
    if "i < 1023" "ptbl ?m K i \<noteq> 0" for i
  proof -
    have "regions_disjoint (ptbl ?m K i) 4096 cur l" using cur(2) that by (simp add: apart_def)
    then show ?thesis using fr [rule_format, of "ptbl ?m K i" 4096] pd_wfD(4) [OF wf that] by simp
  qed
  note same = pd_frame [of K "ks_mem ks" ?m, OF h(1) [THEN conjunct2, rule_format] h(2) [THEN conjunct2, rule_format]]
  have pt: "pte (ks_mem ks) K i j = pte ?m K i j" if "i < 1023" "j < 1024" "ptbl ?m K i \<noteq> 0" for i j
    by (rule pte_frame) (use same(3) t that in auto)
  have "pg_inv (st\<lparr>pg_interrupts := i, pg_cr3 := c3, pg_cr4 := c4, pg_cr0 := c0, pg_ks := ks, pg_current_directory := K\<rparr>) (P(cur := None)) K k"
    for c0 c3 c4 i
    using ks(2,3) k(2) wf h t small
    by (simp add: pg_inv_def pd_wf_def can_translate_def Let_def same del: fun_upd_apply)
  then show thesis using that [OF ks(1)] same pt fr by simp
qed

section \<open>The regions of the kernel's directory\<close>

lemma memset_held:
  assumes "kheap_inv s P" "kheap_room s k" "held s P p n" "\<forall>a. \<not> in_region a p n \<longrightarrow> m a = ks_mem s a"
  shows "kheap_inv (s\<lparr>ks_mem := m\<rparr>) P" "kheap_room (s\<lparr>ks_mem := m\<rparr>) k"
    "held (s\<lparr>ks_mem := m\<rparr>) P q l = held s P q l"
proof -
  have out: "m a = ks_mem s a" if "\<not> in_region a p n" for a using that assms(4) by blast
  show "kheap_inv (s\<lparr>ks_mem := m\<rparr>) P" "kheap_room (s\<lparr>ks_mem := m\<rparr>) k"
    using held_write [OF assms(1,3) out] assms(2) by blast+
qed (rule held_heap, simp)

text \<open>
  The three allocations of \<open>paging_init\<close> before the first mapping, and the stores between them: the page bitmap, the
  handle of the boot directory and the directory of the kernel.
\<close>

lemma boot_regions:
  assumes inv: "kheap_inv s P" "kheap_room s (k + 4)" and K: "held s P K 4100"
  obtains b ks1 cur ks2 d ks3 P3 where "kzalloc s 4096 = Some (b, ks1)" "paging_addr_is_page_aligned b"
    "kzalloc (ks1\<lparr>ks_mem := memset (ks_mem ks1) b 1 1\<rparr>) sizeof_page_directory_handle = Some (cur, ks2)"
    "kzalloc (ks2\<lparr>ks_mem := memset (store32 (ks_mem ks2) cur BD) K 0 sizeof_page_directory_handle\<rparr>) PAGING_PAGE_SIZE = Some (d, ks3)"
    "d mod 4096 = 0" "kheap_inv ks3 P3" "kheap_room ks3 k" "P \<subseteq>\<^sub>m P3" "P cur = None" "P3 cur = Some 8192" "held ks3 P3 d 4096" "held ks3 P3 K 4100"
    "regions_disjoint K 4100 d 4096" "regions_disjoint K 4100 cur 8192" "regions_disjoint d 4096 cur 8192"
    "\<forall>a. in_region a K 4100 \<longrightarrow> ks_mem ks3 a = 0" "bytes (ks_mem ks3) d 4096 = replicate 4096 0"
    "\<forall>q n. held s P q n \<longrightarrow> 0 < n \<longrightarrow> held ks3 P3 q n \<and> regions_disjoint d 4096 q n \<and> regions_disjoint cur 8192 q n"
proof -
  have sz: "nblocks 4096 = 1" "nblocks sizeof_page_directory_handle = 2" "nblocks PAGING_PAGE_SIZE = 1"
    "unat sizeof_page_directory_handle = 4100" "unat PAGING_PAGE_SIZE = 4096"
    by (simp_all add: sizeof_page_directory_handle_def PAGING_PAGE_SIZE_def)
  have pos: "0 < (4096 :: u32)" "0 < sizeof_page_directory_handle" "0 < PAGING_PAGE_SIZE"
    by (simp_all add: sizeof_page_directory_handle_def PAGING_PAGE_SIZE_def)
  have eqs: "nblocks 4096 + (k + 3) = k + 4" "nblocks sizeof_page_directory_handle + (k + 1) = k + 3" "nblocks PAGING_PAGE_SIZE + k = k + 1"
    using sz by linarith+
  have room: "kheap_room s (nblocks 4096 + (k + 3))" unfolding eqs by (rule inv(2))
  obtain b ks1 where b: "kzalloc s 4096 = Some (b, ks1)" "P b = None" "b mod 4096 = 0" "kheap_inv ks1 (P(b \<mapsto> 4096))" "kheap_room ks1 (k + 3)"
    and fb: "\<forall>q n. held s P q n \<longrightarrow> held ks1 (P(b \<mapsto> 4096)) q n"
    by (rule held_region [OF inv(1) room pos(1)]) (use sz(1) in auto)
  let ?P1 = "P(b \<mapsto> 4096)" and ?s1 = "ks1\<lparr>ks_mem := memset (ks_mem ks1) b 1 1\<rparr>"
  have fill: "memset (ks_mem ks1) b 1 1 = fill_mem (ks_mem ks1) b 1 1"
    using memset_fill_mem [of 1 "ks_mem ks1" b 1] memset_dword_low [of 1] by simp
  have w1: "\<forall>a. \<not> in_region a b 4096 \<longrightarrow> memset (ks_mem ks1) b 1 1 a = ks_mem ks1 a"
    unfolding fill using in_region_mono [of _ b 1 4096] by (auto intro!: fill_mem_outside)
  have hb: "held ks1 ?P1 b 4096" by (simp add: held_def)
  note s1 = memset_held [OF b(4,5) hb w1]
  have room1: "kheap_room ?s1 (nblocks sizeof_page_directory_handle + (k + 1))" unfolding eqs by (rule s1(2))
  obtain cur ks2 where c: "kzalloc ?s1 sizeof_page_directory_handle = Some (cur, ks2)" "?P1 cur = None"
    "kheap_inv ks2 (?P1(cur \<mapsto> 8192))" "kheap_room ks2 (k + 1)"
    and fc: "\<forall>q n. held ?s1 ?P1 q n \<longrightarrow> held ks2 (?P1(cur \<mapsto> 8192)) q n \<and> (0 < n \<longrightarrow> regions_disjoint cur 8192 q n)"
    by (rule held_region [OF s1(1) room1 pos(2)]) (use sz(2) in auto)
  let ?P2 = "?P1(cur \<mapsto> 8192)" and ?m2 = "memset (store32 (ks_mem ks2) cur BD) K 0 sizeof_page_directory_handle"
  have K1: "held ?s1 ?P1 K 4100" unfolding s1(3) using fb K by blast
  then have K2: "held ks2 ?P2 K 4100" "regions_disjoint cur 8192 K 4100" using fc by simp_all
  have hc: "held ks2 ?P2 cur 8192" by (simp add: held_def)
  have fill2: "?m2 = fill_mem (store32 (ks_mem ks2) cur BD) K 4100 0" by (simp add: memset_0 sz(4))
  have w2: "\<forall>a. \<not> in_region a cur 8192 \<longrightarrow> store32 (ks_mem ks2) cur BD a = ks_mem ks2 a"
    using in_region_mono [of _ cur 4 8192] by (auto intro!: store32_outside)
  let ?t2 = "ks2\<lparr>ks_mem := store32 (ks_mem ks2) cur BD\<rparr>" and ?s2 = "ks2\<lparr>ks_mem := ?m2\<rparr>"
  note t2 = memset_held [OF c(3,4) hc w2]
  have w3: "\<forall>a. \<not> in_region a K 4100 \<longrightarrow> ?m2 a = ks_mem ?t2 a" unfolding fill2 by (simp add: fill_mem_outside)
  have s2: "kheap_inv ?s2 ?P2" "kheap_room ?s2 (k + 1)" "held ?s2 ?P2 q l = held ks2 ?P2 q l" for q l
  proof -
    have "held ?t2 ?P2 K 4100" unfolding t2(3) by (rule K2(1))
    note m = memset_held [OF t2(1,2) this w3]
    show "kheap_inv ?s2 ?P2" "kheap_room ?s2 (k + 1)" using m(1,2) by simp_all
    show "held ?s2 ?P2 q l = held ks2 ?P2 q l" by (rule held_heap) simp
  qed
  have room2: "kheap_room ?s2 (nblocks PAGING_PAGE_SIZE + k)" unfolding eqs by (rule s2(2))
  obtain d ks3 where d: "kzalloc ?s2 PAGING_PAGE_SIZE = Some (d, ks3)" "?P2 d = None" "d mod 4096 = 0"
    "kheap_inv ks3 (?P2(d \<mapsto> 4096))" "kheap_room ks3 k" "bytes (ks_mem ks3) d 4096 = replicate 4096 0"
    and fd: "\<forall>q n. held ?s2 ?P2 q n \<longrightarrow> held ks3 (?P2(d \<mapsto> 4096)) q n \<and> (0 < n \<longrightarrow> regions_disjoint d 4096 q n)
       \<and> (\<forall>a. in_region a q n \<longrightarrow> ks_mem ks3 a = ks_mem ?s2 a)"
    by (rule held_region [OF s2(1) room2 pos(3)]) (use sz(3,5) in auto)
  have K3: "held ks3 (?P2(d \<mapsto> 4096)) K 4100" "regions_disjoint d 4096 K 4100" "\<forall>a. in_region a K 4100 \<longrightarrow> ks_mem ks3 a = ?m2 a"
    using fd [rule_format, of K 4100] K2(1) s2(3) by simp_all
  have old: "held ks3 (?P2(d \<mapsto> 4096)) q n \<and> regions_disjoint d 4096 q n \<and> regions_disjoint cur 8192 q n"
    if "held s P q n" "0 < n" for q n
    using fb fc [rule_format, of q n] fd [rule_format, of q n] s1(3) s2(3) that by simp
  have dc: "regions_disjoint d 4096 cur 8192" using fd [rule_format, of cur 8192] hc s2(3) by simp
  have "\<forall>a. in_region a K 4100 \<longrightarrow> ks_mem ks3 a = 0" using K3(3) unfolding fill2 by (simp add: fill_mem_inside)
  moreover have cn: "P cur = None" using c(2) by (auto split: if_splits)
  moreover have "P \<subseteq>\<^sub>m ?P2(d \<mapsto> 4096)" using b(2) c(2) d(2) by (auto simp: map_le_def split: if_splits)
  moreover have "(?P2(d \<mapsto> 4096)) cur = Some 8192" using d(2) by (auto split: if_splits)
  moreover have "held ks3 (?P2(d \<mapsto> 4096)) d 4096" by (simp add: held_def)
  moreover have "paging_addr_is_page_aligned b" using b(3) by (simp add: page_aligned_iff page_aligned_mod)
  ultimately show thesis
    using that [OF b(1) _ c(1) d(1,3,4,5)] K3(1,2) K2(2) dc d(6) regions_disjoint_sym cn old by blast
qed

text \<open>The kernel's directory before the first mapping.\<close>

lemma init_directory:
  assumes inv: "kheap_inv (pg_ks st) P" "kheap_room (pg_ks st) (k + 4)" and K: "held (pg_ks st) P K 4100" and pse: "pg_cr4 st AND PSE_BIT \<noteq> 0"
  obtains st' cur P' where "paging_init_directory BD K st = Some st'" "pg_inv st' P' K k" "P \<subseteq>\<^sub>m P'"
    "pg_current_directory st' = cur" "P' cur = Some 8192" "P cur = None" "apart (pg_mem st') K cur 8192" "pg_cr0 st' = pg_cr0 st"
    "\<forall>i<1024. pde (pg_mem st') K i AND 0x80 = 0" "\<forall>i<1023. ptbl (pg_mem st') K i = 0" "\<forall>i<1023. pde (pg_mem st') K i = 0"
    "\<forall>q n. held (pg_ks st) P q n \<longrightarrow> 0 < n \<longrightarrow> regions_disjoint K 4100 q n \<longrightarrow>
       held (pg_ks st') P' q n \<and> apart (pg_mem st') K q n \<and> regions_disjoint q n cur 8192"
proof -
  obtain b ks1 cur ks2 d ks3 P3 where b: "kzalloc (pg_ks st) 4096 = Some (b, ks1)" "paging_addr_is_page_aligned b"
    and c: "kzalloc (ks1\<lparr>ks_mem := memset (ks_mem ks1) b 1 1\<rparr>) sizeof_page_directory_handle = Some (cur, ks2)"
    and d: "kzalloc (ks2\<lparr>ks_mem := memset (store32 (ks_mem ks2) cur BD) K 0 sizeof_page_directory_handle\<rparr>) PAGING_PAGE_SIZE = Some (d, ks3)"
    "d mod 4096 = 0" and k3: "kheap_inv ks3 P3" "kheap_room ks3 k" "P \<subseteq>\<^sub>m P3" "P cur = None" "P3 cur = Some 8192" "held ks3 P3 d 4096" "held ks3 P3 K 4100"
    and dj: "regions_disjoint K 4100 d 4096" "regions_disjoint K 4100 cur 8192" "regions_disjoint d 4096 cur 8192"
    and z: "\<forall>a. in_region a K 4100 \<longrightarrow> ks_mem ks3 a = 0" "bytes (ks_mem ks3) d 4096 = replicate 4096 0"
    and old: "\<forall>q n. held (pg_ks st) P q n \<longrightarrow> 0 < n \<longrightarrow> held ks3 P3 q n \<and> regions_disjoint d 4096 q n \<and> regions_disjoint cur 8192 q n"
    by (rule boot_regions [OF inv K, of BD]) (rule that; assumption)
  let ?m3 = "ks_mem ks3"
  note e = empty_directory [OF z(1) [rule_format] z(2) dj(1)]
  let ?m4 = "store32 ?m3 K d"
  define S where "S = (\<lambda>m. st\<lparr>pg_bitmap_begin := b, pg_bitmap_end := b + 4096, pg_current_directory := cur, pg_ks := ks3\<lparr>ks_mem := m\<rparr>\<rparr>)"
  have tr: "\<exists>pa. virtual_to_physical_addr (S m) cur d = Some pa \<and> take_bit 12 pa = 0" for m
  proof -
    have "can_translate (S m) P3 K" using pse by (simp add: can_translate_def S_def)
    from translate_page [OF this d(2)] show ?thesis by (auto simp: S_def)
  qed
  obtain pa where pa: "virtual_to_physical_addr (S ?m4) cur d = Some pa" "take_bit 12 pa = 0" using tr by blast
  let ?e = "pa OR (PAGING_WRITABLE_PAGE OR PAGING_PRESENT)"
  have l: "(1023 :: nat) < 1024" by simp
  note sm = self_map [where m = ?m4 and pa = pa and e = ?e and v = d, OF e(1) e(2) e(3) dj(1) l]
  define m7 where "m7 = store32 (store32 (store32 ?m4 (d + 4092) pa) (d + 4092) ?e) (K + 4096) d"
  have m7: "pdir m7 K = d" "pde m7 K 1023 = ?e" "\<And>i. i < 1023 \<Longrightarrow> pde m7 K i = 0" "\<And>i. i < 1023 \<Longrightarrow> ptbl m7 K i = 0"
    "\<And>a. \<not> in_region a K 4100 \<Longrightarrow> \<not> in_region a d 4096 \<Longrightarrow> m7 a = ?m3 a"
    using sm e(4) by (simp_all add: m7_def add.commute)
  obtain pa2 where pa2: "virtual_to_physical_addr (S m7) cur d = Some pa2" "take_bit 12 pa2 = 0" using tr by blast
  have np: "(KERNEL_HEAP_SIZE + PAGING_PAGE_SIZE - 1) div PAGING_PAGE_SIZE = 4096"
    by (simp add: KERNEL_HEAP_SIZE_def PAGING_PAGE_SIZE_def)
  have ib: "init_page_bitmap 4096 st = Some (st\<lparr>pg_ks := ks1\<lparr>ks_mem := memset (ks_mem ks1) b 1 1\<rparr>, pg_bitmap_begin := b, pg_bitmap_end := b + 4096\<rparr>)"
    using b by (simp add: init_page_bitmap_def)
  have o6: "store32 (store32 ?m4 (d + 4092) pa) (d + 4092) v a = ?m4 a" if "in_region a K 4100" for v a
  proof -
    have "\<not> in_region a (d + 4092) 4"
      using that entry_place_region [OF l, of a d] regions_disjointD [OF dj(1)] by (auto simp: add.commute)
    then show ?thesis by (simp add: store32_outside)
  qed
  have lk: "load32 ?m4 K = d" "load32 m7 K = d" "load32 (store32 (store32 ?m4 (d + 4092) pa) (d + 4092) ?e) K = d"
  proof -
    show d4: "load32 ?m4 K = d" "load32 m7 K = d" using e(1) m7(1) by (simp_all add: pdir_def)
    have "load32 (store32 (store32 ?m4 (d + 4092) pa) (d + 4092) ?e) K = load32 ?m4 K"
      by (rule load32_region [OF o6]) (auto intro: in_region_mono)
    then show "load32 (store32 (store32 ?m4 (d + 4092) pa) (d + 4092) ?e) K = d" using d4(1) by simp
  qed
  have "NOT ADDR_MASK = 0xFFF" by (simp add: ADDR_MASK_def)
  then have al: "pa2 AND NOT ADDR_MASK = 0" using pa2(2) by (simp add: and_fff)
  have run: "paging_init_directory BD K st = Some (S m7)"
    using c d(1) pa(1) pa2(1) al lk
    by (simp add: paging_init_directory_def np ib pg_store_def directory_at_def directory_virtual_at_def S_def m7_def load_store_simps add.commute Let_def)
  have h7: "held (pg_ks (S m7)) P3 q n = held ks3 P3 q n" for q n by (rule held_heap) (simp add: S_def)
  have heap: "kheap_inv (pg_ks (S m7)) P3" "kheap_room (pg_ks (S m7)) k"
    using held_write2 [OF k3(1,2,7,6) m7(5)] by (simp_all add: S_def)
  have mS: "pg_mem (S m7) = m7" by (simp add: S_def)
  have inv7: "pg_inv (S m7) P3 K k"
    using heap k3(6,7) dj(1) pse unfolding pg_inv_def pd_wf_def can_translate_def Let_def h7 mS m7(1)
    by (simp add: m7(4)) (simp add: S_def)
  have ap: "apart m7 K cur 8192" using dj m7(4) by (simp add: apart_def m7(1))
  have "?e AND 0x80 = 0"
  proof -
    have "\<not> bit pa 7" using pa(2) bit_take_bit_iff [of 12 pa 7] by simp
    then have "pa AND 0x80 = 0" using and_exp_eq_0_iff_not_bit [of pa 7] by simp
    then show ?thesis by (simp add: PAGING_WRITABLE_PAGE_def PAGING_PRESENT_def bit.conj_disj_distrib2)
  qed
  then have small: "pde m7 K i AND 0x80 = 0" if "i < 1024" for i
    using that m7(2,3) by (cases "i = 1023") auto
  have keep: "held (pg_ks (S m7)) P3 q n \<and> apart m7 K q n \<and> regions_disjoint q n cur 8192"
    if "held (pg_ks st) P q n" "0 < n" "regions_disjoint K 4100 q n" for q n
    using old [rule_format, OF that(1,2)] that(3) regions_disjoint_sym [of cur 8192 q n] m7(4) unfolding h7 by (simp add: apart_def m7(1))
  show thesis
    by (rule that [OF run inv7 k3(3) _ k3(5,4)]) (use ap small m7(3,4) keep in \<open>simp_all add: mS\<close>, simp_all add: S_def)
qed

text \<open>The two mappings of the first four megabytes, one table each.\<close>

lemma map_kernel:
  assumes inv: "pg_inv st P K (k + 2)" and empty: "\<forall>i<1023. ptbl (pg_mem st) K i = 0"
  obtains st1 st2 P2 where "paging_map_from_to st K 0 0 0x400000 (PAGING_WRITABLE_PAGE OR PAGING_PRESENT) = Some (0, st1)"
    "paging_map_from_to st1 K 0xC0000000 0 0x400000 (PAGING_WRITABLE_PAGE OR PAGING_PRESENT) = Some (0, st2)"
    "pg_inv st2 P2 K k" "small_pages (pg_mem st2) K" "pg_frame st P K st2 P2"
    "\<forall>u. unat u < 0x400000 \<longrightarrow> ptbl (pg_mem st2) K (dir_index u) \<noteq> 0 \<and> virtual_to_physical_addr st2 K u = Some u"
    "\<forall>u. 0xC0000000 \<le> unat u \<longrightarrow> unat u < 0xC0400000 \<longrightarrow>
       ptbl (pg_mem st2) K (dir_index u) \<noteq> 0 \<and> virtual_to_physical_addr st2 K u = Some (u - 0xC0000000)"
    "\<forall>i. 1 \<le> i \<longrightarrow> i < 768 \<longrightarrow> ptbl (pg_mem st2) K i = 0 \<and> pde (pg_mem st2) K i = pde (pg_mem st) K i"
proof -
  have fl: "PAGING_WRITABLE_PAGE OR PAGING_PRESENT = 3" by (simp add: PAGING_WRITABLE_PAGE_def PAGING_PRESENT_def)
  have "tables_needed (pg_mem st) K 0 1024 = 1" using empty by (simp add: tables_needed_def)
  moreover have "small_pages (pg_mem st) K" using empty by (simp add: small_pages_def)
  moreover have "pg_inv st P K (1 + (k + 1))" using inv by simp
  ultimately obtain st1 P1 where st1: "paging_map_from_to st K 0 0 0x400000 3 = Some (0, st1)" "pg_inv st1 P1 K (k + 1)"
    "small_pages (pg_mem st1) K" "pg_frame st P K st1 P1"
    "\<forall>u. unat (0 :: u32) \<le> unat u \<longrightarrow> unat u < unat (0 :: u32) + 4096 * 1024 \<longrightarrow> ptbl (pg_mem st1) K (dir_index u) \<noteq> 0"
    "\<forall>u. unat (0 :: u32) \<le> unat u \<longrightarrow> unat u < unat (0 :: u32) + 4096 * 1024 \<longrightarrow> virtual_to_physical_addr st1 K u = Some (0 + (u - 0))"
    "\<forall>i<1023. ptbl (pg_mem st) K i = 0 \<longrightarrow> 4194304 * Suc i \<le> unat (0 :: u32) \<or> unat (0 :: u32) + 4096 * 1024 \<le> 4194304 * i \<longrightarrow>
       ptbl (pg_mem st1) K i = 0 \<and> pde (pg_mem st1) K i = pde (pg_mem st) K i"
    using map_from_to [of st P K 0 1024 "k + 1" 0 3 "0x400000"] by (auto simp: page_aligned_iff)
  have "tables_needed (pg_mem st1) K 0xC0000000 1024 + k \<le> k + 1" by (simp add: tables_needed_def)
  from pg_inv_less [OF st1(2) this] st1(3)
  obtain st2 P2 where st2: "paging_map_from_to st1 K 0xC0000000 0 0x400000 3 = Some (0, st2)" "pg_inv st2 P2 K k"
    "small_pages (pg_mem st2) K" "pg_frame st1 P1 K st2 P2" "\<forall>i<1023. ptbl (pg_mem st1) K i \<noteq> 0 \<longrightarrow> ptbl (pg_mem st2) K i \<noteq> 0"
    "\<forall>u. unat (0xC0000000 :: u32) \<le> unat u \<longrightarrow> unat u < unat (0xC0000000 :: u32) + 4096 * 1024 \<longrightarrow> ptbl (pg_mem st2) K (dir_index u) \<noteq> 0"
    "\<forall>u. unat (0xC0000000 :: u32) \<le> unat u \<longrightarrow> unat u < unat (0xC0000000 :: u32) + 4096 * 1024 \<longrightarrow>
       virtual_to_physical_addr st2 K u = Some (0 + (u - 0xC0000000))"
    "\<forall>u. unat u < unat (0xC0000000 :: u32) \<or> unat (0xC0000000 :: u32) + 4096 * 1024 \<le> unat u \<longrightarrow> dir_index u < 1023 \<longrightarrow>
       ptbl (pg_mem st1) K (dir_index u) \<noteq> 0 \<longrightarrow> virtual_to_physical_addr st2 K u = virtual_to_physical_addr st1 K u"
    "\<forall>i<1023. ptbl (pg_mem st1) K i = 0 \<longrightarrow> 4194304 * Suc i \<le> unat (0xC0000000 :: u32) \<or> unat (0xC0000000 :: u32) + 4096 * 1024 \<le> 4194304 * i \<longrightarrow>
       ptbl (pg_mem st2) K i = 0 \<and> pde (pg_mem st2) K i = pde (pg_mem st1) K i"
    using map_from_to [of st1 P1 K "0xC0000000" 1024 k 0 3 "0x400000"] by (auto simp: page_aligned_iff)
  have "ptbl (pg_mem st2) K (dir_index u) \<noteq> 0 \<and> virtual_to_physical_addr st2 K u = Some u" if "unat u < 0x400000" for u
    using that st1(5,6) [rule_format, of u] st2(5) st2(8) [rule_format, of u] by simp
  moreover have "ptbl (pg_mem st2) K (dir_index u) \<noteq> 0 \<and> virtual_to_physical_addr st2 K u = Some (u - 0xC0000000)"
    if "0xC0000000 \<le> unat u" "unat u < 0xC0400000" for u using that st2(6,7) by simp
  moreover have "ptbl (pg_mem st2) K i = 0 \<and> pde (pg_mem st2) K i = pde (pg_mem st) K i" if "1 \<le> i" "i < 768" for i
    using that st1(7) [rule_format, of i] st2(9) [rule_format, of i] empty by simp
  ultimately show thesis
    using that [OF _ _ st2(2,3) pg_frame_trans [OF st1(4) st2(4)]] st1(1) st2(1) unfolding fl by blast
qed

text \<open>The switch to the new directory keeps what it translates.\<close>

lemma enter_kernel:
  assumes inv: "pg_inv st P K k" and cur: "pg_current_directory st = cur" "P cur = Some l" "apart (pg_mem st) K cur l"
    and small: "\<forall>i<1024. pde (pg_mem st) K i AND 0x80 = 0"
  obtains st' where "paging_init_enter K st = Some st'" "pg_inv st' (P(cur := None)) K k" "pg_current_directory st' = K"
    "pg_cr4 st' AND PSE_BIT = 0" "bit (pg_cr0 st') 31" "pg_cr3 st' = PAGE_ENTRY_ADDR (pde (pg_mem st') K 1023)"
    "small_pages (pg_mem st) K \<longrightarrow> small_pages (pg_mem st') K"
    "\<forall>u. unat u < 0xFFC00000 \<longrightarrow> ptbl (pg_mem st) K (dir_index u) \<noteq> 0 \<longrightarrow>
       ptbl (pg_mem st') K (dir_index u) \<noteq> 0 \<and> virtual_to_physical_addr st' K u = virtual_to_physical_addr st K u"
    "\<forall>q n. held (pg_ks st) P q n \<longrightarrow> 0 < n \<longrightarrow> regions_disjoint q n cur l \<longrightarrow> apart (pg_mem st) K q n \<longrightarrow>
       held (pg_ks st') (P(cur := None)) q n \<and> apart (pg_mem st') K q n"
    "\<forall>i<1024. pde (pg_mem st') K i = pde (pg_mem st) K i \<and> ptbl (pg_mem st') K i = ptbl (pg_mem st) K i"
proof -
  obtain ks where ks: "kfree (pg_ks st) cur = Some ks"
    "\<forall>c0 c3 c4 i. pg_inv (st\<lparr>pg_interrupts := i, pg_cr3 := c3, pg_cr4 := c4, pg_cr0 := c0, pg_ks := ks, pg_current_directory := K\<rparr>) (P(cur := None)) K k"
    "pdir (ks_mem ks) K = pdir (pg_mem st) K"
    "\<forall>i<1024. pde (ks_mem ks) K i = pde (pg_mem st) K i \<and> ptbl (ks_mem ks) K i = ptbl (pg_mem st) K i"
    "\<forall>i<1023. \<forall>j<1024. ptbl (pg_mem st) K i \<noteq> 0 \<longrightarrow> pte (ks_mem ks) K i j = pte (pg_mem st) K i j"
    "\<forall>q n. held (pg_ks st) P q n \<longrightarrow> 0 < n \<longrightarrow> regions_disjoint q n cur l \<longrightarrow> held ks (P(cur := None)) q n"
    by (rule leave_boot [OF inv cur(2,3) small]) (rule that; assumption)
  define st' where "st' = st\<lparr>pg_interrupts := False, pg_cr3 := PAGE_ENTRY_ADDR (pde (pg_mem st) K 1023),
    pg_cr4 := pg_cr4 st AND NOT PSE_BIT, pg_cr0 := pg_cr0 st OR 0x80000000, pg_ks := ks, pg_current_directory := K\<rparr>"
  have run: "paging_init_enter K st = Some st'"
    using ks(1) cur(1) by (simp add: paging_init_enter_def st'_def Let_def directory_at_def pde_def pdir_def)
  have tr: "ptbl (pg_mem st') K (dir_index u) \<noteq> 0 \<and> virtual_to_physical_addr st' K u = virtual_to_physical_addr st K u"
    if u: "unat u < 0xFFC00000" "ptbl (pg_mem st) K (dir_index u) \<noteq> 0" for u
  proof -
    have "dir_index u < 1023" using u(1) by (simp add: div_less_iff_less_mult)
    then have "pte (ks_mem ks) K (dir_index u) (tbl_index u) = pte (pg_mem st) K (dir_index u) (tbl_index u)"
      "pde (ks_mem ks) K (dir_index u) = pde (pg_mem st) K (dir_index u)" "pde (pg_mem st) K (dir_index u) AND 0x80 = 0"
      using ks(4,5) small u by simp_all
    moreover have "ptbl (ks_mem ks) K (dir_index u) = ptbl (pg_mem st) K (dir_index u)" using ks(4) dir_index_lt [of u] by simp
    ultimately show ?thesis using u(2) by (simp add: virtual_to_physical_eq st'_def)
  qed
  have inv': "pg_inv st' (P(cur := None)) K k" using ks(2) by (simp add: st'_def)
  have sp: "small_pages (pg_mem st) K \<longrightarrow> small_pages (pg_mem st') K" using ks(4) by (simp add: small_pages_def st'_def)
  have keep: "held ks (P(cur := None)) q n \<and> apart (ks_mem ks) K q n"
    if "held (pg_ks st) P q n" "0 < n" "regions_disjoint q n cur l" "apart (pg_mem st) K q n" for q n
    using that ks(3,4,6) by (simp add: apart_def)
  show thesis
    by (rule that [OF run inv']) (use sp tr ks(4) keep in \<open>simp_all add: st'_def PSE_BIT_def and.assoc bit_simps\<close>)
qed

lemma init_paging:
  assumes "kheap_inv (pg_ks st) P" "kheap_room (pg_ks st) (k + 6)" "held (pg_ks st) P K 4100"
    and "pg_cr4 st AND PSE_BIT \<noteq> 0"
  obtains st' P' where "paging_init BD K st = Some st'" "pg_inv st' P' K k" "small_pages (pg_mem st') K" "P \<subseteq>\<^sub>m P'"
    "pg_current_directory st' = K" "pg_cr4 st' AND PSE_BIT = 0" "bit (pg_cr0 st') 31" "pg_cr3 st' = PAGE_ENTRY_ADDR (pde (pg_mem st') K 1023)"
    "\<forall>u. unat u < 0x400000 \<longrightarrow> ptbl (pg_mem st') K (dir_index u) \<noteq> 0 \<and> virtual_to_physical_addr st' K u = Some u"
    "\<forall>u. 0xC0000000 \<le> unat u \<longrightarrow> unat u < 0xC0400000 \<longrightarrow>
       ptbl (pg_mem st') K (dir_index u) \<noteq> 0 \<and> virtual_to_physical_addr st' K u = Some (u - 0xC0000000)"
    "\<forall>q n. held (pg_ks st) P q n \<longrightarrow> 0 < n \<longrightarrow> regions_disjoint K 4100 q n \<longrightarrow>
       held (pg_ks st') P' q n \<and> apart (pg_mem st') K q n"
    "user_space_empty (pg_mem st') K"
proof -
  have "k + 2 + 4 = k + 6" by simp
  then have room: "kheap_room (pg_ks st) (k + 2 + 4)" using assms(2) by (simp only:)
  obtain st1 cur P1 where st1: "paging_init_directory BD K st = Some st1" "pg_inv st1 P1 K (k + 2)" "P \<subseteq>\<^sub>m P1"
    "pg_current_directory st1 = cur" "P1 cur = Some 8192" "P cur = None" "apart (pg_mem st1) K cur 8192"
    "\<forall>i<1024. pde (pg_mem st1) K i AND 0x80 = 0" "\<forall>i<1023. ptbl (pg_mem st1) K i = 0" "\<forall>i<1023. pde (pg_mem st1) K i = 0"
    and old: "\<forall>q n. held (pg_ks st) P q n \<longrightarrow> 0 < n \<longrightarrow> regions_disjoint K 4100 q n \<longrightarrow>
       held (pg_ks st1) P1 q n \<and> apart (pg_mem st1) K q n \<and> regions_disjoint q n cur 8192"
    by (rule init_directory [OF assms(1) room assms(3,4), of BD]) (rule that; assumption)
  obtain st2 st3 P3 where st3: "paging_map_from_to st1 K 0 0 0x400000 (PAGING_WRITABLE_PAGE OR PAGING_PRESENT) = Some (0, st2)"
    "paging_map_from_to st2 K 0xC0000000 0 0x400000 (PAGING_WRITABLE_PAGE OR PAGING_PRESENT) = Some (0, st3)"
    "pg_inv st3 P3 K k" "small_pages (pg_mem st3) K" "pg_frame st1 P1 K st3 P3"
    "\<forall>u. unat u < 0x400000 \<longrightarrow> ptbl (pg_mem st3) K (dir_index u) \<noteq> 0 \<and> virtual_to_physical_addr st3 K u = Some u"
    "\<forall>u. 0xC0000000 \<le> unat u \<longrightarrow> unat u < 0xC0400000 \<longrightarrow>
       ptbl (pg_mem st3) K (dir_index u) \<noteq> 0 \<and> virtual_to_physical_addr st3 K u = Some (u - 0xC0000000)"
    "\<forall>i. 1 \<le> i \<longrightarrow> i < 768 \<longrightarrow> ptbl (pg_mem st3) K i = 0 \<and> pde (pg_mem st3) K i = pde (pg_mem st1) K i"
    by (rule map_kernel [OF st1(2,9)])
  have "held (pg_ks st1) P1 cur 8192" using st1(5) by (simp add: held_def)
  then have fr: "pg_current_directory st3 = cur" "P1 \<subseteq>\<^sub>m P3" "\<forall>i<1024. pde (pg_mem st3) K i AND 0x80 = 0"
    "apart (pg_mem st3) K cur 8192"
    using st3(5) st1(4,7,8) by (simp_all add: pg_frame_def)
  have "P3 cur = Some 8192" using fr(2) st1(5) by (metis domI map_le_def)
  then obtain st' where st': "paging_init_enter K st3 = Some st'" "pg_inv st' (P3(cur := None)) K k" "pg_current_directory st' = K"
    "pg_cr4 st' AND PSE_BIT = 0" "bit (pg_cr0 st') 31" "pg_cr3 st' = PAGE_ENTRY_ADDR (pde (pg_mem st') K 1023)"
    "small_pages (pg_mem st3) K \<longrightarrow> small_pages (pg_mem st') K"
    "\<forall>u. unat u < 0xFFC00000 \<longrightarrow> ptbl (pg_mem st3) K (dir_index u) \<noteq> 0 \<longrightarrow>
       ptbl (pg_mem st') K (dir_index u) \<noteq> 0 \<and> virtual_to_physical_addr st' K u = virtual_to_physical_addr st3 K u"
    "\<forall>q n. held (pg_ks st3) P3 q n \<longrightarrow> 0 < n \<longrightarrow> regions_disjoint q n cur 8192 \<longrightarrow> apart (pg_mem st3) K q n \<longrightarrow>
       held (pg_ks st') (P3(cur := None)) q n \<and> apart (pg_mem st') K q n"
    "\<forall>i<1024. pde (pg_mem st') K i = pde (pg_mem st3) K i \<and> ptbl (pg_mem st') K i = ptbl (pg_mem st3) K i"
    by (rule enter_kernel [OF st3(3) fr(1) _ fr(4,3)]) (rule that; assumption)
  have run: "paging_init BD K st = Some st'" using st1(1) st3(1,2) st'(1) by (simp add: paging_init_def)
  have low: "ptbl (pg_mem st') K (dir_index u) \<noteq> 0 \<and> virtual_to_physical_addr st' K u = Some u" if "unat u < 0x400000" for u
    using st'(8) [rule_format, of u] st3(6) that by simp
  have high: "ptbl (pg_mem st') K (dir_index u) \<noteq> 0 \<and> virtual_to_physical_addr st' K u = Some (u - 0xC0000000)"
    if "0xC0000000 \<le> unat u" "unat u < 0xC0400000" for u
    using st'(8) [rule_format, of u] st3(7) that by simp
  have sub: "P \<subseteq>\<^sub>m P3(cur := None)"
    using map_le_trans [OF st1(3) fr(2)] st1(6) by (auto simp: map_le_def dom_def)
  have keep: "held (pg_ks st') (P3(cur := None)) q n \<and> apart (pg_mem st') K q n"
    if "held (pg_ks st) P q n" "0 < n" "regions_disjoint K 4100 q n" for q n
  proof -
    note o = old [rule_format, OF that]
    then have "held (pg_ks st3) P3 q n" "apart (pg_mem st3) K q n" using st3(5) that(2) unfolding pg_frame_def by blast+
    then show ?thesis using st'(9) that(2) o by blast
  qed
  have user: "user_space_empty (pg_mem st') K" using st1(10) st3(8) st'(10) by (simp add: user_space_empty_def)
  show thesis by (rule that [OF run st'(2) _ sub st'(3-6)]) (use st'(7) st3(4) low high keep user in blast)+
qed

section \<open>Changes elsewhere\<close>

text \<open>What the kernel holds apart from the regions \<open>R\<close> stays as it is.\<close>

definition spares :: "(addr \<times> nat) set \<Rightarrow> kstate \<Rightarrow> (addr \<rightharpoonup> nat) \<Rightarrow> kstate \<Rightarrow> (addr \<rightharpoonup> nat) \<Rightarrow> bool" where
  "spares R s P s' P' \<longleftrightarrow> P \<subseteq>\<^sub>m P' \<and> (\<forall>q n. held s P q n \<longrightarrow> 0 < n \<longrightarrow> (\<forall>(r, l)\<in>R. regions_disjoint q n r l) \<longrightarrow>
     held s' P' q n \<and> (\<forall>x. in_region x q n \<longrightarrow> ks_mem s' x = ks_mem s x))"

lemma pg_inv_spares:
  assumes inv: "pg_inv st P K k" and cur: "pg_current_directory st = K" and sp: "spares R (pg_ks st) P s' P'"
    and ap: "\<forall>(r, l)\<in>R. apart (pg_mem st) K r l" and heap: "kheap_inv s' P'" "kheap_room s' k'"
  shows "pg_inv (st\<lparr>pg_ks := s'\<rparr>) P' K k'" "apart (ks_mem s') K q n = apart (pg_mem st) K q n"
    "pde (ks_mem s') K 1023 = pde (pg_mem st) K 1023" "small_pages (pg_mem st) K \<Longrightarrow> small_pages (ks_mem s') K"
    "unat u < 0xFFC00000 \<Longrightarrow> ptbl (pg_mem st) K (dir_index u) \<noteq> 0 \<Longrightarrow> ptbl (ks_mem s') K (dir_index u) \<noteq> 0
       \<and> virtual_to_physical_addr (st\<lparr>pg_ks := s'\<rparr>) K u = virtual_to_physical_addr st K u"
    "i < 1024 \<Longrightarrow> pde (ks_mem s') K i = pde (pg_mem st) K i \<and> ptbl (ks_mem s') K i = ptbl (pg_mem st) K i"
    "user_space_empty (pg_mem st) K \<Longrightarrow> user_space_empty (ks_mem s') K"
proof -
  let ?m = "pg_mem st"
  have wf: "pd_wf st P K" and ct: "can_translate st P K" using inv by (simp_all add: pg_inv_def)
  have kept: "held s' P' q n \<and> (\<forall>x. in_region x q n \<longrightarrow> ks_mem s' x = ?m x)"
    if "held (pg_ks st) P q n" "0 < n" "\<And>r l. apart ?m K r l \<Longrightarrow> regions_disjoint q n r l" for q n
    using sp that ap unfolding spares_def by blast
  have h: "held s' P' K 4100 \<and> (\<forall>x. in_region x K 4100 \<longrightarrow> ks_mem s' x = ?m x)"
    "held s' P' (pdir ?m K) 4096 \<and> (\<forall>x. in_region x (pdir ?m K) 4096 \<longrightarrow> ks_mem s' x = ?m x)"
    by (rule kept; use pd_wfD(1,2) [OF wf] in \<open>simp add: apart_def\<close>)+
  have t: "held s' P' (ptbl ?m K i) 4096 \<and> (\<forall>x. in_region x (ptbl ?m K i) 4096 \<longrightarrow> ks_mem s' x = ?m x)"
    if "i < 1023" "ptbl ?m K i \<noteq> 0" for i
    by (rule kept) (use pd_wfD(4) [OF wf that] that in \<open>simp_all add: apart_def\<close>)
  note same = pd_frame [of K "ks_mem s'" ?m, OF h(1) [THEN conjunct2, rule_format] h(2) [THEN conjunct2, rule_format]]
  show "apart (ks_mem s') K q n = apart ?m K q n" for q n by (simp add: apart_def same)
  show "pde (ks_mem s') K 1023 = pde ?m K 1023" by (simp add: same(2))
  show entries: "pde (ks_mem s') K i = pde ?m K i \<and> ptbl (ks_mem s') K i = ptbl ?m K i" if "i < 1024" for i using same(2,3) that by simp
  show "user_space_empty (ks_mem s') K" if "user_space_empty ?m K" by (rule user_space_cong [OF that entries])
  show "small_pages (ks_mem s') K" if "small_pages ?m K" using that by (simp add: small_pages_def same)
  show "pg_inv (st\<lparr>pg_ks := s'\<rparr>) P' K k'"
    using wf ct h t heap cur by (simp add: pg_inv_def pd_wf_def can_translate_def Let_def same)
  show "ptbl (ks_mem s') K (dir_index u) \<noteq> 0 \<and> virtual_to_physical_addr (st\<lparr>pg_ks := s'\<rparr>) K u = virtual_to_physical_addr st K u"
    if u: "unat u < 0xFFC00000" "ptbl ?m K (dir_index u) \<noteq> 0"
  proof -
    have i: "dir_index u < 1023" using u(1) by (simp add: div_less_iff_less_mult)
    have "pte (ks_mem s') K (dir_index u) (tbl_index u) = pte ?m K (dir_index u) (tbl_index u)"
      by (rule pte_frame) (use same(3) [of "dir_index u"] i t [OF i u(2)] in auto)
    then show ?thesis using same(2,3) [of "dir_index u"] i u(2) by (simp add: virtual_to_physical_eq)
  qed
qed

text \<open>A region of the image of the kernel ends before the heap.\<close>

lemma below_end:
  assumes "in_region a p n" "unat p + n \<le> unat e"
  shows "a < e"
proof -
  have "unat (a - p) < n" using assms(1) by (simp add: in_region_def)
  then have "unat p + unat (a - p) < unat e" using assms(2) by simp
  then have "unat (p + (a - p)) < unat e" using unat_lt_2p32 [of e] by (simp only: unat_word_ariths) simp
  then show ?thesis by (simp add: word_less_nat_alt)
qed

section \<open>Properties\<close>

text \<open>
  C15: called with a heap that has room for six blocks, the handle of the kernel's directory outside the heap's
  memory and large pages on, \<open>paging_init\<close> returns, and the state it leaves is the one the rest of the kernel
  relies on: the kernel's directory is well formed, has small pages only and is the one in force; large pages are off
  and paging is on, with \<open>cr3\<close> at the directory's own entry; the first four megabytes are mapped both at their
  physical addresses and at \<open>0xC0000000\<close>; and everything that was allocated before still is.
\<close>

theorem paging_init_maps_kernel:
  assumes "kheap_inv (pg_ks st) P" "kheap_room (pg_ks st) (k + 6)" "\<forall>a. in_region a K 4100 \<longrightarrow> kheap_ext (pg_ks st) a"
    and "pg_cr4 st AND PSE_BIT \<noteq> 0"
  shows "\<exists>st' P'. paging_init BD K st = Some st' \<and> pg_inv st' P' K k \<and> small_pages (pg_mem st') K \<and> P \<subseteq>\<^sub>m P'
    \<and> pg_current_directory st' = K \<and> pg_cr4 st' AND PSE_BIT = 0 \<and> bit (pg_cr0 st') 31
    \<and> pg_cr3 st' = PAGE_ENTRY_ADDR (pde (pg_mem st') K 1023)
    \<and> (\<forall>u. unat u < 0x400000 \<longrightarrow> virtual_to_physical_addr st' K u = Some u)
    \<and> (\<forall>u. 0xC0000000 \<le> unat u \<longrightarrow> unat u < 0xC0400000 \<longrightarrow> virtual_to_physical_addr st' K u = Some (u - 0xC0000000))"
proof -
  have "held (pg_ks st) P K 4100" using assms(3) by (simp add: held_def)
  from init_paging [OF assms(1,2) this assms(4), of BD] show ?thesis by metis
qed

lemma boot_state:
  obtains st :: paging_state where "kheap_inv (pg_ks st) Map.empty" "kheap_room (pg_ks st) 4094"
    "\<forall>a. in_region a 0x10000 4100 \<longrightarrow> kheap_ext (pg_ks st) a" "pg_cr4 st = PSE_BIT"
proof -
  obtain s where s: "kheap_inv s Map.empty" "kheap_room s 4094" "\<forall>a < 0xC0101234. kheap_ext s a \<and> ks_mem s a = demo_mem a"
    by (rule kheap_init_state [of "0xC0101234" "\<lparr>ks_mem = demo_mem, ks_heap = demo_heap\<rparr>"]) auto
  define st where "st = \<lparr>pg_ks = s, pg_current_directory = 0, pg_bitmap_begin = 0, pg_bitmap_end = 0,
    pg_cr0 = 0, pg_cr3 = 0, pg_cr4 = PSE_BIT, pg_interrupts = False,
    pg_term = \<lparr>video_memory = \<lambda>_. 0, terminal_row = 0, terminal_column = 0\<rparr>\<rparr>"
  have "a < 0xC0101234" if "in_region a 0x10000 4100" for a by (rule below_end [OF that]) simp
  then have "\<forall>a. in_region a 0x10000 4100 \<longrightarrow> kheap_ext (pg_ks st) a" using s(3) by (simp add: st_def)
  then show thesis using that [of st] s by (simp add: st_def)
qed

theorem paging_init_maps_kernel_witness:
  "\<exists>st st'. pg_cr4 st AND PSE_BIT \<noteq> 0 \<and> paging_init 0x5000 0x10000 st = Some st'
     \<and> pg_current_directory st' = 0x10000 \<and> virtual_to_physical_addr st' 0x10000 0xC0123456 = Some 0x123456"
proof -
  obtain st :: paging_state where st: "kheap_inv (pg_ks st) Map.empty" "kheap_room (pg_ks st) 4094"
    "\<forall>a. in_region a 0x10000 4100 \<longrightarrow> kheap_ext (pg_ks st) a" "pg_cr4 st = PSE_BIT" by (rule boot_state)
  have r: "kheap_room (pg_ks st) (4088 + 6)" and pse: "pg_cr4 st AND PSE_BIT \<noteq> 0" using st(2,4) by (simp_all add: PSE_BIT_def)
  from paging_init_maps_kernel [OF st(1) r st(3) pse, of "0x5000"]
  obtain st' where "paging_init 0x5000 0x10000 st = Some st'" "pg_current_directory st' = 0x10000"
    "\<forall>u. 0xC0000000 \<le> unat u \<longrightarrow> unat u < 0xC0400000 \<longrightarrow> virtual_to_physical_addr st' 0x10000 u = Some (u - 0xC0000000)"
    by blast
  then show ?thesis using pse by (intro exI [of _ st] exI [of _ st']) (simp add: spec [of _ "0xC0123456"])
qed

end
