(* ===== verification/Ring.thy ===== *)
theory Ring
  imports Prelude
begin

text \<open>
  Circular doubly linked lists, as \<^verbatim>\<open>list.c\<close>, the task list and the process list use them. \<open>ring nx pv xs\<close>
  says that the nodes \<open>xs\<close> form one, in this order, under the links \<open>nx\<close> and \<open>pv\<close>. The locale is the
  interface between the list operations and the memory their link fields lie in.
\<close>

section \<open>Rings\<close>

fun segment :: "(addr \<Rightarrow> addr) \<Rightarrow> (addr \<Rightarrow> addr) \<Rightarrow> addr \<Rightarrow> addr list \<Rightarrow> addr \<Rightarrow> bool" where
  "segment nx pv a [] b \<longleftrightarrow> nx a = b \<and> pv b = a"
| "segment nx pv a (x # xs) b \<longleftrightarrow> nx a = x \<and> pv x = a \<and> segment nx pv x xs b"

fun ring :: "(addr \<Rightarrow> addr) \<Rightarrow> (addr \<Rightarrow> addr) \<Rightarrow> addr list \<Rightarrow> bool" where
  "ring nx pv [] \<longleftrightarrow> True"
| "ring nx pv (x # xs) \<longleftrightarrow> distinct (x # xs) \<and> segment nx pv x xs x"

lemma segment_append: "segment nx pv a (xs @ y # ys) b \<longleftrightarrow> segment nx pv a xs y \<and> segment nx pv y ys b"
  by (induction xs arbitrary: a) auto

lemma segment_cong:
  assumes "\<And>p. p = a \<or> p \<in> set xs \<Longrightarrow> nx' p = nx p" "\<And>p. p = b \<or> p \<in> set xs \<Longrightarrow> pv' p = pv p"
  shows "segment nx' pv' a xs b = segment nx pv a xs b"
  using assms by (induction xs arbitrary: a) auto

lemma segment_last: "segment nx pv a xs b \<Longrightarrow> pv b = last (a # xs) \<and> nx (last (a # xs)) = b"
  by (induction xs arbitrary: a) auto

lemma segment_first: "segment nx pv a xs b \<Longrightarrow> nx a = hd (xs @ [b])"
  by (cases xs) auto

lemma ring_distinct: "ring nx pv xs \<Longrightarrow> distinct xs"
  by (cases xs) auto

lemma ring_rotate1: "ring nx pv (x # xs) \<Longrightarrow> ring nx pv (xs @ [x])"
proof (cases xs)
  case (Cons y ys)
  assume "ring nx pv (x # xs)"
  then show ?thesis unfolding Cons using segment_append [of nx pv y ys x "[]" y] by auto
qed simp

lemma ring_rotate: "ring nx pv (xs @ ys) = ring nx pv (ys @ xs)"
proof -
  have "ring nx pv (xs @ ys) \<Longrightarrow> ring nx pv (ys @ xs)" for xs ys
  proof (induction xs arbitrary: ys)
    case (Cons x xs)
    from ring_rotate1 [of nx pv x "xs @ ys"] Cons.prems have "ring nx pv (xs @ (ys @ [x]))" by simp
    from Cons.IH [OF this] show ?case by simp
  qed simp
  then show ?thesis by blast
qed

lemma ring_first:
  assumes "ring nx pv (x # xs)"
  shows "nx x = hd (xs @ [x])" "pv x = last (x # xs)" "nx (last (x # xs)) = x"
  using assms segment_first [of nx pv x xs x] segment_last [of nx pv x xs x] by auto

lemma ring_at: "ring nx pv (ys @ p # zs) \<Longrightarrow> ring nx pv (p # zs @ ys)"
  using ring_rotate [of nx pv ys "p # zs"] by simp

lemma ring_closed:
  assumes "ring nx pv xs" "p \<in> set xs"
  shows "nx p \<in> set xs" "pv p \<in> set xs"
proof -
  obtain ys zs where xs: "xs = ys @ p # zs" using assms(2) by (auto dest: split_list)
  note f = ring_first [OF ring_at [OF assms(1) [unfolded xs]]]
  have "hd ((zs @ ys) @ [p]) \<in> set ((zs @ ys) @ [p])" "last (p # zs @ ys) \<in> set (p # zs @ ys)"
    by (rule hd_in_set, simp) (rule last_in_set, simp)
  then show "nx p \<in> set xs" "pv p \<in> set xs" unfolding f xs by auto
qed

lemma ring_nth:
  assumes "ring nx pv xs" "i < length xs"
  shows "nx (xs ! i) = xs ! (Suc i mod length xs)"
proof -
  have split: "xs = take i xs @ xs ! i # drop (Suc i) xs" using assms(2) by (simp add: id_take_nth_drop)
  from ring_first(1) [OF ring_at [of nx pv "take i xs" "xs ! i" "drop (Suc i) xs"]] assms(1) split
  have "nx (xs ! i) = hd (drop (Suc i) xs @ take i xs @ [xs ! i])" by (metis append.assoc)
  also have "\<dots> = xs ! (Suc i mod length xs)"
  proof (cases "Suc i < length xs")
    case True
    then show ?thesis by (simp add: hd_append hd_drop_conv_nth)
  next
    case False
    then have "Suc i = length xs" using assms(2) by simp
    then show ?thesis using assms(2) by (cases i) (auto simp: hd_append hd_conv_nth)
  qed
  finally show ?thesis .
qed

text \<open>Following the links from the first node visits the ring in order.\<close>

lemma ring_funpow:
  assumes "ring nx pv (x # xs)"
  shows "(nx ^^ n) x = (x # xs) ! (n mod length (x # xs))"
proof (induction n)
  case (Suc n)
  have "n mod length (x # xs) < length (x # xs)" by simp
  from ring_nth [OF assms this] Suc show ?case by (simp add: mod_Suc_eq del: length_Cons nth_Cons_Suc)
qed simp

text \<open>A node hung in before the first one, that is at the end of the ring.\<close>

lemma ring_insert:
  assumes "ring nx pv (x # xs)" "p \<notin> set (x # xs)"
    and new: "nx' p = x" "pv' p = last (x # xs)" "nx' (last (x # xs)) = p" "pv' x = p"
    and old: "\<And>q. q \<in> set (x # xs) \<Longrightarrow> q \<noteq> last (x # xs) \<Longrightarrow> nx' q = nx q"
      "\<And>q. q \<in> set (x # xs) \<Longrightarrow> q \<noteq> x \<Longrightarrow> pv' q = pv q"
  shows "ring nx' pv' (x # xs @ [p])"
proof (cases xs rule: rev_cases)
  case Nil
  then show ?thesis using assms by simp
next
  case (snoc ys l)
  have d: "distinct (x # ys @ [l])" and s: "segment nx pv x ys l" using assms(1) snoc by (auto simp: segment_append)
  have "segment nx' pv' x ys l = segment nx pv x ys l"
    by (rule segment_cong) (use d old snoc in auto)
  then show ?thesis using d s assms(2) new snoc by (auto simp: segment_append)
qed

text \<open>The first node of a ring of at least two taken out.\<close>

lemma ring_remove:
  assumes "ring nx pv (x # y # ys)"
    and new: "nx' (last (y # ys)) = y" "pv' y = last (y # ys)"
    and old: "\<And>q. q \<in> set (y # ys) \<Longrightarrow> q \<noteq> last (y # ys) \<Longrightarrow> nx' q = nx q"
      "\<And>q. q \<in> set (y # ys) \<Longrightarrow> q \<noteq> y \<Longrightarrow> pv' q = pv q"
  shows "ring nx' pv' (y # ys)"
proof (cases ys rule: rev_cases)
  case Nil
  then show ?thesis using new by simp
next
  case (snoc zs l)
  have d: "distinct (y # zs @ [l])" and s: "segment nx pv y zs l" using assms(1) snoc by (auto simp: segment_append)
  have "segment nx' pv' y zs l = segment nx pv y zs l"
    by (rule segment_cong) (use d old snoc in auto)
  then show ?thesis using d s new snoc by (auto simp: segment_append)
qed

lemma ring_cong:
  assumes "\<And>p. p \<in> set xs \<Longrightarrow> nx' p = nx p \<and> pv' p = pv p"
  shows "ring nx' pv' xs = ring nx pv xs"
proof (cases xs)
  case (Cons x ys)
  have "segment nx' pv' x ys x = segment nx pv x ys x" by (rule segment_cong) (use assms Cons in auto)
  then show ?thesis using Cons by simp
qed simp

text \<open>A segment between other ends.\<close>

lemma segment_ends:
  assumes "segment nx pv a xs b" "xs \<noteq> []" "distinct xs"
    and "nx' a' = hd xs" "pv' (hd xs) = a'" "nx' (last xs) = b'" "pv' b' = last xs"
    and "\<And>q. q \<in> set xs \<Longrightarrow> q \<noteq> last xs \<Longrightarrow> nx' q = nx q" "\<And>q. q \<in> set xs \<Longrightarrow> q \<noteq> hd xs \<Longrightarrow> pv' q = pv q"
  shows "segment nx' pv' a' xs b'"
proof -
  obtain x ys where x: "xs = x # ys" using assms(2) by (cases xs) auto
  show ?thesis
  proof (cases ys rule: rev_cases)
    case Nil
    then show ?thesis using x assms(4-7) by simp
  next
    case (snoc zs l)
    have "segment nx' pv' x zs l = segment nx pv x zs l"
      by (rule segment_cong) (use assms(3,8,9) x snoc in auto)
    then show ?thesis using assms(1,4-7) x snoc by (auto simp: segment_append)
  qed
qed

text \<open>The other way round.\<close>

lemma segment_rev: "segment nx pv a xs b \<Longrightarrow> segment pv nx b (rev xs) a"
  by (induction xs arbitrary: a) (auto simp: segment_append)

lemma ring_rev: "ring nx pv xs \<Longrightarrow> ring pv nx (rev xs)"
proof (cases xs)
  case (Cons x ys)
  assume "ring nx pv xs"
  then have "ring pv nx (x # rev ys)" using segment_rev [of nx pv x ys x] Cons by simp
  then show ?thesis using ring_rotate1 [of pv nx x "rev ys"] Cons by simp
qed simp

section \<open>Link fields in a store\<close>

text \<open>
  Reading and writing the two link fields of a node. Nodes that are \<open>sep\<close> do not overlap: a write to
  one leaves the links of the other alone.
\<close>

locale link_store =
  fixes nxt prv :: "'h \<Rightarrow> addr \<Rightarrow> addr"
    and set_nxt set_prv :: "'h \<Rightarrow> addr \<Rightarrow> addr \<Rightarrow> 'h"
    and sep :: "addr \<Rightarrow> addr \<Rightarrow> bool"
  assumes same: "nxt (set_nxt h p v) p = v" "prv (set_prv h p v) p = v"
      "prv (set_nxt h p v) p = prv h p" "nxt (set_prv h p v) p = nxt h p"
    and other: "sep p q \<Longrightarrow> nxt (set_nxt h p v) q = nxt h q" "sep p q \<Longrightarrow> prv (set_prv h p v) q = prv h q"
      "sep p q \<Longrightarrow> prv (set_nxt h p v) q = prv h q" "sep p q \<Longrightarrow> nxt (set_prv h p v) q = nxt h q"
begin

lemma link_upd:
  assumes "p \<noteq> q \<Longrightarrow> sep p q"
  shows "nxt (set_nxt h p v) q = (if q = p then v else nxt h q)" "prv (set_prv h p v) q = (if q = p then v else prv h q)"
    "prv (set_nxt h p v) q = prv h q" "nxt (set_prv h p v) q = nxt h q"
  using assms same other by (cases "p = q"; simp)+

lemma links_in:
  assumes "\<And>a b. a \<in> N \<Longrightarrow> b \<in> N \<Longrightarrow> a \<noteq> b \<Longrightarrow> sep a b" "a \<in> N" "q \<in> N"
  shows "nxt (set_nxt g a v) q = (if q = a then v else nxt g q)" "prv (set_prv g a v) q = (if q = a then v else prv g q)"
    "prv (set_nxt g a v) q = prv g q" "nxt (set_prv g a v) q = nxt g q"
  using link_upd [of a q g v] assms by blast+

text \<open>The four writes that hang \<open>p\<close> in before \<open>x\<close>, in the order of \<open>add_node_before\<close>, and in that of \<open>process_list_insert\<close>.\<close>

lemma insert_before:
  assumes r: "ring (nxt h) (prv h) (x # xs)" "p \<notin> set (x # xs)"
    and s: "\<And>a b. a \<in> set (p # x # xs) \<Longrightarrow> b \<in> set (p # x # xs) \<Longrightarrow> a \<noteq> b \<Longrightarrow> sep a b"
  defines "h2 \<equiv> set_prv (set_nxt h p x) p (prv (set_nxt h p x) x)"
  shows "prv h2 x = last (x # xs)" "prv h2 p = last (x # xs)"
    and "ring (nxt (set_prv (set_nxt h2 (last (x # xs)) p) x p)) (prv (set_prv (set_nxt h2 (last (x # xs)) p) x p)) (x # xs @ [p])"
    and "ring (nxt (set_nxt (set_prv h2 x p) (last (x # xs)) p)) (prv (set_nxt (set_prv h2 x p) (last (x # xs)) p)) (x # xs @ [p])"
    and "prv (set_prv h2 x p) p = last (x # xs)"
proof -
  define N where "N = set (p # x # xs)"
  define l where "l = last (x # xs)"
  have N: "p \<in> N" "x \<in> N" "l \<in> N" "p \<noteq> l" "p \<noteq> x" "\<And>q. q \<in> set (x # xs) \<Longrightarrow> q \<in> N \<and> q \<noteq> p"
    using r(2) last_in_set [of "x # xs"] by (auto simp: N_def l_def)
  have u: "nxt (set_nxt g a v) q = (if q = a then v else nxt g q)" "prv (set_prv g a v) q = (if q = a then v else prv g q)"
    "prv (set_nxt g a v) q = prv g q" "nxt (set_prv g a v) q = nxt g q" if "a \<in> N" "q \<in> N" for g a v q
    using links_in [of N a q g v] s that unfolding N_def by blast+
  have pv: "prv h x = l" unfolding l_def by (rule ring_first(2) [OF r(1)])
  have h2: "nxt h2 q = (if q = p then x else nxt h q)" "prv h2 q = (if q = p then l else prv h q)" if "q \<in> N" for q
    using that N pv by (simp_all add: h2_def u)
  show "prv h2 x = l" "prv h2 p = l" "prv (set_prv h2 x p) p = l" using h2 N pv by (simp_all add: u)
  have ins: "ring (nxt h4) (prv h4) (x # xs @ [p])"
    if "\<And>q. q \<in> N \<Longrightarrow> nxt h4 q = (if q = l then p else nxt h2 q)" "\<And>q. q \<in> N \<Longrightarrow> prv h4 q = (if q = x then p else prv h2 q)" for h4
    by (rule ring_insert [OF r, folded l_def]) (use that h2 N in \<open>simp_all del: set_simps\<close>)
  show "ring (nxt (set_prv (set_nxt h2 l p) x p)) (prv (set_prv (set_nxt h2 l p) x p)) (x # xs @ [p])"
    by (rule ins) (use N in \<open>simp_all add: u\<close>)
  show "ring (nxt (set_nxt (set_prv h2 x p) l p)) (prv (set_nxt (set_prv h2 x p) l p)) (x # xs @ [p])"
    by (rule ins) (use N in \<open>simp_all add: u\<close>)
qed

text \<open>The four writes of \<open>task_list_insert\<close>, which hang \<open>p\<close> in after \<open>c\<close>.\<close>

lemma insert_after:
  assumes r: "ring (nxt h) (prv h) (c # xs)" "p \<notin> set (c # xs)"
    and s: "\<And>a b. a \<in> set (p # c # xs) \<Longrightarrow> b \<in> set (p # c # xs) \<Longrightarrow> a \<noteq> b \<Longrightarrow> sep a b"
  defines "h1 \<equiv> set_prv h p c"
  defines "h3 \<equiv> set_nxt (set_nxt h1 p (nxt h1 c)) c p"
  defines "h4 \<equiv> set_prv h3 (nxt h3 p) p"
  shows "ring (nxt h4) (prv h4) (c # p # xs)" "nxt h3 p = hd (xs @ [c])"
proof -
  define N where "N = set (p # c # xs)"
  obtain y ys where y: "xs @ [c] = y # ys" by (cases "xs @ [c]") auto
  have ry: "ring (nxt h) (prv h) (y # ys)" using ring_rotate1 [OF r(1)] y by simp
  have hy: "nxt h c = y" using ring_first(1) [OF r(1)] y by simp
  have ly: "last (y # ys) = c" using y by (metis last_snoc)
  have set: "set (y # ys) = set (c # xs)" by (subst y [symmetric]) auto
  have N: "p \<in> N" "c \<in> N" "y \<in> N" "p \<noteq> c" "p \<noteq> y" "\<And>q. q \<in> set (y # ys) \<Longrightarrow> q \<in> N \<and> q \<noteq> p"
    using r(2) set unfolding N_def by auto
  note u = links_in [of N, OF s [folded N_def]]
  have h3: "nxt h3 q = (if q = c then p else if q = p then y else nxt h q)" "prv h3 q = (if q = p then c else prv h q)"
    if "q \<in> N" for q using that N hy by (simp_all add: h1_def h3_def u)
  then show h3p: "nxt h3 p = hd (xs @ [c])" using N y by simp
  then have "h4 = set_prv h3 y p" using y by (simp add: h4_def)
  then have h4: "nxt h4 q = nxt h3 q" "prv h4 q = (if q = y then p else prv h3 q)" if "q \<in> N" for q
    using that N by (simp_all add: u)
  have "ring (nxt h4) (prv h4) (y # ys @ [p])"
    by (rule ring_insert [OF ry, unfolded ly]) (use h3 h4 N r(2) set in \<open>simp_all del: set_simps\<close>)
  then have "ring (nxt h4) (prv h4) ((xs @ [c]) @ [p])" unfolding y by simp
  then show "ring (nxt h4) (prv h4) (c # p # xs)"
    using ring_rotate [of "nxt h4" "prv h4" xs "[c, p]"] by simp
qed

text \<open>The two writes that take the first node out, as \<open>task_list_remove\<close>, \<open>process_list_remove\<close> and \<open>extract_node\<close> do it.\<close>

lemma remove_first:
  assumes r: "ring (nxt h) (prv h) (x # y # ys)"
    and s: "\<And>a b. a \<in> set (x # y # ys) \<Longrightarrow> b \<in> set (x # y # ys) \<Longrightarrow> a \<noteq> b \<Longrightarrow> sep a b"
  defines "h1 \<equiv> set_nxt h (prv h x) (nxt h x)"
  defines "h2 \<equiv> set_prv h1 (nxt h1 x) (prv h1 x)"
  shows "ring (nxt h2) (prv h2) (y # ys)" "nxt h x = y" "prv h x = last (y # ys)" "nxt h1 x = y" "prv h1 x = last (y # ys)"
proof -
  define N where "N = set (x # y # ys)"
  define l where "l = last (y # ys)"
  have d: "distinct (x # y # ys)" using ring_distinct [OF r] .
  have N: "x \<in> N" "y \<in> N" "l \<in> N" "l \<noteq> x" "x \<noteq> y" "\<And>q. q \<in> set (y # ys) \<Longrightarrow> q \<in> N \<and> q \<noteq> x"
    using d last_in_set [of "y # ys"] by (auto simp: N_def l_def)
  show hx: "nxt h x = y" "prv h x = l" using ring_first [OF r] by (simp_all add: l_def)
  note u = links_in [of N, OF s [folded N_def]]
  show h1x: "nxt h1 x = y" "prv h1 x = l" using N hx by (simp_all add: h1_def u)
  have h2: "nxt h2 q = (if q = l then y else nxt h q)" "prv h2 q = (if q = y then l else prv h q)" if "q \<in> N" for q
  proof -
    have "h1 = set_nxt h l y" "h2 = set_prv h1 y l" using hx h1x by (simp_all add: h1_def h2_def)
    then show "nxt h2 q = (if q = l then y else nxt h q)" "prv h2 q = (if q = y then l else prv h q)"
      using that N by (simp_all add: u)
  qed
  show "ring (nxt h2) (prv h2) (y # ys)"
    by (rule ring_remove [OF r, folded l_def]) (use h2 N in \<open>simp_all del: set_simps\<close>)
qed

end

end
