(* ===== verification/Node_List.thy ===== *)
theory Node_List
  imports Ring
begin

text \<open>
  The circular list of \<^verbatim>\<open>list.c\<close>. Nodes are records in a store by address; \<open>ls_live\<close> says which
  have been allocated and not freed. The result \<open>p\<close> of \<open>malloc\<close> is an argument of the operations that
  allocate; a null result makes them write through a null pointer, which is \<open>None\<close>, as is a loop that
  never ends. An operation that gets \<open>struct node **list\<close> takes the value of \<open>*list\<close> and returns the new
  one. The printing functions return the numbers they print; \<open>main\<close>, a demonstration, is left out.
\<close>

section \<open>The code\<close>

type_synonym payload = "int list"

record list_node =
  ln_next :: addr
  ln_prev :: addr
  ln_data :: payload

record list_store =
  ls_node :: "addr \<Rightarrow> list_node"
  ls_live :: "addr \<Rightarrow> bool"

definition node_next :: "list_store \<Rightarrow> addr \<Rightarrow> addr" where "node_next st p = ln_next (ls_node st p)"
definition node_prev :: "list_store \<Rightarrow> addr \<Rightarrow> addr" where "node_prev st p = ln_prev (ls_node st p)"

definition set_node_next :: "list_store \<Rightarrow> addr \<Rightarrow> addr \<Rightarrow> list_store" where
  "set_node_next st p v = st\<lparr>ls_node := (ls_node st)(p := (ls_node st p)\<lparr>ln_next := v\<rparr>)\<rparr>"

definition set_node_prev :: "list_store \<Rightarrow> addr \<Rightarrow> addr \<Rightarrow> list_store" where
  "set_node_prev st p v = st\<lparr>ls_node := (ls_node st)(p := (ls_node st p)\<lparr>ln_prev := v\<rparr>)\<rparr>"

definition node_free :: "list_store \<Rightarrow> addr \<Rightarrow> list_store" where
  "node_free st p = st\<lparr>ls_live := (ls_live st)(p := False)\<rparr>"

definition free_if_not_null :: "list_store \<Rightarrow> addr \<Rightarrow> list_store" where
  "free_if_not_null st p = (if p \<noteq> NULL then node_free st p else st)"

partial_function (option) delete_loop :: "addr \<Rightarrow> list_store \<Rightarrow> addr \<Rightarrow> list_store option" where
  "delete_loop list st ptr =
     (let to_free = ptr; ptr1 = node_next st ptr; st1 = node_free st to_free
      in if list \<noteq> ptr1 then delete_loop list st1 ptr1 else Some st1)"

definition delete_list :: "list_store \<Rightarrow> addr \<Rightarrow> (addr \<times> list_store) option" where
  "delete_list st list =
     (if list = NULL then Some (list, st)
      else case delete_loop list st list of None \<Rightarrow> None | Some st1 \<Rightarrow> Some (NULL, st1))"

partial_function (option) print_loop :: "(list_store \<Rightarrow> addr \<Rightarrow> addr) \<Rightarrow> list_store \<Rightarrow> addr \<Rightarrow> addr \<Rightarrow> int list \<Rightarrow> int list option" where
  "print_loop step st stop ptr out =
     (let out1 = out @ [ln_data (ls_node st ptr) ! 0]; ptr1 = step st ptr
      in if stop \<noteq> ptr1 then print_loop step st stop ptr1 out1 else Some out1)"

definition print_list :: "list_store \<Rightarrow> addr \<Rightarrow> int list option" where
  "print_list st list = (if list = NULL then Some [] else print_loop node_next st list list [])"

definition print_list_reverse :: "list_store \<Rightarrow> addr \<Rightarrow> int list option" where
  "print_list_reverse st list =
     (if list = NULL then Some [] else print_loop node_prev st (node_prev st list) (node_prev st list) [])"

definition node_malloc :: "list_store \<Rightarrow> addr \<Rightarrow> payload \<Rightarrow> list_store option" where
  "node_malloc st p value =
     (if p = NULL then None
      else Some (st\<lparr>ls_node := (ls_node st)(p := (ls_node st p)\<lparr>ln_data := value\<rparr>), ls_live := (ls_live st)(p := True)\<rparr>))"

definition add_node_before :: "list_store \<Rightarrow> addr \<Rightarrow> addr \<Rightarrow> payload \<Rightarrow> (addr \<times> addr \<times> list_store) option" where
  "add_node_before st p list value =
     (case node_malloc st p value of None \<Rightarrow> None
      | Some st0 \<Rightarrow>
          if list = NULL then Some (p, p, set_node_prev (set_node_next st0 p p) p p)
          else let st1 = set_node_next st0 p list;
                   st2 = set_node_prev st1 p (node_prev st1 list);
                   st3 = set_node_next st2 (node_prev st2 list) p;
                   st4 = set_node_prev st3 list p
               in Some (p, list, st4))"

definition push_back_node :: "list_store \<Rightarrow> addr \<Rightarrow> addr \<Rightarrow> payload \<Rightarrow> (addr \<times> addr \<times> list_store) option" where
  "push_back_node st p list value = add_node_before st p list value"

definition push_front_node :: "list_store \<Rightarrow> addr \<Rightarrow> addr \<Rightarrow> payload \<Rightarrow> (addr \<times> addr \<times> list_store) option" where
  "push_front_node st p list value =
     (case push_back_node st p list value of None \<Rightarrow> None | Some (r, list1, st1) \<Rightarrow> Some (r, r, st1))"

definition extract_node :: "list_store \<Rightarrow> addr \<Rightarrow> addr \<times> addr \<times> list_store" where
  "extract_node st list =
     (if list = NULL then (NULL, list, st)
      else let ptr = list
           in if node_next st list = list then (ptr, NULL, st)
              else let st1 = set_node_next st (node_prev st ptr) (node_next st list);
                       st2 = set_node_prev st1 (node_next st1 ptr) (node_prev st1 list);
                       list1 = node_next st2 list;
                       st3 = set_node_next st2 ptr ptr;
                       st4 = set_node_prev st3 ptr ptr
                   in (ptr, list1, st4))"

definition pop_back_node :: "list_store \<Rightarrow> addr \<Rightarrow> addr \<times> addr \<times> list_store" where
  "pop_back_node st list =
     (if list = NULL then (NULL, list, st)
      else let ptr = node_prev st list
           in if node_next st ptr = ptr then extract_node st list
              else case extract_node st ptr of (r, ptr1, st1) \<Rightarrow> (r, list, st1))"

definition pop_front_node :: "list_store \<Rightarrow> addr \<Rightarrow> addr \<times> addr \<times> list_store" where
  "pop_front_node st list =
     (if list = NULL then (NULL, list, st) else let list1 = node_next st list in pop_back_node st list1)"

partial_function (option) find_index_loop :: "list_store \<Rightarrow> addr \<Rightarrow> u32 \<Rightarrow> addr \<Rightarrow> u32 \<Rightarrow> addr option" where
  "find_index_loop st list index ptr i =
     (if i = index then Some ptr
      else let ptr1 = node_next st ptr; i1 = i + 1
           in if list \<noteq> ptr1 then find_index_loop st list index ptr1 i1 else Some NULL)"

definition find_index :: "list_store \<Rightarrow> addr \<Rightarrow> u32 \<Rightarrow> addr option" where
  "find_index st list index = (if list = NULL then Some NULL else find_index_loop st list index list 0)"

definition pop_index :: "list_store \<Rightarrow> addr \<Rightarrow> u32 \<Rightarrow> (addr \<times> addr \<times> list_store) option" where
  "pop_index st list index =
     (if list = NULL then Some (NULL, list, st)
      else case find_index st list index of None \<Rightarrow> None
           | Some ptr \<Rightarrow>
               if ptr = NULL then Some (NULL, list, st)
               else if list = ptr then Some (extract_node st list)
               else case extract_node st ptr of (r, ptr1, st1) \<Rightarrow> Some (r, list, st1))"

partial_function (option) push_index_loop :: "list_store \<Rightarrow> addr \<Rightarrow> u32 \<Rightarrow> addr \<Rightarrow> u32 \<Rightarrow> (addr \<times> u32) option" where
  "push_index_loop st list index ptr i =
     (if i = index then Some (ptr, i)
      else let ptr1 = node_next st ptr; i1 = i + 1
           in if list \<noteq> ptr1 then push_index_loop st list index ptr1 i1 else Some (ptr1, i1))"

definition push_index :: "list_store \<Rightarrow> addr \<Rightarrow> addr \<Rightarrow> u32 \<Rightarrow> payload \<Rightarrow> (addr \<times> addr \<times> list_store) option" where
  "push_index st p list index value =
     (if list = NULL \<and> index \<noteq> 0 then Some (NULL, list, st)
      else if index = 0 then push_front_node st p list value
      else case push_index_loop st list index list 0 of None \<Rightarrow> None
           | Some (ptr, i) \<Rightarrow>
               if list = ptr \<and> i \<noteq> index then Some (NULL, list, st)
               else case push_back_node st p ptr value of None \<Rightarrow> None
                    | Some (r, ptr1, st1) \<Rightarrow> Some (r, list, st1))"

definition swap_nodes :: "list_store \<Rightarrow> addr \<Rightarrow> addr \<Rightarrow> addr \<times> addr \<times> addr \<times> list_store" where
  "swap_nodes st n1 n2 =
     (if n1 = NULL \<or> n2 = NULL then (NULL, n1, n2, st)
      else let n1_prev = node_prev st n1; n2_next = node_next st n2;
               st1 = set_node_next st n1_prev n2;
               st2 = set_node_prev st1 n2_next n1;
               st5 = (if node_next st2 n1 = n2 \<or> node_prev st2 n1 = n2
                      then set_node_next (set_node_prev st2 n1 n2) n2 n1
                      else let st3 = set_node_prev st2 (node_next st2 n1) n2;
                               st4 = set_node_next st3 (node_prev st3 n2) n1;
                               st5 = set_node_prev st4 n1 (node_prev st4 n2)
                           in set_node_next st5 n2 (node_next st5 n1));
               st6 = set_node_next st5 n1 n2_next;
               st7 = set_node_prev st6 n2 n1_prev
           in (n2, n2, n1, st7))"

section \<open>Nodes as a ring\<close>

lemma node_links [simp]:
  "node_next (set_node_next st p v) q = (if q = p then v else node_next st q)"
  "node_prev (set_node_next st p v) q = node_prev st q"
  "node_next (set_node_prev st p v) q = node_next st q"
  "node_prev (set_node_prev st p v) q = (if q = p then v else node_prev st q)"
  by (simp_all add: node_next_def node_prev_def set_node_next_def set_node_prev_def)

lemma node_rest [simp]:
  "ls_live (set_node_next st p v) = ls_live st" "ls_live (set_node_prev st p v) = ls_live st"
  "ln_data (ls_node (set_node_next st p v) q) = ln_data (ls_node st q)"
  "ln_data (ls_node (set_node_prev st p v) q) = ln_data (ls_node st q)"
  by (simp_all add: set_node_next_def set_node_prev_def)

interpretation nl: link_store node_next node_prev set_node_next set_node_prev "\<lambda>p q. p \<noteq> q"
  by unfold_locales simp_all

abbreviation node_ring :: "list_store \<Rightarrow> addr list \<Rightarrow> bool" where
  "node_ring st xs \<equiv> ring (node_next st) (node_prev st) xs"

text \<open>The list variable points to the first node; every node is live.\<close>

definition is_list :: "list_store \<Rightarrow> addr \<Rightarrow> addr list \<Rightarrow> bool" where
  "is_list st list xs \<longleftrightarrow> list = (if xs = [] then NULL else hd xs) \<and> NULL \<notin> set xs
     \<and> (\<forall>q \<in> set xs. ls_live st q) \<and> node_ring st xs"

definition contents :: "list_store \<Rightarrow> addr list \<Rightarrow> payload list" where
  "contents st xs = map (\<lambda>q. ln_data (ls_node st q)) xs"

lemma is_list_Cons:
  "is_list st list (x # xs) \<longleftrightarrow> list = x \<and> NULL \<notin> set (x # xs) \<and> (\<forall>q \<in> set (x # xs). ls_live st q) \<and> node_ring st (x # xs)"
  by (simp add: is_list_def)

lemma malloc_store:
  assumes "node_malloc st p v = Some st0"
  shows "node_next st0 q = node_next st q" "node_prev st0 q = node_prev st q" "ls_live st0 q = (q = p \<or> ls_live st q)"
    "ln_data (ls_node st0 q) = (if q = p then v else ln_data (ls_node st q))" "p \<noteq> NULL"
  using assms by (auto simp: node_malloc_def node_next_def node_prev_def split: if_splits)

text \<open>A new node before a node of the ring, wherever that is.\<close>

lemma add_before:
  assumes r: "node_ring st (ys @ x # zs)" and p: "p \<notin> set (ys @ x # zs)" "p \<noteq> NULL" and x: "x \<noteq> NULL"
  obtains st' where "add_node_before st p x v = Some (p, x, st')" "node_ring st' (ys @ p # x # zs)"
    "\<forall>q. ls_live st' q = (q = p \<or> ls_live st q)" "\<forall>q. ln_data (ls_node st' q) = (if q = p then v else ln_data (ls_node st q))"
proof -
  obtain st0 where st0: "node_malloc st p v = Some st0" using p(2) by (simp add: node_malloc_def)
  note m = malloc_store [OF st0]
  have "node_ring st0 (x # zs @ ys)"
    using ring_at [OF r] ring_cong [of "x # zs @ ys" "node_next st0" "node_next st" "node_prev st0" "node_prev st"] m by simp
  note ins = nl.insert_before [OF this, of p]
  let ?st2 = "set_node_prev (set_node_next st0 p x) p (node_prev (set_node_next st0 p x) x)"
  let ?st4 = "set_node_prev (set_node_next ?st2 (node_prev ?st2 x) p) x p"
  have r4: "node_ring ?st4 (x # (zs @ ys) @ [p])"
    using ins p by (simp del: node_links)
  have "node_ring ?st4 (ys @ p # x # zs)"
    using r4 ring_rotate [of "node_next ?st4" "node_prev ?st4" "x # zs" "ys @ [p]"] by (simp del: node_links ring.simps)
  moreover have "add_node_before st p x v = Some (p, x, ?st4)"
    using st0 x by (simp add: add_node_before_def Let_def del: node_links)
  ultimately show thesis by (intro that [of ?st4]) (use m in \<open>simp_all del: ring.simps\<close>)
qed

lemma add_first:
  assumes "p \<noteq> NULL"
  obtains st' where "add_node_before st p NULL v = Some (p, p, st')" "node_ring st' [p]"
    "\<forall>q. ls_live st' q = (q = p \<or> ls_live st q)" "\<forall>q. ln_data (ls_node st' q) = (if q = p then v else ln_data (ls_node st q))"
proof -
  obtain st0 where st0: "node_malloc st p v = Some st0" using assms by (simp add: node_malloc_def)
  show thesis
    by (rule that [of "set_node_prev (set_node_next st0 p p) p p"])
      (use st0 malloc_store [OF st0] in \<open>simp_all add: add_node_before_def\<close>)
qed

text \<open>A node taken out of a ring of at least two.\<close>

lemma extract_from:
  assumes r: "node_ring st (ys @ x # zs)" and ne: "ys @ zs \<noteq> []" and x: "x \<noteq> NULL"
  obtains st' where "extract_node st x = (x, hd (zs @ ys), st')" "node_ring st' (ys @ zs)" "ls_live st' = ls_live st"
    "\<forall>q. ln_data (ls_node st' q) = ln_data (ls_node st q)"
proof -
  obtain y ts where y: "zs @ ys = y # ts" using ne by (cases "zs @ ys") auto
  have rx: "node_ring st (x # y # ts)" using ring_at [OF r] y by simp
  note rem = nl.remove_first [OF rx]
  have d: "x \<noteq> y" "x \<notin> set (y # ts)" using ring_distinct [OF rx] by auto
  let ?st1 = "set_node_next st (node_prev st x) (node_next st x)"
  let ?st2 = "set_node_prev ?st1 (node_next ?st1 x) (node_prev ?st1 x)"
  let ?st4 = "set_node_prev (set_node_next ?st2 x x) x x"
  have nx: "node_next st x = y" "node_next ?st1 x = y" using rem by (simp_all del: node_links)
  have r2: "node_ring ?st2 (y # ts)" using rem(1) by (simp del: node_links)
  have "node_ring ?st4 (y # ts)"
    by (subst ring_cong [of "y # ts" _ "node_next ?st2" _ "node_prev ?st2"]) (use d r2 in \<open>auto simp del: ring.simps\<close>)
  then have "node_ring ?st4 (ys @ zs)"
    using ring_rotate [of "node_next ?st4" "node_prev ?st4" zs ys] y by simp
  moreover have "extract_node st x = (x, hd (zs @ ys), ?st4)"
    using x nx d y by (simp add: extract_node_def Let_def)
  ultimately show thesis by (intro that [of ?st4]) (simp_all del: ring.simps)
qed

lemma extract_single: "node_ring st [x] \<Longrightarrow> x \<noteq> NULL \<Longrightarrow> extract_node st x = (x, NULL, st)"
  by (simp add: extract_node_def)

section \<open>The operations on lists\<close>

lemma is_listI:
  assumes "xs \<noteq> []" "hd xs = list" "NULL \<notin> set xs" "\<And>q. q \<in> set xs \<Longrightarrow> ls_live st q" "node_ring st xs"
  shows "is_list st list xs"
  using assms by (simp add: is_list_def)

lemma contents_new:
  "\<forall>q. ln_data (ls_node st' q) = (if q = p then v else ln_data (ls_node st q)) \<Longrightarrow> p \<notin> set xs \<Longrightarrow> contents st' xs = contents st xs"
  "\<forall>q. ln_data (ls_node st' q) = (if q = p then v else ln_data (ls_node st q)) \<Longrightarrow> contents st' [p] = [v]"
  "\<forall>q. ln_data (ls_node st' q) = ln_data (ls_node st q) \<Longrightarrow> contents st' xs = contents st xs"
  by (auto simp: contents_def)

lemma contents_simps [simp]:
  "contents st [] = []" "contents st (x # xs) = ln_data (ls_node st x) # contents st xs"
  "contents st (xs @ ys) = contents st xs @ contents st ys" "length (contents st xs) = length xs"
  by (simp_all add: contents_def)

lemma push_back_list:
  assumes "is_list st list xs" "p \<notin> set xs" "p \<noteq> NULL"
  obtains list' st' where "push_back_node st p list v = Some (p, list', st')" "is_list st' list' (xs @ [p])"
    "contents st' (xs @ [p]) = contents st xs @ [v]" "xs \<noteq> [] \<longrightarrow> list' = list"
proof (cases xs)
  case Nil
  then have l: "list = NULL" using assms(1) by (simp add: is_list_def)
  obtain st' where st': "add_node_before st p NULL v = Some (p, p, st')" "node_ring st' [p]"
    "\<forall>q. ls_live st' q = (q = p \<or> ls_live st q)" "\<forall>q. ln_data (ls_node st' q) = (if q = p then v else ln_data (ls_node st q))"
    by (rule add_first [OF assms(3)])
  show thesis
    by (rule that [of p st']) (use st' l Nil assms(3) contents_new(2) [OF st'(4)] in \<open>simp_all add: push_back_node_def is_list_def contents_def\<close>)
next
  case (Cons x ys)
  then have l: "list = x" "x \<noteq> NULL" "node_ring st ([] @ x # ys)" using assms(1) by (auto simp: is_list_def)
  obtain st' where st': "add_node_before st p x v = Some (p, x, st')" "node_ring st' ([] @ p # x # ys)"
    "\<forall>q. ls_live st' q = (q = p \<or> ls_live st q)" "\<forall>q. ln_data (ls_node st' q) = (if q = p then v else ln_data (ls_node st q))"
    by (rule add_before [OF l(3) _ assms(3) l(2)]) (use assms(2) Cons in simp)
  have "node_ring st' (xs @ [p])"
    using st'(2) Cons ring_rotate [of "node_next st'" "node_prev st'" "[p]" xs] by (simp del: ring.simps)
  then have "is_list st' list (xs @ [p])"
    using assms Cons st'(3) l(1) by (auto simp: is_list_def simp del: ring.simps)
  then show thesis
    by (rule that [of list st', rotated])
      (use st'(1) l(1) Cons contents_new(1) [OF st'(4), of xs] spec [OF st'(4), of p] assms(2) in \<open>simp_all add: push_back_node_def\<close>)
qed

lemma push_front_list:
  assumes "is_list st list xs" "p \<notin> set xs" "p \<noteq> NULL"
  obtains st' where "push_front_node st p list v = Some (p, p, st')" "is_list st' p (p # xs)"
    "contents st' (p # xs) = v # contents st xs"
proof -
  obtain list' st' where st': "push_back_node st p list v = Some (p, list', st')" "is_list st' list' (xs @ [p])"
    "contents st' (xs @ [p]) = contents st xs @ [v]" by (rule push_back_list [OF assms])
  have "node_ring st' (p # xs)"
    using st'(2) ring_rotate [of "node_next st'" "node_prev st'" xs "[p]"] by (simp add: is_list_def del: ring.simps)
  then have "is_list st' p (p # xs)" using st'(2) by (auto simp: is_list_def simp del: ring.simps)
  moreover have "contents st' (p # xs) = v # contents st xs"
    using st'(3) by simp
  ultimately show thesis using that st'(1) by (simp add: push_front_node_def)
qed

text \<open>A node other than the first taken out leaves the list variable alone.\<close>

lemma extract_list:
  assumes "is_list st list (ys @ x # zs)"
  obtains st' where "extract_node st x = (x, if ys @ zs = [] then NULL else hd (zs @ ys), st')"
    "ys \<noteq> [] \<longrightarrow> is_list st' list (ys @ zs)" "ys = [] \<longrightarrow> is_list st' (if zs = [] then NULL else hd zs) zs"
    "contents st' (ys @ zs) = contents st (ys @ zs)" "ls_live st' = ls_live st"
proof (cases "ys @ zs = []")
  case True
  have "extract_node st x = (x, NULL, st)" by (rule extract_single) (use assms True in \<open>auto simp: is_list_def\<close>)
  then show thesis by (rule that [of st, OF trans]) (use True in \<open>auto simp: is_list_def\<close>)
next
  case False
  have r: "node_ring st (ys @ x # zs)" "x \<noteq> NULL" using assms by (auto simp: is_list_def simp del: ring.simps)
  obtain st' where st': "extract_node st x = (x, hd (zs @ ys), st')" "node_ring st' (ys @ zs)" "ls_live st' = ls_live st"
    "\<forall>q. ln_data (ls_node st' q) = ln_data (ls_node st q)" by (rule extract_from [OF r(1) False r(2)])
  show thesis
    by (rule that [of st']) (use st' assms False contents_new(3) [OF st'(4)] in \<open>auto simp: is_list_def simp del: ring.simps\<close>)
qed

lemma pop_back_list:
  assumes "is_list st list (xs @ [x])"
  obtains list' st' where "pop_back_node st list = (x, list', st')" "is_list st' list' xs"
    "contents st' xs = contents st xs" "ls_live st' = ls_live st" "xs \<noteq> [] \<longrightarrow> list' = list"
proof -
  have l: "list \<noteq> NULL" "list = hd (xs @ [x])" "node_ring st (xs @ x # [])"
    using assms hd_in_set [of "xs @ [x]"] by (auto simp: is_list_def simp del: ring.simps hd_append2)
  have pv: "node_prev st list = x" "node_next st x = list"
    using ring_first [of "node_next st" "node_prev st" "hd (xs @ [x])" "tl (xs @ [x])"] l(2,3) by (auto simp del: ring.simps)
  obtain st' where st': "extract_node st x = (x, if xs @ [] = [] then NULL else hd ([] @ xs), st')"
    "xs \<noteq> [] \<longrightarrow> is_list st' list (xs @ [])" "contents st' (xs @ []) = contents st (xs @ [])" "ls_live st' = ls_live st"
    using extract_list [of st list xs x "[]"] assms by (metis append_Nil2)
  have e: "node_next st x = x \<longleftrightarrow> xs = []"
    using pv(2) l(2) ring_distinct [OF l(3)] by (cases xs) auto
  show thesis
  proof (cases "xs = []")
    case True
    then have "pop_back_node st list = (x, NULL, st')"
      using l pv st'(1) by (simp add: pop_back_node_def Let_def)
    then show thesis by (rule that) (use True st' in \<open>simp_all add: is_list_def\<close>)
  next
    case False
    then have "pop_back_node st list = (x, list, st')"
      using l(1) pv(1) st'(1) e by (simp add: pop_back_node_def Let_def)
    then show thesis by (rule that) (use False st' in simp_all)
  qed
qed

lemma is_list_rotate: "is_list st list (x # xs) \<Longrightarrow> is_list st (node_next st list) (xs @ [x])"
  using ring_first(1) [of "node_next st" "node_prev st" x xs] ring_rotate1 [of "node_next st" "node_prev st" x xs]
  by (auto simp: is_list_def simp del: ring.simps)

lemma pop_front_list:
  assumes "is_list st list (x # xs)"
  obtains list' st' where "pop_front_node st list = (x, list', st')" "is_list st' list' xs"
    "contents st' xs = contents st xs" "ls_live st' = ls_live st"
proof -
  obtain list' st' where "pop_back_node st (node_next st list) = (x, list', st')" "is_list st' list' xs"
    "contents st' xs = contents st xs" "ls_live st' = ls_live st"
    by (rule pop_back_list [OF is_list_rotate [OF assms]])
  then show thesis using that assms by (auto simp: pop_front_node_def is_list_def)
qed

text \<open>There are fewer nodes than addresses, so the counters of the searches do not wrap.\<close>

lemma nodes_bound:
  assumes "distinct xs" "NULL \<notin> set xs"
  shows "length (xs :: addr list) < 2 ^ 32"
proof -
  have "length xs = card (set xs)" using assms(1) by (simp add: distinct_card)
  also have "\<dots> < card (UNIV :: addr set)" using assms(2) by (intro psubset_card_mono) auto
  finally show ?thesis by (simp add: card_word)
qed

lemma find_loop:
  assumes "node_ring st xs" "length xs < 2 ^ 32" "i < length xs" "i \<le> unat index"
  shows "find_index_loop st (xs ! 0) index (xs ! i) (word_of_nat i) =
      Some (if unat index < length xs then xs ! unat index else NULL)
    \<and> push_index_loop st (xs ! 0) index (xs ! i) (word_of_nat i) =
      Some (if unat index < length xs then (xs ! unat index, index) else (xs ! 0, word_of_nat (length xs)))"
  using assms(3,4)
proof (induction "length xs - i" arbitrary: i)
  case (Suc n)
  have w: "(word_of_nat i :: u32) = index \<longleftrightarrow> i = unat index"
    using Suc.prems assms(2) by (metis order_less_trans unat_word_of_nat_lt word_eq_of_nat_unat)
  have nx: "node_next st (xs ! i) = xs ! (Suc i mod length xs)" by (rule ring_nth [OF assms(1) Suc.prems(1)])
  consider "i = unat index" | "i \<noteq> unat index" "Suc i < length xs" | "i \<noteq> unat index" "Suc i = length xs"
    using Suc.prems by linarith
  then show ?case
  proof cases
    case 1
    then show ?thesis
      using w Suc.prems by (subst find_index_loop.simps, subst push_index_loop.simps) simp
  next
    case 2
    then have "xs ! Suc i \<noteq> xs ! 0" using ring_distinct [OF assms(1)] by (subst nth_eq_iff_index_eq) auto
    then show ?thesis
      using 2 w nx Suc.hyps(1) [of "Suc i"] Suc.hyps(2) Suc.prems
      by (subst find_index_loop.simps, subst push_index_loop.simps) (simp add: Let_def ac_simps)
  next
    case 3
    then have "1 + (word_of_nat i :: u32) = word_of_nat (length xs)" by (simp flip: 3(2))
    then show ?thesis
      using 3 w nx Suc.prems by (subst find_index_loop.simps, subst push_index_loop.simps) (simp add: ac_simps)
  qed
qed simp

lemma is_list_first: "is_list st list xs \<Longrightarrow> xs \<noteq> [] \<Longrightarrow> list = xs ! 0 \<and> list \<noteq> NULL \<and> node_ring st xs"
  by (cases xs) (auto simp: is_list_def simp del: ring.simps)

lemma is_list_bound: "is_list st list xs \<Longrightarrow> length xs < 2 ^ 32"
  using nodes_bound [of xs] ring_distinct [of "node_next st" "node_prev st" xs] by (auto simp: is_list_def)

lemma search_list:
  assumes "is_list st list xs" "xs \<noteq> []"
  shows "find_index st list index = Some (if unat index < length xs then xs ! unat index else NULL)"
    "push_index_loop st list index list 0 =
      Some (if unat index < length xs then (xs ! unat index, index) else (list, word_of_nat (length xs)))"
  using find_loop [of st xs 0 index] is_list_first [OF assms] is_list_bound [OF assms(1)] assms(2)
  by (auto simp: find_index_def)

lemma pop_index_list:
  assumes "is_list st list xs" "unat index < length xs"
  obtains list' st' where "pop_index st list index = Some (xs ! unat index, list', st')"
    "is_list st' list' (take (unat index) xs @ drop (Suc (unat index)) xs)"
    "contents st' (take (unat index) xs @ drop (Suc (unat index)) xs) = contents st (take (unat index) xs @ drop (Suc (unat index)) xs)"
    "ls_live st' = ls_live st"
proof -
  let ?k = "unat index"
  define ys zs x where "ys = take ?k xs" and "zs = drop (Suc ?k) xs" and "x = xs ! ?k"
  have ne: "xs \<noteq> []" using assms(2) by auto
  note f = is_list_first [OF assms(1) ne]
  have l: "is_list st list (ys @ x # zs)"
    using assms by (simp add: ys_def zs_def x_def id_take_nth_drop [symmetric])
  have k0: "x = list \<longleftrightarrow> ys = []"
    using f assms(2) ne ring_distinct [of "node_next st" "node_prev st" xs] nth_eq_iff_index_eq [of xs ?k 0]
    by (auto simp: x_def ys_def)
  have nn: "x \<noteq> NULL" using l by (auto simp: is_list_def)
  obtain st' where st': "extract_node st x = (x, if ys @ zs = [] then NULL else hd (zs @ ys), st')"
    "ys \<noteq> [] \<longrightarrow> is_list st' list (ys @ zs)" "ys = [] \<longrightarrow> is_list st' (if zs = [] then NULL else hd zs) zs"
    "contents st' (ys @ zs) = contents st (ys @ zs)" "ls_live st' = ls_live st" by (rule extract_list [OF l])
  let ?l = "if ys = [] then (if zs = [] then NULL else hd zs) else list"
  have find: "find_index st list index = Some x" using search_list(1) [OF assms(1) ne, of index] assms(2) by (simp add: x_def)
  have "pop_index st list index = Some (x, ?l, st')"
    using f find nn st'(1) k0 by (auto simp: pop_index_def)
  moreover have "is_list st' ?l (ys @ zs)" using st'(2,3) by simp
  ultimately show thesis using that st'(4,5) unfolding ys_def zs_def x_def by blast
qed

lemma push_index_list:
  assumes "is_list st list xs" "unat index \<le> length xs" "p \<notin> set xs" "p \<noteq> NULL"
  obtains list' st' where "push_index st p list index v = Some (p, list', st')"
    "is_list st' list' (take (unat index) xs @ p # drop (unat index) xs)"
    "contents st' (take (unat index) xs @ p # drop (unat index) xs)
       = take (unat index) (contents st xs) @ v # drop (unat index) (contents st xs)"
proof (cases "index = 0")
  case True
  obtain st' where "push_front_node st p list v = Some (p, p, st')" "is_list st' p (p # xs)"
    "contents st' (p # xs) = v # contents st xs" by (rule push_front_list [OF assms(1,3,4)])
  then show thesis using that [of p st'] True by (simp add: push_index_def)
next
  case False
  let ?k = "unat index"
  have k: "0 < ?k" using False by (simp add: unat_gt_0)
  then have ne: "xs \<noteq> []" using assms(2) by auto
  note f = is_list_first [OF assms(1) ne]
  define ptr where "ptr = (if ?k < length xs then xs ! ?k else list)"
  define ys where "ys = (if ?k < length xs then take ?k xs else [])"
  define zs where "zs = (if ?k < length xs then drop (Suc ?k) xs else tl xs)"
  have xs: "xs = ys @ ptr # zs"
  proof (cases "?k < length xs")
    case True
    then show ?thesis using id_take_nth_drop [OF True] by (simp add: ptr_def ys_def zs_def)
  next
    case False
    then show ?thesis using f ne by (cases xs) (auto simp: ptr_def ys_def zs_def)
  qed
  have loop: "push_index_loop st list index list 0 = Some (ptr, index)"
  proof (cases "?k < length xs")
    case False
    then have "length xs = ?k" using assms(2) by simp
    then show ?thesis using search_list(2) [OF assms(1) ne, of index] by (simp add: ptr_def)
  qed (use search_list(2) [OF assms(1) ne, of index] in \<open>simp add: ptr_def\<close>)
  have pn: "ptr \<noteq> NULL" using xs assms(1) by (auto simp: is_list_def)
  obtain st' where st': "add_node_before st p ptr v = Some (p, ptr, st')" "node_ring st' (ys @ p # ptr # zs)"
    "\<forall>q. ls_live st' q = (q = p \<or> ls_live st q)" "\<forall>q. ln_data (ls_node st' q) = (if q = p then v else ln_data (ls_node st q))"
    by (rule add_before [of st ys ptr zs p v]) (use f xs assms(3,4) pn in \<open>auto simp del: ring.simps\<close>)
  have r: "node_ring st' (take ?k xs @ p # drop ?k xs)"
  proof (cases "?k < length xs")
    case True
    then show ?thesis using st'(2) by (simp add: ys_def zs_def ptr_def Cons_nth_drop_Suc del: ring.simps)
  next
    case False
    then have "ys = []" by (simp add: ys_def)
    then have "node_ring st' ([p] @ xs)" unfolding xs using st'(2) by (simp del: ring.simps)
    then show ?thesis using False ring_rotate [of "node_next st'" "node_prev st'" "[p]" xs] by (simp del: ring.simps)
  qed
  have "is_list st' list (take ?k xs @ p # drop ?k xs)"
    by (rule is_listI [OF _ _ _ _ r])
      (use f ne k assms st'(3) in \<open>auto simp: is_list_def hd_append hd_conv_nth dest: in_set_takeD in_set_dropD simp del: ring.simps\<close>)
  moreover have "push_index st p list index v = Some (p, list, st')"
    using False conjunct1 [OF conjunct2 [OF f]] loop st'(1) by (simp add: push_index_def push_back_node_def)
  moreover have "contents st' ys = contents st ys" if "p \<notin> set ys" for ys by (rule contents_new(1) [OF st'(4) that])
  then have "contents st' (take ?k xs @ p # drop ?k xs) = take ?k (contents st xs) @ v # drop ?k (contents st xs)"
    using spec [OF st'(4), of p] assms(3) by (auto simp: contents_def take_map drop_map dest: in_set_takeD in_set_dropD)
  ultimately show thesis by (intro that)
qed

text \<open>The loops that walk the whole ring.\<close>

lemma node_free_links [simp]: "node_next (node_free st p) = node_next st" "node_prev (node_free st p) = node_prev st"
  by (simp_all add: fun_eq_iff node_next_def node_prev_def node_free_def)

lemma delete_loop_ring:
  assumes "node_ring st xs" "i < length xs"
  shows "\<exists>st'. delete_loop (xs ! 0) st (xs ! i) = Some st' \<and> (\<forall>q. ls_live st' q = (ls_live st q \<and> q \<notin> set (drop i xs)))"
  using assms
proof (induction "length xs - i" arbitrary: i st)
  case (Suc n)
  let ?st = "node_free st (xs ! i)"
  have nx: "node_next st (xs ! i) = xs ! (Suc i mod length xs)" by (rule ring_nth [OF Suc.prems])
  have live: "ls_live ?st q = (ls_live st q \<and> q \<noteq> xs ! i)" for q by (simp add: node_free_def)
  have dr: "drop i xs = xs ! i # drop (Suc i) xs" using Suc.prems(2) by (simp add: Cons_nth_drop_Suc)
  show ?case
  proof (cases "Suc i < length xs")
    case True
    then have "xs ! Suc i \<noteq> xs ! 0" using ring_distinct [OF Suc.prems(1)] by (subst nth_eq_iff_index_eq) auto
    moreover obtain st' where "delete_loop (xs ! 0) ?st (xs ! Suc i) = Some st'"
      "\<forall>q. ls_live st' q = (ls_live ?st q \<and> q \<notin> set (drop (Suc i) xs))"
    proof -
      have "n = length xs - Suc i" using Suc.hyps(2) by simp
      from Suc.hyps(1) [OF this, of ?st] Suc.prems(1) True show thesis using that by (auto simp only: node_free_links)
    qed
    ultimately show ?thesis using True nx live dr by (subst delete_loop.simps) (auto simp: Let_def)
  next
    case False
    then have "Suc i = length xs" using Suc.prems(2) by simp
    then show ?thesis using nx live dr by (subst delete_loop.simps) (auto simp: Let_def)
  qed
qed simp

lemma print_loop_ring:
  assumes "ring (step st) back xs" "i < length xs"
  shows "print_loop step st (xs ! 0) (xs ! i) out = Some (out @ map (\<lambda>q. ln_data (ls_node st q) ! 0) (drop i xs))"
  using assms(2)
proof (induction "length xs - i" arbitrary: i out)
  case (Suc n)
  have nx: "step st (xs ! i) = xs ! (Suc i mod length xs)" by (rule ring_nth [OF assms(1) Suc.prems])
  have dr: "drop i xs = xs ! i # drop (Suc i) xs" using Suc.prems by (simp add: Cons_nth_drop_Suc)
  show ?case
  proof (cases "Suc i < length xs")
    case True
    then have "xs ! Suc i \<noteq> xs ! 0" using ring_distinct [OF assms(1)] by (subst nth_eq_iff_index_eq) auto
    then show ?thesis
      using Suc.hyps(1) [of "Suc i"] Suc.hyps(2) True nx dr by (subst print_loop.simps) (simp add: Let_def)
  next
    case False
    then have "Suc i = length xs" using Suc.prems by simp
    then show ?thesis using nx dr by (subst print_loop.simps) (simp add: Let_def)
  qed
qed simp

lemma print_both_ways:
  assumes "is_list st list xs"
  shows "print_list st list = Some (map (\<lambda>d. d ! 0) (contents st xs))"
    "print_list_reverse st list = Some (rev (map (\<lambda>d. d ! 0) (contents st xs)))"
proof -
  have "print_list st list = Some (map (\<lambda>d. d ! 0) (contents st xs))
    \<and> print_list_reverse st list = Some (rev (map (\<lambda>d. d ! 0) (contents st xs)))"
  proof (cases "xs = []")
    case True
    then show ?thesis using assms by (simp add: print_list_def print_list_reverse_def is_list_def)
  next
    case False
    note f = is_list_first [OF assms False]
    have r: "ring (node_prev st) (node_next st) (rev xs)" using f ring_rev by blast
    obtain x ys where x: "xs = x # ys" using False by (cases xs) auto
    then have "node_prev st list = last xs"
      using f ring_first(2) [of "node_next st" "node_prev st" x ys] by (simp only: nth_Cons_0)
    then have "node_prev st list = rev xs ! 0" using False by (simp add: rev_nth last_conv_nth)
    then show ?thesis
      using f False print_loop_ring [of node_next st "node_prev st" xs 0] print_loop_ring [of node_prev st "node_next st" "rev xs" 0] r
      by (auto simp: print_list_def print_list_reverse_def contents_def rev_map comp_def simp del: ring.simps)
  qed
  then show "print_list st list = Some (map (\<lambda>d. d ! 0) (contents st xs))"
    "print_list_reverse st list = Some (rev (map (\<lambda>d. d ! 0) (contents st xs)))" by blast+
qed

section \<open>Exchanging two nodes\<close>

lemma swap_links:
  assumes r: "node_ring st (n1 # ys @ n2 # zs)" and zs: "zs \<noteq> []" and nn: "n1 \<noteq> NULL" "n2 \<noteq> NULL"
  shows "\<exists>st'. swap_nodes st n1 n2 = (n2, n2, n1, st') \<and> node_ring st' (n2 # ys @ n1 # zs)
    \<and> ls_live st' = ls_live st \<and> (\<forall>q. ln_data (ls_node st' q) = ln_data (ls_node st q))"
proof -
  have d: "distinct (n1 # ys @ n2 # zs)" using ring_distinct [OF r] .
  have sy: "segment (node_next st) (node_prev st) n1 ys n2" and sz: "segment (node_next st) (node_prev st) n2 zs n1"
    using r by (simp_all add: segment_append)
  define hz lz where "hz = hd zs" and "lz = last zs"
  have hz: "hz \<in> set zs" "lz \<in> set zs" using zs by (simp_all add: hz_def lz_def)
  have z: "node_next st n2 = hz" "node_prev st n1 = lz"
    using segment_first [OF sz] segment_last [OF sz] zs by (simp_all add: hz_def lz_def)
  obtain st' where st': "st' = snd (snd (snd (swap_nodes st n1 n2)))" by simp
  have sw: "swap_nodes st n1 n2 = (n2, n2, n1, st')" using nn by (simp add: st' swap_nodes_def Let_def)
  have keep: "ls_live st' = ls_live st" "\<forall>q. ln_data (ls_node st' q) = ln_data (ls_node st q)"
    using nn by (simp_all add: st' swap_nodes_def Let_def)
  have "node_ring st' (n2 # ys @ n1 # zs)"
  proof (cases "ys = []")
    case True
    have n: "node_next st n1 = n2" "node_prev st n2 = n1" using sy True by simp_all
    have dd: "n1 \<noteq> n2" "n1 \<noteq> hz" "n1 \<noteq> lz" "n2 \<noteq> hz" "n2 \<noteq> lz" using d hz by auto
    have l: "node_next st' q = (if q = n1 then hz else if q = n2 then n1 else if q = lz then n2 else node_next st q)"
      "node_prev st' q = (if q = n2 then lz else if q = n1 then n2 else if q = hz then n1 else node_prev st q)" for q
      using nn z n dd by (auto simp: st' swap_nodes_def Let_def)
    have "segment (node_next st') (node_prev st') n1 zs n2"
      by (rule segment_ends [OF sz zs]) (use d dd hz in \<open>auto simp: l hz_def [symmetric] lz_def [symmetric]\<close>)
    then show ?thesis using d dd True by (auto simp: l)
  next
    case False
    define hy ly where "hy = hd ys" and "ly = last ys"
    have hy: "hy \<in> set ys" "ly \<in> set ys" using False by (simp_all add: hy_def ly_def)
    have y: "node_next st n1 = hy" "node_prev st n2 = ly"
      using segment_first [OF sy] segment_last [OF sy] False by (simp_all add: hy_def ly_def)
    have dd: "n1 \<noteq> n2" "n1 \<noteq> hy" "n1 \<noteq> ly" "n1 \<noteq> hz" "n1 \<noteq> lz" "n2 \<noteq> hy" "n2 \<noteq> ly" "n2 \<noteq> hz" "n2 \<noteq> lz"
      "hy \<noteq> hz" "hy \<noteq> lz" "ly \<noteq> hz" "ly \<noteq> lz"
      using d hy hz by auto
    have l: "node_next st' q = (if q = n1 then hz else if q = n2 then hy else if q = ly then n1 else if q = lz then n2 else node_next st q)"
      "node_prev st' q = (if q = n2 then lz else if q = n1 then ly else if q = hy then n2 else if q = hz then n1 else node_prev st q)" for q
      using nn z y dd by (auto simp: st' swap_nodes_def Let_def)
    have "segment (node_next st') (node_prev st') n2 ys n1"
      by (rule segment_ends [OF sy False]) (use d dd hy hz in \<open>auto simp: l hy_def [symmetric] ly_def [symmetric]\<close>)
    moreover have "segment (node_next st') (node_prev st') n1 zs n2"
      by (rule segment_ends [OF sz zs]) (use d dd hy hz in \<open>auto simp: l hz_def [symmetric] lz_def [symmetric]\<close>)
    ultimately show ?thesis using d by (auto simp: segment_append)
  qed
  then show ?thesis using sw keep by blast
qed

lemma swap_behind:
  assumes r: "node_ring st (n1 # ys @ [n2])" and nn: "n1 \<noteq> NULL" "n2 \<noteq> NULL"
  shows "\<exists>st'. swap_nodes st n1 n2 = (n2, n2, n1, st') \<and> node_next st' n1 = n1 \<and> node_prev st' n2 = n2"
proof -
  have d: "n1 \<noteq> n2" using ring_distinct [OF r] by auto
  have "node_prev st n1 = n2" "node_next st n2 = n1" using r by (simp_all add: segment_append)
  then show ?thesis using nn d by (simp add: swap_nodes_def Let_def)
qed

section \<open>Properties\<close>

text \<open>
  C22: the operations of \<open>list.c\<close> implement a sequence of payloads. Pushing at either end or at an index
  inserts the payload there, and an index beyond the end is refused with \<open>NULL\<close>; popping at either end or
  at an index takes out that node and returns it; a search by index finds it; \<open>print_list\<close> prints the first number of
  every payload in order and \<open>print_list_reverse\<close> in the opposite order. Every result is a well-formed circular list again.
\<close>

theorem node_list_sequence:
  assumes "is_list st list xs" "p \<notin> set xs" "p \<noteq> NULL"
  shows "(\<exists>list' st'. push_back_node st p list v = Some (p, list', st') \<and> is_list st' list' (xs @ [p])
       \<and> contents st' (xs @ [p]) = contents st xs @ [v])
    \<and> (\<exists>st'. push_front_node st p list v = Some (p, p, st') \<and> is_list st' p (p # xs)
       \<and> contents st' (p # xs) = v # contents st xs)
    \<and> (if unat k \<le> length xs
       then \<exists>list' st'. push_index st p list k v = Some (p, list', st') \<and> is_list st' list' (take (unat k) xs @ p # drop (unat k) xs)
         \<and> contents st' (take (unat k) xs @ p # drop (unat k) xs) = take (unat k) (contents st xs) @ v # drop (unat k) (contents st xs)
       else push_index st p list k v = Some (NULL, list, st))
    \<and> (if xs = [] then pop_back_node st list = (NULL, NULL, st) \<and> pop_front_node st list = (NULL, NULL, st)
       else (\<exists>list' st'. pop_back_node st list = (last xs, list', st') \<and> is_list st' list' (butlast xs)
              \<and> contents st' (butlast xs) = butlast (contents st xs))
          \<and> (\<exists>list' st'. pop_front_node st list = (hd xs, list', st') \<and> is_list st' list' (tl xs)
              \<and> contents st' (tl xs) = tl (contents st xs)))
    \<and> find_index st list k = Some (if unat k < length xs then xs ! unat k else NULL)
    \<and> (if unat k < length xs
       then \<exists>list' st'. pop_index st list k = Some (xs ! unat k, list', st') \<and> is_list st' list' (take (unat k) xs @ drop (Suc (unat k)) xs)
         \<and> contents st' (take (unat k) xs @ drop (Suc (unat k)) xs) = contents st (take (unat k) xs @ drop (Suc (unat k)) xs)
       else pop_index st list k = Some (NULL, list, st))
    \<and> print_list st list = Some (map (\<lambda>d. d ! 0) (contents st xs))
    \<and> print_list_reverse st list = Some (rev (map (\<lambda>d. d ! 0) (contents st xs)))"
proof -
  have last_one: "\<exists>list' st'. pop_back_node st list = (last xs, list', st') \<and> is_list st' list' (butlast xs)
      \<and> contents st' (butlast xs) = butlast (contents st xs)" if "xs \<noteq> []"
    using pop_back_list [of st list "butlast xs" "last xs"] assms(1) that by (simp add: contents_def map_butlast) blast
  have first_one: "\<exists>list' st'. pop_front_node st list = (hd xs, list', st') \<and> is_list st' list' (tl xs)
      \<and> contents st' (tl xs) = tl (contents st xs)" if "xs \<noteq> []"
    using pop_front_list [of st list "hd xs" "tl xs"] assms(1) that by (simp add: contents_def map_tl) blast
  have none: "xs = [] \<Longrightarrow> list = NULL" using assms(1) by (simp add: is_list_def)
  have wide: "push_index st p list k v = Some (NULL, list, st)" if "\<not> unat k \<le> length xs"
  proof -
    have "k \<noteq> 0" "k \<noteq> word_of_nat (length xs)"
      using that is_list_bound [OF assms(1)] by (auto simp: unat_word_of_nat_lt)
    then show ?thesis
      using that none is_list_first [OF assms(1)] search_list(2) [OF assms(1), of k] by (cases "xs = []") (auto simp: push_index_def)
  qed
  have find: "find_index st list k = Some (if unat k < length xs then xs ! unat k else NULL)"
    using none search_list(1) [OF assms(1), of k] by (cases "xs = []") (auto simp: find_index_def)
  have pb: "\<exists>list' st'. push_back_node st p list v = Some (p, list', st') \<and> is_list st' list' (xs @ [p])
      \<and> contents st' (xs @ [p]) = contents st xs @ [v]" by (rule push_back_list [OF assms, of v]) blast
  have pf: "\<exists>st'. push_front_node st p list v = Some (p, p, st') \<and> is_list st' p (p # xs)
      \<and> contents st' (p # xs) = v # contents st xs" by (rule push_front_list [OF assms, of v]) blast
  have pi: "\<exists>list' st'. push_index st p list k v = Some (p, list', st') \<and> is_list st' list' (take (unat k) xs @ p # drop (unat k) xs)
      \<and> contents st' (take (unat k) xs @ p # drop (unat k) xs) = take (unat k) (contents st xs) @ v # drop (unat k) (contents st xs)"
    if "unat k \<le> length xs" by (rule push_index_list [OF assms(1) that assms(2,3), of v]) blast
  have px: "\<exists>list' st'. pop_index st list k = Some (xs ! unat k, list', st')
      \<and> is_list st' list' (take (unat k) xs @ drop (Suc (unat k)) xs)
      \<and> contents st' (take (unat k) xs @ drop (Suc (unat k)) xs) = contents st (take (unat k) xs @ drop (Suc (unat k)) xs)"
    if "unat k < length xs" by (rule pop_index_list [OF assms(1) that]) blast
  have pn: "pop_index st list k = Some (NULL, list, st)" if "\<not> unat k < length xs"
    using find that by (simp add: pop_index_def)
  have e: "pop_back_node st list = (NULL, NULL, st) \<and> pop_front_node st list = (NULL, NULL, st)" if "xs = []"
    using none [OF that] by (simp add: pop_back_node_def pop_front_node_def)
  show ?thesis
    by (intro conjI pb pf find if_bool_eq_conj [THEN iffD2] impI)
      (rule pi wide px pn last_one first_one conjunct1 [OF e] conjunct2 [OF e] print_both_ways [OF assms(1)]; assumption?)+
qed

text \<open>A list of two nodes.\<close>

definition demo_list :: list_store where
  "demo_list = \<lparr>ls_node = (\<lambda>q. if q = 0x10 then \<lparr>ln_next = 0x20, ln_prev = 0x20, ln_data = [1, 0, 0, 0, 0]\<rparr>
                              else \<lparr>ln_next = 0x10, ln_prev = 0x10, ln_data = [2, 0, 0, 0, 0]\<rparr>),
     ls_live = (\<lambda>q. q = 0x10 \<or> q = 0x20)\<rparr>"

lemma demo_list_ok:
  "is_list demo_list 0x10 [0x10, 0x20]" "contents demo_list [0x10, 0x20] = [[1, 0, 0, 0, 0], [2, 0, 0, 0, 0]]"
  by (simp_all add: is_list_def demo_list_def node_next_def node_prev_def)

theorem node_list_sequence_witness:
  "\<exists>list' st'. push_index demo_list 0x30 0x10 1 [7, 0, 0, 0, 0] = Some (0x30, list', st')
     \<and> is_list st' list' [0x10, 0x30, 0x20]
     \<and> contents st' [0x10, 0x30, 0x20] = [[1, 0, 0, 0, 0], [7, 0, 0, 0, 0], [2, 0, 0, 0, 0]]"
  using node_list_sequence [OF demo_list_ok(1), of "0x30" "[7, 0, 0, 0, 0]" 1] demo_list_ok(2)
  by (auto simp del: contents_simps)

text \<open>
  C28: \<open>delete_list\<close> ends on every well-formed list, frees exactly its nodes, and clears the list variable.
\<close>

theorem node_list_delete:
  assumes "is_list st list xs"
  shows "\<exists>st'. delete_list st list = Some (NULL, st') \<and> (\<forall>q. ls_live st' q = (ls_live st q \<and> q \<notin> set xs))"
proof (cases "xs = []")
  case True
  then show ?thesis using assms by (simp add: delete_list_def is_list_def)
next
  case False
  then show ?thesis
    using is_list_first [OF assms False] delete_loop_ring [of st xs 0] by (auto simp: delete_list_def simp del: ring.simps)
qed

theorem node_list_delete_witness:
  "\<exists>st'. delete_list demo_list 0x10 = Some (NULL, st') \<and> \<not> ls_live st' 0x10 \<and> \<not> ls_live st' 0x20"
  using node_list_delete [OF demo_list_ok(1)] by auto

text \<open>
  \<open>swap\<close> exchanges two nodes of the list, next to each other or not, as long as the second is not
  the direct predecessor of the first.
\<close>

theorem node_swap_exchanges:
  assumes "node_ring st (n1 # ys @ n2 # zs)" "zs \<noteq> []" "n1 \<noteq> NULL" "n2 \<noteq> NULL"
  shows "\<exists>st'. swap_nodes st n1 n2 = (n2, n2, n1, st') \<and> node_ring st' (n2 # ys @ n1 # zs)
    \<and> ls_live st' = ls_live st \<and> (\<forall>q. ln_data (ls_node st' q) = ln_data (ls_node st q))"
  by (rule swap_links [OF assms])

definition demo_list3 :: list_store where
  "demo_list3 = \<lparr>ls_node = (\<lambda>q. if q = 0x10 then \<lparr>ln_next = 0x20, ln_prev = 0x30, ln_data = [1]\<rparr>
                              else if q = 0x20 then \<lparr>ln_next = 0x30, ln_prev = 0x10, ln_data = [2]\<rparr>
                              else \<lparr>ln_next = 0x10, ln_prev = 0x20, ln_data = [3]\<rparr>), ls_live = (\<lambda>_. True)\<rparr>"

theorem node_swap_exchanges_witness:
  "\<exists>st'. swap_nodes demo_list3 0x10 0x20 = (0x20, 0x20, 0x10, st') \<and> node_ring st' [0x20, 0x10, 0x30]"
proof -
  have "node_ring demo_list3 (0x10 # [] @ 0x20 # [0x30])" by (simp add: demo_list3_def node_next_def node_prev_def)
  from node_swap_exchanges [OF this] show ?thesis by (auto simp del: ring.simps)
qed

text \<open>
  C40: when the second node is the direct predecessor of the first, as in every list of two nodes, \<open>swap\<close>
  destroys the list: the first node ends up linked to itself.
\<close>

theorem node_swap_breaks:
  assumes "node_ring st (n1 # ys @ [n2])" "n1 \<noteq> NULL" "n2 \<noteq> NULL"
  shows "\<exists>st'. swap_nodes st n1 n2 = (n2, n2, n1, st') \<and> node_next st' n1 = n1 \<and> \<not> node_ring st' (n2 # ys @ [n1])"
proof -
  obtain st' where st': "swap_nodes st n1 n2 = (n2, n2, n1, st')" "node_next st' n1 = n1"
    using swap_behind [OF assms] by blast
  have "n1 \<noteq> n2" using ring_distinct [OF assms(1)] by auto
  moreover have "node_next st' n1 = n2" if "node_ring st' (n2 # ys @ [n1])"
    using ring_first(3) [OF that] by simp
  ultimately have "\<not> node_ring st' (n2 # ys @ [n1])" using st'(2) by metis
  with st' show ?thesis by (intro exI [of _ st'] conjI)
qed

theorem node_swap_breaks_witness:
  "\<exists>st'. swap_nodes demo_list 0x10 0x20 = (0x20, 0x20, 0x10, st') \<and> node_next st' 0x10 = 0x10"
  using node_swap_breaks [of demo_list "0x10" "[]" "0x20"] demo_list_ok(1) by (auto simp: is_list_def simp del: ring.simps)

end
