(* ===== verification/Tasks.thy ===== *)
theory Tasks
  imports Paging Gdt Ring
begin

text \<open>
  Tasks and the scheduler, \<^verbatim>\<open>src/kernel/task/task.c\<close>. Task control blocks and processes are
  structures in the memory of the kernel heap, read and written by field offset; the state adds the
  descriptor tables and the globals \<open>current_task\<close>, \<open>current_process\<close> and \<open>processes\<close>. A union \<open>task\<close> is a
  control block at the start of its own kernel stack of 4096 words, which grows down from its end. \<open>None\<close> is a
  panic, or a loop or an allocation that never returns.
\<close>

section \<open>The code\<close>

text \<open>The offsets of \<open>struct task_control_block\<close> and of \<open>struct process\<close>.\<close>

abbreviation tcb_gs :: u32 where "tcb_gs \<equiv> 0"
abbreviation tcb_fs :: u32 where "tcb_fs \<equiv> 4"
abbreviation tcb_es :: u32 where "tcb_es \<equiv> 8"
abbreviation tcb_ds :: u32 where "tcb_ds \<equiv> 12"
abbreviation tcb_cs :: u32 where "tcb_cs \<equiv> 16"
abbreviation tcb_ss :: u32 where "tcb_ss \<equiv> 20"
abbreviation tcb_eflags :: u32 where "tcb_eflags \<equiv> 24"
abbreviation tcb_eip :: u32 where "tcb_eip \<equiv> 28"
abbreviation tcb_edi :: u32 where "tcb_edi \<equiv> 32"
abbreviation tcb_esi :: u32 where "tcb_esi \<equiv> 36"
abbreviation tcb_ebp :: u32 where "tcb_ebp \<equiv> 40"
abbreviation tcb_esp :: u32 where "tcb_esp \<equiv> 44"
abbreviation tcb_ebx :: u32 where "tcb_ebx \<equiv> 48"
abbreviation tcb_edx :: u32 where "tcb_edx \<equiv> 52"
abbreviation tcb_ecx :: u32 where "tcb_ecx \<equiv> 56"
abbreviation tcb_eax :: u32 where "tcb_eax \<equiv> 60"
abbreviation tcb_n_switches :: u32 where "tcb_n_switches \<equiv> 64"
abbreviation tcb_sp :: u32 where "tcb_sp \<equiv> 68"
abbreviation tcb_ip :: u32 where "tcb_ip \<equiv> 72"
abbreviation tcb_process :: u32 where "tcb_process \<equiv> 76"
abbreviation tcb_kernel_stack_pointer :: u32 where "tcb_kernel_stack_pointer \<equiv> 80"
abbreviation tcb_next :: u32 where "tcb_next \<equiv> 84"
abbreviation tcb_previous :: u32 where "tcb_previous \<equiv> 88"

abbreviation process_pid :: u32 where "process_pid \<equiv> 0"
abbreviation process_name :: u32 where "process_name \<equiv> 4"
abbreviation process_task :: u32 where "process_task \<equiv> 256"
abbreviation process_page_directory :: u32 where "process_page_directory \<equiv> 260"
abbreviation process_memory :: u32 where "process_memory \<equiv> 264"
abbreviation process_memory_size :: u32 where "process_memory_size \<equiv> 268"
abbreviation process_stack :: u32 where "process_stack \<equiv> 272"
abbreviation process_next :: u32 where "process_next \<equiv> 276"
abbreviation process_previous :: u32 where "process_previous \<equiv> 280"

definition sizeof_process :: u32 where "sizeof_process = 284"
definition TASK_KERNEL_STACK_SIZE :: u32 where "TASK_KERNEL_STACK_SIZE = 4096"
definition sizeof_task :: u32 where "sizeof_task = 4 * TASK_KERNEL_STACK_SIZE"
definition sizeof_interrupt_frame :: u32 where "sizeof_interrupt_frame = 4 * 19"
definition sizeof_interrupt_frame_kernel :: u32 where "sizeof_interrupt_frame_kernel = 4 * 17"

definition GDT_KERNEL_CODE_SEGMENT_SELECTOR :: u32 where "GDT_KERNEL_CODE_SEGMENT_SELECTOR = 1 * 8"
definition GDT_KERNEL_DATA_SEGMENT_SELECTOR :: u32 where "GDT_KERNEL_DATA_SEGMENT_SELECTOR = 2 * 8"
definition GDT_USER_CODE_SEGMENT_SELECTOR :: u32 where "GDT_USER_CODE_SEGMENT_SELECTOR = 3 * 8"
definition GDT_USER_DATA_SEGMENT_SELECTOR :: u32 where "GDT_USER_DATA_SEGMENT_SELECTOR = 4 * 8"

record task_state =
  tk_pg :: paging_state
  tk_gdt :: gdt_state
  current_task :: addr
  current_process :: addr
  processes :: "nat \<Rightarrow> addr"

abbreviation tk_mem :: "task_state \<Rightarrow> mem" where "tk_mem st \<equiv> pg_mem (tk_pg st)"

definition tk_with :: "task_state \<Rightarrow> mem \<Rightarrow> task_state" where
  "tk_with st m = st\<lparr>tk_pg := (tk_pg st)\<lparr>pg_ks := (pg_ks (tk_pg st))\<lparr>ks_mem := m\<rparr>\<rparr>\<rparr>"

definition tk_set :: "u32 \<Rightarrow> addr \<Rightarrow> u32 \<Rightarrow> task_state \<Rightarrow> task_state" where
  "tk_set k p v st = tk_with st (set_fld k (tk_mem st) p v)"

definition tk_print :: "(terminal \<Rightarrow> terminal option) \<Rightarrow> task_state \<Rightarrow> task_state option" where
  "tk_print f st = (case f (pg_term (tk_pg st)) of None \<Rightarrow> None | Some t \<Rightarrow> Some (st\<lparr>tk_pg := (tk_pg st)\<lparr>pg_term := t\<rparr>\<rparr>))"

text \<open>The call \<open>print(task->task.process->name)\<close>.\<close>

definition print_task_name :: "mem \<Rightarrow> addr \<Rightarrow> terminal \<Rightarrow> terminal option" where
  "print_task_name m task t = print_str m (fld tcb_process m task + process_name) t"

partial_function (option) print_tasks_loop :: "mem \<Rightarrow> addr \<Rightarrow> addr \<Rightarrow> terminal \<Rightarrow> terminal option" where
  "print_tasks_loop m current ptr t =
     (case print_task_name m ptr t of None \<Rightarrow> None
      | Some t1 \<Rightarrow>
          let t2 = print_literal [CHR 0x0A] t1; ptr1 = fld tcb_next m ptr
          in if ptr1 \<noteq> current then print_tasks_loop m current ptr1 t2 else Some t2)"

definition print_tasks :: "mem \<Rightarrow> addr \<Rightarrow> terminal \<Rightarrow> terminal option" where
  "print_tasks m current t =
     (case print_tasks_loop m current current (print_literal (''TASK LIST'' @ [CHR 0x0A]) t) of None \<Rightarrow> None
      | Some t1 \<Rightarrow> Some (print_literal (''##########'' @ [CHR 0x0A]) t1))"

definition task_next :: "task_state \<Rightarrow> addr" where
  "task_next st = fld tcb_next (tk_mem st) (current_task st)"

definition task_previous :: "task_state \<Rightarrow> addr" where
  "task_previous st = fld tcb_previous (tk_mem st) (current_task st)"

text \<open>The four stores of \<open>task_list_insert\<close>, and the whole function.\<close>

definition task_list_link :: "addr \<Rightarrow> addr \<Rightarrow> mem \<Rightarrow> mem" where
  "task_list_link current task m =
     (let m1 = set_fld tcb_previous m task current;
          m2 = set_fld tcb_next m1 task (fld tcb_next m1 current);
          m3 = set_fld tcb_next m2 current task
      in set_fld tcb_previous m3 (fld tcb_next m3 task) task)"

definition insert_message :: "mem \<Rightarrow> addr \<Rightarrow> addr \<Rightarrow> terminal \<Rightarrow> terminal option" where
  "insert_message m current task t =
     (case print_task_name m current t of None \<Rightarrow> None
      | Some t1 \<Rightarrow> (case print_task_name m task (print_literal [CHR 0x0A] t1) of None \<Rightarrow> None
      | Some t2 \<Rightarrow> print_tasks m current t2))"

definition task_list_insert :: "addr \<Rightarrow> task_state \<Rightarrow> (addr \<times> task_state) option" where
  "task_list_insert task st =
     (let st1 = tk_with st (task_list_link (current_task st) task (tk_mem st))
      in case tk_print (insert_message (tk_mem st1) (current_task st1) task) st1 of None \<Rightarrow> None
         | Some st2 \<Rightarrow> Some (task, st2))"

definition task_list_remove :: "addr \<Rightarrow> task_state \<Rightarrow> addr \<times> task_state" where
  "task_list_remove task st =
     (let m = tk_mem st;
          m1 = set_fld tcb_next m (fld tcb_previous m task) (fld tcb_next m task);
          m2 = set_fld tcb_previous m1 (fld tcb_next m1 task) (fld tcb_previous m1 task);
          m3 = set_fld tcb_next m2 task NULL
      in (task, tk_with st (set_fld tcb_previous m3 task NULL)))"

definition task_push_data_to_kstack :: "addr \<Rightarrow> u8 list \<Rightarrow> u32 \<Rightarrow> mem \<Rightarrow> mem" where
  "task_push_data_to_kstack task data sz m =
     (let m1 = set_fld tcb_kernel_stack_pointer m task (fld tcb_kernel_stack_pointer m task - sz)
      in write_bytes m1 (fld tcb_kernel_stack_pointer m1 task) (take (unat sz) data))"

text \<open>The words of the local \<open>struct interrupt_frame\<close>, in the order of \<^verbatim>\<open>src/cpu.h\<close>.\<close>

definition interrupt_frame_of :: "mem \<Rightarrow> addr \<Rightarrow> u32 list" where
  "interrupt_frame_of m task =
     [fld tcb_gs m task, fld tcb_fs m task, fld tcb_es m task, fld tcb_ds m task,
      fld tcb_edi m task, fld tcb_esi m task, fld tcb_ebp m task, fld tcb_esp m task,
      fld tcb_ebx m task, fld tcb_edx m task, fld tcb_ecx m task, fld tcb_eax m task,
      0xDEADC0DE, 0xDEADC0DE, fld tcb_eip m task, fld tcb_cs m task, fld tcb_eflags m task,
      fld tcb_esp m task, fld tcb_ss m task]"

definition task_push_state_to_kstack :: "addr \<Rightarrow> mem \<Rightarrow> mem" where
  "task_push_state_to_kstack task m =
     (let user_mode = fld tcb_cs m task AND 3;
          interrupt_frame_size = (if user_mode \<noteq> 0 then sizeof_interrupt_frame else sizeof_interrupt_frame_kernel)
      in task_push_data_to_kstack task (words_bytes (interrupt_frame_of m task)) interrupt_frame_size m)"

text \<open>
  The control block that \<open>task_new\<close> assigns, word by word. The rest of the union, already zero from
  \<open>kzalloc\<close>, stays as it is.
\<close>

definition new_tcb :: "addr \<Rightarrow> addr \<Rightarrow> bool \<Rightarrow> u32 \<Rightarrow> u32 \<Rightarrow> u32 list" where
  "new_tcb task process privileged entry_point esp =
     (let cs = (if privileged then GDT_KERNEL_CODE_SEGMENT_SELECTOR else GDT_USER_CODE_SEGMENT_SELECTOR OR 3);
          ss = (if privileged then GDT_KERNEL_DATA_SEGMENT_SELECTOR else GDT_USER_DATA_SEGMENT_SELECTOR OR 3);
          top = task + 4 * TASK_KERNEL_STACK_SIZE
      in [ss, ss, ss, ss, cs, ss, 0x202, entry_point, 0, 0, 0, esp, 0, 0, 0, 0xDEADC0DE,
          0, top, entry_point, process, top, NULL, NULL])"

definition task_new :: "addr \<Rightarrow> bool \<Rightarrow> u32 \<Rightarrow> u32 \<Rightarrow> task_state \<Rightarrow> (addr \<times> task_state) option" where
  "task_new process privileged entry_point esp st =
     (case kzalloc (pg_ks (tk_pg st)) sizeof_task of None \<Rightarrow> None
      | Some (task, ks) \<Rightarrow>
          let st1 = st\<lparr>tk_pg := (tk_pg st)\<lparr>pg_ks := ks\<rparr>\<rparr>
          in if task = NULL then Some (NULL, st1)
             else let st2 = tk_with st1 (store_words (tk_mem st1) task (new_tcb task process privileged entry_point esp));
                      st3 = tk_with st2 (task_push_state_to_kstack task (tk_mem st2))
                  in case task_list_insert task st3 of None \<Rightarrow> None
                     | Some (t, st4) \<Rightarrow> Some (task, st4))"

definition task_free :: "addr \<Rightarrow> task_state \<Rightarrow> task_state" where "task_free task st = st"

definition switch_task :: "addr \<Rightarrow> addr \<Rightarrow> task_state \<Rightarrow> task_state" where
  "switch_task previous nxt st =
     st\<lparr>tk_gdt := tss_set_kernel_stack (nxt + 4 * TASK_KERNEL_STACK_SIZE) (tk_gdt st),
        current_process := fld tcb_process (tk_mem st) nxt, current_task := nxt\<rparr>"

definition task_store :: "addr \<Rightarrow> addr \<Rightarrow> task_state \<Rightarrow> task_state option" where
  "task_store task interrupt_frame st =
     (if current_task st = NULL then None else Some (tk_set tcb_kernel_stack_pointer task interrupt_frame st))"

text \<open>
  \<open>schedule\<close> is called with the frame the processor has pushed and returns the frame to leave through.
  Reading \<open>cr3\<close> and writing it back flushes the translation caches and changes no state of the model.
\<close>

definition schedule_message :: "mem \<Rightarrow> addr \<Rightarrow> addr \<Rightarrow> terminal \<Rightarrow> terminal option" where
  "schedule_message m current nxt t =
     (case print_task_name m current t of None \<Rightarrow> None
      | Some t1 \<Rightarrow> (case print_task_name m nxt (print_literal '' -> '' t1) of None \<Rightarrow> None
      | Some t2 \<Rightarrow> Some (print_char 10 t2)))"

definition schedule_switch :: "addr \<Rightarrow> task_state \<Rightarrow> addr \<times> task_state" where
  "schedule_switch nxt st =
     (let st1 = tk_set tcb_n_switches (current_task st) (fld tcb_n_switches (tk_mem st) (current_task st) + 1) st;
          st2 = st1\<lparr>current_task := nxt, tk_gdt := tss_set_kernel_stack (nxt + 4 * TASK_KERNEL_STACK_SIZE) (tk_gdt st1)\<rparr>;
          m = tk_mem st2;
          handle = fld process_page_directory m (fld tcb_process m nxt);
          st3 = st2\<lparr>tk_pg := (tk_pg st2)\<lparr>pg_cr3 := PAGE_ENTRY_ADDR (load32 m (directory_at m handle 1023))\<rparr>\<rparr>
      in (fld tcb_kernel_stack_pointer (tk_mem st3) (current_task st3), st3))"

definition schedule :: "addr \<Rightarrow> task_state \<Rightarrow> (addr \<times> task_state) option" where
  "schedule interrupt_frame st =
     (if current_task st = NULL then Some (interrupt_frame, st)
      else case task_store (current_task st) interrupt_frame st of None \<Rightarrow> None
      | Some st1 \<Rightarrow>
          let nxt = task_next st1
          in if nxt = current_task st1 then Some (interrupt_frame, st1)
             else case tk_print (schedule_message (tk_mem st1) (current_task st1) nxt) st1 of None \<Rightarrow> None
                  | Some st2 \<Rightarrow> Some (schedule_switch nxt st2))"

section \<open>The ring of tasks\<close>

lemma tk_with_simps [simp]:
  "tk_mem (tk_with st m) = m" "tk_gdt (tk_with st m) = tk_gdt st" "current_task (tk_with st m) = current_task st"
  "current_process (tk_with st m) = current_process st" "processes (tk_with st m) = processes st"
  "pg_term (tk_pg (tk_with st m)) = pg_term (tk_pg st)" "tk_with (tk_with st m) m' = tk_with st m'"
  "ks_heap (pg_ks (tk_pg (tk_with st m))) = ks_heap (pg_ks (tk_pg st))"
  by (simp_all add: tk_with_def)

lemma link_fields:
  assumes "unat a + 4 \<le> n" "unat b + 4 \<le> n" "n \<le> 2 ^ 32" "4 \<le> unat (a - b)" "4 \<le> unat (b - a)"
  shows "link_store (fld a) (fld b) (set_fld a) (set_fld b) (\<lambda>p q. regions_disjoint p n q n)"
  by unfold_locales (use assms in \<open>simp_all add: fld_field fld_other [where n = n and l = n]\<close>)

interpretation tl: link_store "fld tcb_next" "fld tcb_previous" "set_fld tcb_next" "set_fld tcb_previous"
  "\<lambda>p q. regions_disjoint p 16384 q 16384"
  by (rule link_fields) simp_all

definition named :: "mem \<Rightarrow> addr \<Rightarrow> bool" where
  "named m p \<longleftrightarrow> (\<exists>s. length s < 250 \<and> cstring m (p + process_name) s)"

text \<open>
  The tasks from the current one on, in the order the scheduler takes them: a ring of control blocks with
  kernel stacks apart from each other and from the processes, which have names.
\<close>

definition task_ring :: "mem \<Rightarrow> addr list \<Rightarrow> bool" where
  "task_ring m q \<longleftrightarrow> q \<noteq> [] \<and> NULL \<notin> set q \<and> ring (fld tcb_next m) (fld tcb_previous m) q
     \<and> (\<forall>a\<in>set q. \<forall>b\<in>set q. a \<noteq> b \<longrightarrow> regions_disjoint a 16384 b 16384)
     \<and> (\<forall>a\<in>set q. named m (fld tcb_process m a)
          \<and> (\<forall>b\<in>set q. regions_disjoint (fld tcb_process m a) 284 b 16384))"

definition tasks_inv :: "task_state \<Rightarrow> addr list \<Rightarrow> bool" where
  "tasks_inv st q \<longleftrightarrow> task_ring (tk_mem st) q \<and> current_task st = hd q"

lemma named_name:
  assumes "named m p" "\<And>x. in_region x (p + process_name) 250 \<Longrightarrow> m' x = m x"
  shows "named m' p"
proof -
  obtain s where s: "length s < 250" "cstring m (p + process_name) s" using assms(1) by (auto simp: named_def)
  have "cstring m' (p + process_name) s"
    by (rule cstring_cong [OF s(2)], rule assms(2)) (use s(1) in_region_mono [of _ "p + process_name" "Suc (length s)" 250] in auto)
  then show ?thesis using s(1) named_def by blast
qed

lemma named_cong:
  assumes "named m p" "\<And>x. in_region x p 284 \<Longrightarrow> m' x = m x"
  shows "named m' p"
  by (rule named_name [OF assms(1)], rule assms(2)) (use field_region [of _ p 4 250 284] in auto)

lemma print_named: "named m (fld tcb_process m a) \<Longrightarrow> \<exists>t'. print_task_name m a t = Some t'"
  using put_str_fold by (fastforce simp: print_task_name_def print_str_def named_def)

lemma task_ringD:
  assumes "task_ring m q"
  shows "q \<noteq> []" "NULL \<notin> set q" "ring (fld tcb_next m) (fld tcb_previous m) q"
    "\<And>a b. a \<in> set q \<Longrightarrow> b \<in> set q \<Longrightarrow> a \<noteq> b \<Longrightarrow> regions_disjoint a 16384 b 16384"
    "\<And>a. a \<in> set q \<Longrightarrow> named m (fld tcb_process m a)"
    "\<And>a b. a \<in> set q \<Longrightarrow> b \<in> set q \<Longrightarrow> regions_disjoint (fld tcb_process m a) 284 b 16384"
  using assms by (auto simp: task_ring_def)

lemma task_ring_cong:
  assumes r: "task_ring m q" and t: "\<And>a x. a \<in> set q \<Longrightarrow> in_region x a 16384 \<Longrightarrow> m' x = m x"
    and p: "\<And>a x. a \<in> set q \<Longrightarrow> in_region x (fld tcb_process m a) 284 \<Longrightarrow> m' x = m x"
  shows "task_ring m' q" "\<And>a k. a \<in> set q \<Longrightarrow> unat k + 4 \<le> 16384 \<Longrightarrow> fld k m' a = fld k m a"
proof -
  show f: "fld k m' a = fld k m a" if "a \<in> set q" "unat k + 4 \<le> 16384" for a k
    by (rule fld_cong [OF t [OF that(1)] that(2)]) simp_all
  have g: "fld tcb_process m' a = fld tcb_process m a" "fld tcb_next m' a = fld tcb_next m a"
    "fld tcb_previous m' a = fld tcb_previous m a" if "a \<in> set q" for a using f [OF that] by simp_all
  have "ring (fld tcb_next m') (fld tcb_previous m') q"
    using task_ringD(3) [OF r] ring_cong [of q "fld tcb_next m'" "fld tcb_next m"] g by simp
  moreover have "named m' (fld tcb_process m a)" if "a \<in> set q" for a
    using named_cong [OF task_ringD(5) [OF r that]] p [OF that] by blast
  ultimately show "task_ring m' q" using r g by (simp add: task_ring_def)
qed

text \<open>A change inside one task that keeps its links and its process keeps the ring.\<close>

lemma task_ring_write:
  assumes r: "task_ring m q" and a: "a \<in> set q" and out: "\<And>x. \<not> in_region x a 16384 \<Longrightarrow> m' x = m x"
    and own: "fld tcb_process m' a = fld tcb_process m a" "fld tcb_next m' a = fld tcb_next m a"
      "fld tcb_previous m' a = fld tcb_previous m a"
  shows "task_ring m' q" "\<And>b k. b \<in> set q \<Longrightarrow> b \<noteq> a \<Longrightarrow> unat k + 4 \<le> 16384 \<Longrightarrow> fld k m' b = fld k m b"
    "\<And>b k. b \<in> set q \<Longrightarrow> unat k + 4 \<le> 284 \<Longrightarrow> fld k m' (fld tcb_process m b) = fld k m (fld tcb_process m b)"
proof -
  show others: "fld k m' b = fld k m b" if "b \<in> set q" "b \<noteq> a" "unat k + 4 \<le> 16384" for b k
    by (rule fld_cong [OF _ that(3)]) (use out regions_disjointD [OF task_ringD(4) [OF r that(1) a that(2)]] in auto)
  have procs: "m' x = m x" if "b \<in> set q" "in_region x (fld tcb_process m b) 284" for b x
    using regions_disjointD [OF task_ringD(6) [OF r that(1) a] that(2)] out by blast
  then show "fld k m' (fld tcb_process m b) = fld k m (fld tcb_process m b)" if "b \<in> set q" "unat k + 4 \<le> 284" for b k
    by (intro fld_cong [OF _ that(2)]) (use that(1) in auto)
  have f: "fld tcb_process m' b = fld tcb_process m b" "fld tcb_next m' b = fld tcb_next m b"
    "fld tcb_previous m' b = fld tcb_previous m b" if "b \<in> set q" for b
    using others [OF that] own by (cases "b = a"; simp)+
  have "ring (fld tcb_next m') (fld tcb_previous m') q"
    using task_ringD(3) [OF r] ring_cong [of q "fld tcb_next m'" "fld tcb_next m"] f by simp
  moreover have "named m' (fld tcb_process m b)" if "b \<in> set q" for b
    using named_cong [OF task_ringD(5) [OF r that]] procs [OF that] by blast
  ultimately show "task_ring m' q" using r f by (simp add: task_ring_def)
qed

section \<open>Round robin\<close>

text \<open>The abstract scheduler: a queue of tasks with the frames they will continue from.\<close>

fun rr_schedule :: "addr \<Rightarrow> (addr \<times> addr) list \<Rightarrow> addr \<times> (addr \<times> addr) list" where
  "rr_schedule frame [] = (frame, [])"
| "rr_schedule frame ((t, k) # q) = (let q' = q @ [(t, frame)] in (snd (hd q'), q'))"

definition queue_of :: "task_state \<Rightarrow> addr list \<Rightarrow> (addr \<times> addr) list" where
  "queue_of st q = map (\<lambda>t. (t, fld tcb_kernel_stack_pointer (tk_mem st) t)) q"

lemma task_store_step:
  assumes "tasks_inv st q"
  obtains st1 where "task_store (current_task st) frame st = Some st1" "tasks_inv st1 q"
    "tk_gdt st1 = tk_gdt st" "queue_of st1 q = (hd q, frame) # tl (queue_of st q)"
    "\<forall>b\<in>set q. fld tcb_process (tk_mem st1) b = fld tcb_process (tk_mem st) b
       \<and> fld tcb_n_switches (tk_mem st1) b = fld tcb_n_switches (tk_mem st) b"
    "st1 = tk_with st (tk_mem st1)"
proof -
  have r: "task_ring (tk_mem st) q" and c: "current_task st = hd q" using assms by (simp_all add: tasks_inv_def)
  obtain x xs where q: "q = x # xs" using task_ringD(1) [OF r] by (cases q) auto
  let ?m = "set_fld tcb_kernel_stack_pointer (tk_mem st) x frame"
  have out: "?m y = tk_mem st y" if "\<not> in_region y x 16384" for y using set_fld_outside [OF that] by simp
  note w = task_ring_write [OF r, of x ?m, OF _ out]
  have ring: "task_ring ?m q" by (rule w(1)) (simp_all add: q fld_field)
  have others: "fld k ?m b = fld k (tk_mem st) b" if "b \<in> set q" "b \<noteq> x" "unat k + 4 \<le> 16384" for b k
    by (rule w(2) [OF _ _ _ _ _ that]) (simp_all add: q fld_field)
  have d: "x \<notin> set xs" using ring_distinct [OF task_ringD(3) [OF r]] q by simp
  have "fld tcb_kernel_stack_pointer ?m b = fld tcb_kernel_stack_pointer (tk_mem st) b" if "b \<in> set xs" for b
    by (rule others) (use that d q in auto)
  then have "queue_of (tk_with st ?m) q = (hd q, frame) # tl (queue_of st q)" using q by (simp add: queue_of_def)
  moreover have "\<forall>b\<in>set q. fld tcb_process ?m b = fld tcb_process (tk_mem st) b
       \<and> fld tcb_n_switches ?m b = fld tcb_n_switches (tk_mem st) b"
  proof
    fix b assume "b \<in> set q"
    then show "fld tcb_process ?m b = fld tcb_process (tk_mem st) b
       \<and> fld tcb_n_switches ?m b = fld tcb_n_switches (tk_mem st) b"
      using others [of b] by (cases "b = x") (simp_all add: fld_field)
  qed
  moreover have "x \<noteq> NULL" using task_ringD(2) [OF r] q by auto
  then have "task_store (current_task st) frame st = Some (tk_with st ?m)" using c q by (simp add: task_store_def tk_set_def)
  ultimately show thesis using ring c by (intro that [of "tk_with st ?m"]) (simp_all add: tasks_inv_def)
qed

lemma tk_print_total:
  assumes "\<exists>t. f (pg_term (tk_pg st)) = Some t"
  obtains t where "tk_print f st = Some (st\<lparr>tk_pg := (tk_pg st)\<lparr>pg_term := t\<rparr>\<rparr>)"
  using assms by (auto simp: tk_print_def)

lemma switch_count:
  assumes "task_ring m q" "a \<in> set q"
  shows "task_ring (set_fld tcb_n_switches m a v) q"
    "\<And>b k. b \<in> set q \<Longrightarrow> unat k + 4 \<le> 16384 \<Longrightarrow> 4 \<le> unat (k - tcb_n_switches) \<Longrightarrow> 4 \<le> unat (tcb_n_switches - k) \<Longrightarrow>
       fld k (set_fld tcb_n_switches m a v) b = fld k m b"
proof -
  have out: "set_fld tcb_n_switches m a v y = m y" if "\<not> in_region y a 16384" for y using set_fld_outside [OF that] by simp
  note w = task_ring_write [OF assms out]
  show "task_ring (set_fld tcb_n_switches m a v) q" by (rule w(1)) (simp_all add: fld_field)
  have o: "fld k (set_fld tcb_n_switches m a v) b = fld k m b" if "b \<in> set q" "b \<noteq> a" "unat k + 4 \<le> 16384" for b k
    by (rule w(2) [OF _ _ _ _ that]) (simp_all add: fld_field)
  show "fld k (set_fld tcb_n_switches m a v) b = fld k m b"
    if "b \<in> set q" "unat k + 4 \<le> 16384" "4 \<le> unat (k - tcb_n_switches)" "4 \<le> unat (tcb_n_switches - k)" for b k
    using o [OF that(1) _ that(2)] fld_field [OF that(4,3)] by (cases "b = a") auto
qed

lemma task_ring_rotate1: "task_ring m q \<Longrightarrow> task_ring m (rotate1 q)"
  using ring_rotate1 [of "fld tcb_next m" "fld tcb_previous m" "hd q" "tl q"]
  by (cases q) (simp_all add: task_ring_def del: ring.simps)

lemma rr_schedule_Cons: "rr_schedule f (x # q) = (snd (hd (q @ [(fst x, f)])), q @ [(fst x, f)])"
  by (cases x) (simp add: Let_def)

text \<open>What the processor is given for the task it continues with.\<close>

definition runs :: "task_state \<Rightarrow> addr \<Rightarrow> bool" where
  "runs st t \<longleftrightarrow> current_task st = t \<and> tss_esp0 (tss_global (tk_gdt st)) = t + 4 * TASK_KERNEL_STACK_SIZE
     \<and> pg_cr3 (tk_pg st) = PAGE_ENTRY_ADDR (load32 (tk_mem st) (directory_at (tk_mem st)
         (fld process_page_directory (tk_mem st) (fld tcb_process (tk_mem st) t)) 1023))"

lemma schedule_message_total:
  assumes "named m (fld tcb_process m x)" "named m (fld tcb_process m y)"
  shows "\<exists>t'. schedule_message m x y t = Some t'"
proof -
  obtain t1 where t1: "print_task_name m x t = Some t1" using print_named [OF assms(1)] by blast
  obtain t2 where "print_task_name m y (print_literal '' -> '' t1) = Some t2" using print_named [OF assms(2)] by blast
  with t1 show ?thesis by (simp add: schedule_message_def)
qed

lemma schedule_step:
  assumes "tasks_inv st q"
  obtains st' where "schedule frame st = Some (fst (rr_schedule frame (queue_of st q)), st')"
    "tasks_inv st' (rotate1 q)" "queue_of st' (rotate1 q) = snd (rr_schedule frame (queue_of st q))"
    "1 < length q \<longrightarrow> runs st' (hd (rotate1 q))
       \<and> fld tcb_n_switches (tk_mem st') (hd q) = fld tcb_n_switches (tk_mem st) (hd q) + 1"
proof -
  obtain st1 where st1: "task_store (current_task st) frame st = Some st1" "tasks_inv st1 q"
    "queue_of st1 q = (hd q, frame) # tl (queue_of st q)"
    "\<forall>b\<in>set q. fld tcb_process (tk_mem st1) b = fld tcb_process (tk_mem st) b
       \<and> fld tcb_n_switches (tk_mem st1) b = fld tcb_n_switches (tk_mem st) b"
    by (rule task_store_step [OF assms, of frame]) blast
  have r1: "task_ring (tk_mem st1) q" and c1: "current_task st1 = hd q" using st1(2) by (simp_all add: tasks_inv_def)
  obtain x xs where q: "q = x # xs" using task_ringD(1) [OF r1] by (cases q) auto
  have c: "current_task st = x" using assms q by (simp add: tasks_inv_def)
  have "x \<noteq> NULL" using task_ringD(2) [OF r1] q by auto
  have nxt: "task_next st1 = hd (xs @ [x])"
    using ring_first(1) [OF task_ringD(3) [OF r1, unfolded q]] c1 q by (simp add: task_next_def)
  have qst: "queue_of st q = (x, fld tcb_kernel_stack_pointer (tk_mem st) x) # queue_of st xs" using q by (simp add: queue_of_def)
  have st1q: "queue_of st1 xs = queue_of st xs" "fld tcb_kernel_stack_pointer (tk_mem st1) x = frame"
    using st1(3) qst q by (simp_all add: queue_of_def)
  have start: "schedule frame st = (if hd (xs @ [x]) = x then Some (frame, st1) else
      (case tk_print (schedule_message (tk_mem st1) x (hd (xs @ [x]))) st1 of None \<Rightarrow> None
       | Some st2 \<Rightarrow> Some (schedule_switch (hd (xs @ [x])) st2)))"
    using \<open>x \<noteq> NULL\<close> st1(1) nxt c c1 q by (simp add: schedule_def Let_def)
  show thesis
  proof (cases xs)
    case Nil
    then show thesis using start st1 st1q q qst by (intro that [of st1]) (simp_all add: queue_of_def)
  next
    case (Cons y ys)
    then have xy: "y \<noteq> x" "y \<in> set q" "x \<in> set q" using ring_distinct [OF task_ringD(3) [OF r1]] q by auto
    have "\<exists>t'. schedule_message (tk_mem st1) x y t = Some t'" for t
      by (rule schedule_message_total) (rule task_ringD(5) [OF r1 xy(3)], rule task_ringD(5) [OF r1 xy(2)])
    then obtain t where t: "tk_print (schedule_message (tk_mem st1) x y) st1 = Some (st1\<lparr>tk_pg := (tk_pg st1)\<lparr>pg_term := t\<rparr>\<rparr>)"
      using tk_print_total by metis
    define m where "m = set_fld tcb_n_switches (tk_mem st1) x (fld tcb_n_switches (tk_mem st1) x + 1)"
    have rm: "task_ring m q" unfolding m_def by (rule switch_count(1) [OF r1 xy(3)])
    have fm: "fld k m b = fld k (tk_mem st1) b" if "b \<in> set q" "k = tcb_kernel_stack_pointer \<or> k = tcb_process" for b k
      unfolding m_def by (rule switch_count(2) [OF r1 xy(3) that(1)]) (use that(2) in auto)
    obtain st' where "schedule_switch y (st1\<lparr>tk_pg := (tk_pg st1)\<lparr>pg_term := t\<rparr>\<rparr>) = (fld tcb_kernel_stack_pointer m y, st')"
      "tk_mem st' = m" "runs st' y"
      using c1 q by (simp add: schedule_switch_def m_def tk_set_def tk_with_def runs_def tss_set_kernel_stack_def Let_def)
    then have st': "schedule frame st = Some (fld tcb_kernel_stack_pointer m y, st')" "tk_mem st' = m" "runs st' y"
      using start t Cons xy by simp_all
    have "queue_of st' xs = queue_of st xs"
      unfolding st1q(1) [symmetric] using fm q st'(2) by (simp add: queue_of_def)
    moreover have "queue_of st' [x] = [(x, frame)]" using fm [OF xy(3)] st'(2) st1q(2) by (simp add: queue_of_def)
    ultimately have qs: "queue_of st' (rotate1 q) = snd (rr_schedule frame (queue_of st q))"
      using q qst by (simp add: queue_of_def rr_schedule_Cons)
    have "fst (rr_schedule frame (queue_of st q)) = snd (hd (queue_of st xs))"
      unfolding qst rr_schedule_Cons using Cons by (simp add: queue_of_def)
    also have "\<dots> = fld tcb_kernel_stack_pointer m y"
      unfolding st1q(1) [symmetric] using fm xy(2) Cons by (simp add: queue_of_def)
    finally have ret: "schedule frame st = Some (fst (rr_schedule frame (queue_of st q)), st')" using st'(1) by simp
    have "fld tcb_n_switches m x = fld tcb_n_switches (tk_mem st) x + 1" using st1(4) xy(3) by (simp add: m_def)
    then show thesis using ret qs st'(2,3) task_ring_rotate1 [OF rm] q Cons
      by (intro that [of st']) (simp_all add: tasks_inv_def runs_def)
  qed
qed

text \<open>Timer interrupts one after the other, each with the frame the processor pushed.\<close>

fun schedule_run :: "addr list \<Rightarrow> task_state \<Rightarrow> (addr list \<times> task_state) option" where
  "schedule_run [] st = Some ([], st)"
| "schedule_run (f # fs) st =
     (case schedule f st of None \<Rightarrow> None
      | Some (r, st1) \<Rightarrow> (case schedule_run fs st1 of None \<Rightarrow> None | Some (rs, st2) \<Rightarrow> Some (r # rs, st2)))"

fun rr_run :: "addr list \<Rightarrow> (addr \<times> addr) list \<Rightarrow> addr list \<times> (addr \<times> addr) list" where
  "rr_run [] Q = ([], Q)"
| "rr_run (f # fs) Q = (let (r, Q1) = rr_schedule f Q; (rs, Q2) = rr_run fs Q1 in (r # rs, Q2))"

lemma rr_run_round:
  "length fs = length A \<Longrightarrow> rr_run fs (A @ B) =
     (take (length fs) (map snd (tl (A @ B @ zip (map fst A) fs))), B @ zip (map fst A) fs)"
proof (induction A arbitrary: fs B)
  case (Cons a A)
  obtain f fs' where f: "fs = f # fs'" "length fs' = length A" using Cons.prems by (cases fs) auto
  define Z where "Z = zip (map fst A) fs'"
  obtain l L where L: "A @ B @ [(fst a, f)] = l # L" by (cases "A @ B @ [(fst a, f)]") auto
  have full: "A @ B @ (fst a, f) # Z = l # L @ Z" using arg_cong [OF L, of "\<lambda>x. x @ Z"] by simp
  have step: "rr_schedule f (a # A @ B) = (snd l, l # L)" using L by (simp add: rr_schedule_Cons)
  have "rr_run fs' (l # L) = (take (length fs') (map snd (L @ Z)), B @ (fst a, f) # Z)"
    using Cons.IH [OF f(2), of "B @ [(fst a, f)]"] L full unfolding Z_def [symmetric] by simp
  then have "rr_run fs ((a # A) @ B) = (take (Suc (length fs')) (map snd (l # L @ Z)), B @ (fst a, f) # Z)"
    using step f(1) by simp
  then show ?case unfolding full [symmetric] using f(1) by (simp add: Z_def)
qed simp

lemma schedule_run_refines:
  assumes "tasks_inv st q"
  shows "\<exists>st'. schedule_run fs st = Some (fst (rr_run fs (queue_of st q)), st')
     \<and> tasks_inv st' (rotate (length fs) q) \<and> queue_of st' (rotate (length fs) q) = snd (rr_run fs (queue_of st q))"
  using assms
proof (induction fs arbitrary: st q)
  case (Cons f fs)
  obtain st1 where st1: "schedule f st = Some (fst (rr_schedule f (queue_of st q)), st1)"
    "tasks_inv st1 (rotate1 q)" "queue_of st1 (rotate1 q) = snd (rr_schedule f (queue_of st q))"
    by (rule schedule_step [OF Cons.prems, of f]) blast
  from Cons.IH [OF st1(2)] obtain st2 where "schedule_run fs st1 = Some (fst (rr_run fs (queue_of st1 (rotate1 q))), st2)"
    "tasks_inv st2 (rotate (length fs) (rotate1 q))"
    "queue_of st2 (rotate (length fs) (rotate1 q)) = snd (rr_run fs (queue_of st1 (rotate1 q)))" by blast
  then show ?case using st1 by (simp add: rotate1_rotate_swap split_beta)
qed simp

text \<open>
  C6: the scheduler is round robin. From every well-formed ring of tasks \<open>schedule\<close> returns, saves the
  interrupted frame with the current task, moves that task to the end of the queue and answers with the frame
  of the task that is now first; if there is another task, the processor gets that task's kernel stack and
  page directory and the switch is counted.
\<close>

theorem schedule_round_robin:
  assumes "tasks_inv st q"
  shows "\<exists>st'. schedule frame st = Some (fst (rr_schedule frame (queue_of st q)), st')
     \<and> tasks_inv st' (rotate1 q) \<and> queue_of st' (rotate1 q) = snd (rr_schedule frame (queue_of st q))
     \<and> (1 < length q \<longrightarrow> runs st' (hd (rotate1 q))
          \<and> fld tcb_n_switches (tk_mem st') (hd q) = fld tcb_n_switches (tk_mem st) (hd q) + 1)"
  by (rule schedule_step [OF assms]) blast

text \<open>
  C17: no task starves and none loses its state. After as many timer interrupts as there are tasks each task
  has run once, in the order of the ring; the last call answers with the frame the first one was given; and
  the queue is the one of the start, with the frame each task was interrupted with.
\<close>

theorem schedule_fair:
  assumes "tasks_inv st q" "length frames = length q"
  shows "\<exists>st'. schedule_run frames st = Some (map snd (tl (queue_of st q)) @ [hd frames], st')
     \<and> tasks_inv st' q \<and> queue_of st' q = zip q frames"
proof -
  have len: "length frames = length (queue_of st q)" using assms(2) by (simp add: queue_of_def)
  have "q \<noteq> []" using assms(1) task_ringD(1) by (auto simp: tasks_inv_def)
  then obtain x Q f fs where Q: "queue_of st q = x # Q" "frames = f # fs"
    using assms(2) by (cases q; cases frames) (auto simp: queue_of_def)
  have "take (Suc (length fs)) (map snd (Q @ (fst x, f) # zip (map fst Q) fs)) = map snd Q @ [f]"
    using len Q by simp
  then have "rr_run frames (queue_of st q) = (map snd (tl (queue_of st q)) @ [hd frames], zip (map fst (queue_of st q)) frames)"
    using rr_run_round [OF len, of "[]"] Q by simp
  moreover have "map fst (queue_of st q) = q" by (simp add: queue_of_def comp_def)
  ultimately show ?thesis using schedule_run_refines [OF assms(1), of frames] assms(2) by simp
qed

section \<open>New tasks\<close>

text \<open>The frame from which a new task starts, as \<open>iret\<close> will find it; only user tasks have the last two words.\<close>

definition start_frame :: "bool \<Rightarrow> u32 \<Rightarrow> u32 \<Rightarrow> u32 list" where
  "start_frame privileged entry_point esp =
     (let cs = (if privileged then 0x08 else 0x1B); ss = (if privileged then 0x10 else 0x23)
      in [ss, ss, ss, ss, 0, 0, 0, esp, 0, 0, 0, 0xDEADC0DE, 0xDEADC0DE, 0xDEADC0DE, entry_point, cs, 0x202]
         @ (if privileged then [] else [esp, ss]))"

definition start_stack :: "addr \<Rightarrow> bool \<Rightarrow> addr" where
  "start_stack task privileged = task + (if privileged then 16384 - 68 else 16384 - 76)"

lemma new_tcb_field:
  assumes "i < 23" "k = word_of_nat (4 * i)"
  shows "fld k (store_words m task (new_tcb task process privileged entry_point esp)) task
    = new_tcb task process privileged entry_point esp ! i"
proof -
  have "length (new_tcb task process privileged entry_point esp) = 23" by (simp add: new_tcb_def Let_def)
  then show ?thesis
    using load_store_words [of i "new_tcb task process privileged entry_point esp" m task] assms
    by (simp add: fld_def)
qed

lemma new_stack:
  fixes m :: mem and task process :: addr and privileged :: bool and entry_point esp :: u32
  defines "m2 \<equiv> store_words m task (new_tcb task process privileged entry_point esp)"
  defines "m3 \<equiv> task_push_state_to_kstack task m2"
  shows "\<And>x. \<not> in_region x task 16384 \<Longrightarrow> m3 x = m x" "fld tcb_process m3 task = process"
    "fld tcb_kernel_stack_pointer m3 task = start_stack task privileged"
    "\<And>i. i < length (start_frame privileged entry_point esp) \<Longrightarrow>
       load32 m3 (start_stack task privileged + 4 * word_of_nat i) = start_frame privileged entry_point esp ! i"
proof -
  let ?F = "start_frame privileged entry_point esp" and ?s = "start_stack task privileged"
  have top: "4 * TASK_KERNEL_STACK_SIZE = 16384" by (simp add: TASK_KERNEL_STACK_SIZE_def)
  note f = new_tcb_field [of _ _ m task process privileged entry_point esp, folded m2_def]
  have fs: "fld tcb_gs m2 task = (if privileged then 0x10 else 0x23)" "fld tcb_fs m2 task = (if privileged then 0x10 else 0x23)"
    "fld tcb_es m2 task = (if privileged then 0x10 else 0x23)" "fld tcb_ds m2 task = (if privileged then 0x10 else 0x23)"
    "fld tcb_cs m2 task = (if privileged then 0x08 else 0x1B)" "fld tcb_ss m2 task = (if privileged then 0x10 else 0x23)"
    "fld tcb_eflags m2 task = 0x202" "fld tcb_eip m2 task = entry_point" "fld tcb_edi m2 task = 0" "fld tcb_esi m2 task = 0"
    "fld tcb_ebp m2 task = 0" "fld tcb_esp m2 task = esp" "fld tcb_ebx m2 task = 0" "fld tcb_edx m2 task = 0"
    "fld tcb_ecx m2 task = 0" "fld tcb_eax m2 task = 0xDEADC0DE" "fld tcb_process m2 task = process"
    "fld tcb_kernel_stack_pointer m2 task = task + 16384"
    using f [of 0 0] f [of 1 4] f [of 2 8] f [of 3 12] f [of 4 16] f [of 5 20] f [of 6 24] f [of 7 28] f [of 8 32]
      f [of 9 36] f [of 10 40] f [of 11 44] f [of 12 48] f [of 13 52] f [of 14 56] f [of 15 60] f [of 19 76] f [of 20 80]
    by (simp_all add: new_tcb_def Let_def top GDT_KERNEL_CODE_SEGMENT_SELECTOR_def GDT_USER_CODE_SEGMENT_SELECTOR_def
        GDT_KERNEL_DATA_SEGMENT_SELECTOR_def GDT_USER_DATA_SEGMENT_SELECTOR_def)
  define n where "n = (if privileged then 17 else 19 :: nat)"
  define m2a where "m2a = set_fld tcb_kernel_stack_pointer m2 task ?s"
  have len: "length ?F = n" by (simp add: n_def start_frame_def Let_def)
  have "take n (interrupt_frame_of m2 task) = ?F"
    by (simp add: interrupt_frame_of_def fs start_frame_def Let_def n_def)
  then have bytes: "take (4 * n) (words_bytes (interrupt_frame_of m2 task)) = words_bytes ?F" by (simp only: take_words_bytes)
  have sz: "(if fld tcb_cs m2 task AND 3 \<noteq> 0 then sizeof_interrupt_frame else sizeof_interrupt_frame_kernel) = word_of_nat (4 * n)"
    by (simp add: fs n_def sizeof_interrupt_frame_def sizeof_interrupt_frame_kernel_def)
  have "task + 16384 - word_of_nat (4 * n) = ?s" by (simp add: start_stack_def n_def)
  then have "m3 = write_bytes m2a ?s (words_bytes ?F)"
    unfolding m3_def task_push_state_to_kstack_def task_push_data_to_kstack_def Let_def sz
    using bytes by (simp add: fs m2a_def unat_word_of_nat_lt n_def split: if_splits)
  then have m3: "m3 = store_words m2a ?s ?F" using write_words [of ?F m2a ?s] len by (simp add: n_def)
  have stack: "in_region x task 16384" if "in_region x ?s (4 * n)" for x
    using field_region [OF that [unfolded start_stack_def], of 16384] by (simp add: n_def split: if_splits)
  have low: "\<not> in_region x ?s (4 * n)" if "in_region x task 92" for x
  proof (rule regions_disjointD [OF _ that])
    show "regions_disjoint task 92 ?s (4 * n)" by (simp add: regions_disjoint_def start_stack_def n_def)
  qed
  have keep: "m3 x = m2a x" if "\<not> in_region x ?s (4 * n)" for x
    unfolding m3 using store_words_outside [of x ?s ?F m2a] that len by (simp add: n_def)
  have low_field: "fld k m3 task = fld k m2a task" if "unat k + 4 \<le> 92" for k
    by (rule fld_cong [of _ 92]) (use keep low that in auto)
  show "fld tcb_process m3 task = process" "fld tcb_kernel_stack_pointer m3 task = ?s"
    by (simp_all add: low_field m2a_def fld_field fs)
  show "load32 m3 (?s + 4 * word_of_nat i) = ?F ! i" if "i < length ?F" for i
    unfolding m3 using load_store_words that len by (simp add: n_def split: if_splits)
  have l2: "length (new_tcb task process privileged entry_point esp) = 23" by (simp add: new_tcb_def Let_def)
  show "m3 x = m x" if "\<not> in_region x task 16384" for x
  proof -
    have "m2a x = m2 x" unfolding m2a_def by (rule set_fld_outside [OF that]) simp_all
    moreover have "m2 x = m x"
      unfolding m2_def by (rule store_words_outside) (use that in_region_mono [of x task 92 16384] l2 in auto)
    ultimately show ?thesis using keep stack that by metis
  qed
qed

lemma set_fld_in:
  assumes "\<And>a b. a \<in> N \<Longrightarrow> b \<in> N \<Longrightarrow> a \<noteq> b \<Longrightarrow> regions_disjoint a n b n" "a \<in> N" "b \<in> N" "n \<le> 2 ^ 32"
    and "4 \<le> unat (j - k)" "4 \<le> unat (k - j)" "unat j + 4 \<le> n" "unat k + 4 \<le> n"
  shows "fld k (set_fld j m a v) b = fld k m b"
  using fld_field [OF assms(5,6)] fld_other [OF assms(1) [OF assms(2,3)] assms(7,8,4,4)] by (cases "a = b") auto

lemma list_link:
  assumes r: "task_ring m q" and t: "t \<notin> set q" "t \<noteq> NULL" and p: "named m (fld tcb_process m t)"
    and td: "\<And>a. a \<in> set q \<Longrightarrow> regions_disjoint t 16384 a 16384"
    and pd: "\<And>a. a \<in> set (t # q) \<Longrightarrow> regions_disjoint (fld tcb_process m t) 284 a 16384"
      "\<And>a. a \<in> set q \<Longrightarrow> regions_disjoint (fld tcb_process m a) 284 t 16384"
  defines "m' \<equiv> task_list_link (hd q) t m"
  shows "task_ring m' (hd q # t # tl q)"
    "\<And>b k. b \<in> set (t # q) \<Longrightarrow> unat k \<le> 80 \<Longrightarrow> fld k m' b = fld k m b"
    "\<And>x. (\<And>b. b \<in> set (t # q) \<Longrightarrow> \<not> in_region x b 92) \<Longrightarrow> m' x = m x"
proof -
  obtain c xs where q: "q = c # xs" using task_ringD(1) [OF r] by (cases q) auto
  define N where "N = set (t # c # xs)"
  have N: "t \<in> N" "c \<in> N" "set q = N - {t}" "set (t # q) = N" using t q by (auto simp: N_def)
  have sep: "regions_disjoint a 16384 b 16384" if "a \<in> N" "b \<in> N" "a \<noteq> b" for a b
    using that task_ringD(4) [OF r] td regions_disjoint_sym N(3) by (metis DiffI singletonD)
  define m1 where "m1 = set_fld tcb_previous m t c"
  define m3 where "m3 = set_fld tcb_next (set_fld tcb_next m1 t (fld tcb_next m1 c)) c t"
  define y where "y = hd (xs @ [c])"
  have yN: "y \<in> N" using hd_in_set [of "xs @ [c]"] by (auto simp: y_def N_def)
  have ins: "ring (fld tcb_next m') (fld tcb_previous m') (c # t # xs)" "fld tcb_next m3 t = y"
    using tl.insert_after [OF task_ringD(3) [OF r, unfolded q], of t] t q sep [unfolded N_def]
    unfolding m'_def task_list_link_def Let_def m3_def m1_def y_def by (simp_all del: ring.simps)
  have m': "m' = set_fld tcb_previous m3 y t" using ins(2) q by (simp add: m'_def task_list_link_def Let_def m3_def m1_def)
  show fk: "fld k m' b = fld k m b" if "b \<in> set (t # q)" "unat k \<le> 80" for b k
  proof -
    have k: "4 \<le> unat (j - k)" "4 \<le> unat (k - j)" "unat k + 4 \<le> 16384" if "j = 84 \<or> j = 88" for j
      using that \<open>unat k \<le> 80\<close> by (auto simp: unat_sub_if_size word_le_nat_alt word_size)
    have s: "fld k (set_fld j g a v) b = fld k g b" if "j = 84 \<or> j = 88" "a \<in> N" for g j a v
      by (rule set_fld_in [OF sep that(2)]) (use \<open>b \<in> set (t # q)\<close> N k [OF that(1)] that(1) in auto)
    show ?thesis using N yN unfolding m' m3_def m1_def by (simp add: s)
  qed
  show out: "m' x = m x" if "\<And>b. b \<in> set (t # q) \<Longrightarrow> \<not> in_region x b 92" for x
    unfolding m' m3_def m1_def using that [of t] that [of c] that [of y] N yN
    by (simp add: set_fld_outside [of x _ 92])
  have pf: "fld tcb_process m' b = fld tcb_process m b" if "b \<in> N" for b
    by (rule fk) (use that N(4) in auto)
  have apart: "regions_disjoint (fld tcb_process m a) 284 b 16384" if "a \<in> N" "b \<in> N" for a b
    using that task_ringD(6) [OF r] pd N by (metis DiffI singletonD)
  have "m' x = m x" if "a \<in> N" "in_region x (fld tcb_process m a) 284" for a x
    by (rule out) (use regions_disjointD [OF apart [OF that(1)] that(2)] in_region_mono [of x _ 92 16384] N(4) in auto)
  moreover have "named m (fld tcb_process m a)" if "a \<in> N" for a using that p task_ringD(5) [OF r] N by blast
  ultimately have nm: "named m' (fld tcb_process m a)" if "a \<in> N" for a using named_cong that by blast
  have "NULL \<notin> N" using t(2) task_ringD(2) [OF r] q by (auto simp: N_def)
  moreover have "set (c # t # xs) = N" by (auto simp: N_def)
  ultimately show "task_ring m' (hd q # t # tl q)"
    using ins(1) sep apart nm pf unfolding task_ring_def q list.sel by (simp del: ring.simps set_simps)
qed

lemma print_tasks_loop_total:
  assumes "segment (fld tcb_next m) pv a xs b" "b \<notin> set xs" "\<And>x. x \<in> set (a # xs) \<Longrightarrow> named m (fld tcb_process m x)"
  shows "\<exists>t'. print_tasks_loop m b a t = Some t'"
  using assms
proof (induction xs arbitrary: a t)
  case Nil
  obtain t1 where "print_task_name m a t = Some t1" using print_named Nil.prems(3) [of a] by fastforce
  then show ?case using Nil.prems(1) by (subst print_tasks_loop.simps) simp
next
  case (Cons x xs)
  obtain t1 where t1: "print_task_name m a t = Some t1" using print_named Cons.prems(3) [of a] by fastforce
  have "\<exists>t'. print_tasks_loop m b x (print_literal [CHR 0x0A] t1) = Some t'"
    by (rule Cons.IH) (use Cons.prems in auto)
  then show ?case using Cons.prems t1 by (subst print_tasks_loop.simps) auto
qed

lemma print_tasks_total:
  assumes "task_ring m (c # xs)"
  shows "\<exists>t'. print_tasks m c t = Some t'"
proof -
  have r: "segment (fld tcb_next m) (fld tcb_previous m) c xs c" "c \<notin> set xs" using task_ringD(3) [OF assms] by auto
  from print_tasks_loop_total [OF r task_ringD(5) [OF assms]] show ?thesis by (auto simp: print_tasks_def split: option.splits)
qed

lemma list_insert_total:
  assumes "tasks_inv st q" "task_ring (task_list_link (hd q) t (tk_mem st)) (hd q # t # tl q)"
  obtains tm st1 where "st1 = tk_with st (task_list_link (hd q) t (tk_mem st))"
    "task_list_insert t st = Some (t, st1\<lparr>tk_pg := (tk_pg st1)\<lparr>pg_term := tm\<rparr>\<rparr>)"
proof -
  define m where "m = task_list_link (hd q) t (tk_mem st)"
  have c: "current_task st = hd q" using assms(1) by (simp add: tasks_inv_def)
  note r = assms(2) [folded m_def]
  have "\<exists>t'. insert_message m (hd q) t tm = Some t'" for tm
  proof -
    obtain t1 where t1: "print_task_name m (hd q) tm = Some t1" using print_named [OF task_ringD(5) [OF r]] by fastforce
    obtain t2 where t2: "print_task_name m t (print_literal [CHR 0x0A] t1) = Some t2"
      using print_named [OF task_ringD(5) [OF r]] by fastforce
    from print_tasks_total [OF r, of t2] t1 t2 show ?thesis by (simp add: insert_message_def)
  qed
  then obtain tm where "tk_print (insert_message m (hd q) t) (tk_with st m) = Some ((tk_with st m)\<lparr>tk_pg := (tk_pg (tk_with st m))\<lparr>pg_term := tm\<rparr>\<rparr>)"
    using tk_print_total by metis
  then show thesis using c by (intro that [of "tk_with st m" tm]) (simp_all add: task_list_insert_def m_def Let_def)
qed

text \<open>What the heap and the tasks have to be like for a new task.\<close>

definition tasks_held :: "task_state \<Rightarrow> (addr \<rightharpoonup> nat) \<Rightarrow> addr list \<Rightarrow> nat \<Rightarrow> bool" where
  "tasks_held st P q k \<longleftrightarrow> (let s = pg_ks (tk_pg st) in
     tasks_inv st q \<and> kheap_inv s P \<and> kheap_room s k
     \<and> (\<forall>a\<in>set q. held s P a 16384 \<and> held s P (fld tcb_process (tk_mem st) a) 284))"

definition can_own_task :: "task_state \<Rightarrow> (addr \<rightharpoonup> nat) \<Rightarrow> addr list \<Rightarrow> addr \<Rightarrow> bool" where
  "can_own_task st P q p \<longleftrightarrow> held (pg_ks (tk_pg st)) P p 284 \<and> named (tk_mem st) p
     \<and> (\<forall>a\<in>set q. regions_disjoint p 284 a 16384)"

lemma start_frame_place:
  assumes "i < (if privileged then 17 else 19)" "in_region x (start_stack task privileged + 4 * word_of_nat i) 4"
  shows "in_region x task 16384" "\<not> in_region x task 92"
proof -
  define k where "k = (if privileged then 16316 else 16308) + 4 * i"
  have k: "16308 \<le> k" "k + 4 \<le> 16384" using assms(1) by (simp_all add: k_def split: if_splits)
  have "start_stack task privileged + 4 * word_of_nat i = task + word_of_nat k" by (simp add: start_stack_def k_def)
  then have x: "in_region x (task + word_of_nat k) 4" using assms(2) by simp
  have u: "unat (word_of_nat k :: u32) = k" using k by (simp add: unat_word_of_nat_lt)
  show "in_region x task 16384" by (rule field_region [OF x]) (use k u in simp_all)
  obtain j where "j < 4" "x = task + word_of_nat k + word_of_nat j" using in_region_exists [OF x] .
  then have "x = task + word_of_nat (k + j)" "k + j < 2 ^ 32" using k by simp_all
  then show "\<not> in_region x task 92" using k in_region_nth [of "k + j" task 92] by (simp del: of_nat_add)
qed

lemma start_frame_kept:
  assumes td: "\<And>a. a \<in> set q \<Longrightarrow> regions_disjoint task 16384 a 16384"
    and l: "\<And>x. (\<And>b. b \<in> set (task # q) \<Longrightarrow> \<not> in_region x b 92) \<Longrightarrow> m' x = m x"
    and i: "i < length (start_frame privileged entry_point esp)"
  shows "load32 m' (start_stack task privileged + 4 * word_of_nat i) = load32 m (start_stack task privileged + 4 * word_of_nat i)"
proof (rule load32_cong, rule l)
  fix x a assume x: "in_region x (start_stack task privileged + 4 * word_of_nat i) 4" and a: "a \<in> set (task # q)"
  have "i < (if privileged then 17 else 19)" using i by (simp add: start_frame_def Let_def split: if_splits)
  note high = start_frame_place [OF this x]
  show "\<not> in_region x a 92"
  proof (cases "a = task")
    case False
    then have "regions_disjoint task 16384 a 16384" using a td by simp
    then have "\<not> in_region x a 16384" using regions_disjointD [OF _ high(1)] by blast
    then show ?thesis using in_region_mono [of x a 92 16384] by auto
  qed (use high(2) in simp)
qed

text \<open>The stores of \<open>task_new\<close>, from the control block to the links of the task list.\<close>

lemma place_task:
  fixes m :: mem and task process :: addr and privileged :: bool and entry_point esp :: u32
  assumes r: "task_ring m q" and task: "task \<noteq> NULL" and nm: "named m process"
    and td: "\<And>a. a \<in> set q \<Longrightarrow> regions_disjoint task 16384 a 16384"
    and pd: "\<And>a. a \<in> set (task # q) \<Longrightarrow> regions_disjoint process 284 a 16384"
    and od: "\<And>a. a \<in> set q \<Longrightarrow> regions_disjoint (fld tcb_process m a) 284 task 16384"
  defines "m3 \<equiv> task_push_state_to_kstack task (store_words m task (new_tcb task process privileged entry_point esp))"
  defines "m4 \<equiv> task_list_link (hd q) task m3"
  shows "task_ring m3 q" "task_ring m4 (hd q # task # tl q)"
    "fld tcb_process m4 task = process" "fld tcb_kernel_stack_pointer m4 task = start_stack task privileged"
    "\<And>i. i < length (start_frame privileged entry_point esp) \<Longrightarrow>
       load32 m4 (start_stack task privileged + 4 * word_of_nat i) = start_frame privileged entry_point esp ! i"
    "\<And>a j. a \<in> set q \<Longrightarrow> unat j \<le> 80 \<Longrightarrow> fld j m4 a = fld j m a"
    "\<And>x. \<not> in_region x task 16384 \<Longrightarrow> (\<And>b. b \<in> set q \<Longrightarrow> \<not> in_region x b 92) \<Longrightarrow> m4 x = m x"
proof -
  note n = new_stack [where task = task and m = m and process = process and privileged = privileged
      and entry_point = entry_point and esp = esp, folded m3_def]
  have keep: "m3 x = m x" if "regions_disjoint p j task 16384" "in_region x p j" for p j x
    by (rule n(1)) (rule regions_disjointD [OF that])
  have sym: "regions_disjoint a 16384 task 16384" if "a \<in> set q" for a
    using td [OF that] regions_disjoint_sym by blast
  have kt: "m3 x = m x" if "a \<in> set q" "in_region x a 16384" for a x by (rule keep [OF sym]) (rule that)+
  have kp: "m3 x = m x" if "a \<in> set q" "in_region x (fld tcb_process m a) 284" for a x by (rule keep [OF od]) (rule that)+
  show r3: "task_ring m3 q" by (rule task_ring_cong [OF r]; use kt kp in blast)
  have f3: "\<And>a j. a \<in> set q \<Longrightarrow> unat j + 4 \<le> 16384 \<Longrightarrow> fld j m3 a = fld j m a"
    by (rule task_ring_cong [OF r]; use kt kp in blast)
  have tq: "task \<notin> set q" using td [of task] by (auto simp: regions_disjoint_def)
  have nm3: "named m3 process" by (rule named_cong [OF nm]) (rule keep, use pd in auto)
  have pd3: "regions_disjoint (fld tcb_process m3 task) 284 a 16384" if "a \<in> set (task # q)" for a
    using pd that n(2) by simp
  have od3: "regions_disjoint (fld tcb_process m3 a) 284 task 16384" if "a \<in> set q" for a
    using od [OF that] f3 [OF that, of tcb_process] by simp
  note l0 = list_link [OF r3 tq task _ td pd3 od3, folded m4_def, unfolded n(2), OF nm3]
  have l: "\<And>b k. b \<in> set (task # q) \<Longrightarrow> unat k \<le> 80 \<Longrightarrow> fld k m4 b = fld k m3 b"
    "\<And>x. (\<And>b. b \<in> set (task # q) \<Longrightarrow> \<not> in_region x b 92) \<Longrightarrow> m4 x = m3 x"
    by (rule l0; assumption)+
  show "task_ring m4 (hd q # task # tl q)" by (rule l0; assumption)
  show "fld tcb_process m4 task = process" "fld tcb_kernel_stack_pointer m4 task = start_stack task privileged"
    using l(1) [of task] n(2,3) by simp_all
  show "load32 m4 (start_stack task privileged + 4 * word_of_nat i) = start_frame privileged entry_point esp ! i"
    if "i < length (start_frame privileged entry_point esp)" for i
    using start_frame_kept [OF td l(2) that] n(4) [OF that] by simp
  show "fld j m4 a = fld j m a" if "a \<in> set q" "unat j \<le> 80" for a j
    using l(1) [of a j] f3 [OF that(1), of j] that by simp
  show "m4 x = m x" if "\<not> in_region x task 16384" "\<And>b. b \<in> set q \<Longrightarrow> \<not> in_region x b 92" for x
    using l(2) [of x] n(1) [OF that(1)] that in_region_mono [of x task 92 16384] by auto
qed

lemma new_task:
  assumes th: "tasks_held st P q (4 + k)" and own: "can_own_task st P q process"
  obtains task st' where "task_new process privileged entry_point esp st = Some (task, st')"
    "task \<noteq> NULL" "task \<notin> set q" "P task = None" "tasks_held st' (P(task \<mapsto> 16384)) (hd q # task # tl q) k"
    "fld tcb_process (tk_mem st') task = process" "fld tcb_kernel_stack_pointer (tk_mem st') task = start_stack task privileged"
    "\<forall>i<length (start_frame privileged entry_point esp).
       load32 (tk_mem st') (start_stack task privileged + 4 * word_of_nat i) = start_frame privileged entry_point esp ! i"
    "\<forall>a\<in>set q. \<forall>j. unat j \<le> 80 \<longrightarrow> fld j (tk_mem st') a = fld j (tk_mem st) a"
    "\<forall>p n x. held (pg_ks (tk_pg st)) P p n \<longrightarrow> (\<forall>a\<in>set q. regions_disjoint p n a 92) \<longrightarrow> in_region x p n \<longrightarrow> tk_mem st' x = tk_mem st x"
    "current_process st' = current_process st" "processes st' = processes st" "tk_gdt st' = tk_gdt st"
    "\<forall>p n. held (pg_ks (tk_pg st)) P p n \<longrightarrow> held (pg_ks (tk_pg st')) (P(task \<mapsto> 16384)) p n \<and> (0 < n \<longrightarrow> regions_disjoint task 16384 p n)"
    "tk_pg st' = (tk_pg st)\<lparr>pg_ks := pg_ks (tk_pg st'), pg_term := pg_term (tk_pg st')\<rparr>"
proof -
  let ?s = "pg_ks (tk_pg st)" and ?m = "tk_mem st"
  have nb: "nblocks sizeof_task = 4" "0 < sizeof_task" by (simp_all add: sizeof_task_def TASK_KERNEL_STACK_SIZE_def)
  have ti: "tasks_inv st q" and heap: "kheap_inv ?s P" "kheap_room ?s (nblocks sizeof_task + k)"
    and hq: "\<And>a. a \<in> set q \<Longrightarrow> held ?s P a 16384" "\<And>a. a \<in> set q \<Longrightarrow> held ?s P (fld tcb_process ?m a) 284"
    using th nb by (simp_all add: tasks_held_def Let_def)
  have r: "task_ring ?m q" and c: "current_task st = hd q" using ti by (simp_all add: tasks_inv_def)
  obtain task ks where ks: "kzalloc ?s sizeof_task = Some (task, ks)" "task \<noteq> NULL" "P task = None"
    "kheap_inv ks (P(task \<mapsto> 16384))" "kheap_room ks k"
    "\<forall>p n. held ?s P p n \<longrightarrow> held ks (P(task \<mapsto> 16384)) p n \<and> (0 < n \<longrightarrow> regions_disjoint task 16384 p n)
       \<and> (\<forall>a. in_region a p n \<longrightarrow> ks_mem ks a = ?m a)"
    by (rule held_region [OF heap nb(2)]) (simp add: nb del: fun_upd_apply)
  let ?P = "P(task \<mapsto> 16384)" and ?m3 = "task_push_state_to_kstack task (store_words (ks_mem ks) task (new_tcb task process privileged entry_point esp))"
  define m4 where "m4 = task_list_link (hd q) task ?m3"
  have op: "held ?s P process 284" "named ?m process" "\<And>a. a \<in> set q \<Longrightarrow> regions_disjoint process 284 a 16384"
    using own by (auto simp: can_own_task_def)
  have keep: "ks_mem ks x = ?m x" if "held ?s P p j" "in_region x p j" for p j x using ks(6) that by blast
  have td: "regions_disjoint task 16384 a 16384" if "a \<in> set q" for a using ks(6) hq(1) [OF that] by simp
  have tq: "task \<notin> set q" using td [of task] by (auto simp: regions_disjoint_def)
  have ptask: "regions_disjoint p 284 task 16384" if "held ?s P p 284" for p
    using ks(6) that regions_disjoint_sym zero_less_numeral by metis
  have r0: "task_ring (ks_mem ks) q" "\<And>a j. a \<in> set q \<Longrightarrow> unat j + 4 \<le> 16384 \<Longrightarrow> fld j (ks_mem ks) a = fld j ?m a"
    by (rule task_ring_cong [OF r]; use keep hq in blast)+
  have pf: "fld tcb_process (ks_mem ks) a = fld tcb_process ?m a" if "a \<in> set q" for a using r0(2) [OF that] by simp
  have nm: "named (ks_mem ks) process" by (rule named_cong [OF op(2)]) (rule keep [OF op(1)])
  have pd: "regions_disjoint process 284 a 16384" if "a \<in> set (task # q)" for a using that op ptask by auto
  have od: "regions_disjoint (fld tcb_process (ks_mem ks) a) 284 task 16384" if "a \<in> set q" for a
    using ptask [OF hq(2) [OF that]] pf [OF that] by simp
  note l0 = place_task [OF r0(1) ks(2) nm td pd od, where privileged = privileged and entry_point = entry_point and esp = esp,
      folded m4_def]
  have l: "task_ring ?m3 q" "task_ring m4 (hd q # task # tl q)"
    "fld tcb_process m4 task = process" "fld tcb_kernel_stack_pointer m4 task = start_stack task privileged"
    "\<And>i. i < length (start_frame privileged entry_point esp) \<Longrightarrow>
       load32 m4 (start_stack task privileged + 4 * word_of_nat i) = start_frame privileged entry_point esp ! i"
    "\<And>a j. a \<in> set q \<Longrightarrow> unat j \<le> 80 \<Longrightarrow> fld j m4 a = fld j (ks_mem ks) a"
    "\<And>x. \<not> in_region x task 16384 \<Longrightarrow> (\<And>b. b \<in> set q \<Longrightarrow> \<not> in_region x b 92) \<Longrightarrow> m4 x = ks_mem ks x"
    by (rule l0; assumption)+
  have th: "held ks ?P a 16384" if "a \<in> set (task # q)" for a
    using that hq(1) ks(6) by (cases "a = task") (simp add: held_def, auto simp del: fun_upd_apply)
  define st1 where "st1 = st\<lparr>tk_pg := (tk_pg st)\<lparr>pg_ks := ks\<rparr>\<rparr>"
  have mem1: "pg_ks (tk_pg (tk_with st1 x)) = ks\<lparr>ks_mem := x\<rparr>" "current_task (tk_with st1 x) = hd q" for x
    using c by (simp_all add: st1_def tk_with_def)
  have ti3: "tasks_inv (tk_with st1 ?m3) q" using l(1) mem1(2) by (simp add: tasks_inv_def)
  have "task_ring (task_list_link (hd q) task (tk_mem (tk_with st1 ?m3))) (hd q # task # tl q)"
    using l(2) by (simp add: m4_def)
  from list_insert_total [OF ti3 this] obtain tm st2 where st2: "st2 = tk_with st1 m4"
    "task_list_insert task (tk_with st1 ?m3) = Some (task, st2\<lparr>tk_pg := (tk_pg st2)\<lparr>pg_term := tm\<rparr>\<rparr>)"
    unfolding tk_with_simps m4_def [symmetric] by blast
  define st' where "st' = st2\<lparr>tk_pg := (tk_pg st2)\<lparr>pg_term := tm\<rparr>\<rparr>"
  have run: "task_new process privileged entry_point esp st = Some (task, st')"
    using ks(1,2) st2(2) by (simp add: task_new_def Let_def st1_def st'_def)
  have st': "tk_mem st' = m4" "pg_ks (tk_pg st') = ks\<lparr>ks_mem := m4\<rparr>" "current_task st' = hd q"
    using mem1 st2(1) by (simp_all add: st'_def)
  have out: "m4 x = ks_mem ks x" if "\<And>p n. held ks ?P p n \<Longrightarrow> \<not> in_region x p n" for x
    by (rule l(7)) (use that [OF th] in_region_mono [of x _ 92 16384] in auto)
  note inv = held_writes [of ks ?P m4, OF ks(4) out]
  have kept: "m4 x = ?m x" if "held ?s P p j" "\<forall>a\<in>set q. regions_disjoint p j a 92" "in_region x p j" for p j x
  proof -
    have "0 < j" using that(3) by (cases j) simp_all
    then have "\<not> in_region x task 16384"
      using regions_disjointD [of p j task 16384] ks(6) that(1,3) regions_disjoint_sym by blast
    then show ?thesis using l(7) [of x] keep [OF that(1,3)] that(2,3) regions_disjointD by metis
  qed
  have hk: "held (pg_ks (tk_pg st')) ?P = held ks ?P" 
    unfolding st'(2) by (intro ext held_heap) simp
  have ph: "held ks ?P (fld tcb_process m4 a) 284" if "a \<in> set (task # q)" for a
    using that l(3) l(6) [of a tcb_process] op(1) hq(2) pf ks(6) by (cases "a = task") auto
  have set: "set (hd q # task # tl q) = set (task # q)" using task_ringD(1) [OF r] by (cases q) auto
  have "tasks_held st' ?P (hd q # task # tl q) k"
    unfolding tasks_held_def Let_def hk set
    using l(2) st' inv ks(5) th ph by (simp add: tasks_inv_def del: set_simps)
  moreover have "fld j m4 a = fld j ?m a" if "a \<in> set q" "unat j \<le> 80" for a j
    using l(6) [OF that] r0(2) [OF that(1), of j] that by simp
  moreover have "\<forall>p n. held ?s P p n \<longrightarrow> held (pg_ks (tk_pg st')) ?P p n \<and> (0 < n \<longrightarrow> regions_disjoint task 16384 p n)"
    unfolding hk using ks(6) by blast
  moreover have "tk_pg st' = (tk_pg st)\<lparr>pg_ks := pg_ks (tk_pg st'), pg_term := pg_term (tk_pg st')\<rparr>"
    by (simp add: st'_def st2(1) st1_def tk_with_def)
  ultimately show thesis
    using run ks(2,3) tq l(3,4,5) kept st'(1) by (intro that [of task st']) (auto simp: st'_def st2(1) st1_def)
qed

text \<open>
  C11: a new task gets its own kernel stack, apart from everything in use, with a start frame that enters
  \<open>entry_point\<close> with interrupts on, at the privilege asked for; it is hung in behind the current task, so that
  the next timer interrupt saves the current task and answers with exactly this frame.
\<close>

theorem task_new_runs_next:
  assumes "tasks_held st P q (4 + k)" "can_own_task st P q process"
  shows "\<exists>task st' st''. task_new process privileged entry_point esp st = Some (task, st')
     \<and> task \<notin> set q \<and> P task = None \<and> tasks_held st' (P(task \<mapsto> 16384)) (hd q # task # tl q) k
     \<and> fld tcb_process (tk_mem st') task = process
     \<and> (\<forall>i<length (start_frame privileged entry_point esp).
          load32 (tk_mem st') (start_stack task privileged + 4 * word_of_nat i) = start_frame privileged entry_point esp ! i)
     \<and> schedule frame st' = Some (start_stack task privileged, st'') \<and> runs st'' task
     \<and> queue_of st'' (task # tl q @ [hd q]) = (task, start_stack task privileged) # tl (queue_of st q) @ [(hd q, frame)]"
proof -
  obtain task st' where n: "task_new process privileged entry_point esp st = Some (task, st')"
    "task \<notin> set q" "P task = None" "tasks_held st' (P(task \<mapsto> 16384)) (hd q # task # tl q) k"
    "fld tcb_process (tk_mem st') task = process" "fld tcb_kernel_stack_pointer (tk_mem st') task = start_stack task privileged"
    "\<forall>i<length (start_frame privileged entry_point esp).
       load32 (tk_mem st') (start_stack task privileged + 4 * word_of_nat i) = start_frame privileged entry_point esp ! i"
    "\<forall>a\<in>set q. \<forall>j. unat j \<le> 80 \<longrightarrow> fld j (tk_mem st') a = fld j (tk_mem st) a"
    by (rule new_task [OF assms, of privileged entry_point esp]) (rule that)
  have ti: "tasks_inv st' (hd q # task # tl q)" using n(4) by (simp add: tasks_held_def Let_def)
  obtain x xs where q: "q = x # xs"
    using assms(1) task_ringD(1) by (cases q) (auto simp: tasks_held_def tasks_inv_def Let_def)
  have qs: "queue_of st' (hd q # task # tl q) = (x, fld tcb_kernel_stack_pointer (tk_mem st') x)
      # (task, start_stack task privileged) # queue_of st xs"
    using n(6,8) q by (simp add: queue_of_def)
  obtain st'' where s: "schedule frame st' = Some (fst (rr_schedule frame (queue_of st' (hd q # task # tl q))), st'')"
    "queue_of st'' (rotate1 (hd q # task # tl q)) = snd (rr_schedule frame (queue_of st' (hd q # task # tl q)))"
    "runs st'' (hd (rotate1 (hd q # task # tl q)))"
    by (rule schedule_step [OF ti, of frame]) auto
  then have "schedule frame st' = Some (start_stack task privileged, st'')" "runs st'' task"
    "queue_of st'' (task # tl q @ [hd q]) = (task, start_stack task privileged) # tl (queue_of st q) @ [(hd q, frame)]"
    unfolding qs using q by (simp_all add: queue_of_def)
  with n show ?thesis by blast
qed

section \<open>Two tasks\<close>

text \<open>Two tasks at \<open>0x10000\<close> and \<open>0x20000\<close> with their processes, and a third process, all below the kernel heap.\<close>

definition demo_tasks_mem :: mem where
  "demo_tasks_mem = set_fld tcb_process (set_fld tcb_process (set_fld tcb_previous (set_fld tcb_next
     (set_fld tcb_previous (set_fld tcb_next (\<lambda>_. 0) 0x10000 0x20000) 0x10000 0x20000)
     0x20000 0x10000) 0x20000 0x10000) 0x10000 0x30000) 0x20000 0x31000"

lemma demo_task_fields:
  "fld tcb_next demo_tasks_mem 0x10000 = 0x20000" "fld tcb_previous demo_tasks_mem 0x10000 = 0x20000"
  "fld tcb_next demo_tasks_mem 0x20000 = 0x10000" "fld tcb_previous demo_tasks_mem 0x20000 = 0x10000"
  "fld tcb_process demo_tasks_mem 0x10000 = 0x30000" "fld tcb_process demo_tasks_mem 0x20000 = 0x31000"
  by (simp_all add: demo_tasks_mem_def fld_field fld_other [where n = 16384 and l = 16384] regions_disjoint_def)

lemma demo_names: "demo_tasks_mem x = 0" if "0x30000 \<le> x"
proof -
  have "\<not> in_region x 0x10000 16384" "\<not> in_region x 0x20000 16384"
    using that unat_lt_2p32 [of x] by (auto simp: in_region_def word_le_nat_alt unat_sub_if')
  then show ?thesis by (simp add: demo_tasks_mem_def set_fld_outside [where n = 16384])
qed

lemma demo_tasks:
  obtains st where "tasks_held st Map.empty [0x10000, 0x20000] 4094" "can_own_task st Map.empty [0x10000, 0x20000] 0x32000"
proof -
  obtain s where s: "kheap_inv s Map.empty" "kheap_room s 4094" "\<forall>a < 0xC0101234. kheap_ext s a \<and> ks_mem s a = demo_tasks_mem a"
    by (rule kheap_init_state [of "0xC0101234" "\<lparr>ks_mem = demo_tasks_mem, ks_heap = demo_heap\<rparr>"]) auto
  define st where "st = \<lparr>tk_pg = \<lparr>pg_ks = s, pg_current_directory = 0, pg_bitmap_begin = 0, pg_bitmap_end = 0,
      pg_cr0 = 0, pg_cr3 = 0, pg_cr4 = 0, pg_interrupts = False,
      pg_term = \<lparr>video_memory = \<lambda>_. 0, terminal_row = 0, terminal_column = 0\<rparr>\<rparr>,
    tk_gdt = \<lparr>gdt_native = [], gdt_segments = [], tss_global = zero_tss, GDT_PTR_limit = 0, GDT_PTR_base = 0\<rparr>,
    current_task = 0x10000, current_process = 0x30000, processes = \<lambda>_. NULL\<rparr>"
  have low: "a < 0xC0101234" if "in_region a p 16384" "p < 0x40000" for a p
  proof -
    have "unat (p + (a - p)) < 0xC0101234"
      using that by (subst unat_word_ariths) (auto simp: in_region_def word_less_nat_alt)
    then show ?thesis by (simp add: word_less_nat_alt)
  qed
  have same: "ks_mem s a = demo_tasks_mem a" "kheap_ext s a" if "in_region a p 16384" "p < 0x40000" for a p
    using low [OF that] s(3) by auto
  have h: "held s Map.empty p n" if "n \<le> 16384" "p < 0x40000" for p n
    using same(2) [OF _ that(2)] in_region_mono [OF _ that(1)] by (auto simp: held_def)
  have f: "fld k (ks_mem s) p = fld k demo_tasks_mem p" if "p < 0x40000" "unat k + 4 \<le> 16384" for k p
    by (rule fld_cong [OF _ that(2)]) (use same that in auto)
  have nm: "named (ks_mem s) p" if "0x30000 \<le> p" "p < 0x40000" for p
  proof -
    have "in_region (p + 4) p 16384" by (simp add: in_region_def)
    moreover have "0x30000 \<le> p + 4" using that by (simp add: word_le_nat_alt word_less_nat_alt unat_word_ariths)
    ultimately have "ks_mem s (p + 4) = 0" using same(1) [of "p + 4" p] demo_names [of "p + 4"] that by simp
    then show ?thesis unfolding named_def by (intro exI [of _ "[]"]) simp
  qed
  have m: "tk_mem st = ks_mem s" by (simp add: st_def)
  have "task_ring (ks_mem s) [0x10000, 0x20000]"
    using nm by (simp add: task_ring_def f demo_task_fields regions_disjoint_def)
  then have "tasks_held st Map.empty [0x10000, 0x20000] 4094"
    using s h by (simp add: tasks_held_def tasks_inv_def st_def f demo_task_fields Let_def)
  moreover have "can_own_task st Map.empty [0x10000, 0x20000] 0x32000"
    using h nm by (simp add: can_own_task_def st_def regions_disjoint_def)
  ultimately show thesis by (rule that)
qed

theorem schedule_round_robin_witness:
  "\<exists>st st'. tasks_inv st [0x10000, 0x20000]
     \<and> schedule 0x13000 st = Some (fld tcb_kernel_stack_pointer (tk_mem st) 0x20000, st') \<and> tasks_inv st' [0x20000, 0x10000]"
proof -
  obtain st where "tasks_held st Map.empty [0x10000, 0x20000] 4094" by (rule demo_tasks)
  then have st: "tasks_inv st [0x10000, 0x20000]" by (simp add: tasks_held_def Let_def)
  from schedule_round_robin [OF st, of "0x13000"] st show ?thesis by (auto simp: queue_of_def)
qed

theorem schedule_fair_witness:
  "\<exists>st st'. tasks_inv st [0x10000, 0x20000]
     \<and> schedule_run [0x13000, 0x23000] st = Some ([fld tcb_kernel_stack_pointer (tk_mem st) 0x20000, 0x13000], st')
     \<and> queue_of st' [0x10000, 0x20000] = [(0x10000, 0x13000), (0x20000, 0x23000)]"
proof -
  obtain st where "tasks_held st Map.empty [0x10000, 0x20000] 4094" by (rule demo_tasks)
  then have st: "tasks_inv st [0x10000, 0x20000]" by (simp add: tasks_held_def Let_def)
  from schedule_fair [OF st, of "[0x13000, 0x23000]"] obtain st' where
    "schedule_run [0x13000, 0x23000] st = Some (map snd (tl (queue_of st [0x10000, 0x20000])) @ [hd [0x13000, 0x23000]], st')"
    "queue_of st' [0x10000, 0x20000] = zip [0x10000, 0x20000] [0x13000, 0x23000]" by auto
  with st show ?thesis by (intro exI [of _ st] exI [of _ st']) (simp add: queue_of_def del: schedule_run.simps)
qed

theorem task_new_runs_next_witness:
  "\<exists>st task st' st''. task_new 0x32000 False 0x400000 0x4001000 st = Some (task, st')
     \<and> schedule 0x13000 st' = Some (task + 16308, st'') \<and> runs st'' task
     \<and> load32 (tk_mem st') (task + 16364) = 0x400000"
proof -
  obtain st where st: "tasks_held st Map.empty [0x10000, 0x20000] (4 + 4090)" "can_own_task st Map.empty [0x10000, 0x20000] 0x32000"
    by (rule demo_tasks) auto
  from task_new_runs_next [OF st, of False "0x400000" "0x4001000" "0x13000"] obtain task st' st'' where
    "task_new 0x32000 False 0x400000 0x4001000 st = Some (task, st')" "runs st'' task"
    "schedule 0x13000 st' = Some (start_stack task False, st'')"
    "\<forall>i<length (start_frame False 0x400000 0x4001000).
       load32 (tk_mem st') (start_stack task False + 4 * word_of_nat i) = start_frame False 0x400000 0x4001000 ! i"
    by blast
  moreover from this(4) have "load32 (tk_mem st') (start_stack task False + 4 * word_of_nat 14) = start_frame False 0x400000 0x4001000 ! 14"
    by (rule allE [of _ 14]) (simp add: start_frame_def)
  ultimately show ?thesis by (intro exI [of _ st] exI [of _ task] exI [of _ st'] exI [of _ st''])
      (simp add: start_stack_def start_frame_def add.assoc)
qed

end
