(* ===== verification/File_Layer.thy ===== *)
theory File_Layer
  imports Path_Parser Fat16_Volume
begin

text \<open>
  The file layer, \<^verbatim>\<open>src/fs/file.c\<close> and \<^verbatim>\<open>src/fs/file_table.c\<close>: streams over the file systems that
  have been registered. A \<open>struct FILE\<close> lies in the memory of the kernel heap. A file system is a table of
  operations on the state \<open>'f\<close> behind it; a function pointer that is NULL is \<open>None\<close>, and \<open>F\<close> gives the table at
  an address. \<open>None\<close> as a result is a call through a NULL pointer, an access outside an array, or an operation
  that never returns.
\<close>

section \<open>The code\<close>

definition MAX_FILESYSTEMS :: nat where "MAX_FILESYSTEMS = 5"
definition MAX_OPEN_FILES :: nat where "MAX_OPEN_FILES = 100"

abbreviation FILE_disk :: u32 where "FILE_disk \<equiv> 0"
abbreviation FILE_path :: u32 where "FILE_path \<equiv> 4"
abbreviation FILE_private_data :: u32 where "FILE_private_data \<equiv> 8"
abbreviation FILE_fileno :: u32 where "FILE_fileno \<equiv> 12"

definition sizeof_FILE :: u32 where "sizeof_FILE = 20"

datatype seek_operation = SEEK_SET | SEEK_CUR | SEEK_END

datatype fopen_mode = OPEN_MODE_INVALID | OPEN_MODE_READ | OPEN_MODE_WRITE | OPEN_MODE_RW | OPEN_MODE_APPEND

record 'f file_state =
  fl_ks :: kstate
  fl_fs :: 'f
  fl_disk :: disk_t
  fl_table :: "addr list"
  fl_table_len :: int
  fl_registered :: "addr list"

abbreviation fl_mem :: "'f file_state \<Rightarrow> mem" where "fl_mem st \<equiv> ks_mem (fl_ks st)"

definition fl_set :: "u32 \<Rightarrow> addr \<Rightarrow> u32 \<Rightarrow> 'f file_state \<Rightarrow> 'f file_state" where
  "fl_set k p v st = st\<lparr>fl_ks := (fl_ks st)\<lparr>ks_mem := set_fld k (fl_mem st) p v\<rparr>\<rparr>"

record 'f filesystem_operations_t =
  fs_probe :: "(addr \<Rightarrow> 'f file_state \<Rightarrow> (int \<times> 'f file_state) option) option"
  fs_open :: "(addr \<Rightarrow> addr \<Rightarrow> fopen_mode \<Rightarrow> 'f file_state \<Rightarrow> (addr \<times> 'f file_state) option) option"
  fs_close :: "(addr \<Rightarrow> 'f file_state \<Rightarrow> (int \<times> 'f file_state) option) option"
  fs_read :: "(addr \<Rightarrow> u32 \<Rightarrow> u32 \<Rightarrow> addr \<Rightarrow> 'f file_state \<Rightarrow> (u32 \<times> 'f file_state) option) option"
  fs_write :: "(addr \<Rightarrow> 'f file_state \<Rightarrow> (u32 \<times> 'f file_state) option) option"
  fs_seek :: "(addr \<Rightarrow> u32 \<Rightarrow> seek_operation \<Rightarrow> 'f file_state \<Rightarrow> (int \<times> 'f file_state) option) option"
  fs_stat :: "(addr \<Rightarrow> 'f file_state \<Rightarrow> (int \<times> stat_t \<times> 'f file_state) option) option"
  fs_unlink :: "(addr \<Rightarrow> 'f file_state \<Rightarrow> (int \<times> 'f file_state) option) option"

definition sizeof_filesystem_operations :: u32 where "sizeof_filesystem_operations = 32"

text \<open>The table of open files.\<close>

definition file_table_init :: "'f file_state \<Rightarrow> int \<times> 'f file_state" where
  "file_table_init st = (0, st\<lparr>fl_table_len := int MAX_OPEN_FILES, fl_table := replicate MAX_OPEN_FILES NULL\<rparr>)"

function file_table_find_loop :: "'f file_state \<Rightarrow> int \<Rightarrow> int" where
  "file_table_find_loop st i =
     (if i < fl_table_len st then if fl_table st ! nat i = NULL then i else file_table_find_loop st (i + 1) else - EMFILE)"
  by pat_completeness auto
termination by (relation "measure (\<lambda>(st, i). nat (fl_table_len st - i))") auto

definition file_table_find_free_slot :: "'f file_state \<Rightarrow> int" where
  "file_table_find_free_slot st = file_table_find_loop st 0"

definition file_table_open_file :: "addr \<Rightarrow> 'f file_state \<Rightarrow> int \<times> 'f file_state" where
  "file_table_open_file descriptor st =
     (let index = file_table_find_free_slot st
      in if index < 0 then (index, st)
         else let st1 = fl_set FILE_fileno descriptor (word_of_int index) st
              in (index, st1\<lparr>fl_table := (fl_table st1)[nat index := descriptor]\<rparr>))"

definition file_table_close_file :: "addr \<Rightarrow> 'f file_state \<Rightarrow> int \<times> 'f file_state" where
  "file_table_close_file descriptor st =
     (let fileno = sint (fld FILE_fileno (fl_mem st) descriptor)
      in if 0 > fileno \<or> fileno \<ge> fl_table_len st then (- EBADF, st)
         else let st1 = st\<lparr>fl_table := (fl_table st)[nat fileno := NULL]\<rparr>
              in (0, fl_set FILE_fileno descriptor (- 1) st1))"

definition file_table_get_descriptor :: "int \<Rightarrow> 'f file_state \<Rightarrow> addr" where
  "file_table_get_descriptor fd st =
     (if fd < 0 \<or> fd \<ge> fl_table_len st then NULL else fl_table st ! nat fd)"

text \<open>The access \<open>file_table.table[i]\<close>, which the callers do without a check.\<close>

definition file_table_at :: "int \<Rightarrow> 'f file_state \<Rightarrow> addr option" where
  "file_table_at i st = (if 0 \<le> i \<and> i < int MAX_OPEN_FILES then Some (fl_table st ! nat i) else None)"

text \<open>Registering and probing of file systems.\<close>

function fs_register_loop :: "addr \<Rightarrow> nat \<Rightarrow> 'f file_state \<Rightarrow> int \<times> 'f file_state" where
  "fs_register_loop operations i st =
     (if i < MAX_FILESYSTEMS
      then if fl_registered st ! i = NULL then (0, st\<lparr>fl_registered := (fl_registered st)[i := operations]\<rparr>)
           else fs_register_loop operations (i + 1) st
      else (- EIO, st))"
  by pat_completeness auto
termination by (relation "measure (\<lambda>(operations, i, st). MAX_FILESYSTEMS - i)") auto

definition fs_register_fs :: "addr \<Rightarrow> 'f file_state \<Rightarrow> int \<times> 'f file_state" where
  "fs_register_fs operations st = fs_register_loop operations 0 st"

definition fs_init :: "addr \<Rightarrow> 'f file_state \<Rightarrow> int \<times> 'f file_state" where
  "fs_init fat16_operations_addr st = fs_register_fs fat16_operations_addr st"

text \<open>The loop increments the pointer to the operations themselves, not the index into the array.\<close>

partial_function (option) fs_probe_loop ::
  "(addr \<Rightarrow> 'f filesystem_operations_t) \<Rightarrow> addr \<Rightarrow> addr \<Rightarrow> 'f file_state \<Rightarrow> (addr \<times> 'f file_state) option" where
  "fs_probe_loop F disk fs_op st =
     (if fs_op \<noteq> NULL
      then case fs_probe (F fs_op) of None \<Rightarrow> None
           | Some probe \<Rightarrow>
          (case probe disk st of None \<Rightarrow> None
           | Some (res, st1) \<Rightarrow>
               if res = 0 then Some (fs_op, st1)
               else fs_probe_loop F disk (fs_op + sizeof_filesystem_operations) st1)
      else Some (NULL, st))"

definition fs_probe_fs ::
  "(addr \<Rightarrow> 'f filesystem_operations_t) \<Rightarrow> addr \<Rightarrow> 'f file_state \<Rightarrow> (addr \<times> 'f file_state) option" where
  "fs_probe_fs F disk st = fs_probe_loop F disk (fl_registered st ! 0) st"

text \<open>The mode strings are literals of the callers; \<open>strncmp\<close> looks at one character of them.\<close>

definition file_mode_from_string :: "u8 list \<Rightarrow> fopen_mode option" where
  "file_mode_from_string str =
     (case strncmp_arrays str [119, 0] 1 of None \<Rightarrow> None
      | Some r1 \<Rightarrow> if r1 = 0 then Some OPEN_MODE_WRITE else
     (case strncmp_arrays str [114, 0] 1 of None \<Rightarrow> None
      | Some r2 \<Rightarrow> if r2 = 0 then Some OPEN_MODE_READ else
     (case strncmp_arrays str [97, 0] 1 of None \<Rightarrow> None
      | Some r3 \<Rightarrow> if r3 = 0 then Some OPEN_MODE_APPEND else Some OPEN_MODE_INVALID)))"

text \<open>The disk and the file system of a stream; there is one disk, at \<open>disks_addr\<close>.\<close>

definition stream_disk :: "addr \<Rightarrow> addr \<Rightarrow> 'f file_state \<Rightarrow> disk_t option" where
  "stream_disk disks_addr descriptor st =
     (if fld FILE_disk (fl_mem st) descriptor = disks_addr then Some (fl_disk st) else None)"

definition stream_ops :: "(addr \<Rightarrow> 'f filesystem_operations_t) \<Rightarrow> addr \<Rightarrow> addr \<Rightarrow> 'f file_state \<Rightarrow> 'f filesystem_operations_t option" where
  "stream_ops F disks_addr descriptor st =
     (case stream_disk disks_addr descriptor st of None \<Rightarrow> None
      | Some disk \<Rightarrow> if dk_fs_operations disk = NULL then None else Some (F (dk_fs_operations disk)))"

text \<open>The error exit of \<open>fopen\<close>, from the label \<open>out\<close> on.\<close>

definition fopen_out :: "(addr \<Rightarrow> 'f filesystem_operations_t) \<Rightarrow> addr \<Rightarrow> addr \<Rightarrow> addr \<Rightarrow> 'f file_state \<Rightarrow> 'f file_state option" where
  "fopen_out F disks_addr path descriptor st =
     (case pathparse_path_free (fl_ks st) path of None \<Rightarrow> None
      | Some ks1 \<Rightarrow>
          let st1 = st\<lparr>fl_ks := ks1\<rparr>
          in if descriptor = NULL then Some st1
             else case stream_disk disks_addr descriptor st1 of None \<Rightarrow> None
             | Some disk \<Rightarrow>
            (case (if dk_fs_operations disk \<noteq> NULL \<and> fld FILE_private_data (fl_mem st1) descriptor \<noteq> NULL
                   then case fs_close (F (dk_fs_operations disk)) of None \<Rightarrow> None
                        | Some close \<Rightarrow> map_option snd (close (fld FILE_private_data (fl_mem st1) descriptor) st1)
                   else Some st1) of None \<Rightarrow> None
             | Some st2 \<Rightarrow>
            (case kfree (fl_ks st2) descriptor of None \<Rightarrow> None
             | Some ks3 \<Rightarrow> Some (st2\<lparr>fl_ks := ks3\<rparr>))))"

text \<open>\<open>fopen\<close> after the path has been parsed: the new descriptor, the status, and the state.\<close>

definition fopen_descriptor ::
  "(addr \<Rightarrow> 'f filesystem_operations_t) \<Rightarrow> addr \<Rightarrow> addr \<Rightarrow> fopen_mode \<Rightarrow> 'f file_state \<Rightarrow> (addr \<times> int \<times> 'f file_state) option" where
  "fopen_descriptor F disks_addr path mode st =
     (case kzalloc (fl_ks st) sizeof_FILE of None \<Rightarrow> None
      | Some (descriptor, ks1) \<Rightarrow>
          let st1 = st\<lparr>fl_ks := ks1\<rparr>
          in if descriptor = NULL then Some (NULL, - ENOMEM, st1)
             else case disk_get disks_addr (sint (load32 (fl_mem st1) path)) of (res, disk) \<Rightarrow>
               let st2 = fl_set FILE_disk descriptor disk st1
               in if res \<noteq> 0 then Some (descriptor, - EIO, st2)
                  else if dk_fs_operations (fl_disk st2) = NULL then Some (descriptor, - EIO, st2)
                  else let st3 = fl_set FILE_path descriptor path st2
                       in case fs_open (F (dk_fs_operations (fl_disk st3))) of None \<Rightarrow> None
                          | Some open \<Rightarrow>
                         (case open disk (load32 (fl_mem st3) (path + 4)) mode st3 of None \<Rightarrow> None
                          | Some (priv, st4) \<Rightarrow>
                              let st5 = fl_set FILE_private_data descriptor priv st4
                              in if priv = NULL then Some (descriptor, - EIO, st5)
                                 else case file_table_open_file descriptor st5 of (index, st6) \<Rightarrow>
                                   Some (descriptor, index, st6)))"

definition fopen :: "(addr \<Rightarrow> 'f filesystem_operations_t) \<Rightarrow> addr \<Rightarrow> addr \<Rightarrow> u8 list \<Rightarrow> 'f file_state \<Rightarrow> (addr \<times> 'f file_state) option" where
  "fopen F disks_addr filename str_mode st =
     (case file_mode_from_string str_mode of None \<Rightarrow> None
      | Some mode \<Rightarrow>
          if mode = OPEN_MODE_INVALID then Some (NULL, st)
          else case pathparser_path_parse (fl_ks st) filename of None \<Rightarrow> None
          | Some (path, ks1) \<Rightarrow>
              let st1 = st\<lparr>fl_ks := ks1\<rparr>
              in if path = NULL then Some (NULL, st1)
                 else if load32 (fl_mem st1) (path + 4) = NULL
                 then (case pathparse_path_free ks1 path of None \<Rightarrow> None | Some ks2 \<Rightarrow> Some (NULL, st1\<lparr>fl_ks := ks2\<rparr>))
                 else case fopen_descriptor F disks_addr path mode st1 of None \<Rightarrow> None
                 | Some (descriptor, res, st2) \<Rightarrow>
                     if res < 0
                     then (case fopen_out F disks_addr path descriptor st2 of None \<Rightarrow> None | Some st3 \<Rightarrow> Some (NULL, st3))
                     else Some (descriptor, st2))"

definition fclose :: "(addr \<Rightarrow> 'f filesystem_operations_t) \<Rightarrow> addr \<Rightarrow> addr \<Rightarrow> 'f file_state \<Rightarrow> (int \<times> 'f file_state) option" where
  "fclose F disks_addr stream st =
     (case file_table_at (sint (fld FILE_fileno (fl_mem st) stream)) st of None \<Rightarrow> None
      | Some descriptor \<Rightarrow>
          if descriptor = NULL then Some (- EBADF, st)
          else case file_table_close_file descriptor st of (res, st1) \<Rightarrow>
            if res \<noteq> 0 then Some (res, st1)
            else case stream_ops F disks_addr descriptor st1 of None \<Rightarrow> None
            | Some ops \<Rightarrow>
           (case fs_close ops of None \<Rightarrow> None
            | Some close \<Rightarrow>
           (case close (fld FILE_private_data (fl_mem st1) descriptor) st1 of None \<Rightarrow> None
            | Some (res1, st2) \<Rightarrow>
                if res1 \<noteq> 0 then Some (res1, st2)
                else case pathparse_path_free (fl_ks st2) (fld FILE_path (fl_mem st2) descriptor) of None \<Rightarrow> None
                | Some ks3 \<Rightarrow>
               (case kfree ks3 descriptor of None \<Rightarrow> None
                | Some ks4 \<Rightarrow> Some (0, st2\<lparr>fl_ks := ks4\<rparr>)))))"

definition fread ::
  "(addr \<Rightarrow> 'f filesystem_operations_t) \<Rightarrow> addr \<Rightarrow> addr \<Rightarrow> u32 \<Rightarrow> u32 \<Rightarrow> addr \<Rightarrow> 'f file_state \<Rightarrow> (u32 \<times> 'f file_state) option" where
  "fread F disks_addr ptr sz nmemb stream st =
     (case file_table_at (sint (fld FILE_fileno (fl_mem st) stream)) st of None \<Rightarrow> None
      | Some descriptor \<Rightarrow>
          if descriptor = NULL then Some (0, st)
          else case stream_ops F disks_addr descriptor st of None \<Rightarrow> None
          | Some ops \<Rightarrow>
         (case fs_read ops of None \<Rightarrow> None
          | Some read \<Rightarrow> read (fld FILE_private_data (fl_mem st) descriptor) sz nmemb ptr st))"

definition fseek ::
  "(addr \<Rightarrow> 'f filesystem_operations_t) \<Rightarrow> addr \<Rightarrow> addr \<Rightarrow> u32 \<Rightarrow> seek_operation \<Rightarrow> 'f file_state \<Rightarrow> (int \<times> 'f file_state) option" where
  "fseek F disks_addr stream offset whence st =
     (case file_table_at (sint (fld FILE_fileno (fl_mem st) stream)) st of None \<Rightarrow> None
      | Some descriptor \<Rightarrow>
          if descriptor = NULL then Some (- EBADF, st)
          else case stream_ops F disks_addr descriptor st of None \<Rightarrow> None
          | Some ops \<Rightarrow>
         (case fs_seek ops of None \<Rightarrow> None
          | Some seek \<Rightarrow> seek (fld FILE_private_data (fl_mem st) descriptor) offset whence st))"

definition zero_stat :: stat_t where "zero_stat = \<lparr>st_dev = 0, st_size = 0\<rparr>"

text \<open>\<open>fstat\<close> fills in the structure of its caller only when it succeeds; \<open>buf\<close> is that structure.\<close>

definition fstat :: "(addr \<Rightarrow> 'f filesystem_operations_t) \<Rightarrow> addr \<Rightarrow> int \<Rightarrow> stat_t \<Rightarrow> 'f file_state \<Rightarrow> (int \<times> stat_t \<times> 'f file_state) option" where
  "fstat F disks_addr fd buf st =
     (case file_table_at fd st of None \<Rightarrow> None
      | Some descriptor \<Rightarrow>
          if descriptor = NULL then Some (- EBADF, buf, st)
          else case stream_ops F disks_addr descriptor st of None \<Rightarrow> None
          | Some ops \<Rightarrow>
         (case fs_stat ops of None \<Rightarrow> None
          | Some stat \<Rightarrow> stat (fld FILE_private_data (fl_mem st) descriptor) st))"

text \<open>
  The operations of the FAT16 driver, on its private data, its stream and its open descriptors by address.
  \<open>filename\<close> and \<open>extension\<close> are the local arrays of \<open>traverse_path\<close>.
\<close>

record 'd fat_fs =
  ff_priv :: fat_private_data_t
  ff_dev :: "'d fat_dev"
  ff_desc :: "addr \<Rightarrow> fat_descriptor_t"

definition fat16_operations :: "'d block_reader \<Rightarrow> u8 list \<Rightarrow> addr \<Rightarrow> addr \<Rightarrow> addr \<Rightarrow> 'd fat_fs filesystem_operations_t" where
  "fat16_operations rb junk disks_addr filename extension =
     \<lparr>fs_probe = Some (\<lambda>disk st. case fat16_probe rb disks_addr (fl_disk st) (fl_ks st) (snd (ff_dev (fl_fs st))) of
          None \<Rightarrow> None
        | Some (res, disk1, found, ks1, d1) \<Rightarrow>
            let fs1 = (case found of
                  None \<Rightarrow> (fl_fs st)\<lparr>ff_dev := (fst (ff_dev (fl_fs st)), d1)\<rparr>
                | Some (priv, stream) \<Rightarrow> (fl_fs st)\<lparr>ff_priv := priv, ff_dev := (stream, d1)\<rparr>)
            in Some (res, st\<lparr>fl_disk := disk1, fl_ks := ks1, fl_fs := fs1\<rparr>)),
      fs_open = Some (\<lambda>disk path mode st.
        case fat16_open rb junk (ff_priv (fl_fs st)) filename extension disk (fl_ks st) path (ff_dev (fl_fs st)) of
          None \<Rightarrow> None
        | Some (p, desc, ks1, dv1) \<Rightarrow>
            let fs1 = (fl_fs st)\<lparr>ff_dev := dv1, ff_desc := (case desc of None \<Rightarrow> ff_desc (fl_fs st) | Some x \<Rightarrow> (ff_desc (fl_fs st))(p := x))\<rparr>
            in Some (p, st\<lparr>fl_ks := ks1, fl_fs := fs1\<rparr>)),
      fs_close = Some (\<lambda>priv st. case fat16_close (fl_ks st) priv of None \<Rightarrow> None
        | Some (res, ks1) \<Rightarrow> Some (res, st\<lparr>fl_ks := ks1\<rparr>)),
      fs_read = Some (\<lambda>priv sz nmemb out st.
        case fat16_read rb junk (ff_priv (fl_fs st)) (ff_desc (fl_fs st) priv) sz nmemb (ff_dev (fl_fs st)) of
          None \<Rightarrow> None
        | Some (res, bs, desc1, dv1) \<Rightarrow>
            Some (res, st\<lparr>fl_ks := (fl_ks st)\<lparr>ks_mem := write_bytes (fl_mem st) out bs\<rparr>,
                          fl_fs := (fl_fs st)\<lparr>ff_dev := dv1, ff_desc := (ff_desc (fl_fs st))(priv := desc1)\<rparr>\<rparr>)),
      fs_write = None,
      fs_seek = None,
      fs_stat = Some (\<lambda>priv st. case fat16_stat (fl_disk st) (ff_desc (fl_fs st) priv) of (res, buf) \<Rightarrow> Some (res, buf, st)),
      fs_unlink = None\<rparr>"

section \<open>The table of open files\<close>

lemma fl_set_simps [simp]:
  "fl_mem (fl_set k p v st) = set_fld k (fl_mem st) p v" "fl_table (fl_set k p v st) = fl_table st"
  "fl_table_len (fl_set k p v st) = fl_table_len st" "fl_disk (fl_set k p v st) = fl_disk st"
  "fl_fs (fl_set k p v st) = fl_fs st" "fl_registered (fl_set k p v st) = fl_registered st"
  by (simp_all add: fl_set_def)

text \<open>Every open file knows the slot it is in, so no descriptor is in two slots; open files do not overlap.\<close>

definition open_files :: "'f file_state \<Rightarrow> bool" where
  "open_files st \<longleftrightarrow> fl_table_len st = int MAX_OPEN_FILES \<and> length (fl_table st) = MAX_OPEN_FILES
     \<and> (\<forall>i<MAX_OPEN_FILES. fl_table st ! i \<noteq> NULL \<longrightarrow> fld FILE_fileno (fl_mem st) (fl_table st ! i) = word_of_nat i)
     \<and> (\<forall>d\<in>set (fl_table st). \<forall>e\<in>set (fl_table st). d \<noteq> NULL \<longrightarrow> e \<noteq> NULL \<longrightarrow> d \<noteq> e \<longrightarrow> regions_disjoint d 20 e 20)"

lemma sint_slot: "i < MAX_OPEN_FILES \<Longrightarrow> sint (word_of_nat i :: u32) = int i"
  by (simp add: MAX_OPEN_FILES_def sint_word_of_nat)

lemma find_slot:
  assumes "fl_table_len st = int MAX_OPEN_FILES" "i \<le> MAX_OPEN_FILES"
  shows "file_table_find_loop st (int i) =
    (case find (\<lambda>j. fl_table st ! j = NULL) [i..<MAX_OPEN_FILES] of None \<Rightarrow> - EMFILE | Some j \<Rightarrow> int j)"
  using assms(2)
proof (induction "MAX_OPEN_FILES - i" arbitrary: i)
  case 0
  then show ?case using assms(1) by (subst file_table_find_loop.simps) simp
next
  case (Suc n)
  then have i: "i < MAX_OPEN_FILES" "[i..<MAX_OPEN_FILES] = i # [Suc i..<MAX_OPEN_FILES]" by (simp_all add: upt_rec)
  have "file_table_find_loop st (int (Suc i)) =
    (case find (\<lambda>j. fl_table st ! j = NULL) [Suc i..<MAX_OPEN_FILES] of None \<Rightarrow> - EMFILE | Some j \<Rightarrow> int j)"
    by (rule Suc.hyps(1)) (use Suc.hyps(2) i in auto)
  then show ?case using i assms(1) by (subst file_table_find_loop.simps) (simp add: add.commute)
qed

lemma table_at_slot:
  assumes "fld FILE_fileno (fl_mem st) d = word_of_nat i" "i < MAX_OPEN_FILES"
  shows "file_table_at (sint (fld FILE_fileno (fl_mem st) d)) st = Some (fl_table st ! i)"
  using assms sint_slot [OF assms(2)] by (simp add: file_table_at_def)

lemma open_files_add:
  assumes wf: "open_files st" and i: "i < MAX_OPEN_FILES" "fl_table st ! i = NULL" and d: "d \<noteq> NULL" "d \<notin> set (fl_table st)"
    and sep: "\<And>e. e \<in> set (fl_table st) \<Longrightarrow> e \<noteq> NULL \<Longrightarrow> regions_disjoint d 20 e 20"
  shows "open_files ((fl_set FILE_fileno d (word_of_nat i) st)\<lparr>fl_table := (fl_table st)[i := d]\<rparr>)"
proof -
  have len: "length (fl_table st) = MAX_OPEN_FILES" "fl_table_len st = int MAX_OPEN_FILES" using wf by (auto simp: open_files_def)
  have others: "fld FILE_fileno (set_fld FILE_fileno (fl_mem st) d v) e = fld FILE_fileno (fl_mem st) e"
    if "e \<in> set (fl_table st)" "e \<noteq> NULL" for e v by (rule fld_other [OF sep [OF that]]) simp_all
  have "fld FILE_fileno (set_fld FILE_fileno (fl_mem st) d (word_of_nat i)) ((fl_table st)[i := d] ! j) = word_of_nat j"
    if "j < MAX_OPEN_FILES" "(fl_table st)[i := d] ! j \<noteq> NULL" for j
    using that len i others [of "fl_table st ! j"] wf by (cases "j = i") (auto simp: open_files_def)
  moreover have "e \<in> insert d (set (fl_table st))" if "e \<in> set ((fl_table st)[i := d])" for e
    using that set_update_subset_insert by fast
  then have "regions_disjoint a 20 b 20"
    if "a \<in> set ((fl_table st)[i := d])" "b \<in> set ((fl_table st)[i := d])" "a \<noteq> NULL" "b \<noteq> NULL" "a \<noteq> b" for a b
    using that sep wf unfolding open_files_def by (metis insertE regions_disjoint_sym)
  ultimately show ?thesis using len by (simp add: open_files_def)
qed

lemma open_files_drop:
  assumes wf: "open_files st" and i: "i < MAX_OPEN_FILES" "fl_table st ! i = d" "d \<noteq> NULL"
  shows "open_files (fl_set FILE_fileno d v (st\<lparr>fl_table := (fl_table st)[i := NULL]\<rparr>))"
proof -
  have len: "length (fl_table st) = MAX_OPEN_FILES" "fl_table_len st = int MAX_OPEN_FILES" using wf by (auto simp: open_files_def)
  have slot: "fld FILE_fileno (fl_mem st) (fl_table st ! j) = word_of_nat j" if "j < MAX_OPEN_FILES" "fl_table st ! j \<noteq> NULL" for j
    using wf that by (simp add: open_files_def)
  have "fld FILE_fileno (set_fld FILE_fileno (fl_mem st) d v) (fl_table st ! j) = word_of_nat j"
    if "j < MAX_OPEN_FILES" "fl_table st ! j \<noteq> NULL" "j \<noteq> i" for j
  proof -
    have "fl_table st ! j \<noteq> d" using slot [OF that(1,2)] slot [OF i(1)] i that
      by (auto simp: word_of_nat_eq_iff_lt MAX_OPEN_FILES_def)
    then have "regions_disjoint d 20 (fl_table st ! j) 20"
      using wf i that len unfolding open_files_def by (metis nth_mem)
    from fld_other [OF this] slot [OF that(1,2)] show ?thesis by simp
  qed
  then have "fld FILE_fileno (set_fld FILE_fileno (fl_mem st) d v) ((fl_table st)[i := NULL] ! j) = word_of_nat j"
    if "j < MAX_OPEN_FILES" "(fl_table st)[i := NULL] ! j \<noteq> NULL" for j using that len i(1) by (cases "j = i") auto
  moreover have "e \<in> insert NULL (set (fl_table st))" if "e \<in> set ((fl_table st)[i := NULL])" for e
    using that set_update_subset_insert by fast
  then have "regions_disjoint a 20 b 20"
    if "a \<in> set ((fl_table st)[i := NULL])" "b \<in> set ((fl_table st)[i := NULL])" "a \<noteq> NULL" "b \<noteq> NULL" "a \<noteq> b" for a b
    using that wf unfolding open_files_def by (metis insertE)
  ultimately show ?thesis using len by (simp add: open_files_def)
qed

section \<open>Properties\<close>

text \<open>
  C25: the table of open files. Opening a descriptor puts it into the first free slot, where
  \<open>file_table_get_descriptor\<close> finds it, and leaves every other slot alone; with all slots taken it answers
  \<open>-EMFILE\<close> and changes nothing. Closing it again restores the table. Every descriptor keeps knowing its slot.
\<close>

theorem file_table_open_close:
  assumes "open_files st" "d \<noteq> NULL" "d \<notin> set (fl_table st)"
    and "\<forall>e\<in>set (fl_table st). e \<noteq> NULL \<longrightarrow> regions_disjoint d 20 e 20"
  shows "case find (\<lambda>i. fl_table st ! i = NULL) [0..<MAX_OPEN_FILES] of
      None \<Rightarrow> file_table_open_file d st = (- EMFILE, st)
    | Some i \<Rightarrow> \<exists>st1 st2. file_table_open_file d st = (int i, st1) \<and> open_files st1
        \<and> file_table_get_descriptor (int i) st1 = d
        \<and> (\<forall>j. j \<noteq> int i \<longrightarrow> file_table_get_descriptor j st1 = file_table_get_descriptor j st)
        \<and> file_table_close_file d st1 = (0, st2) \<and> open_files st2 \<and> fl_table st2 = fl_table st"
proof (cases "find (\<lambda>i. fl_table st ! i = NULL) [0..<MAX_OPEN_FILES]")
  case None
  have "fl_table_len st = int MAX_OPEN_FILES" using assms(1) by (simp add: open_files_def)
  from find_slot [OF this, of 0] None show ?thesis
    by (simp add: file_table_open_file_def file_table_find_free_slot_def EMFILE_def)
next
  case (Some i)
  have len: "fl_table_len st = int MAX_OPEN_FILES" "length (fl_table st) = MAX_OPEN_FILES"
    using assms(1) by (simp_all add: open_files_def)
  have i: "i < MAX_OPEN_FILES" "fl_table st ! i = NULL" using Some by (simp_all add: find_upt_Some)
  define st1 where "st1 = (fl_set FILE_fileno d (word_of_nat i) st)\<lparr>fl_table := (fl_table st)[i := d]\<rparr>"
  define st2 where "st2 = fl_set FILE_fileno d (- 1) (st1\<lparr>fl_table := (fl_table st1)[i := NULL]\<rparr>)"
  have open_d: "file_table_open_file d st = (int i, st1)"
    using find_slot [OF len(1), of 0] Some
    by (simp add: file_table_open_file_def file_table_find_free_slot_def st1_def Let_def)
  have wf1: "open_files st1" unfolding st1_def by (rule open_files_add [OF assms(1) i assms(2,3)]) (use assms(4) in blast)
  have close_d: "file_table_close_file d st1 = (0, st2)"
    using sint_slot [OF i(1)] len i(1) by (simp add: file_table_close_file_def st2_def st1_def)
  have wf2: "open_files st2"
    unfolding st2_def by (rule open_files_drop [OF wf1 i(1) _ assms(2)]) (use i len in \<open>simp add: st1_def\<close>)
  have restored: "fl_table st2 = fl_table st" using i(2) by (simp add: st1_def st2_def) (metis list_update_id)
  have "file_table_get_descriptor (int i) st1 = d" using i len by (simp add: file_table_get_descriptor_def st1_def)
  moreover have "file_table_get_descriptor j st1 = file_table_get_descriptor j st" if "j \<noteq> int i" for j
  proof -
    have "j < 0 \<or> nat j \<noteq> i" using that by auto
    then show ?thesis by (auto simp: file_table_get_descriptor_def st1_def nth_list_update_neq)
  qed
  ultimately show ?thesis using Some open_d wf1 close_d wf2 restored by auto
qed

definition demo_file_state :: "'f \<Rightarrow> 'f file_state" where
  "demo_file_state f = \<lparr>fl_ks = \<lparr>ks_mem = \<lambda>_. 0, ks_heap = demo_heap\<rparr>, fl_fs = f,
     fl_disk = \<lparr>dk_type = 0, dk_sector_size = 512, dk_master_slave_flag = 0xE0, dk_id = 0, dk_fs_operations = 0x9000,
       dk_fs_private = 0, dk_ata_ports = ATA_PORTS_PRIMARY\<rparr>,
     fl_table = replicate 100 NULL, fl_table_len = 100, fl_registered = replicate 10 NULL\<rparr>"

lemma demo_open_files: "open_files (demo_file_state f)"
  by (simp add: open_files_def demo_file_state_def MAX_OPEN_FILES_def)

theorem file_table_open_close_witness:
  "\<exists>st1 st2. file_table_open_file 0x5000 (demo_file_state ()) = (0, st1) \<and> file_table_get_descriptor 0 st1 = 0x5000
     \<and> file_table_close_file 0x5000 st1 = (0, st2) \<and> fl_table st2 = fl_table (demo_file_state ())"
proof -
  have "find (\<lambda>i. fl_table (demo_file_state ()) ! i = NULL) [0..<MAX_OPEN_FILES] = Some 0"
    by (simp add: find_upt_Some demo_file_state_def MAX_OPEN_FILES_def)
  with file_table_open_close [OF demo_open_files [of "()"], of "0x5000"] show ?thesis
    by (auto simp: demo_file_state_def)
qed

text \<open>A stream that is open on a file of the FAT16 volume.\<close>

definition fat16_stream ::
  "(addr \<Rightarrow> 'd fat_fs filesystem_operations_t) \<Rightarrow> 'd block_reader \<Rightarrow> u8 list \<Rightarrow> addr \<Rightarrow> addr \<Rightarrow> 'd fat_fs file_state \<Rightarrow> bool" where
  "fat16_stream F rb junk disks_addr stream st \<longleftrightarrow> open_files st \<and> stream \<noteq> NULL \<and> stream \<in> set (fl_table st)
     \<and> fld FILE_disk (fl_mem st) stream = disks_addr \<and> dk_fs_operations (fl_disk st) \<noteq> NULL
     \<and> (\<exists>filename extension. F (dk_fs_operations (fl_disk st)) = fat16_operations rb junk disks_addr filename extension)"

lemma fat16_stream_access:
  assumes "fat16_stream F rb junk disks_addr stream st"
  obtains filename extension where "file_table_at (sint (fld FILE_fileno (fl_mem st) stream)) st = Some stream"
    "stream_ops F disks_addr stream st = Some (fat16_operations rb junk disks_addr filename extension)" "stream \<noteq> NULL"
proof -
  from assms obtain i where i: "i < MAX_OPEN_FILES" "fl_table st ! i = stream" "stream \<noteq> NULL" "open_files st"
    unfolding fat16_stream_def open_files_def by (metis in_set_conv_nth)
  then have "fld FILE_fileno (fl_mem st) stream = word_of_nat i" by (auto simp: open_files_def)
  from table_at_slot [OF this i(1)] i assms that show thesis
    by (auto simp: fat16_stream_def stream_ops_def stream_disk_def)
qed

text \<open>
  C8: reading through the layers. \<open>fread\<close> on a stream of the FAT16 volume delivers into the caller's buffer
  exactly the bytes of the file from the position of the stream on, as many as were asked for or are left, and
  returns their number; nothing else in memory changes, the position advances and the end-of-file flag rises
  exactly at the end of the file.
\<close>

theorem fread_delivers_file:
  fixes sz nmemb :: u32 and stream :: addr and st :: "'d fat_fs file_state"
  defines "desc \<equiv> ff_desc (fl_fs st) (fld FILE_private_data (fl_mem st) stream)"
  defines "fsize \<equiv> unat (fe_size_bytes (fi_entry (fd_item desc)))" and "p \<equiv> unat (fd_pos desc)"
  defines "n \<equiv> min (unat sz * unat nmemb) (fsize - p)"
  assumes "fat16_stream F rb junk disks_addr stream st"
    and "fat_volume rb img nsec ready (ff_priv (fl_fs st))" "ready (snd (ff_dev (fl_fs st)))"
    and "fat_chain img (ff_priv (fl_fs st)) nsec cs"
    and "\<not> fat16_item_is_root_dir (ff_priv (fl_fs st)) (fd_item desc)" "fe_low16_bits_first_cluster (fi_entry (fd_item desc)) = hd cs"
    and "fi_first_sector (fd_item desc) = fat16_cluster_number_to_data_sector (ff_priv (fl_fs st)) (hd cs)"
    and "\<not> fd_eof desc" "fsize \<le> length (chain_data img (ff_priv (fl_fs st)) cs)" "unat sz * unat nmemb < 2 ^ 32"
  shows "\<exists>st' desc'. fread F disks_addr ptr sz nmemb stream st = Some (word_of_nat n, st')
     \<and> fl_mem st' = write_bytes (fl_mem st) ptr (take n (drop p (take fsize (chain_data img (ff_priv (fl_fs st)) cs))))
     \<and> ff_desc (fl_fs st') (fld FILE_private_data (fl_mem st) stream) = desc' \<and> ready (snd (ff_dev (fl_fs st')))
     \<and> unat (fd_pos desc') = p + n \<and> (fd_eof desc' \<longleftrightarrow> fsize \<le> p + n) \<and> fd_item desc' = fd_item desc"
proof -
  have "\<exists>desc' dv'. fat16_read rb junk (ff_priv (fl_fs st)) desc sz nmemb (ff_dev (fl_fs st))
      = Some (word_of_nat n, take n (drop p (take fsize (chain_data img (ff_priv (fl_fs st)) cs))), desc', dv') \<and> ready (snd dv')
      \<and> unat (fd_pos desc') = p + n \<and> (fd_eof desc' \<longleftrightarrow> fsize \<le> p + n) \<and> fd_item desc' = fd_item desc"
    unfolding n_def fsize_def p_def
    by (rule fat_volume.read_content [OF assms(6-8)])
      (use assms(9-) in \<open>simp_all add: fat_volume.file_item_def [OF assms(6)] fsize_def\<close>)
  then obtain desc' dv' where r: "fat16_read rb junk (ff_priv (fl_fs st)) desc sz nmemb (ff_dev (fl_fs st))
      = Some (word_of_nat n, take n (drop p (take fsize (chain_data img (ff_priv (fl_fs st)) cs))), desc', dv')"
    "ready (snd dv')" "unat (fd_pos desc') = p + n" "fd_eof desc' \<longleftrightarrow> fsize \<le> p + n" "fd_item desc' = fd_item desc" by blast
  from assms(5) show ?thesis
  proof (rule fat16_stream_access)
    fix filename extension
    assume "file_table_at (sint (fld FILE_fileno (fl_mem st) stream)) st = Some stream"
      "stream_ops F disks_addr stream st = Some (fat16_operations rb junk disks_addr filename extension)" "stream \<noteq> NULL"
    then show ?thesis using r by (simp add: fread_def fat16_operations_def desc_def)
  qed
qed

definition demo_stream_state :: "ata_view fat_fs file_state" where
  "demo_stream_state = (demo_file_state \<lparr>ff_priv = avocado_priv, ff_dev = demo_dev, ff_desc = \<lambda>_. demo_desc\<rparr>)
     \<lparr>fl_ks := \<lparr>ks_mem = set_fld FILE_disk (\<lambda>_. 0) 0x5000 0x8000, ks_heap = demo_heap\<rparr>,
      fl_table := 0x5000 # replicate 99 NULL\<rparr>"

definition demo_ops :: "addr \<Rightarrow> ata_view fat_fs filesystem_operations_t" where
  "demo_ops a = fat16_operations (sim_rb demo_volume) [0, 0] 0x8000 0x6000 0x6010"

lemma demo_stream_open: "fat16_stream demo_ops (sim_rb demo_volume) [0, 0] 0x8000 0x5000 demo_stream_state"
proof -
  have "fld FILE_fileno (set_fld FILE_disk (\<lambda>_. 0) 0x5000 0x8000) 0x5000 = 0"
    by (simp add: fld_field) (simp add: fld_def load32_def)
  then have "open_files demo_stream_state"
    by (auto simp: open_files_def demo_stream_state_def demo_file_state_def MAX_OPEN_FILES_def nth_Cons split: nat.splits)
  then show ?thesis by (auto simp: fat16_stream_def demo_stream_state_def demo_file_state_def demo_ops_def)
qed

theorem fread_delivers_file_witness:
  "\<exists>st'. fread demo_ops 0x8000 0xA000 2 5 0x5000 demo_stream_state = Some (10, st')
     \<and> fl_mem st' = write_bytes (fl_mem demo_stream_state) 0xA000
         (take 10 (drop 65530 (take 70000 (chain_data demo_volume avocado_priv [2, 5]))))"
  using fread_delivers_file [OF demo_stream_open, where img = demo_volume and nsec = 8192 and ready = av_idle
      and cs = "[2, 5]" and sz = 2 and nmemb = 5 and ptr = "0xA000"] fv.fat_volume_axioms [of demo_volume] demo_chain demo_dev_idle
  by (auto simp: demo_stream_state_def demo_file_state_def demo_desc_def demo_item_def fat16_item_is_root_dir_def FAT16_FILE_FLAG_def
      FAT16_ROOT_DIRECTORY_FLAG_def fat16_cluster_number_to_data_sector_def length_chain_data)

end
