(* ===== verification/Idt.thy ===== *)
theory Idt
  imports Tasks Disk
begin

text \<open>
  Interrupts, \<^verbatim>\<open>src/idt/idt.c\<close>: the descriptor table, the table of handlers, the dispatcher that the assembly
  wrapper calls with a pointer to the saved frame, the software interrupt the kernel raises itself through that
  wrapper (\<^verbatim>\<open>src/idt/idt.asm\<close>), and the masks of the interrupt controllers. The state joins
  that of the tasks with the devices behind the ports, which the instructions \<open>in\<close> and \<open>out\<close> act on. The entry
  points \<open>isr_table\<close> and the address of the table are arguments. \<open>None\<close> is a panic, an access outside an array, an
  undefined shift, or an operation that never returns.
\<close>

section \<open>The code\<close>

definition KERNEL_TOTAL_INTERRUPTS :: nat where "KERNEL_TOTAL_INTERRUPTS = 256"
definition INTGATE :: u8 where "INTGATE = 0x8E"
definition TRAPGATE :: u8 where "TRAPGATE = 0xEF"
definition PIC1_DATA :: u16 where "PIC1_DATA = 0x20 + 1"
definition PIC2_DATA :: u16 where "PIC2_DATA = 0xA0 + 1"

record idt_desc =
  offset_1 :: u16
  selector :: u16
  zero_byte :: u8
  type_attr :: u8
  offset_2 :: u16

record idtr_desc =
  idtr_limit :: u16
  idtr_base :: u32

datatype isr_handler = isr_0x0_handler | isr_0x1_handler | isr_0x6_handler | isr_0xE_handler
  | int_0x21_handler | int_0x20_handler | int_0xD_handler | no_int_handler

record 'd cpu_state =
  cs_tk :: task_state
  cs_dev :: 'd
  idt_descriptors :: "idt_desc list"
  idtr_descriptor :: idtr_desc
  isr_handlers :: "isr_handler option list"

abbreviation cs_mem :: "'d cpu_state \<Rightarrow> mem" where "cs_mem st \<equiv> tk_mem (cs_tk st)"

text \<open>The offsets in \<open>struct interrupt_frame\<close>.\<close>

abbreviation frame_int_no :: u32 where "frame_int_no \<equiv> 48"
abbreviation frame_error_code :: u32 where "frame_error_code \<equiv> 52"
abbreviation frame_eip :: u32 where "frame_eip \<equiv> 56"

definition enable_interrupts :: "task_state \<Rightarrow> task_state" where
  "enable_interrupts st = st\<lparr>tk_pg := (tk_pg st)\<lparr>pg_interrupts := True\<rparr>\<rparr>"

definition disable_interrupts :: "task_state \<Rightarrow> task_state" where
  "disable_interrupts st = st\<lparr>tk_pg := (tk_pg st)\<lparr>pg_interrupts := False\<rparr>\<rparr>"

definition pic_ack :: "'d port_io \<Rightarrow> int \<Rightarrow> 'd \<Rightarrow> 'd" where
  "pic_ack io intno d = outb io 0x20 0x20 (if intno \<ge> 40 then outb io 0xA0 0x20 d else d)"

definition cs_print :: "(terminal \<Rightarrow> terminal option) \<Rightarrow> 'd cpu_state \<Rightarrow> 'd cpu_state option" where
  "cs_print f st = (case tk_print f (cs_tk st) of None \<Rightarrow> None | Some tk \<Rightarrow> Some (st\<lparr>cs_tk := tk\<rparr>))"

text \<open>The handlers: the pointer they return and the state.\<close>

definition handle_0x0 :: "addr \<Rightarrow> 'd cpu_state \<Rightarrow> (addr \<times> 'd cpu_state) option" where
  "handle_0x0 interrupt_frame st =
     map_option (Pair interrupt_frame) (cs_print (Some \<circ> print_literal (''DIV0'' @ [CHR 0x0A])) st)"

definition handle_0x1 :: "addr \<Rightarrow> 'd cpu_state \<Rightarrow> (addr \<times> 'd cpu_state) option" where
  "handle_0x1 interrupt_frame st =
     map_option (Pair interrupt_frame) (cs_print (Some \<circ> print_literal (''ISR1'' @ [CHR 0x0A])) st)"

definition handle_0x21 :: "addr \<Rightarrow> 'd cpu_state \<Rightarrow> (addr \<times> 'd cpu_state) option" where
  "handle_0x21 interrupt_frame st =
     map_option (Pair interrupt_frame) (cs_print (Some \<circ> print_literal (''Int 0x21 - Keyboard'' @ [CHR 0x0A])) st)"

definition handle_0x20 :: "addr \<Rightarrow> 'd cpu_state \<Rightarrow> (addr \<times> 'd cpu_state) option" where
  "handle_0x20 interrupt_frame st =
     (case schedule interrupt_frame (cs_tk st) of None \<Rightarrow> None
      | Some (r, tk) \<Rightarrow> Some (fld tcb_kernel_stack_pointer (tk_mem tk) (current_task tk), st\<lparr>cs_tk := tk\<rparr>))"

definition handle_no_int :: "'d port_io \<Rightarrow> addr \<Rightarrow> 'd cpu_state \<Rightarrow> (addr \<times> 'd cpu_state) option" where
  "handle_no_int io interrupt_frame st =
     (let st1 = st\<lparr>cs_dev := snd (insb io 0x20 (outb io 0x20 0x0B (cs_dev st)))\<rparr>;
          int_no = fld frame_int_no (cs_mem st1) interrupt_frame
      in map_option (Pair interrupt_frame)
           (cs_print (\<lambda>t. map_option (print_literal ('' '' @ [CHR 0x0A])) (print_itoa int_no (print_literal ''No Int handler -> '' t))) st1))"

text \<open>
  Of the other handlers that of vector 6 prints and loops forever, those of vectors 13 and 14 print and panic: none
  of the three returns.
\<close>

definition run_handler :: "'d port_io \<Rightarrow> isr_handler \<Rightarrow> addr \<Rightarrow> 'd cpu_state \<Rightarrow> (addr \<times> 'd cpu_state) option" where
  "run_handler io h =
     (case h of isr_0x0_handler \<Rightarrow> handle_0x0 | isr_0x1_handler \<Rightarrow> handle_0x1 | isr_0x6_handler \<Rightarrow> (\<lambda>_ _. None)
      | isr_0xE_handler \<Rightarrow> (\<lambda>_ _. None) | int_0x21_handler \<Rightarrow> handle_0x21 | int_0x20_handler \<Rightarrow> handle_0x20
      | int_0xD_handler \<Rightarrow> (\<lambda>_ _. None) | no_int_handler \<Rightarrow> handle_no_int io)"

definition isr_dispatcher :: "'d port_io \<Rightarrow> addr \<Rightarrow> 'd cpu_state \<Rightarrow> (addr \<times> 'd cpu_state) option" where
  "isr_dispatcher io interrupt_frame st =
     (let int_no = fld frame_int_no (cs_mem st) interrupt_frame;
          st1 = (if int_no > 31 then st\<lparr>cs_dev := pic_ack io (sint (int_no - 32)) (cs_dev st)\<rparr> else st)
      in if unat int_no \<ge> KERNEL_TOTAL_INTERRUPTS then None
         else case isr_handlers st1 ! unat int_no of
             Some h \<Rightarrow> run_handler io h interrupt_frame st1
           | None \<Rightarrow> map_option (Pair interrupt_frame) (cs_print (Some \<circ> print_literal (''Unhandled Interrupt!'' @ [CHR 0x0A])) st1))"

text \<open>
  The software interrupt \<open>raise_int_20\<close> of \<^verbatim>\<open>src/idt/idt.asm\<close>, taken in the kernel. The processor and the wrapper push
  a frame of 17 words, which then begins at \<open>frame\<close> on the stack in use: the segments and general registers, the vector and the
  error code, and \<open>eip\<close>, \<open>cs\<close> and \<open>eflags\<close>; \<open>regs\<close> are the 15 values of the registers. The wrapper takes its stack pointer
  from the place of the dispatcher's argument, where the dispatcher, compiled without optimisation as the makefile has it, has
  left its answer. When that is the same frame, the registers are restored from it; another frame would be a switch of tasks, which is \<open>None\<close> here.
\<close>

definition push_frame :: "u32 \<Rightarrow> u32 list \<Rightarrow> addr \<Rightarrow> mem \<Rightarrow> mem" where
  "push_frame int_no regs frame m = store_words m frame (take 12 regs @ [int_no, 0] @ drop 12 regs)"

definition raise_int_20 :: "'d port_io \<Rightarrow> u32 list \<Rightarrow> addr \<Rightarrow> 'd cpu_state \<Rightarrow> 'd cpu_state option" where
  "raise_int_20 io regs frame st =
     (case isr_dispatcher io frame (st\<lparr>cs_tk := tk_with (cs_tk st) (push_frame 20 regs frame (cs_mem st))\<rparr>) of None \<Rightarrow> None
      | Some (esp, st1) \<Rightarrow> if esp = frame then Some st1 else None)"

text \<open>The masks of the interrupt controllers. A shift by 32 or more is undefined.\<close>

definition IRQ_set_mask :: "'d port_io \<Rightarrow> u8 \<Rightarrow> 'd \<Rightarrow> 'd option" where
  "IRQ_set_mask io IRQline d =
     (let (port, line) = (if IRQline < 8 then (PIC1_DATA, IRQline) else (PIC2_DATA, IRQline - 8))
      in if unat line \<ge> 32 then None
         else case insb io port d of (v, d1) \<Rightarrow> Some (outb io port (ucast ((ucast v :: u32) OR push_bit (unat line) 1)) d1))"

definition IRQ_clear_mask :: "'d port_io \<Rightarrow> u8 \<Rightarrow> 'd \<Rightarrow> 'd option" where
  "IRQ_clear_mask io IRQline d =
     (let (port, line) = (if IRQline < 8 then (PIC1_DATA, IRQline) else (PIC2_DATA, IRQline - 8))
      in if unat line \<ge> 32 then None
         else case insb io port d of (v, d1) \<Rightarrow> Some (outb io port (ucast ((ucast v :: u32) AND NOT (push_bit (unat line) 1))) d1))"

definition idt_set :: "int \<Rightarrow> u32 \<Rightarrow> u8 \<Rightarrow> 'd cpu_state \<Rightarrow> 'd cpu_state option" where
  "idt_set int_number a type st =
     (if 0 \<le> int_number \<and> int_number < int KERNEL_TOTAL_INTERRUPTS
      then Some (st\<lparr>idt_descriptors := (idt_descriptors st)[nat int_number :=
             \<lparr>offset_1 = ucast (a AND 0x0000ffff), selector = ucast GDT_KERNEL_CODE_SEGMENT_SELECTOR, zero_byte = 0x00,
              type_attr = type OR 0x60, offset_2 = ucast (drop_bit 16 a AND 0x0000ffff)\<rparr>]\<rparr>)
      else None)"

text \<open>The loops of \<open>idt_init\<close> over the interrupts from \<open>i\<close> up to \<open>n\<close>.\<close>

fun idt_set_loop :: "(nat \<Rightarrow> u32) \<Rightarrow> u8 \<Rightarrow> nat \<Rightarrow> nat \<Rightarrow> 'd cpu_state \<Rightarrow> 'd cpu_state option" where
  "idt_set_loop isr_table type i 0 st = Some st"
| "idt_set_loop isr_table type i (Suc n) st =
     (case idt_set (int i) (isr_table i) type st of None \<Rightarrow> None | Some st1 \<Rightarrow> idt_set_loop isr_table type (Suc i) n st1)"

definition zero_idt_desc :: idt_desc where
  "zero_idt_desc = \<lparr>offset_1 = 0, selector = 0, zero_byte = 0, type_attr = 0, offset_2 = 0\<rparr>"

text \<open>\<open>lidt\<close> hands the table to the processor and changes no state of the model.\<close>

definition idt_init :: "u32 \<Rightarrow> (nat \<Rightarrow> u32) \<Rightarrow> 'd cpu_state \<Rightarrow> 'd cpu_state option" where
  "idt_init idt_descriptors_addr isr_table st =
     (let st1 = st\<lparr>idt_descriptors := replicate KERNEL_TOTAL_INTERRUPTS zero_idt_desc,
                   idtr_descriptor := \<lparr>idtr_limit = 256 * 8 - 1, idtr_base = idt_descriptors_addr\<rparr>\<rparr>
      in case idt_set_loop isr_table INTGATE 0 3 st1 of None \<Rightarrow> None
      | Some st2 \<Rightarrow> (case idt_set 3 (isr_table 3) TRAPGATE st2 of None \<Rightarrow> None
      | Some st3 \<Rightarrow> (case idt_set 4 (isr_table 4) TRAPGATE st3 of None \<Rightarrow> None
      | Some st4 \<Rightarrow> (case idt_set_loop isr_table INTGATE 5 43 st4 of None \<Rightarrow> None
      | Some st5 \<Rightarrow> Some (st5\<lparr>isr_handlers := (replicate KERNEL_TOTAL_INTERRUPTS (Some no_int_handler))
            [0 := Some isr_0x0_handler, 1 := Some isr_0x1_handler, 6 := Some isr_0x6_handler, 0xE := Some isr_0xE_handler,
             0x20 := Some int_0x20_handler, 0x21 := Some int_0x21_handler, 0xD := Some int_0xD_handler]\<rparr>)))))"

section \<open>The table of gates\<close>

lemma word_halves:
  fixes a :: u32
  shows "(ucast (ucast (a AND 0xFFFF) :: u16) :: u32) OR push_bit 16 (ucast (ucast (drop_bit 16 a AND 0xFFFF) :: u16)) = a"
proof (rule bit_eqI)
  fix n assume "possible_bit TYPE(32 word) n"
  then have "n < 32" by simp
  moreover have "bit (0xFFFF :: u32) k = (k < 16)" if "k < 32" for k
    using that bit_mask_iff [of 16 k, where 'a = "32 word"] by (simp add: mask_eq_exp_minus_1)
  ultimately show "bit ((ucast (ucast (a AND 0xFFFF) :: u16) :: u32) OR push_bit 16 (ucast (ucast (drop_bit 16 a AND 0xFFFF) :: u16))) n = bit a n"
    by (cases "n < 16") (auto simp: bit_simps)
qed

definition gate_address :: "idt_desc \<Rightarrow> u32" where
  "gate_address d = ucast (offset_1 d) OR push_bit 16 (ucast (offset_2 d))"

text \<open>A gate of the kernel's code segment for \<open>a\<close>, of the given type.\<close>

definition gate_for :: "u32 \<Rightarrow> u8 \<Rightarrow> idt_desc \<Rightarrow> bool" where
  "gate_for a type d \<longleftrightarrow> gate_address d = a \<and> selector d = 8 \<and> zero_byte d = 0 \<and> type_attr d = type"

lemma idt_set_gate:
  assumes "length (idt_descriptors st) = 256" "i < 256"
  obtains d where "idt_set (int i) a type st = Some (st\<lparr>idt_descriptors := (idt_descriptors st)[i := d]\<rparr>)" "gate_for a (type OR 0x60) d"
  using assms that
  by (auto simp: idt_set_def KERNEL_TOTAL_INTERRUPTS_def gate_for_def gate_address_def word_halves GDT_KERNEL_CODE_SEGMENT_SELECTOR_def)

lemma idt_set_loop_gates:
  assumes "length (idt_descriptors st) = 256" "i + n \<le> 256"
  shows "\<exists>ds. idt_set_loop tbl type i n st = Some (st\<lparr>idt_descriptors := ds\<rparr>) \<and> length ds = 256
    \<and> (\<forall>j. i \<le> j \<longrightarrow> j < i + n \<longrightarrow> gate_for (tbl j) (type OR 0x60) (ds ! j))
    \<and> (\<forall>j. j < i \<or> i + n \<le> j \<longrightarrow> j < 256 \<longrightarrow> ds ! j = idt_descriptors st ! j)"
  using assms
proof (induction n arbitrary: i st)
  case 0
  then show ?case by (intro exI [of _ "idt_descriptors st"]) auto
next
  case (Suc n)
  obtain d where d: "idt_set (int i) (tbl i) type st = Some (st\<lparr>idt_descriptors := (idt_descriptors st)[i := d]\<rparr>)" "gate_for (tbl i) (type OR 0x60) d"
    by (rule idt_set_gate [OF Suc.prems(1), of i "tbl i" type]) (use Suc.prems in auto)
  from Suc.IH [of "st\<lparr>idt_descriptors := (idt_descriptors st)[i := d]\<rparr>" "Suc i"] Suc.prems obtain ds where
    ds: "idt_set_loop tbl type (Suc i) n (st\<lparr>idt_descriptors := (idt_descriptors st)[i := d]\<rparr>) = Some (st\<lparr>idt_descriptors := ds\<rparr>)" "length ds = 256"
    "\<forall>j. Suc i \<le> j \<longrightarrow> j < Suc i + n \<longrightarrow> gate_for (tbl j) (type OR 0x60) (ds ! j)"
    "\<forall>j. j < Suc i \<or> Suc i + n \<le> j \<longrightarrow> j < 256 \<longrightarrow> ds ! j = (idt_descriptors st)[i := d] ! j" by auto
  have "gate_for (tbl j) (type OR 0x60) (ds ! j)" if "i \<le> j" "j < i + Suc n" for j
    using ds(3,4) d(2) that Suc.prems by (cases "j = i") auto
  moreover have "ds ! j = idt_descriptors st ! j" if "j < i \<or> i + Suc n \<le> j" "j < 256" for j using ds(4) that by auto
  ultimately show ?case using d(1) ds(1,2) by (intro exI [of _ ds]) simp
qed

lemma idt_init_builds:
  "\<exists>st'. idt_init base tbl st = Some st' \<and> idtr_descriptor st' = \<lparr>idtr_limit = 2047, idtr_base = base\<rparr>
     \<and> length (idt_descriptors st') = 256 \<and> length (isr_handlers st') = 256
     \<and> (\<forall>i<48. gate_for (tbl i) (if i = 3 \<or> i = 4 then 0xEF else 0xEE) (idt_descriptors st' ! i))
     \<and> (\<forall>i<256. 48 \<le> i \<longrightarrow> idt_descriptors st' ! i = zero_idt_desc)
     \<and> (\<forall>i<256. isr_handlers st' ! i \<noteq> None) \<and> isr_handlers st' ! 0x20 = Some int_0x20_handler
     \<and> cs_tk st' = cs_tk st \<and> cs_dev st' = cs_dev st"
proof -
  let ?s = "\<lambda>ds. st\<lparr>idtr_descriptor := \<lparr>idtr_limit = 2047, idtr_base = base\<rparr>, idt_descriptors := ds\<rparr>"
  let ?z = "replicate 256 zero_idt_desc"
  obtain ds1 where d1: "idt_set_loop tbl INTGATE 0 3 (?s ?z) = Some (?s ds1)" "length ds1 = 256"
    "\<forall>j<3. gate_for (tbl j) 0xEE (ds1 ! j)" "\<forall>j. 3 \<le> j \<longrightarrow> j < 256 \<longrightarrow> ds1 ! j = zero_idt_desc"
    using idt_set_loop_gates [of "?s ?z" 0 3 tbl INTGATE] by (auto simp: INTGATE_def)
  obtain g3 where g3: "idt_set 3 (tbl 3) TRAPGATE (?s ds1) = Some (?s (ds1[3 := g3]))" "gate_for (tbl 3) 0xEF g3"
    using idt_set_gate [of "?s ds1" 3 "tbl 3" TRAPGATE] d1(2) by (auto simp: TRAPGATE_def)
  obtain g4 where g4: "idt_set 4 (tbl 4) TRAPGATE (?s (ds1[3 := g3])) = Some (?s (ds1[3 := g3, 4 := g4]))" "gate_for (tbl 4) 0xEF g4"
    using idt_set_gate [of "?s (ds1[3 := g3])" 4 "tbl 4" TRAPGATE] d1(2) by (auto simp: TRAPGATE_def)
  obtain ds2 where d2: "idt_set_loop tbl INTGATE 5 43 (?s (ds1[3 := g3, 4 := g4])) = Some (?s ds2)" "length ds2 = 256"
    "\<forall>j. 5 \<le> j \<longrightarrow> j < 48 \<longrightarrow> gate_for (tbl j) 0xEE (ds2 ! j)"
    "\<forall>j. j < 5 \<or> 48 \<le> j \<longrightarrow> j < 256 \<longrightarrow> ds2 ! j = ds1[3 := g3, 4 := g4] ! j"
    using idt_set_loop_gates [of "?s (ds1[3 := g3, 4 := g4])" 5 43 tbl INTGATE] d1(2) by (auto simp: INTGATE_def)
  have swap: "st\<lparr>idt_descriptors := ?z, idtr_descriptor := \<lparr>idtr_limit = 2047, idtr_base = base\<rparr>\<rparr> = ?s ?z" by simp
  have run: "idt_init base tbl st = Some ((?s ds2)\<lparr>isr_handlers := (replicate KERNEL_TOTAL_INTERRUPTS (Some no_int_handler))
            [0 := Some isr_0x0_handler, 1 := Some isr_0x1_handler, 6 := Some isr_0x6_handler, 0xE := Some isr_0xE_handler,
             0x20 := Some int_0x20_handler, 0x21 := Some int_0x21_handler, 0xD := Some int_0xD_handler]\<rparr>)"
    using d1(1) g3(1) g4(1) d2(1) by (simp add: idt_init_def KERNEL_TOTAL_INTERRUPTS_def swap del: idt_set_loop.simps)
  have "gate_for (tbl i) (if i = 3 \<or> i = 4 then 0xEF else 0xEE) (ds2 ! i)" if "i < 48" for i
  proof -
    consider "i < 3" | "i = 3" | "i = 4" | "5 \<le> i" by linarith
    then show ?thesis by cases (use that d1 d2 g3(2) g4(2) in auto)
  qed
  moreover have "ds2 ! i = zero_idt_desc" if "48 \<le> i" "i < 256" for i using that d1(4) d2(4) by simp
  ultimately show ?thesis using run d2(2) by (simp add: KERNEL_TOTAL_INTERRUPTS_def nth_list_update)
qed

text \<open>
  C24: \<open>idt_init\<close> builds the interrupt table. It succeeds; the first 48 gates lead to the entry points of
  \<open>isr_table\<close> through the kernel's code segment, the breakpoint and overflow gates as trap gates and all others
  as interrupt gates, each of privilege 3; the other gates are not present; every one of the 256 vectors
  has a handler, the timer's at 0x20, so the dispatcher never meets an empty entry.
\<close>

theorem idt_init_gates:
  "\<exists>st'. idt_init base tbl st = Some st' \<and> idtr_descriptor st' = \<lparr>idtr_limit = 2047, idtr_base = base\<rparr>
     \<and> length (idt_descriptors st') = 256 \<and> length (isr_handlers st') = 256
     \<and> (\<forall>i<48. gate_for (tbl i) (if i = 3 \<or> i = 4 then 0xEF else 0xEE) (idt_descriptors st' ! i))
     \<and> (\<forall>i<256. 48 \<le> i \<longrightarrow> idt_descriptors st' ! i = zero_idt_desc)
     \<and> (\<forall>i<256. isr_handlers st' ! i \<noteq> None) \<and> isr_handlers st' ! 0x20 = Some int_0x20_handler
     \<and> cs_tk st' = cs_tk st \<and> cs_dev st' = cs_dev st"
  by (rule idt_init_builds)

theorem idt_init_gates_witness:
  "\<exists>st'. idt_init 0xC0005000 (\<lambda>i. 0xC0100000 + 32 * word_of_nat i) (undefined :: unit cpu_state) = Some st'
     \<and> gate_address (idt_descriptors st' ! 0x21) = 0xC0100420 \<and> isr_handlers st' ! 0x2F \<noteq> None"
proof -
  obtain st' where "idt_init 0xC0005000 (\<lambda>i. 0xC0100000 + 32 * word_of_nat i) (undefined :: unit cpu_state) = Some st'"
    "\<forall>i<48. gate_for (0xC0100000 + 32 * word_of_nat i) (if i = 3 \<or> i = 4 then 0xEF else 0xEE) (idt_descriptors st' ! i)"
    "\<forall>i<256. isr_handlers st' ! i \<noteq> None"
    using idt_init_gates [of "0xC0005000" "\<lambda>i. 0xC0100000 + 32 * word_of_nat i"] by metis
  then show ?thesis by (intro exI [of _ st']) (simp add: gate_for_def)
qed

section \<open>Dispatching\<close>

lemma cs_print_total: "(\<And>t. \<exists>t'. f t = Some t') \<Longrightarrow> \<exists>t. cs_print f st = Some (st\<lparr>cs_tk := (cs_tk st)\<lparr>tk_pg := (tk_pg (cs_tk st))\<lparr>pg_term := t\<rparr>\<rparr>\<rparr>)"
proof -
  assume "\<And>t. \<exists>t'. f t = Some t'"
  then obtain t where "tk_print f (cs_tk st) = Some ((cs_tk st)\<lparr>tk_pg := (tk_pg (cs_tk st))\<lparr>pg_term := t\<rparr>\<rparr>)"
    by (rule tk_print_total)
  then show ?thesis by (auto simp: cs_print_def)
qed

text \<open>
  C9: the timer interrupt. When the wrapper enters \<open>isr_dispatcher\<close> with the frame of the interrupted task, the
  dispatcher acknowledges the master controller once, saves the frame, moves the task to the end of the queue and
  returns the saved frame of the next task, whose kernel stack and page directory are then in force.
\<close>

theorem timer_interrupt_switches:
  assumes "tasks_inv (cs_tk st) q" "fld frame_int_no (cs_mem st) frame = 0x20" "isr_handlers st ! 0x20 = Some int_0x20_handler"
  shows "\<exists>st'. isr_dispatcher io frame st = Some (fst (rr_schedule frame (queue_of (cs_tk st) q)), st')
     \<and> cs_dev st' = outb io 0x20 0x20 (cs_dev st) \<and> tasks_inv (cs_tk st') (rotate1 q)
     \<and> queue_of (cs_tk st') (rotate1 q) = snd (rr_schedule frame (queue_of (cs_tk st) q))
     \<and> (1 < length q \<longrightarrow> runs (cs_tk st') (hd (rotate1 q)))"
proof -
  obtain tk where tk: "schedule frame (cs_tk st) = Some (fst (rr_schedule frame (queue_of (cs_tk st) q)), tk)"
    "tasks_inv tk (rotate1 q)" "queue_of tk (rotate1 q) = snd (rr_schedule frame (queue_of (cs_tk st) q))"
    "1 < length q \<longrightarrow> runs tk (hd (rotate1 q))" by (rule schedule_step [OF assms(1), of frame]) blast
  have ring: "task_ring (tk_mem tk) (rotate1 q)" "current_task tk = hd (rotate1 q)" using tk(2) by (simp_all add: tasks_inv_def)
  have "fld tcb_kernel_stack_pointer (tk_mem tk) (current_task tk) = fst (rr_schedule frame (queue_of (cs_tk st) q))"
  proof -
    have ne: "rotate1 q \<noteq> []" "q \<noteq> []" using task_ringD(1) [OF ring(1)] by auto
    then have "snd (hd (queue_of tk (rotate1 q))) = fld tcb_kernel_stack_pointer (tk_mem tk) (current_task tk)"
      by (simp add: queue_of_def ring(2) hd_map)
    moreover have "fst (rr_schedule frame Q) = snd (hd (snd (rr_schedule frame Q)))" if "Q \<noteq> []" for Q
      using that by (cases Q) (simp_all add: rr_schedule_Cons del: rr_schedule.simps)
    ultimately show ?thesis using tk(3) ne(2) by (simp add: queue_of_def)
  qed
  then have "isr_dispatcher io frame st
      = Some (fst (rr_schedule frame (queue_of (cs_tk st) q)), st\<lparr>cs_dev := outb io 0x20 0x20 (cs_dev st), cs_tk := tk\<rparr>)"
    using assms(2,3) tk(1)
    by (simp add: isr_dispatcher_def run_handler_def handle_0x20_def pic_ack_def KERNEL_TOTAL_INTERRUPTS_def Let_def)
  then show ?thesis using tk by simp
qed

text \<open>
  C39: the interrupts of the slave controller are never acknowledged there. The dispatcher passes \<open>int_no - 32\<close> to
  \<open>pic_ack\<close>, which compares it with 40 as if it were the vector: for the vectors 40 to 47 of the slave only the
  master gets an end-of-interrupt, so the slave delivers no further interrupt of that level.
\<close>

theorem slave_not_acknowledged:
  assumes "40 \<le> unat (fld frame_int_no (cs_mem st) frame)" "unat (fld frame_int_no (cs_mem st) frame) < 48"
    and "isr_handlers st ! unat (fld frame_int_no (cs_mem st) frame) = Some no_int_handler"
  shows "\<exists>st'. isr_dispatcher io frame st = Some (frame, st')
     \<and> cs_dev st' = snd (insb io 0x20 (outb io 0x20 0x0B (outb io 0x20 0x20 (cs_dev st))))"
proof -
  define n where "n = fld frame_int_no (cs_mem st) frame"
  have n: "40 \<le> unat n" "unat n < 48" "isr_handlers st ! unat n = Some no_int_handler" using assms by (simp_all add: n_def)
  have gt: "n > 31" using n(1) by (simp add: word_less_nat_alt)
  define j where "j = unat n - 32"
  have "unat (n - 32) = j" using n(1) unat_sub [of 32 n] by (simp add: word_le_nat_alt j_def)
  then have "n - 32 = word_of_nat j" by auto
  moreover have "sint (word_of_nat j :: u32) = int j" using n(2) by (intro sint_word_of_nat) (simp add: j_def)
  ultimately have "sint (n - 32) < 40" using n(2) by (simp add: j_def)
  then have ack: "pic_ack io (sint (n - 32)) d = outb io 0x20 0x20 d" for d by (simp add: pic_ack_def)
  let ?s = "st\<lparr>cs_dev := outb io 0x20 0x20 (cs_dev st)\<rparr>"
  have run: "isr_dispatcher io frame st = handle_no_int io frame ?s"
    using gt n by (simp add: isr_dispatcher_def n_def [symmetric] ack run_handler_def KERNEL_TOTAL_INTERRUPTS_def)
  let ?f = "\<lambda>t. map_option (print_literal ('' '' @ [CHR 0x0A])) (print_itoa n (print_literal ''No Int handler -> '' t))"
  let ?d = "st\<lparr>cs_dev := snd (insb io 0x20 (outb io 0x20 0x0B (outb io 0x20 0x20 (cs_dev st))))\<rparr>"
  have "\<exists>t'. ?f t = Some t'" for t using print_itoa_total [of n "print_literal ''No Int handler -> '' t"] by auto
  then obtain t where "cs_print ?f ?d = Some (?d\<lparr>cs_tk := (cs_tk ?d)\<lparr>tk_pg := (tk_pg (cs_tk ?d))\<lparr>pg_term := t\<rparr>\<rparr>\<rparr>)"
    using cs_print_total [of ?f ?d] by blast
  then show ?thesis using run by (simp add: handle_no_int_def n_def [symmetric])
qed

text \<open>
  Vector 20 has no handler of its own: the interrupt prints, asks the master controller for its in-service register, and
  leaves nothing else but its frame.
\<close>

lemma idt_init_vector_20: "idt_init base tbl st = Some st' \<Longrightarrow> isr_handlers st' ! 20 = Some no_int_handler"
  by (auto simp: idt_init_def KERNEL_TOTAL_INTERRUPTS_def Let_def nth_list_update split: option.splits)

lemma raise_int_20_prints:
  assumes "isr_handlers st ! 20 = Some no_int_handler" "length regs = 15"
  shows "\<exists>t. raise_int_20 io regs frame st = Some (st\<lparr>cs_dev := snd (insb io 0x20 (outb io 0x20 0x0B (cs_dev st))),
    cs_tk := (tk_with (cs_tk st) (push_frame 20 regs frame (cs_mem st)))\<lparr>tk_pg :=
      (tk_pg (tk_with (cs_tk st) (push_frame 20 regs frame (cs_mem st))))\<lparr>pg_term := t\<rparr>\<rparr>\<rparr>)"
proof -
  let ?m = "push_frame 20 regs frame (cs_mem st)"
  let ?s = "st\<lparr>cs_tk := tk_with (cs_tk st) ?m\<rparr>"
  let ?d = "?s\<lparr>cs_dev := snd (insb io 0x20 (outb io 0x20 0x0B (cs_dev st)))\<rparr>"
  have "load32 ?m (frame + 4 * word_of_nat 12) = 20"
    unfolding push_frame_def using assms(2) by (subst load_store_words) (simp_all add: nth_append)
  then have n: "fld frame_int_no ?m frame = 20" by (simp add: fld_def)
  let ?f = "\<lambda>t. map_option (print_literal ('' '' @ [CHR 0x0A])) (print_itoa 20 (print_literal ''No Int handler -> '' t))"
  have "\<exists>t'. ?f t = Some t'" for t using print_itoa_total [of 20 "print_literal ''No Int handler -> '' t"] by auto
  then obtain t where "cs_print ?f ?d = Some (?d\<lparr>cs_tk := (cs_tk ?d)\<lparr>tk_pg := (tk_pg (cs_tk ?d))\<lparr>pg_term := t\<rparr>\<rparr>\<rparr>)"
    using cs_print_total [of ?f ?d] by blast
  moreover have "isr_dispatcher io frame ?s = handle_no_int io frame ?s"
    using n assms(1) by (simp add: isr_dispatcher_def run_handler_def KERNEL_TOTAL_INTERRUPTS_def)
  ultimately show ?thesis using n by (intro exI [of _ t]) (simp add: raise_int_20_def handle_no_int_def)
qed

section \<open>Interrupt masks\<close>

text \<open>
  The masks of the interrupt controllers. On controllers whose mask register reads back what was written,
  \<open>IRQ_set_mask\<close> sets the bit of one of the sixteen lines and \<open>IRQ_clear_mask\<close> clears it; no other line changes.
\<close>

definition irq_masked :: "('d \<Rightarrow> u16 \<Rightarrow> u8) \<Rightarrow> 'd \<Rightarrow> nat \<Rightarrow> bool" where
  "irq_masked reg d l \<longleftrightarrow> (if l < 8 then bit (reg d PIC1_DATA) l else bit (reg d PIC2_DATA) (l - 8))"

theorem irq_mask_lines:
  assumes "\<And>d p. p = PIC1_DATA \<or> p = PIC2_DATA \<Longrightarrow> insb io p d = (reg d p, d)"
    and "\<And>d p v. p = PIC1_DATA \<or> p = PIC2_DATA \<Longrightarrow> reg (outb io p v d) = (reg d)(p := v)"
    and "line < 16" "l < 16"
  shows "\<exists>d1 d2. IRQ_set_mask io line d = Some d1 \<and> irq_masked reg d1 l = (l = unat line \<or> irq_masked reg d l)
    \<and> IRQ_clear_mask io line d = Some d2 \<and> irq_masked reg d2 l = (l \<noteq> unat line \<and> irq_masked reg d l)"
proof -
  have bits: "bit (ucast ((ucast v :: u32) OR push_bit k 1) :: u8) j = (j = k \<or> bit v j)"
    "bit (ucast ((ucast v :: u32) AND NOT (push_bit k 1)) :: u8) j = (j \<noteq> k \<and> bit v j)" if "k < 8" "j < 8" for v :: u8 and k j
    using that by (auto simp: bit_simps)
  have ports: "PIC1_DATA \<noteq> PIC2_DATA" by (simp add: PIC1_DATA_def PIC2_DATA_def)
  show ?thesis
  proof (cases "line < 8")
    case True
    then have "unat line < 8" by (simp add: word_less_nat_alt)
    then show ?thesis using True assms(1,2) bits [of "unat line"] assms(4) ports
      by (auto simp: IRQ_set_mask_def IRQ_clear_mask_def irq_masked_def)
  next
    case False
    then have k: "unat (line - 8) = unat line - 8" "8 \<le> unat line" "unat line < 16"
      using assms(3) unat_sub [of 8 line] by (simp_all add: word_less_nat_alt word_le_nat_alt)
    then show ?thesis using False assms(1,2) bits [of "unat line - 8"] assms(4) ports
      by (auto simp: IRQ_set_mask_def IRQ_clear_mask_def irq_masked_def)
  qed
qed

section \<open>Two tasks and their controllers\<close>

text \<open>The ports of two interrupt controllers, as the list of the bytes written and the two mask registers.\<close>

definition pic_io :: "((u16 \<times> u8) list \<times> (u16 \<Rightarrow> u8)) port_io" where
  "pic_io = \<lparr>outb = (\<lambda>p v (w, r). (w @ [(p, v)], r(p := v))), insb = (\<lambda>p (w, r). (r p, (w, r))),
     insw = (\<lambda>p (w, r). (ucast (r p), (w, r)))\<rparr>"

lemma pic_io_simps [simp]:
  "outb pic_io p v (w, r) = (w @ [(p, v)], r(p := v))" "insb pic_io p (w, r) = (r p, (w, r))"
  by (simp_all add: pic_io_def)

definition handler_table :: "isr_handler option list" where
  "handler_table = (replicate 256 (Some no_int_handler))[0x20 := Some int_0x20_handler]"

text \<open>The first of two tasks has been interrupted; the frame at \<open>0x13000\<close> on its kernel stack has the vector \<open>v\<close>.\<close>

lemma demo_interrupt:
  obtains st where "tasks_inv (cs_tk st) [0x10000, 0x20000]" "fld frame_int_no (cs_mem st) 0x13000 = v"
    "isr_handlers st = handler_table" "cs_dev st = ([], \<lambda>_. 0)"
proof -
  obtain tk where "tasks_held tk Map.empty [0x10000, 0x20000] 4094" by (rule demo_tasks)
  then have tk: "task_ring (tk_mem tk) [0x10000, 0x20000]" "current_task tk = 0x10000"
    by (simp_all add: tasks_held_def tasks_inv_def Let_def)
  let ?m = "set_fld 0x3030 (tk_mem tk) 0x10000 v"
  have "task_ring ?m [0x10000, 0x20000]"
    by (rule task_ring_write [OF tk(1), of "0x10000"]) (simp_all add: fld_field set_fld_outside [where n = 16384])
  moreover have "fld frame_int_no ?m 0x13000 = v"
    using fld_same [of "0x3030" "tk_mem tk" "0x10000" v] by (simp add: fld_def)
  ultimately show thesis
    using that [of "\<lparr>cs_tk = tk_with tk ?m, cs_dev = ([], \<lambda>_. 0), idt_descriptors = [],
        idtr_descriptor = \<lparr>idtr_limit = 0, idtr_base = 0\<rparr>, isr_handlers = handler_table\<rparr>"] tk(2)
    by (simp add: tasks_inv_def)
qed

theorem timer_interrupt_switches_witness:
  "\<exists>st st'. fld frame_int_no (cs_mem st) 0x13000 = 0x20
     \<and> isr_dispatcher pic_io 0x13000 st = Some (fld tcb_kernel_stack_pointer (cs_mem st) 0x20000, st')
     \<and> fst (cs_dev st') = [(0x20, 0x20)] \<and> current_task (cs_tk st') = 0x20000"
proof -
  obtain st :: "((u16 \<times> u8) list \<times> (u16 \<Rightarrow> u8)) cpu_state" where st: "tasks_inv (cs_tk st) [0x10000, 0x20000]"
    "fld frame_int_no (cs_mem st) 0x13000 = 0x20" "isr_handlers st = handler_table" "cs_dev st = ([], \<lambda>_. 0)"
    by (rule demo_interrupt)
  have "isr_handlers st ! 0x20 = Some int_0x20_handler" using st(3) by (simp add: handler_table_def)
  from timer_interrupt_switches [OF st(1,2) this, of pic_io] st(2,4) show ?thesis
    by - (rule exI [of _ st], auto simp: queue_of_def tasks_inv_def)
qed

theorem slave_not_acknowledged_witness:
  "\<exists>st st'. fld frame_int_no (cs_mem st) 0x13000 = 0x2C \<and> isr_dispatcher pic_io 0x13000 st = Some (0x13000, st')
     \<and> fst (cs_dev st') = [(0x20, 0x20), (0x20, 0x0B)]"
proof -
  obtain st :: "((u16 \<times> u8) list \<times> (u16 \<Rightarrow> u8)) cpu_state" where st: "fld frame_int_no (cs_mem st) 0x13000 = 0x2C"
    "isr_handlers st = handler_table" "cs_dev st = ([], \<lambda>_. 0)" by (rule demo_interrupt)
  have "isr_handlers st ! 0x2C = Some no_int_handler" using st(2) by (simp add: handler_table_def)
  then show ?thesis using slave_not_acknowledged [of st "0x13000" pic_io] st(1,3)
    by - (rule exI [of _ st], auto)
qed

theorem irq_mask_lines_witness:
  "\<exists>d1 d2. IRQ_set_mask pic_io 12 ([], \<lambda>_. 0x0F) = Some d1 \<and> irq_masked snd d1 12
     \<and> IRQ_clear_mask pic_io 12 ([], \<lambda>_. 0x0F) = Some d2 \<and> \<not> irq_masked snd d2 12"
proof -
  have "insb pic_io p d = (snd d p, d)" "snd (outb pic_io p v d) = (snd d)(p := v)" for p v d
    by (cases d; simp)+
  then show ?thesis using irq_mask_lines [of pic_io snd 12 12 "([], \<lambda>_. 0x0F)"] by auto
qed

end
