(* ===== verification/Process.thy ===== *)
theory Process
  imports Tasks File_Layer Page_Clone Idt
begin

text \<open>
  Processes, \<^verbatim>\<open>src/kernel/task/process.c\<close>: a \<open>struct process\<close> in memory with its own page directory, stack
  and first task, loaded from a file. The state joins that of the tasks with that of the file layer; both see
  one kernel heap, which is kept with the tasks. The link addresses of \<open>kernel_page_directory\<close>, \<open>system_task\<close> and
  \<open>idle_function\<close> are arguments, and so are the place and the registers of the frame that the software interrupt in
  \<open>init_system_process\<close> pushes. \<open>None\<close> is a panic, an access outside an array, or an operation that never returns.
\<close>

section \<open>The code\<close>

definition MAX_PROCESSES :: int where "MAX_PROCESSES = 1024"
definition KERNEL_VIRTUAL_BASE :: addr where "KERNEL_VIRTUAL_BASE = 0xC0000000"
definition PROGRAM_BASE_VIRT_ADDR :: addr where "PROGRAM_BASE_VIRT_ADDR = 0x400000"
definition PROGRAM_STACK_TOP_VIRT_ADDR :: addr where "PROGRAM_STACK_TOP_VIRT_ADDR = 0x4000000"
definition PROGRAM_STACK_SIZE :: u32 where "PROGRAM_STACK_SIZE = 4096"

record 'f system_state =
  sy_tk :: task_state
  sy_fl :: "'f file_state"

abbreviation sy_ks :: "'f system_state \<Rightarrow> kstate" where "sy_ks st \<equiv> pg_ks (tk_pg (sy_tk st))"
abbreviation sy_mem :: "'f system_state \<Rightarrow> mem" where "sy_mem st \<equiv> ks_mem (sy_ks st)"

definition tk_heap :: "kstate \<Rightarrow> task_state \<Rightarrow> task_state" where
  "tk_heap ks st = st\<lparr>tk_pg := (tk_pg st)\<lparr>pg_ks := ks\<rparr>\<rparr>"

text \<open>An operation of the file layer works on the heap of the kernel.\<close>

definition on_files :: "('f file_state \<Rightarrow> ('a \<times> 'f file_state) option) \<Rightarrow> 'f system_state \<Rightarrow> ('a \<times> 'f system_state) option" where
  "on_files f st =
     (case f ((sy_fl st)\<lparr>fl_ks := sy_ks st\<rparr>) of None \<Rightarrow> None
      | Some (r, fl) \<Rightarrow> Some (r, st\<lparr>sy_tk := tk_heap (fl_ks fl) (sy_tk st), sy_fl := fl\<rparr>))"

definition process_list_insert :: "addr \<Rightarrow> addr \<Rightarrow> mem \<Rightarrow> mem" where
  "process_list_insert system_task process m =
     (let system_process = fld tcb_process m system_task;
          m1 = set_fld process_next m process system_process;
          m2 = set_fld process_previous m1 process (fld process_previous m1 system_process);
          m3 = set_fld process_previous m2 system_process process
      in set_fld process_next m3 (fld process_previous m3 process) process)"

definition process_list_remove :: "addr \<Rightarrow> mem \<Rightarrow> mem" where
  "process_list_remove process m =
     (let m1 = set_fld process_next m (fld process_previous m process) (fld process_next m process);
          m2 = set_fld process_previous m1 (fld process_next m1 process) (fld process_previous m1 process);
          m3 = set_fld process_next m2 process NULL
      in set_fld process_previous m3 process NULL)"

text \<open>The error value is the status code as a pointer.\<close>

definition process_get :: "int \<Rightarrow> task_state \<Rightarrow> addr" where
  "process_get pid st = (if pid < 0 \<or> pid \<ge> MAX_PROCESSES then word_of_int (- EINVAL) else processes st (nat pid))"

text \<open>\<open>fclose\<close> of a stream, with its result dropped.\<close>

definition sy_fclose :: "(addr \<Rightarrow> 'f filesystem_operations_t) \<Rightarrow> addr \<Rightarrow> addr \<Rightarrow> 'f system_state \<Rightarrow> 'f system_state option" where
  "sy_fclose F disks_addr fd st = map_option snd (on_files (fclose F disks_addr fd) st)"

text \<open>The part of \<open>process_load_binary\<close> before the label \<open>out\<close>: status, memory, length and state. \<open>len\<close> is the caller's variable.\<close>

definition load_binary_body ::
  "(addr \<Rightarrow> 'f filesystem_operations_t) \<Rightarrow> addr \<Rightarrow> addr \<Rightarrow> u32 \<Rightarrow> 'f system_state \<Rightarrow> (int \<times> addr \<times> u32 \<times> 'f system_state) option" where
  "load_binary_body F disks_addr fd len st =
     (if fd = NULL then Some (- EIO, NULL, len, st)
      else case on_files (\<lambda>fl. case fstat F disks_addr (sint (fld FILE_fileno (fl_mem fl) fd)) zero_stat fl of None \<Rightarrow> None
               | Some (r, buf, fl1) \<Rightarrow> Some ((r, buf), fl1)) st of None \<Rightarrow> None
      | Some ((res, file_stat), st1) \<Rightarrow>
          if res \<noteq> 0 then Some (res, NULL, len, st1)
          else case kzalloc (sy_ks st1) (st_size file_stat) of None \<Rightarrow> None
          | Some (memory, ks2) \<Rightarrow>
              let st2 = st1\<lparr>sy_tk := tk_heap ks2 (sy_tk st1)\<rparr>
              in if memory = NULL then Some (- ENOMEM, NULL, len, st2)
                 else case on_files (fread F disks_addr memory (st_size file_stat) 1 fd) st2 of None \<Rightarrow> None
                 | Some (read_bytes, st3) \<Rightarrow>
                     if read_bytes \<noteq> st_size file_stat then Some (- EIO, memory, len, st3)
                     else Some (0, memory, st_size file_stat, st3))"

definition process_load_binary ::
  "(addr \<Rightarrow> 'f filesystem_operations_t) \<Rightarrow> addr \<Rightarrow> addr \<Rightarrow> u32 \<Rightarrow> 'f system_state \<Rightarrow> (int \<times> addr \<times> u32 \<times> 'f system_state) option" where
  "process_load_binary F disks_addr filename len st =
     (case on_files (fopen F disks_addr filename [114, 0]) st of None \<Rightarrow> None
      | Some (fd, st1) \<Rightarrow>
     (case load_binary_body F disks_addr fd len st1 of None \<Rightarrow> None
      | Some (res, memory, len1, st2) \<Rightarrow>
     (case sy_fclose F disks_addr fd st2 of None \<Rightarrow> None
      | Some st3 \<Rightarrow>
          if res = 0 then Some (0, memory, len1, st3)
          else case (if fd \<noteq> NULL then sy_fclose F disks_addr fd st3 else Some st3) of None \<Rightarrow> None
               | Some st4 \<Rightarrow>
              (case (if memory \<noteq> NULL then kfree (sy_ks st4) memory else Some (sy_ks st4)) of None \<Rightarrow> None
               | Some ks5 \<Rightarrow> Some (res, NULL, 0, st4\<lparr>sy_tk := tk_heap ks5 (sy_tk st4)\<rparr>)))))"

text \<open>
  \<open>process_map_memory\<close> on the paging state. A process without memory is a panic; the second check comes
  after the first access through the pointer, and a NULL pointer is the same panic here.
\<close>

definition process_map_range :: "addr \<Rightarrow> addr \<Rightarrow> addr \<Rightarrow> u32 \<Rightarrow> paging_state \<Rightarrow> (int \<times> paging_state) option" where
  "process_map_range directory virt p len st =
     (case virtual_to_physical_addr st (pg_current_directory st) p of None \<Rightarrow> None
      | Some physical_begin \<Rightarrow>
          let physical_end = paging_align_address (physical_begin + len)
          in paging_map_from_to st directory virt physical_begin physical_end
               (PAGING_WRITABLE_PAGE OR PAGING_ACCESS_FROM_ALL OR PAGING_PRESENT))"

definition process_map_memory :: "addr \<Rightarrow> addr \<Rightarrow> paging_state \<Rightarrow> (int \<times> paging_state) option" where
  "process_map_memory kernel_page_directory process st =
     (if fld process_memory (pg_mem st) process = NULL \<or> process = NULL then None
      else case paging_clone_directory kernel_page_directory kernel_page_directory st of None \<Rightarrow> None
      | Some (copy, st1) \<Rightarrow>
          let st2 = pg_store st1 (process + process_page_directory) copy
          in case process_map_range (fld process_page_directory (pg_mem st2) process) PROGRAM_BASE_VIRT_ADDR
                    (fld process_memory (pg_mem st2) process) (fld process_memory_size (pg_mem st2) process) st2 of None \<Rightarrow> None
             | Some (res, st3) \<Rightarrow>
                 if res \<noteq> 0 then Some (res, st3)
                 else process_map_range (fld process_page_directory (pg_mem st3) process) PROGRAM_STACK_TOP_VIRT_ADDR
                        (fld process_stack (pg_mem st3) process) PROGRAM_STACK_SIZE st3)"

text \<open>\<open>strncpy\<close> of a string literal.\<close>

definition strncpy_literal :: "mem \<Rightarrow> addr \<Rightarrow> string \<Rightarrow> u32 \<Rightarrow> mem" where
  "strncpy_literal m dest s n =
     (let z = take (unat n) (map of_char s) in write_bytes m dest (z @ replicate (unat n - length z) 0))"

text \<open>The results of the two allocations below are not checked.\<close>

definition init_system_process ::
  "'d port_io \<Rightarrow> u32 list \<Rightarrow> addr \<Rightarrow> addr \<Rightarrow> addr \<Rightarrow> 'd cpu_state \<Rightarrow> 'd cpu_state option" where
  "init_system_process io regs frame kernel_page_directory system_task st =
     (case kzalloc (pg_ks (tk_pg (cs_tk st))) sizeof_process of None \<Rightarrow> None
      | Some (process, ks) \<Rightarrow>
          let st1 = tk_set process_memory process KERNEL_VIRTUAL_BASE (tk_set process_memory_size process 0
                      (tk_set process_pid process 0 (tk_heap ks (cs_tk st))));
              st2 = tk_with st1 (strncpy_literal (tk_mem st1) (process + process_name) ''System Process'' MAX_PATH_LEN);
              st3 = tk_set process_previous process process (tk_set process_next process process
                      (tk_set process_task process system_task (tk_set process_page_directory process kernel_page_directory st2)));
              st4 = tk_set tcb_process system_task process (tk_set tcb_ss system_task GDT_KERNEL_DATA_SEGMENT_SELECTOR st3);
              st5 = tk_set tcb_previous system_task system_task (tk_set tcb_next system_task system_task st4);
              st6 = st5\<lparr>current_process := process, current_task := fld process_task (tk_mem st5) process\<rparr>;
              pid = sint (fld process_pid (tk_mem st6) process)
          in if pid < 0 \<or> pid \<ge> MAX_PROCESSES then None
             else raise_int_20 io regs frame (st\<lparr>cs_tk := st6\<lparr>processes := (processes st6)(nat pid := process)\<rparr>\<rparr>))"

text \<open>The stack pointer of the idle task is the byte behind its stack, extended, not the address of that byte.\<close>

definition init_idle_process :: "addr \<Rightarrow> addr \<Rightarrow> addr \<Rightarrow> task_state \<Rightarrow> task_state option" where
  "init_idle_process kernel_page_directory system_task idle_function st =
     (case kzalloc (pg_ks (tk_pg st)) sizeof_process of None \<Rightarrow> None
      | Some (process, ks) \<Rightarrow>
          let st1 = tk_set process_memory process KERNEL_VIRTUAL_BASE (tk_set process_memory_size process 0
                      (tk_set process_pid process 1 (tk_heap ks st)));
              st2 = tk_with st1 (strncpy_literal (tk_mem st1) (process + process_name) ''Idle Process'' MAX_PATH_LEN);
              st3 = tk_set process_page_directory process kernel_page_directory st2
          in case kzalloc (pg_ks (tk_pg st3)) PROGRAM_STACK_SIZE of None \<Rightarrow> None
             | Some (stack, ks4) \<Rightarrow>
                 let st4 = tk_set process_stack process stack (tk_heap ks4 st3);
                     esp = scast (tk_mem st4 (fld process_stack (tk_mem st4) process + PROGRAM_STACK_SIZE)) :: u32
                 in case task_new process True idle_function esp st4 of None \<Rightarrow> None
                    | Some (task, st5) \<Rightarrow>
                        let st6 = tk_set process_task process task st5;
                            pid = sint (fld process_pid (tk_mem st6) process)
                        in if pid < 0 \<or> pid \<ge> MAX_PROCESSES then None
                           else let st7 = st6\<lparr>processes := (processes st6)(nat pid := process)\<rparr>
                                in Some (tk_with st7 (process_list_insert system_task process (tk_mem st7))))"

definition tasking_init ::
  "'d port_io \<Rightarrow> u32 list \<Rightarrow> addr \<Rightarrow> addr \<Rightarrow> addr \<Rightarrow> addr \<Rightarrow> 'd cpu_state \<Rightarrow> 'd cpu_state option" where
  "tasking_init io regs frame kernel_page_directory system_task idle_function st =
     (case init_system_process io regs frame kernel_page_directory system_task st of None \<Rightarrow> None
      | Some st1 \<Rightarrow>
     (case init_idle_process kernel_page_directory system_task idle_function (enable_interrupts (cs_tk st1)) of None \<Rightarrow> None
      | Some tk \<Rightarrow> Some (st1\<lparr>cs_tk := tk\<rparr>)))"

text \<open>The exit of \<open>process_init\<close> from the label \<open>out\<close> on.\<close>

definition process_init_out :: "addr \<Rightarrow> int \<Rightarrow> task_state \<Rightarrow> (int \<times> task_state) option" where
  "process_init_out process res st =
     (if \<not> res < 0 \<or> process = NULL then Some (res, st)
      else let free_field = (\<lambda>k ks. let p = fld k (ks_mem ks) process in if p \<noteq> NULL then kfree ks p else Some ks)
           in case free_field process_stack (pg_ks (tk_pg st)) of None \<Rightarrow> None
              | Some ks1 \<Rightarrow>
             (case free_field process_memory ks1 of None \<Rightarrow> None
              | Some ks2 \<Rightarrow>
                  let st2 = tk_heap ks2 st;
                      st3 = (if fld process_task (tk_mem st2) process \<noteq> NULL
                             then task_free (fld process_task (tk_mem st2) process) st2 else st2)
                  in case kfree (pg_ks (tk_pg st3)) process of None \<Rightarrow> None
                     | Some ks4 \<Rightarrow> Some (res, tk_heap ks4 st3)))"

text \<open>\<open>slot\<close> is also where the caller wants the new process: \<open>&processes[slot]\<close>.\<close>

definition process_init ::
  "addr \<Rightarrow> addr \<Rightarrow> addr \<Rightarrow> addr \<Rightarrow> u32 \<Rightarrow> bool \<Rightarrow> nat \<Rightarrow> task_state \<Rightarrow> (int \<times> task_state) option" where
  "process_init kernel_page_directory system_task name memory memory_size privileged slot st =
     (case kzalloc (pg_ks (tk_pg st)) sizeof_process of None \<Rightarrow> None
      | Some (process, ks1) \<Rightarrow>
          let st1 = (tk_heap ks1 st)\<lparr>processes := (processes st)(slot := process)\<rparr>
          in if process = NULL then Some (- ENOMEM, st1)
             else let st2 = tk_set process_memory process memory (tk_set process_memory_size process memory_size
                              (tk_set process_pid process (word_of_nat slot) st1))
                  in case kzalloc (pg_ks (tk_pg st2)) PROGRAM_STACK_SIZE of None \<Rightarrow> None
                     | Some (stack, ks3) \<Rightarrow>
                         let st3 = tk_set process_stack process stack (tk_heap ks3 st2)
                         in if stack = NULL then process_init_out process (- EINVAL) st3
                            else case process_map_memory kernel_page_directory process (tk_pg st3) of None \<Rightarrow> None
                            | Some (res, pg4) \<Rightarrow>
                                let st4 = st3\<lparr>tk_pg := pg4\<rparr>
                                in if res \<noteq> 0 then process_init_out process res st4
                                   else let st5 = tk_with st4 (strncpy (tk_mem st4) (process + process_name) name MAX_PATH_LEN)
                                        in case task_new process privileged PROGRAM_BASE_VIRT_ADDR
                                                  (PROGRAM_STACK_TOP_VIRT_ADDR + PROGRAM_STACK_SIZE) st5 of None \<Rightarrow> None
                                           | Some (task, st6) \<Rightarrow>
                                               let st7 = tk_set process_task process task st6
                                               in if task = NULL then process_init_out process (- ENOMEM) st7
                                                  else Some (0, tk_with st7 (process_list_insert system_task process (tk_mem st7))))"

function process_find_slot :: "int \<Rightarrow> task_state \<Rightarrow> int" where
  "process_find_slot i st =
     (if i < MAX_PROCESSES then if process_get i st = NULL then i else process_find_slot (i + 1) st else - 1)"
  by pat_completeness auto
termination by (relation "measure (\<lambda>(i, st). nat (MAX_PROCESSES - i))") auto

text \<open>The status of \<open>process_load_binary\<close> is dropped; \<open>memory_size0\<close> is the value of an uninitialised variable.\<close>

definition process_load ::
  "(addr \<Rightarrow> 'f filesystem_operations_t) \<Rightarrow> addr \<Rightarrow> addr \<Rightarrow> addr \<Rightarrow> u32 \<Rightarrow> addr \<Rightarrow> 'f system_state \<Rightarrow> (int \<times> 'f system_state) option" where
  "process_load F disks_addr kernel_page_directory system_task memory_size0 filename st =
     (let slot_found = process_find_slot 0 (sy_tk st)
      in if slot_found < 0 then Some (- ENOMEM, st)
         else case process_load_binary F disks_addr filename memory_size0 st of None \<Rightarrow> None
         | Some (res, memory, memory_size, st1) \<Rightarrow>
        (case process_init kernel_page_directory system_task filename memory memory_size False (nat slot_found) (sy_tk st1) of
           None \<Rightarrow> None
         | Some (r, tk2) \<Rightarrow> Some (r, st1\<lparr>sy_tk := tk2\<rparr>)))"

end
