(* ===== verification/Address_Space.thy ===== *)
theory Address_Space
  imports Process
begin

text \<open>
  The address space of a process: \<open>process_map_memory\<close> clones the kernel's directory and maps the program and
  its stack into the copy. The proof joins the lemmas on cloning and on mapping ranges: writes apart from a
  directory keep it, and the kernel's own translation, which the second half of the function uses again,
  survives the changes to the copy although the two share page tables.
\<close>

section \<open>Writes apart from a directory\<close>

lemma apart_write:
  assumes inv: "pg_inv st P h k" and q: "held (pg_ks st) P q n" "apart (pg_mem st) h q n"
    and c: "regions_disjoint (pg_current_directory st) 4100 q n" "regions_disjoint (pdir (pg_mem st) (pg_current_directory st)) 4096 q n"
    and out: "\<And>a. \<not> in_region a q n \<Longrightarrow> m a = pg_mem st a"
  shows "pg_inv (pg_with st m) P h k" "pdir m h = pdir (pg_mem st) h"
    "\<And>i. i < 1024 \<Longrightarrow> pde m h i = pde (pg_mem st) h i \<and> ptbl m h i = ptbl (pg_mem st) h i"
    "\<And>i j. i < 1023 \<Longrightarrow> j < 1024 \<Longrightarrow> ptbl (pg_mem st) h i \<noteq> 0 \<Longrightarrow> pte m h i j = pte (pg_mem st) h i j"
proof -
  let ?m = "pg_mem st" and ?c = "pg_current_directory st"
  have same: "m a = ?m a" if "regions_disjoint r l q n" "in_region a r l" for a r l
    using that out regions_disjointD by blast
  have ap: "regions_disjoint h 4100 q n" "regions_disjoint (pdir ?m h) 4096 q n"
    "\<And>i. i < 1023 \<Longrightarrow> ptbl ?m h i \<noteq> 0 \<Longrightarrow> regions_disjoint (ptbl ?m h i) 4096 q n" using q(2) by (auto simp: apart_def)
  note fr = pd_frame [of h m ?m, OF same [OF ap(1)] same [OF ap(2)]]
  note fc = pd_frame [of ?c m ?m, OF same [OF c(1)] same [OF c(2)]]
  show fr': "pdir m h = pdir ?m h" "\<And>i. i < 1024 \<Longrightarrow> pde m h i = pde ?m h i \<and> ptbl m h i = ptbl ?m h i"
    using fr by simp_all
  have k: "kheap_inv (pg_ks st) P" "kheap_room (pg_ks st) k" and wf: "pd_wf st P h" and ct: "can_translate st P h"
    using inv by (auto simp: pg_inv_def)
  have heap: "ks_heap (pg_ks (pg_with st m)) = ks_heap (pg_ks st)" by simp
  have "pd_wf (pg_with st m) P h" using wf unfolding pd_wf_def Let_def held_heap [OF heap] by (simp add: fr')
  moreover have apm: "apart m h r l = apart ?m h r l" for r l using fr' by (simp add: apart_def)
  have "can_translate (pg_with st m) P h"
    using ct unfolding can_translate_def Let_def held_heap [OF heap] by (simp add: fc apm)
  ultimately show "pg_inv (pg_with st m) P h k" using held_write [OF k(1) q(1), of m] out k(2) by (simp add: pg_inv_def)
  show "pte m h i j = pte ?m h i j" if "i < 1023" "j < 1024" "ptbl ?m h i \<noteq> 0" for i j
    using fr'(2) [of i] that same [OF ap(3) [OF that(1,3)]] by (intro pte_frame) auto
qed

lemma held_region_kept:
  assumes "\<forall>a. in_region a p n \<longrightarrow> m' a = m a" "unat k + 4 \<le> n" "n \<le> 2 ^ 32"
  shows "fld k m' p = fld k m p"
  using assms by (intro fld_cong) auto

lemma frame_field:
  assumes "pg_frame st P c st' P'" "held (pg_ks st) P p n" "apart (pg_mem st) c p n" "unat j + 4 \<le> n" "n \<le> 2 ^ 32"
  shows "fld j (pg_mem st') p = fld j (pg_mem st) p" "held (pg_ks st') P' p n" "apart (pg_mem st') c p n"
proof -
  have "0 < n" using assms(4) by simp
  then have "held (pg_ks st') P' p n \<and> apart (pg_mem st') c p n \<and> (\<forall>a. in_region a p n \<longrightarrow> pg_mem st' a = pg_mem st a)"
    using assms(1-3) unfolding pg_frame_def by blast
  then show "fld j (pg_mem st') p = fld j (pg_mem st) p" "held (pg_ks st') P' p n" "apart (pg_mem st') c p n"
    using held_region_kept assms(4,5) by auto
qed

lemma align_pages:
  assumes "take_bit 12 p = 0" "unat p + 4096 * nblocks sz < 2 ^ 32"
  shows "unat (paging_align_address (p + sz)) = unat p + 4096 * nblocks sz"
proof -
  define q where "q = unat p div 4096"
  have p: "unat p = 4096 * q" using assms(1) by (simp add: aligned_unat q_def) (metis mult_div_mod_eq add_0_right)
  have le: "unat sz \<le> 4096 * nblocks sz" "4096 * nblocks sz \<le> unat sz + 4095"
    using mult_div_mod_eq [of 4096 "unat sz + 4095"] mod_less_divisor [of 4096 "unat sz + 4095"] by linarith+
  have bound: "q + nblocks sz < 1048576" using assms(2) unfolding p by simp
  have sum: "unat (p + sz) = unat p + unat sz" using assms(2) le(1) by (simp add: unat_word_ariths)
  have "unat p + unat sz + 4095 < 2 ^ 32" using le(1) bound unfolding p by simp
  then have "unat (p + sz + 4095) = 4096 * q + unat sz + 4095" using sum p by (simp add: unat_word_ariths)
  then have "unat ((p + sz + 4095) div 4096) = q + nblocks sz" by (simp add: unat_div add.assoc)
  then show ?thesis using bound p by (simp add: paging_align_address_def PAGING_PAGE_SIZE_def unat_word_ariths)
qed

section \<open>A directory that shares the tables of the kernel\<close>

definition shares_tables :: "paging_state \<Rightarrow> (addr \<rightharpoonup> nat) \<Rightarrow> addr \<Rightarrow> addr \<Rightarrow> bool" where
  "shares_tables st P K c \<longleftrightarrow> (let m = pg_mem st in
     pg_current_directory st = K \<and> small_pages m K \<and> small_pages m c
     \<and> held (pg_ks st) P K 4100 \<and> apart m c K 4100 \<and> held (pg_ks st) P (pdir m K) 4096 \<and> apart m c (pdir m K) 4096
     \<and> (\<forall>i<1023. ptbl m K i \<noteq> 0 \<longrightarrow> ptbl m c i = ptbl m K i))"

lemma shared_translation:
  assumes "shares_tables st P K c" "dir_index u < 1023" "ptbl (pg_mem st) K (dir_index u) \<noteq> 0"
  shows "virtual_to_physical_addr st c u = virtual_to_physical_addr st K u"
  using assms by (simp add: shares_tables_def Let_def virtual_to_physical_eq small_pages_def pte_def)

text \<open>A change of the copy that keeps its tables keeps the kernel's directory, and with it the sharing.\<close>

lemma shares_kept:
  assumes sh: "shares_tables st P K c" and fr: "pg_frame st P c st' P'" and "small_pages (pg_mem st') c"
  shows "shares_tables st' P' K c" "i < 1024 \<Longrightarrow> pde (pg_mem st') K i = pde (pg_mem st) K i \<and> ptbl (pg_mem st') K i = ptbl (pg_mem st) K i" "pdir (pg_mem st') K = pdir (pg_mem st) K"
proof -
  let ?m = "pg_mem st" and ?m' = "pg_mem st'"
  have s: "pg_current_directory st = K" "small_pages ?m K" "held (pg_ks st) P K 4100" "apart ?m c K 4100"
    "held (pg_ks st) P (pdir ?m K) 4096" "apart ?m c (pdir ?m K) 4096" "\<And>i. i < 1023 \<Longrightarrow> ptbl ?m K i \<noteq> 0 \<Longrightarrow> ptbl ?m c i = ptbl ?m K i"
    using sh by (auto simp: shares_tables_def Let_def)
  have f: "held (pg_ks st') P' q n \<and> apart ?m' c q n \<and> (\<forall>a. in_region a q n \<longrightarrow> ?m' a = ?m a)"
    if "held (pg_ks st) P q n" "0 < n" "apart ?m c q n" for q n using fr that by (simp add: pg_frame_def)
  note k = f [OF s(3) _ s(4)] f [OF s(5) _ s(6)]
  note same = pd_frame [of K ?m' ?m, OF k(1) [THEN conjunct2, THEN conjunct2, rule_format] k(2) [THEN conjunct2, THEN conjunct2, rule_format]]
  show "pde ?m' K i = pde ?m K i \<and> ptbl ?m' K i = ptbl ?m K i" if "i < 1024" for i using same(2,3) that by simp
  show "pdir ?m' K = pdir ?m K" by (simp add: same(1))
  show "shares_tables st' P' K c"
    using s k fr assms(3) by (simp add: shares_tables_def Let_def pg_frame_def small_pages_def same)
qed

text \<open>The kernel's directory is as sound as the copy, and what lies apart from the copy and the kernel's entries lies apart from it.\<close>

lemma shares_kernel:
  assumes inv: "pg_inv st P c k" and sh: "shares_tables st P K c"
  shows "regions_disjoint K 4100 (pdir (pg_mem st) K) 4096 \<Longrightarrow> pg_inv st P K k" "apart (pg_mem st) c q n \<Longrightarrow> regions_disjoint K 4100 q n \<Longrightarrow> regions_disjoint (pdir (pg_mem st) K) 4096 q n \<Longrightarrow>
    apart (pg_mem st) K q n"
proof -
  let ?m = "pg_mem st"
  have s: "pg_current_directory st = K" "held (pg_ks st) P K 4100" "apart ?m c K 4100" "held (pg_ks st) P (pdir ?m K) 4096"
    "apart ?m c (pdir ?m K) 4096" "\<And>i. i < 1023 \<Longrightarrow> ptbl ?m K i \<noteq> 0 \<Longrightarrow> ptbl ?m c i = ptbl ?m K i"
    using sh by (auto simp: shares_tables_def Let_def)
  show "apart ?m K q n" if "apart ?m c q n" "regions_disjoint K 4100 q n" "regions_disjoint (pdir ?m K) 4096 q n"
    unfolding apart_def
  proof (intro conjI allI impI)
    fix i :: nat assume i: "i < 1023" "ptbl ?m K i \<noteq> 0"
    then show "regions_disjoint (ptbl ?m K i) 4096 q n" using that(1) s(6) [OF i] by (auto simp: apart_def)
  qed (use that in blast)+
  assume dj: "regions_disjoint K 4100 (pdir ?m K) 4096"
  have wf: "pd_wf st P c" and ct: "can_translate st P c" and heap: "kheap_inv (pg_ks st) P" "kheap_room (pg_ks st) k"
    using inv by (simp_all add: pg_inv_def)
  have "regions_disjoint K 4100 (ptbl ?m K i) 4096 \<and> regions_disjoint (pdir ?m K) 4096 (ptbl ?m K i) 4096"
    if "i < 1023" "ptbl ?m K i \<noteq> 0" for i
    using s(3,5) s(6) [OF that] that regions_disjoint_sym unfolding apart_def by metis
  then have "pd_wf st P K" using wf s(2,4,6) dj unfolding pd_wf_def Let_def by metis
  moreover have "can_translate st P K" using ct s(1,4) unfolding can_translate_def Let_def by blast
  ultimately show "pg_inv st P K k" using heap by (simp add: pg_inv_def)
qed

text \<open>A linear range of user pages, and the addresses of the kernel seen through its directory.\<close>

definition maps_range :: "paging_state \<Rightarrow> addr \<Rightarrow> addr \<Rightarrow> nat \<Rightarrow> u32 \<Rightarrow> bool" where
  "maps_range st c virt n f \<longleftrightarrow> unat virt + 4096 * n \<le> 0xC0000000
     \<and> (\<forall>u. unat virt \<le> unat u \<longrightarrow> unat u < unat virt + 4096 * n \<longrightarrow>
          ptbl (pg_mem st) c (dir_index u) \<noteq> 0 \<and> virtual_to_physical_addr st c u = Some (f + (u - virt)))"

definition kernel_view :: "paging_state \<Rightarrow> addr \<Rightarrow> paging_state \<Rightarrow> bool" where
  "kernel_view st K st' \<longleftrightarrow> (\<forall>i<1024. pde (pg_mem st') K i = pde (pg_mem st) K i \<and> ptbl (pg_mem st') K i = ptbl (pg_mem st) K i)
     \<and> (\<forall>u. unat u < 0xFFC00000 \<longrightarrow> ptbl (pg_mem st) K (dir_index u) \<noteq> 0 \<longrightarrow>
          virtual_to_physical_addr st' K u = virtual_to_physical_addr st K u)"

lemma kernel_view_trans: "kernel_view st K st1 \<Longrightarrow> kernel_view st1 K st2 \<Longrightarrow> kernel_view st K st2"
  by (simp add: kernel_view_def dir_index_lt)

lemma kernel_viewD:
  assumes "kernel_view st K st'" "u < 0xFFC00000" "ptbl (pg_mem st) K (dir_index u) \<noteq> 0"
  shows "dir_index u < 1023" "ptbl (pg_mem st') K (dir_index u) \<noteq> 0"
    "virtual_to_physical_addr st' K u = virtual_to_physical_addr st K u"
  using assms dir_index_lt [of u] by (auto simp: kernel_view_def word_less_nat_alt div_less_iff_less_mult)

lemma kernel_view_user: "kernel_view st K st' \<Longrightarrow> user_space_empty (pg_mem st) K \<Longrightarrow> user_space_empty (pg_mem st') K"
  by (rule user_space_cong) (simp_all add: kernel_view_def)

text \<open>One range of a process: the physical pages behind a kernel address, mapped at \<open>virt\<close>.\<close>

lemma map_process_range:
  assumes n: "n = nblocks sz" and inv: "pg_inv st P c (tables_needed (pg_mem st) c virt n + k)" and sh: "shares_tables st P K c"
    and p: "virtual_to_physical_addr st K p = Some f" and f: "take_bit 12 f = 0" "unat f + 4096 * n < 2 ^ 32"
    and v: "take_bit 12 virt = 0" "0x400000 \<le> unat virt" "unat virt + 4096 * n \<le> 0x4400000" and user: "user_space_empty (pg_mem st) K"
  obtains st' P' where "process_map_range c virt p sz st = Some (0, st')" "pg_inv st' P' c k" "shares_tables st' P' K c"
    "pg_frame st P c st' P'" "kernel_view st K st'" "maps_range st' c virt n f"
    "\<forall>v' n' f'. maps_range st c v' n' f' \<longrightarrow> unat v' + 4096 * n' \<le> unat virt \<longrightarrow> maps_range st' c v' n' f'"
proof -
  let ?fl = "PAGING_WRITABLE_PAGE OR PAGING_ACCESS_FROM_ALL OR PAGING_PRESENT"
  have fl: "?fl = 7" by (simp add: PAGING_WRITABLE_PAGE_def PAGING_ACCESS_FROM_ALL_def PAGING_PRESENT_def)
  have s: "pg_current_directory st = K" "small_pages (pg_mem st) c" using sh by (simp_all add: shares_tables_def Let_def)
  have run: "process_map_range c virt p sz st = paging_map_from_to st c virt f (paging_align_address (f + sz)) 7"
    using s(1) p fl by (simp add: process_map_range_def Let_def)
  obtain st' P' where m: "paging_map_from_to st c virt f (paging_align_address (f + sz)) 7 = Some (0, st')" "pg_inv st' P' c k"
    "small_pages (pg_mem st') c" "pg_frame st P c st' P'"
    "\<forall>i<1023. ptbl (pg_mem st) c i \<noteq> 0 \<longrightarrow> ptbl (pg_mem st') c i \<noteq> 0"
    "\<forall>u. unat virt \<le> unat u \<longrightarrow> unat u < unat virt + 4096 * n \<longrightarrow> ptbl (pg_mem st') c (dir_index u) \<noteq> 0"
    "\<forall>u. unat virt \<le> unat u \<longrightarrow> unat u < unat virt + 4096 * n \<longrightarrow> virtual_to_physical_addr st' c u = Some (f + (u - virt))"
    "\<forall>u. unat u < unat virt \<or> unat virt + 4096 * n \<le> unat u \<longrightarrow> dir_index u < 1023 \<longrightarrow>
       ptbl (pg_mem st) c (dir_index u) \<noteq> 0 \<longrightarrow> virtual_to_physical_addr st' c u = virtual_to_physical_addr st c u"
    using map_from_to [OF inv s(2) _ _ _ _ align_pages [OF f [unfolded n], folded n], of 7] f(1) v page_aligned_iff by auto
  note kept = shares_kept [OF sh m(4,3)]
  have "kernel_view st K st'"
    unfolding kernel_view_def
  proof (intro conjI allI impI)
    show "pde (pg_mem st') K i = pde (pg_mem st) K i" "ptbl (pg_mem st') K i = ptbl (pg_mem st) K i" if "i < 1024" for i
      using kept(2) [OF that] by simp_all
    fix u assume u: "unat u < 0xFFC00000" "ptbl (pg_mem st) K (dir_index u) \<noteq> 0"
    then have d: "dir_index u < 1023" and t: "ptbl (pg_mem st') K (dir_index u) \<noteq> 0"
      using kept(2) [of "dir_index u"] dir_index_lt [of u] by (simp_all add: div_less_iff_less_mult)
    have "\<not> (1 \<le> dir_index u \<and> dir_index u \<le> 16)" using user u(2) unfolding user_space_empty_def by blast
    then have o: "unat u < unat virt \<or> unat virt + 4096 * n \<le> unat u" using v(2,3) by linarith
    have "ptbl (pg_mem st) c (dir_index u) \<noteq> 0" using sh d u(2) by (simp add: shares_tables_def Let_def)
    then have "virtual_to_physical_addr st' c u = virtual_to_physical_addr st c u" using m(8) o d by blast
    then show "virtual_to_physical_addr st' K u = virtual_to_physical_addr st K u"
      using shared_translation [OF sh d u(2)] shared_translation [OF kept(1) d t] by simp
  qed
  moreover have "maps_range st' c virt n f" using m(6,7) v(3) by (simp add: maps_range_def)
  moreover have "maps_range st' c v' n' f'" if "maps_range st c v' n' f'" "unat v' + 4096 * n' \<le> unat virt" for v' n' f'
    unfolding maps_range_def
  proof (intro conjI allI impI)
    fix u :: addr assume u: "unat v' \<le> unat u" "unat u < unat v' + 4096 * n'"
    have "unat u < 0xC0000000" using that(1) u(2) by (simp add: maps_range_def)
    then have d: "dir_index u < 1023" by simp
    have o: "ptbl (pg_mem st) c (dir_index u) \<noteq> 0" "virtual_to_physical_addr st c u = Some (f' + (u - v'))"
      using that(1) u by (simp_all add: maps_range_def)
    show "ptbl (pg_mem st') c (dir_index u) \<noteq> 0" using m(5) d o by simp
    show "virtual_to_physical_addr st' c u = Some (f' + (u - v'))" using m(8) d o u(2) that(2) by simp
  qed (use that(1) in \<open>simp add: maps_range_def\<close>)
  ultimately show thesis using that [OF run [unfolded m(1)] m(2) kept(1) m(4)] by blast
qed

section \<open>The address space of a process\<close>

lemma tables_bound:
  assumes v: "unat v = 4194304 * q"
  shows "tables_needed m h v n \<le> (n + 1023) div 1024"
proof (cases n)
  case (Suc l)
  have "(4194304 * q + 4096 * n - 1) div 4194304 = q + (4096 * n - 1) div 4194304" using Suc by simp
  also have "(4096 * n - 1) div 4194304 = l div 1024" using Suc div_mult2_eq [of "4096 * n - 1" 4096 1024] by simp
  finally have "tables_needed m h v n \<le> l div 1024 + 1" using Suc unfolding tables_needed_def v by simp
  also have "l div 1024 + 1 = (l + 1024) div 1024" by simp
  finally show ?thesis using Suc by simp
qed (simp add: tables_needed_def)

text \<open>The clone shares the tables of the kernel, and what lies apart from the kernel's directory lies apart from both.\<close>

lemma clone_shares:
  assumes inv: "pg_inv st P K (k + 3)" and cur: "pg_current_directory st = K" and sm: "small_pages (pg_mem st) K"
  obtains copy st1 P1 where "paging_clone_directory K K st = Some (copy, st1)" "pg_inv st1 P1 copy k" "shares_tables st1 P1 K copy"
    "\<forall>u. dir_index u < 1023 \<longrightarrow> ptbl (pg_mem st) K (dir_index u) \<noteq> 0 \<longrightarrow>
       ptbl (pg_mem st1) K (dir_index u) \<noteq> 0 \<and> virtual_to_physical_addr st1 K u = virtual_to_physical_addr st K u"
    "\<forall>q n. held (pg_ks st) P q n \<longrightarrow> 0 < n \<longrightarrow> apart (pg_mem st) K q n \<longrightarrow>
       held (pg_ks st1) P1 q n \<and> apart (pg_mem st1) copy q n \<and> regions_disjoint K 4100 q n
       \<and> regions_disjoint (pdir (pg_mem st1) K) 4096 q n \<and> (\<forall>a. in_region a q n \<longrightarrow> pg_mem st1 a = pg_mem st a)"
    "pdir (pg_mem st1) K = pdir (pg_mem st) K" "P \<subseteq>\<^sub>m P1" "P copy = None"
    "\<forall>i<1024. pde (pg_mem st1) K i = pde (pg_mem st) K i \<and> ptbl (pg_mem st1) K i = ptbl (pg_mem st) K i"
proof -
  let ?m = "pg_mem st"
  obtain copy d st1 where c: "paging_clone_directory K K st = Some (copy, st1)" "pg_current_directory st1 = K"
    "P copy = None" "P d = None" "pg_inv st1 (P(copy \<mapsto> 8192, d \<mapsto> 4096)) copy k"
    and tr: "\<forall>u. dir_index u < 1023 \<longrightarrow> pde ?m K (dir_index u) \<noteq> 0 \<longrightarrow> ptbl ?m K (dir_index u) \<noteq> 0 \<longrightarrow>
       virtual_to_physical_addr st1 copy u = virtual_to_physical_addr st K u"
    and e: "\<forall>i<1023. pde (pg_mem st1) copy i = pde ?m K i
       \<and> ptbl (pg_mem st1) copy i = (if pde ?m K i = 0 then 0 else ptbl ?m K i)"
    and d: "pdir (pg_mem st1) copy = d"
    and fr: "\<forall>q n. held (pg_ks st) P q n \<longrightarrow> 0 < n \<longrightarrow> held (pg_ks st1) (P(copy \<mapsto> 8192, d \<mapsto> 4096)) q n
       \<and> regions_disjoint copy 4100 q n \<and> regions_disjoint d 4096 q n \<and> (\<forall>a. in_region a q n \<longrightarrow> pg_mem st1 a = ?m a)"
    by (rule clone_kernel [OF inv cur]) (rule that; assumption)
  let ?P = "P(copy \<mapsto> 8192, d \<mapsto> 4096)"
  have wf: "held (pg_ks st) P K 4100" "held (pg_ks st) P (pdir ?m K) 4096"
    "\<And>i. i < 1023 \<Longrightarrow> ptbl ?m K i \<noteq> 0 \<Longrightarrow> regions_disjoint K 4100 (ptbl ?m K i) 4096 \<and> regions_disjoint (pdir ?m K) 4096 (ptbl ?m K i) 4096"
    using inv by (auto simp: pg_inv_def pd_wf_def Let_def)
  have pos: "(0 :: nat) < 4100" "(0 :: nat) < 4096" by simp_all
  note kK = fr [rule_format, OF wf(1) pos(1)] and kd = fr [rule_format, OF wf(2) pos(2)]
  have same: "pdir (pg_mem st1) K = pdir ?m K" "\<And>i. i < 1024 \<Longrightarrow> pde (pg_mem st1) K i = pde ?m K i"
    "\<And>i. i < 1024 \<Longrightarrow> ptbl (pg_mem st1) K i = ptbl ?m K i"
    using pd_frame [of K "pg_mem st1" ?m] kK kd by auto
  have tb: "ptbl (pg_mem st1) copy i = ptbl ?m K i" if "i < 1023" "ptbl ?m K i \<noteq> 0" for i
    using e sm that by (simp add: small_pages_def)
  have tb0: "ptbl ?m K i \<noteq> 0" if "i < 1023" "ptbl (pg_mem st1) copy i \<noteq> 0" for i using e that by (auto split: if_splits)
  have ap: "apart (pg_mem st1) copy K 4100" "apart (pg_mem st1) copy (pdir ?m K) 4096"
  proof -
    have "regions_disjoint (ptbl (pg_mem st1) copy i) 4096 K 4100 \<and> regions_disjoint (ptbl (pg_mem st1) copy i) 4096 (pdir ?m K) 4096"
      if i: "i < 1023" "ptbl (pg_mem st1) copy i \<noteq> 0" for i
      using wf(3) [OF i(1) tb0 [OF i]] unfolding tb [OF i(1) tb0 [OF i]] by (simp add: regions_disjoint_sym)
    then show "apart (pg_mem st1) copy K 4100" "apart (pg_mem st1) copy (pdir ?m K) 4096"
      using kK kd unfolding apart_def d by blast+
  qed
  have smc: "small_pages (pg_mem st1) copy"
    unfolding small_pages_def
  proof (intro allI impI)
    fix i :: nat assume i: "i < 1023" "ptbl (pg_mem st1) copy i \<noteq> 0"
    then show "pde (pg_mem st1) copy i AND 0x80 = 0 \<and> pde (pg_mem st1) copy i \<noteq> 0"
      using e sm tb0 [OF i] by (simp add: small_pages_def)
  qed
  have sh: "shares_tables st1 ?P K copy"
    using c(2) sm smc kK kd ap tb by (simp add: shares_tables_def Let_def same small_pages_def)
  have nz: "pde ?m K i \<noteq> 0" if "i < 1023" "ptbl ?m K i \<noteq> 0" for i using sm that by (simp add: small_pages_def)
  have sub: "P \<subseteq>\<^sub>m ?P" using c(3,4) by (auto simp: map_le_def dom_def split: if_splits)
  show thesis
  proof (rule that [OF c(1,5) sh _ _ same(1) sub c(3)]; (intro allI impI)?)
    show "pde (pg_mem st1) K i = pde ?m K i \<and> ptbl (pg_mem st1) K i = ptbl ?m K i" if "i < 1024" for i using same(2,3) that by simp
  next
    fix u assume u: "dir_index u < 1023" "ptbl ?m K (dir_index u) \<noteq> 0"
    then show "ptbl (pg_mem st1) K (dir_index u) \<noteq> 0 \<and> virtual_to_physical_addr st1 K u = virtual_to_physical_addr st K u"
      using shared_translation [OF sh u(1)] tr nz same(3) by simp
  next
    fix q n assume q: "held (pg_ks st) P q n" "0 < n" "apart ?m K q n"
    show "held (pg_ks st1) ?P q n \<and> apart (pg_mem st1) copy q n \<and> regions_disjoint K 4100 q n
       \<and> regions_disjoint (pdir (pg_mem st1) K) 4096 q n \<and> (\<forall>a. in_region a q n \<longrightarrow> pg_mem st1 a = ?m a)"
    proof -
      have "regions_disjoint (ptbl (pg_mem st1) copy i) 4096 q n" if i: "i < 1023" "ptbl (pg_mem st1) copy i \<noteq> 0" for i
        using q(3) i(1) tb0 [OF i] unfolding tb [OF i(1) tb0 [OF i]] apart_def by blast
      then have "apart (pg_mem st1) copy q n" using fr [rule_format, OF q(1,2)] unfolding apart_def d by blast
      then show ?thesis using fr [rule_format, OF q(1,2)] q(3) unfolding same(1) apart_def [of ?m] by blast
    qed
  qed
qed

text \<open>A store into a region apart from both directories.\<close>

lemma shares_write:
  assumes inv: "pg_inv st P c k" and sh: "shares_tables st P K c" and q: "held (pg_ks st) P q n" "apart (pg_mem st) c q n"
    and K: "regions_disjoint K 4100 q n" "regions_disjoint (pdir (pg_mem st) K) 4096 q n"
    and out: "\<forall>a. \<not> in_region a q n \<longrightarrow> m a = pg_mem st a"
  shows "pg_inv (pg_with st m) P c k" "shares_tables (pg_with st m) P K c" "apart m c r l = apart (pg_mem st) c r l" "held (pg_ks (pg_with st m)) P r l = held (pg_ks st) P r l"
    "pdir m K = pdir (pg_mem st) K"
    "\<And>u. dir_index u < 1023 \<Longrightarrow> ptbl (pg_mem st) K (dir_index u) \<noteq> 0 \<Longrightarrow>
       ptbl m K (dir_index u) \<noteq> 0 \<and> virtual_to_physical_addr (pg_with st m) K u = virtual_to_physical_addr st K u"
    "\<And>i. i < 1024 \<Longrightarrow> pde m K i = pde (pg_mem st) K i \<and> ptbl m K i = ptbl (pg_mem st) K i"
proof -
  have cur: "pg_current_directory st = K" using sh by (simp add: shares_tables_def Let_def)
  note w = apart_write [OF inv q, of m, unfolded cur, OF K out [rule_format]]
  have same: "m a = pg_mem st a" if "regions_disjoint r l q n" "in_region a r l" for a r l
    using that out regions_disjointD by blast
  note k = pd_frame [of K m "pg_mem st", OF same [OF K(1)] same [OF K(2)]]
  show "pg_inv (pg_with st m) P c k" using w(1) by simp
  show ap: "apart m c r l = apart (pg_mem st) c r l" for r l using w(2,3) by (simp add: apart_def)
  show heap: "held (pg_ks (pg_with st m)) P r l = held (pg_ks st) P r l" for r l by (rule held_heap) simp
  show "pdir m K = pdir (pg_mem st) K" by (simp add: k)
  show "pde m K i = pde (pg_mem st) K i \<and> ptbl m K i = ptbl (pg_mem st) K i" if "i < 1024" for i using k(2,3) that by simp
  show sh': "shares_tables (pg_with st m) P K c"
    using sh w(3) ap unfolding shares_tables_def Let_def heap by (simp add: k small_pages_def)
  show "ptbl m K (dir_index u) \<noteq> 0 \<and> virtual_to_physical_addr (pg_with st m) K u = virtual_to_physical_addr st K u"
    if "dir_index u < 1023" "ptbl (pg_mem st) K (dir_index u) \<noteq> 0" for u
  proof -
    have t: "ptbl (pg_mem st) c (dir_index u) = ptbl (pg_mem st) K (dir_index u)"
      using sh that by (simp add: shares_tables_def Let_def)
    have "virtual_to_physical_addr (pg_with st m) c u = virtual_to_physical_addr st c u"
      using that t w(3) [of "dir_index u"] w(4) [of "dir_index u" "tbl_index u"] by (simp add: virtual_to_physical_eq)
    then show ?thesis using shared_translation [OF sh that] shared_translation [OF sh' that(1)] that k(3) by simp
  qed
qed

text \<open>The directory of a process: the clone, stored in the structure of the process.\<close>

lemma clone_into_process:
  assumes inv: "pg_inv st P K (k + 3)" and cur: "pg_current_directory st = K" and sm: "small_pages (pg_mem st) K"
    and p: "held (pg_ks st) P process 284" "apart (pg_mem st) K process 284"
  obtains copy st1 st2 P2 where "paging_clone_directory K K st = Some (copy, st1)"
    "pg_store st1 (process + process_page_directory) copy = st2" "pg_inv st2 P2 copy k" "shares_tables st2 P2 K copy"
    "held (pg_ks st2) P2 process 284" "apart (pg_mem st2) copy process 284" "fld process_page_directory (pg_mem st2) process = copy"
    "\<forall>j\<in>{process_pid, process_memory, process_memory_size, process_stack}. fld j (pg_mem st2) process = fld j (pg_mem st) process"
    "kernel_view st K st2" "pdir (pg_mem st2) K = pdir (pg_mem st) K" "P \<subseteq>\<^sub>m P2" "P copy = None"
    "\<forall>q n. held (pg_ks st) P q n \<longrightarrow> 0 < n \<longrightarrow> apart (pg_mem st) K q n \<longrightarrow> regions_disjoint q n process 284 \<longrightarrow>
       held (pg_ks st2) P2 q n \<and> apart (pg_mem st2) copy q n \<and> (\<forall>a. in_region a q n \<longrightarrow> pg_mem st2 a = pg_mem st a)"
proof -
  obtain copy st1 P1 where c: "paging_clone_directory K K st = Some (copy, st1)" "pg_inv st1 P1 copy k" "shares_tables st1 P1 K copy"
    and tr: "\<forall>u. dir_index u < 1023 \<longrightarrow> ptbl (pg_mem st) K (dir_index u) \<noteq> 0 \<longrightarrow>
       ptbl (pg_mem st1) K (dir_index u) \<noteq> 0 \<and> virtual_to_physical_addr st1 K u = virtual_to_physical_addr st K u"
    and fr: "\<forall>q n. held (pg_ks st) P q n \<longrightarrow> 0 < n \<longrightarrow> apart (pg_mem st) K q n \<longrightarrow>
       held (pg_ks st1) P1 q n \<and> apart (pg_mem st1) copy q n \<and> regions_disjoint K 4100 q n
       \<and> regions_disjoint (pdir (pg_mem st1) K) 4096 q n \<and> (\<forall>a. in_region a q n \<longrightarrow> pg_mem st1 a = pg_mem st a)"
    and pd: "pdir (pg_mem st1) K = pdir (pg_mem st) K" "P \<subseteq>\<^sub>m P1" "P copy = None"
    and en: "\<forall>i<1024. pde (pg_mem st1) K i = pde (pg_mem st) K i \<and> ptbl (pg_mem st1) K i = ptbl (pg_mem st) K i"
    by (rule clone_shares [OF inv cur sm]) (rule that; assumption)
  have pr: "held (pg_ks st1) P1 process 284" "apart (pg_mem st1) copy process 284" "regions_disjoint K 4100 process 284"
    "regions_disjoint (pdir (pg_mem st1) K) 4096 process 284" "\<forall>a. in_region a process 284 \<longrightarrow> pg_mem st1 a = pg_mem st a"
    using fr [rule_format, OF p(1) _ p(2)] by simp_all
  let ?m = "set_fld process_page_directory (pg_mem st1) process copy"
  have out: "\<forall>a. \<not> in_region a process 284 \<longrightarrow> ?m a = pg_mem st1 a" by (auto intro: set_fld_outside)
  note w = shares_write [OF c(2,3) pr(1-4) out]
  have f: "fld j ?m process = fld j (pg_mem st) process" if "j \<in> {process_pid, process_memory, process_memory_size, process_stack}" for j
  proof -
    have "fld j ?m process = fld j (pg_mem st1) process" using that by (intro fld_field) auto
    also have "\<dots> = fld j (pg_mem st) process" by (rule held_region_kept [OF pr(5)]) (use that in auto)
    finally show ?thesis .
  qed
  have "pg_store st1 (process + process_page_directory) copy = pg_with st1 ?m" by (simp add: pg_store_with set_fld_def)
  from c(1) this w(1,2) show thesis
  proof (rule that)
    show "kernel_view st K (pg_with st1 ?m)" using w(6,7) tr en by (simp add: kernel_view_def div_less_iff_less_mult)
    show "\<forall>q n. held (pg_ks st) P q n \<longrightarrow> 0 < n \<longrightarrow> apart (pg_mem st) K q n \<longrightarrow> regions_disjoint q n process 284 \<longrightarrow>
       held (pg_ks (pg_with st1 ?m)) P1 q n \<and> apart (pg_mem (pg_with st1 ?m)) copy q n
       \<and> (\<forall>a. in_region a q n \<longrightarrow> pg_mem (pg_with st1 ?m) a = pg_mem st a)"
    proof (intro allI impI)
      fix q n assume q: "held (pg_ks st) P q n" "0 < n" "apart (pg_mem st) K q n" "regions_disjoint q n process 284"
      have "?m a = pg_mem st1 a" if "in_region a q n" for a using out that q(4) regions_disjointD by blast
      then show "held (pg_ks (pg_with st1 ?m)) P1 q n \<and> apart (pg_mem (pg_with st1 ?m)) copy q n
         \<and> (\<forall>a. in_region a q n \<longrightarrow> pg_mem (pg_with st1 ?m) a = pg_mem st a)" using fr q(1-3) w(3,4) by simp
    qed
  qed (use w(3-5) pr(1,2) f pd in simp_all)
qed

lemma map_process:
  assumes inv: "pg_inv st P K ((k + 1 + (n + 1023) div 1024) + 3)" and cur: "pg_current_directory st = K"
    and sm: "small_pages (pg_mem st) K" and pr: "process \<noteq> NULL" "held (pg_ks st) P process 284" "apart (pg_mem st) K process 284"
    and n: "n = nblocks (fld process_memory_size (pg_mem st) process)"
    and memory: "memory = fld process_memory (pg_mem st) process" and stack: "stack = fld process_stack (pg_mem st) process"
    and mem: "KERNEL_VIRTUAL_BASE \<le> memory" "memory < 0xFFC00000" "ptbl (pg_mem st) K (dir_index memory) \<noteq> 0"
    and stk: "KERNEL_VIRTUAL_BASE \<le> stack" "stack < 0xFFC00000" "ptbl (pg_mem st) K (dir_index stack) \<noteq> 0"
    and pm: "virtual_to_physical_addr st K memory = Some pm" "paging_addr_is_page_aligned pm" "unat pm + 4096 * n < 2 ^ 32"
    and ps: "virtual_to_physical_addr st K stack = Some ps" "paging_addr_is_page_aligned ps" "unat ps + 4096 < 2 ^ 32"
    and fits: "n \<le> 15360" and user: "user_space_empty (pg_mem st) K"
  obtains c st4 P4 where "process_map_memory K process st = Some (0, st4)" "fld process_page_directory (pg_mem st4) process = c"
    "pg_inv st4 P4 c k" "shares_tables st4 P4 K c" "kernel_view st K st4"
    "maps_range st4 c PROGRAM_BASE_VIRT_ADDR n pm" "maps_range st4 c PROGRAM_STACK_TOP_VIRT_ADDR 1 ps"
    "pdir (pg_mem st4) K = pdir (pg_mem st) K" "P \<subseteq>\<^sub>m P4" "P c = None" "held (pg_ks st4) P4 process 284" "apart (pg_mem st4) c process 284"
    "\<forall>j\<in>{process_pid, process_memory, process_memory_size, process_stack}. fld j (pg_mem st4) process = fld j (pg_mem st) process"
    "\<forall>q n. held (pg_ks st) P q n \<longrightarrow> 0 < n \<longrightarrow> apart (pg_mem st) K q n \<longrightarrow> regions_disjoint q n process 284 \<longrightarrow>
       held (pg_ks st4) P4 q n \<and> apart (pg_mem st4) c q n \<and> (\<forall>a. in_region a q n \<longrightarrow> pg_mem st4 a = pg_mem st a)"
proof -
  let ?V = PROGRAM_BASE_VIRT_ADDR and ?S = PROGRAM_STACK_TOP_VIRT_ADDR and ?sz = "fld process_memory_size (pg_mem st) process"
  have bases: "unat ?V = 4194304 * 1" "unat ?S = 4194304 * 16" "take_bit 12 ?V = 0" "take_bit 12 ?S = 0" "1 = nblocks PROGRAM_STACK_SIZE"
    by (simp_all add: PROGRAM_BASE_VIRT_ADDR_def PROGRAM_STACK_TOP_VIRT_ADDR_def PROGRAM_STACK_SIZE_def)
  have b: "take_bit 12 pm = 0" "unat ?V + 4096 * n \<le> 0x4400000" "take_bit 12 ps = 0" "unat ps + 4096 * 1 < 2 ^ 32"
    "unat ?S + 4096 * 1 \<le> 0x4400000" "0x400000 \<le> unat ?V" "0x400000 \<le> unat ?S" using pm(2) ps(2,3) fits bases(1,2) by (simp_all add: page_aligned_iff)
  obtain c st1 st2 P2 where c: "paging_clone_directory K K st = Some (c, st1)" "pg_store st1 (process + process_page_directory) c = st2"
    "pg_inv st2 P2 c (k + 1 + (n + 1023) div 1024)" "shares_tables st2 P2 K c" "held (pg_ks st2) P2 process 284"
    "apart (pg_mem st2) c process 284" "fld process_page_directory (pg_mem st2) process = c"
    and f2: "\<forall>j\<in>{process_pid, process_memory, process_memory_size, process_stack}. fld j (pg_mem st2) process = fld j (pg_mem st) process"
    and k2: "kernel_view st K st2" and pd2: "pdir (pg_mem st2) K = pdir (pg_mem st) K" "P \<subseteq>\<^sub>m P2" "P c = None"
    and fr2: "\<forall>q n. held (pg_ks st) P q n \<longrightarrow> 0 < n \<longrightarrow> apart (pg_mem st) K q n \<longrightarrow> regions_disjoint q n process 284 \<longrightarrow>
       held (pg_ks st2) P2 q n \<and> apart (pg_mem st2) c q n \<and> (\<forall>a. in_region a q n \<longrightarrow> pg_mem st2 a = pg_mem st a)"
    by (rule clone_into_process [OF inv cur sm pr(2,3)]) (rule that; assumption)
  have inv2: "pg_inv st2 P2 c (tables_needed (pg_mem st2) c ?V n + (k + 1))"
    using pg_inv_less [OF c(3)] tables_bound [OF bases(1), of "pg_mem st2" c n] by simp
  obtain st3 P3 where m3: "process_map_range c ?V memory ?sz st2 = Some (0, st3)" "pg_inv st3 P3 c (k + 1)" "shares_tables st3 P3 K c"
    "pg_frame st2 P2 c st3 P3" "kernel_view st2 K st3" "maps_range st3 c ?V n pm"
    by (rule map_process_range [OF n inv2 c(4) trans [OF kernel_viewD(3) [OF k2 mem(2,3)] pm(1)] b(1) pm(3) bases(3) b(6,2) kernel_view_user [OF k2 user]])
      (rule that; assumption)
  note k3 = kernel_view_trans [OF k2 m3(5)]
  have inv3: "pg_inv st3 P3 c (tables_needed (pg_mem st3) c ?S 1 + k)"
    using pg_inv_less [OF m3(2)] tables_bound [OF bases(2), of "pg_mem st3" c 1] by simp
  obtain st4 P4 where m4: "process_map_range c ?S stack PROGRAM_STACK_SIZE st3 = Some (0, st4)" "pg_inv st4 P4 c k"
    "shares_tables st4 P4 K c" "pg_frame st3 P3 c st4 P4" "kernel_view st3 K st4" "maps_range st4 c ?S 1 ps"
    "\<forall>v' n' f'. maps_range st3 c v' n' f' \<longrightarrow> unat v' + 4096 * n' \<le> unat ?S \<longrightarrow> maps_range st4 c v' n' f'"
    by (rule map_process_range [OF bases(5) inv3 m3(3) trans [OF kernel_viewD(3) [OF k3 stk(2,3)] ps(1)] b(3,4) bases(4) b(7,5) kernel_view_user [OF k3 user]])
      (rule that; assumption)
  have small: "small_pages (pg_mem st3) c" "small_pages (pg_mem st4) c" using m3(3) m4(3) by (simp_all add: shares_tables_def Let_def)
  have pd: "pdir (pg_mem st4) K = pdir (pg_mem st) K"
    using shares_kept(3) [OF c(4) m3(4) small(1)] shares_kept(3) [OF m3(3) m4(4) small(2)] pd2(1) by simp
  have le: "P2 \<subseteq>\<^sub>m P3" "P3 \<subseteq>\<^sub>m P4" using m3(4) m4(4) by (simp_all add: pg_frame_def)
  have sub: "P \<subseteq>\<^sub>m P4" by (rule map_le_trans [OF map_le_trans [OF pd2(2) le(1)] le(2)])
  note p3 = frame_field [OF m3(4) c(5,6)]
  have p3': "held (pg_ks st3) P3 process 284" "apart (pg_mem st3) c process 284" using p3(2,3) [of 0] by simp_all
  note p4 = frame_field [OF m4(4) p3']
  have f3: "fld j (pg_mem st3) process = fld j (pg_mem st2) process" "fld j (pg_mem st4) process = fld j (pg_mem st3) process"
    if "unat j + 4 \<le> 284" for j using p3(1) p4(1) that by simp_all
  have "memory \<noteq> NULL" using mem(1) by (auto simp: KERNEL_VIRTUAL_BASE_def)
  then have run: "process_map_memory K process st = Some (0, st4)"
    using pr(1) c(1,2,7) f2 m3(1) m4(1) f3(1) [of process_page_directory] f3(1) [of process_stack]
    by (simp add: process_map_memory_def memory stack Let_def del: pg_store_simps)
  have range: "maps_range st4 c ?V n pm" using m4(7) m3(6) fits bases(1,2) by simp
  have fields: "\<forall>j\<in>{process_pid, process_memory, process_memory_size, process_stack}. fld j (pg_mem st4) process = fld j (pg_mem st) process"
    using f2 f3 by simp
  have "held (pg_ks st4) P4 q n \<and> apart (pg_mem st4) c q n \<and> (\<forall>a. in_region a q n \<longrightarrow> pg_mem st4 a = pg_mem st a)"
    if q: "held (pg_ks st) P q n" "0 < n" "apart (pg_mem st) K q n" "regions_disjoint q n process 284" for q n
  proof -
    have "held (pg_ks st3) P3 q n \<and> apart (pg_mem st3) c q n \<and> (\<forall>a. in_region a q n \<longrightarrow> pg_mem st3 a = pg_mem st2 a)"
      using fr2 q m3(4) unfolding pg_frame_def by blast
    moreover from this have "held (pg_ks st4) P4 q n \<and> apart (pg_mem st4) c q n \<and> (\<forall>a. in_region a q n \<longrightarrow> pg_mem st4 a = pg_mem st3 a)"
      using q(2) m4(4) unfolding pg_frame_def by blast
    ultimately show ?thesis using fr2 q by simp
  qed
  then show thesis
    using that [OF run _ m4(2,3) kernel_view_trans [OF k3 m4(5)] range m4(6) pd sub pd2(3) p4(2,3) [of 0] fields] f3 [of process_page_directory] c(7) by simp
qed

text \<open>
  C7: \<open>process_map_memory\<close> gives the process a directory of its own. In a kernel whose directory has no entries for the
  addresses of programs, the directory stored in the process is a block that was free and is not the kernel's; in it the
  pages of the program appear from \<open>PROGRAM_BASE_VIRT_ADDR\<close> on, the stack page at \<open>PROGRAM_STACK_TOP_VIRT_ADDR\<close>, and
  every address that has a table in the kernel's directory as in the kernel's. The entries of the kernel's directory are what
  they were, so the program is not mapped there, and so are its translations. Every region that was in use, apart from the
  process itself and from the kernel's directory and tables, such as the directory and the tables of another process, has its
  contents still and no part of the new directory in it. The new directory is well formed, and heap and directory in force
  stay sound.
\<close>

theorem process_map_memory_space:
  fixes st :: paging_state and K process :: addr
  defines "memory \<equiv> fld process_memory (pg_mem st) process" and "stack \<equiv> fld process_stack (pg_mem st) process"
  defines "n \<equiv> nblocks (fld process_memory_size (pg_mem st) process)"
  assumes "pg_inv st P K (k + 4 + (n + 1023) div 1024)" "pg_current_directory st = K" "small_pages (pg_mem st) K"
    and "process \<noteq> NULL" "held (pg_ks st) P process 284" "apart (pg_mem st) K process 284"
    and "KERNEL_VIRTUAL_BASE \<le> memory" "memory < 0xFFC00000" "ptbl (pg_mem st) K (dir_index memory) \<noteq> 0"
    and "KERNEL_VIRTUAL_BASE \<le> stack" "stack < 0xFFC00000" "ptbl (pg_mem st) K (dir_index stack) \<noteq> 0"
    and "virtual_to_physical_addr st K memory = Some pm" "paging_addr_is_page_aligned pm" "unat pm + 4096 * n < 2 ^ 32"
    and "virtual_to_physical_addr st K stack = Some ps" "paging_addr_is_page_aligned ps" "unat ps + 4096 < 2 ^ 32"
    and "n \<le> 15360" and "user_space_empty (pg_mem st) K"
  shows "\<exists>copy st' P'. process_map_memory K process st = Some (0, st') \<and> fld process_page_directory (pg_mem st') process = copy
    \<and> copy \<noteq> K \<and> P copy = None \<and> pg_inv st' P' copy k
    \<and> (\<forall>off. unat off < 4096 * n \<longrightarrow> virtual_to_physical_addr st' copy (PROGRAM_BASE_VIRT_ADDR + off) = Some (pm + off))
    \<and> (\<forall>off. off < PROGRAM_STACK_SIZE \<longrightarrow> virtual_to_physical_addr st' copy (PROGRAM_STACK_TOP_VIRT_ADDR + off) = Some (ps + off))
    \<and> (\<forall>u. u < 0xFFC00000 \<longrightarrow> ptbl (pg_mem st) K (dir_index u) \<noteq> 0 \<longrightarrow>
         virtual_to_physical_addr st' copy u = virtual_to_physical_addr st K u
         \<and> virtual_to_physical_addr st' K u = virtual_to_physical_addr st K u)
    \<and> (\<forall>i<1024. pde (pg_mem st') K i = pde (pg_mem st) K i \<and> ptbl (pg_mem st') K i = ptbl (pg_mem st) K i)
    \<and> (\<forall>q l. held (pg_ks st) P q l \<longrightarrow> 0 < l \<longrightarrow> apart (pg_mem st) K q l \<longrightarrow> regions_disjoint q l process 284 \<longrightarrow>
         held (pg_ks st') P' q l \<and> apart (pg_mem st') copy q l \<and> (\<forall>a. in_region a q l \<longrightarrow> pg_mem st' a = pg_mem st a))"
proof -
  let ?V = PROGRAM_BASE_VIRT_ADDR and ?S = PROGRAM_STACK_TOP_VIRT_ADDR
  have inv: "pg_inv st P K ((k + 1 + (n + 1023) div 1024) + 3)" using assms(4) by (rule pg_inv_less) simp
  obtain c st4 P4 where m: "process_map_memory K process st = Some (0, st4)" "fld process_page_directory (pg_mem st4) process = c"
    "pg_inv st4 P4 c k" "shares_tables st4 P4 K c" "kernel_view st K st4" "maps_range st4 c ?V n pm" "maps_range st4 c ?S 1 ps" "P c = None"
    and fr: "\<forall>q l. held (pg_ks st) P q l \<longrightarrow> 0 < l \<longrightarrow> apart (pg_mem st) K q l \<longrightarrow> regions_disjoint q l process 284 \<longrightarrow>
         held (pg_ks st4) P4 q l \<and> apart (pg_mem st4) c q l \<and> (\<forall>a. in_region a q l \<longrightarrow> pg_mem st4 a = pg_mem st a)"
    by (rule map_process [OF inv assms(5-9) n_def [THEN meta_eq_to_obj_eq] memory_def [THEN meta_eq_to_obj_eq]
          stack_def [THEN meta_eq_to_obj_eq] assms(10-23)])
      (rule that; assumption)
  have "regions_disjoint c 4100 K 4100" using m(4) by (simp add: shares_tables_def Let_def apart_def)
  then have ck: "c \<noteq> K" by (auto simp: regions_disjoint_def)
  have frame: "held (pg_ks st4) P4 q l \<and> apart (pg_mem st4) c q l \<and> (\<forall>a. in_region a q l \<longrightarrow> pg_mem st4 a = pg_mem st a)"
    if "held (pg_ks st) P q l" "0 < l" "apart (pg_mem st) K q l" "regions_disjoint q l process 284" for q l using fr that by blast
  show ?thesis
  proof (rule exI [of _ c], rule exI [of _ st4], rule exI [of _ P4], intro conjI allI impI)
    show "c \<noteq> K" by (rule ck)
    show "pde (pg_mem st4) K i = pde (pg_mem st) K i" "ptbl (pg_mem st4) K i = ptbl (pg_mem st) K i" if "i < 1024" for i
      using m(5) that by (simp_all add: kernel_view_def)
    show "virtual_to_physical_addr st4 c (?V + off) = Some (pm + off)" if "unat off < 4096 * n" for off
    proof -
      have "unat (?V + off) = unat ?V + unat off"
        using that assms(22) by (simp add: PROGRAM_BASE_VIRT_ADDR_def unat_word_ariths)
      then show ?thesis using m(6) that by (simp add: maps_range_def)
    qed
    show "virtual_to_physical_addr st4 c (?S + off) = Some (ps + off)" if "off < PROGRAM_STACK_SIZE" for off
    proof -
      have o: "unat off < 4096" using that by (simp add: PROGRAM_STACK_SIZE_def word_less_nat_alt)
      then have "unat (?S + off) = unat ?S + unat off" by (simp add: PROGRAM_STACK_TOP_VIRT_ADDR_def unat_word_ariths)
      then show ?thesis using m(7) o by (simp add: maps_range_def)
    qed
    show "held (pg_ks st4) P4 q l" "apart (pg_mem st4) c q l" "\<And>a. in_region a q l \<Longrightarrow> pg_mem st4 a = pg_mem st a"
      if "held (pg_ks st) P q l" "0 < l" "apart (pg_mem st) K q l" "regions_disjoint q l process 284" for q l
      using frame [OF that] by blast+
    fix u assume u: "u < 0xFFC00000" "ptbl (pg_mem st) K (dir_index u) \<noteq> 0"
    note v = kernel_viewD [OF m(5) u]
    show "virtual_to_physical_addr st4 K u = virtual_to_physical_addr st K u" by (rule v(3))
    show "virtual_to_physical_addr st4 c u = virtual_to_physical_addr st K u"
      using shared_translation [OF m(4) v(1,2)] v(3) by simp
  qed (rule m ck)+
qed

text \<open>A structure allocated beside a directory is apart from it.\<close>

lemma new_structure:
  assumes inv: "pg_inv st P h (1 + k)"
  obtains p ks where "p \<noteq> NULL" "pg_inv (st\<lparr>pg_ks := ks\<rparr>) (P(p \<mapsto> 4096)) h k" "apart (ks_mem ks) h p 4096"
    "\<forall>i<1024. pde (ks_mem ks) h i = pde (pg_mem st) h i \<and> ptbl (ks_mem ks) h i = ptbl (pg_mem st) h i"
    "\<forall>u. dir_index u < 1023 \<longrightarrow> ptbl (pg_mem st) h (dir_index u) \<noteq> 0 \<longrightarrow>
       virtual_to_physical_addr (st\<lparr>pg_ks := ks\<rparr>) h u = virtual_to_physical_addr st h u"
proof -
  have "pg_inv st P h (Suc k)" using inv by simp
  then obtain p ks where n: "p \<noteq> NULL" "pg_inv (st\<lparr>pg_ks := ks\<rparr>) (P(p \<mapsto> 4096)) h k"
    and fr: "\<forall>q n. held (pg_ks st) P q n \<longrightarrow> held ks (P(p \<mapsto> 4096)) q n \<and> (0 < n \<longrightarrow> regions_disjoint p 4096 q n)
       \<and> (\<forall>a. in_region a q n \<longrightarrow> ks_mem ks a = pg_mem st a)" by (rule new_page)
  have wf: "held (pg_ks st) P h 4100" "held (pg_ks st) P (pdir (pg_mem st) h) 4096"
    "\<And>i. i < 1023 \<Longrightarrow> ptbl (pg_mem st) h i \<noteq> 0 \<Longrightarrow> held (pg_ks st) P (ptbl (pg_mem st) h i) 4096"
    using inv by (auto simp: pg_inv_def pd_wf_def Let_def)
  have keep: "ks_mem ks a = pg_mem st a" if "held (pg_ks st) P q l" "in_region a q l" for q l a using fr that by blast
  have dj: "regions_disjoint q l p 4096" if "held (pg_ks st) P q l" "0 < l" for q l
    using fr that regions_disjoint_sym by blast
  note same = pd_frame [of h "ks_mem ks" "pg_mem st", OF keep [OF wf(1)] keep [OF wf(2)]]
  have tb: "\<forall>i<1024. pde (ks_mem ks) h i = pde (pg_mem st) h i \<and> ptbl (ks_mem ks) h i = ptbl (pg_mem st) h i"
    using same by simp
  have "apart (ks_mem ks) h p 4096" using dj wf tb same(1) by (simp add: apart_def)
  moreover have "virtual_to_physical_addr (st\<lparr>pg_ks := ks\<rparr>) h u = virtual_to_physical_addr st h u"
    if u: "dir_index u < 1023" "ptbl (pg_mem st) h (dir_index u) \<noteq> 0" for u
  proof -
    have "pte (ks_mem ks) h (dir_index u) (tbl_index u) = pte (pg_mem st) h (dir_index u) (tbl_index u)"
      by (rule pte_frame) (use tb u keep [OF wf(3) [OF u]] in auto)
    then show ?thesis using u tb by (simp add: virtual_to_physical_eq)
  qed
  ultimately show thesis using that [OF n] tb by blast
qed

lemma demo_process:
  obtains st P process where "pg_inv st P 0x10000 4092" "pg_current_directory st = 0x10000" "small_pages (pg_mem st) 0x10000"
    "process \<noteq> NULL" "held (pg_ks st) P process 284" "apart (pg_mem st) 0x10000 process 284"
    "fld process_memory (pg_mem st) process = 0xC0200000" "fld process_memory_size (pg_mem st) process = 8000"
    "fld process_stack (pg_mem st) process = 0xC0300000" "ptbl (pg_mem st) 0x10000 768 \<noteq> 0"
    "virtual_to_physical_addr st 0x10000 0xC0200000 = Some 0x200000" "virtual_to_physical_addr st 0x10000 0xC0300000 = Some 0x300000"
    "user_space_empty (pg_mem st) 0x10000"
proof -
  let ?K = "0x10000 :: addr"
  obtain st P where st: "pg_inv st P ?K 4093" "pg_current_directory st = ?K" "small_pages (pg_mem st) ?K" "ptbl (pg_mem st) ?K 768 \<noteq> 0"
    "\<forall>u. 0xC0000000 \<le> unat u \<longrightarrow> unat u < 0xC0400000 \<longrightarrow> virtual_to_physical_addr st ?K u = Some (u - 0xC0000000)"
    "user_space_empty (pg_mem st) ?K" by (rule demo_mapped)
  have "pg_inv st P ?K (1 + 4092)" using st(1) by simp
  then obtain p ks where n: "p \<noteq> NULL" "pg_inv (st\<lparr>pg_ks := ks\<rparr>) (P(p \<mapsto> 4096)) ?K 4092" "apart (ks_mem ks) ?K p 4096"
    "\<forall>i<1024. pde (ks_mem ks) ?K i = pde (pg_mem st) ?K i \<and> ptbl (ks_mem ks) ?K i = ptbl (pg_mem st) ?K i"
    "\<forall>u. dir_index u < 1023 \<longrightarrow> ptbl (pg_mem st) ?K (dir_index u) \<noteq> 0 \<longrightarrow>
       virtual_to_physical_addr (st\<lparr>pg_ks := ks\<rparr>) ?K u = virtual_to_physical_addr st ?K u" by (rule new_structure)
  let ?s = "st\<lparr>pg_ks := ks\<rparr>" and ?P = "P(p \<mapsto> 4096)"
  define m where "m = set_fld process_stack (set_fld process_memory_size (set_fld process_memory (ks_mem ks) p 0xC0200000) p 8000) p 0xC0300000"
  have h: "held (pg_ks ?s) ?P p 284" "apart (pg_mem ?s) ?K p 284"
    using n(3) regions_disjoint_mono [of _ _ p 4096 _ 284] by (auto simp: held_def apart_def)
  have out: "m a = pg_mem ?s a" if "\<not> in_region a p 284" for a using that by (simp add: m_def set_fld_outside)
  have dj: "regions_disjoint (pg_current_directory ?s) 4100 p 284" "regions_disjoint (pdir (pg_mem ?s) (pg_current_directory ?s)) 4096 p 284"
    using h(2) st(2) by (simp_all add: apart_def)
  note w = apart_write [OF n(2) h dj out]
  have heap: "held (pg_ks (pg_with ?s m)) ?P p 284" using h(1) held_heap [of "pg_ks (pg_with ?s m)" "pg_ks ?s" ?P p 284] by simp
  have ap: "apart m ?K p 284" using h(2) w(2,3) by (simp add: apart_def)
  have tr: "virtual_to_physical_addr (pg_with ?s m) ?K u = Some (u - 0xC0000000)" if "dir_index u = 768" for u
  proof -
    have "virtual_to_physical_addr (pg_with ?s m) ?K u = virtual_to_physical_addr ?s ?K u"
      using that st(4) n(4) w(3) [of 768] w(4) [of 768 "tbl_index u"] by (simp add: virtual_to_physical_eq)
    moreover have "0xC0000000 \<le> unat u" "unat u < 0xC0400000" using that by linarith+
    ultimately show ?thesis using n(5) st(4,5) that by simp
  qed
  have user: "user_space_empty m ?K" by (rule user_space_cong [OF st(6)]) (use n(4) w(3) in simp)
  show thesis
    by (rule that [of "pg_with ?s m" ?P p])
      (use user w n st heap ap tr [of "0xC0200000"] tr [of "0xC0300000"] in
        \<open>simp_all add: small_pages_def m_def fld_field del: fun_upd_apply\<close>)
qed

theorem process_map_memory_space_witness:
  "\<exists>st process st'. process_map_memory 0x10000 process st = Some (0, st')
     \<and> fld process_page_directory (pg_mem st') process \<noteq> 0x10000 \<and> ptbl (pg_mem st') 0x10000 1 = ptbl (pg_mem st) 0x10000 1
     \<and> virtual_to_physical_addr st' (fld process_page_directory (pg_mem st') process) (PROGRAM_BASE_VIRT_ADDR + 0x1123) = Some 0x201123
     \<and> virtual_to_physical_addr st' (fld process_page_directory (pg_mem st') process) (PROGRAM_STACK_TOP_VIRT_ADDR + 0xffc) = Some 0x300ffc"
proof -
  obtain st P process where s: "pg_inv st P 0x10000 4092" "pg_current_directory st = 0x10000" "small_pages (pg_mem st) 0x10000"
    "process \<noteq> NULL" "held (pg_ks st) P process 284" "apart (pg_mem st) 0x10000 process 284"
    and f: "fld process_memory (pg_mem st) process = 0xC0200000" "fld process_memory_size (pg_mem st) process = 8000"
    "fld process_stack (pg_mem st) process = 0xC0300000"
    and t: "ptbl (pg_mem st) 0x10000 768 \<noteq> 0" "virtual_to_physical_addr st 0x10000 0xC0200000 = Some 0x200000"
      "virtual_to_physical_addr st 0x10000 0xC0300000 = Some 0x300000" "user_space_empty (pg_mem st) 0x10000" by (rule demo_process)
  have nb: "nblocks (fld process_memory_size (pg_mem st) process) = 2" using f by simp
  have room: "pg_inv st P 0x10000 (4087 + 4 + (nblocks (fld process_memory_size (pg_mem st) process) + 1023) div 1024)"
    using s(1) nb by simp
  obtain st' where st': "process_map_memory 0x10000 process st = Some (0, st')"
    "\<forall>off. unat off < 4096 * 2 \<longrightarrow> virtual_to_physical_addr st' (fld process_page_directory (pg_mem st') process)
       (PROGRAM_BASE_VIRT_ADDR + off) = Some (0x200000 + off)"
    "\<forall>off. off < PROGRAM_STACK_SIZE \<longrightarrow> virtual_to_physical_addr st' (fld process_page_directory (pg_mem st') process)
       (PROGRAM_STACK_TOP_VIRT_ADDR + off) = Some (0x300000 + off)"
    "fld process_page_directory (pg_mem st') process \<noteq> 0x10000"
    "\<forall>i<1024. pde (pg_mem st') 0x10000 i = pde (pg_mem st) 0x10000 i \<and> ptbl (pg_mem st') 0x10000 i = ptbl (pg_mem st) 0x10000 i"
    using process_map_memory_space [OF room s(2-6), of "0x200000" "0x300000", unfolded nb f] t
    by (auto simp: KERNEL_VIRTUAL_BASE_def page_aligned_iff)
  show ?thesis
    using st'(1,4,5) spec [OF st'(2), of "0x1123"] spec [OF st'(3), of "0xffc"]
    by (intro exI [of _ st] exI [of _ process] exI [of _ st']) (simp add: PROGRAM_STACK_SIZE_def)
qed

end
