(* ===== verification/Process_List.thy ===== *)
theory Process_List
  imports Process
begin

text \<open>
  The list of processes: a ring of process structures that starts with the system process. A new process is
  hung in at the end; taking it out again leaves the old ring.
\<close>

interpretation pl: link_store "fld process_next" "fld process_previous" "set_fld process_next" "set_fld process_previous"
  "\<lambda>p q. regions_disjoint p 284 q 284"
  by (rule link_fields) simp_all

definition process_ring :: "mem \<Rightarrow> addr list \<Rightarrow> bool" where
  "process_ring m q \<longleftrightarrow> ring (fld process_next m) (fld process_previous m) q
     \<and> (\<forall>a\<in>set q. \<forall>b\<in>set q. a \<noteq> b \<longrightarrow> regions_disjoint a 284 b 284)"

lemma process_ring_cong:
  assumes "process_ring m ys" "\<And>y x. y \<in> set ys \<Longrightarrow> in_region x y 284 \<Longrightarrow> m' x = m x"
  shows "process_ring m' ys"
proof -
  have "fld j m' y = fld j m y" if "y \<in> set ys" "unat j + 4 \<le> 284" for j y
    by (rule fld_cong [OF assms(2) [OF that(1)] that(2)]) simp_all
  then show ?thesis
    using assms(1) ring_cong [of ys "fld process_next m'" "fld process_next m" "fld process_previous m'" "fld process_previous m"]
    unfolding process_ring_def by simp
qed

lemma set_fld_link:
  assumes "\<not> in_region x p 284"
  shows "set_fld process_next m p v x = m x" "set_fld process_previous m p v x = m x"
  by (rule set_fld_outside [OF assms]; simp)+

lemma process_list_insert_ring:
  assumes r: "process_ring m (sys # xs)" "fld tcb_process m system_task = sys" "p \<notin> set (sys # xs)"
    and p: "\<forall>q\<in>set (sys # xs). regions_disjoint p 284 q 284"
  shows "process_ring (process_list_insert system_task p m) (sys # xs @ [p])"
    "\<forall>q\<in>set (p # sys # xs). \<not> in_region x q 284 \<Longrightarrow> process_list_insert system_task p m x = m x"
    "\<exists>v w. process_list_insert system_task p m = set_fld process_next (set_fld process_previous (set_fld process_previous
       (set_fld process_next m p v) p w) sys p) (last (sys # xs)) p"
proof -
  define h2 where "h2 = set_fld process_previous (set_fld process_next m p sys) p (fld process_previous (set_fld process_next m p sys) sys)"
  have sep: "regions_disjoint a 284 b 284" if "a \<in> set (p # sys # xs)" "b \<in> set (p # sys # xs)" "a \<noteq> b" for a b
    using that r(1) p regions_disjoint_sym [of a 284 b 284] unfolding process_ring_def by auto
  have rg: "ring (fld process_next m) (fld process_previous m) (sys # xs)" using r(1) by (simp add: process_ring_def del: ring.simps)
  note ins = pl.insert_before [OF rg r(3) sep, folded h2_def]
  have eq: "process_list_insert system_task p m = set_fld process_next (set_fld process_previous h2 sys p) (last (sys # xs)) p"
    using ins(5) r(2) by (simp add: process_list_insert_def Let_def h2_def)
  show "process_ring (process_list_insert system_task p m) (sys # xs @ [p])"
    unfolding process_ring_def eq using ins(4) sep by (simp del: ring.simps)
  show "\<exists>v w. process_list_insert system_task p m = set_fld process_next (set_fld process_previous (set_fld process_previous
       (set_fld process_next m p v) p w) sys p) (last (sys # xs)) p"
    unfolding eq h2_def by blast
  show "process_list_insert system_task p m x = m x" if "\<forall>q\<in>set (p # sys # xs). \<not> in_region x q 284"
  proof -
    have "last (sys # xs) \<in> set (p # sys # xs)" by simp
    then have "\<not> in_region x (last (sys # xs)) 284" using that by blast
    then show ?thesis using that unfolding eq h2_def by (simp add: set_fld_link del: last.simps)
  qed
qed

lemma process_list_remove_ring:
  assumes r: "process_ring m (p # sys # xs)"
  shows "process_ring (process_list_remove p m) (sys # xs)"
    "fld process_next (process_list_remove p m) p = NULL" "fld process_previous (process_list_remove p m) p = NULL"
    "\<forall>q\<in>set (p # sys # xs). \<not> in_region x q 284 \<Longrightarrow> process_list_remove p m x = m x"
proof -
  define h1 where "h1 = set_fld process_next m (fld process_previous m p) (fld process_next m p)"
  define h2 where "h2 = set_fld process_previous h1 (fld process_next h1 p) (fld process_previous h1 p)"
  have rg: "ring (fld process_next m) (fld process_previous m) (p # sys # xs)"
    and sep: "\<And>a b. a \<in> set (p # sys # xs) \<Longrightarrow> b \<in> set (p # sys # xs) \<Longrightarrow> a \<noteq> b \<Longrightarrow> regions_disjoint a 284 b 284"
    using r unfolding process_ring_def by blast+
  note rem = pl.remove_first [OF rg sep, folded h1_def, folded h2_def]
  have eq: "process_list_remove p m = set_fld process_previous (set_fld process_next h2 p NULL) p NULL"
    by (simp add: process_list_remove_def Let_def h1_def h2_def)
  have np: "p \<notin> set (sys # xs)" using ring_distinct [OF rg] by simp
  have keep: "fld process_next (process_list_remove p m) q = fld process_next h2 q
      \<and> fld process_previous (process_list_remove p m) q = fld process_previous h2 q" if "q \<in> set (sys # xs)" for q
  proof -
    have "regions_disjoint p 284 q 284" using sep [of p q] that np by auto
    then show ?thesis unfolding eq by (simp add: pl.other)
  qed
  have "ring (fld process_next (process_list_remove p m)) (fld process_previous (process_list_remove p m)) (sys # xs)
      = ring (fld process_next h2) (fld process_previous h2) (sys # xs)" by (rule ring_cong, rule keep)
  with rem(1) show "process_ring (process_list_remove p m) (sys # xs)" unfolding process_ring_def using sep by (simp del: ring.simps)
  show "fld process_next (process_list_remove p m) p = NULL" "fld process_previous (process_list_remove p m) p = NULL"
    unfolding eq by (simp_all add: pl.same)
  show "process_list_remove p m x = m x" if "\<forall>q\<in>set (p # sys # xs). \<not> in_region x q 284"
  proof -
    have "last (sys # xs) \<in> set (p # sys # xs)" by simp
    then have "\<not> in_region x (last (sys # xs)) 284" using that by blast
    then have "h1 x = m x" "h2 x = h1 x" using that rem(2-5) unfolding h2_def h1_def by (simp_all add: set_fld_link del: last.simps)
    then show ?thesis using that unfolding eq by (simp add: set_fld_link)
  qed
qed

text \<open>
  C27: the list of processes. \<open>process_list_insert\<close> appends a process to the ring that starts with the process of
  \<open>system_task\<close>; \<open>process_list_remove\<close> takes it out again, which leaves the ring as it was and the links of the
  process NULL. Neither writes outside the structures of these processes.
\<close>

theorem process_list_roundtrip:
  assumes "process_ring m (sys # xs)" "fld tcb_process m system_task = sys" "p \<notin> set (sys # xs)"
    and "\<forall>q\<in>set (sys # xs). regions_disjoint p 284 q 284"
  shows "process_ring (process_list_insert system_task p m) (sys # xs @ [p])
    \<and> process_ring (process_list_remove p (process_list_insert system_task p m)) (sys # xs)
    \<and> fld process_next (process_list_remove p (process_list_insert system_task p m)) p = NULL
    \<and> fld process_previous (process_list_remove p (process_list_insert system_task p m)) p = NULL
    \<and> (\<forall>x. (\<forall>q\<in>set (p # sys # xs). \<not> in_region x q 284) \<longrightarrow>
         process_list_insert system_task p m x = m x
         \<and> process_list_remove p (process_list_insert system_task p m) x = m x)"
proof -
  note ins = process_list_insert_ring [OF assms]
  have "process_ring (process_list_insert system_task p m) (p # sys # xs)"
    using ins(1) ring_rotate [of _ _ "sys # xs" "[p]"] unfolding process_ring_def by (simp del: ring.simps)
  note rem = process_list_remove_ring [OF this]
  show ?thesis
  proof (intro conjI allI impI)
    fix x assume x: "\<forall>q\<in>set (p # sys # xs). \<not> in_region x q 284"
    show i: "process_list_insert system_task p m x = m x" by (rule ins(2) [OF x])
    show "process_list_remove p (process_list_insert system_task p m) x = m x" using rem(4) [OF x] i by simp
  qed (rule ins rem)+
qed

text \<open>A system process at 0x3000 whose task is at 0x1000, and a new process at 0x5000.\<close>

definition demo_system :: mem where
  "demo_system = set_fld process_next (set_fld process_previous (set_fld tcb_process (\<lambda>_. 0) 0x1000 0x3000) 0x3000 0x3000) 0x3000 0x3000"

theorem process_list_roundtrip_witness:
  "process_ring (process_list_insert 0x1000 0x5000 demo_system) [0x3000, 0x5000]
   \<and> process_ring (process_list_remove 0x5000 (process_list_insert 0x1000 0x5000 demo_system)) [0x3000]"
proof -
  have d: "regions_disjoint (0x1000 :: addr) 92 0x3000 284" "regions_disjoint (0x5000 :: addr) 284 0x3000 284"
    by (simp_all add: regions_disjoint_def)
  have "fld tcb_process demo_system 0x1000 = 0x3000"
    using d(1) by (simp add: demo_system_def fld_other [of _ 284 _ 92] regions_disjoint_sym)
  moreover have "process_ring demo_system [0x3000]" by (simp add: process_ring_def demo_system_def fld_field)
  ultimately show ?thesis using process_list_roundtrip [of demo_system "0x3000" "[]" "0x1000" "0x5000"] d(2) by simp
qed

end
