(* ===== verification/Tasking.thy ===== *)
theory Tasking
  imports Process_List Paging_Init
begin

text \<open>
  \<open>tasking_init\<close>: the system process with the task the kernel has been running as, and the idle process with a
  task of its own. What it leaves is the state the lemmas on tasks, on the scheduler and on the list of processes
  start from.
\<close>

section \<open>Names of processes\<close>

text \<open>The fields behind the name, and those of other structures.\<close>

lemma name_apart:
  assumes "254 \<le> unat k" "unat k + 4 \<le> 284"
  shows "regions_disjoint (p + 4) 250 (p + k) 4"
proof -
  have "unat (k - 4) = unat k - 4" using assms(1) by (subst unat_sub) (simp_all add: word_le_nat_alt)
  moreover have "unat (4 - k) = 4294967300 - unat k" using assms(1) by (simp add: unat_sub_if')
  ultimately have "250 \<le> unat (k - 4)" "4 \<le> unat (4 - k)" using assms by linarith+
  then show ?thesis by (simp add: regions_disjoint_def)
qed

lemma set_fld_behind_name:
  assumes "254 \<le> unat k" "unat k + 4 \<le> 284" "in_region x (p + process_name) 250"
  shows "set_fld k m p v x = m x"
  using assms(3) regions_disjointD [OF name_apart [OF assms(1,2)]] store32_outside unfolding set_fld_def by blast

lemma named_set_fld:
  assumes "named m q" "p = q \<or> regions_disjoint p n q 284"
    and "p = q \<longrightarrow> 254 \<le> unat k \<and> unat k + 4 \<le> 284" "unat k + 4 \<le> n" "n \<le> 2 ^ 32"
  shows "named (set_fld k m p v) q"
proof (cases "p = q")
  case True
  then show ?thesis using named_name [OF assms(1)] set_fld_behind_name assms(3) by blast
next
  case False
  then have "regions_disjoint p n q 284" using assms(2) by simp
  then show ?thesis using named_cong [OF assms(1)] set_fld_outside [OF _ assms(4,5)] regions_disjointD by blast
qed

text \<open>A name written into a process, padded with zeros to the length of the field, by \<open>strncpy\<close> from a literal or from memory.\<close>

lemma padded_named:
  fixes z :: "u8 list"
  assumes s: "length z < 250" "0 \<notin> set z"
  defines "w \<equiv> z @ replicate (250 - length z) 0"
  shows "cstring (write_bytes m (p + process_name) w) (p + process_name) z"
    "\<not> in_region x p 284 \<Longrightarrow> write_bytes m (p + process_name) w x = m x"
    "unat k + 4 \<le> 4 \<or> 254 \<le> unat k \<and> unat k + 4 \<le> 284 \<Longrightarrow> fld k (write_bytes m (p + process_name) w) p = fld k m p"
proof -
  let ?m = "write_bytes m (p + 4) w"
  have len: "length w = 250" using s(1) by (simp add: w_def)
  obtain i where i: "250 - length z = Suc i" using s(1) by (cases "250 - length z") auto
  show "cstring ?m (p + 4) z" unfolding w_def i by (rule cstring_written [OF s(2)]) (use s(1) i in simp)
  have o: "?m x = m x" if "\<not> in_region x (p + 4) 250" for x using that len write_bytes_outside by metis
  then show "?m x = m x" if "\<not> in_region x p 284"
    using that field_region [of x p 4 250 284] by auto
  show "fld k ?m p = fld k m p" if k: "unat k + 4 \<le> 4 \<or> 254 \<le> unat k \<and> unat k + 4 \<le> 284"
    unfolding fld_def
  proof (rule load32_cong, rule o)
    fix x assume x: "in_region x (p + k) 4"
    have "regions_disjoint (p + k) 4 (p + 4) 250"
      using k
    proof
      assume "unat k + 4 \<le> 4"
      then have "k = 0" by (simp add: unat_eq_zero [symmetric])
      then show ?thesis by (simp add: regions_disjoint_def)
    next
      assume "254 \<le> unat k \<and> unat k + 4 \<le> 284"
      then show ?thesis using name_apart regions_disjoint_sym by blast
    qed
    then show "\<not> in_region x (p + 4) 250" using x regions_disjointD by blast
  qed
qed

lemma literal_named:
  assumes "length s < 250" "0 \<notin> set (map of_char s :: u8 list)"
  shows "named (strncpy_literal m (p + process_name) s MAX_PATH_LEN) p"
    "\<not> in_region x p 284 \<Longrightarrow> strncpy_literal m (p + process_name) s MAX_PATH_LEN x = m x"
    "unat k + 4 \<le> 4 \<or> 254 \<le> unat k \<and> unat k + 4 \<le> 284 \<Longrightarrow>
       fld k (strncpy_literal m (p + process_name) s MAX_PATH_LEN) p = fld k m p"
proof -
  have m: "strncpy_literal m (p + process_name) s MAX_PATH_LEN
      = write_bytes m (p + process_name) (map of_char s @ replicate (250 - length (map of_char s :: u8 list)) 0)"
    using assms(1) by (simp add: strncpy_literal_def MAX_PATH_LEN_def)
  have l: "length (map of_char s :: u8 list) < 250" using assms(1) by simp
  note n = padded_named [OF l assms(2)]
  show "named (strncpy_literal m (p + process_name) s MAX_PATH_LEN) p" unfolding m named_def using n(1) l by blast
  show "strncpy_literal m (p + process_name) s MAX_PATH_LEN x = m x" if "\<not> in_region x p 284" unfolding m by (rule n(2) [OF that])
  show "fld k (strncpy_literal m (p + process_name) s MAX_PATH_LEN) p = fld k m p"
    if "unat k + 4 \<le> 4 \<or> 254 \<le> unat k \<and> unat k + 4 \<le> 284" unfolding m by (rule n(3) [OF that])
qed

lemma strncpy_named:
  assumes "cstring m name z" "length z < 250" "regions_disjoint p 284 name 250"
  shows "cstring (strncpy m (p + process_name) name MAX_PATH_LEN) (p + process_name) z"
    "\<not> in_region x p 284 \<Longrightarrow> strncpy m (p + process_name) name MAX_PATH_LEN x = m x"
    "unat k + 4 \<le> 4 \<or> 254 \<le> unat k \<and> unat k + 4 \<le> 284 \<Longrightarrow> fld k (strncpy m (p + process_name) name MAX_PATH_LEN) p = fld k m p"
proof -
  have "regions_disjoint (p + process_name) 250 name 250"
    by (rule regions_disjointI) (use assms(3) regions_disjointD field_region [of _ p 4 250 284] in auto)
  then have m: "strncpy m (p + process_name) name MAX_PATH_LEN = write_bytes m (p + process_name) (z @ replicate (250 - length z) 0)"
    using assms(1,2) by (simp add: strncpy_write_bytes MAX_PATH_LEN_def zbytes_cstring)
  have z: "0 \<notin> set z" using assms(1) by (simp add: cstring_def)
  note n = padded_named [OF assms(2) z]
  show "cstring (strncpy m (p + process_name) name MAX_PATH_LEN) (p + process_name) z" unfolding m by (rule n(1))
  show "strncpy m (p + process_name) name MAX_PATH_LEN x = m x" if "\<not> in_region x p 284" unfolding m by (rule n(2) [OF that])
  show "fld k (strncpy m (p + process_name) name MAX_PATH_LEN) p = fld k m p"
    if "unat k + 4 \<le> 4 \<or> 254 \<le> unat k \<and> unat k + 4 \<le> 284" unfolding m by (rule n(3) [OF that])
qed

section \<open>The system process\<close>

text \<open>The structures that \<open>init_system_process\<close> writes: the process at \<open>p\<close> and the task at \<open>T\<close>.\<close>

definition system_record :: "mem \<Rightarrow> addr \<Rightarrow> addr \<Rightarrow> addr \<Rightarrow> mem" where
  "system_record m K T p =
     (let m1 = set_fld process_memory (set_fld process_memory_size (set_fld process_pid m p 0) p 0) p KERNEL_VIRTUAL_BASE;
          m2 = strncpy_literal m1 (p + process_name) ''System Process'' MAX_PATH_LEN;
          m3 = set_fld process_previous (set_fld process_next (set_fld process_task (set_fld process_page_directory m2 p K) p T) p p) p p;
          m4 = set_fld tcb_process (set_fld tcb_ss m3 T GDT_KERNEL_DATA_SEGMENT_SELECTOR) T p
      in set_fld tcb_previous (set_fld tcb_next m4 T T) T T)"

lemma system_record:
  fixes m :: mem and K T p :: addr
  assumes d: "regions_disjoint p 284 T 16384"
  defines "m' \<equiv> system_record m K T p"
  shows "named m' p" "fld process_pid m' p = 0" "fld process_page_directory m' p = K" "fld process_task m' p = T"
    "fld process_next m' p = p" "fld process_previous m' p = p"
    "fld tcb_process m' T = p" "fld tcb_next m' T = T" "fld tcb_previous m' T = T"
    "\<not> in_region x p 284 \<Longrightarrow> \<not> in_region x T 16384 \<Longrightarrow> m' x = m x"
proof -
  have d': "regions_disjoint T 16384 p 284" using d regions_disjoint_sym by blast
  have lit: "length ''System Process'' < 250" "0 \<notin> set (map of_char ''System Process'' :: u8 list)" by simp_all
  note l = literal_named [OF lit]
  show "fld process_pid m' p = 0" "fld process_page_directory m' p = K" "fld process_task m' p = T"
    "fld process_next m' p = p" "fld process_previous m' p = p"
    by (simp_all add: m'_def system_record_def Let_def fld_field fld_other [OF d'] l(3))
  show "fld tcb_process m' T = p" "fld tcb_next m' T = T" "fld tcb_previous m' T = T"
    by (simp_all add: m'_def system_record_def Let_def fld_field)
  show "named m' p"
    unfolding m'_def system_record_def Let_def
    by (intro named_set_fld [where n = 16384 and p = T] named_set_fld [where n = 284 and p = p] l(1)) (use d' in \<open>auto simp: regions_disjoint_def\<close>)
  show "m' x = m x" if "\<not> in_region x p 284" "\<not> in_region x T 16384"
    using that by (simp add: m'_def system_record_def Let_def set_fld_outside [where n = 284] set_fld_outside [where n = 16384] l(2))
qed

text \<open>
  The software interrupt is taken on the stack the kernel runs on, which lies in the page of the system task, behind the fields
  of the task.
\<close>

definition frame_on_stack :: "addr \<Rightarrow> u32 list \<Rightarrow> addr \<Rightarrow> bool" where
  "frame_on_stack T regs frame \<longleftrightarrow> length regs = 15 \<and> 92 \<le> unat (frame - T) \<and> unat (frame - T) + 68 \<le> 16384"

lemma push_frame_outside:
  assumes "frame_on_stack T regs frame"
  shows "\<not> in_region x T 16384 \<Longrightarrow> push_frame n regs frame m x = m x" "in_region x T 92 \<Longrightarrow> push_frame n regs frame m x = m x"
proof -
  have f: "length regs = 15" "92 \<le> unat (frame - T)" "unat (frame - T) + 68 \<le> 16384" using assms by (simp_all add: frame_on_stack_def)
  have out: "push_frame n regs frame m x = m x" if "\<not> in_region x frame 68"
    unfolding push_frame_def by (rule store_words_outside) (use that f(1) in simp_all)
  show "push_frame n regs frame m x = m x" if "\<not> in_region x T 16384"
    using out that field_region [of x T "frame - T" 68 16384] f(3) by auto
  have "regions_disjoint T 92 frame 68"
    using f(2,3) unat_sub_if' [of 0 "frame - T"] by (simp add: regions_disjoint_def split: if_splits)
  then show "push_frame n regs frame m x = m x" if "in_region x T 92" using out that regions_disjointD by blast
qed

lemma system_process:
  assumes inv: "kheap_inv (pg_ks (tk_pg (cs_tk st))) P" "kheap_room (pg_ks (tk_pg (cs_tk st))) (Suc k)"
    and T: "held (pg_ks (tk_pg (cs_tk st))) P T 16384" "T \<noteq> NULL"
    and int: "isr_handlers st ! 20 = Some no_int_handler" "frame_on_stack T regs frame"
  obtains p tk' where "init_system_process io regs frame K T st
       = Some (st\<lparr>cs_dev := snd (insb io 0x20 (outb io 0x20 0x0B (cs_dev st))), cs_tk := tk'\<rparr>)"
    "P p = None" "tasks_held tk' (P(p \<mapsto> 4096)) [T] k"
    "regions_disjoint p 4096 T 16384" "fld tcb_process (tk_mem tk') T = p" "process_ring (tk_mem tk') [p]"
    "fld process_page_directory (tk_mem tk') p = K" "processes tk' = (processes (cs_tk st))(0 := p)" "current_process tk' = p"
    "tk_pg tk' = (tk_pg (cs_tk st))\<lparr>pg_ks := pg_ks (tk_pg tk'), pg_term := pg_term (tk_pg tk')\<rparr>" "tk_gdt tk' = tk_gdt (cs_tk st)"
    "spares {(T, 16384)} (pg_ks (tk_pg (cs_tk st))) P (pg_ks (tk_pg tk')) (P(p \<mapsto> 4096))"
    "\<forall>q n. held (pg_ks (tk_pg (cs_tk st))) P q n \<longrightarrow> 0 < n \<longrightarrow> regions_disjoint p 4096 q n"
proof -
  let ?s = "pg_ks (tk_pg (cs_tk st))"
  have nb: "nblocks sizeof_process = 1" "0 < sizeof_process" by (simp_all add: sizeof_process_def)
  have room: "kheap_room ?s (nblocks sizeof_process + k)" unfolding nb using inv(2) by simp
  obtain p ks where ks: "kzalloc ?s sizeof_process = Some (p, ks)" "P p = None" "kheap_inv ks (P(p \<mapsto> 4096))" "kheap_room ks k"
    and fr: "\<forall>q n. held ?s P q n \<longrightarrow> held ks (P(p \<mapsto> 4096)) q n \<and> (0 < n \<longrightarrow> regions_disjoint p 4096 q n)
       \<and> (\<forall>a. in_region a q n \<longrightarrow> ks_mem ks a = ks_mem ?s a)"
    by (rule held_region [OF inv(1) room nb(2)]) (simp only: nb mult_1_right)
  let ?P = "P(p \<mapsto> 4096)"
  have pT: "regions_disjoint p 4096 T 16384" using fr T(1) by simp
  then have d: "regions_disjoint p 284 T 16384" using regions_disjoint_mono [of p 4096 T 16384 284 16384] by simp
  define m0 where "m0 = system_record (ks_mem ks) K T p"
  define m where "m = push_frame 20 regs frame m0"
  note r0 = system_record [OF d, where m = "ks_mem ks" and K = K, folded m0_def]
  note out = push_frame_outside [OF int(2), of _ 20 m0, folded m_def]
  have inp: "m x = m0 x" if "in_region x p 284" for x using out(1) that d regions_disjointD by blast
  have fp: "fld j m p = fld j m0 p" if "unat j + 4 \<le> 284" for j using fld_cong [of p 284 m m0 j] inp that by simp
  have fT: "fld j m T = fld j m0 T" if "unat j + 4 \<le> 92" for j using fld_cong [of T 92 m m0 j] out(2) that by simp
  have r: "named m p" "fld process_pid m p = 0" "fld process_page_directory m p = K" "fld process_task m p = T"
    "fld process_next m p = p" "fld process_previous m p = p" "fld tcb_process m T = p" "fld tcb_next m T = T" "fld tcb_previous m T = T"
    using named_cong [OF r0(1) inp] r0(2-9) by (simp_all add: fp fT)
  have r10: "m x = ks_mem ks x" if "\<not> in_region x p 284" "\<not> in_region x T 16384" for x using out(1) r0(10) that by simp
  have h: "held ks ?P p 284" "held ks ?P T 16384"
  proof -
    show "held ks ?P p 284" by (simp add: held_def)
    show "held ks ?P T 16384" using fr T(1) by blast
  qed
  note inv' = held_write2 [OF ks(3,4) h r10]
  define st6 where "st6 = (tk_with (tk_heap ks (cs_tk st)) m0)\<lparr>current_process := p, current_task := T, processes := (processes (cs_tk st))(0 := p)\<rparr>"
  have m6: "tk_mem st6 = m0" by (simp add: st6_def tk_with_def tk_heap_def)
  obtain t where t: "raise_int_20 io regs frame (st\<lparr>cs_tk := st6\<rparr>) = Some (st\<lparr>cs_dev := snd (insb io 0x20 (outb io 0x20 0x0B (cs_dev st))),
      cs_tk := (tk_with st6 m)\<lparr>tk_pg := (tk_pg (tk_with st6 m))\<lparr>pg_term := t\<rparr>\<rparr>\<rparr>)"
    using raise_int_20_prints [of "st\<lparr>cs_tk := st6\<rparr>" regs io frame] int by (auto simp: frame_on_stack_def m6 m_def)
  define tk' where "tk' = (tk_with st6 m)\<lparr>tk_pg := (tk_pg (tk_with st6 m))\<lparr>pg_term := t\<rparr>\<rparr>"
  have run: "init_system_process io regs frame K T st
       = Some (st\<lparr>cs_dev := snd (insb io 0x20 (outb io 0x20 0x0B (cs_dev st))), cs_tk := tk'\<rparr>)"
    using ks(1) t r0(2,4)
    by (simp add: init_system_process_def Let_def tk_set_def tk_heap_def tk_with_def tk'_def st6_def m0_def system_record_def MAX_PROCESSES_def)
  have s': "pg_ks (tk_pg tk') = ks\<lparr>ks_mem := m\<rparr>" by (simp add: tk'_def st6_def tk_with_def tk_heap_def)
  have hk: "held (ks\<lparr>ks_mem := m\<rparr>) ?P = held ks ?P" by (intro ext held_heap) simp
  have th: "tasks_held tk' ?P [T] k"
    using inv' h T(2) r d unfolding tasks_held_def tasks_inv_def task_ring_def Let_def s' hk
    by (simp add: tk'_def st6_def tk_with_def)
  have "ks_mem (ks\<lparr>ks_mem := m\<rparr>) x = ks_mem ?s x" if "held ?s P q n" "0 < n" "regions_disjoint q n T 16384" "in_region x q n" for q n x
  proof -
    have "regions_disjoint p 4096 q n" using fr that(1,2) by blast
    then have "\<not> in_region x p 284" using that(4) regions_disjointD in_region_mono [of x p 284 4096] by auto
    moreover have "\<not> in_region x T 16384" using that(3,4) regions_disjointD by blast
    ultimately show ?thesis using r10 fr that(1,4) by simp
  qed
  then have sp: "spares {(T, 16384)} ?s P (pg_ks (tk_pg tk')) ?P"
    unfolding spares_def s' hk using fr ks(2) by (auto simp: map_le_def simp del: fun_upd_apply) auto
  show thesis
    by (rule that [OF run ks(2) th pT]) (use r sp s' fr in \<open>simp_all add: process_ring_def tk'_def st6_def tk_with_def tk_heap_def\<close>)
qed

section \<open>Changes that keep the tasks\<close>

lemma tasks_keep:
  assumes th: "tasks_held st P q k" and cur: "current_task st' = current_task st"
    and heap: "kheap_inv (pg_ks (tk_pg st')) P'" "kheap_room (pg_ks (tk_pg st')) k'"
    and t: "\<And>a. a \<in> set q \<Longrightarrow> held (pg_ks (tk_pg st')) P' a 16384 \<and> (\<forall>x. in_region x a 16384 \<longrightarrow> tk_mem st' x = tk_mem st x)"
    and p: "\<And>a. a \<in> set q \<Longrightarrow> held (pg_ks (tk_pg st')) P' (fld tcb_process (tk_mem st) a) 284 \<and> named (tk_mem st') (fld tcb_process (tk_mem st) a)"
  shows "tasks_held st' P' q k'"
proof -
  have r: "task_ring (tk_mem st) q" and c: "current_task st = hd q" using th by (simp_all add: tasks_held_def tasks_inv_def Let_def)
  have f: "fld k (tk_mem st') a = fld k (tk_mem st) a" if "a \<in> set q" "unat k + 4 \<le> 16384" for a k
    by (rule fld_cong [OF _ that(2)]) (use t [OF that(1)] in auto)
  have g: "fld tcb_process (tk_mem st') a = fld tcb_process (tk_mem st) a" "fld tcb_next (tk_mem st') a = fld tcb_next (tk_mem st) a"
    "fld tcb_previous (tk_mem st') a = fld tcb_previous (tk_mem st) a" if "a \<in> set q" for a using f [OF that] by simp_all
  have "ring (fld tcb_next (tk_mem st')) (fld tcb_previous (tk_mem st')) q"
    using task_ringD(3) [OF r] ring_cong [of q "fld tcb_next (tk_mem st')" "fld tcb_next (tk_mem st)"] g by simp
  then have "task_ring (tk_mem st') q" using r g p by (simp add: task_ring_def)
  then show ?thesis using cur c heap t p g by (simp add: tasks_held_def tasks_inv_def Let_def)
qed

lemma tasks_heldD:
  assumes "tasks_held st P q k"
  shows "kheap_inv (pg_ks (tk_pg st)) P" "kheap_room (pg_ks (tk_pg st)) k" "task_ring (tk_mem st) q" "current_task st = hd q"
    "\<And>a. a \<in> set q \<Longrightarrow> held (pg_ks (tk_pg st)) P a 16384"
    "\<And>a. a \<in> set q \<Longrightarrow> held (pg_ks (tk_pg st)) P (fld tcb_process (tk_mem st) a) 284"
  using assms by (simp_all add: tasks_held_def tasks_inv_def Let_def)

lemma tasks_alloc:
  assumes th: "tasks_held st P q (nblocks sz + k)" and sz: "0 < sz"
  obtains p ks where "kzalloc (pg_ks (tk_pg st)) sz = Some (p, ks)" "P p = None"
    "tasks_held (tk_heap ks st) (P(p \<mapsto> 4096 * nblocks sz)) q k"
    "\<forall>q n. held (pg_ks (tk_pg st)) P q n \<longrightarrow> held ks (P(p \<mapsto> 4096 * nblocks sz)) q n
       \<and> (0 < n \<longrightarrow> regions_disjoint p (4096 * nblocks sz) q n) \<and> (\<forall>a. in_region a q n \<longrightarrow> ks_mem ks a = tk_mem st a)"
proof -
  note d = tasks_heldD [OF th]
  obtain p ks where ks: "kzalloc (pg_ks (tk_pg st)) sz = Some (p, ks)" "P p = None"
    "kheap_inv ks (P(p \<mapsto> 4096 * nblocks sz))" "kheap_room ks k"
    and fr: "\<forall>q n. held (pg_ks (tk_pg st)) P q n \<longrightarrow> held ks (P(p \<mapsto> 4096 * nblocks sz)) q n
       \<and> (0 < n \<longrightarrow> regions_disjoint p (4096 * nblocks sz) q n) \<and> (\<forall>a. in_region a q n \<longrightarrow> ks_mem ks a = tk_mem st a)"
    by (rule held_region [OF d(1,2) sz])
  have hs: "pg_ks (tk_pg (tk_heap ks st)) = ks" "current_task (tk_heap ks st) = current_task st" by (simp_all add: tk_heap_def)
  have nm: "named (ks_mem ks) (fld tcb_process (tk_mem st) a)" if "a \<in> set q" for a
    using named_cong [OF task_ringD(5) [OF d(3) that]] fr d(6) [OF that] by blast
  have "tasks_held (tk_heap ks st) (P(p \<mapsto> 4096 * nblocks sz)) q k"
    by (rule tasks_keep [OF th hs(2)]; unfold hs(1)) (use ks(3,4) fr d(5,6) nm in blast)+
  then show thesis using that ks(1,2) fr by blast
qed

lemma tasks_write:
  assumes th: "tasks_held st P q k" and p: "held (pg_ks (tk_pg st)) P p n"
    and d: "\<And>a. a \<in> set q \<Longrightarrow> regions_disjoint p n a 16384 \<and> regions_disjoint p n (fld tcb_process (tk_mem st) a) 284"
    and out: "\<And>x. \<not> in_region x p n \<Longrightarrow> m x = tk_mem st x"
  shows "tasks_held (tk_with st m) P q k"
proof -
  note h = tasks_heldD [OF th]
  have s: "pg_ks (tk_pg (tk_with st m)) = (pg_ks (tk_pg st))\<lparr>ks_mem := m\<rparr>" by (simp add: tk_with_def)
  have hk: "held ((pg_ks (tk_pg st))\<lparr>ks_mem := m\<rparr>) P = held (pg_ks (tk_pg st)) P" by (intro ext held_heap) simp
  have same: "m x = tk_mem st x" if "regions_disjoint p n r l" "in_region x r l" for x r l
    using that out regions_disjointD by blast
  have "m x = tk_mem st x" if "a \<in> set q" "in_region x a 16384" for a x using same that d by blast
  moreover have "named m (fld tcb_process (tk_mem st) a)" if "a \<in> set q" for a
    using named_cong [OF task_ringD(5) [OF h(3) that]] same d [OF that] by blast
  ultimately show ?thesis
  proof (intro tasks_keep [OF th]; unfold s hk tk_with_simps)
    show "kheap_inv ((pg_ks (tk_pg st))\<lparr>ks_mem := m\<rparr>) P" "kheap_room ((pg_ks (tk_pg st))\<lparr>ks_mem := m\<rparr>) k"
      using held_write [OF h(1) p out] h(2) by blast+
  qed (use h(5,6) in simp_all)
qed

section \<open>The idle process\<close>

text \<open>The structure of the idle process before its stack and its task.\<close>

definition idle_record :: "mem \<Rightarrow> addr \<Rightarrow> addr \<Rightarrow> mem" where
  "idle_record m K p =
     (let m1 = set_fld process_memory (set_fld process_memory_size (set_fld process_pid m p 1) p 0) p KERNEL_VIRTUAL_BASE
      in set_fld process_page_directory (strncpy_literal m1 (p + process_name) ''Idle Process'' MAX_PATH_LEN) p K)"

lemma idle_record:
  fixes m :: mem and K p :: addr
  defines "m' \<equiv> idle_record m K p"
  shows "named m' p" "fld process_pid m' p = 1" "fld process_page_directory m' p = K" "\<not> in_region x p 284 \<Longrightarrow> m' x = m x"
proof -
  have lit: "length ''Idle Process'' < 250" "0 \<notin> set (map of_char ''Idle Process'' :: u8 list)" by simp_all
  note l = literal_named [OF lit]
  show "fld process_pid m' p = 1" "fld process_page_directory m' p = K"
    by (simp_all add: m'_def idle_record_def Let_def fld_field l(3))
  show "named m' p" unfolding m'_def idle_record_def Let_def by (intro named_set_fld [where n = 284 and p = p] l(1)) simp_all
  show "m' x = m x" if "\<not> in_region x p 284"
    using that by (simp add: m'_def idle_record_def Let_def set_fld_outside [where n = 284] l(2))
qed

text \<open>The fields and names that \<open>process_list_insert\<close> keeps.\<close>

lemma insert_keeps:
  assumes r: "process_ring m (sys # xs)" "fld tcb_process m T = sys" "\<forall>y\<in>set (sys # xs). regions_disjoint p 284 y 284"
    and y: "y \<in> set (p # sys # xs)"
  shows "named m y \<Longrightarrow> named (process_list_insert T p m) y" "unat k + 4 \<le> 276 \<Longrightarrow> fld k (process_list_insert T p m) y = fld k m y"
proof -
  have np: "p \<notin> set (sys # xs)" using r(3) by (auto simp: regions_disjoint_def)
  obtain v w where eq: "process_list_insert T p m = set_fld process_next (set_fld process_previous (set_fld process_previous
       (set_fld process_next m p v) p w) sys p) (last (sys # xs)) p"
    using process_list_insert_ring(3) [OF r(1,2) np r(3)] by blast
  have sep: "z = y \<or> regions_disjoint z 284 y 284" if "z \<in> set (p # sys # xs)" for z
    using that y r(1,3) regions_disjoint_sym [of z 284 y 284] unfolding process_ring_def by auto
  have l: "last (sys # xs) = y \<or> regions_disjoint (last (sys # xs)) 284 y 284"
    by (rule sep) (metis last_in_set list.distinct(1) list.set_intros(2))
  show "named (process_list_insert T p m) y" if "named m y"
    unfolding eq by (intro named_set_fld [where n = 284] that l sep) simp_all
  show "fld k (process_list_insert T p m) y = fld k m y" if k: "unat k + 4 \<le> 276"
  proof -
    have o: "4 \<le> unat (j - k)" "4 \<le> unat (k - j)" if "j = 276 \<or> j = 280" for j :: u32
    proof -
      have "unat (j - k) = unat j - unat k" using that k by (subst unat_sub) (auto simp: word_le_nat_alt)
      then show "4 \<le> unat (j - k)" using that k by auto
      have "unat (k - j) = 4294967296 + unat k - unat j" using that k by (auto simp: unat_sub_if')
      then show "4 \<le> unat (k - j)" using that k by auto
    qed
    have one: "fld k (set_fld j m' z u) y = fld k m' y" if "z = y \<or> regions_disjoint z 284 y 284" "j = 276 \<or> j = 280" for j m' z u
      using that o [OF that(2)] k by (auto simp: fld_field intro!: fld_other [of z 284 y 284])
    show ?thesis unfolding eq by (simp add: one [OF l] one [OF sep])
  qed
qed

section \<open>A process and its task\<close>

text \<open>Writes to processes: the tasks stay as they are while their processes keep their names.\<close>

lemma tasks_writes:
  assumes th: "tasks_held st P q k"
    and Y: "\<And>y. y \<in> Y \<Longrightarrow> held (pg_ks (tk_pg st)) P y 284 \<and> (\<forall>a\<in>set q. regions_disjoint y 284 a 16384)"
    and nm: "\<And>a. a \<in> set q \<Longrightarrow> named m (fld tcb_process (tk_mem st) a)"
    and out: "\<And>x. (\<And>y. y \<in> Y \<Longrightarrow> \<not> in_region x y 284) \<Longrightarrow> m x = tk_mem st x"
  shows "tasks_held (tk_with st m) P q k" "\<And>a x. a \<in> set q \<Longrightarrow> in_region x a 16384 \<Longrightarrow> m x = tk_mem st x"
proof -
  note d = tasks_heldD [OF th]
  let ?s = "pg_ks (tk_pg st)"
  show tsk: "m x = tk_mem st x" if "a \<in> set q" "in_region x a 16384" for a x
    by (rule out) (use Y that regions_disjointD in blast)
  have s: "pg_ks (tk_pg (tk_with st m)) = ?s\<lparr>ks_mem := m\<rparr>" by (simp add: tk_with_def)
  have hk: "held (?s\<lparr>ks_mem := m\<rparr>) P = held ?s P" by (intro ext held_heap) simp
  have w: "m x = tk_mem st x" if "\<And>p n. held ?s P p n \<Longrightarrow> \<not> in_region x p n" for x
    by (rule out) (use that Y in blast)
  have kp: "held ?s P a 16384 \<and> (\<forall>x. in_region x a 16384 \<longrightarrow> m x = tk_mem st x)"
    "held ?s P (fld tcb_process (tk_mem st) a) 284 \<and> named m (fld tcb_process (tk_mem st) a)" if "a \<in> set q" for a
    using d(5,6) [OF that] tsk [OF that] nm [OF that] by blast+
  show "tasks_held (tk_with st m) P q k"
    by (rule tasks_keep [OF th]; (unfold s hk)?) (use held_writes [OF d(1) w] d(2) kp in simp_all)
qed

text \<open>The writes at the end of \<open>init_idle_process\<close> and of \<open>process_init\<close>: the task of the process, and its place in the list.\<close>

lemma link_process:
  fixes task :: addr
  assumes ring: "process_ring m (sys # xs)" and T: "fld tcb_process m T = sys" "regions_disjoint p 284 T 16384"
    and new: "\<forall>y\<in>set (sys # xs). regions_disjoint p 284 y 284"
  defines "m1 \<equiv> set_fld process_task m p task"
  defines "m' \<equiv> process_list_insert T p m1"
  shows "process_ring m' (sys # xs @ [p])" "(\<And>y. y \<in> set (p # sys # xs) \<Longrightarrow> \<not> in_region x y 284) \<Longrightarrow> m' x = m x"
    "y \<in> set (p # sys # xs) \<Longrightarrow> named m y \<Longrightarrow> named m' y" "fld process_task m' p = task" "fld process_pid m1 p = fld process_pid m p"
    "y \<in> set (p # sys # xs) \<Longrightarrow> unat j + 4 \<le> 256 \<or> 260 \<le> unat j \<and> unat j + 4 \<le> 276 \<Longrightarrow> fld j m' y = fld j m y"
proof -
  have one: "m1 x = m x" if "\<not> in_region x p 284" for x using that by (simp add: m1_def set_fld_outside)
  have r1: "process_ring m1 (sys # xs)"
    by (rule process_ring_cong [OF ring]) (use one new regions_disjointD in blast)
  have T1: "fld tcb_process m1 T = sys"
    using fld_cong [of T 16384 m1 m tcb_process] one regions_disjointD [OF T(2)] T(1) by auto
  have np: "p \<notin> set (sys # xs)" using new by (auto simp: regions_disjoint_def)
  note ins = process_list_insert_ring [OF r1 T1 np new, folded m'_def] and ik = insert_keeps [OF r1 T1 new, folded m'_def]
  show "process_ring m' (sys # xs @ [p])" by (rule ins(1))
  show "m' x = m x" if "\<And>y. y \<in> set (p # sys # xs) \<Longrightarrow> \<not> in_region x y 284" using ins(2) [of x] one [of x] that by simp
  show "named m' y" if y: "y \<in> set (p # sys # xs)" "named m y"
    by (rule ik(1) [OF y(1)], unfold m1_def, rule named_set_fld [where n = 284, OF y(2)]) (use y(1) new in auto)
  show "fld process_task m' p = task" using ik(2) [of p process_task] by (simp add: m1_def fld_field)
  show "fld process_pid m1 p = fld process_pid m p" by (simp add: m1_def fld_field)
  show "fld j m' y = fld j m y" if y: "y \<in> set (p # sys # xs)" and j: "unat j + 4 \<le> 256 \<or> 260 \<le> unat j \<and> unat j + 4 \<le> 276"
  proof -
    have "fld j m' y = fld j m1 y" by (rule ik(2) [OF y]) (use j in auto)
    also have "\<dots> = fld j m y"
    proof (cases "y = p")
      case True
      have "4 \<le> unat (256 - j) \<and> 4 \<le> unat (j - 256)" using j by (auto simp: unat_sub_if' split: if_splits)
      then show ?thesis using True by (simp add: m1_def fld_field)
    next
      case False
      then have "regions_disjoint p 284 y 284" using new y by auto
      then show ?thesis using j unfolding m1_def by (auto intro!: fld_other [of p 284 y 284])
    qed
    finally show ?thesis .
  qed
qed

text \<open>
  What the end of \<open>init_idle_process\<close> and of \<open>process_init\<close> have in common: a task for the process \<open>p\<close>, hung in behind
  the task that runs, and the process itself, hung in at the end of the list of processes.
\<close>

lemma attach_task:
  assumes th: "tasks_held st P q (4 + k)" and own: "can_own_task st P q p" and T: "T \<in> set q" "fld tcb_process (tk_mem st) T = sys"
    and ring: "process_ring (tk_mem st) (sys # xs)" "set (sys # xs) = fld tcb_process (tk_mem st) ` set q"
    and new: "\<forall>y\<in>set (sys # xs). regions_disjoint p 284 y 284"
  obtains task st5 m where "task_new p privileged entry_point esp st = Some (task, st5)" "task \<noteq> NULL" "P task = None" "task \<notin> set q"
    "m = process_list_insert T p (set_fld process_task (tk_mem st5) p task)"
    "tasks_held (tk_with st5 m) (P(task \<mapsto> 16384)) (hd q # task # tl q) k" "process_ring m (sys # xs @ [p])"
    "fld tcb_process m task = p" "\<forall>a\<in>set q. fld tcb_process m a = fld tcb_process (tk_mem st) a" "fld process_task m p = task"
    "fld tcb_kernel_stack_pointer m task = start_stack task privileged"
    "\<forall>i<length (start_frame privileged entry_point esp).
       load32 m (start_stack task privileged + 4 * word_of_nat i) = start_frame privileged entry_point esp ! i"
    "\<forall>y\<in>set (p # sys # xs). \<forall>j. unat j + 4 \<le> 256 \<or> 260 \<le> unat j \<and> unat j + 4 \<le> 276 \<longrightarrow> fld j m y = fld j (tk_mem st) y"
    "fld process_pid (set_fld process_task (tk_mem st5) p task) p = fld process_pid (tk_mem st) p"
    "processes st5 = processes st" "current_process st5 = current_process st" "tk_gdt st5 = tk_gdt st"
    "tk_pg st5 = (tk_pg st)\<lparr>pg_ks := pg_ks (tk_pg st5), pg_term := pg_term (tk_pg st5)\<rparr>"
    "spares ((\<lambda>a. (a, 92)) ` set q \<union> (\<lambda>y. (y, 284)) ` set (p # sys # xs)) (pg_ks (tk_pg st)) P
       (pg_ks (tk_pg (tk_with st5 m))) (P(task \<mapsto> 16384))"
    "\<forall>r l. held (pg_ks (tk_pg st)) P r l \<longrightarrow> 0 < l \<longrightarrow> regions_disjoint task 16384 r l"
proof -
  let ?s = "pg_ks (tk_pg st)" and ?m = "tk_mem st"
  note d0 = tasks_heldD [OF th]
  have op: "held ?s P p 284" "\<And>a. a \<in> set q \<Longrightarrow> regions_disjoint p 284 a 16384" using own by (auto simp: can_own_task_def)
  have all: "held ?s P y 284 \<and> (\<forall>a\<in>set q. regions_disjoint y 284 a 16384)" if y: "y \<in> set (p # sys # xs)" for y
  proof (cases "y = p")
    case False
    then have "y \<in> fld tcb_process ?m ` set q" using y unfolding ring(2) [symmetric] by simp
    then obtain a where "a \<in> set q" "y = fld tcb_process ?m a" by blast
    then show ?thesis using d0(6) task_ringD(6) [OF d0(3)] by blast
  qed (use op in simp)
  obtain task st5 where n: "task_new p privileged entry_point esp st = Some (task, st5)"
    "task \<noteq> NULL" "task \<notin> set q" "P task = None" "tasks_held st5 (P(task \<mapsto> 16384)) (hd q # task # tl q) k"
    "fld tcb_process (tk_mem st5) task = p" "fld tcb_kernel_stack_pointer (tk_mem st5) task = start_stack task privileged"
    "\<forall>i<length (start_frame privileged entry_point esp).
       load32 (tk_mem st5) (start_stack task privileged + 4 * word_of_nat i) = start_frame privileged entry_point esp ! i"
    "\<forall>a\<in>set q. \<forall>j. unat j \<le> 80 \<longrightarrow> fld j (tk_mem st5) a = fld j ?m a"
    "\<forall>p n x. held ?s P p n \<longrightarrow> (\<forall>a\<in>set q. regions_disjoint p n a 92) \<longrightarrow> in_region x p n \<longrightarrow> tk_mem st5 x = ?m x"
    "current_process st5 = current_process st" "processes st5 = processes st" "tk_gdt st5 = tk_gdt st"
    "\<forall>p n. held ?s P p n \<longrightarrow> held (pg_ks (tk_pg st5)) (P(task \<mapsto> 16384)) p n \<and> (0 < n \<longrightarrow> regions_disjoint task 16384 p n)"
    "tk_pg st5 = (tk_pg st)\<lparr>pg_ks := pg_ks (tk_pg st5), pg_term := pg_term (tk_pg st5)\<rparr>"
    by (rule new_task [OF th own, of privileged entry_point esp]) (rule that; assumption)
  let ?P = "P(task \<mapsto> 16384)" and ?m5 = "tk_mem st5" and ?q = "hd q # task # tl q"
  have q: "set ?q = insert task (set q)" using task_ringD(1) [OF d0(3)] by (cases q) auto
  have ap: "held (pg_ks (tk_pg st5)) ?P y 284 \<and> (\<forall>a\<in>set ?q. regions_disjoint y 284 a 16384)" if y: "y \<in> set (p # sys # xs)" for y
  proof -
    have "regions_disjoint task 16384 y 284" using n(14) all [OF y] by simp
    then have "regions_disjoint y 284 task 16384" using regions_disjoint_sym by blast
    then show ?thesis using n(14) all [OF y] unfolding q by blast
  qed
  have five: "?m5 x = ?m x" if "y \<in> set (p # sys # xs)" "in_region x y 284" for x y
  proof -
    have "\<forall>a\<in>set q. regions_disjoint y 284 a 92" using all [OF that(1)] regions_disjoint_mono [of y 284 _ 16384 284 92] by simp
    then show ?thesis using n(10) all [OF that(1)] that(2) by blast
  qed
  have r5: "process_ring ?m5 (sys # xs)" by (rule process_ring_cong [OF ring(1) five]) auto
  have T5: "fld tcb_process ?m5 T = sys" "regions_disjoint p 284 T 16384" using T n(9) op(2) by simp_all
  define m where "m = process_list_insert T p (set_fld process_task ?m5 p task)"
  note l = link_process [OF r5 T5 new, where task = task, folded m_def]
  have nm: "named m y" if "y \<in> set (p # sys # xs)" for y
  proof (rule l(3) [OF that])
    have "y = p \<or> y \<in> fld tcb_process ?m ` set q" using that unfolding ring(2) [symmetric] by auto
    then have "named ?m y" using own task_ringD(5) [OF d0(3)] by (auto simp: can_own_task_def)
    then show "named ?m5 y" by (rule named_cong) (rule five [OF that])
  qed
  have owner: "fld tcb_process ?m5 a \<in> set (p # sys # xs)" if "a \<in> set ?q" for a
  proof (cases "a = task")
    case False
    then have "fld tcb_process ?m5 a \<in> fld tcb_process ?m ` set q" using that n(9) unfolding q by auto
    then show ?thesis unfolding ring(2) [symmetric] by simp
  qed (use n(6) in simp)
  have tw: "tasks_held (tk_with st5 m) ?P ?q k" "\<And>a x. a \<in> set ?q \<Longrightarrow> in_region x a 16384 \<Longrightarrow> m x = ?m5 x"
    by (rule tasks_writes [where Y = "set (p # sys # xs)", OF n(5)]; (erule ap | erule nm [OF owner] | assumption | rule l(2), blast))+
  have f: "fld j m a = fld j ?m5 a" if "unat j + 4 \<le> 16384" "a \<in> insert task (set q)" for j a
    by (rule fld_cong [OF tw(2) that(1)]) (use that(2) in \<open>simp_all only: q\<close>, simp)
  have stack: "load32 m (start_stack task privileged + 4 * word_of_nat i) = start_frame privileged entry_point esp ! i"
    if "i < length (start_frame privileged entry_point esp)" for i
  proof -
    have "i < (if privileged then 17 else 19)" using that by (simp add: start_frame_def split: if_splits)
    then have "load32 m (start_stack task privileged + 4 * word_of_nat i) = load32 ?m5 (start_stack task privileged + 4 * word_of_nat i)"
      by (intro load32_cong tw(2) [of task] start_frame_place(1)) simp_all
    then show ?thesis using n(8) that by simp
  qed
  have fields: "fld j m y = fld j ?m y" if "y \<in> set (p # sys # xs)" "unat j + 4 \<le> 256 \<or> 260 \<le> unat j \<and> unat j + 4 \<le> 276" for y j
    using l(6) [OF that] fld_cong [of y 284 ?m5 ?m j, OF five [OF that(1)]] that(2) by auto
  have sp: "spares ((\<lambda>a. (a, 92)) ` set q \<union> (\<lambda>y. (y, 284)) ` set (p # sys # xs)) ?s P (pg_ks (tk_pg (tk_with st5 m))) ?P"
    unfolding spares_def
  proof (intro conjI allI impI)
    show "P \<subseteq>\<^sub>m ?P" using n(4) by (auto simp: map_le_def dom_def split: if_splits)
    fix r l' assume r: "held ?s P r l'" "0 < l'"
      "\<forall>(z, j)\<in>(\<lambda>a. (a, 92)) ` set q \<union> (\<lambda>y. (y, 284)) ` set (p # sys # xs). regions_disjoint r l' z j"
    have "held (pg_ks (tk_pg st5)) ?P r l'" using n(14) r(1) by blast
    then show "held (pg_ks (tk_pg (tk_with st5 m))) ?P r l'" 
      using held_heap [of "pg_ks (tk_pg (tk_with st5 m))" "pg_ks (tk_pg st5)" ?P r l'] by (simp add: tk_with_def del: fun_upd_apply)
    fix x assume x: "in_region x r l'"
    have "m x = ?m5 x" by (rule l(2)) (use r(3) x regions_disjointD in blast)
    moreover have "?m5 x = ?m x" using n(10) r x by blast
    ultimately show "ks_mem (pg_ks (tk_pg (tk_with st5 m))) x = ks_mem ?s x" by (simp add: tk_with_def)
  qed
  show thesis
  proof (rule that [OF n(1,2,4,3) m_def tw(1) l(1) _ _ l(4) _ _ _ _ n(12,11,13,15) sp])
    show "fld process_pid (set_fld process_task ?m5 p task) p = fld process_pid ?m p"
      using l(5) fld_cong [of p 284 ?m5 ?m process_pid, OF five [of p]] by simp
    show "fld tcb_process m task = p" using f [of tcb_process task] n(6) by simp
    show "\<forall>a\<in>set q. fld tcb_process m a = fld tcb_process ?m a" using f [of tcb_process] n(9) by simp
    show "fld tcb_kernel_stack_pointer m task = start_stack task privileged" using f [of tcb_kernel_stack_pointer task] n(7) by simp
  qed (use stack fields n(14) in blast)+
qed

text \<open>The two allocations of \<open>init_idle_process\<close> before its task: the process and its stack.\<close>

lemma idle_structure:
  assumes th: "tasks_held st P [T] (k + 6)" and sys: "fld tcb_process (tk_mem st) T = sys"
  obtains p ks1 stack ks4 m3 m4 P2 where "kzalloc (pg_ks (tk_pg st)) sizeof_process = Some (p, ks1)" "m3 = idle_record (ks_mem ks1) K p"
    "kzalloc (ks1\<lparr>ks_mem := m3\<rparr>) PROGRAM_STACK_SIZE = Some (stack, ks4)" "m4 = set_fld process_stack (ks_mem ks4) p stack"
    "tasks_held (tk_heap (ks4\<lparr>ks_mem := m4\<rparr>) st) P2 [T] (4 + k)" "can_own_task (tk_heap (ks4\<lparr>ks_mem := m4\<rparr>) st) P2 [T] p"
    "fld process_pid m4 p = 1" "fld process_page_directory m4 p = K" "P \<subseteq>\<^sub>m P2"
    "\<forall>q n. held (pg_ks (tk_pg st)) P q n \<longrightarrow> 0 < n \<longrightarrow> held (ks4\<lparr>ks_mem := m4\<rparr>) P2 q n \<and> regions_disjoint p 284 q n
       \<and> (\<forall>a. in_region a q n \<longrightarrow> m4 a = tk_mem st a)"
proof -
  let ?s = "pg_ks (tk_pg st)" and ?m = "tk_mem st"
  note d0 = tasks_heldD [OF th]
  have Th: "held ?s P T 16384" "held ?s P sys 284" using d0(5,6) sys by simp_all
  have nb: "nblocks sizeof_process = 1" "nblocks PROGRAM_STACK_SIZE = 1" "0 < sizeof_process" "0 < PROGRAM_STACK_SIZE"
    by (simp_all add: sizeof_process_def PROGRAM_STACK_SIZE_def)
  have th0: "tasks_held st P [T] (nblocks sizeof_process + (k + 5))" unfolding nb using th by (simp add: add.commute)
  obtain p ks1 where p: "kzalloc ?s sizeof_process = Some (p, ks1)" "P p = None" "tasks_held (tk_heap ks1 st) (P(p \<mapsto> 4096)) [T] (k + 5)"
    and f1: "\<forall>q n. held ?s P q n \<longrightarrow> held ks1 (P(p \<mapsto> 4096)) q n \<and> (0 < n \<longrightarrow> regions_disjoint p 4096 q n)
       \<and> (\<forall>a. in_region a q n \<longrightarrow> ks_mem ks1 a = ?m a)"
    by (rule tasks_alloc [OF th0 nb(3)]) (simp only: nb mult_1_right)
  let ?P1 = "P(p \<mapsto> 4096)"
  have p284: "regions_disjoint p 284 q n" if "held ?s P q n" "0 < n" for q n
    using f1 that regions_disjoint_mono [of p 4096 q n 284 n] by simp
  have same: "m x = m' x" if "held ?s P q n" "0 < n" "in_region x q n" "\<And>x. \<not> in_region x p 284 \<Longrightarrow> m x = m' x" for m m' q n x
    using p284 [OF that(1,2)] that(3,4) regions_disjointD by blast
  have mem: "tk_mem (tk_heap ks st) = ks_mem ks" "pg_ks (tk_pg (tk_heap ks st)) = ks" "tk_heap ks' (tk_heap ks st) = tk_heap ks' st"
    "tk_with (tk_heap ks st) m = tk_heap (ks\<lparr>ks_mem := m\<rparr>) st" for ks ks' st m by (simp_all add: tk_heap_def tk_with_def)
  define m3 where "m3 = idle_record (ks_mem ks1) K p"
  note r1 = idle_record [where m = "ks_mem ks1" and K = K and p = p, folded m3_def]
  have hp1: "held ks1 ?P1 p 284" by (simp add: held_def)
  have sys1: "fld tcb_process (ks_mem ks1) T = sys"
    using fld_cong [of T 16384 "ks_mem ks1" ?m tcb_process] f1 Th(1) sys by simp
  let ?ks3 = "ks1\<lparr>ks_mem := m3\<rparr>"
  have "tasks_held (tk_with (tk_heap ks1 st) m3) ?P1 [T] (k + 5)"
    by (rule tasks_write [OF p(3), of p 284]) (use hp1 p284 Th r1(4) sys1 in \<open>simp_all add: mem del: fun_upd_apply\<close>)
  then have th3: "tasks_held (tk_heap ?ks3 st) ?P1 [T] (nblocks PROGRAM_STACK_SIZE + (k + 4))"
    unfolding nb mem by (simp add: add.commute)
  obtain stack ks4 where k4: "kzalloc ?ks3 PROGRAM_STACK_SIZE = Some (stack, ks4)" "?P1 stack = None"
    "tasks_held (tk_heap ks4 st) (?P1(stack \<mapsto> 4096)) [T] (k + 4)"
    and f4: "\<forall>q n. held ?ks3 ?P1 q n \<longrightarrow> held ks4 (?P1(stack \<mapsto> 4096)) q n \<and> (0 < n \<longrightarrow> regions_disjoint stack 4096 q n)
       \<and> (\<forall>a. in_region a q n \<longrightarrow> ks_mem ks4 a = m3 a)"
    by (rule tasks_alloc [OF th3 nb(4), unfolded nb mult_1_right mem]) (rule that; simp)
  let ?P2 = "?P1(stack \<mapsto> 4096)"
  define m4 where "m4 = set_fld process_stack (ks_mem ks4) p stack"
  have hk: "held ?ks3 ?P1 = held ks1 ?P1" "held (ks4\<lparr>ks_mem := m4\<rparr>) ?P2 = held ks4 ?P2" by (intro ext held_heap; simp)+
  have hp4: "held ks4 ?P2 p 284" using f4 hp1 unfolding hk by blast
  have k34: "ks_mem ks4 x = m3 x" if "in_region x p 284" for x using f4 hp1 that unfolding hk by blast
  have o4: "m4 x = ks_mem ks4 x" if "\<not> in_region x p 284" for x unfolding m4_def using that by (simp add: set_fld_outside)
  have old: "held ks4 ?P2 q n" "in_region x q n \<Longrightarrow> m4 x = ?m x" if q: "held ?s P q n" "0 < n" for q n x
  proof -
    have h1: "held ks1 ?P1 q n" using f1 q(1) by blast
    then show "held ks4 ?P2 q n" using f4 unfolding hk by blast
    assume x: "in_region x q n"
    have "m4 x = ks_mem ks4 x" by (rule same [OF q x o4])
    also have "\<dots> = m3 x" using f4 h1 x unfolding hk by blast
    also have "\<dots> = ks_mem ks1 x" by (rule same [OF q x r1(4)])
    also have "\<dots> = ?m x" using f1 q(1) x by blast
    finally show "m4 x = ?m x" .
  qed
  have sys4: "fld tcb_process (ks_mem ks4) T = sys"
  proof -
    have "ks_mem ks4 x = ?m x" if "in_region x T 16384" for x
      using old(2) [OF Th(1) _ that] same [OF Th(1) _ that, of m4 "ks_mem ks4"] o4 by simp
    then show ?thesis using fld_cong [of T 16384 "ks_mem ks4" ?m tcb_process] sys by simp
  qed
  have th4: "tasks_held (tk_heap (ks4\<lparr>ks_mem := m4\<rparr>) st) ?P2 [T] (4 + k)"
    unfolding mem(4) [symmetric] by (rule tasks_write [of _ _ _ _ p 284])
      (use k4(3) hp4 p284 Th o4 sys4 in \<open>simp_all add: mem add.commute del: fun_upd_apply\<close>)
  have "named (ks_mem ks4) p" by (rule named_cong [OF r1(1) k34])
  then have "named m4 p" unfolding m4_def by (rule named_set_fld [where n = 284]) simp_all
  then have own: "can_own_task (tk_heap (ks4\<lparr>ks_mem := m4\<rparr>) st) ?P2 [T] p"
    using hp4 p284 [OF Th(1)] unfolding can_own_task_def mem hk by simp
  have "fld j m4 p = fld j m3 p" if "j = 0 \<or> j = 260" for j
    unfolding m4_def using that fld_cong [of p 284 "ks_mem ks4" m3 j, OF k34] by (auto simp: fld_field)
  then have "fld process_pid m4 p = 1" "fld process_page_directory m4 p = K" using r1(2,3) by simp_all
  moreover have "P \<subseteq>\<^sub>m ?P2" using p(2) k4(2) by (auto simp: map_le_def split: if_splits)
  ultimately show thesis
    by (rule that [OF p(1) m3_def k4(1) m4_def th4 own]) (use old p284 in \<open>unfold hk; blast\<close>)
qed

lemma only_heap: "x = y\<lparr>pg_ks := A, pg_term := t\<rparr> \<Longrightarrow> x\<lparr>pg_ks := C\<rparr> = y\<lparr>pg_ks := C, pg_term := pg_term x\<rparr>"
  by simp

text \<open>The task of the idle process is hung in behind the system task, the process behind the system process.\<close>

lemma idle_process:
  assumes th: "tasks_held st P [T] (k + 6)" and sys: "fld tcb_process (tk_mem st) T = sys" "process_ring (tk_mem st) [sys]"
  obtains p task st' P' where "init_idle_process K T idle_function st = Some st'" "tasks_held st' P' [T, task] k"
    "process_ring (tk_mem st') [sys, p]" "fld tcb_process (tk_mem st') T = sys" "fld tcb_process (tk_mem st') task = p"
    "fld process_page_directory (tk_mem st') p = K"
    "fld process_page_directory (tk_mem st') sys = fld process_page_directory (tk_mem st) sys"
    "fld tcb_kernel_stack_pointer (tk_mem st') task = start_stack task True"
    "load32 (tk_mem st') (start_stack task True + 56) = idle_function"
    "processes st' = (processes st)(1 := p)" "current_process st' = current_process st"
    "tk_pg st' = (tk_pg st)\<lparr>pg_ks := pg_ks (tk_pg st'), pg_term := pg_term (tk_pg st')\<rparr>" "tk_gdt st' = tk_gdt st"
    "spares {(T, 16384), (sys, 284)} (pg_ks (tk_pg st)) P (pg_ks (tk_pg st')) P'"
    "\<forall>r l. held (pg_ks (tk_pg st)) P r l \<longrightarrow> 0 < l \<longrightarrow> regions_disjoint p 284 r l \<and> regions_disjoint task 16384 r l"
proof -
  let ?s = "pg_ks (tk_pg st)" and ?m = "tk_mem st"
  note d0 = tasks_heldD [OF th]
  have Th: "held ?s P T 16384" "held ?s P sys 284" using d0(5,6) sys(1) by simp_all
  have sT: "regions_disjoint sys 284 T 16384" using task_ringD(6) [OF d0(3), of T T] sys(1) by simp
  obtain p ks1 stack ks4 m3 m4 P2 where i: "kzalloc (pg_ks (tk_pg st)) sizeof_process = Some (p, ks1)" "m3 = idle_record (ks_mem ks1) K p"
    "kzalloc (ks1\<lparr>ks_mem := m3\<rparr>) PROGRAM_STACK_SIZE = Some (stack, ks4)" "m4 = set_fld process_stack (ks_mem ks4) p stack"
    and th4: "tasks_held (tk_heap (ks4\<lparr>ks_mem := m4\<rparr>) st) P2 [T] (4 + k)" and own: "can_own_task (tk_heap (ks4\<lparr>ks_mem := m4\<rparr>) st) P2 [T] p"
    and p4: "fld process_pid m4 p = 1" "fld process_page_directory m4 p = K" "P \<subseteq>\<^sub>m P2"
    and old: "\<forall>q n. held ?s P q n \<longrightarrow> 0 < n \<longrightarrow> held (ks4\<lparr>ks_mem := m4\<rparr>) P2 q n \<and> regions_disjoint p 284 q n
       \<and> (\<forall>a. in_region a q n \<longrightarrow> m4 a = ?m a)"
    by (rule idle_structure [OF th sys(1), of K]) (rule that; assumption)
  define st4 where "st4 = tk_heap (ks4\<lparr>ks_mem := m4\<rparr>) st"
  have s4: "pg_ks (tk_pg st4) = ks4\<lparr>ks_mem := m4\<rparr>" "tk_mem st4 = m4" "processes st4 = processes st" by (simp_all add: st4_def tk_heap_def)
  define esp :: u32 where "esp = scast (m4 (fld process_stack m4 p + PROGRAM_STACK_SIZE))"
  have hs: "held (ks4\<lparr>ks_mem := m4\<rparr>) P2 sys 284" and ps: "regions_disjoint p 284 sys 284" using old Th by simp_all
  have sysm: "m4 x = ?m x" if "in_region x sys 284" for x using old Th(2) that by simp
  have T4: "fld tcb_process m4 T = sys" using fld_cong [of T 16384 m4 ?m tcb_process] old Th(1) sys(1) by simp
  have r4: "process_ring m4 [sys]" using sys(2) fld_cong [of sys 284 m4 ?m, OF sysm] by (simp add: process_ring_def)
  have pre: "T \<in> set [T]" "fld tcb_process (tk_mem st4) T = sys" "process_ring (tk_mem st4) [sys]"
    "set [sys] = fld tcb_process (tk_mem st4) ` set [T]" "\<forall>y\<in>set [sys]. regions_disjoint p 284 y 284" using T4 r4 ps s4(2) by simp_all
  obtain task st5 m where n: "task_new p True idle_function esp st4 = Some (task, st5)" "P2 task = None"
    "m = process_list_insert T p (set_fld process_task (tk_mem st5) p task)"
    "tasks_held (tk_with st5 m) (P2(task \<mapsto> 16384)) [T, task] k" "process_ring m [sys, p]" "fld tcb_process m task = p"
    "fld tcb_process m T = sys" "fld tcb_kernel_stack_pointer m task = start_stack task True"
    "\<forall>i<length (start_frame True idle_function esp). load32 m (start_stack task True + 4 * word_of_nat i) = start_frame True idle_function esp ! i"
    "\<forall>y\<in>{p, sys}. \<forall>j. unat j + 4 \<le> 256 \<or> 260 \<le> unat j \<and> unat j + 4 \<le> 276 \<longrightarrow> fld j m y = fld j m4 y"
    "fld process_pid (set_fld process_task (tk_mem st5) p task) p = 1"
    "processes st5 = processes st" "current_process st5 = current_process st4" "tk_gdt st5 = tk_gdt st4"
    "tk_pg st5 = (tk_pg st4)\<lparr>pg_ks := pg_ks (tk_pg st5), pg_term := pg_term (tk_pg st5)\<rparr>"
    "spares {(p, 284), (sys, 284), (T, 92)} (ks4\<lparr>ks_mem := m4\<rparr>) P2 (pg_ks (tk_pg (tk_with st5 m))) (P2(task \<mapsto> 16384))"
    "\<forall>r l. held (ks4\<lparr>ks_mem := m4\<rparr>) P2 r l \<longrightarrow> 0 < l \<longrightarrow> regions_disjoint task 16384 r l"
    by (rule attach_task [OF th4 [folded st4_def] own [folded st4_def] pre, of True idle_function esp]) (rule that; simp add: s4 T4 p4(1))
  have pd: "fld process_page_directory m p = K"
    and pds: "fld process_page_directory m sys = fld process_page_directory ?m sys"
    using n(10) p4(2) fld_cong [of sys 284 m4 ?m process_page_directory, OF sysm] by simp_all
  have entry: "load32 m (start_stack task True + 56) = idle_function"
    using n(9) [rule_format, of 14] by (simp add: start_frame_def add.commute)
  let ?P3 = "P2(task \<mapsto> 16384)"
  define st7 where "st7 = tk_with (st5\<lparr>processes := (processes st)(1 := p)\<rparr>) m"
  have s7: "pg_ks (tk_pg st7) = pg_ks (tk_pg (tk_with st5 m))" "tk_mem st7 = m" "current_task st7 = current_task (tk_with st5 m)"
    by (simp_all add: st7_def tk_with_def)
  have th7: "tasks_held st7 ?P3 [T, task] k" using n(4) unfolding tasks_held_def tasks_inv_def s7 by simp
  have run: "init_idle_process K T idle_function st = Some st7"
    using i n(1,3,11,12)
    by (simp add: init_idle_process_def Let_def tk_set_def tk_with_def tk_heap_def st7_def esp_def st4_def idle_record_def MAX_PROCESSES_def)
  have sp: "spares {(T, 16384), (sys, 284)} ?s P (pg_ks (tk_pg st7)) ?P3"
    unfolding spares_def
  proof (intro conjI allI impI)
    show "P \<subseteq>\<^sub>m ?P3" using p4(3) n(2) by (auto simp: map_le_def dom_def split: if_splits)
    fix q l assume q: "held ?s P q l" "0 < l" "\<forall>(r, j)\<in>{(T, 16384), (sys, 284)}. regions_disjoint q l r j"
    have h4: "held (ks4\<lparr>ks_mem := m4\<rparr>) P2 q l" "regions_disjoint q l p 284" "\<forall>a. in_region a q l \<longrightarrow> m4 a = ?m a"
      using old q(1,2) regions_disjoint_sym by blast+
    have "regions_disjoint q l T 92" using q(3) regions_disjoint_mono [of q l T 16384 l 92] by simp
    then have h7: "held (pg_ks (tk_pg st7)) ?P3 q l \<and> (\<forall>x. in_region x q l \<longrightarrow> tk_mem st7 x = m4 x)"
      using n(16) h4(1,2) q(2,3) unfolding spares_def s7(1) by simp
    then show "held (pg_ks (tk_pg st7)) ?P3 q l" ..
    show "tk_mem st7 x = ?m x" if "in_region x q l" for x using h7 h4(3) that by simp
  qed
  have pg5: "tk_pg st5 = (tk_pg st)\<lparr>pg_ks := pg_ks (tk_pg st5), pg_term := pg_term (tk_pg st5)\<rparr>" using n(15) by (simp add: st4_def tk_heap_def)
  have "tk_pg st7 = (tk_pg st5)\<lparr>pg_ks := pg_ks (tk_pg st7)\<rparr>" "pg_term (tk_pg st7) = pg_term (tk_pg st5)" by (simp_all add: st7_def tk_with_def)
  with only_heap [OF pg5] have rest: "tk_pg st7 = (tk_pg st)\<lparr>pg_ks := pg_ks (tk_pg st7), pg_term := pg_term (tk_pg st7)\<rparr>" by metis
  have rest': "tk_gdt st7 = tk_gdt st" "processes st7 = (processes st)(1 := p)" "current_process st7 = current_process st"
    using n(13,14) by (simp_all add: st7_def tk_with_def st4_def tk_heap_def)
  have new: "\<forall>r l. held ?s P r l \<longrightarrow> 0 < l \<longrightarrow> regions_disjoint p 284 r l \<and> regions_disjoint task 16384 r l" using old n(17) by blast
  show thesis
    by (rule that [OF run th7 _ _ _ _ _ _ _ rest'(2,3) rest rest'(1) sp new]; unfold s7(2)) (use n(5-8) pd pds entry in simp_all)
qed

section \<open>Both processes\<close>

lemma tasking_start:
  assumes inv: "kheap_inv (pg_ks (tk_pg (cs_tk st))) P" "kheap_room (pg_ks (tk_pg (cs_tk st))) (k + 7)"
    and T: "held (pg_ks (tk_pg (cs_tk st))) P T 16384" "T \<noteq> NULL"
    and int: "isr_handlers st ! 20 = Some no_int_handler" "frame_on_stack T regs frame"
  obtains sys idle task st' P' where "tasking_init io regs frame K T idle_function st
       = Some (st\<lparr>cs_dev := snd (insb io 0x20 (outb io 0x20 0x0B (cs_dev st))), cs_tk := st'\<rparr>)" "tasks_held st' P' [T, task] k"
    "process_ring (tk_mem st') [sys, idle]" "fld tcb_process (tk_mem st') T = sys" "fld tcb_process (tk_mem st') task = idle"
    "fld process_page_directory (tk_mem st') sys = K" "fld process_page_directory (tk_mem st') idle = K"
    "fld tcb_kernel_stack_pointer (tk_mem st') task = start_stack task True"
    "load32 (tk_mem st') (start_stack task True + 56) = idle_function"
    "processes st' = (processes (cs_tk st))(0 := sys, 1 := idle)" "current_process st' = sys" "tk_gdt st' = tk_gdt (cs_tk st)"
    "tk_pg st' = (tk_pg (cs_tk st))\<lparr>pg_interrupts := True, pg_ks := pg_ks (tk_pg st'), pg_term := pg_term (tk_pg st')\<rparr>"
    "spares {(T, 16384)} (pg_ks (tk_pg (cs_tk st))) P (pg_ks (tk_pg st')) P'"
    "\<forall>r l. held (pg_ks (tk_pg (cs_tk st))) P r l \<longrightarrow> 0 < l \<longrightarrow> regions_disjoint r l T 16384 \<longrightarrow>
       regions_disjoint r l sys 284 \<and> regions_disjoint r l idle 284 \<and> regions_disjoint r l task 16384"
proof -
  define tk where "tk = cs_tk st"
  note that = that [folded tk_def]
  have room: "kheap_room (pg_ks (tk_pg tk)) (Suc (k + 6))" using inv(2) by (simp add: add.commute tk_def)
  obtain sys st1 where s1: "init_system_process io regs frame K T st
       = Some (st\<lparr>cs_dev := snd (insb io 0x20 (outb io 0x20 0x0B (cs_dev st))), cs_tk := st1\<rparr>)" "P sys = None" "tasks_held st1 (P(sys \<mapsto> 4096)) [T] (k + 6)"
    "regions_disjoint sys 4096 T 16384" "fld tcb_process (tk_mem st1) T = sys" "process_ring (tk_mem st1) [sys]"
    "fld process_page_directory (tk_mem st1) sys = K" "processes st1 = (processes tk)(0 := sys)" "current_process st1 = sys"
    "tk_pg st1 = (tk_pg tk)\<lparr>pg_ks := pg_ks (tk_pg st1), pg_term := pg_term (tk_pg st1)\<rparr>" "tk_gdt st1 = tk_gdt tk"
    "spares {(T, 16384)} (pg_ks (tk_pg tk)) P (pg_ks (tk_pg st1)) (P(sys \<mapsto> 4096))"
    "\<forall>q n. held (pg_ks (tk_pg tk)) P q n \<longrightarrow> 0 < n \<longrightarrow> regions_disjoint sys 4096 q n"
    by (rule system_process [OF inv(1) room [unfolded tk_def] T int, of io K, folded tk_def]) (rule that; assumption)
  let ?st1 = "st1\<lparr>tk_pg := (tk_pg st1)\<lparr>pg_interrupts := True\<rparr>\<rparr>" and ?P1 = "P(sys \<mapsto> 4096)"
  have th1: "tasks_held ?st1 ?P1 [T] (k + 6)" using s1(3) by (simp add: tasks_held_def tasks_inv_def Let_def)
  have sys1: "fld tcb_process (tk_mem ?st1) T = sys" "process_ring (tk_mem ?st1) [sys]" using s1(5,6) by simp_all
  obtain idle task st' P' where s2: "init_idle_process K T idle_function ?st1 = Some st'" "tasks_held st' P' [T, task] k"
    "process_ring (tk_mem st') [sys, idle]" "fld tcb_process (tk_mem st') T = sys" "fld tcb_process (tk_mem st') task = idle"
    "fld process_page_directory (tk_mem st') idle = K"
    "fld process_page_directory (tk_mem st') sys = fld process_page_directory (tk_mem ?st1) sys"
    "fld tcb_kernel_stack_pointer (tk_mem st') task = start_stack task True"
    "load32 (tk_mem st') (start_stack task True + 56) = idle_function"
    "processes st' = (processes ?st1)(1 := idle)" "current_process st' = current_process ?st1"
    "tk_pg st' = (tk_pg ?st1)\<lparr>pg_ks := pg_ks (tk_pg st'), pg_term := pg_term (tk_pg st')\<rparr>" "tk_gdt st' = tk_gdt ?st1"
    "spares {(T, 16384), (sys, 284)} (pg_ks (tk_pg ?st1)) ?P1 (pg_ks (tk_pg st')) P'"
    "\<forall>r l. held (pg_ks (tk_pg ?st1)) ?P1 r l \<longrightarrow> 0 < l \<longrightarrow> regions_disjoint idle 284 r l \<and> regions_disjoint task 16384 r l"
    by (rule idle_process [OF th1 sys1, of K idle_function]) (rule that; assumption)
  have run: "tasking_init io regs frame K T idle_function st
       = Some (st\<lparr>cs_dev := snd (insb io 0x20 (outb io 0x20 0x0B (cs_dev st))), cs_tk := st'\<rparr>)"
    using s1(1) s2(1) by (simp add: tasking_init_def enable_interrupts_def)
  have sysd: "regions_disjoint r l sys 284" if "held (pg_ks (tk_pg tk)) P r l" "0 < l" for r l
    using s1(13) that regions_disjoint_mono [of sys 4096 r l 284 l] regions_disjoint_sym [of sys 284 r l] by simp
  have new: "regions_disjoint r l sys 284 \<and> regions_disjoint r l idle 284 \<and> regions_disjoint r l task 16384"
    if r: "held (pg_ks (tk_pg tk)) P r l" "0 < l" "regions_disjoint r l T 16384" for r l
  proof -
    have "held (pg_ks (tk_pg ?st1)) ?P1 r l" using s1(12) r by (simp add: spares_def)
    then show ?thesis using sysd [OF r(1,2)] s2(15) r(2) regions_disjoint_sym by blast
  qed
  have "spares {(T, 16384)} (pg_ks (tk_pg tk)) P (pg_ks (tk_pg st')) P'"
    unfolding spares_def
  proof (intro conjI allI impI)
    show "P \<subseteq>\<^sub>m P'" using s1(12) s2(14) map_le_trans [of P ?P1 P'] by (simp add: spares_def)
    fix q n assume q: "held (pg_ks (tk_pg tk)) P q n" "0 < n" "\<forall>(r, l)\<in>{(T, 16384)}. regions_disjoint q n r l"
    have h1: "held (pg_ks (tk_pg st1)) ?P1 q n" "\<forall>x. in_region x q n \<longrightarrow> tk_mem st1 x = tk_mem tk x" using s1(12) q by (auto simp: spares_def)
    have "\<forall>(r, l)\<in>{(T, 16384), (sys, 284)}. regions_disjoint q n r l" using q(3) sysd [OF q(1,2)] by simp
    then have "held (pg_ks (tk_pg st')) P' q n \<and> (\<forall>x. in_region x q n \<longrightarrow> tk_mem st' x = tk_mem st1 x)"
      using s2(14) h1(1) q(2) by (simp add: spares_def)
    then show "held (pg_ks (tk_pg st')) P' q n" "\<And>x. in_region x q n \<Longrightarrow> tk_mem st' x = tk_mem tk x" using h1(2) by simp_all
  qed
  moreover have "tk_pg ?st1 = (tk_pg tk)\<lparr>pg_interrupts := True, pg_ks := pg_ks (tk_pg st1), pg_term := pg_term (tk_pg st1)\<rparr>"
    by (simp, subst s1(10)) simp
  then have "tk_pg st' = (tk_pg tk)\<lparr>pg_interrupts := True, pg_ks := pg_ks (tk_pg st'), pg_term := pg_term (tk_pg st')\<rparr>"
    by (subst s2(12)) simp
  ultimately have *: "tk_pg st' = (tk_pg tk)\<lparr>pg_interrupts := True, pg_ks := pg_ks (tk_pg st'), pg_term := pg_term (tk_pg st')\<rparr>"
    "spares {(T, 16384)} (pg_ks (tk_pg tk)) P (pg_ks (tk_pg st')) P'" by blast+
  show thesis
    by (rule that [OF run s2(2-5) _ s2(6,8,9) _ _ _ *]) (use s1(7-9,11) s2(7,10,11,13) new in simp_all)
qed

end
