(* ===== verification/Process_Create.thy ===== *)
theory Process_Create
  imports Tasking Address_Space
begin

text \<open>
  The creation of a process as a whole: \<open>process_init\<close> allocates the process and its stack, gives it an address
  space, names it, makes a task for it and hangs both into their lists. The state of the kernel is a directory in force, a ring of
  tasks and a list of their processes, apart from each other; \<open>process_init\<close> keeps it for the lists with the new
  members.
\<close>

section \<open>The state between operations\<close>

text \<open>
  The tasks \<open>q\<close> and the processes \<open>ys\<close> they belong to, the directory \<open>K\<close> of the kernel in force, apart from both and with no
  entries for the addresses of programs, and \<open>k\<close> blocks left in the heap.
\<close>

definition kernel_ok :: "task_state \<Rightarrow> (addr \<rightharpoonup> nat) \<Rightarrow> addr \<Rightarrow> addr list \<Rightarrow> addr list \<Rightarrow> nat \<Rightarrow> bool" where
  "kernel_ok st P K q ys k \<longleftrightarrow> tasks_held st P q k \<and> pg_inv (tk_pg st) P K k \<and> pg_current_directory (tk_pg st) = K
     \<and> small_pages (tk_mem st) K \<and> user_space_empty (tk_mem st) K \<and> process_ring (tk_mem st) ys \<and> set ys = fld tcb_process (tk_mem st) ` set q
     \<and> (\<forall>a\<in>set q. apart (tk_mem st) K a 16384) \<and> (\<forall>y\<in>set ys. apart (tk_mem st) K y 284)"

lemma kernel_okD:
  assumes "kernel_ok st P K q ys k"
  shows "tasks_held st P q k" "pg_inv (tk_pg st) P K k" "pg_current_directory (tk_pg st) = K" "small_pages (tk_mem st) K"
    "process_ring (tk_mem st) ys" "set ys = fld tcb_process (tk_mem st) ` set q"
    "\<And>a. a \<in> set q \<Longrightarrow> apart (tk_mem st) K a 16384" "\<And>y. y \<in> set ys \<Longrightarrow> apart (tk_mem st) K y 284"
    "kheap_inv (pg_ks (tk_pg st)) P" "kheap_room (pg_ks (tk_pg st)) k"
    "\<And>a. a \<in> set q \<Longrightarrow> held (pg_ks (tk_pg st)) P a 16384" "\<And>y. y \<in> set ys \<Longrightarrow> held (pg_ks (tk_pg st)) P y 284"
    "user_space_empty (tk_mem st) K"
  using assms tasks_heldD [of st P q k] unfolding kernel_ok_def by auto

lemma kernel_ok_processes [simp]: "kernel_ok (st\<lparr>processes := x\<rparr>) P K q ys k = kernel_ok st P K q ys k"
  by (simp add: kernel_ok_def tasks_held_def tasks_inv_def Let_def)

text \<open>Writes elsewhere.\<close>

definition elsewhere :: "mem \<Rightarrow> addr \<Rightarrow> addr list \<Rightarrow> addr list \<Rightarrow> addr \<Rightarrow> nat \<Rightarrow> bool" where
  "elsewhere m K q ys r l \<longleftrightarrow> apart m K r l \<and> (\<forall>a\<in>set q. regions_disjoint a 16384 r l) \<and> (\<forall>y\<in>set ys. regions_disjoint y 284 r l)"

lemma lists_keep:
  assumes ok: "kernel_ok st P K q ys k" and cur: "current_task st' = current_task st"
    and heap: "kheap_inv (pg_ks (tk_pg st')) P'" "kheap_room (pg_ks (tk_pg st')) k'"
    and t: "\<And>a. a \<in> set q \<Longrightarrow> held (pg_ks (tk_pg st')) P' a 16384 \<and> (\<forall>x. in_region x a 16384 \<longrightarrow> tk_mem st' x = tk_mem st x)"
    and y: "\<And>y. y \<in> set ys \<Longrightarrow> held (pg_ks (tk_pg st')) P' y 284 \<and> (\<forall>x. in_region x y 284 \<longrightarrow> tk_mem st' x = tk_mem st x)"
  shows "tasks_held st' P' q k'" "process_ring (tk_mem st') ys" "set ys = fld tcb_process (tk_mem st') ` set q"
proof -
  note d = kernel_okD [OF ok]
  have owner: "fld tcb_process (tk_mem st) a \<in> set ys" if "a \<in> set q" for a using d(6) that by simp
  have nm: "named (tk_mem st') (fld tcb_process (tk_mem st) a)" if "a \<in> set q" for a
    using named_cong [OF task_ringD(5) [OF tasks_heldD(3) [OF d(1)] that]] y [OF owner [OF that]] by blast
  show "tasks_held st' P' q k'" by (rule tasks_keep [OF d(1) cur heap]) (use t y [OF owner] nm in blast)+
  show "process_ring (tk_mem st') ys" by (rule process_ring_cong [OF d(5)]) (use y in blast)
  have "fld tcb_process (tk_mem st') a = fld tcb_process (tk_mem st) a" if "a \<in> set q" for a
    by (rule fld_cong [of a 16384]) (use t [OF that] in simp_all)
  then show "set ys = fld tcb_process (tk_mem st') ` set q" using d(6) by simp
qed

lemma kernel_ok_spares:
  assumes ok: "kernel_ok st P K q ys k" and sp: "spares R (pg_ks (tk_pg st)) P s' P'"
    and R: "\<forall>(r, l)\<in>R. elsewhere (tk_mem st) K q ys r l" and heap: "kheap_inv s' P'" "kheap_room s' k'"
  shows "kernel_ok (tk_heap s' st) P' K q ys k'" "apart (ks_mem s') K r l = apart (tk_mem st) K r l"
    "unat u < 0xFFC00000 \<Longrightarrow> ptbl (tk_mem st) K (dir_index u) \<noteq> 0 \<Longrightarrow> ptbl (ks_mem s') K (dir_index u) \<noteq> 0
       \<and> virtual_to_physical_addr (tk_pg (tk_heap s' st)) K u = virtual_to_physical_addr (tk_pg st) K u"
    "i < 1024 \<Longrightarrow> pde (ks_mem s') K i = pde (tk_mem st) K i \<and> ptbl (ks_mem s') K i = ptbl (tk_mem st) K i"
proof -
  note d = kernel_okD [OF ok]
  have ap: "\<forall>(r, l)\<in>R. apart (tk_mem st) K r l" using R by (auto simp: elsewhere_def)
  note pg = pg_inv_spares [OF d(2,3) sp ap heap]
  have th: "tk_pg (tk_heap s' st) = (tk_pg st)\<lparr>pg_ks := s'\<rparr>" by (simp add: tk_heap_def)
  show "apart (ks_mem s') K r l = apart (tk_mem st) K r l" by (rule pg(2))
  show "pde (ks_mem s') K i = pde (tk_mem st) K i \<and> ptbl (ks_mem s') K i = ptbl (tk_mem st) K i" if "i < 1024" by (rule pg(6) [OF that])
  show "ptbl (ks_mem s') K (dir_index u) \<noteq> 0 \<and> virtual_to_physical_addr (tk_pg (tk_heap s' st)) K u = virtual_to_physical_addr (tk_pg st) K u"
    if "unat u < 0xFFC00000" "ptbl (tk_mem st) K (dir_index u) \<noteq> 0" unfolding th using pg(5) that by blast
  have keep: "held s' P' r l \<and> (\<forall>x. in_region x r l \<longrightarrow> ks_mem s' x = tk_mem st x)"
    if "held (pg_ks (tk_pg st)) P r l" "0 < l" "\<And>r' l'. elsewhere (tk_mem st) K q ys r' l' \<Longrightarrow> regions_disjoint r l r' l'" for r l
    using sp R that unfolding spares_def by blast
  have t: "held s' P' a 16384 \<and> (\<forall>x. in_region x a 16384 \<longrightarrow> ks_mem s' x = tk_mem st x)" if "a \<in> set q" for a
    by (rule keep) (use d(11) [OF that] that in \<open>simp_all add: elsewhere_def\<close>)
  have y: "held s' P' y 284 \<and> (\<forall>x. in_region x y 284 \<longrightarrow> ks_mem s' x = tk_mem st x)" if "y \<in> set ys" for y
    by (rule keep) (use d(12) [OF that] that in \<open>simp_all add: elsewhere_def\<close>)
  have hs: "pg_ks (tk_pg (tk_heap s' st)) = s'" "current_task (tk_heap s' st) = current_task st" by (simp_all add: tk_heap_def)
  note l = lists_keep [OF ok hs(2), unfolded hs(1), OF heap t y]
  show "kernel_ok (tk_heap s' st) P' K q ys k'"
    using d(3,4,7,8,13) pg(1,2,4,7) l unfolding kernel_ok_def th by simp
qed

text \<open>A copy of the kernel's directory survives as well.\<close>

lemma shares_spares:
  assumes inv: "pg_inv st P c k" and sh: "shares_tables st P K c" and sp: "spares R (pg_ks st) P s' P'"
    and ap: "\<forall>(r, l)\<in>R. apart (pg_mem st) c r l \<and> apart (pg_mem st) K r l" and heap: "kheap_inv s' P'" "kheap_room s' k'"
    and st': "pg_ks st' = s'" "pg_current_directory st' = pg_current_directory st" "pg_cr4 st' = pg_cr4 st"
  shows "pg_inv st' P' c k'" "shares_tables st' P' K c" "apart (ks_mem s') c r l = apart (pg_mem st) c r l"
    "maps_range st c v n f \<Longrightarrow> maps_range st' c v n f" "apart (ks_mem s') K r l = apart (pg_mem st) K r l" "kernel_view st K st'"
    "pdir (ks_mem s') K = pdir (pg_mem st) K"
proof -
  let ?m = "pg_mem st" and ?m' = "ks_mem s'"
  have wf: "pd_wf st P c" and ct: "can_translate st P c" using inv by (simp_all add: pg_inv_def)
  have s: "pg_current_directory st = K" "small_pages ?m K" "small_pages ?m c" "held (pg_ks st) P K 4100" "apart ?m c K 4100"
    "held (pg_ks st) P (pdir ?m K) 4096" "apart ?m c (pdir ?m K) 4096" "\<And>i. i < 1023 \<Longrightarrow> ptbl ?m K i \<noteq> 0 \<Longrightarrow> ptbl ?m c i = ptbl ?m K i"
    using sh by (auto simp: shares_tables_def Let_def)
  have kept: "held s' P' q n \<and> (\<forall>x. in_region x q n \<longrightarrow> ?m' x = ?m x)"
    if "held (pg_ks st) P q n" "0 < n" "\<And>r l. apart ?m c r l \<Longrightarrow> apart ?m K r l \<Longrightarrow> regions_disjoint q n r l" for q n
    using sp that ap unfolding spares_def by blast
  have h: "held s' P' c 4100 \<and> (\<forall>x. in_region x c 4100 \<longrightarrow> ?m' x = ?m x)"
    "held s' P' (pdir ?m c) 4096 \<and> (\<forall>x. in_region x (pdir ?m c) 4096 \<longrightarrow> ?m' x = ?m x)"
    "held s' P' K 4100 \<and> (\<forall>x. in_region x K 4100 \<longrightarrow> ?m' x = ?m x)"
    "held s' P' (pdir ?m K) 4096 \<and> (\<forall>x. in_region x (pdir ?m K) 4096 \<longrightarrow> ?m' x = ?m x)"
    by (rule kept; use pd_wfD(1,2) [OF wf] s(4,6) in \<open>simp add: apart_def\<close>)+
  have t: "held s' P' (ptbl ?m c i) 4096 \<and> (\<forall>x. in_region x (ptbl ?m c i) 4096 \<longrightarrow> ?m' x = ?m x)"
    if "i < 1023" "ptbl ?m c i \<noteq> 0" for i
    by (rule kept) (use pd_wfD(4) [OF wf that] that in \<open>simp_all add: apart_def\<close>)
  note sc = pd_frame [of c ?m' ?m, OF h(1) [THEN conjunct2, rule_format] h(2) [THEN conjunct2, rule_format]]
  note sk = pd_frame [of K ?m' ?m, OF h(3) [THEN conjunct2, rule_format] h(4) [THEN conjunct2, rule_format]]
  show apc: "apart ?m' c r l = apart ?m c r l" for r l by (simp add: apart_def sc)
  show "apart ?m' K r l = apart ?m K r l" for r l by (simp add: apart_def sk)
  show "pdir ?m' K = pdir ?m K" by (simp add: sk)
  have "held s' P' K 4" using h(3) in_region_mono [of _ K 4 4100] unfolding held_def by fastforce
  show "pg_inv st' P' c k'"
    using wf ct h t heap s(1) \<open>held s' P' K 4\<close> by (simp add: pg_inv_def pd_wf_def can_translate_def Let_def st' sc sk apc) blast
  show sh': "shares_tables st' P' K c"
    using s h by (simp add: shares_tables_def Let_def st' sc sk apc small_pages_def)
  have tr: "ptbl ?m' c (dir_index u) \<noteq> 0 \<and> virtual_to_physical_addr st' c u = virtual_to_physical_addr st c u"
    if u: "dir_index u < 1023" "ptbl ?m c (dir_index u) \<noteq> 0" for u
  proof -
    have "pte ?m' c (dir_index u) (tbl_index u) = pte ?m c (dir_index u) (tbl_index u)"
      by (rule pte_frame) (use sc(3) [of "dir_index u"] u(1) t [OF u] in auto)
    then show ?thesis using sc(2,3) [of "dir_index u"] u by (simp add: virtual_to_physical_eq st')
  qed
  have "dir_index u < 1023" if "maps_range st c v n f" "unat u < unat v + 4096 * n" for u :: addr
  proof -
    have "unat u < 0xC0000000" using that by (simp add: maps_range_def)
    then show ?thesis by simp
  qed
  then show "maps_range st' c v n f" if "maps_range st c v n f"
    using that tr unfolding maps_range_def [of st'] maps_range_def [of st] st' by metis
  show "kernel_view st K st'"
    unfolding kernel_view_def
  proof (intro conjI allI impI)
    show "pde (pg_mem st') K i = pde ?m K i" "ptbl (pg_mem st') K i = ptbl ?m K i" if "i < 1024" for i using sk(2,3) that by (simp_all add: st')
    fix u assume u: "unat u < 0xFFC00000" "ptbl ?m K (dir_index u) \<noteq> 0"
    then have i: "dir_index u < 1023" by (simp add: div_less_iff_less_mult)
    have "ptbl ?m c (dir_index u) \<noteq> 0" using s(8) [OF i u(2)] u(2) by simp
    moreover have k: "ptbl (pg_mem st') K (dir_index u) \<noteq> 0" using sk(3) i u(2) by (simp add: st')
    ultimately show "virtual_to_physical_addr st' K u = virtual_to_physical_addr st K u"
      using tr [OF i] shared_translation [OF sh i u(2)] shared_translation [OF sh' i k] by simp
  qed
qed

section \<open>The state tasking\_init leaves\<close>

lemma pg_same:
  assumes "pg_ks a = pg_ks b" "pg_current_directory a = pg_current_directory b" "pg_cr4 a = pg_cr4 b"
  shows "pg_inv a P h k = pg_inv b P h k" "virtual_to_physical_addr a h u = virtual_to_physical_addr b h u"
  using assms by (simp_all add: pg_inv_def pd_wf_def can_translate_def virtual_to_physical_eq Let_def)

lemma tasking_ok:
  assumes inv: "pg_inv (tk_pg (cs_tk st)) P K (k + 7)" "pg_current_directory (tk_pg (cs_tk st)) = K" "small_pages (tk_mem (cs_tk st)) K" "user_space_empty (tk_mem (cs_tk st)) K"
    and T: "held (pg_ks (tk_pg (cs_tk st))) P T 16384" "T \<noteq> NULL" "apart (tk_mem (cs_tk st)) K T 16384"
    and int: "isr_handlers st ! 20 = Some no_int_handler" "frame_on_stack T regs frame"
  obtains sys idle task st' P' where "tasking_init io regs frame K T idle_function st
       = Some (st\<lparr>cs_dev := snd (insb io 0x20 (outb io 0x20 0x0B (cs_dev st))), cs_tk := st'\<rparr>)" "kernel_ok st' P' K [T, task] [sys, idle] k"
    "fld tcb_process (tk_mem st') T = sys" "fld tcb_process (tk_mem st') task = idle"
    "fld process_page_directory (tk_mem st') sys = K" "fld process_page_directory (tk_mem st') idle = K"
    "load32 (tk_mem st') (start_stack task True + 56) = idle_function" "processes st' = (processes (cs_tk st))(0 := sys, 1 := idle)"
    "tk_pg st' = (tk_pg (cs_tk st))\<lparr>pg_interrupts := True, pg_ks := pg_ks (tk_pg st'), pg_term := pg_term (tk_pg st')\<rparr>"
    "spares {(T, 16384)} (pg_ks (tk_pg (cs_tk st))) P (pg_ks (tk_pg st')) P'" "pde (tk_mem st') K 1023 = pde (tk_mem (cs_tk st)) K 1023"
    "\<forall>r l. apart (tk_mem st') K r l = apart (tk_mem (cs_tk st)) K r l"
    "\<forall>u. unat u < 0xFFC00000 \<longrightarrow> ptbl (tk_mem (cs_tk st)) K (dir_index u) \<noteq> 0 \<longrightarrow> ptbl (tk_mem st') K (dir_index u) \<noteq> 0
       \<and> virtual_to_physical_addr (tk_pg st') K u = virtual_to_physical_addr (tk_pg (cs_tk st)) K u"
proof -
  have heap: "kheap_inv (pg_ks (tk_pg (cs_tk st))) P" "kheap_room (pg_ks (tk_pg (cs_tk st))) (k + 7)" and wf: "pd_wf (tk_pg (cs_tk st)) P K" using inv(1) by (simp_all add: pg_inv_def)
  obtain sys idle task st' P' where t: "tasking_init io regs frame K T idle_function st
       = Some (st\<lparr>cs_dev := snd (insb io 0x20 (outb io 0x20 0x0B (cs_dev st))), cs_tk := st'\<rparr>)" "tasks_held st' P' [T, task] k"
    "process_ring (tk_mem st') [sys, idle]" "fld tcb_process (tk_mem st') T = sys" "fld tcb_process (tk_mem st') task = idle"
    "fld process_page_directory (tk_mem st') sys = K" "fld process_page_directory (tk_mem st') idle = K"
    "load32 (tk_mem st') (start_stack task True + 56) = idle_function" "processes st' = (processes (cs_tk st))(0 := sys, 1 := idle)"
    "tk_pg st' = (tk_pg (cs_tk st))\<lparr>pg_interrupts := True, pg_ks := pg_ks (tk_pg st'), pg_term := pg_term (tk_pg st')\<rparr>"
    "spares {(T, 16384)} (pg_ks (tk_pg (cs_tk st))) P (pg_ks (tk_pg st')) P'"
    and new: "\<forall>r l. held (pg_ks (tk_pg (cs_tk st))) P r l \<longrightarrow> 0 < l \<longrightarrow> regions_disjoint r l T 16384 \<longrightarrow>
       regions_disjoint r l sys 284 \<and> regions_disjoint r l idle 284 \<and> regions_disjoint r l task 16384"
    by (rule tasking_start [OF heap T(1,2) int, of io K idle_function]) (rule that; assumption)
  have R: "\<forall>(r, l)\<in>{(T, 16384)}. apart (tk_mem (cs_tk st)) K r l" using T(3) by simp
  note pg = pg_inv_spares [OF inv(1,2) t(11) R tasks_heldD(1,2) [OF t(2)]]
  let ?pg = "(tk_pg (cs_tk st))\<lparr>pg_ks := pg_ks (tk_pg st')\<rparr>"
  have same: "pg_ks (tk_pg st') = pg_ks ?pg" "pg_current_directory (tk_pg st') = pg_current_directory ?pg" "pg_cr4 (tk_pg st') = pg_cr4 ?pg"
    by simp (subst t(10), simp)+
  have d: "regions_disjoint K 4100 T 16384" "regions_disjoint (pdir (tk_mem (cs_tk st)) K) 4096 T 16384"
    "\<And>i. i < 1023 \<Longrightarrow> ptbl (tk_mem (cs_tk st)) K i \<noteq> 0 \<Longrightarrow> regions_disjoint (ptbl (tk_mem (cs_tk st)) K i) 4096 T 16384" using T(3) by (auto simp: apart_def)
  have ap: "apart (tk_mem (cs_tk st)) K sys 284" "apart (tk_mem (cs_tk st)) K idle 284" "apart (tk_mem (cs_tk st)) K task 16384"
    using new d pd_wfD(1,2,4) [OF wf] by (simp_all add: apart_def)
  have "kernel_ok st' P' K [T, task] [sys, idle] k"
    unfolding kernel_ok_def using t(2-5) pg pg_same(1) [OF same, of P' K k] inv(2-4) ap T(3) same(2) by simp
  moreover have "\<forall>u. unat u < 0xFFC00000 \<longrightarrow> ptbl (tk_mem (cs_tk st)) K (dir_index u) \<noteq> 0 \<longrightarrow> ptbl (tk_mem st') K (dir_index u) \<noteq> 0
       \<and> virtual_to_physical_addr (tk_pg st') K u = virtual_to_physical_addr (tk_pg (cs_tk st)) K u"
    using pg(5) pg_same(2) [OF same] by simp
  ultimately show thesis using that [OF t(1) _ t(4-11)] pg(2,3) by blast
qed

section \<open>The steps of process\_init\<close>

text \<open>A region of one block, and a change of a region that is held.\<close>

lemma kernel_ok_alloc:
  assumes ok: "kernel_ok st P K q ys (Suc k)" and sz: "0 < sz" "nblocks sz = 1"
  obtains p ks where "kzalloc (pg_ks (tk_pg st)) sz = Some (p, ks)" "p = next_block (pg_ks (tk_pg st)) 0" "p \<noteq> NULL" "P p = None"
    "\<forall>i. next_block ks i = next_block (pg_ks (tk_pg st)) (Suc i)" "spares {} (pg_ks (tk_pg st)) P ks (P(p \<mapsto> 4096))"
    "kheap_inv ks (P(p \<mapsto> 4096))" "kheap_room ks k"
    "\<forall>r l. held (pg_ks (tk_pg st)) P r l \<longrightarrow> 0 < l \<longrightarrow> regions_disjoint p 4096 r l" "elsewhere (tk_mem st) K q ys p 4096" "ks_mem ks p = 0"
proof -
  note d = kernel_okD [OF ok]
  have room: "kheap_room (pg_ks (tk_pg st)) (nblocks sz + k)" unfolding sz(2) using d(10) by simp
  obtain p ks where a: "kzalloc (pg_ks (tk_pg st)) sz = Some (p, ks)" "p \<noteq> NULL" "P p = None" "kheap_inv ks (P(p \<mapsto> 4096))" "kheap_room ks k"
    and zero: "bytes (ks_mem ks) p (unat sz) = replicate (unat sz) 0"
    and fr: "\<forall>r l. held (pg_ks (tk_pg st)) P r l \<longrightarrow> held ks (P(p \<mapsto> 4096)) r l \<and> (0 < l \<longrightarrow> regions_disjoint p 4096 r l)
       \<and> (\<forall>x. in_region x r l \<longrightarrow> ks_mem ks x = tk_mem st x)"
    by (rule held_region [OF d(9) room sz(1), unfolded sz(2) mult_1_right]) (rule that; assumption)
  note nx = kzalloc_next [OF d(9) room sz(1) a(1), unfolded sz(2)]
  have dj: "regions_disjoint r l p 4096" if "held (pg_ks (tk_pg st)) P r l" "0 < l" for r l
    using fr that regions_disjoint_sym by blast
  have wf: "pd_wf (tk_pg st) P K" using d(2) by (simp add: pg_inv_def)
  have "elsewhere (tk_mem st) K q ys p 4096"
    unfolding elsewhere_def apart_def
    by (intro conjI ballI allI impI dj) (use pd_wfD(1,2,4) [OF wf] d(11,12) in simp_all)
  moreover have "spares {} (pg_ks (tk_pg st)) P ks (P(p \<mapsto> 4096))"
    unfolding spares_def using fr a(3) by (auto simp: map_le_def simp del: fun_upd_apply) auto
  moreover have "ks_mem ks p = 0"
  proof -
    have "0 < unat sz" using sz(1) by (simp add: word_less_nat_alt)
    then show ?thesis using zero by (cases "unat sz") (simp_all add: bytes_Cons)
  qed
  ultimately show thesis using that [OF a(1) nx(1) a(2,3) _ _ a(4,5)] nx(2) fr by simp
qed

lemma spares_write:
  assumes "\<And>x. \<not> in_region x p n \<Longrightarrow> m x = ks_mem s x"
  shows "spares {(p, n)} s P (s\<lparr>ks_mem := m\<rparr>) P"
proof -
  have "held (s\<lparr>ks_mem := m\<rparr>) P = held s P" by (intro ext held_heap) simp
  moreover have "m x = ks_mem s x" if "regions_disjoint r l p n" "in_region x r l" for r l x using that assms regions_disjointD by blast
  ultimately show ?thesis unfolding spares_def by simp
qed

lemma spares_compose:
  assumes sp: "spares R s P s1 P1" "spares R' s1 P1 s2 P2"
    and sub: "\<And>r l r' l'. held s P r l \<Longrightarrow> 0 < l \<Longrightarrow> \<forall>(x, n)\<in>R. regions_disjoint r l x n \<Longrightarrow> (r', l') \<in> R' \<Longrightarrow> regions_disjoint r l r' l'"
  shows "spares R s P s2 P2"
  unfolding spares_def
proof (intro conjI allI impI)
  show "P \<subseteq>\<^sub>m P2" using sp map_le_trans [of P P1 P2] by (simp add: spares_def)
  fix r l assume r: "held s P r l" "0 < l" "\<forall>(x, n)\<in>R. regions_disjoint r l x n"
  have h: "held s1 P1 r l" "\<forall>x. in_region x r l \<longrightarrow> ks_mem s1 x = ks_mem s x" using sp(1) r unfolding spares_def by blast+
  have "\<forall>(x, n)\<in>R'. regions_disjoint r l x n" using sub [OF r] by blast
  then have "held s2 P2 r l" "\<forall>x. in_region x r l \<longrightarrow> ks_mem s2 x = ks_mem s1 x" using sp(2) h(1) r(2) unfolding spares_def by blast+
  then show "held s2 P2 r l" "\<And>x. in_region x r l \<Longrightarrow> ks_mem s2 x = ks_mem s x" using h(2) by simp_all
qed

definition new_record :: "mem \<Rightarrow> addr \<Rightarrow> u32 \<Rightarrow> u32 \<Rightarrow> addr \<Rightarrow> mem" where
  "new_record m p pid len memory = set_fld process_memory (set_fld process_memory_size (set_fld process_pid m p pid) p len) p memory"

text \<open>The process and its stack.\<close>

lemma new_process:
  assumes ok: "kernel_ok st P K q ys (Suc (Suc k))"
  obtains p ks1 stack ks3 m3 P3 where "kzalloc (pg_ks (tk_pg st)) sizeof_process = Some (p, ks1)" "p \<noteq> NULL"
    "kzalloc (ks1\<lparr>ks_mem := new_record (ks_mem ks1) p pid len memory\<rparr>) PROGRAM_STACK_SIZE = Some (stack, ks3)" "stack \<noteq> NULL"
    "m3 = set_fld process_stack (ks_mem ks3) p stack" "p = next_block (pg_ks (tk_pg st)) 0" "stack = next_block (pg_ks (tk_pg st)) 1"
    "kernel_ok (tk_heap (ks3\<lparr>ks_mem := m3\<rparr>) st) P3 K q ys k" "held (ks3\<lparr>ks_mem := m3\<rparr>) P3 p 284" "elsewhere m3 K q ys p 284"
    "fld process_pid m3 p = pid" "fld process_memory_size m3 p = len" "fld process_memory m3 p = memory" "fld process_stack m3 p = stack"
    "\<forall>r l. held (pg_ks (tk_pg st)) P r l \<longrightarrow> 0 < l \<longrightarrow> regions_disjoint r l p 284"
    "spares {} (pg_ks (tk_pg st)) P (ks3\<lparr>ks_mem := m3\<rparr>) P3" "\<forall>r l. apart m3 K r l = apart (tk_mem st) K r l"
    "\<forall>u. unat u < 0xFFC00000 \<longrightarrow> ptbl (tk_mem st) K (dir_index u) \<noteq> 0 \<longrightarrow> ptbl m3 K (dir_index u) \<noteq> 0
       \<and> virtual_to_physical_addr (tk_pg (tk_heap (ks3\<lparr>ks_mem := m3\<rparr>) st)) K u = virtual_to_physical_addr (tk_pg st) K u"
    "\<forall>i<1024. pde m3 K i = pde (tk_mem st) K i \<and> ptbl m3 K i = ptbl (tk_mem st) K i"
proof -
  let ?s = "pg_ks (tk_pg st)"
  have nb: "nblocks sizeof_process = 1" "nblocks PROGRAM_STACK_SIZE = 1" "0 < sizeof_process" "0 < PROGRAM_STACK_SIZE"
    by (simp_all add: sizeof_process_def PROGRAM_STACK_SIZE_def)
  obtain p ks1 where a: "kzalloc ?s sizeof_process = Some (p, ks1)" "p = next_block ?s 0" "p \<noteq> NULL" "P p = None"
    "\<forall>i. next_block ks1 i = next_block ?s (Suc i)" "spares {} ?s P ks1 (P(p \<mapsto> 4096))" "kheap_inv ks1 (P(p \<mapsto> 4096))" "kheap_room ks1 (Suc k)"
    "\<forall>r l. held ?s P r l \<longrightarrow> 0 < l \<longrightarrow> regions_disjoint p 4096 r l" "elsewhere (tk_mem st) K q ys p 4096"
    by (rule kernel_ok_alloc [OF ok nb(3,1)]) (rule that; assumption)
  let ?P1 = "P(p \<mapsto> 4096)"
  define m2 where "m2 = new_record (ks_mem ks1) p pid len memory"
  let ?s2 = "ks1\<lparr>ks_mem := m2\<rparr>"
  have o2: "m2 x = ks_mem ks1 x" if "\<not> in_region x p 284" for x
    using that by (simp add: m2_def new_record_def set_fld_outside [where n = 284])
  have new: "regions_disjoint r l p 284" if "held ?s P r l" "0 < l" for r l
    using a(9) that regions_disjoint_sym [of p 284 r l] regions_disjoint_mono [of p 4096 r l 284 l] by simp
  have h1: "held ks1 ?P1 p 284" by (simp add: held_def)
  have w2: "kheap_inv ?s2 ?P1" "kheap_room ?s2 (Suc k)" using held_write [OF a(7) h1 o2] a(8) by blast+
  have sp2: "spares {} ?s P ?s2 ?P1" by (rule spares_compose [OF a(6) spares_write [OF o2]]) (use new in auto)
  note ok2 = kernel_ok_spares [OF ok sp2 ball_empty [THEN iffD2, OF TrueI] w2]
  have hs2: "pg_ks (tk_pg (tk_heap ?s2 st)) = ?s2" by (simp add: tk_heap_def)
  have ok2': "kernel_ok (tk_heap ?s2 st) ?P1 K q ys (Suc k)" by (rule ok2(1))
  obtain stack ks3 where b: "kzalloc ?s2 PROGRAM_STACK_SIZE = Some (stack, ks3)" "stack = next_block ?s2 0" "stack \<noteq> NULL" "?P1 stack = None"
    "spares {} ?s2 ?P1 ks3 (?P1(stack \<mapsto> 4096))" "kheap_inv ks3 (?P1(stack \<mapsto> 4096))" "kheap_room ks3 k"
    by (rule kernel_ok_alloc [OF ok2' nb(4,2), unfolded hs2]) (rule that; assumption)
  let ?P3 = "?P1(stack \<mapsto> 4096)"
  define m3 where "m3 = set_fld process_stack (ks_mem ks3) p stack"
  let ?s3 = "ks3\<lparr>ks_mem := m3\<rparr>"
  have o3: "m3 x = ks_mem ks3 x" if "\<not> in_region x p 284" for x using that by (simp add: m3_def set_fld_outside [where n = 284])
  have hk: "held ?s2 ?P1 = held ks1 ?P1" "held ?s3 ?P3 = held ks3 ?P3" by (intro ext held_heap; simp)+
  have h3: "held ks3 ?P3 p 284" "\<forall>x. in_region x p 284 \<longrightarrow> ks_mem ks3 x = m2 x" using b(5) h1 unfolding spares_def hk by simp_all
  have w3: "kheap_inv ?s3 ?P3" "kheap_room ?s3 k" using held_write [OF b(6) h3(1) o3] b(7) by blast+
  have sp3: "spares {} ?s P ?s3 ?P3"
    by (rule spares_compose [OF spares_compose [OF sp2 b(5)] spares_write [OF o3]]) (use new in auto)
  note ok3 = kernel_ok_spares [OF ok sp3 ball_empty [THEN iffD2, OF TrueI] w3]
  have "next_block ?s2 0 = next_block ks1 0" by (simp add: next_block_def)
  then have stk: "stack = next_block ?s 1" using b(2) a(5) by simp
  have "elsewhere (tk_mem st) K q ys p 284"
    using a(10) regions_disjoint_mono [of _ _ p 4096 _ 284] by (auto simp: elsewhere_def apart_def)
  then have el: "elsewhere m3 K q ys p 284" using ok3(2) by (simp add: elsewhere_def)
  have f: "fld j (ks_mem ks3) p = fld j m2 p" if "unat j + 4 \<le> 284" for j
    by (rule fld_cong [OF _ that]) (use h3(2) in simp_all)
  have fields: "fld process_pid m3 p = pid" "fld process_memory_size m3 p = len" "fld process_memory m3 p = memory" "fld process_stack m3 p = stack"
    using f by (simp_all add: m3_def m2_def new_record_def fld_field)
  show thesis
    by (rule that [OF a(1,3) b(1) [unfolded m2_def] b(3) m3_def a(2) stk ok3(1) _ el fields _ sp3]; (unfold hk)?)
      (use h3(1) new ok3(2-4) in simp_all)
qed

text \<open>The address space.\<close>

lemma kernel_ok_map:
  assumes ok: "kernel_ok st P K q ys (k + 1 + (n + 1023) div 1024 + 3)"
    and p: "p \<noteq> NULL" "held (pg_ks (tk_pg st)) P p 284" "elsewhere (tk_mem st) K q ys p 284"
    and f: "n = nblocks (fld process_memory_size (tk_mem st) p)" "memory = fld process_memory (tk_mem st) p" "stack = fld process_stack (tk_mem st) p"
    and mem: "KERNEL_VIRTUAL_BASE \<le> memory" "memory < 0xFFC00000" "ptbl (tk_mem st) K (dir_index memory) \<noteq> 0"
    and stk: "KERNEL_VIRTUAL_BASE \<le> stack" "stack < 0xFFC00000" "ptbl (tk_mem st) K (dir_index stack) \<noteq> 0"
    and pm: "virtual_to_physical_addr (tk_pg st) K memory = Some pm" "paging_addr_is_page_aligned pm" "unat pm + 4096 * n < 2 ^ 32"
    and ps: "virtual_to_physical_addr (tk_pg st) K stack = Some ps" "paging_addr_is_page_aligned ps" "unat ps + 4096 < 2 ^ 32"
    and fits: "n \<le> 15360"
  obtains c pg P' where "process_map_memory K p (tk_pg st) = Some (0, pg)" "kernel_ok (st\<lparr>tk_pg := pg\<rparr>) P' K q ys k"
    "fld process_page_directory (pg_mem pg) p = c" "pg_inv pg P' c k" "shares_tables pg P' K c" "kernel_view (tk_pg st) K pg"
    "maps_range pg c PROGRAM_BASE_VIRT_ADDR n pm" "maps_range pg c PROGRAM_STACK_TOP_VIRT_ADDR 1 ps"
    "held (pg_ks pg) P' p 284" "elsewhere (pg_mem pg) K q ys p 284" "apart (pg_mem pg) c p 284"
    "\<forall>j\<in>{process_pid, process_memory, process_memory_size, process_stack}. fld j (pg_mem pg) p = fld j (tk_mem st) p"
    "\<forall>a\<in>set q. apart (pg_mem pg) c a 16384" "\<forall>y\<in>set ys. apart (pg_mem pg) c y 284"
    "\<forall>r l. held (pg_ks (tk_pg st)) P r l \<longrightarrow> 0 < l \<longrightarrow> apart (tk_mem st) K r l \<longrightarrow> regions_disjoint r l p 284 \<longrightarrow>
       held (pg_ks pg) P' r l \<and> apart (pg_mem pg) c r l \<and> apart (pg_mem pg) K r l \<and> (\<forall>x. in_region x r l \<longrightarrow> pg_mem pg x = tk_mem st x)"
    "P \<subseteq>\<^sub>m P'" "P c = None"
proof -
  note d = kernel_okD [OF ok]
  have pd: "apart (tk_mem st) K p 284" "\<And>a. a \<in> set q \<Longrightarrow> regions_disjoint a 16384 p 284" "\<And>y. y \<in> set ys \<Longrightarrow> regions_disjoint y 284 p 284"
    using p(3) by (auto simp: elsewhere_def)
  obtain c pg P' where m: "process_map_memory K p (tk_pg st) = Some (0, pg)" "fld process_page_directory (pg_mem pg) p = c"
    "pg_inv pg P' c k" "shares_tables pg P' K c" "kernel_view (tk_pg st) K pg"
    "maps_range pg c PROGRAM_BASE_VIRT_ADDR n pm" "maps_range pg c PROGRAM_STACK_TOP_VIRT_ADDR 1 ps"
    "pdir (pg_mem pg) K = pdir (tk_mem st) K" "P \<subseteq>\<^sub>m P'" "P c = None" "held (pg_ks pg) P' p 284" "apart (pg_mem pg) c p 284"
    "\<forall>j\<in>{process_pid, process_memory, process_memory_size, process_stack}. fld j (pg_mem pg) p = fld j (tk_mem st) p"
    and fr: "\<forall>r l. held (pg_ks (tk_pg st)) P r l \<longrightarrow> 0 < l \<longrightarrow> apart (tk_mem st) K r l \<longrightarrow> regions_disjoint r l p 284 \<longrightarrow>
       held (pg_ks pg) P' r l \<and> apart (pg_mem pg) c r l \<and> (\<forall>x. in_region x r l \<longrightarrow> pg_mem pg x = tk_mem st x)"
    by (rule map_process [OF d(2-4) p(1,2) pd(1) f mem stk pm ps fits d(13)]) (rule that; assumption)
  have wf: "pd_wf (tk_pg st) P K" using d(2) by (simp add: pg_inv_def)
  have inv: "pg_inv pg P' K k" using shares_kernel(1) [OF m(3,4)] pd_wfD(3) [OF wf] m(8) by simp
  have apK: "apart (pg_mem pg) K r l" if "apart (tk_mem st) K r l" "apart (pg_mem pg) c r l" for r l
    using shares_kernel(2) [OF m(3,4) that(2)] that(1) m(8) unfolding apart_def [of "tk_mem st"] by simp
  have t: "held (pg_ks pg) P' a 16384 \<and> apart (pg_mem pg) c a 16384 \<and> (\<forall>x. in_region x a 16384 \<longrightarrow> pg_mem pg x = tk_mem st x)"
    if "a \<in> set q" for a using fr d(11) [OF that] d(7) [OF that] pd(2) [OF that] by simp
  have y: "held (pg_ks pg) P' y 284 \<and> apart (pg_mem pg) c y 284 \<and> (\<forall>x. in_region x y 284 \<longrightarrow> pg_mem pg x = tk_mem st x)"
    if "y \<in> set ys" for y using fr d(12) [OF that] d(8) [OF that] pd(3) [OF that] by simp
  have "kheap_inv (pg_ks pg) P'" "kheap_room (pg_ks pg) k" using m(3) by (simp_all add: pg_inv_def)
  then have "tasks_held (st\<lparr>tk_pg := pg\<rparr>) P' q k" "process_ring (pg_mem pg) ys" "set ys = fld tcb_process (pg_mem pg) ` set q"
    using lists_keep [OF ok, of "st\<lparr>tk_pg := pg\<rparr>" P' k] t y by simp_all
  then have "kernel_ok (st\<lparr>tk_pg := pg\<rparr>) P' K q ys k"
    using inv d(7,8) apK t y m(4) kernel_view_user [OF m(5) d(13)] unfolding kernel_ok_def by (simp add: shares_tables_def Let_def)
  moreover have "elsewhere (pg_mem pg) K q ys p 284" using apK [OF pd(1) m(12)] pd(2,3) by (simp add: elsewhere_def)
  ultimately show thesis using that [OF m(1) _ m(2-7,11) _ m(12,13) _ _ _ m(9,10)] t y fr apK by blast
qed

text \<open>The name.\<close>

lemma kernel_ok_name:
  assumes ok: "kernel_ok st P K q ys k" and p: "held (pg_ks (tk_pg st)) P p 284" "elsewhere (tk_mem st) K q ys p 284"
    and c: "pg_inv (tk_pg st) P c k" "shares_tables (tk_pg st) P K c" "apart (tk_mem st) c p 284"
    and name: "cstring (tk_mem st) name z" "length z < 250" "regions_disjoint p 284 name 250"
  defines "st' \<equiv> tk_with st (strncpy (tk_mem st) (p + process_name) name MAX_PATH_LEN)"
  shows "kernel_ok st' P K q ys k" "pg_inv (tk_pg st') P c k" "shares_tables (tk_pg st') P K c" "kernel_view (tk_pg st) K (tk_pg st')"
    "maps_range (tk_pg st) c v n f \<Longrightarrow> maps_range (tk_pg st') c v n f" "apart (tk_mem st') c r l = apart (tk_mem st) c r l"
    "elsewhere (tk_mem st') K q ys r l = elsewhere (tk_mem st) K q ys r l" "held (pg_ks (tk_pg st')) P r l = held (pg_ks (tk_pg st)) P r l"
    "cstring (tk_mem st') (p + process_name) z" "named (tk_mem st') p"
proof -
  let ?s = "pg_ks (tk_pg st)" and ?m = "strncpy (tk_mem st) (p + process_name) name MAX_PATH_LEN"
  note d = kernel_okD [OF ok]
  note nm = strncpy_named [OF name]
  have out: "?m x = ks_mem ?s x" if "\<not> in_region x p 284" for x using nm(2) that .
  have s': "pg_ks (tk_pg st') = ?s\<lparr>ks_mem := ?m\<rparr>" "tk_mem st' = ?m" "st' = tk_heap (?s\<lparr>ks_mem := ?m\<rparr>) st"
    "pg_current_directory (tk_pg st') = pg_current_directory (tk_pg st)" "pg_cr4 (tk_pg st') = pg_cr4 (tk_pg st)"
    by (simp_all add: st'_def tk_with_def tk_heap_def)
  have w: "kheap_inv (?s\<lparr>ks_mem := ?m\<rparr>) P" "kheap_room (?s\<lparr>ks_mem := ?m\<rparr>) k" using held_write [OF d(9) p(1) out] d(10) by blast+
  have sp: "spares {(p, 284)} ?s P (?s\<lparr>ks_mem := ?m\<rparr>) P" by (rule spares_write [OF out])
  have R: "\<forall>(r, l)\<in>{(p, 284)}. elsewhere (tk_mem st) K q ys r l"
    "\<forall>(r, l)\<in>{(p, 284)}. apart (tk_mem st) c r l \<and> apart (tk_mem st) K r l" using p(2) c(3) by (simp_all add: elsewhere_def)
  note k = kernel_ok_spares [OF ok sp R(1) w] and sh = shares_spares [OF c(1,2) sp R(2) w s'(1,4,5)]
  show "kernel_ok st' P K q ys k" using k(1) s'(3) by simp
  show "pg_inv (tk_pg st') P c k" "shares_tables (tk_pg st') P K c" "kernel_view (tk_pg st) K (tk_pg st')" by (fact sh)+
  show "maps_range (tk_pg st') c v n f" if "maps_range (tk_pg st) c v n f" using sh(4) that .
  show "apart (tk_mem st') c r l = apart (tk_mem st) c r l" using sh(3) s'(2) by simp
  show "elsewhere (tk_mem st') K q ys r l = elsewhere (tk_mem st) K q ys r l" using sh(5) s'(2) by (simp add: elsewhere_def)
  show "held (pg_ks (tk_pg st')) P r l = held ?s P r l" by (rule held_heap) (simp add: s'(1))
  show "cstring (tk_mem st') (p + process_name) z" using nm(1) s'(2) by simp
  then show "named (tk_mem st') p" using name(2) unfolding named_def by blast
qed

text \<open>The task, and the lists of tasks and processes.\<close>

lemma kernel_ok_attach:
  assumes ok: "kernel_ok st P K q (sys # xs) (4 + k)" and T: "T \<in> set q" "fld tcb_process (tk_mem st) T = sys"
    and p: "held (pg_ks (tk_pg st)) P p 284" "elsewhere (tk_mem st) K q (sys # xs) p 284" "named (tk_mem st) p"
    and c: "pg_inv (tk_pg st) P c (4 + k)" "shares_tables (tk_pg st) P K c"
    and ap: "\<forall>a\<in>set q. apart (tk_mem st) c a 16384" "\<forall>y\<in>set (p # sys # xs). apart (tk_mem st) c y 284"
  obtains task st5 m P' where "task_new p privileged entry_point esp st = Some (task, st5)" "task \<noteq> NULL" "task \<notin> set q"
    "m = process_list_insert T p (set_fld process_task (tk_mem st5) p task)"
    "kernel_ok (tk_with st5 m) P' K (hd q # task # tl q) (sys # xs @ [p]) k"
    "pg_inv (tk_pg (tk_with st5 m)) P' c k" "shares_tables (tk_pg (tk_with st5 m)) P' K c" "kernel_view (tk_pg st) K (tk_pg (tk_with st5 m))"
    "\<forall>v n f. maps_range (tk_pg st) c v n f \<longrightarrow> maps_range (tk_pg (tk_with st5 m)) c v n f"
    "fld tcb_process m task = p" "fld process_task m p = task" "fld tcb_kernel_stack_pointer m task = start_stack task privileged"
    "\<forall>i<length (start_frame privileged entry_point esp).
       load32 m (start_stack task privileged + 4 * word_of_nat i) = start_frame privileged entry_point esp ! i"
    "\<forall>j. unat j + 4 \<le> 256 \<or> 260 \<le> unat j \<and> unat j + 4 \<le> 276 \<longrightarrow> fld j m p = fld j (tk_mem st) p"
    "processes st5 = processes st"
    "\<forall>r l. held (pg_ks (tk_pg st)) P r l \<longrightarrow> 0 < l \<longrightarrow> (\<forall>a\<in>set q. regions_disjoint a 16384 r l) \<longrightarrow>
       (\<forall>y\<in>set (p # sys # xs). regions_disjoint y 284 r l) \<longrightarrow>
       held (pg_ks (tk_pg (tk_with st5 m))) P' r l \<and> apart m c r l = apart (tk_mem st) c r l \<and> (\<forall>x. in_region x r l \<longrightarrow> m x = tk_mem st x)"
proof -
  let ?s = "pg_ks (tk_pg st)"
  note d = kernel_okD [OF ok]
  have el: "apart (tk_mem st) K p 284" "\<And>a. a \<in> set q \<Longrightarrow> regions_disjoint p 284 a 16384" "\<forall>y\<in>set (sys # xs). regions_disjoint p 284 y 284"
    using p(2) regions_disjoint_sym unfolding elsewhere_def by blast+
  have own: "can_own_task st P q p" using p(1,3) el(2) by (simp add: can_own_task_def)
  obtain task st5 m where n: "task_new p privileged entry_point esp st = Some (task, st5)" "task \<noteq> NULL" "P task = None" "task \<notin> set q"
    "m = process_list_insert T p (set_fld process_task (tk_mem st5) p task)"
    "tasks_held (tk_with st5 m) (P(task \<mapsto> 16384)) (hd q # task # tl q) k" "process_ring m (sys # xs @ [p])"
    "fld tcb_process m task = p" "\<forall>a\<in>set q. fld tcb_process m a = fld tcb_process (tk_mem st) a" "fld process_task m p = task"
    "fld tcb_kernel_stack_pointer m task = start_stack task privileged"
    "\<forall>i<length (start_frame privileged entry_point esp).
       load32 m (start_stack task privileged + 4 * word_of_nat i) = start_frame privileged entry_point esp ! i"
    "\<forall>y\<in>set (p # sys # xs). \<forall>j. unat j + 4 \<le> 256 \<or> 260 \<le> unat j \<and> unat j + 4 \<le> 276 \<longrightarrow> fld j m y = fld j (tk_mem st) y"
    "processes st5 = processes st" "tk_pg st5 = (tk_pg st)\<lparr>pg_ks := pg_ks (tk_pg st5), pg_term := pg_term (tk_pg st5)\<rparr>"
    and sp: "spares ((\<lambda>a. (a, 92)) ` set q \<union> (\<lambda>y. (y, 284)) ` set (p # sys # xs)) ?s P
       (pg_ks (tk_pg (tk_with st5 m))) (P(task \<mapsto> 16384))"
    and new: "\<forall>r l. held ?s P r l \<longrightarrow> 0 < l \<longrightarrow> regions_disjoint task 16384 r l"
    by (rule attach_task [OF d(1) own T d(5,6) el(3), of privileged entry_point esp]) (rule that; assumption)
  let ?st = "tk_with st5 m" and ?P = "P(task \<mapsto> 16384)"
  have mem: "tk_mem ?st = m" by (simp add: tk_with_def)
  have apR: "\<forall>(r, l)\<in>(\<lambda>a. (a, 92)) ` set q \<union> (\<lambda>y. (y, 284)) ` set (p # sys # xs). apart (tk_mem st) c r l \<and> apart (tk_mem st) K r l"
  proof -
    have "apart (tk_mem st) h a 92" if "apart (tk_mem st) h a 16384" for h a
      using that regions_disjoint_mono [of _ _ a 16384 _ 92] by (auto simp: apart_def)
    then show ?thesis using ap d(7,8) el(1) by auto
  qed
  have fields: "pg_ks (tk_pg ?st) = pg_ks (tk_pg ?st)" "pg_current_directory (tk_pg ?st) = pg_current_directory (tk_pg st)"
    "pg_cr4 (tk_pg ?st) = pg_cr4 (tk_pg st)"
    by (simp_all add: tk_with_def) (subst n(15), simp)+
  note sh = shares_spares [OF c sp apR tasks_heldD(1,2) [OF n(6)] fields, unfolded mem]
  have wf: "pd_wf (tk_pg st) P K" using d(2) by (simp add: pg_inv_def)
  have dj: "regions_disjoint r l task 16384" if "held ?s P r l" "0 < l" for r l using new that regions_disjoint_sym by blast
  have "apart (tk_mem st) K task 16384"
    unfolding apart_def by (intro conjI allI impI dj) (use pd_wfD(1,2,4) [OF wf] in simp_all)
  then have apK: "apart m K task 16384" "\<And>a. a \<in> set q \<Longrightarrow> apart m K a 16384" "\<And>y. y \<in> set (p # sys # xs) \<Longrightarrow> apart m K y 284"
    using sh(5) d(7,8) el(1) by auto
  have inv: "pg_inv (tk_pg ?st) ?P K k" using shares_kernel(1) [OF sh(1,2)] pd_wfD(3) [OF wf] sh(7) mem by simp
  have q: "set (hd q # task # tl q) = insert task (set q)" using task_ringD(1) [OF tasks_heldD(3) [OF d(1)]] by (cases q) auto
  have own': "set (sys # xs @ [p]) = fld tcb_process m ` insert task (set q)" using d(6) n(8,9) by auto
  have "kernel_ok ?st ?P K (hd q # task # tl q) (sys # xs @ [p]) k"
    unfolding kernel_ok_def q mem
  proof (intro conjI ballI)
    show "pg_current_directory (tk_pg ?st) = K" "small_pages m K" using sh(2) mem by (simp_all add: shares_tables_def Let_def)
    show "user_space_empty m K" using kernel_view_user [OF sh(6) d(13)] mem by simp
    show "apart m K a 16384" if "a \<in> insert task (set q)" for a using that apK(1,2) by auto
    show "apart m K y 284" if "y \<in> set (sys # xs @ [p])" for y using that by (intro apK(3)) auto
  qed (fact n(6) inv n(7) own')+
  moreover have "held (pg_ks (tk_pg ?st)) ?P r l \<and> apart m c r l = apart (tk_mem st) c r l \<and> (\<forall>x. in_region x r l \<longrightarrow> m x = tk_mem st x)"
    if r: "held ?s P r l" "0 < l" "\<forall>a\<in>set q. regions_disjoint a 16384 r l" "\<forall>y\<in>set (p # sys # xs). regions_disjoint y 284 r l" for r l
  proof -
    have "regions_disjoint r l a 92" if "a \<in> set q" for a
      using r(3) that regions_disjoint_mono [of a 16384 r l 92 l] regions_disjoint_sym [of a 92 r l] by simp
    then have "\<forall>(x, n)\<in>(\<lambda>a. (a, 92)) ` set q \<union> (\<lambda>y. (y, 284)) ` set (p # sys # xs). regions_disjoint r l x n"
      using r(4) regions_disjoint_sym by auto
    then have "held (pg_ks (tk_pg ?st)) ?P r l \<and> (\<forall>x. in_region x r l \<longrightarrow> tk_mem ?st x = tk_mem st x)"
      using sp r(1,2) unfolding spares_def by blast
    then show ?thesis using sh(3) mem by simp
  qed
  ultimately show thesis using that [OF n(1,2,4,5) _ sh(1,2) sh(6) _ n(8,10,11,12) _ n(14)] sh(4) n(13) by simp
qed

text \<open>The words of a structure are its bytes.\<close>

lemma fields_bytes:
  assumes f: "\<And>j. unat j + 4 \<le> 256 \<Longrightarrow> fld j m p = fld j m' p" and x: "in_region x p 256"
  shows "m x = m' x"
proof -
  define j where "j = unat (x - p)"
  define w where "w = (word_of_nat (4 * (j div 4)) :: u32)"
  have j: "j < 256" "x = p + word_of_nat j" using x by (simp_all add: j_def in_region_def)
  have "4 * (j div 4) + 4 \<le> 256" using j(1) by presburger
  then have "unat w + 4 \<le> 256" unfolding w_def by (subst unat_word_of_nat_lt) auto
  then have "load32 m (p + w) = load32 m' (p + w)" using f [of w] by (simp add: fld_def)
  then have "m (p + w + word_of_nat (j mod 4)) = m' (p + w + word_of_nat (j mod 4))"
    using load32_byte [of "j mod 4" m "p + w"] load32_byte [of "j mod 4" m' "p + w"] by simp
  moreover have "w + word_of_nat (j mod 4) = word_of_nat j" unfolding w_def of_nat_add [symmetric] by simp
  then have "p + w + word_of_nat (j mod 4) = x" by (simp add: j(2) add.assoc)
  ultimately show ?thesis by simp
qed

text \<open>All of it up to the name.\<close>

lemma mapped_process:
  fixes st :: task_state and memory_size :: u32
  defines "n \<equiv> nblocks memory_size"
  assumes ok: "kernel_ok st P K q ys (k + 6 + (n + 1023) div 1024)"
    and p: "p = next_block (pg_ks (tk_pg st)) 0"
    and name: "held (pg_ks (tk_pg st)) P name 250" "apart (tk_mem st) K name 250" "cstring (tk_mem st) name z" "length z < 250"
    and mem: "KERNEL_VIRTUAL_BASE \<le> memory" "memory < 0xFFC00000" "ptbl (tk_mem st) K (dir_index memory) \<noteq> 0"
    and stk: "KERNEL_VIRTUAL_BASE \<le> stack" "stack < 0xFFC00000" "ptbl (tk_mem st) K (dir_index stack) \<noteq> 0" "stack = next_block (pg_ks (tk_pg st)) 1"
    and pm: "virtual_to_physical_addr (tk_pg st) K memory = Some pm" "paging_addr_is_page_aligned pm" "unat pm + 4096 * n < 2 ^ 32"
    and ps: "virtual_to_physical_addr (tk_pg st) K stack = Some ps" "paging_addr_is_page_aligned ps" "unat ps + 4096 < 2 ^ 32"
    and fits: "n \<le> 15360"
  obtains ks1 ks3 m3 c pg P' where "kzalloc (pg_ks (tk_pg st)) sizeof_process = Some (p, ks1)" "p \<noteq> NULL"
    "kzalloc (ks1\<lparr>ks_mem := new_record (ks_mem ks1) p pid memory_size memory\<rparr>) PROGRAM_STACK_SIZE = Some (stack, ks3)" "stack \<noteq> NULL"
    "m3 = set_fld process_stack (ks_mem ks3) p stack" "process_map_memory K p (tk_pg (tk_heap (ks3\<lparr>ks_mem := m3\<rparr>) st)) = Some (0, pg)"
    "kernel_ok (st\<lparr>tk_pg := pg\<rparr>) P' K q ys k" "fld process_page_directory (pg_mem pg) p = c" "fld process_pid (pg_mem pg) p = pid"
    "pg_inv pg P' c k" "shares_tables pg P' K c" "kernel_view (tk_pg st) K pg"
    "maps_range pg c PROGRAM_BASE_VIRT_ADDR n pm" "maps_range pg c PROGRAM_STACK_TOP_VIRT_ADDR 1 ps"
    "held (pg_ks pg) P' p 284" "elsewhere (pg_mem pg) K q ys p 284" "apart (pg_mem pg) c p 284"
    "\<forall>a\<in>set q. apart (pg_mem pg) c a 16384" "\<forall>y\<in>set ys. apart (pg_mem pg) c y 284"
    "cstring (pg_mem pg) name z" "regions_disjoint p 284 name 250"
    "\<forall>r l x. held (pg_ks (tk_pg st)) P r l \<longrightarrow> 0 < l \<longrightarrow> apart (tk_mem st) K r l \<longrightarrow> in_region x r l \<longrightarrow> pg_mem pg x = tk_mem st x"
    "\<forall>r l. held (pg_ks (tk_pg st)) P r l \<longrightarrow> 0 < l \<longrightarrow> apart (tk_mem st) K r l \<longrightarrow> held (pg_ks pg) P' r l \<and> apart (pg_mem pg) c r l \<and> apart (pg_mem pg) K r l \<and> regions_disjoint r l p 284"
    "P c = None"
proof -
  let ?k = "k + 1 + (n + 1023) div 1024 + 3" and ?s = "pg_ks (tk_pg st)"
  have "k + 6 + (n + 1023) div 1024 = Suc (Suc ?k)" by simp
  then have ok0: "kernel_ok st P K q ys (Suc (Suc ?k))" using ok by metis
  obtain p' ks1 stk' ks3 m3 P3 where a: "kzalloc ?s sizeof_process = Some (p', ks1)" "p' \<noteq> NULL"
    "kzalloc (ks1\<lparr>ks_mem := new_record (ks_mem ks1) p' pid memory_size memory\<rparr>) PROGRAM_STACK_SIZE = Some (stk', ks3)" "stk' \<noteq> NULL"
    "m3 = set_fld process_stack (ks_mem ks3) p' stk'" "p' = next_block ?s 0" "stk' = next_block ?s 1"
    "kernel_ok (tk_heap (ks3\<lparr>ks_mem := m3\<rparr>) st) P3 K q ys ?k" "held (ks3\<lparr>ks_mem := m3\<rparr>) P3 p' 284" "elsewhere m3 K q ys p' 284"
    and f3: "fld process_pid m3 p' = pid" "fld process_memory_size m3 p' = memory_size" "fld process_memory m3 p' = memory"
      "fld process_stack m3 p' = stk'"
    and new: "\<forall>r l. held ?s P r l \<longrightarrow> 0 < l \<longrightarrow> regions_disjoint r l p' 284" and sp3: "spares {} ?s P (ks3\<lparr>ks_mem := m3\<rparr>) P3"
    and ap3: "\<forall>r l. apart m3 K r l = apart (tk_mem st) K r l"
    and tr3: "\<forall>u. unat u < 0xFFC00000 \<longrightarrow> ptbl (tk_mem st) K (dir_index u) \<noteq> 0 \<longrightarrow> ptbl m3 K (dir_index u) \<noteq> 0
       \<and> virtual_to_physical_addr (tk_pg (tk_heap (ks3\<lparr>ks_mem := m3\<rparr>) st)) K u = virtual_to_physical_addr (tk_pg st) K u"
    and en3: "\<forall>i<1024. pde m3 K i = pde (tk_mem st) K i \<and> ptbl m3 K i = ptbl (tk_mem st) K i"
    by (rule new_process [OF ok0, of pid memory_size memory]) (rule that; assumption)
  have pp: "p' = p" using a(6) p by simp
  note a = a [unfolded pp] and f3 = f3 [unfolded pp] and new = new [unfolded pp]
  define st3 where "st3 = tk_heap (ks3\<lparr>ks_mem := m3\<rparr>) st"
  have stk': "stk' = stack" using a(7) stk(4) by simp
  have s3: "pg_ks (tk_pg st3) = ks3\<lparr>ks_mem := m3\<rparr>" "tk_mem st3 = m3" "st3\<lparr>tk_pg := x\<rparr> = st\<lparr>tk_pg := x\<rparr>" for x
    by (simp_all add: st3_def tk_heap_def)
  have u: "unat memory < 0xFFC00000" "unat stack < 0xFFC00000" using mem(2) stk(2) by (simp_all add: word_less_nat_alt)
  note tm = tr3 [rule_format, OF u(1) mem(3), folded st3_def] and ts = tr3 [rule_format, OF u(2) stk(3), folded st3_def]
  have pre: "held (pg_ks (tk_pg st3)) P3 p 284" "elsewhere (tk_mem st3) K q ys p 284" "n = nblocks (fld process_memory_size (tk_mem st3) p)"
    "memory = fld process_memory (tk_mem st3) p" "stack = fld process_stack (tk_mem st3) p"
    "ptbl (tk_mem st3) K (dir_index memory) \<noteq> 0" "ptbl (tk_mem st3) K (dir_index stack) \<noteq> 0"
    "virtual_to_physical_addr (tk_pg st3) K memory = Some pm" "virtual_to_physical_addr (tk_pg st3) K stack = Some ps"
    using a(9,10) f3 stk' tm ts pm(1) ps(1) unfolding s3 n_def by simp_all
  obtain c pg P' where m: "process_map_memory K p (tk_pg st3) = Some (0, pg)" "kernel_ok (st3\<lparr>tk_pg := pg\<rparr>) P' K q ys k"
    "fld process_page_directory (pg_mem pg) p = c" "pg_inv pg P' c k" "shares_tables pg P' K c" "kernel_view (tk_pg st3) K pg"
    "maps_range pg c PROGRAM_BASE_VIRT_ADDR n pm" "maps_range pg c PROGRAM_STACK_TOP_VIRT_ADDR 1 ps"
    "held (pg_ks pg) P' p 284" "elsewhere (pg_mem pg) K q ys p 284" "apart (pg_mem pg) c p 284"
    "\<forall>j\<in>{process_pid, process_memory, process_memory_size, process_stack}. fld j (pg_mem pg) p = fld j (tk_mem st3) p"
    "\<forall>a\<in>set q. apart (pg_mem pg) c a 16384" "\<forall>y\<in>set ys. apart (pg_mem pg) c y 284"
    "\<forall>r l. held (pg_ks (tk_pg st3)) P3 r l \<longrightarrow> 0 < l \<longrightarrow> apart (tk_mem st3) K r l \<longrightarrow> regions_disjoint r l p 284 \<longrightarrow>
       held (pg_ks pg) P' r l \<and> apart (pg_mem pg) c r l \<and> apart (pg_mem pg) K r l \<and> (\<forall>x. in_region x r l \<longrightarrow> pg_mem pg x = tk_mem st3 x)" "P3 c = None"
    by (rule kernel_ok_map [OF a(8) [folded st3_def] a(2) pre(1-5) mem(1,2) pre(6) stk(1,2) pre(7,8) pm(2,3) pre(9) ps(2,3) fits])
      (rule that; assumption)
  have "kernel_view (tk_pg st) K (tk_pg st3)" using tr3 [folded st3_def] en3 unfolding kernel_view_def s3(2) by simp
  then have view: "kernel_view (tk_pg st) K pg" using m(6) by (rule kernel_view_trans)
  have kept: "held (pg_ks pg) P' r l \<and> apart (pg_mem pg) c r l \<and> apart (pg_mem pg) K r l \<and> regions_disjoint r l p 284 \<and> (\<forall>x. in_region x r l \<longrightarrow> pg_mem pg x = tk_mem st x)"
    if "held ?s P r l" "0 < l" "apart (tk_mem st) K r l" for r l
  proof -
    have "held (ks3\<lparr>ks_mem := m3\<rparr>) P3 r l" "\<forall>x. in_region x r l \<longrightarrow> m3 x = tk_mem st x" using sp3 that unfolding spares_def by simp_all
    then show ?thesis using m(15) new ap3 that unfolding s3 by simp
  qed
  have fresh: "P c = None" using m(16) sp3 by (cases "P c") (auto simp: spares_def map_le_def dom_def)
  have str: "cstring (pg_mem pg) name z"
    by (rule cstring_cong [OF name(3)])
      (use kept [OF name(1) _ name(2)] name(4) in_region_mono [of _ name "Suc (length z)" 250] in auto)
  have pid: "fld process_pid (pg_mem pg) p = pid" using m(12) f3(1) unfolding s3 by simp
  have "regions_disjoint name 250 p 284" using new name(1) by simp
  then have dj: "regions_disjoint p 284 name 250" using regions_disjoint_sym by blast
  show thesis by (rule that [OF a(1,2) a(3-5) [unfolded stk'] m(1) [unfolded st3_def] m(2) [unfolded s3] m(3) pid m(4,5) view m(7-11,13,14) str dj _ _ fresh]) (use kept in blast)+
qed

text \<open>The name and the task.\<close>

lemma named_process:
  assumes ok: "kernel_ok st P K q (sys # xs) (4 + k)" and T: "T \<in> set q" "fld tcb_process (tk_mem st) T = sys"
    and p: "held (pg_ks (tk_pg st)) P p 284" "elsewhere (tk_mem st) K q (sys # xs) p 284"
    and c: "pg_inv (tk_pg st) P c (4 + k)" "shares_tables (tk_pg st) P K c" "apart (tk_mem st) c p 284"
    and ap: "\<forall>a\<in>set q. apart (tk_mem st) c a 16384" "\<forall>y\<in>set (sys # xs). apart (tk_mem st) c y 284"
    and name: "cstring (tk_mem st) name z" "length z < 250" "regions_disjoint p 284 name 250"
  obtains task st5 m P' where
    "task_new p privileged entry_point esp (tk_with st (strncpy (tk_mem st) (p + process_name) name MAX_PATH_LEN)) = Some (task, st5)"
    "task \<noteq> NULL" "task \<notin> set q" "m = process_list_insert T p (set_fld process_task (tk_mem st5) p task)"
    "kernel_ok (tk_with st5 m) P' K (hd q # task # tl q) (sys # xs @ [p]) k"
    "pg_inv (tk_pg (tk_with st5 m)) P' c k" "shares_tables (tk_pg (tk_with st5 m)) P' K c" "kernel_view (tk_pg st) K (tk_pg (tk_with st5 m))"
    "\<forall>v n f. maps_range (tk_pg st) c v n f \<longrightarrow> maps_range (tk_pg (tk_with st5 m)) c v n f"
    "fld tcb_process m task = p" "fld process_task m p = task" "fld tcb_kernel_stack_pointer m task = start_stack task privileged"
    "map (\<lambda>i. load32 m (start_stack task privileged + 4 * word_of_nat i)) [0..<length (start_frame privileged entry_point esp)]
       = start_frame privileged entry_point esp"
    "fld process_pid m p = fld process_pid (tk_mem st) p" "fld process_page_directory m p = fld process_page_directory (tk_mem st) p"
    "cstring m (p + process_name) z" "processes st5 = processes st"
    "\<forall>r l. held (pg_ks (tk_pg st)) P r l \<longrightarrow> 0 < l \<longrightarrow> elsewhere (tk_mem st) K q (sys # xs) r l \<longrightarrow> regions_disjoint r l p 284 \<longrightarrow>
       held (pg_ks (tk_pg (tk_with st5 m))) P' r l \<and> apart m c r l = apart (tk_mem st) c r l \<and> (\<forall>x. in_region x r l \<longrightarrow> m x = tk_mem st x)"
proof -
  define st1 where "st1 = tk_with st (strncpy (tk_mem st) (p + process_name) name MAX_PATH_LEN)"
  have s1: "tk_mem st1 = strncpy (tk_mem st) (p + process_name) name MAX_PATH_LEN" "processes st1 = processes st"
    by (simp_all add: st1_def tk_with_def)
  note nm = kernel_ok_name [OF ok p c name, folded st1_def]
  have "regions_disjoint T 16384 p 284" using p(2) T(1) by (simp add: elsewhere_def)
  then have "tk_mem st1 x = tk_mem st x" if "in_region x T 16384" for x
    using that regions_disjointD strncpy_named(2) [OF name] by (fastforce simp: s1)
  then have T1: "fld tcb_process (tk_mem st1) T = sys" using fld_cong [of T 16384 "tk_mem st1" "tk_mem st" tcb_process] T(2) by simp
  have ap1: "\<forall>a\<in>set q. apart (tk_mem st1) c a 16384" "\<forall>y\<in>set (p # sys # xs). apart (tk_mem st1) c y 284" using nm(6) c(3) ap by simp_all
  have p1: "held (pg_ks (tk_pg st1)) P p 284" "elsewhere (tk_mem st1) K q (sys # xs) p 284" using nm(7,8) p by simp_all
  obtain task st5 m P' where t: "task_new p privileged entry_point esp st1 = Some (task, st5)" "task \<noteq> NULL" "task \<notin> set q"
    "m = process_list_insert T p (set_fld process_task (tk_mem st5) p task)"
    "kernel_ok (tk_with st5 m) P' K (hd q # task # tl q) (sys # xs @ [p]) k"
    "pg_inv (tk_pg (tk_with st5 m)) P' c k" "shares_tables (tk_pg (tk_with st5 m)) P' K c" "kernel_view (tk_pg st1) K (tk_pg (tk_with st5 m))"
    "\<forall>v n f. maps_range (tk_pg st1) c v n f \<longrightarrow> maps_range (tk_pg (tk_with st5 m)) c v n f"
    "fld tcb_process m task = p" "fld process_task m p = task" "fld tcb_kernel_stack_pointer m task = start_stack task privileged"
    "\<forall>i<length (start_frame privileged entry_point esp).
       load32 m (start_stack task privileged + 4 * word_of_nat i) = start_frame privileged entry_point esp ! i"
    "\<forall>j. unat j + 4 \<le> 256 \<or> 260 \<le> unat j \<and> unat j + 4 \<le> 276 \<longrightarrow> fld j m p = fld j (tk_mem st1) p"
    "processes st5 = processes st1"
    and fr: "\<forall>r l. held (pg_ks (tk_pg st1)) P r l \<longrightarrow> 0 < l \<longrightarrow> (\<forall>a\<in>set q. regions_disjoint a 16384 r l) \<longrightarrow>
       (\<forall>y\<in>set (p # sys # xs). regions_disjoint y 284 r l) \<longrightarrow>
       held (pg_ks (tk_pg (tk_with st5 m))) P' r l \<and> apart m c r l = apart (tk_mem st1) c r l \<and> (\<forall>x. in_region x r l \<longrightarrow> m x = tk_mem st1 x)"
    by (rule kernel_ok_attach [OF nm(1) T(1) T1 p1 nm(10,2,3) ap1, of privileged entry_point esp]) (rule that; assumption)
  have f: "fld process_pid m p = fld process_pid (tk_mem st) p" "fld process_page_directory m p = fld process_page_directory (tk_mem st) p"
    using t(14) strncpy_named(3) [OF name] by (simp_all add: s1)
  have "m x = tk_mem st1 x" if "in_region x p 256" for x by (rule fields_bytes [OF _ that]) (use t(14) in simp)
  then have str: "cstring m (p + process_name) z"
    by (intro cstring_cong [OF nm(9)]) (use name(2) field_region [of _ p 4 "Suc (length z)" 256] in auto)
  have frame: "map (\<lambda>i. load32 m (start_stack task privileged + 4 * word_of_nat i)) [0..<length (start_frame privileged entry_point esp)]
      = start_frame privileged entry_point esp" by (rule nth_equalityI) (use t(13) in simp_all)
  have kept: "held (pg_ks (tk_pg (tk_with st5 m))) P' r l \<and> apart m c r l = apart (tk_mem st) c r l \<and> (\<forall>x. in_region x r l \<longrightarrow> m x = tk_mem st x)"
    if r: "held (pg_ks (tk_pg st)) P r l" "0 < l" "elsewhere (tk_mem st) K q (sys # xs) r l" "regions_disjoint r l p 284" for r l
  proof -
    have "tk_mem st1 x = tk_mem st x" if "in_region x r l" for x
      using that regions_disjointD [OF r(4)] strncpy_named(2) [OF name] by (fastforce simp: s1)
    moreover have "held (pg_ks (tk_pg (tk_with st5 m))) P' r l \<and> apart m c r l = apart (tk_mem st1) c r l \<and> (\<forall>x. in_region x r l \<longrightarrow> m x = tk_mem st1 x)"
      using fr r nm(8) regions_disjoint_sym [of r l p 284] by (simp add: elsewhere_def)
    ultimately show ?thesis using nm(6) by simp
  qed
  show thesis
    by (rule that [OF t(1) [unfolded st1_def] t(2-7) kernel_view_trans [OF nm(4) t(8)] _ t(10-12) frame f str])
      (use t(9,15) nm(5) s1 kept in simp_all)
qed

section \<open>Properties\<close>

text \<open>
  C3: \<open>process_init\<close> creates a process. In a kernel in order, with enough blocks left, a name, a program in memory that the
  kernel maps and the stack's block mapped as well, it answers 0; the new process is at the place asked for, with its number
  and name, at the end of the list of processes, and its task comes next after the running one, with a kernel stack
  from which it starts at \<open>PROGRAM_BASE_VIRT_ADDR\<close>; the directory of the process, a block that was free and not the kernel's directory,
  shows the pages of the program there, the stack below its first stack pointer, and the kernel as the kernel sees it; the
  kernel's own directory has the entries it had, so the program is not mapped there; every region that was in use, other than the
  kernel's directory and tables and the structures of tasks and processes, such as the directory and the tables of
  another process, has its contents still and no part of the new directory in it; and the kernel is in order again, so
  that the next process can be created.
\<close>

theorem process_init_creates:
  fixes st :: task_state and memory_size :: u32
  defines "process \<equiv> next_block (pg_ks (tk_pg st)) 0" and "stack \<equiv> next_block (pg_ks (tk_pg st)) 1" and "n \<equiv> nblocks memory_size"
  assumes ok: "kernel_ok st P K q (sys # xs) (k + 10 + (n + 1023) div 1024)" and T: "T \<in> set q" "fld tcb_process (tk_mem st) T = sys"
    and name: "held (pg_ks (tk_pg st)) P name 250" "apart (tk_mem st) K name 250" "cstring (tk_mem st) name z" "length z < 250"
    and mem: "KERNEL_VIRTUAL_BASE \<le> memory" "memory < 0xFFC00000" "ptbl (tk_mem st) K (dir_index memory) \<noteq> 0"
    and stk: "KERNEL_VIRTUAL_BASE \<le> stack" "stack < 0xFFC00000" "ptbl (tk_mem st) K (dir_index stack) \<noteq> 0"
    and pm: "virtual_to_physical_addr (tk_pg st) K memory = Some pm" "paging_addr_is_page_aligned pm" "unat pm + 4096 * n < 2 ^ 32"
    and ps: "virtual_to_physical_addr (tk_pg st) K stack = Some ps" "paging_addr_is_page_aligned ps" "unat ps + 4096 < 2 ^ 32"
    and fits: "n \<le> 15360"
  shows "\<exists>task st' P'. process_init K T name memory memory_size privileged slot st = Some (0, st')
    \<and> kernel_ok st' P' K (hd q # task # tl q) (sys # xs @ [process]) k \<and> task \<notin> set q
    \<and> processes st' = (processes st)(slot := process)
    \<and> (let m = tk_mem st'; directory = fld process_page_directory m process in
         fld process_pid m process = word_of_nat slot \<and> cstring m (process + process_name) z
         \<and> fld process_task m process = task \<and> fld tcb_process m task = process
         \<and> fld tcb_kernel_stack_pointer m task = start_stack task privileged
         \<and> map (\<lambda>i. load32 m (start_stack task privileged + 4 * word_of_nat i))
             [0..<length (start_frame privileged PROGRAM_BASE_VIRT_ADDR (PROGRAM_STACK_TOP_VIRT_ADDR + PROGRAM_STACK_SIZE))]
           = start_frame privileged PROGRAM_BASE_VIRT_ADDR (PROGRAM_STACK_TOP_VIRT_ADDR + PROGRAM_STACK_SIZE)
         \<and> directory \<noteq> K \<and> P directory = None \<and> pg_inv (tk_pg st') P' directory k
         \<and> maps_range (tk_pg st') directory PROGRAM_BASE_VIRT_ADDR n pm
         \<and> maps_range (tk_pg st') directory PROGRAM_STACK_TOP_VIRT_ADDR 1 ps
         \<and> (\<forall>u. u < 0xFFC00000 \<longrightarrow> ptbl (tk_mem st) K (dir_index u) \<noteq> 0 \<longrightarrow>
              virtual_to_physical_addr (tk_pg st') directory u = virtual_to_physical_addr (tk_pg st) K u
              \<and> virtual_to_physical_addr (tk_pg st') K u = virtual_to_physical_addr (tk_pg st) K u)
         \<and> (\<forall>i<1024. pde m K i = pde (tk_mem st) K i \<and> ptbl m K i = ptbl (tk_mem st) K i)
         \<and> (\<forall>r l. held (pg_ks (tk_pg st)) P r l \<longrightarrow> 0 < l \<longrightarrow> elsewhere (tk_mem st) K q (sys # xs) r l \<longrightarrow>
              held (pg_ks (tk_pg st')) P' r l \<and> apart m directory r l \<and> (\<forall>x. in_region x r l \<longrightarrow> m x = tk_mem st x)))"
proof -
  let ?s = "pg_ks (tk_pg st)" and ?V = PROGRAM_BASE_VIRT_ADDR and ?S = PROGRAM_STACK_TOP_VIRT_ADDR
  let ?e = "?S + PROGRAM_STACK_SIZE"
  define st0 where "st0 = st\<lparr>processes := (processes st)(slot := process)\<rparr>"
  have s0: "tk_pg st0 = tk_pg st" by (simp add: st0_def)
  have ok0: "kernel_ok st0 P K q (sys # xs) (4 + k + 6 + (n + 1023) div 1024)"
    using ok unfolding st0_def kernel_ok_processes by (simp add: add.commute add.left_commute)
  obtain ks1 ks3 m3 c pg P1 where a: "kzalloc ?s sizeof_process = Some (process, ks1)" "process \<noteq> NULL"
    "kzalloc (ks1\<lparr>ks_mem := new_record (ks_mem ks1) process (word_of_nat slot) memory_size memory\<rparr>) PROGRAM_STACK_SIZE = Some (stack, ks3)" "stack \<noteq> NULL"
    "m3 = set_fld process_stack (ks_mem ks3) process stack" "process_map_memory K process (tk_pg (tk_heap (ks3\<lparr>ks_mem := m3\<rparr>) st0)) = Some (0, pg)"
    "kernel_ok (st0\<lparr>tk_pg := pg\<rparr>) P1 K q (sys # xs) (4 + k)" "fld process_page_directory (pg_mem pg) process = c" "fld process_pid (pg_mem pg) process = word_of_nat slot"
    and c: "pg_inv pg P1 c (4 + k)" "shares_tables pg P1 K c" "kernel_view (tk_pg st) K pg" "maps_range pg c ?V n pm" "maps_range pg c ?S 1 ps"
    "held (pg_ks pg) P1 process 284" "elsewhere (pg_mem pg) K q (sys # xs) process 284" "apart (pg_mem pg) c process 284"
    "\<forall>a\<in>set q. apart (pg_mem pg) c a 16384" "\<forall>y\<in>set (sys # xs). apart (pg_mem pg) c y 284"
    "cstring (pg_mem pg) name z" "regions_disjoint process 284 name 250"
    "\<forall>r l x. held ?s P r l \<longrightarrow> 0 < l \<longrightarrow> apart (tk_mem st) K r l \<longrightarrow> in_region x r l \<longrightarrow> pg_mem pg x = tk_mem st x"
    "\<forall>r l. held ?s P r l \<longrightarrow> 0 < l \<longrightarrow> apart (tk_mem st) K r l \<longrightarrow> held (pg_ks pg) P1 r l \<and> apart (pg_mem pg) c r l \<and> apart (pg_mem pg) K r l \<and> regions_disjoint r l process 284"
    "P c = None"
    by (rule mapped_process [OF ok0 [unfolded n_def], of process name z memory stack pm ps "word_of_nat slot", unfolded s0, folded n_def,
          OF process_def [THEN meta_eq_to_obj_eq] name mem stk stack_def [THEN meta_eq_to_obj_eq] pm ps fits])
      (rule that; assumption)
  define st4 where "st4 = st0\<lparr>tk_pg := pg\<rparr>"
  have s4: "tk_pg st4 = pg" "processes st4 = (processes st)(slot := process)" by (simp_all add: st4_def st0_def)
  have T4: "fld tcb_process (pg_mem pg) T = sys"
    using fld_cong [of T 16384 "pg_mem pg" "tk_mem st" tcb_process] c(13) kernel_okD(7,11) [OF ok T(1)] T(2) by simp
  obtain task st5 m P' where t:
    "task_new process privileged ?V ?e (tk_with st4 (strncpy (pg_mem pg) (process + process_name) name MAX_PATH_LEN)) = Some (task, st5)"
    "task \<noteq> NULL" "task \<notin> set q" "m = process_list_insert T process (set_fld process_task (tk_mem st5) process task)"
    "kernel_ok (tk_with st5 m) P' K (hd q # task # tl q) (sys # xs @ [process]) k"
    "pg_inv (tk_pg (tk_with st5 m)) P' c k" "shares_tables (tk_pg (tk_with st5 m)) P' K c" "kernel_view pg K (tk_pg (tk_with st5 m))"
    "\<forall>v n f. maps_range pg c v n f \<longrightarrow> maps_range (tk_pg (tk_with st5 m)) c v n f"
    "fld tcb_process m task = process" "fld process_task m process = task" "fld tcb_kernel_stack_pointer m task = start_stack task privileged"
    "map (\<lambda>i. load32 m (start_stack task privileged + 4 * word_of_nat i)) [0..<length (start_frame privileged ?V ?e)] = start_frame privileged ?V ?e"
    "fld process_pid m process = word_of_nat slot" "fld process_page_directory m process = c"
    "cstring m (process + process_name) z" "processes st5 = (processes st)(slot := process)"
    and fr: "\<forall>r l. held (pg_ks pg) P1 r l \<longrightarrow> 0 < l \<longrightarrow> elsewhere (pg_mem pg) K q (sys # xs) r l \<longrightarrow> regions_disjoint r l process 284 \<longrightarrow>
       held (pg_ks (tk_pg (tk_with st5 m))) P' r l \<and> apart m c r l = apart (pg_mem pg) c r l \<and> (\<forall>x. in_region x r l \<longrightarrow> m x = pg_mem pg x)"
    by (rule named_process [OF a(7) [folded st4_def] T(1), unfolded s4, OF T4 c(6,7,1,2,8-11) name(4) c(12), of privileged ?V ?e, unfolded s4 a(8,9)])
      (rule that; assumption)
  define st' where "st' = tk_with st5 m"
  have m': "tk_mem st' = m" "processes st' = (processes st)(slot := process)" using t(17) by (simp_all add: st'_def tk_with_def)
  have run: "process_init K T name memory memory_size privileged slot st = Some (0, st')"
    using a(1-6) t(1,2,4)
    by (simp add: process_init_def Let_def tk_set_def tk_with_def tk_heap_def new_record_def st0_def st4_def st'_def)
  have kernel: "virtual_to_physical_addr (tk_pg st') c u = virtual_to_physical_addr (tk_pg st) K u
      \<and> virtual_to_physical_addr (tk_pg st') K u = virtual_to_physical_addr (tk_pg st) K u"
    if "u < 0xFFC00000" "ptbl (tk_mem st) K (dir_index u) \<noteq> 0" for u
    using kernel_viewD [OF kernel_view_trans [OF c(3) t(8)] that] shared_translation [OF t(7), of u] by (simp add: st'_def)
  have "maps_range (tk_pg st') c ?V n pm" "maps_range (tk_pg st') c ?S 1 ps" using t(9) c(4,5) by (simp_all add: st'_def)
  moreover have "pde m K i = pde (tk_mem st) K i \<and> ptbl m K i = ptbl (tk_mem st) K i" if "i < 1024" for i
    using kernel_view_trans [OF c(3) t(8)] that m' unfolding kernel_view_def st'_def by simp
  moreover have "held (pg_ks (tk_pg st')) P' r l \<and> apart m c r l \<and> (\<forall>x. in_region x r l \<longrightarrow> m x = tk_mem st x)"
    if r: "held ?s P r l" "0 < l" "elsewhere (tk_mem st) K q (sys # xs) r l" for r l
  proof -
    have ap: "apart (tk_mem st) K r l" using r(3) by (simp add: elsewhere_def)
    note 1 = c(14) [rule_format, OF r(1,2) ap]
    have "elsewhere (pg_mem pg) K q (sys # xs) r l" using r(3) 1 by (simp add: elsewhere_def)
    then have "held (pg_ks (tk_pg (tk_with st5 m))) P' r l \<and> apart m c r l = apart (pg_mem pg) c r l \<and> (\<forall>x. in_region x r l \<longrightarrow> m x = pg_mem pg x)"
      using fr 1 r(2) by blast
    moreover have "\<forall>x. in_region x r l \<longrightarrow> pg_mem pg x = tk_mem st x" using c(13) r(1,2) ap by blast
    ultimately show ?thesis using 1 by (simp add: st'_def)
  qed
  moreover have "c \<noteq> K" using c(2) by (auto simp: shares_tables_def Let_def apart_def regions_disjoint_def)
  ultimately show ?thesis
    unfolding m' Let_def t(15)
    by (intro exI [of _ task] exI [of _ st'] exI [of _ P'] conjI allI impI)
      (use run t(3,5,6,10-16) m' kernel c(15) in \<open>simp_all add: st'_def\<close>)
qed

text \<open>A kernel after its start, with a name in a block of its own.\<close>

lemma held_ext:
  assumes inv: "kheap_inv s P" and h: "held s P p n" "p = 0 \<or> 2 ^ 32 \<le> unat p + n" and a: "in_region a p n"
  shows "kheap_ext s a"
proof -
  obtain A where A: "heap_inv (ks_mem s) (ks_heap s) A" "P = live_map (ks_heap s) A"
    and top: "\<forall>b n. A b = Some n \<longrightarrow> b + n < unat (ht_len (hp_table (ks_heap s)))" using inv by (auto simp: kheap_inv_def)
  have False if l: "P p = Some l" "n \<le> l" for l
  proof -
    from live_map_Some [OF A(1) l(1) [unfolded A(2)]] obtain b k where b: "p = block_addr (ks_heap s) b" "l = 4096 * k" "A b = Some k" by blast
    have bk: "b + k < unat (ht_len (hp_table (ks_heap s)))" using top b(3) by blast
    note lay = heap_layoutD [OF heap_invD(1) [OF A(1)]]
    have "unat (word_of_nat (4096 * b) :: u32) = 4096 * b" using bk lay(6) by (intro unat_word_of_nat_lt) simp
    then have u: "unat p = unat (hp_base_addr (ks_heap s)) + 4096 * b"
      using bk lay(6) by (simp add: b(1) block_addr_def unat_word_ariths del: of_nat_mult)
    then have "unat p + l < 2 ^ 32" using bk lay(6) b(2) by simp
    then show False using h(2) l(2) u lay(4) by auto
  qed
  then show ?thesis using h(1) a unfolding held_def by blast
qed

lemma demo_started:
  fixes K T :: addr
  defines "K \<equiv> 0xC0120000" and "T \<equiv> 0xC0124000"
  obtains st P sys idle task name where "kernel_ok st P K [T, task] [sys, idle] 4080" "fld tcb_process (tk_mem st) T = sys"
    "\<forall>u. 0xC0000000 \<le> unat u \<longrightarrow> unat u < 0xC0400000 \<longrightarrow>
       ptbl (tk_mem st) K (dir_index u) \<noteq> 0 \<and> virtual_to_physical_addr (tk_pg st) K u = Some (u - 0xC0000000)"
    "held (pg_ks (tk_pg st)) P name 250" "apart (tk_mem st) K name 250" "tk_mem st name = 0"
    "\<forall>a. unat a < 0xC0000000 \<or> 0xC1134234 \<le> unat a \<longrightarrow> kheap_ext (pg_ks (tk_pg st)) a"
proof -
  obtain ks where ks: "kheap_inv ks Map.empty" "kheap_room ks 4094" "\<forall>a < 0xC0131234. kheap_ext ks a"
    "\<forall>a. 0xC1134234 \<le> unat a \<longrightarrow> kheap_ext ks a"
    by (rule kheap_init_geometry [of "0xC0131234" "\<lparr>ks_mem = \<lambda>_. 0, ks_heap = demo_heap\<rparr>"]) simp_all
  define pg where "pg = \<lparr>pg_ks = ks, pg_current_directory = 0, pg_bitmap_begin = 0, pg_bitmap_end = 0,
    pg_cr0 = 0, pg_cr3 = 0, pg_cr4 = PSE_BIT, pg_interrupts = False,
    pg_term = \<lparr>video_memory = \<lambda>_. 0, terminal_row = 0, terminal_column = 0\<rparr>\<rparr>"
  have low: "held ks Map.empty p n" if "unat p + n \<le> unat (0xC0131234 :: addr)" for p n
    using ks(3) below_end [OF _ that] by (simp add: held_def)
  have high: "held ks Map.empty 0xC1134234 0x3EECBDCC"
  proof -
    have "0xC1134234 \<le> unat a" if "in_region a 0xC1134234 0x3EECBDCC" for a using that by (simp add: in_region_def unat_sub_if' split: if_splits)
    then show ?thesis using ks(4) by (simp add: held_def)
  qed
  have hk: "kheap_inv (pg_ks pg) Map.empty" "kheap_room (pg_ks pg) (4088 + 6)" "held (pg_ks pg) Map.empty K 4100" "pg_cr4 pg AND PSE_BIT \<noteq> 0"
    using ks(1,2) low [of K 4100] by (simp_all add: pg_def K_def PSE_BIT_def)
  obtain pg1 P1 where p1: "pg_inv pg1 P1 K 4088" "small_pages (pg_mem pg1) K" "pg_current_directory pg1 = K" "user_space_empty (pg_mem pg1) K"
    "\<forall>u. 0xC0000000 \<le> unat u \<longrightarrow> unat u < 0xC0400000 \<longrightarrow>
       ptbl (pg_mem pg1) K (dir_index u) \<noteq> 0 \<and> virtual_to_physical_addr pg1 K u = Some (u - 0xC0000000)"
    and old: "\<forall>q n. held (pg_ks pg) Map.empty q n \<longrightarrow> 0 < n \<longrightarrow> regions_disjoint K 4100 q n \<longrightarrow> held (pg_ks pg1) P1 q n \<and> apart (pg_mem pg1) K q n"
    by (rule init_paging [OF hk, of "0x5000"]) (rule that; assumption)
  have o: "held (pg_ks pg1) P1 T 16384" "apart (pg_mem pg1) K T 16384" "held (pg_ks pg1) P1 0 0xC0000000" "held (pg_ks pg1) P1 0xC1134234 0x3EECBDCC"
    using old low [of T 16384] low [of 0 "0xC0000000"] high by (simp_all add: pg_def K_def T_def regions_disjoint_def)
  define st0 where "st0 = \<lparr>tk_pg = pg1, tk_gdt = \<lparr>gdt_native = [], gdt_segments = [], tss_global = zero_tss, GDT_PTR_limit = 0, GDT_PTR_base = 0\<rparr>,
    current_task = NULL, current_process = NULL, processes = \<lambda>_. NULL\<rparr>"
  define cpu where "cpu = \<lparr>cs_tk = st0, cs_dev = (0 :: nat), idt_descriptors = [], idtr_descriptor = \<lparr>idtr_limit = 0, idtr_base = 0\<rparr>,
    isr_handlers = replicate 256 (Some no_int_handler)\<rparr>"
  have s0: "tk_pg (cs_tk cpu) = pg1" by (simp add: st0_def cpu_def)
  have int: "isr_handlers cpu ! 20 = Some no_int_handler" "frame_on_stack T (replicate 15 0) (T + 0x3F00)"
    by (simp_all add: cpu_def frame_on_stack_def)
  obtain sys idle task st1 P2 where t: "kernel_ok st1 P2 K [T, task] [sys, idle] 4081" "fld tcb_process (tk_mem st1) T = sys"
    "spares {(T, 16384)} (pg_ks pg1) P1 (pg_ks (tk_pg st1)) P2"
    "\<forall>u. unat u < 0xFFC00000 \<longrightarrow> ptbl (pg_mem pg1) K (dir_index u) \<noteq> 0 \<longrightarrow> ptbl (tk_mem st1) K (dir_index u) \<noteq> 0
       \<and> virtual_to_physical_addr (tk_pg st1) K u = virtual_to_physical_addr pg1 K u"
    by (rule tasking_ok [of cpu P1 K 4081 T, unfolded s0, OF _ p1(3,2,4) o(1) _ o(2) int])
      (use p1(1) in \<open>simp_all add: T_def\<close>)
  have ok1: "kernel_ok st1 P2 K [T, task] [sys, idle] (Suc 4080)" and sz: "(0 :: u32) < 250" "nblocks (250 :: u32) = 1" using t(1) by simp_all
  obtain name ks' where n: "P2 name = None" "spares {} (pg_ks (tk_pg st1)) P2 ks' (P2(name \<mapsto> 4096))"
    "kheap_inv ks' (P2(name \<mapsto> 4096))" "kheap_room ks' 4080" "elsewhere (tk_mem st1) K [T, task] [sys, idle] name 4096" "ks_mem ks' name = 0"
    by (rule kernel_ok_alloc [OF ok1 sz]) (rule that; assumption)
  let ?P = "P2(name \<mapsto> 4096)" and ?st = "tk_heap ks' st1"
  note k = kernel_ok_spares [OF t(1) n(2) ball_empty [THEN iffD2, OF TrueI] n(3,4)]
  have st: "pg_ks (tk_pg ?st) = ks'" by (simp add: tk_heap_def)
  have "held ks' ?P 0 0xC0000000" "held ks' ?P 0xC1134234 0x3EECBDCC" "held ks' ?P T 16384"
    using o(1,3,4) t(3) n(2) kernel_okD(11) [OF t(1), of T] by (simp_all add: spares_def T_def regions_disjoint_def)
  moreover have "in_region a 0xC1134234 0x3EECBDCC" if "0xC1134234 \<le> unat a" for a
    using that unat_lt_2p32 [of a] by (simp add: in_region_def unat_sub_if')
  moreover have "in_region a 0 0xC0000000" if "unat a < 0xC0000000" for a using that by (simp add: in_region_def)
  ultimately have ext: "\<forall>a. unat a < 0xC0000000 \<or> 0xC1134234 \<le> unat a \<longrightarrow> kheap_ext ks' a"
    using held_ext [OF n(3), of 0 "0xC0000000"] held_ext [OF n(3), of "0xC1134234" "0x3EECBDCC"] by auto
  have T': "fld tcb_process (ks_mem ks') T = sys"
    using fld_cong [of T 16384 "ks_mem ks'" "tk_mem st1" tcb_process] n(2) kernel_okD(11) [OF t(1), of T] t(2) by (simp add: spares_def)
  have "apart (tk_mem st1) K name 250"
    using n(5) regions_disjoint_mono [of _ _ name 4096 _ 250] by (auto simp: elsewhere_def apart_def)
  then have nm: "held ks' ?P name 250" "apart (ks_mem ks') K name 250" using k(2) by (simp_all add: held_def)
  have "\<forall>u. 0xC0000000 \<le> unat u \<longrightarrow> unat u < 0xC0400000 \<longrightarrow>
       ptbl (ks_mem ks') K (dir_index u) \<noteq> 0 \<and> virtual_to_physical_addr (tk_pg ?st) K u = Some (u - 0xC0000000)"
    using p1(5) t(4) k(3) by simp
  then show thesis using that [of ?st ?P task sys idle name, unfolded st, folded K_def T_def] k(1) T' nm n(6) ext by simp
qed

theorem process_init_creates_witness:
  "\<exists>st name st' process task. process_init 0xC0120000 0xC0124000 name 0xC0200000 8000 False 2 st = Some (0, st')
     \<and> fld process_page_directory (tk_mem st') process \<noteq> 0xC0120000 \<and> processes st' 2 = process \<and> fld process_task (tk_mem st') process = task \<and> fld tcb_process (tk_mem st') task = process
     \<and> virtual_to_physical_addr (tk_pg st') (fld process_page_directory (tk_mem st') process) 0x401123 = Some 0x201123"
proof -
  obtain st P sys idle task name where d: "kernel_ok st P 0xC0120000 [0xC0124000, task] [sys, idle] 4080" "fld tcb_process (tk_mem st) 0xC0124000 = sys"
    "\<forall>u. 0xC0000000 \<le> unat u \<longrightarrow> unat u < 0xC0400000 \<longrightarrow>
       ptbl (tk_mem st) 0xC0120000 (dir_index u) \<noteq> 0 \<and> virtual_to_physical_addr (tk_pg st) 0xC0120000 u = Some (u - 0xC0000000)"
    "held (pg_ks (tk_pg st)) P name 250" "apart (tk_mem st) 0xC0120000 name 250" "tk_mem st name = 0"
    "\<forall>a. unat a < 0xC0000000 \<or> 0xC1134234 \<le> unat a \<longrightarrow> kheap_ext (pg_ks (tk_pg st)) a"
    by (rule demo_started)
  let ?stack = "next_block (pg_ks (tk_pg st)) 1"
  have room: "kheap_room (pg_ks (tk_pg st)) (1 + 4079)" using kernel_okD(10) [OF d(1)] by simp
  note b = next_block_bounds [OF kernel_okD(9) [OF d(1)] room d(7)]
  have u: "0xC0000000 \<le> unat ?stack" "unat ?stack < 0xC0400000" using b by simp_all
  have nb: "nblocks (8000 :: u32) = 2" by simp
  have ok: "kernel_ok st P 0xC0120000 [0xC0124000, task] [sys, idle] (4069 + 10 + (nblocks (8000 :: u32) + 1023) div 1024)"
    unfolding nb using d(1) by simp
  have ps: "unat (?stack - 0xC0000000) = unat ?stack - 0xC0000000" using u(1) by (subst unat_sub) (simp_all add: word_le_nat_alt)
  have "(unat ?stack - 0xC0000000) mod 4096 = 0" using b(3) u(1) mod_eq_dvd_iff_nat [of "0xC0000000" "unat ?stack" 4096] by simp
  then have al: "paging_addr_is_page_aligned (?stack - 0xC0000000)" unfolding page_aligned_iff aligned_unat ps .
  have mem: "ptbl (tk_mem st) 0xC0120000 (dir_index 0xC0200000) \<noteq> 0" "virtual_to_physical_addr (tk_pg st) 0xC0120000 0xC0200000 = Some 0x200000"
    "ptbl (tk_mem st) 0xC0120000 (dir_index ?stack) \<noteq> 0" "virtual_to_physical_addr (tk_pg st) 0xC0120000 ?stack = Some (?stack - 0xC0000000)"
    using spec [OF d(3), of "0xC0200000"] spec [OF d(3), of ?stack] u by simp_all
  have pre: "0xC0124000 \<in> set [0xC0124000, task]" "cstring (tk_mem st) name []" "length ([] :: u8 list) < 250" "KERNEL_VIRTUAL_BASE \<le> 0xC0200000" "(0xC0200000 :: u32) < 0xFFC00000"
    "KERNEL_VIRTUAL_BASE \<le> ?stack" "?stack < 0xFFC00000" "paging_addr_is_page_aligned 0x200000" "unat (0x200000 :: u32) + 4096 * nblocks (8000 :: u32) < 2 ^ 32"
    "unat (?stack - 0xC0000000) + 4096 < 2 ^ 32" "nblocks (8000 :: u32) \<le> 15360"
    using d(6) u ps by (simp_all add: KERNEL_VIRTUAL_BASE_def word_le_nat_alt word_less_nat_alt page_aligned_iff)
  let ?p = "next_block (pg_ks (tk_pg st)) 0"
  obtain task' st' where r: "process_init 0xC0120000 0xC0124000 name 0xC0200000 8000 False 2 st = Some (0, st')"
    "processes st' = (processes st)(2 := ?p)" "fld process_task (tk_mem st') ?p = task'" "fld tcb_process (tk_mem st') task' = ?p"
    "maps_range (tk_pg st') (fld process_page_directory (tk_mem st') ?p) PROGRAM_BASE_VIRT_ADDR 2 0x200000"
    "fld process_page_directory (tk_mem st') ?p \<noteq> 0xC0120000"
    using process_init_creates [OF ok pre(1) d(2,4,5) pre(2-5) mem(1) pre(6,7) mem(3,2) pre(8,9) mem(4) al pre(10,11), where privileged = False and slot = 2]
    unfolding nb Let_def by blast
  have "virtual_to_physical_addr (tk_pg st') (fld process_page_directory (tk_mem st') ?p) 0x401123 = Some 0x201123"
    using r(5) by (simp add: maps_range_def PROGRAM_BASE_VIRT_ADDR_def spec [of _ "0x401123"])
  then show ?thesis using r(1-4,6) by (intro exI [of _ st] exI [of _ name] exI [of _ st'] exI [of _ ?p] exI [of _ task']) simp
qed

end
