(* ===== verification/Kernel.thy ===== *)
theory Kernel
  imports Idt Process
begin

text \<open>
  The start of the kernel, \<^verbatim>\<open>src/kernel/kernel.c\<close>: the interrupt controllers are set up, then every component in
  turn, until \<open>kernel_main\<close> enters its endless loop. The state joins processor, tasks and heap with the file layer;
  the drive behind the file system is part of \<open>'f\<close>, the interrupt controllers are part of \<open>'d\<close>. The link addresses,
  the entry points of the interrupts, the tables of file system operations, the delay, and the place
  and the registers of the frame that the software interrupt in \<open>init_system_process\<close> pushes are arguments. The model is
  sequential: no device interrupts it once \<open>tasking_init\<close> has turned interrupts on.
\<close>

section \<open>The code\<close>

definition PIC1_CMD_PORT :: u16 where "PIC1_CMD_PORT = 0x20"
definition PIC1_DATA_PORT :: u16 where "PIC1_DATA_PORT = 0x21"
definition PIC2_CMD_PORT :: u16 where "PIC2_CMD_PORT = 0xA0"
definition PIC2_DATA_PORT :: u16 where "PIC2_DATA_PORT = 0xA1"
definition PIC_ICW1_INIT :: u8 where "PIC_ICW1_INIT = 0x10"
definition PIC_ICW1_ICW4 :: u8 where "PIC_ICW1_ICW4 = 0x01"
definition PIC_ICW4_8086_MODE :: u8 where "PIC_ICW4_8086_MODE = 0x01"
definition PIC_ICW3_SLAVE_AT_IRQ2 :: u8 where "PIC_ICW3_SLAVE_AT_IRQ2 = 0x04"
definition PIC_ICW3_SLAVE_ID :: u8 where "PIC_ICW3_SLAVE_ID = 0x02"

definition remap_master_pic_C :: "'d port_io \<Rightarrow> ('d \<Rightarrow> 'd) \<Rightarrow> 'd \<Rightarrow> 'd" where
  "remap_master_pic_C io io_delay d0 =
     (let d1 = io_delay (outb io PIC1_CMD_PORT (PIC_ICW1_INIT OR PIC_ICW1_ICW4) d0);
          d2 = io_delay (outb io PIC2_CMD_PORT (PIC_ICW1_INIT OR PIC_ICW1_ICW4) d1);
          d3 = io_delay (outb io PIC1_DATA_PORT 0x20 d2);
          d4 = io_delay (outb io PIC2_DATA_PORT 0x28 d3);
          d5 = io_delay (outb io PIC1_DATA_PORT PIC_ICW3_SLAVE_AT_IRQ2 d4);
          d6 = io_delay (outb io PIC2_DATA_PORT PIC_ICW3_SLAVE_ID d5);
          d7 = io_delay (outb io PIC1_DATA_PORT PIC_ICW4_8086_MODE d6);
          d8 = io_delay (outb io PIC2_DATA_PORT PIC_ICW4_8086_MODE d7);
          d9 = outb io PIC1_DATA_PORT 0x0 d8
      in outb io PIC2_DATA_PORT 0x0 d9)"

text \<open>A line of the banner in colour 2, in which \<open>%\<close> stands for the backslash, and its line break.\<close>

definition splash_line :: "string \<Rightarrow> terminal \<Rightarrow> terminal" where
  "splash_line s t =
     fold (\<lambda>c. terminal_put_char (if c = CHR ''%'' then 0x5C else of_char c) 2) (s @ [CHR 0x0A]) t"

definition kernel_splash :: "terminal \<Rightarrow> terminal" where
  "kernel_splash t =
     (let t0 = print_literal (replicate 5 (CHR 0x0A)) t;
          t1 = splash_line ''                  _                                _    ___  __'' t0;
          t2 = splash_line ''                 /_% __   __ ___    ___  __ _   __| |  /___%/ _%'' t1;
          t3 = splash_line ''                //_%%% % / // _ %  / __|/ _` | / _` | //  //% %'' t2;
          t4 = splash_line ''               /  _  %% V /| (_) || (__| (_| || (_| |/ %_// _% %'' t3
      in splash_line ''               %_/ %_/ %_/  %___/  %___|%__,_| %__,_|%___/  %__/'' t4)"

partial_function (option) print_path_loop :: "mem \<Rightarrow> addr \<Rightarrow> terminal \<Rightarrow> terminal option" where
  "print_path_loop m part t =
     (if part \<noteq> NULL
      then case print_str m (load32 m part) t of None \<Rightarrow> None
           | Some t1 \<Rightarrow> print_path_loop m (load32 m (part + 4)) (print_literal [CHR 0x0A] t1)
      else Some t)"

definition print_path :: "mem \<Rightarrow> addr \<Rightarrow> terminal \<Rightarrow> terminal option" where
  "print_path m path t =
     (let part = load32 m (path + 4)
      in case print_itoa (load32 m path) (print_literal ''Drive: '' t) of None \<Rightarrow> None
         | Some t1 \<Rightarrow> print_path_loop m part (print_char 10 t1))"

text \<open>The link addresses, and the state of the whole kernel.\<close>

record kernel_layout =
  lk_kernel_end :: addr
  lk_boot_page_directory :: addr
  lk_kernel_page_directory :: addr
  lk_tss :: addr
  lk_gdt_native :: addr
  lk_system_stack_bottom :: addr
  lk_idt_descriptors :: addr
  lk_isr_table :: "nat \<Rightarrow> u32"
  lk_fat16_operations :: addr
  lk_disks :: addr
  lk_system_task :: addr
  lk_idle_function :: addr

record ('f, 'd) kernel_state =
  kn_cpu :: "'d cpu_state"
  kn_fl :: "'f file_state"

definition kn_paging :: "(paging_state \<Rightarrow> paging_state option) \<Rightarrow> ('f, 'd) kernel_state \<Rightarrow> ('f, 'd) kernel_state option" where
  "kn_paging f st =
     (case f (tk_pg (cs_tk (kn_cpu st))) of None \<Rightarrow> None
      | Some pg \<Rightarrow> Some (st\<lparr>kn_cpu := (kn_cpu st)\<lparr>cs_tk := (cs_tk (kn_cpu st))\<lparr>tk_pg := pg\<rparr>\<rparr>\<rparr>))"

definition kn_term :: "(terminal \<Rightarrow> terminal) \<Rightarrow> ('f, 'd) kernel_state \<Rightarrow> ('f, 'd) kernel_state option" where
  "kn_term f = kn_paging (\<lambda>pg. Some (pg\<lparr>pg_term := f (pg_term pg)\<rparr>))"

definition kn_heap :: "(kstate \<Rightarrow> kstate option) \<Rightarrow> ('f, 'd) kernel_state \<Rightarrow> ('f, 'd) kernel_state option" where
  "kn_heap f = kn_paging (\<lambda>pg. map_option (\<lambda>ks. pg\<lparr>pg_ks := ks\<rparr>) (f (pg_ks pg)))"

definition kn_files :: "('f file_state \<Rightarrow> ('a \<times> 'f file_state) option) \<Rightarrow> ('f, 'd) kernel_state \<Rightarrow> ('f, 'd) kernel_state option" where
  "kn_files f st =
     (case on_files f \<lparr>sy_tk = cs_tk (kn_cpu st), sy_fl = kn_fl st\<rparr> of None \<Rightarrow> None
      | Some (r, sy) \<Rightarrow> Some (st\<lparr>kn_cpu := (kn_cpu st)\<lparr>cs_tk := sy_tk sy\<rparr>, kn_fl := sy_fl sy\<rparr>))"

text \<open>\<open>disk_init\<close> on the one disk of the file layer, probed for the registered file systems.\<close>

definition kn_disk_init :: "(addr \<Rightarrow> 'f filesystem_operations_t) \<Rightarrow> addr \<Rightarrow> 'f file_state \<Rightarrow> (unit \<times> 'f file_state) option" where
  "kn_disk_init F disks_addr fl =
     (case disk_init (\<lambda>d fl1. case fs_probe_fs F disks_addr (fl1\<lparr>fl_disk := d\<rparr>) of None \<Rightarrow> None
             | Some (ops, fl2) \<Rightarrow> Some (ops, fl_disk fl2, fl2)) fl of None \<Rightarrow> None
      | Some (d, fl3) \<Rightarrow> Some ((), fl3\<lparr>fl_disk := d\<rparr>))"

text \<open>\<open>kernel_main\<close> up to its endless loop.\<close>

definition kernel_main ::
  "'d port_io \<Rightarrow> ('d \<Rightarrow> 'd) \<Rightarrow> (addr \<Rightarrow> 'f filesystem_operations_t) \<Rightarrow> u32 list \<Rightarrow> addr \<Rightarrow> kernel_layout
   \<Rightarrow> ('f, 'd) kernel_state \<Rightarrow> ('f, 'd) kernel_state option" where
  "kernel_main io io_delay F regs frame lk st =
     (let st1 = st\<lparr>kn_cpu := (kn_cpu st)\<lparr>cs_dev := remap_master_pic_C io io_delay (cs_dev (kn_cpu st))\<rparr>\<rparr>
      in case gdt_init (lk_tss lk) (lk_gdt_native lk) (lk_system_stack_bottom lk) (tk_gdt (cs_tk (kn_cpu st1))) of None \<Rightarrow> None
         | Some gdt \<Rightarrow>
             let st2 = st1\<lparr>kn_cpu := (kn_cpu st1)\<lparr>cs_tk := (cs_tk (kn_cpu st1))\<lparr>tk_gdt := gdt\<rparr>\<rparr>\<rparr>
             in case idt_init (lk_idt_descriptors lk) (lk_isr_table lk) (kn_cpu st2) of None \<Rightarrow> None
                | Some cpu \<Rightarrow>
                    Option.bind (kn_term terminal_init (st2\<lparr>kn_cpu := cpu\<rparr>)) (\<lambda>st3.
                    Option.bind (kn_heap (kheap_init (lk_kernel_end lk)) st3) (\<lambda>st4.
                    Option.bind (kn_paging (paging_init (lk_boot_page_directory lk) (lk_kernel_page_directory lk)) st4) (\<lambda>st5.
                    Option.bind (kn_term terminal_init st5) (\<lambda>st6.
                    Option.bind (kn_term kernel_splash st6) (\<lambda>st7.
                    Option.bind (kn_files (\<lambda>fl. Some (file_table_init fl)) st7) (\<lambda>st8.
                    Option.bind (kn_files (\<lambda>fl. Some (fs_init (lk_fat16_operations lk) fl)) st8) (\<lambda>st9.
                    Option.bind (kn_files (kn_disk_init F (lk_disks lk)) st9) (\<lambda>st10.
                    case tasking_init io regs frame (lk_kernel_page_directory lk) (lk_system_task lk) (lk_idle_function lk)
                           (kn_cpu st10) of None \<Rightarrow> None
                    | Some cpu1 \<Rightarrow>
                        kn_term (print_literal ([CHR 0x0A, CHR 0x0A] @ ''Done, for now'' @ [CHR 0x0A])) (st10\<lparr>kn_cpu := cpu1\<rparr>))))))))))"

section \<open>The interrupt controllers\<close>

text \<open>
  An 8259A controller as its data sheet describes the initialisation: a command with bit 4 set is ICW1 and starts it, clears
  the mask and the features that ICW4 selects, and says whether ICW4 follows (bit 0), whether the controller is alone and
  gets no ICW3 (bit 1), and whether the lines are level-triggered (bit 3). The bytes at the data port are then ICW2,
  ICW3 if there is another controller, ICW4 if it was announced, and after these the mask. The other commands do not
  touch what is kept here.
\<close>

datatype pic_phase = Expect_ICW2 | Expect_ICW3 | Expect_ICW4 | Operating

record pic =
  pic_phase :: pic_phase
  pic_needs_icw4 :: bool
  pic_single :: bool
  pic_level :: bool
  pic_base :: u8
  pic_cascade :: u8
  pic_mode :: u8
  pic_mask :: u8

definition pic_command :: "u8 \<Rightarrow> pic \<Rightarrow> pic" where
  "pic_command v p =
     (if bit v 4 then p\<lparr>pic_phase := Expect_ICW2, pic_needs_icw4 := bit v 0, pic_single := bit v 1, pic_level := bit v 3,
                       pic_mode := 0, pic_mask := 0\<rparr>
      else p)"

definition pic_data :: "u8 \<Rightarrow> pic \<Rightarrow> pic" where
  "pic_data v p = (let after_icw3 = (if pic_needs_icw4 p then Expect_ICW4 else Operating) in case pic_phase p of
       Expect_ICW2 \<Rightarrow> p\<lparr>pic_base := v AND 0xF8, pic_phase := if pic_single p then after_icw3 else Expect_ICW3\<rparr>
     | Expect_ICW3 \<Rightarrow> p\<lparr>pic_cascade := v, pic_phase := after_icw3\<rparr>
     | Expect_ICW4 \<Rightarrow> p\<lparr>pic_mode := v, pic_phase := Operating\<rparr>
     | Operating \<Rightarrow> p\<lparr>pic_mask := v\<rparr>)"

definition pics_out :: "u16 \<Rightarrow> u8 \<Rightarrow> pic \<times> pic \<Rightarrow> pic \<times> pic" where
  "pics_out port v = (\<lambda>(master, slave).
     if port = 0x20 then (pic_command v master, slave) else if port = 0x21 then (pic_data v master, slave)
     else if port = 0xA0 then (master, pic_command v slave) else if port = 0xA1 then (master, pic_data v slave) else (master, slave))"

text \<open>The controllers deliver the sixteen lines as the vectors from 0x20 on.\<close>

definition irq_vector :: "pic \<times> pic \<Rightarrow> nat \<Rightarrow> u8" where
  "irq_vector ps line = (if line < 8 then pic_base (fst ps) + word_of_nat line else pic_base (snd ps) + word_of_nat (line - 8))"

lemmas pic_ports = PIC1_CMD_PORT_def PIC1_DATA_PORT_def PIC2_CMD_PORT_def PIC2_DATA_PORT_def PIC_ICW1_INIT_def PIC_ICW1_ICW4_def
  PIC_ICW4_8086_MODE_def PIC_ICW3_SLAVE_AT_IRQ2_def PIC_ICW3_SLAVE_ID_def

text \<open>
  C31: \<open>remap_master_pic_C\<close>. On ports that lead to two 8259A controllers, whatever state they are in, it ends with
  both in operation in 8086 mode with edge-triggered lines, each knowing of the other, the slave at line 2 of the master,
  no line masked, and the sixteen interrupt lines on the vectors 0x20 to 0x2F, clear of the exceptions of the processor.
\<close>

theorem remap_pic_vectors:
  assumes "\<And>port v d. pics (outb io port v d) = pics_out port v (pics d)" "\<And>d. pics (io_delay d) = pics d"
  shows "let ps = pics (remap_master_pic_C io io_delay d) in
     pic_phase (fst ps) = Operating \<and> pic_phase (snd ps) = Operating \<and> pic_mode (fst ps) = 1 \<and> pic_mode (snd ps) = 1
     \<and> \<not> pic_single (fst ps) \<and> \<not> pic_single (snd ps) \<and> \<not> pic_level (fst ps) \<and> \<not> pic_level (snd ps)
     \<and> pic_cascade (fst ps) = 4 \<and> pic_cascade (snd ps) = 2 \<and> pic_mask (fst ps) = 0 \<and> pic_mask (snd ps) = 0
     \<and> (\<forall>line<16. unat (irq_vector ps line) = 0x20 + line)"
proof -
  obtain m s where ms: "pics d = (m, s)" by (cases "pics d")
  let ?op = "\<lambda>b c p. p\<lparr>pic_phase := Operating, pic_needs_icw4 := True, pic_single := False, pic_level := False, pic_base := b, pic_cascade := c, pic_mode := 1, pic_mask := 0\<rparr>"
  have ps: "pics (remap_master_pic_C io io_delay d) = (?op 0x20 4 m, ?op 0x28 2 s)"
    by (simp add: remap_master_pic_C_def Let_def assms ms pics_out_def pic_ports pic_command_def pic_data_def bit_simps)
  have "unat (irq_vector (?op 0x20 4 m, ?op 0x28 2 s) line) = 0x20 + line" if "line < 16" for line
    using that by (simp add: irq_vector_def unat_word_ariths unat_of_nat)
  then show ?thesis by (simp add: ps)
qed

theorem remap_pic_vectors_witness:
  "irq_vector (snd (remap_master_pic_C
      \<lparr>outb = (\<lambda>port v (n, ps). (Suc n, pics_out port v ps)), insb = (\<lambda>port d. (0, d)), insw = (\<lambda>port d. (0, d))\<rparr> id
      (0 :: nat, (\<lparr>pic_phase = Operating, pic_needs_icw4 = True, pic_single = False, pic_level = True, pic_base = 8, pic_cascade = 0, pic_mode = 0, pic_mask = 0xFF\<rparr>,
                  \<lparr>pic_phase = Expect_ICW4, pic_needs_icw4 = True, pic_single = True, pic_level = False, pic_base = 0x70, pic_cascade = 0, pic_mode = 0, pic_mask = 0xFF\<rparr>)))) 9 = 0x29"
  (is "irq_vector (snd (remap_master_pic_C ?io id ?d)) 9 = 0x29")
proof -
  have "snd (outb ?io port v d) = pics_out port v (snd d)" for port v d by (cases d) simp
  then have "unat (irq_vector (snd (remap_master_pic_C ?io id ?d)) 9) = 0x29"
    using remap_pic_vectors [of snd ?io id ?d] by (simp add: Let_def)
  then show ?thesis by (simp add: word_unat_eq_iff)
qed

section \<open>Printing a path\<close>

lemma print_path_parts:
  assumes "path_list m part ns" "\<forall>s\<in>set (map (snd \<circ> snd) ns). 0 \<notin> set s"
  shows "print_path_loop m part t = Some (fold (\<lambda>c. terminal_put_char c 15) (concat (map (\<lambda>s. s @ [10]) (map (snd \<circ> snd) ns))) t)"
  using assms
proof (induction ns arbitrary: part t)
  case Nil
  then show ?case by (subst print_path_loop.simps) simp
next
  case (Cons n ns)
  obtain a b seg where n: "n = (a, b, seg)" by (cases n)
  have p: "part = a" "a \<noteq> NULL" "load32 m a = b" "cstring m b seg" "path_list m (load32 m (a + 4)) ns"
    using Cons.prems n by (auto simp: cstring_def bytes_def)
  then show ?case
    using Cons.IH [OF p(5)] Cons.prems(2) n put_str_fold [OF p(4), of 15]
    by (subst print_path_loop.simps) (simp add: print_str_def print_literal_def comp_def)
qed

text \<open>
  \<open>print_path\<close> ends on every list of path parts and prints the drive and then each part on a line of its own.
\<close>

theorem print_path_prints:
  assumes "path_list m (load32 m (path + 4)) ns" "\<forall>s\<in>set (map (snd \<circ> snd) ns). 0 \<notin> set s"
  shows "\<exists>t1. print_itoa (load32 m path) (print_literal ''Drive: '' t) = Some t1
     \<and> print_path m path t = Some (fold (\<lambda>c. terminal_put_char c 15) (10 # concat (map (\<lambda>s. s @ [10]) (map (snd \<circ> snd) ns))) t1)"
proof -
  obtain t1 where "print_itoa (load32 m path) (print_literal ''Drive: '' t) = Some t1" using print_itoa_total by blast
  then show ?thesis using print_path_parts [OF assms] by (simp add: print_path_def print_char_def)
qed

theorem print_path_prints_witness:
  "\<exists>t. print_path (store32 (store32 (write_bytes (\<lambda>_. 0) 0x3000 [97, 98]) 0x2000 0x3000) 0x1004 0x2000) 0x1000
        \<lparr>video_memory = \<lambda>_. 0, terminal_row = 0, terminal_column = 0\<rparr> = Some t"
proof -
  let ?m = "store32 (store32 (write_bytes (\<lambda>_. 0) 0x3000 [97, 98]) 0x2000 0x3000) 0x1004 0x2000"
  have "path_list ?m (load32 ?m (0x1000 + 4)) [(0x2000, 0x3000, [97, 98])]"
    by (simp add: load_store_simps bytes_def regions_disjoint_def write_bytes_def in_region_def store32_outside) (simp add: load32_def)
  from print_path_prints [OF this] show ?thesis by fastforce
qed

end
