(* ===== verification/Kernel_Start.thy ===== *)
theory Kernel_Start
  imports Kernel Process_Create
begin

text \<open>
  From the boot code to the endless loop: the file system that \<open>disk_init\<close> finds, and \<open>kernel_main\<close> as a whole.
\<close>

section \<open>Allocations that keep everything else\<close>

lemma spares_refl: "spares {} s P s P"
  by (simp add: spares_def)

lemma spares_trans: "spares {} s P s1 P1 \<Longrightarrow> spares {} s1 P1 s2 P2 \<Longrightarrow> spares {} s P s2 P2"
  by (rule spares_compose) auto

lemma spares_alloc:
  assumes "kheap_inv s P" "kheap_room s (Suc k)" "0 < sz" "sz \<le> 4096"
  obtains p ks where "kzalloc s sz = Some (p, ks)" "p \<noteq> NULL" "P p = None" "kheap_inv ks (P(p \<mapsto> 4096))" "kheap_room ks k"
    "spares {} s P ks (P(p \<mapsto> 4096))" "\<forall>q n. held s P q n \<longrightarrow> 0 < n \<longrightarrow> regions_disjoint p 4096 q n"
proof -
  have nb: "nblocks sz = 1" using assms(3,4) by (intro div_nat_eqI) (simp_all add: word_less_nat_alt word_le_nat_alt)
  have "kheap_room s (nblocks sz + k)" using assms(2) nb by simp
  from held_region [OF assms(1) this assms(3), unfolded nb mult_1_right] obtain p ks where
    ks: "kzalloc s sz = Some (p, ks)" "p \<noteq> NULL" "P p = None" "kheap_inv ks (P(p \<mapsto> 4096))" "kheap_room ks k"
    and fr: "\<forall>q n. held s P q n \<longrightarrow> held ks (P(p \<mapsto> 4096)) q n \<and> (0 < n \<longrightarrow> regions_disjoint p 4096 q n)
       \<and> (\<forall>a. in_region a q n \<longrightarrow> ks_mem ks a = ks_mem s a)" by metis
  have "P \<subseteq>\<^sub>m P(p \<mapsto> 4096)" using ks(3) by (auto simp: map_le_def)
  then show thesis using that [OF ks] fr by (simp add: spares_def del: fun_upd_apply)
qed

text \<open>A buffer that is allocated and freed again.\<close>

lemma spares_alloc_free:
  assumes "kheap_inv s P" "kheap_room s (Suc k)" "0 < sz" "sz \<le> 4096"
  obtains p ks ks' where "kzalloc s sz = Some (p, ks)" "p \<noteq> NULL" "kfree ks p = Some ks'" "kheap_inv ks' P" "kheap_room ks' k"
    "spares {} s P ks' P"
proof -
  obtain p ks where ks: "kzalloc s sz = Some (p, ks)" "p \<noteq> NULL" "P p = None" "kheap_inv ks (P(p \<mapsto> 4096))" "kheap_room ks k"
    "spares {} s P ks (P(p \<mapsto> 4096))" "\<forall>q n. held s P q n \<longrightarrow> 0 < n \<longrightarrow> regions_disjoint p 4096 q n"
    by (rule spares_alloc [OF assms])
  have P: "(P(p \<mapsto> 4096))(p := None) = P" using ks(3) by auto
  have live: "(P(p \<mapsto> 4096)) p = Some 4096" by simp
  obtain ks' where k: "kfree ks p = Some ks'" "kheap_inv ks' P" "\<forall>k. kheap_room ks k \<longrightarrow> kheap_room ks' k"
    "\<forall>q n. held ks (P(p \<mapsto> 4096)) q n \<longrightarrow> 0 < n \<longrightarrow> regions_disjoint q n p 4096 \<longrightarrow>
       held ks' P q n \<and> (\<forall>a. in_region a q n \<longrightarrow> ks_mem ks' a = ks_mem ks a)"
    by (rule held_after_free [OF ks(4) live, unfolded P])
  have "spares {} s P ks' P"
    unfolding spares_def
  proof (intro conjI allI impI)
    fix q n assume q: "held s P q n" "0 < n"
    have h: "held ks (P(p \<mapsto> 4096)) q n" "\<forall>x. in_region x q n \<longrightarrow> ks_mem ks x = ks_mem s x" using ks(6) q by (simp_all add: spares_def del: fun_upd_apply)
    moreover have "regions_disjoint q n p 4096" using ks(7) q regions_disjoint_sym by blast
    ultimately show "held ks' P q n" "\<And>x. in_region x q n \<Longrightarrow> ks_mem ks' x = ks_mem s x" using k(4) q(2) by metis+
  qed simp
  then show thesis using that [OF ks(1,2) k(1,2)] k(3) ks(5) by blast
qed

section \<open>Mounting\<close>

text \<open>The first sector of an image is the header of a FAT16 volume.\<close>

definition image_header :: "(nat \<Rightarrow> u8) \<Rightarrow> fat_header_t" where
  "image_header img = fat_header_of (map img [0..<62])"

definition fat16_medium :: "(nat \<Rightarrow> u8) \<Rightarrow> bool" where
  "fat16_medium img \<longleftrightarrow> fh_signature (image_header img) = FAT16_SIGNATURE
     \<and> fh_system_id_string (image_header img) = FAT16_SYSTEM_ID \<and> fh_bytes_per_sector (image_header img) \<noteq> 0"

text \<open>What the driver keeps of a volume, with its stream at \<open>dev\<close>.\<close>

definition private_of :: "fat_header_t \<Rightarrow> addr \<Rightarrow> fat_private_data_t" where
  "private_of h dev =
     (let bps = ucast (fh_bytes_per_sector h) :: u32;
          first = ucast (fh_reserved_sectors h) + ucast (fh_fat_copies h) * ucast (fh_sectors_per_fat h) :: u32
      in \<lparr>fp_header = h, fp_bytes_per_cluster = bps * ucast (fh_sectors_per_cluster h),
          fp_data_sector = first + (ucast (fh_root_dir_entries h) * 32 + bps - 1) div bps,
          fp_root_directory = blank_item\<lparr>fi_first_sector := first, fi_type := FAT16_ROOT_DIRECTORY_FLAG\<rparr>, fp_dev = dev\<rparr>)"

lemma probe_mounts:
  assumes bd: "block_device rb img nsec ready" "ready d" "0 < nsec" and md: "fat16_medium img"
    and inv: "kheap_inv s P" "kheap_room s (k + 3)" and id: "dk_id disk = 0"
  obtains pp dev s' P' d' where "fat16_probe rb disks_addr disk s d = Some (0, disk\<lparr>dk_fs_private := pp\<rparr>,
       Some (private_of (image_header img) dev, \<lparr>ds_ppos = 0, ds_disk = disks_addr\<rparr>), s', d')"
    "ready d'" "kheap_inv s' P'" "kheap_room s' k" "spares {} s P s' P'"
    "P' = P(pp \<mapsto> 4096, dev \<mapsto> 4096)" "P pp = None" "P dev = None" "pp \<noteq> dev" "pp \<noteq> NULL" "dev \<noteq> NULL"
proof -
  have r3: "kheap_room s (Suc (Suc (Suc k)))" using inv(2) by (simp add: numeral_3_eq_3)
  obtain p ks s2 where b: "kzalloc s 8 = Some (p, ks)" "p \<noteq> NULL" "kfree ks p = Some s2" "kheap_inv s2 P" "kheap_room s2 (Suc (Suc k))" "spares {} s P s2 P"
    by (rule spares_alloc_free [OF inv(1) r3, of 8]) simp_all
  obtain pp s3 where c: "kzalloc s2 sizeof_fat_private = Some (pp, s3)" "pp \<noteq> NULL" "P pp = None" "kheap_inv s3 (P(pp \<mapsto> 4096))" "kheap_room s3 (Suc k)"
    "spares {} s2 P s3 (P(pp \<mapsto> 4096))"
    by (rule spares_alloc [OF b(4,5), of sizeof_fat_private]) (simp_all add: sizeof_fat_private_def)
  obtain dev s4 where e: "kzalloc s3 8 = Some (dev, s4)" "dev \<noteq> NULL" "(P(pp \<mapsto> 4096)) dev = None" "kheap_inv s4 (P(pp \<mapsto> 4096, dev \<mapsto> 4096))" "kheap_room s4 k"
    "spares {} s3 (P(pp \<mapsto> 4096)) s4 (P(pp \<mapsto> 4096, dev \<mapsto> 4096))"
    by (rule spares_alloc [OF c(4,5), of 8]) simp_all
  have "int (unat (0 :: u32)) + 62 \<le> 512 * int nsec" using bd(3) by simp
  then obtain d1 where rd: "diskstream_read_with rb \<lparr>ds_ppos = 0, ds_disk = disks_addr\<rparr> 62 d
      = Some (62, map img [0..<62], \<lparr>ds_ppos = 0, ds_disk = disks_addr\<rparr>\<lparr>ds_ppos := 0 + word_of_int 62\<rparr>, d1)" "ready d1"
    using block_device.stream_reads [OF bd(1,2), of 62 "\<lparr>ds_ppos = 0, ds_disk = disks_addr\<rparr>"] by auto
  have hd: "fat_header_of (overwrite (replicate 62 0) (map img [0..<62])) = image_header img"
    by (simp add: overwrite_def image_header_def)
  have "strncmp_arrays (fh_system_id_string (image_header img)) FAT16_SYSTEM_ID (word_of_nat 8) = Some 0"
    using strncmp_arrays_eq [of FAT16_SYSTEM_ID 8 FAT16_SYSTEM_ID] md by (auto simp: fat16_medium_def FAT16_SYSTEM_ID_def)
  then have run: "fat16_probe rb disks_addr disk s d = Some (0, disk\<lparr>dk_fs_private := pp\<rparr>,
       Some (private_of (image_header img) dev, \<lparr>ds_ppos = 0, ds_disk = disks_addr\<rparr>), s4, d1)"
    using b(1-3) c(1,2) e(1,2) rd(1) md id
    by (simp add: fat16_probe_def diskstream_new_def disk_get_def diskstream_close_def sizeof_fat_header_def hd fat16_medium_def private_of_def Let_def)
  have "spares {} s P s4 (P(pp \<mapsto> 4096, dev \<mapsto> 4096))" by (rule spares_trans [OF b(6) spares_trans [OF c(6) e(6)]])
  moreover have "dev \<noteq> pp" "P dev = None" using e(3) by (auto split: if_splits)
  ultimately show thesis using that [OF run rd(2) e(4,5)] c(2,3) e(2) by simp
qed

text \<open>
  The geometry of a volume: behind the reserved sectors and the copies of the allocation table comes the root directory, in
  the least number of sectors that holds its entries, and behind it the data.
\<close>

definition mounted_as :: "fat_header_t \<Rightarrow> fat_private_data_t \<Rightarrow> bool" where
  "mounted_as h priv \<longleftrightarrow>
     (let bps = unat (fh_bytes_per_sector h); entries = unat (fh_root_dir_entries h);
          root = unat (fi_first_sector (fp_root_directory priv)); data = unat (fp_data_sector priv)
      in fp_header priv = h \<and> unat (fp_bytes_per_cluster priv) = bps * unat (fh_sectors_per_cluster h)
         \<and> fi_type (fp_root_directory priv) = FAT16_ROOT_DIRECTORY_FLAG
         \<and> root = unat (fh_reserved_sectors h) + unat (fh_fat_copies h) * unat (fh_sectors_per_fat h)
         \<and> root \<le> data \<and> 32 * entries \<le> bps * (data - root) \<and> bps * (data - root) < 32 * entries + bps)"

lemma private_of_mounted:
  assumes "fh_bytes_per_sector h \<noteq> 0"
  shows "mounted_as h (private_of h dev)"
proof -
  define b e r c f n where n: "b = unat (fh_bytes_per_sector h)" "e = unat (fh_root_dir_entries h)" "r = unat (fh_reserved_sectors h)"
    "c = unat (fh_fat_copies h)" "f = unat (fh_sectors_per_fat h)" "n = unat (fh_sectors_per_cluster h)"
  have u: "b < 65536" "e < 65536" "r < 65536" "c < 256" "f < 65536" "n < 256" "0 < b"
    using unsigned_less [where w = "fh_bytes_per_sector h"] unsigned_less [where w = "fh_root_dir_entries h"]
      unsigned_less [where w = "fh_reserved_sectors h"] unsigned_less [where w = "fh_fat_copies h"]
      unsigned_less [where w = "fh_sectors_per_fat h"] unsigned_less [where w = "fh_sectors_per_cluster h"] assms
    by (simp_all add: n unat_gt_0)
  have p: "c * f \<le> 255 * 65535" "b * n \<le> 65535 * 255" by (intro mult_le_mono; use u in simp)+
  have "(e * 32 + b - 1) div b \<le> e * 32 + b - 1" by (rule div_le_dividend)
  then have q: "r + c * f + (e * 32 + b - 1) div b < 4294967296" using p(1) u by linarith
  have cf: "unat (ucast (fh_fat_copies h) * ucast (fh_sectors_per_fat h) :: u32) = c * f"
    using p by (simp add: unat_word_ariths unsigned_ucast_eq take_bit_nat_eq_self n)
  have root: "unat (ucast (fh_reserved_sectors h) + ucast (fh_fat_copies h) * ucast (fh_sectors_per_fat h) :: u32) = r + c * f"
    using p u by (simp add: unat_word_ariths(1) cf) (simp add: unsigned_ucast_eq take_bit_nat_eq_self n)
  have bpc: "unat (ucast (fh_bytes_per_sector h) * ucast (fh_sectors_per_cluster h) :: u32) = b * n"
    using p by (simp add: unat_word_ariths unsigned_ucast_eq take_bit_nat_eq_self n)
  have e32: "unat (ucast (fh_root_dir_entries h) * 32 + ucast (fh_bytes_per_sector h) :: u32) = e * 32 + b"
    using u by (simp add: unat_word_ariths unsigned_ucast_eq take_bit_nat_eq_self n)
  then have "unat (ucast (fh_root_dir_entries h) * 32 + ucast (fh_bytes_per_sector h) - 1 :: u32) = e * 32 + b - 1"
    using u(7) by (subst unat_sub) (simp_all add: word_le_nat_alt)
  then have "unat ((ucast (fh_root_dir_entries h) * 32 + ucast (fh_bytes_per_sector h) - 1) div ucast (fh_bytes_per_sector h) :: u32)
      = (e * 32 + b - 1) div b" using u(1) by (simp add: unat_div unsigned_ucast_eq take_bit_nat_eq_self n)
  then have data: "unat (ucast (fh_reserved_sectors h) + ucast (fh_fat_copies h) * ucast (fh_sectors_per_fat h)
      + (ucast (fh_root_dir_entries h) * 32 + ucast (fh_bytes_per_sector h) - 1) div ucast (fh_bytes_per_sector h) :: u32)
      = r + c * f + (e * 32 + b - 1) div b" using q by (subst unat_word_ariths(1), subst root) simp
  have "(e * 32 + b - 1) mod b < b" using u(7) by simp
  then have "32 * e \<le> b * ((e * 32 + b - 1) div b) \<and> b * ((e * 32 + b - 1) div b) < 32 * e + b"
    using mult_div_mod_eq [of b "e * 32 + b - 1"] u(7) by linarith
  then show ?thesis using root bpc data by (simp add: mounted_as_def private_of_def Let_def n [symmetric])
qed

lemma mount_disk:
  assumes F: "F ops = fat16_operations rb junk disks filename extension" "ops \<noteq> NULL" "fl_registered fl ! 0 = ops"
    and bd: "block_device rb img nsec ready" "ready (snd (ff_dev (fl_fs fl)))" "0 < nsec" and md: "fat16_medium img"
    and inv: "kheap_inv (fl_ks fl) P" "kheap_room (fl_ks fl) (k + 3)"
  obtains dev fl' P' where "kn_disk_init F disks fl = Some ((), fl')" "kheap_inv (fl_ks fl') P'" "kheap_room (fl_ks fl') k"
    "spares {} (fl_ks fl) P (fl_ks fl') P'" "dk_fs_operations (fl_disk fl') = ops" "ff_priv (fl_fs fl') = private_of (image_header img) dev"
    "ff_dev (fl_fs fl') = (\<lparr>ds_ppos = 0, ds_disk = disks\<rparr>, snd (ff_dev (fl_fs fl')))" "ready (snd (ff_dev (fl_fs fl')))"
    "fl_table fl' = fl_table fl" "fl_table_len fl' = fl_table_len fl"
proof -
  define d0 where "d0 = \<lparr>dk_type = DISK_TYPE_PHYSICAL, dk_sector_size = DISK_SECTOR_SIZE, dk_master_slave_flag = ATA_MASTER,
    dk_id = 0, dk_fs_operations = NULL, dk_fs_private = NULL, dk_ata_ports = ATA_PORTS_PRIMARY\<rparr>"
  obtain pp dev s' P' d' where pr: "fat16_probe rb disks d0 (fl_ks fl) (snd (ff_dev (fl_fs fl))) = Some (0, d0\<lparr>dk_fs_private := pp\<rparr>,
       Some (private_of (image_header img) dev, \<lparr>ds_ppos = 0, ds_disk = disks\<rparr>), s', d')"
    "ready d'" "kheap_inv s' P'" "kheap_room s' k" "spares {} (fl_ks fl) P s' P'"
    by (rule probe_mounts [OF bd md inv, of d0 disks]) (simp add: d0_def)
  define fl1 where "fl1 = fl\<lparr>fl_disk := d0\<lparr>dk_fs_private := pp\<rparr>, fl_ks := s',
    fl_fs := (fl_fs fl)\<lparr>ff_priv := private_of (image_header img) dev, ff_dev := (\<lparr>ds_ppos = 0, ds_disk = disks\<rparr>, d')\<rparr>\<rparr>"
  have probe: "fs_probe (F ops) = Some (\<lambda>disk st. case fat16_probe rb disks (fl_disk st) (fl_ks st) (snd (ff_dev (fl_fs st))) of
          None \<Rightarrow> None
        | Some (res, disk1, found, ks1, d1) \<Rightarrow>
            let fs1 = (case found of
                  None \<Rightarrow> (fl_fs st)\<lparr>ff_dev := (fst (ff_dev (fl_fs st)), d1)\<rparr>
                | Some (priv, stream) \<Rightarrow> (fl_fs st)\<lparr>ff_priv := priv, ff_dev := (stream, d1)\<rparr>)
            in Some (res, st\<lparr>fl_disk := disk1, fl_ks := ks1, fl_fs := fs1\<rparr>))"
    using F(1) by (simp add: fat16_operations_def)
  have "fs_probe_fs F disks (fl\<lparr>fl_disk := d0\<rparr>) = Some (ops, fl1)"
    using F(2,3) pr(1) unfolding fs_probe_fs_def
    by (subst fs_probe_loop.simps) (simp add: probe fl1_def)
  then have "kn_disk_init F disks fl = Some ((), fl1\<lparr>fl_disk := (fl_disk fl1)\<lparr>dk_fs_operations := ops\<rparr>\<rparr>)"
    by (simp add: kn_disk_init_def disk_init_def d0_def [symmetric])
  then show thesis by (rule that) (use pr(2-5) in \<open>simp_all add: fl1_def\<close>)
qed

section \<open>The start of the kernel\<close>

text \<open>The heap begins behind the image of the kernel, in which the directory of the kernel and the system task lie.\<close>

definition layout_ok :: "kernel_layout \<Rightarrow> bool" where
  "layout_ok lk \<longleftrightarrow> (let e = unat (lk_kernel_end lk); K = lk_kernel_page_directory lk; T = lk_system_task lk in
     0 < e \<and> e + 0x1003000 < 2 ^ 32 \<and> unat K + 4100 \<le> e \<and> unat T + 16384 \<le> e \<and> regions_disjoint K 4100 T 16384
     \<and> T \<noteq> NULL \<and> lk_fat16_operations lk \<noteq> NULL)"

text \<open>The directory of the kernel is in force and maps the first four megabytes of the memory at \<open>0xC0000000\<close>.\<close>

definition kernel_pages :: "paging_state \<Rightarrow> addr \<Rightarrow> bool" where
  "kernel_pages pg K \<longleftrightarrow> pg_current_directory pg = K \<and> bit (pg_cr0 pg) 31 \<and> pg_cr3 pg = PAGE_ENTRY_ADDR (pde (pg_mem pg) K 1023)
     \<and> (\<forall>u. 0xC0000000 \<le> unat u \<longrightarrow> unat u < 0xC0400000 \<longrightarrow> ptbl (pg_mem pg) K (dir_index u) \<noteq> 0
          \<and> virtual_to_physical_addr pg K u = Some (u - 0xC0000000))"

text \<open>Heap and paging, up to the state in which the file systems are set up.\<close>

lemma start_memory:
  assumes lk: "layout_ok lk" and pse: "pg_cr4 pg AND PSE_BIT \<noteq> 0"
  obtains ks pg' P' where "kheap_init (lk_kernel_end lk) (pg_ks pg) = Some ks"
    "paging_init BD (lk_kernel_page_directory lk) (pg\<lparr>pg_ks := ks\<rparr>) = Some pg'" "pg_inv pg' P' (lk_kernel_page_directory lk) 4088"
    "kernel_pages pg' (lk_kernel_page_directory lk)" "small_pages (pg_mem pg') (lk_kernel_page_directory lk)"
    "held (pg_ks pg') P' (lk_system_task lk) 16384" "apart (pg_mem pg') (lk_kernel_page_directory lk) (lk_system_task lk) 16384"
    "user_space_empty (pg_mem pg') (lk_kernel_page_directory lk)"
proof -
  let ?e = "lk_kernel_end lk" and ?K = "lk_kernel_page_directory lk" and ?T = "lk_system_task lk"
  have e: "0 < ?e" "unat ?e + 0x1003000 < 2 ^ 32" "unat ?K + 4100 \<le> unat ?e" "unat ?T + 16384 \<le> unat ?e" "regions_disjoint ?K 4100 ?T 16384"
    using lk by (simp_all add: layout_ok_def Let_def word_less_nat_alt)
  obtain ks where ks: "kheap_init ?e (pg_ks pg) = Some ks" "kheap_inv ks Map.empty" "kheap_room ks 4094"
    "\<forall>a < ?e. kheap_ext ks a \<and> ks_mem ks a = ks_mem (pg_ks pg) a"
    by (rule kheap_init_state [OF e(1,2), of "pg_ks pg"])
  have h: "held ks Map.empty ?K 4100" "held ks Map.empty ?T 16384"
    using below_end e(3,4) ks(4) unfolding held_def by blast+
  let ?pg = "pg\<lparr>pg_ks := ks\<rparr>"
  have i: "kheap_inv (pg_ks ?pg) Map.empty" "kheap_room (pg_ks ?pg) (4088 + 6)" "held (pg_ks ?pg) Map.empty ?K 4100" "pg_cr4 ?pg AND PSE_BIT \<noteq> 0"
    using ks(2,3) h(1) pse by simp_all
  obtain pg' P' where p: "paging_init BD ?K ?pg = Some pg'" "pg_inv pg' P' ?K 4088" "small_pages (pg_mem pg') ?K"
    "pg_current_directory pg' = ?K" "pg_cr4 pg' AND PSE_BIT = 0" "bit (pg_cr0 pg') 31" "pg_cr3 pg' = PAGE_ENTRY_ADDR (pde (pg_mem pg') ?K 1023)"
    "\<forall>u. 0xC0000000 \<le> unat u \<longrightarrow> unat u < 0xC0400000 \<longrightarrow>
       ptbl (pg_mem pg') ?K (dir_index u) \<noteq> 0 \<and> virtual_to_physical_addr pg' ?K u = Some (u - 0xC0000000)"
    and old: "\<forall>q n. held (pg_ks ?pg) Map.empty q n \<longrightarrow> 0 < n \<longrightarrow> regions_disjoint ?K 4100 q n \<longrightarrow>
       held (pg_ks pg') P' q n \<and> apart (pg_mem pg') ?K q n"
    and user: "user_space_empty (pg_mem pg') ?K"
    by (rule init_paging [OF i, of BD]) (rule that; assumption)
  have "kernel_pages pg' ?K" using p(4,6-8) by (simp add: kernel_pages_def)
  from that [OF ks(1) p(1,2) this p(3)] show thesis using old h(2) e(5) user by simp
qed

text \<open>\<open>kernel_main\<close> from the results of its parts.\<close>

lemma kernel_main_parts:
  fixes st :: "('f, 'd) kernel_state"
  defines "tk \<equiv> cs_tk (kn_cpu st)"
  defines "pg \<equiv> (tk_pg tk)\<lparr>pg_term := terminal_init (pg_term (tk_pg tk))\<rparr>"
  assumes gdt: "gdt_init (lk_tss lk) (lk_gdt_native lk) (lk_system_stack_bottom lk) (tk_gdt tk) = Some gdt"
    and idt: "idt_init (lk_idt_descriptors lk) (lk_isr_table lk)
        ((kn_cpu st)\<lparr>cs_dev := remap_master_pic_C io io_delay (cs_dev (kn_cpu st)), cs_tk := tk\<lparr>tk_gdt := gdt\<rparr>\<rparr>) = Some cpu"
      "cs_tk cpu = tk\<lparr>tk_gdt := gdt\<rparr>"
    and mem: "kheap_init (lk_kernel_end lk) (pg_ks pg) = Some ks"
      "paging_init (lk_boot_page_directory lk) (lk_kernel_page_directory lk) (pg\<lparr>pg_ks := ks\<rparr>) = Some pg'"
    and reg: "fl_registered (kn_fl st) ! 0 = NULL"
    and disk: "kn_disk_init F (lk_disks lk) ((kn_fl st)\<lparr>fl_table_len := 100, fl_table := replicate 100 NULL, fl_ks := pg_ks pg',
        fl_registered := (fl_registered (kn_fl st))[0 := lk_fat16_operations lk]\<rparr>) = Some ((), fl')"
    and task: "tasking_init io regs frame (lk_kernel_page_directory lk) (lk_system_task lk) (lk_idle_function lk)
        (cpu\<lparr>cs_tk := tk\<lparr>tk_gdt := gdt, tk_pg := pg'\<lparr>pg_term := kernel_splash (terminal_init (pg_term pg')), pg_ks := fl_ks fl'\<rparr>\<rparr>\<rparr>)
        = Some (cpu\<lparr>cs_dev := dev', cs_tk := tk'\<rparr>)"
  shows "kernel_main io io_delay F regs frame lk st = Some (st\<lparr>kn_cpu := cpu\<lparr>cs_dev := dev', cs_tk := tk'\<lparr>tk_pg := (tk_pg tk')\<lparr>pg_term :=
      print_literal ([CHR 0x0A, CHR 0x0A] @ ''Done, for now'' @ [CHR 0x0A]) (pg_term (tk_pg tk'))\<rparr>\<rparr>\<rparr>, kn_fl := fl'\<rparr>)"
proof -
  let ?t = "kernel_splash (terminal_init (pg_term pg'))"
  have st7: "Option.bind (kn_term terminal_init (st\<lparr>kn_cpu := cpu\<rparr>)) (\<lambda>st3.
        Option.bind (kn_heap (kheap_init (lk_kernel_end lk)) st3) (\<lambda>st4.
        Option.bind (kn_paging (paging_init (lk_boot_page_directory lk) (lk_kernel_page_directory lk)) st4) (\<lambda>st5.
        Option.bind (kn_term terminal_init st5) (\<lambda>st6.
        Option.bind (kn_term kernel_splash st6) f))))
      = f (st\<lparr>kn_cpu := cpu\<lparr>cs_tk := tk\<lparr>tk_gdt := gdt, tk_pg := pg'\<lparr>pg_term := ?t\<rparr>\<rparr>\<rparr>\<rparr>)" for f
    using mem idt(2) by (simp add: kn_term_def kn_heap_def kn_paging_def pg_def)
  define fl where "fl = (kn_fl st)\<lparr>fl_table_len := 100, fl_table := replicate 100 NULL, fl_ks := pg_ks pg',
        fl_registered := (fl_registered (kn_fl st))[0 := lk_fat16_operations lk]\<rparr>"
  have same: "fl\<lparr>fl_ks := pg_ks pg'\<rparr> = fl" by (rule file_state.equality) (simp_all add: fl_def)
  have files: "Option.bind (kn_files (\<lambda>fl. Some (file_table_init fl)) (st\<lparr>kn_cpu := cpu\<lparr>cs_tk := tk\<lparr>tk_gdt := gdt, tk_pg := pg'\<lparr>pg_term := ?t\<rparr>\<rparr>\<rparr>\<rparr>)) (\<lambda>st8.
        Option.bind (kn_files (\<lambda>fl. Some (fs_init (lk_fat16_operations lk) fl)) st8) f)
      = f (st\<lparr>kn_cpu := cpu\<lparr>cs_tk := tk\<lparr>tk_gdt := gdt, tk_pg := pg'\<lparr>pg_term := ?t\<rparr>\<rparr>\<rparr>, kn_fl := fl\<rparr>)" for f
    using reg by (simp add: fl_def kn_files_def on_files_def tk_heap_def file_table_init_def fs_init_def fs_register_fs_def fs_register_loop.simps [of _ 0]
        MAX_OPEN_FILES_def MAX_FILESYSTEMS_def)
  have dsk: "Option.bind (kn_files (kn_disk_init F (lk_disks lk)) (st\<lparr>kn_cpu := cpu\<lparr>cs_tk := tk\<lparr>tk_gdt := gdt, tk_pg := pg'\<lparr>pg_term := ?t\<rparr>\<rparr>\<rparr>, kn_fl := fl\<rparr>)) f
      = f (st\<lparr>kn_cpu := cpu\<lparr>cs_tk := tk\<lparr>tk_gdt := gdt, tk_pg := pg'\<lparr>pg_term := ?t, pg_ks := fl_ks fl'\<rparr>\<rparr>\<rparr>, kn_fl := fl'\<rparr>)" for f
    using disk [folded fl_def] by (simp add: kn_files_def on_files_def tk_heap_def same)
  show ?thesis
    using gdt idt task unfolding kernel_main_def Let_def
    by (simp add: tk_def [symmetric] st7 files dsk) (simp add: kn_term_def kn_paging_def)
qed

text \<open>Mounting the volume and starting the tasks leave the directory of the kernel as \<open>paging_init\<close> built it.\<close>

lemma paging_stays:
  fixes t :: terminal
  assumes inv: "pg_inv pg P K k" "kernel_pages pg K" "small_pages (pg_mem pg) K"
    and sp: "spares {} (pg_ks pg) P s P'" "kheap_inv s P'" "kheap_room s k'"
  defines "pg' \<equiv> pg\<lparr>pg_term := t, pg_ks := s\<rparr>"
  shows "pg_inv pg' P' K k'" "kernel_pages pg' K" "small_pages (pg_mem pg') K" "apart (pg_mem pg') K r l = apart (pg_mem pg) K r l"
    "user_space_empty (pg_mem pg) K \<Longrightarrow> user_space_empty (pg_mem pg') K"
proof -
  have cur: "pg_current_directory pg = K" using inv(2) by (simp add: kernel_pages_def)
  note p = pg_inv_spares [OF inv(1) cur sp(1) ball_empty [THEN iffD2, OF TrueI] sp(2,3)]
  have same: "pg_ks pg' = pg_ks (pg\<lparr>pg_ks := s\<rparr>)" "pg_current_directory pg' = pg_current_directory (pg\<lparr>pg_ks := s\<rparr>)"
    "pg_cr4 pg' = pg_cr4 (pg\<lparr>pg_ks := s\<rparr>)" by (simp_all add: pg'_def)
  show "pg_inv pg' P' K k'" using p(1) pg_same(1) [OF same] by simp
  show "small_pages (pg_mem pg') K" "apart (pg_mem pg') K r l = apart (pg_mem pg) K r l" using p(2,4) inv(3) by (simp_all add: pg'_def)
  show "user_space_empty (pg_mem pg') K" if "user_space_empty (pg_mem pg) K" using p(7) [OF that] by (simp add: pg'_def)
  show "kernel_pages pg' K" using inv(2) p(3,5) pg_same(2) [OF same] by (simp add: kernel_pages_def pg'_def)
qed

text \<open>The tables of the processor, and the state in which the tasks are set up.\<close>

lemma kernel_ok_print: "kernel_ok (tk\<lparr>tk_pg := (tk_pg tk)\<lparr>pg_term := t\<rparr>\<rparr>) P K q ys k = kernel_ok tk P K q ys k"
  using pg_same(1) [of "(tk_pg tk)\<lparr>pg_term := t\<rparr>" "tk_pg tk"] by (simp add: kernel_ok_def tasks_held_def tasks_inv_def Let_def)

lemma start_cpu:
  assumes "length (gdt_native (tk_gdt (cs_tk cpu))) = 6" "\<forall>d\<in>set (gdt_native (tk_gdt (cs_tk cpu))). length d = 8"
  obtains g cpu' where "gdt_init tss base esp0 (tk_gdt (cs_tk cpu)) = Some g"
    "idt_init idt isr (cpu\<lparr>cs_dev := d, cs_tk := (cs_tk cpu)\<lparr>tk_gdt := g\<rparr>\<rparr>) = Some cpu'" "cs_tk cpu' = (cs_tk cpu)\<lparr>tk_gdt := g\<rparr>"
    "cs_dev cpu' = d" "isr_handlers cpu' ! 0x20 = Some int_0x20_handler" "isr_handlers cpu' ! 20 = Some no_int_handler"
proof -
  obtain g where "gdt_init tss base esp0 (tk_gdt (cs_tk cpu)) = Some g" using gdt_init_descriptors [OF assms] by blast
  then show thesis
    using that idt_init_vector_20 idt_init_builds [of idt isr "cpu\<lparr>cs_dev := d, cs_tk := (cs_tk cpu)\<lparr>tk_gdt := g\<rparr>\<rparr>"] by fastforce
qed

section \<open>Properties\<close>

text \<open>A machine with the volume of the repository in its drive.\<close>

definition boot_sector :: "u8 list" where
  "boot_sector = [0xEB, 0x3C, 0x90] @ replicate 8 0x20 @ [0, 2, 0x80, 200, 0, 2, 0x40, 0, 0, 0, 0xF8, 0, 1, 0x20, 0, 2, 0]
     @ replicate 8 0 @ [0x80, 0, FAT16_SIGNATURE] @ replicate 4 0 @ replicate 11 0x20 @ FAT16_SYSTEM_ID"

definition boot_volume :: "nat \<Rightarrow> u8" where
  "boot_volume i = (if i < 62 then boot_sector ! i else 0)"

lemma boot_volume_header: "map boot_volume [0..<62] = boot_sector"
  by (rule nth_equalityI) (simp_all add: boot_volume_def boot_sector_def FAT16_SYSTEM_ID_def)

lemma boot_volume_fields:
  "fh_sectors_per_cluster (image_header boot_volume) = 0x80" "fh_root_dir_entries (image_header boot_volume) = 0x40"
  "fh_reserved_sectors (image_header boot_volume) = 200" "fh_fat_copies (image_header boot_volume) = 2"
  "fh_sectors_per_fat (image_header boot_volume) = 0x100"
  unfolding image_header_def boot_volume_header by (simp_all add: fat_header_of_def boot_sector_def FAT16_SYSTEM_ID_def le16_def nth_append)

lemma boot_volume_device: "block_device (sim_rb boot_volume) boot_volume 8192 av_idle"
  using sim.bd_block_device [of boot_volume] by (simp add: sim_rb_def)

lemma boot_volume_fat16: "fat16_medium boot_volume"
  unfolding fat16_medium_def image_header_def boot_volume_header
  by (simp add: fat_header_of_def boot_sector_def FAT16_SYSTEM_ID_def FAT16_SIGNATURE_def le16_def nth_append)

text \<open>
  C20: mounting. On a disk whose first sector is the header of a FAT16 volume with clusters, \<open>fat16_probe\<close> answers 0,
  and what it keeps is the geometry of that header: the root directory behind the reserved sectors and the copies of the
  allocation table, the data behind the sectors of the root directory, and the size of a cluster; it satisfies the
  contract of a volume that the reading of files, the walk along cluster chains and the search in directories rest on. Of
  the heap it takes exactly two fresh blocks, the private data and the stream it keeps, so the stream it read the header
  with is free again, and every other region of the heap is as it was.
\<close>

theorem fat16_probe_mounts:
  assumes disk: "block_device rb img nsec ready" "ready d" "0 < nsec" "fat16_medium img" "fh_sectors_per_cluster (image_header img) \<noteq> 0"
    and heap: "kheap_inv s P" "kheap_room s (k + 3)" and id: "dk_id disk = 0"
  shows "\<exists>priv s' P' d' pp. fat16_probe rb disks_addr disk s d
      = Some (0, disk\<lparr>dk_fs_private := pp\<rparr>, Some (priv, \<lparr>ds_ppos = 0, ds_disk = disks_addr\<rparr>), s', d')
    \<and> fat_volume rb img nsec ready priv \<and> mounted_as (image_header img) priv \<and> ready d'
    \<and> P' = P(pp \<mapsto> 4096, fp_dev priv \<mapsto> 4096) \<and> P pp = None \<and> P (fp_dev priv) = None \<and> pp \<noteq> fp_dev priv
    \<and> pp \<noteq> NULL \<and> fp_dev priv \<noteq> NULL \<and> kheap_inv s' P' \<and> kheap_room s' k \<and> spares {} s P s' P'"
proof -
  have v: "fat_volume rb img nsec ready (private_of (image_header img) dev)" for dev
    using disk(1,4,5) by (simp add: fat_volume_def fat_volume_axioms_def fat_geometry_def private_of_def fat16_medium_def Let_def)
  have m: "mounted_as (image_header img) (private_of (image_header img) dev)" for dev
    using disk(4) by (intro private_of_mounted) (simp add: fat16_medium_def)
  have fd: "fp_dev (private_of (image_header img) dev) = dev" for dev by (simp add: private_of_def Let_def)
  obtain pp dev s' P' d' where p: "fat16_probe rb disks_addr disk s d = Some (0, disk\<lparr>dk_fs_private := pp\<rparr>,
       Some (private_of (image_header img) dev, \<lparr>ds_ppos = 0, ds_disk = disks_addr\<rparr>), s', d')"
    "ready d'" "kheap_inv s' P'" "kheap_room s' k" "spares {} s P s' P'"
    "P' = P(pp \<mapsto> 4096, dev \<mapsto> 4096)" "P pp = None" "P dev = None" "pp \<noteq> dev" "pp \<noteq> NULL" "dev \<noteq> NULL"
    by (rule probe_mounts [OF disk(1-4) heap id]) (rule that; assumption)
  show ?thesis
    by (rule exI [of _ "private_of (image_header img) dev"], rule exI [of _ s'], rule exI [of _ P'], rule exI [of _ d'], rule exI [of _ pp])
      (unfold fd, intro conjI v m p)
qed

theorem fat16_probe_mounts_witness:
  "\<exists>s priv s' d' pp. fat16_probe (sim_rb boot_volume) 0x8000 primary_disk s demo_view
      = Some (0, primary_disk\<lparr>dk_fs_private := pp\<rparr>, Some (priv, \<lparr>ds_ppos = 0, ds_disk = 0x8000\<rparr>), s', d')
    \<and> fat_volume (sim_rb boot_volume) boot_volume 8192 av_idle priv
    \<and> unat (fi_first_sector (fp_root_directory priv)) = 200 + 2 * 0x100
    \<and> kheap_inv s' [pp \<mapsto> 4096, fp_dev priv \<mapsto> 4096]"
proof -
  obtain s where s: "kheap_inv s Map.empty" "kheap_room s (4091 + 3)"
    by (rule kheap_init_state [of "0xC0101234" "\<lparr>ks_mem = demo_mem, ks_heap = demo_heap\<rparr>"]) auto
  have id: "dk_id primary_disk = 0" by (simp add: primary_disk_def)
  show ?thesis
    using fat16_probe_mounts [OF boot_volume_device demo_view_idle _ boot_volume_fat16 _ s id, where disks_addr = "0x8000"]
    by (fastforce simp: boot_volume_fields mounted_as_def Let_def)
qed

text \<open>
  C2: the kernel starts. Let the boot code have left large pages on and the tables of segments and file systems as
  the image has them, the kernel's directory and the system task lie in the image, below the heap, and the disk hold a
  FAT16 volume. Then \<open>kernel_main\<close> does not panic and reaches its endless loop in the state every component relies on:
  the kernel's directory is well formed and in force, with paging on and the first four megabytes at \<open>0xC0000000\<close>; the
  volume is mounted with the geometry of its header; no file is open; the system task and the idle task form the ring
  of the scheduler and their processes the list of processes, both with the kernel's directory; the timer has its
  handler, the interrupt controllers have been set up and interrupts are on; and 4078 blocks are left in the heap.
\<close>

theorem kernel_main_starts:
  fixes st :: "('e fat_fs, 'd) kernel_state"
  assumes lk: "layout_ok lk" and pse: "pg_cr4 (tk_pg (cs_tk (kn_cpu st))) AND PSE_BIT \<noteq> 0"
    and gdt: "length (gdt_native (tk_gdt (cs_tk (kn_cpu st)))) = 6" "\<forall>d\<in>set (gdt_native (tk_gdt (cs_tk (kn_cpu st)))). length d = 8"
    and fs: "fl_registered (kn_fl st) = replicate 10 NULL"
      "F (lk_fat16_operations lk) = fat16_operations rb junk (lk_disks lk) filename extension"
    and disk: "block_device rb img nsec ready" "ready (snd (ff_dev (fl_fs (kn_fl st))))" "0 < nsec" "fat16_medium img"
    and int: "frame_on_stack (lk_system_task lk) regs frame"
  shows "\<exists>st' P sys idle task dev. kernel_main io io_delay F regs frame lk st = Some st'
    \<and> (let K = lk_kernel_page_directory lk; T = lk_system_task lk; cpu = kn_cpu st'; tk = cs_tk cpu; pg = tk_pg tk; fl = kn_fl st' in
         kernel_ok tk P K [T, task] [sys, idle] 4078 \<and> kernel_pages pg K
         \<and> fld tcb_process (tk_mem tk) T = sys \<and> fld tcb_process (tk_mem tk) task = idle
         \<and> processes tk 0 = sys \<and> processes tk 1 = idle
         \<and> fld process_page_directory (tk_mem tk) sys = K \<and> fld process_page_directory (tk_mem tk) idle = K
         \<and> load32 (tk_mem tk) (start_stack task True + 56) = lk_idle_function lk
         \<and> dk_fs_operations (fl_disk fl) = lk_fat16_operations lk \<and> ff_priv (fl_fs fl) = private_of (image_header img) dev
         \<and> mounted_as (image_header img) (ff_priv (fl_fs fl)) \<and> ready (snd (ff_dev (fl_fs fl))) \<and> fl_table fl = replicate 100 NULL
         \<and> isr_handlers cpu ! 0x20 = Some int_0x20_handler \<and> pg_interrupts pg
         \<and> cs_dev cpu = snd (insb io 0x20 (outb io 0x20 0x0B (remap_master_pic_C io io_delay (cs_dev (kn_cpu st))))))"
proof -
  define K T tk where KT: "K = lk_kernel_page_directory lk" "T = lk_system_task lk" "tk = cs_tk (kn_cpu st)"
  define pg where "pg = (tk_pg tk)\<lparr>pg_term := terminal_init (pg_term (tk_pg tk))\<rparr>"
  have nn: "T \<noteq> NULL" "lk_fat16_operations lk \<noteq> NULL" using lk by (simp_all add: layout_ok_def KT Let_def)
  obtain g cpu where c: "gdt_init (lk_tss lk) (lk_gdt_native lk) (lk_system_stack_bottom lk) (tk_gdt tk) = Some g"
    "idt_init (lk_idt_descriptors lk) (lk_isr_table lk)
       ((kn_cpu st)\<lparr>cs_dev := remap_master_pic_C io io_delay (cs_dev (kn_cpu st)), cs_tk := tk\<lparr>tk_gdt := g\<rparr>\<rparr>) = Some cpu" "cs_tk cpu = tk\<lparr>tk_gdt := g\<rparr>"
    "cs_dev cpu = remap_master_pic_C io io_delay (cs_dev (kn_cpu st))" "isr_handlers cpu ! 0x20 = Some int_0x20_handler" "isr_handlers cpu ! 20 = Some no_int_handler"
    by (rule start_cpu [OF gdt, folded KT])
  have pse': "pg_cr4 pg AND PSE_BIT \<noteq> 0" using pse by (simp add: pg_def KT)
  obtain ks pg1 P1 where m: "kheap_init (lk_kernel_end lk) (pg_ks pg) = Some ks"
    "paging_init (lk_boot_page_directory lk) K (pg\<lparr>pg_ks := ks\<rparr>) = Some pg1" "pg_inv pg1 P1 K 4088" "kernel_pages pg1 K" "small_pages (pg_mem pg1) K"
    "held (pg_ks pg1) P1 T 16384" "apart (pg_mem pg1) K T 16384" "user_space_empty (pg_mem pg1) K"
    by (rule start_memory [OF lk pse', of "lk_boot_page_directory lk", folded KT])
  define fl where "fl = (kn_fl st)\<lparr>fl_table_len := 100, fl_table := replicate 100 NULL, fl_ks := pg_ks pg1,
    fl_registered := (fl_registered (kn_fl st))[0 := lk_fat16_operations lk]\<rparr>"
  have fl0: "fl_registered fl ! 0 = lk_fat16_operations lk" "ready (snd (ff_dev (fl_fs fl)))" "fl_table fl = replicate 100 NULL"
    "kheap_inv (fl_ks fl) P1" "kheap_room (fl_ks fl) (4085 + 3)" using fs(1) disk(2) m(3) by (simp_all add: fl_def pg_inv_def MAX_FILESYSTEMS_def)
  obtain dev fl' P2 where f: "kn_disk_init F (lk_disks lk) fl = Some ((), fl')" "kheap_inv (fl_ks fl') P2" "kheap_room (fl_ks fl') 4085"
    "spares {} (fl_ks fl) P1 (fl_ks fl') P2" "dk_fs_operations (fl_disk fl') = lk_fat16_operations lk"
    "ff_priv (fl_fs fl') = private_of (image_header img) dev" "ready (snd (ff_dev (fl_fs fl')))" "fl_table fl' = replicate 100 NULL"
    using mount_disk [of F "lk_fat16_operations lk" rb junk "lk_disks lk" filename extension fl img nsec ready,
      OF fs(2) nn(2) fl0(1) disk(1) fl0(2) disk(3,4) fl0(4,5)] unfolding fl0(3) by metis
  have sp: "spares {} (pg_ks pg1) P1 (fl_ks fl') P2" using f(4) by (simp add: fl_def)
  define tk2 where "tk2 = tk\<lparr>tk_gdt := g, tk_pg := pg1\<lparr>pg_term := kernel_splash (terminal_init (pg_term pg1)), pg_ks := fl_ks fl'\<rparr>\<rparr>"
  have pg2: "tk_pg tk2 = pg1\<lparr>pg_term := kernel_splash (terminal_init (pg_term pg1)), pg_ks := fl_ks fl'\<rparr>" by (simp add: tk2_def)
  note p2 = paging_stays [OF m(3-5) sp f(2,3), of "kernel_splash (terminal_init (pg_term pg1))", folded pg2]
  have T2: "held (pg_ks (tk_pg tk2)) P2 T 16384" "apart (tk_mem tk2) K T 16384" using sp m(6,7) p2(4) by (simp_all add: spares_def pg2)
  have cur2: "pg_current_directory (tk_pg tk2) = K" and inv2: "pg_inv (tk_pg tk2) P2 K (4078 + 7)" using p2(1,2) by (simp_all add: kernel_pages_def)
  let ?dev = "snd (insb io 0x20 (outb io 0x20 0x0B (cs_dev cpu)))" and ?cpu = "cpu\<lparr>cs_tk := tk2\<rparr>"
  have int': "isr_handlers ?cpu ! 20 = Some no_int_handler" "frame_on_stack T regs frame" using c(6) int by (simp_all add: KT)
  have cpu: "cs_tk ?cpu = tk2" "cs_dev ?cpu = cs_dev cpu" "?cpu\<lparr>cs_dev := d, cs_tk := x\<rparr> = cpu\<lparr>cs_dev := d, cs_tk := x\<rparr>" for d x by simp_all
  obtain sys idle task tk' P' where t: "tasking_init io regs frame K T (lk_idle_function lk) ?cpu = Some (cpu\<lparr>cs_dev := ?dev, cs_tk := tk'\<rparr>)"
    "kernel_ok tk' P' K [T, task] [sys, idle] 4078"
    "fld tcb_process (tk_mem tk') T = sys" "fld tcb_process (tk_mem tk') task = idle"
    "fld process_page_directory (tk_mem tk') sys = K" "fld process_page_directory (tk_mem tk') idle = K"
    "load32 (tk_mem tk') (start_stack task True + 56) = lk_idle_function lk" "processes tk' = (processes tk2)(0 := sys, 1 := idle)"
    "tk_pg tk' = (tk_pg tk2)\<lparr>pg_interrupts := True, pg_ks := pg_ks (tk_pg tk'), pg_term := pg_term (tk_pg tk')\<rparr>"
    "pde (tk_mem tk') K 1023 = pde (tk_mem tk2) K 1023"
    "\<forall>u. unat u < 0xFFC00000 \<longrightarrow> ptbl (tk_mem tk2) K (dir_index u) \<noteq> 0 \<longrightarrow> ptbl (tk_mem tk') K (dir_index u) \<noteq> 0
       \<and> virtual_to_physical_addr (tk_pg tk') K u = virtual_to_physical_addr (tk_pg tk2) K u"
    by (rule tasking_ok [of ?cpu, unfolded cpu, OF inv2 cur2 p2(3) p2(5) [OF m(8)] T2(1) nn(1) T2(2) int', of io "lk_idle_function lk"]) (rule that; assumption)
  have reg: "fl_registered (kn_fl st) ! 0 = NULL" using fs(1) by (simp add: MAX_FILESYSTEMS_def)
  note run = kernel_main_parts [of lk st, folded KT, OF c(1-3) m(1,2) [unfolded pg_def] reg f(1) [unfolded fl_def] t(1) [unfolded tk2_def]]
  have pg': "pg_current_directory (tk_pg tk') = pg_current_directory (tk_pg tk2)" "pg_cr0 (tk_pg tk') = pg_cr0 (tk_pg tk2)"
    "pg_cr3 (tk_pg tk') = pg_cr3 (tk_pg tk2)" "pg_interrupts (tk_pg tk')" by (subst t(9), simp)+
  have "kernel_pages (tk_pg tk') K" using p2(2) t(10,11) pg'(1-3) by (simp add: kernel_pages_def)
  then have kp: "kernel_pages ((tk_pg tk')\<lparr>pg_term := x\<rparr>) K" for x
    using pg_same(2) [of "(tk_pg tk')\<lparr>pg_term := x\<rparr>" "tk_pg tk'" K] by (simp add: kernel_pages_def)
  have md: "mounted_as (image_header img) (private_of (image_header img) dev)" using disk(4) by (intro private_of_mounted) (simp add: fat16_medium_def)
  show ?thesis
    by (rule exI, rule exI [of _ P'], rule exI [of _ sys], rule exI [of _ idle], rule exI [of _ task], rule exI [of _ dev], rule conjI, rule run)
      (use t(2-8) kp pg'(4) f(5-8) c(4,5) md in \<open>simp add: Let_def KT kernel_ok_print\<close>)
qed

definition demo_layout :: kernel_layout where
  "demo_layout = \<lparr>lk_kernel_end = 0xC0131234, lk_boot_page_directory = 0xC0110000, lk_kernel_page_directory = 0xC0120000,
     lk_tss = 0xC0105000, lk_gdt_native = 0xC0104000, lk_system_stack_bottom = 0xC0128000, lk_idt_descriptors = 0xC0106000,
     lk_isr_table = (\<lambda>i. 0xC0102000 + 16 * word_of_nat i), lk_fat16_operations = 0xC0103000, lk_disks = 0x8000,
     lk_system_task = 0xC0124000, lk_idle_function = 0xC0101000\<rparr>"

lemma demo_layout_ok: "layout_ok demo_layout"
  by (simp add: layout_ok_def demo_layout_def regions_disjoint_def Let_def)

definition demo_kernel :: "(ata_view fat_fs, nat) kernel_state" where
  "demo_kernel = \<lparr>kn_cpu = \<lparr>cs_tk = \<lparr>tk_pg = \<lparr>pg_ks = \<lparr>ks_mem = \<lambda>_. 0, ks_heap = demo_heap\<rparr>, pg_current_directory = 0, pg_bitmap_begin = 0,
       pg_bitmap_end = 0, pg_cr0 = 0, pg_cr3 = 0, pg_cr4 = PSE_BIT, pg_interrupts = False,
       pg_term = \<lparr>video_memory = \<lambda>_. 0, terminal_row = 0, terminal_column = 0\<rparr>\<rparr>,
       tk_gdt = \<lparr>gdt_native = replicate 6 (replicate 8 0), gdt_segments = [], tss_global = zero_tss, GDT_PTR_limit = 0, GDT_PTR_base = 0\<rparr>,
       current_task = NULL, current_process = NULL, processes = \<lambda>_. NULL\<rparr>,
     cs_dev = 0, idt_descriptors = [], idtr_descriptor = \<lparr>idtr_limit = 0, idtr_base = 0\<rparr>, isr_handlers = []\<rparr>,
     kn_fl = demo_file_state \<lparr>ff_priv = avocado_priv, ff_dev = demo_dev, ff_desc = \<lambda>_. demo_desc\<rparr>\<rparr>"

theorem kernel_main_starts_witness:
  "\<exists>st'. kernel_main \<lparr>outb = (\<lambda>port v n. Suc n), insb = (\<lambda>port n. (0, n)), insw = (\<lambda>port n. (0, n))\<rparr> id
      (\<lambda>a. fat16_operations (sim_rb boot_volume) [0, 0] 0x8000 0x6000 0x6010) (replicate 15 0) 0xC0127F00 demo_layout demo_kernel = Some st'
     \<and> kernel_pages (tk_pg (cs_tk (kn_cpu st'))) 0xC0120000 \<and> dk_fs_operations (fl_disk (kn_fl st')) = 0xC0103000
     \<and> pg_interrupts (tk_pg (cs_tk (kn_cpu st')))"
proof -
  have st: "pg_cr4 (tk_pg (cs_tk (kn_cpu demo_kernel))) AND PSE_BIT \<noteq> 0" "length (gdt_native (tk_gdt (cs_tk (kn_cpu demo_kernel)))) = 6"
    "\<forall>d\<in>set (gdt_native (tk_gdt (cs_tk (kn_cpu demo_kernel)))). length d = 8"
    "fl_registered (kn_fl demo_kernel) = replicate 10 NULL"
    by (simp_all add: demo_kernel_def demo_file_state_def PSE_BIT_def MAX_FILESYSTEMS_def)
  have F: "(\<lambda>a. fat16_operations (sim_rb boot_volume) [0, 0] 0x8000 0x6000 0x6010) (lk_fat16_operations demo_layout)
      = fat16_operations (sim_rb boot_volume) [0, 0] (lk_disks demo_layout) 0x6000 0x6010" by (simp add: demo_layout_def)
  have int: "frame_on_stack (lk_system_task demo_layout) (replicate 15 0) 0xC0127F00" by (simp add: frame_on_stack_def demo_layout_def)
  have dev: "av_idle (snd (ff_dev (fl_fs (kn_fl demo_kernel))))" using demo_dev_idle by (simp add: demo_kernel_def demo_file_state_def)
  from kernel_main_starts [OF demo_layout_ok st F boot_volume_device dev _ boot_volume_fat16 int,
      where io = "\<lparr>outb = (\<lambda>port v n. Suc n), insb = (\<lambda>port n. (0, n)), insw = (\<lambda>port n. (0, n))\<rparr>" and io_delay = id]
  show ?thesis by (auto simp: Let_def demo_layout_def)
qed

end
