(* ===== verification/Memcheck.thy ===== *)
theory Memcheck
  imports Kheap Termio
begin

text \<open>
  The leak checker, \<^verbatim>\<open>src/memory/memcheck.c\<close>, and the wrappers around the allocator that \<^verbatim>\<open>src/memory/kheap.h\<close> selects
  when \<open>MEMCHECK\<close> is defined. \<open>allocation_table\<close> is an array in the memory, at the address \<open>tab\<close>; an entry has 112
  bytes. \<open>n_allocations\<close>, which \<^verbatim>\<open>src/memory/kheap.c\<close> uses without a declaration, is a number of 32 bits of the state.
  The names of files and functions are strings in the memory. \<open>None\<close> is a panic, or a string without end.
\<close>

section \<open>The code\<close>

record memcheck_state =
  mc_ks :: kstate
  mc_term :: terminal
  n_allocations :: u32
  allocation_table_len :: u32

abbreviation mc_mem :: "memcheck_state \<Rightarrow> mem" where "mc_mem s \<equiv> ks_mem (mc_ks s)"

definition mc_with :: "memcheck_state \<Rightarrow> mem \<Rightarrow> memcheck_state" where
  "mc_with s m = s\<lparr>mc_ks := (mc_ks s)\<lparr>ks_mem := m\<rparr>\<rparr>"

text \<open>The offsets in \<open>struct memcheck_entry\<close>.\<close>

abbreviation mce_blocks :: u32 where "mce_blocks \<equiv> 0"
abbreviation mce_ptr :: u32 where "mce_ptr \<equiv> 4"
abbreviation mce_filename :: u32 where "mce_filename \<equiv> 8"
abbreviation mce_function :: u32 where "mce_function \<equiv> 58"
abbreviation mce_line :: u32 where "mce_line \<equiv> 108"

definition sizeof_memcheck_entry :: u32 where "sizeof_memcheck_entry = 112"

definition table_entry :: "addr \<Rightarrow> u32 \<Rightarrow> addr" where
  "table_entry tab block = tab + sizeof_memcheck_entry * block"

definition memcheck_table_init :: "memcheck_state \<Rightarrow> memcheck_state" where
  "memcheck_table_init s = s\<lparr>allocation_table_len := KERNEL_HEAP_SIZE div KERNEL_HEAP_BLOCK_SIZE\<rparr>"

definition memcheck_allocate :: "addr \<Rightarrow> addr \<Rightarrow> u32 \<Rightarrow> addr \<Rightarrow> addr \<Rightarrow> u32 \<Rightarrow> memcheck_state \<Rightarrow> memcheck_state option" where
  "memcheck_allocate tab ptr sz filename func line s =
     (let base = hp_base_addr (ks_heap (mc_ks s))
      in if ptr < base \<or> base + KERNEL_HEAP_SIZE \<le> ptr then None
         else let e = table_entry tab (kheap_addr_to_block (mc_ks s) ptr);
                  m1 = set_fld mce_blocks (mc_mem s) e ((sz + KERNEL_HEAP_BLOCK_SIZE - 1) div KERNEL_HEAP_BLOCK_SIZE);
                  m2 = set_fld mce_line m1 e line;
                  m3 = set_fld mce_ptr m2 e ptr;
                  m4 = strncpy m3 (e + mce_filename) filename 50
              in Some (mc_with s (strncpy m4 (e + mce_function) func 50)))"

definition memcheck_free :: "addr \<Rightarrow> addr \<Rightarrow> memcheck_state \<Rightarrow> memcheck_state option" where
  "memcheck_free tab ptr s =
     (let e = table_entry tab (kheap_addr_to_block (mc_ks s) ptr)
      in if fld mce_blocks (mc_mem s) e = 0 then None
         else Some (mc_with s (set_fld mce_line (memset (mc_mem s) e 0 sizeof_memcheck_entry) e (- 1))))"

text \<open>One line of the report, and the loop over the table.\<close>

definition memcheck_report :: "mem \<Rightarrow> addr \<Rightarrow> terminal \<Rightarrow> terminal option" where
  "memcheck_report m e t =
     Option.bind (print_str m (e + mce_filename) (print_literal ''alloc: '' t)) (\<lambda>t1.
     Option.bind (print_str m (e + mce_function) (print_char 58 t1)) (\<lambda>t2.
     Option.bind (print_itoa (fld mce_line m e) (print_char 58 t2)) (\<lambda>t3.
     Option.bind (print_itoa (fld mce_ptr m e) (print_literal '' addr: '' t3)) (\<lambda>t4.
     Some (print_char 10 t4)))))"

function memcheck_check_loop :: "addr \<Rightarrow> addr \<Rightarrow> u32 \<Rightarrow> memcheck_state \<Rightarrow> memcheck_state option" where
  "memcheck_check_loop tab skip i s =
     (if i < allocation_table_len s
      then let e = table_entry tab i
           in if fld mce_blocks (mc_mem s) e = 0 then memcheck_check_loop tab skip (i + 1) s
              else case strcmp (mc_mem s) (e + mce_function) skip of
                     None \<Rightarrow> None
                   | Some r \<Rightarrow>
                       if r = 0 then memcheck_check_loop tab skip (i + 1) s
                       else case memcheck_report (mc_mem s) e (mc_term s) of
                              None \<Rightarrow> None
                            | Some t \<Rightarrow> memcheck_check_loop tab skip (i + 1) (s\<lparr>mc_term := t\<rparr>)
      else Some s)"
  by auto
termination
  by (relation "measure (\<lambda>(tab, skip, i, s). unat (allocation_table_len s) - unat i)") (auto intro: unat_inc_measure)

declare memcheck_check_loop.simps [simp del]

definition memcheck_check :: "addr \<Rightarrow> addr \<Rightarrow> memcheck_state \<Rightarrow> memcheck_state option" where
  "memcheck_check tab skip s = memcheck_check_loop tab skip 0 (s\<lparr>mc_term := print_char 10 (mc_term s)\<rparr>)"

text \<open>The allocator that the rest of the kernel calls under \<open>MEMCHECK\<close>.\<close>

definition memcheck_kheap_init :: "addr \<Rightarrow> memcheck_state \<Rightarrow> memcheck_state option" where
  "memcheck_kheap_init kernel_end s =
     (case kheap_init kernel_end (mc_ks s) of None \<Rightarrow> None | Some ks \<Rightarrow> Some (memcheck_table_init (s\<lparr>mc_ks := ks\<rparr>)))"

definition memcheck_kzalloc :: "addr \<Rightarrow> addr \<Rightarrow> addr \<Rightarrow> u32 \<Rightarrow> memcheck_state \<Rightarrow> u32 \<Rightarrow> (addr \<times> memcheck_state) option" where
  "memcheck_kzalloc tab filename func line s sz =
     (case kzalloc (mc_ks s) sz of None \<Rightarrow> None
      | Some (ptr, ks) \<Rightarrow>
          Option.bind (print_itoa (n_allocations s) (print_literal ''Allocations->>>>>>>'' (mc_term s))) (\<lambda>t1.
          Option.bind (print_itoa ptr (print_literal ''<<<<<<<<<'' t1)) (\<lambda>t2.
          Option.bind (memcheck_allocate tab ptr sz filename func line
              (s\<lparr>mc_ks := ks, mc_term := print_literal (''<<<<<<<<<'' @ [CHR 0x0A]) t2, n_allocations := n_allocations s + sz\<rparr>)) (\<lambda>s1.
          Some (ptr, s1)))))"

definition memcheck_kfree :: "addr \<Rightarrow> memcheck_state \<Rightarrow> addr \<Rightarrow> memcheck_state option" where
  "memcheck_kfree tab s ptr =
     (case memcheck_free tab ptr s of None \<Rightarrow> None
      | Some s1 \<Rightarrow> case kfree (mc_ks s1) ptr of None \<Rightarrow> None | Some ks \<Rightarrow> Some (s1\<lparr>mc_ks := ks\<rparr>))"

section \<open>Printing\<close>

text \<open>What \<open>itoa\<close> writes: the decimal number, but for the smallest integer.\<close>

definition put_text :: "u8 list \<Rightarrow> terminal \<Rightarrow> terminal" where
  "put_text str t = fold (\<lambda>c. terminal_put_char c 15) str t"

definition itoa_text :: "u32 \<Rightarrow> u8 list" where
  "itoa_text n = (if sint n = - (2 ^ 31) then [45, 69, 69, 69, 69, 69, 69, 69, 69, 69, 69] else dec_int (sint n))"

lemma put_text_append: "put_text (xs @ ys) t = put_text ys (put_text xs t)"
  by (simp add: put_text_def)

lemma print_str_text: "cstring m p str \<Longrightarrow> print_str m p t = Some (put_text str t)"
  by (simp add: print_str_def put_str_fold put_text_def)

lemma print_char_text: "print_char c t = put_text [c] t"
  by (simp add: print_char_def put_text_def)

lemma print_literal_text: "print_literal str t = put_text (map of_char str) t"
  by (simp add: print_literal_def put_text_def fold_map comp_def)

lemma print_itoa_text: "print_itoa n t = Some (put_text (itoa_text n) t)"
proof -
  have c: "c_int (sint n) = sint n" by (simp add: c_int_def sint_uint)
  have "cstring (itoa (\<lambda>_. 0) (sint n) 0x1000) 0x1000 (itoa_text n)"
  proof (cases "sint n = - (2 ^ 31)")
    case True
    then have "sint n = -2147483648" by simp
    moreover have "cstring (itoa (\<lambda>_. 0) (-2147483648) 0x1000) 0x1000 [45, 69, 69, 69, 69, 69, 69, 69, 69, 69, 69]"
      by (simp add: itoa_def c_int_def itoa_count.simps itoa_write.simps digit_to_char_def cstring_Cons store8_apply)
    ultimately show ?thesis by (simp add: itoa_text_def)
  next
    case False
    then show ?thesis using itoa_cstring [of "sint n" "\<lambda>_. 0" "0x1000"] c by (simp add: itoa_text_def)
  qed
  then show ?thesis by (simp add: print_itoa_def print_str_text)
qed

section \<open>Entries of the table\<close>

abbreviation table_size :: nat where "table_size \<equiv> 458752"

lemma table_entry_offset: "table_entry tab (word_of_nat b) = tab + word_of_nat (112 * b)"
  by (simp add: table_entry_def sizeof_memcheck_entry_def)

lemma entry_in_table: "in_region a (table_entry tab (word_of_nat b)) 112 \<Longrightarrow> b < 4096 \<Longrightarrow> in_region a tab table_size"
  unfolding table_entry_offset by (rule field_region) (auto simp: unat_word_of_nat_lt simp del: of_nat_mult)

lemma entries_disjoint:
  assumes "b < 4096" "c < 4096" "b \<noteq> c"
  shows "regions_disjoint (table_entry tab (word_of_nat b)) 112 (table_entry tab (word_of_nat c)) 112"
proof -
  have "regions_disjoint (tab + word_of_nat (112 * i)) 112 (tab + word_of_nat (112 * j)) 112" if "i < j" "j < 4096" for i j
  proof -
    have "word_of_nat (112 * j) = (word_of_nat (112 * i) + word_of_nat (112 * (j - i)) :: u32)"
      using that by (simp flip: of_nat_add add: algebra_simps)
    then have d: "(tab + word_of_nat (112 * j)) - (tab + word_of_nat (112 * i)) = word_of_nat (112 * (j - i))"
      "(tab + word_of_nat (112 * i)) - (tab + word_of_nat (112 * j)) = 0 - word_of_nat (112 * (j - i))" by simp_all
    have u: "unat (word_of_nat (112 * (j - i)) :: u32) = 112 * (j - i)" using that by (intro unat_word_of_nat_lt) simp
    then have "unat (0 - word_of_nat (112 * (j - i)) :: u32) = 2 ^ 32 - 112 * (j - i)" using that by (simp only: unat_sub_if') simp
    with u show ?thesis unfolding regions_disjoint_def d using that by auto
  qed
  from this [of b c] this [of c b] assms show ?thesis
    unfolding table_entry_offset regions_disjoint_sym [of _ _ "tab + word_of_nat (112 * b)"] by linarith
qed

text \<open>
  A name in an entry: \<open>strncpy\<close> copies at most 50 characters and fills what is left with zeroes, so a longer name ends where
  the next zero byte is.
\<close>

definition name_field :: "u8 list \<Rightarrow> u8 list" where
  "name_field str = take 50 str @ replicate (50 - length str) 0"

lemma length_name_field [simp]: "length (name_field str) = 50"
  by (simp add: name_field_def)

text \<open>The bytes that hold a name, and the 50 that the copy is given.\<close>

definition name_size :: "u8 list \<Rightarrow> nat" where "name_size str = max 50 (Suc (length str))"

lemma name_size_le: "50 \<le> name_size str" "Suc (length str) \<le> name_size str"
  by (simp_all add: name_size_def)

lemma strncpy_name:
  assumes "cstring m src str" "regions_disjoint dest 50 src 50"
  shows "strncpy m dest src 50 = write_bytes m dest (name_field str)"
  using strncpy_write_bytes [of dest 50 src m] assms(2) zbytes_cstring [OF assms(1), of 50] by (auto simp: name_field_def min_def)

lemma cstring_zbytes: "0 \<in> set (bytes m p n) \<Longrightarrow> n < 2 ^ 32 \<Longrightarrow> cstring m p (zbytes m p n)"
proof (induction n arbitrary: p)
  case (Suc n)
  then show ?case using length_zbytes_le [of m "p + 1" n] by (auto simp: zbytes_Suc cstring_Cons bytes_Cons)
qed simp

lemma bytes_word: "bytes m p 4 = word_bytes (load32 m p)"
proof -
  have "bytes m p 4 = map (\<lambda>i. m (p + word_of_nat i)) [0..<4]" by (simp add: bytes_def)
  also have "\<dots> = word_bytes (load32 m p)" unfolding word_bytes_def by (intro map_cong refl) (simp add: load32_byte)
  finally show ?thesis .
qed

lemma word_bytes_end: "unat w < 2 ^ 24 \<Longrightarrow> 0 \<in> set (word_bytes w)"
proof -
  assume "unat w < 2 ^ 24"
  then have "drop_bit 24 w = 0" by (simp add: u32_eq_iff_unat drop_bit_eq_div unat_div)
  then have "word_bytes w ! 3 = 0" by (simp add: word_bytes_def)
  then show ?thesis using nth_mem [of 3 "word_bytes w"] by simp
qed

text \<open>The effect of \<open>memcheck_allocate\<close> on an entry.\<close>

lemma fld_outside: "regions_disjoint (p + k) 4 q n \<Longrightarrow> (\<And>a. \<not> in_region a q n \<Longrightarrow> m' a = m a) \<Longrightarrow> fld k m' p = fld k m p"
  unfolding fld_def using regions_disjointD by (intro load32_cong) blast

lemma regions_disjoint_part:
  assumes "regions_disjoint p n q l" "unat k + j \<le> n" "n \<le> 2 ^ 32" "0 < j" "0 < l"
  shows "regions_disjoint (p + k) j q l"
  using assms field_region regions_disjointD by (intro regions_disjointI) blast+

lemma recorded_entry:
  fixes n line ptr :: u32
  assumes f: "cstring m filename fn" "regions_disjoint e 112 filename (name_size fn)"
    and g: "cstring m func fu" "regions_disjoint e 112 func (name_size fu)"
  defines "m3 \<equiv> set_fld mce_ptr (set_fld mce_line (set_fld mce_blocks m e n) e line) e ptr"
  defines "m' \<equiv> strncpy (strncpy m3 (e + mce_filename) filename 50) (e + mce_function) func 50"
  shows "fld mce_blocks m' e = n" "fld mce_ptr m' e = ptr" "fld mce_line m' e = line"
    "bytes m' (e + mce_filename) 100 = name_field fn @ name_field fu" "\<forall>a. \<not> in_region a e 112 \<longrightarrow> m' a = m a"
proof -
  let ?m4 = "strncpy m3 (e + mce_filename) filename 50"
  have out3: "m3 a = m a" if "\<not> in_region a e 112" for a
    using that by (simp add: m3_def set_fld_outside [of _ _ 112])
  have part: "in_region a e 112" if "in_region a (e + k) 50" "k = mce_filename \<or> k = mce_function" for a k
    using that field_region [of a e k 50 112] by auto
  have dis: "regions_disjoint (e + k) 50 q 50"
    if "regions_disjoint e 112 q (name_size l)" "k = mce_filename \<or> k = mce_function" for k q l
    using that regions_disjointD [OF that(1)] part in_region_mono [of _ q 50 "name_size l"] name_size_le(1) by (intro regions_disjointI) (blast | simp)+
  have keep: "cstring m1 q str" if "cstring m q str" "regions_disjoint e 112 q (name_size str)" "\<And>a. \<not> in_region a e 112 \<Longrightarrow> m1 a = m a"
    for m1 q str
  proof (rule cstring_cong [OF that(1) that(3)])
    fix a assume "in_region a q (Suc (length str))"
    then have "in_region a q (name_size str)" by (rule in_region_mono) (rule name_size_le)
    then show "\<not> in_region a e 112" using regions_disjointD [OF that(2)] by blast
  qed
  have m4: "?m4 = write_bytes m3 (e + mce_filename) (name_field fn)"
    by (rule strncpy_name [OF keep [OF f out3] dis [OF f(2)]]) simp_all
  have out4: "?m4 a = m a" if "\<not> in_region a e 112" for a
    unfolding m4 using that out3 part [of a mce_filename] by (subst write_bytes_outside) auto
  have m5: "m' = write_bytes ?m4 (e + mce_function) (name_field fu)"
    unfolding m'_def by (rule strncpy_name [OF keep [OF g out4] dis [OF g(2)]]) simp_all
  have both: "m' = write_bytes m3 (e + mce_filename) (name_field fn @ name_field fu)"
    unfolding m5 m4 by (subst write_bytes_append) (simp_all add: add.assoc)
  have "bytes m' (e + mce_filename) (length (name_field fn @ name_field fu)) = name_field fn @ name_field fu"
    unfolding both by (rule bytes_write_bytes) simp
  then show "bytes m' (e + mce_filename) 100 = name_field fn @ name_field fu" by simp
  show "\<forall>a. \<not> in_region a e 112 \<longrightarrow> m' a = m a"
    unfolding m5 using out4 part [of _ mce_function] by (intro allI impI, subst write_bytes_outside) auto
  have "fld k m' e = fld k m3 e" if "regions_disjoint (e + k) 4 (e + mce_filename) 100" for k
    by (rule fld_outside [OF that]) (simp add: both write_bytes_outside)
  then show "fld mce_blocks m' e = n" "fld mce_ptr m' e = ptr" "fld mce_line m' e = line"
    by (simp_all add: regions_disjoint_def m3_def fld_field)
qed

section \<open>The table lists what is live\<close>

text \<open>Where an allocation was made.\<close>

record site =
  site_file :: "u8 list"
  site_function :: "u8 list"
  site_line :: u32

text \<open>
  The names as the entry of the allocation shows them. A name of fewer than 50 characters is shown as it is. A longer one is
  cut, and since no zero byte ends it, what follows in the entry is shown with it: the function after the file, and the bytes
  of the line number after the function. That the string ends at all needs a short name or a line number that leaves a zero byte.
\<close>

definition shown_function :: "site \<Rightarrow> u8 list" where
  "shown_function w = takeWhile (\<lambda>b. b \<noteq> 0) (name_field (site_function w) @ word_bytes (site_line w))"

definition shown_file :: "site \<Rightarrow> u8 list" where
  "shown_file w = takeWhile (\<lambda>b. b \<noteq> 0) (name_field (site_file w) @ name_field (site_function w) @ word_bytes (site_line w))"

definition names_end :: "u8 list \<Rightarrow> u32 \<Rightarrow> bool" where
  "names_end fu line \<longleftrightarrow> length fu < 50 \<or> unat line < 2 ^ 24"

lemma shown_short:
  assumes "0 \<notin> set str" "length str < 50"
  shows "takeWhile (\<lambda>b. b \<noteq> 0) (name_field str @ xs) = str"
proof -
  have "name_field str @ xs = str @ 0 # replicate (49 - length str) 0 @ xs"
    using assms(2) by (simp add: name_field_def Suc_diff_Suc flip: replicate_Suc)
  then show ?thesis using assms(1) by (auto simp: takeWhile_append intro: takeWhile_eq_all_conv [THEN iffD2])
qed

lemma shown_names:
  assumes "0 \<notin> set (site_function w)" "length (site_function w) < 50"
  shows "shown_function w = site_function w"
    "0 \<notin> set (site_file w) \<Longrightarrow> length (site_file w) < 50 \<Longrightarrow> shown_file w = site_file w"
    "0 \<notin> set (site_file w) \<Longrightarrow> 50 \<le> length (site_file w) \<Longrightarrow> shown_file w = take 50 (site_file w) @ site_function w"
proof -
  show f: "shown_function w = site_function w" unfolding shown_function_def by (rule shown_short [OF assms])
  show "shown_file w = site_file w" if "0 \<notin> set (site_file w)" "length (site_file w) < 50"
    unfolding shown_file_def by (rule shown_short [OF that])
  show "shown_file w = take 50 (site_file w) @ site_function w" if "0 \<notin> set (site_file w)" "50 \<le> length (site_file w)"
    using that f in_set_takeD [of 0 50 "site_file w"] by (auto simp: shown_file_def shown_function_def name_field_def takeWhile_append)
qed

lemma names_end_byte: "names_end fu line \<Longrightarrow> 0 \<in> set (name_field fu @ word_bytes line)"
  using word_bytes_end [of line] by (auto simp: names_end_def name_field_def)

text \<open>
  The heap in normal operation below the checker: the table lies outside the heap, and its entry for a block counts the
  blocks of the allocation that begins there, or is 0. \<open>table_sites\<close> adds where each allocation was made.
\<close>

definition table_counts :: "addr \<Rightarrow> mem \<Rightarrow> heap \<Rightarrow> (addr \<rightharpoonup> nat) \<Rightarrow> bool" where
  "table_counts tab m hp P \<longleftrightarrow> (\<forall>b<4096. fld mce_blocks m (table_entry tab (word_of_nat b))
     = (case P (block_addr hp b) of None \<Rightarrow> 0 | Some l \<Rightarrow> word_of_nat (l div 4096)))"

definition entry_names :: "mem \<Rightarrow> addr \<Rightarrow> addr \<Rightarrow> site \<Rightarrow> bool" where
  "entry_names m e p w \<longleftrightarrow> bytes m (e + mce_filename) 100 = name_field (site_file w) @ name_field (site_function w)
     \<and> fld mce_line m e = site_line w \<and> fld mce_ptr m e = p \<and> names_end (site_function w) (site_line w)"

lemma entry_names_shown:
  assumes "entry_names m e p w"
  shows "cstring m (e + mce_filename) (shown_file w)" "cstring m (e + mce_function) (shown_function w)"
proof -
  let ?f = "name_field (site_file w)" and ?g = "name_field (site_function w)" and ?l = "word_bytes (site_line w)"
  have "bytes m (e + mce_filename) (50 + 50) = ?f @ ?g" using assms by (simp add: entry_names_def)
  then have g: "bytes m (e + mce_filename) 50 = ?f" "bytes m (e + mce_function) 50 = ?g"
    unfolding bytes_append by (simp_all add: add.assoc)
  have l: "bytes m (e + mce_line) 4 = ?l" using assms by (simp add: bytes_word entry_names_def flip: fld_def)
  have function_bytes: "bytes m (e + mce_function) (50 + 4) = ?g @ ?l"
    unfolding bytes_append g using l by (simp add: add.assoc)
  have file_bytes: "bytes m (e + mce_filename) (50 + (50 + 4)) = ?f @ ?g @ ?l"
    unfolding bytes_append [of m "e + mce_filename" 50] g(1) using function_bytes by (simp add: add.assoc)
  have z: "0 \<in> set (?g @ ?l)" using assms by (intro names_end_byte) (simp add: entry_names_def)
  show "cstring m (e + mce_filename) (shown_file w)"
    using cstring_zbytes [of m "e + mce_filename" "50 + (50 + 4)", unfolded zbytes_def file_bytes] z by (simp add: shown_file_def)
  show "cstring m (e + mce_function) (shown_function w)"
    using cstring_zbytes [of m "e + mce_function" "50 + 4", unfolded zbytes_def function_bytes] z by (simp add: shown_function_def)
qed

definition table_sites :: "addr \<Rightarrow> mem \<Rightarrow> heap \<Rightarrow> (addr \<rightharpoonup> site) \<Rightarrow> bool" where
  "table_sites tab m hp A \<longleftrightarrow> (\<forall>b<4096. \<forall>w. A (block_addr hp b) = Some w \<longrightarrow>
     entry_names m (table_entry tab (word_of_nat b)) (block_addr hp b) w)"

definition memcheck_inv :: "addr \<Rightarrow> memcheck_state \<Rightarrow> (addr \<rightharpoonup> nat) \<Rightarrow> bool" where
  "memcheck_inv tab s P \<longleftrightarrow> (let hp = ks_heap (mc_ks s) in
     kheap_inv (mc_ks s) P \<and> ht_len (hp_table hp) = 4096 \<and> allocation_table_len s = 4096
     \<and> unat (hp_base_addr hp) + 0x1000000 < 2 ^ 32 \<and> (\<forall>a. in_region a tab table_size \<longrightarrow> kheap_ext (mc_ks s) a)
     \<and> table_counts tab (mc_mem s) hp P)"

text \<open>The name of a file or function in the constant data of the kernel.\<close>

definition constant_name :: "addr \<Rightarrow> memcheck_state \<Rightarrow> addr \<Rightarrow> u8 list \<Rightarrow> bool" where
  "constant_name tab s p str \<longleftrightarrow> cstring (mc_mem s) p str \<and> regions_disjoint tab table_size p (name_size str)
     \<and> (\<forall>a. in_region a p (name_size str) \<longrightarrow> kheap_ext (mc_ks s) a)"

lemma kheap_ext_write:
  assumes "kheap_inv s P" "\<And>a. \<not> kheap_ext s a \<Longrightarrow> m a = ks_mem s a"
  shows "kheap_inv (s\<lparr>ks_mem := m\<rparr>) P" "kheap_room s k \<Longrightarrow> kheap_room (s\<lparr>ks_mem := m\<rparr>) k"
proof -
  let ?hp = "ks_heap s"
  from assms(1) obtain A where inv: "heap_inv (ks_mem s) ?hp A" and P: "P = live_map ?hp A"
    and top: "\<forall>b n. A b = Some n \<longrightarrow> b + n < unat (ht_len (hp_table ?hp))" by (auto simp: kheap_inv_def)
  have same: "m x = ks_mem s x" if "in_region x (ht_entries (hp_table ?hp)) (unat (ht_len (hp_table ?hp)))" for x
    using that assms(2) by (simp add: kheap_ext_def Let_def)
  show "kheap_inv (s\<lparr>ks_mem := m\<rparr>) P"
    unfolding kheap_inv_def using heap_inv_cong [OF inv same] P top by auto
  show "kheap_room (s\<lparr>ks_mem := m\<rparr>) k" if "kheap_room s k"
    using that same entry_region [of _ ?hp] by (auto simp: kheap_room_def Let_def simp del: of_nat_add of_nat_Suc)
qed

lemma kheap_ext_heap: "ks_heap s' = ks_heap s \<Longrightarrow> kheap_ext s' a = kheap_ext s a"
  by (simp add: kheap_ext_def)

text \<open>A live address is the address of a block of the table.\<close>

lemma live_block:
  assumes "kheap_inv s P" "P p = Some l" "ht_len (hp_table (ks_heap s)) = 4096"
  obtains b n where "b < 4096" "p = block_addr (ks_heap s) b" "l = 4096 * n" "0 < n" "n < 4096"
    "heap_addr_to_block (ks_heap s) p = word_of_nat b"
proof -
  from assms(1) obtain A where A: "heap_inv (ks_mem s) (ks_heap s) A" "P = live_map (ks_heap s) A"
    "\<forall>b n. A b = Some n \<longrightarrow> b + n < unat (ht_len (hp_table (ks_heap s)))" by (auto simp: kheap_inv_def)
  from live_map_Some [OF A(1), of p l] assms(2) A(2) obtain b n where b: "A b = Some n" "p = block_addr (ks_heap s) b" "l = 4096 * n" "0 < n"
    by metis
  have "b + n < 4096" using A(3) b(1) assms(3) by simp
  then show thesis
    using that [of b n] b heap_addr_to_block_block_addr [OF heap_invD(1) [OF A(1)], of b] assms(3) by simp
qed

lemma table_counts_update:
  assumes "table_counts tab m hp P" "heap_layout hp" "ht_len (hp_table hp) = 4096" "b < 4096"
    and "\<And>a. \<not> in_region a (table_entry tab (word_of_nat b)) 112 \<Longrightarrow> m' a = m a"
    and "fld mce_blocks m' (table_entry tab (word_of_nat b)) = (case x of None \<Rightarrow> 0 | Some l \<Rightarrow> word_of_nat (l div 4096))"
  shows "table_counts tab m' hp (P(block_addr hp b := x))"
  unfolding table_counts_def
proof (intro allI impI)
  fix c :: nat assume c: "c < 4096"
  show "fld mce_blocks m' (table_entry tab (word_of_nat c))
      = (case (P(block_addr hp b := x)) (block_addr hp c) of None \<Rightarrow> 0 | Some l \<Rightarrow> word_of_nat (l div 4096))"
  proof (cases "c = b")
    case False
    have "fld mce_blocks m' (table_entry tab (word_of_nat c)) = fld mce_blocks m (table_entry tab (word_of_nat c))"
      by (rule fld_cong [of _ 112]) (use assms(5) regions_disjointD [OF entries_disjoint [OF c assms(4) False]] in auto)
    moreover have "block_addr hp c \<noteq> block_addr hp b" using block_addr_inj [OF assms(2)] assms(3,4) c False by simp
    ultimately show ?thesis using assms(1) c by (simp add: table_counts_def)
  qed (simp add: assms(6))
qed

lemma entry_names_cong:
  assumes "entry_names m e p w" "\<And>a. in_region a e 112 \<Longrightarrow> m' a = m a"
  shows "entry_names m' e p w"
proof -
  have "bytes m' (e + mce_filename) 100 = bytes m (e + mce_filename) 100"
    by (rule bytes_cong_region) (use field_region [of _ e mce_filename 100 112] assms(2) in simp_all)
  moreover have "fld k m' e = fld k m e" if "unat k + 4 \<le> 112" for k by (rule fld_cong [OF assms(2) that]) simp_all
  ultimately show ?thesis using assms(1) by (simp add: entry_names_def)
qed

lemma table_sites_update:
  assumes "table_sites tab m hp A" "heap_layout hp" "ht_len (hp_table hp) = 4096" "b < 4096"
    and "\<And>a. \<not> in_region a (table_entry tab (word_of_nat b)) 112 \<Longrightarrow> m' a = m a"
    and "\<And>w. x = Some w \<Longrightarrow> entry_names m' (table_entry tab (word_of_nat b)) (block_addr hp b) w"
  shows "table_sites tab m' hp (A(block_addr hp b := x))"
  unfolding table_sites_def
proof (intro allI impI)
  fix c :: nat and w assume c: "c < 4096" "(A(block_addr hp b := x)) (block_addr hp c) = Some w"
  show "entry_names m' (table_entry tab (word_of_nat c)) (block_addr hp c) w"
  proof (cases "c = b")
    case True
    then show ?thesis using c assms(6) by simp
  next
    case False
    then have "block_addr hp c \<noteq> block_addr hp b" using block_addr_inj [OF assms(2)] assms(3,4) c by simp
    then have "entry_names m (table_entry tab (word_of_nat c)) (block_addr hp c) w" using c assms(1) by (simp add: table_sites_def)
    then show ?thesis
      by (rule entry_names_cong) (use assms(5) regions_disjointD [OF entries_disjoint [OF c(1) assms(4) False]] in auto)
  qed
qed

lemma block_range:
  assumes "unat (hp_base_addr hp) + 0x1000000 < 2 ^ 32" "b < 4096"
  shows "\<not> block_addr hp b < hp_base_addr hp" "\<not> hp_base_addr hp + KERNEL_HEAP_SIZE \<le> block_addr hp b"
proof -
  have "unat (block_addr hp b) = unat (hp_base_addr hp) + 4096 * b"
    unfolding block_addr_def using assms by (intro unat_add_of_nat) simp
  moreover have "unat (hp_base_addr hp + KERNEL_HEAP_SIZE) = unat (hp_base_addr hp) + 0x1000000"
    using assms(1) unat_word_ariths(1) [of "hp_base_addr hp" KERNEL_HEAP_SIZE] by (simp add: KERNEL_HEAP_SIZE_def)
  ultimately show "\<not> block_addr hp b < hp_base_addr hp" "\<not> hp_base_addr hp + KERNEL_HEAP_SIZE \<le> block_addr hp b"
    using assms(2) by (simp_all add: word_less_nat_alt word_le_nat_alt)
qed

lemma block_count:
  assumes "nblocks sz < 4096"
  shows "(sz + KERNEL_HEAP_BLOCK_SIZE - 1) div KERNEL_HEAP_BLOCK_SIZE = word_of_nat (nblocks sz)"
proof -
  have "unat sz + 4095 < 4096 * 4096" using assms by (simp add: div_less_iff_less_mult)
  then have "unat (sz + 4095) = unat sz + 4095" by (simp add: unat_word_ariths)
  then have "unat ((sz + 4095) div 4096) = nblocks sz" by (simp add: unat_div)
  then show ?thesis using assms by (simp add: add.commute [of 4095] u32_eq_iff_unat unat_word_of_nat_lt)
qed

lemma record_allocation:
  fixes s :: memcheck_state and p :: addr and sz line :: u32 and P :: "addr \<rightharpoonup> nat"
  defines "hp \<equiv> ks_heap (mc_ks s)" and "P' \<equiv> P(p \<mapsto> 4096 * nblocks sz)"
  assumes ks: "kheap_inv (mc_ks s) P'" and len: "ht_len (hp_table hp) = 4096" "allocation_table_len s = 4096"
    and base: "unat (hp_base_addr hp) + 0x1000000 < 2 ^ 32" and tab: "\<forall>a. in_region a tab table_size \<longrightarrow> kheap_ext (mc_ks s) a"
    and counts: "table_counts tab (mc_mem s) hp P" and names: "constant_name tab s filename fn" "constant_name tab s func fu" "names_end fu line"
  obtains m where "memcheck_allocate tab p sz filename func line s = Some (mc_with s m)" "memcheck_inv tab (mc_with s m) P'"
    "\<And>k. kheap_room (mc_ks s) k \<Longrightarrow> kheap_room (mc_ks (mc_with s m)) k" "\<And>a. \<not> in_region a tab table_size \<Longrightarrow> m a = mc_mem s a"
    "\<And>A. table_sites tab (mc_mem s) hp A \<Longrightarrow> table_sites tab m hp (A(p \<mapsto> \<lparr>site_file = fn, site_function = fu, site_line = line\<rparr>))"
proof -
  have "P' p = Some (4096 * nblocks sz)" by (simp add: P'_def)
  from live_block [OF ks this len(1) [unfolded hp_def]] obtain b where b: "b < 4096" "p = block_addr hp b" "0 < nblocks sz" "nblocks sz < 4096"
    "heap_addr_to_block hp p = word_of_nat b" unfolding hp_def by (metis mult_cancel1 zero_neq_numeral)
  let ?e = "table_entry tab (word_of_nat b)"
  have lay: "heap_layout hp" using ks heap_invD(1) by (auto simp: kheap_inv_def hp_def)
  have dis: "regions_disjoint ?e 112 q (name_size l)" if "regions_disjoint tab table_size q (name_size l)" for q l
    by (rule regions_disjointI) (use entry_in_table [OF _ b(1)] regions_disjointD [OF that] in \<open>auto simp: name_size_def\<close>)
  note str = names(1,2) [unfolded constant_name_def]
  note rec = recorded_entry [of "mc_mem s" filename fn ?e func fu "word_of_nat (nblocks sz)" line p]
  define m where "m = strncpy (strncpy (set_fld mce_ptr (set_fld mce_line (set_fld mce_blocks (mc_mem s) ?e (word_of_nat (nblocks sz))) ?e line) ?e p)
    (?e + mce_filename) filename 50) (?e + mce_function) func 50"
  have m: "fld mce_blocks m ?e = word_of_nat (nblocks sz)" "entry_names m ?e p \<lparr>site_file = fn, site_function = fu, site_line = line\<rparr>"
    "\<And>a. \<not> in_region a ?e 112 \<Longrightarrow> m a = mc_mem s a"
    using rec str dis names(3) unfolding m_def [symmetric] by (simp_all add: entry_names_def)
  have out: "m a = mc_mem s a" if "\<not> in_region a tab table_size" for a using that m(3) entry_in_table [OF _ b(1)] by blast
  have "memcheck_allocate tab p sz filename func line s = Some (mc_with s m)"
    unfolding memcheck_allocate_def Let_def hp_def [symmetric] kheap_addr_to_block_def b(5) block_count [OF b(4)] m_def
    using block_range [OF base b(1)] b(2) by simp
  moreover have ext: "m a = ks_mem (mc_ks s) a" if "\<not> kheap_ext (mc_ks s) a" for a using that tab out by blast
  have "memcheck_inv tab (mc_with s m) P'"
    using kheap_ext_write(1) [OF ks ext] len base tab table_counts_update [OF counts lay len(1) b(1) m(3), of "Some (4096 * nblocks sz)"] m(1) b(2)
    by (simp add: memcheck_inv_def mc_with_def hp_def P'_def kheap_ext_heap [of "(mc_ks s)\<lparr>ks_mem := m\<rparr>" "mc_ks s"])
  moreover have "kheap_room (mc_ks (mc_with s m)) k" if "kheap_room (mc_ks s) k" for k
    using kheap_ext_write(2) [OF ks ext that] by (simp add: mc_with_def)
  moreover have "table_sites tab m hp (A(p \<mapsto> \<lparr>site_file = fn, site_function = fu, site_line = line\<rparr>))" if "table_sites tab (mc_mem s) hp A" for A
    unfolding b(2) by (rule table_sites_update [OF that lay len(1) b(1) m(3)]) (use m(2) b(2) in simp_all)
  ultimately show thesis using that out by blast
qed

text \<open>The allocator moves neither the heap nor its table.\<close>

definition heap_place :: "heap \<Rightarrow> addr \<times> u32 \<times> addr" where
  "heap_place hp = (hp_base_addr hp, ht_len (hp_table hp), ht_entries (hp_table hp))"

lemma find_first_block_place: "find_first_block m hp n = Some (r, hp') \<Longrightarrow> heap_place hp' = heap_place hp"
  by (auto simp: find_first_block_def heap_place_def Let_def split: option.splits)

lemma kzalloc_place: "kzalloc s sz = Some (p, s') \<Longrightarrow> heap_place (ks_heap s') = heap_place (ks_heap s)"
  by (auto simp: heap_place_def kzalloc_def heap_malloc_def heap_malloc_blocks_def heap_add_in_use_def Let_def
      split: option.splits if_splits prod.splits dest!: find_first_block_place)

lemma kfree_place: "kfree s p = Some s' \<Longrightarrow> heap_place (ks_heap s') = heap_place (ks_heap s)"
  by (auto simp: heap_place_def kfree_def heap_free_def Let_def split: option.splits if_splits prod.splits)

lemma heap_place_block: "heap_place hp' = heap_place hp \<Longrightarrow> block_addr hp' b = block_addr hp b"
  by (simp add: heap_place_def block_addr_def)

lemma table_place:
  assumes "heap_place hp' = heap_place hp"
  shows "table_counts tab m hp' P = table_counts tab m hp P" "table_sites tab m hp' A = table_sites tab m hp A"
  by (simp_all add: table_counts_def table_sites_def heap_place_block [OF assms])

lemma memcheck_invD:
  assumes "memcheck_inv tab s P"
  shows "kheap_inv (mc_ks s) P" "ht_len (hp_table (ks_heap (mc_ks s))) = 4096" "allocation_table_len s = 4096"
    "unat (hp_base_addr (ks_heap (mc_ks s))) + 0x1000000 < 2 ^ 32" "\<forall>a. in_region a tab table_size \<longrightarrow> kheap_ext (mc_ks s) a"
    "table_counts tab (mc_mem s) (ks_heap (mc_ks s)) P"
  using assms by (simp_all add: memcheck_inv_def Let_def)

text \<open>The table after an operation of the heap that left it alone.\<close>

lemma table_kept:
  assumes "heap_place hp' = heap_place hp" and "\<And>a. in_region a tab table_size \<Longrightarrow> m' a = m a"
  shows "table_counts tab m hp P \<Longrightarrow> table_counts tab m' hp' P" "table_sites tab m hp A \<Longrightarrow> table_sites tab m' hp' A"
proof -
  have same: "m' a = m a" if "in_region a (table_entry tab (word_of_nat b)) 112" "b < 4096" for a b
    using that entry_in_table assms(2) by blast
  have "fld mce_blocks m' (table_entry tab (word_of_nat b)) = fld mce_blocks m (table_entry tab (word_of_nat b))" if "b < 4096" for b
    by (rule fld_cong [of _ 112]) (use same that in simp_all)
  then show "table_counts tab m' hp' P" if "table_counts tab m hp P"
    using that unfolding table_place [OF assms(1)] by (simp add: table_counts_def)
  show "table_sites tab m' hp' A" if "table_sites tab m hp A"
    unfolding table_place [OF assms(1)] table_sites_def
    using that entry_names_cong [of m _ _ _ m'] same unfolding table_sites_def heap_place_block [OF assms(1)] by blast
qed

lemma memcheck_alloc_granted:
  assumes inv: "memcheck_inv tab s P" and names: "constant_name tab s filename fn" "constant_name tab s func fu" "names_end fu line"
    and k: "kzalloc (mc_ks s) sz = Some (p, ks)" "kheap_inv ks (P(p \<mapsto> 4096 * nblocks sz))"
      "bytes (ks_mem ks) p (unat sz) = replicate (unat sz) 0"
      "\<forall>q l a. P q = Some l \<longrightarrow> in_region a q l \<longrightarrow> ks_mem ks a = mc_mem s a"
      "\<forall>a. kheap_ext (mc_ks s) a \<longrightarrow> kheap_ext ks a \<and> ks_mem ks a = mc_mem s a"
  obtains s' where "memcheck_kzalloc tab filename func line s sz = Some (p, s')"
    "memcheck_inv tab s' (P(p \<mapsto> 4096 * nblocks sz))" "\<And>k. kheap_room ks k \<Longrightarrow> kheap_room (mc_ks s') k"
    "bytes (mc_mem s') p (unat sz) = replicate (unat sz) 0"
    "\<And>q l a. P q = Some l \<Longrightarrow> in_region a q l \<Longrightarrow> mc_mem s' a = mc_mem s a"
    "\<And>a. kheap_ext (mc_ks s) a \<Longrightarrow> kheap_ext (mc_ks s') a" "\<And>a. kheap_ext (mc_ks s) a \<Longrightarrow> \<not> in_region a tab table_size \<Longrightarrow> mc_mem s' a = mc_mem s a"
    "\<And>A. table_sites tab (mc_mem s) (ks_heap (mc_ks s)) A \<Longrightarrow>
       table_sites tab (mc_mem s') (ks_heap (mc_ks s')) (A(p \<mapsto> \<lparr>site_file = fn, site_function = fu, site_line = line\<rparr>))"
proof -
  note i = memcheck_invD [OF inv]
  let ?P = "\<lambda>p. P(p \<mapsto> 4096 * nblocks sz)"
  have place: "heap_place (ks_heap ks) = heap_place (ks_heap (mc_ks s))" by (rule kzalloc_place [OF k(1)])
  define s1 where "s1 = s\<lparr>mc_ks := ks, mc_term := print_literal (''<<<<<<<<<'' @ [CHR 0x0A]) (put_text (itoa_text p) (print_literal ''<<<<<<<<<''
    (put_text (itoa_text (n_allocations s)) (print_literal ''Allocations->>>>>>>'' (mc_term s))))), n_allocations := n_allocations s + sz\<rparr>"
  have s1: "mc_ks s1 = ks" "allocation_table_len s1 = 4096" using i(3) by (simp_all add: s1_def)
  have name: "constant_name tab s1 q str" if "constant_name tab s q str" for q str
    using that k(5) cstring_cong [of "mc_mem s" q str "ks_mem ks"] in_region_mono [of _ q "Suc (length str)" "name_size str"] name_size_le
    by (auto simp: constant_name_def s1)
  have tk: "ks_mem ks a = mc_mem s a" if "in_region a tab table_size" for a using that i(5) k(5) by blast
  have pl: "ht_len (hp_table (ks_heap ks)) = 4096" "hp_base_addr (ks_heap ks) = hp_base_addr (ks_heap (mc_ks s))"
    using place i(2) by (simp_all add: heap_place_def)
  obtain m where m: "memcheck_allocate tab p sz filename func line s1 = Some (mc_with s1 m)" "memcheck_inv tab (mc_with s1 m) (?P p)"
    "\<And>k. kheap_room ks k \<Longrightarrow> kheap_room (mc_ks (mc_with s1 m)) k" "\<And>a. \<not> in_region a tab table_size \<Longrightarrow> m a = ks_mem ks a"
    "\<And>A. table_sites tab (ks_mem ks) (ks_heap ks) A \<Longrightarrow> table_sites tab m (ks_heap ks) (A(p \<mapsto> \<lparr>site_file = fn, site_function = fu, site_line = line\<rparr>))"
    by (rule record_allocation [of s1 P p sz tab filename fn func fu line, unfolded s1(1)])
      (use s1(2) k(2) pl i(4,5) k(5) name [OF names(1)] name [OF names(2)] names(3) table_kept(1) [OF place tk i(6)] in auto)
  have ext: "kheap_ext (mc_ks (mc_with s1 m)) a = kheap_ext ks a" for a by (rule kheap_ext_heap) (simp add: mc_with_def s1)
  have live: "\<not> in_region a tab table_size" if "P q = Some l" "in_region a q l" for q l a
    using that i(5) kh.ext_not_live [OF i(1)] by blast
  have new: "\<not> in_region a tab table_size" if "in_region a p (unat sz)" for a
  proof -
    have "in_region a p (4096 * nblocks sz)" using that nblocks_le in_region_mono by blast
    then have "\<not> kheap_ext ks a" using kh.ext_not_live [OF k(2), of p] by simp
    then show ?thesis using i(5) k(5) by blast
  qed
  show thesis
  proof (rule that [of "mc_with s1 m"])
    show "memcheck_kzalloc tab filename func line s sz = Some (p, mc_with s1 m)"
      using k(1) m(1) by (simp add: memcheck_kzalloc_def print_itoa_text s1_def)
    have "bytes m p (unat sz) = bytes (ks_mem ks) p (unat sz)"
      using unat_lt_2p32 [of sz] new m(4) by (intro bytes_cong_region) auto
    then show "bytes (mc_mem (mc_with s1 m)) p (unat sz) = replicate (unat sz) 0" using k(3) by (simp add: mc_with_def)
  qed (use k(4,5) m(2-5) live ext s1 table_kept(2) [OF place tk] in \<open>auto simp: mc_with_def\<close>)
qed

text \<open>A request that fits after the last allocation is granted; of any other, only what the search finds is known.\<close>

lemma memcheck_alloc:
  assumes inv: "memcheck_inv tab s P" and names: "constant_name tab s filename fn" "constant_name tab s func fu" "names_end fu line"
    and room: "kheap_room (mc_ks s) k" "0 < sz" "nblocks sz \<le> k"
  obtains p s' where "memcheck_kzalloc tab filename func line s sz = Some (p, s')" "p \<noteq> NULL" "P p = None" "p mod 4096 = 0"
    "memcheck_inv tab s' (P(p \<mapsto> 4096 * nblocks sz))" "kheap_room (mc_ks s') (k - nblocks sz)"
    "bytes (mc_mem s') p (unat sz) = replicate (unat sz) 0"
    "\<And>q l a. P q = Some l \<Longrightarrow> in_region a q l \<Longrightarrow> mc_mem s' a = mc_mem s a"
    "\<And>a. kheap_ext (mc_ks s) a \<Longrightarrow> kheap_ext (mc_ks s') a" "\<And>a. kheap_ext (mc_ks s) a \<Longrightarrow> \<not> in_region a tab table_size \<Longrightarrow> mc_mem s' a = mc_mem s a"
    "before_last_block (mc_ks s) p sz"
proof -
  note i = memcheck_invD [OF inv]
  obtain p ks where k: "kzalloc (mc_ks s) sz = Some (p, ks)" "p \<noteq> NULL" "P p = None" "p mod 4096 = 0" "kheap_inv ks (P(p \<mapsto> 4096 * nblocks sz))"
    "kheap_room ks (k - nblocks sz)" "bytes (ks_mem ks) p (unat sz) = replicate (unat sz) 0"
    "\<forall>q l a. P q = Some l \<longrightarrow> in_region a q l \<longrightarrow> ks_mem ks a = mc_mem s a"
    "\<forall>a. kheap_ext (mc_ks s) a \<longrightarrow> kheap_ext ks a \<and> ks_mem ks a = mc_mem s a"
    using kh.alloc_ok [OF i(1) room] by metis
  obtain H where "heap_inv (mc_mem s) (ks_heap (mc_ks s)) H" using i(1) by (auto simp: kheap_inv_def)
  note b = room_before_last(1) [OF this room k(1)]
  obtain s' where "memcheck_kzalloc tab filename func line s sz = Some (p, s')" "memcheck_inv tab s' (P(p \<mapsto> 4096 * nblocks sz))"
    "\<And>k. kheap_room ks k \<Longrightarrow> kheap_room (mc_ks s') k" "bytes (mc_mem s') p (unat sz) = replicate (unat sz) 0"
    "\<And>q l a. P q = Some l \<Longrightarrow> in_region a q l \<Longrightarrow> mc_mem s' a = mc_mem s a" "\<And>a. kheap_ext (mc_ks s) a \<Longrightarrow> kheap_ext (mc_ks s') a"
    "\<And>a. kheap_ext (mc_ks s) a \<Longrightarrow> \<not> in_region a tab table_size \<Longrightarrow> mc_mem s' a = mc_mem s a"
    by (rule memcheck_alloc_granted [OF inv names k(1,5,7-9)]) (rule that; assumption)
  then show thesis using k(2-4,6) b by (intro that [of p s']) blast+
qed

lemma memcheck_alloc_any:
  assumes inv: "memcheck_inv tab s P" "kheap_last (mc_ks s)"
    and names: "constant_name tab s filename fn" "constant_name tab s func fu" "names_end fu line"
    and run: "memcheck_kzalloc tab filename func line s sz = Some (p, s')" "before_last_block (mc_ks s) p sz"
  shows "memcheck_inv tab s' (P(p \<mapsto> 4096 * nblocks sz))" "kheap_last (mc_ks s')"
    "table_sites tab (mc_mem s) (ks_heap (mc_ks s)) A \<Longrightarrow>
       table_sites tab (mc_mem s') (ks_heap (mc_ks s')) (A(p \<mapsto> \<lparr>site_file = fn, site_function = fu, site_line = line\<rparr>))"
proof -
  note i = memcheck_invD [OF inv(1)]
  obtain ks where k: "kzalloc (mc_ks s) sz = Some (p, ks)" and low: "\<not> p < hp_base_addr (ks_heap ks)"
    using run(1) by (auto simp: memcheck_kzalloc_def memcheck_allocate_def bind_eq_Some_conv Let_def split: option.splits if_splits)
  have "hp_base_addr (ks_heap ks) \<noteq> 0"
    using kzalloc_place [OF k] i(1) heap_layoutD(4) [OF heap_invD(1)] by (fastforce simp: heap_place_def kheap_inv_def)
  then have "p \<noteq> NULL" using low by (auto simp: word_gt_0)
  then have r: "kheap_inv ks (P(p \<mapsto> 4096 * nblocks sz))" "kheap_last ks" "bytes (ks_mem ks) p (unat sz) = replicate (unat sz) 0"
    "\<forall>q l a. P q = Some l \<longrightarrow> in_region a q l \<longrightarrow> ks_mem ks a = mc_mem s a"
    "\<forall>a. kheap_ext (mc_ks s) a \<longrightarrow> kheap_ext ks a \<and> ks_mem ks a = mc_mem s a"
    using kzalloc_any(2) [OF i(1) inv(2) k _ run(2)] by blast+
  obtain s1 where s1: "memcheck_kzalloc tab filename func line s sz = Some (p, s1)" "memcheck_inv tab s1 (P(p \<mapsto> 4096 * nblocks sz))"
    "\<And>k. kheap_room ks k \<Longrightarrow> kheap_room (mc_ks s1) k" "\<And>A. table_sites tab (mc_mem s) (ks_heap (mc_ks s)) A \<Longrightarrow>
       table_sites tab (mc_mem s1) (ks_heap (mc_ks s1)) (A(p \<mapsto> \<lparr>site_file = fn, site_function = fu, site_line = line\<rparr>))"
    by (rule memcheck_alloc_granted [OF inv(1) names k r(1,3-5)]) (rule that; assumption)
  have e: "s1 = s'" using s1(1) run(1) by simp
  show "memcheck_inv tab s' (P(p \<mapsto> 4096 * nblocks sz))" using s1(2) unfolding e .
  show "kheap_last (mc_ks s')" using s1(3) [of 0] r(2) unfolding e by (simp add: kheap_last_room)
  show "table_sites tab (mc_mem s) (ks_heap (mc_ks s)) A \<Longrightarrow>
       table_sites tab (mc_mem s') (ks_heap (mc_ks s')) (A(p \<mapsto> \<lparr>site_file = fn, site_function = fu, site_line = line\<rparr>))"
    using s1(4) unfolding e .
qed

lemma memcheck_release:
  assumes inv: "memcheck_inv tab s P" and p: "P p = Some l"
  obtains s' where "memcheck_kfree tab s p = Some s'" "memcheck_inv tab s' (P(p := None))" "\<And>k. kheap_room (mc_ks s) k \<Longrightarrow> kheap_room (mc_ks s') k"
    "\<And>q l' a. P q = Some l' \<Longrightarrow> q \<noteq> p \<Longrightarrow> in_region a q l' \<Longrightarrow> mc_mem s' a = mc_mem s a"
    "\<And>a. kheap_ext (mc_ks s) a \<Longrightarrow> kheap_ext (mc_ks s') a" "\<And>a. kheap_ext (mc_ks s) a \<Longrightarrow> \<not> in_region a tab table_size \<Longrightarrow> mc_mem s' a = mc_mem s a"
    "\<And>A. table_sites tab (mc_mem s) (ks_heap (mc_ks s)) A \<Longrightarrow> table_sites tab (mc_mem s') (ks_heap (mc_ks s')) (A(p := None))"
proof -
  note i = memcheck_invD [OF inv]
  from live_block [OF i(1) p i(2)] obtain b n where b: "b < 4096" "p = block_addr (ks_heap (mc_ks s)) b" "l = 4096 * n" "0 < n" "n < 4096"
    "heap_addr_to_block (ks_heap (mc_ks s)) p = word_of_nat b" by metis
  let ?e = "table_entry tab (word_of_nat b)" and ?hp = "ks_heap (mc_ks s)"
  define m where "m = set_fld mce_line (fill_mem (mc_mem s) ?e 112 0) ?e (- 1)"
  have lay: "heap_layout ?hp" using i(1) heap_invD(1) by (auto simp: kheap_inv_def)
  have m: "\<not> in_region a ?e 112 \<Longrightarrow> m a = mc_mem s a" for a by (simp add: m_def set_fld_outside [of _ _ 112] fill_mem_outside)
  have "fld mce_blocks m ?e = fld mce_blocks (fill_mem (mc_mem s) ?e 112 0) ?e" by (simp add: m_def fld_field)
  also have "\<dots> = 0" unfolding fld_def by (rule load32_zero) (use field_region [of _ ?e 0 4 112] in \<open>simp add: fill_mem_inside\<close>)
  finally have zero: "fld mce_blocks m ?e = 0" .
  let ?ks = "(mc_ks s)\<lparr>ks_mem := m\<rparr>"
  have out: "m a = mc_mem s a" if "\<not> in_region a tab table_size" for a using that m entry_in_table [OF _ b(1)] by blast
  have ext: "m a = ks_mem (mc_ks s) a" if "\<not> kheap_ext (mc_ks s) a" for a using that i(5) out by blast
  have "word_of_nat n \<noteq> (0 :: u32)" using b(4,5) by (simp add: u32_eq_iff_unat unat_word_of_nat_lt)
  then have "fld mce_blocks (mc_mem s) ?e \<noteq> 0" using i(6) b(1,2,3) p by (simp add: table_counts_def)
  then have mf: "memcheck_free tab p s = Some (s\<lparr>mc_ks := ?ks\<rparr>)"
    by (simp add: memcheck_free_def kheap_addr_to_block_def b(6) memset_0 sizeof_memcheck_entry_def mc_with_def m_def Let_def)
  note ki = kheap_ext_write [OF i(1) ext]
  obtain ks where k: "kfree ?ks p = Some ks" "kheap_inv ks (P(p := None))" "\<forall>k. kheap_room ?ks k \<longrightarrow> kheap_room ks k"
    "\<forall>q l' a. P q = Some l' \<longrightarrow> q \<noteq> p \<longrightarrow> in_region a q l' \<longrightarrow> ks_mem ks a = m a"
    "\<forall>a. kheap_ext ?ks a \<longrightarrow> kheap_ext ks a \<and> ks_mem ks a = m a"
    using kh.release_ok [OF ki(1) p] by auto
  have place: "heap_place (ks_heap ks) = heap_place ?hp" using kfree_place [OF k(1)] by simp
  have ext': "kheap_ext ?ks a = kheap_ext (mc_ks s) a" for a by (rule kheap_ext_heap) simp
  have live: "\<not> in_region a tab table_size" if "P q = Some l'" "in_region a q l'" for q l' a
    using that i(5) kh.ext_not_live [OF i(1)] by blast
  have tk: "ks_mem ks a = m a" if "in_region a tab table_size" for a using that i(5) k(5) ext' by blast
  have counts: "table_counts tab m ?hp (P(p := None))"
    unfolding b(2) by (rule table_counts_update [OF i(6) lay i(2) b(1) m]) (simp_all add: zero)
  have sites: "table_sites tab m ?hp (A(p := None))" if "table_sites tab (mc_mem s) ?hp A" for A
    unfolding b(2) by (rule table_sites_update [OF that lay i(2) b(1) m]) simp_all
  show thesis
  proof (rule that [of "s\<lparr>mc_ks := ks\<rparr>"])
    show "memcheck_kfree tab s p = Some (s\<lparr>mc_ks := ks\<rparr>)" using mf k(1) by (simp add: memcheck_kfree_def)
    show "memcheck_inv tab (s\<lparr>mc_ks := ks\<rparr>) (P(p := None))"
      using k(2) place i(2-5) k(5) ext' table_kept(1) [OF place tk counts] by (simp add: memcheck_inv_def heap_place_def)
  qed (use k(3-5) ki(2) ext' live out table_kept(2) [OF place tk sites] in auto)
qed

text \<open>Names in the constant data stay as they are.\<close>

lemma constant_name_kept:
  assumes "constant_name tab s q str" "\<And>a. kheap_ext (mc_ks s) a \<Longrightarrow> kheap_ext (mc_ks s') a"
    and "\<And>a. kheap_ext (mc_ks s) a \<Longrightarrow> \<not> in_region a tab table_size \<Longrightarrow> mc_mem s' a = mc_mem s a"
  shows "constant_name tab s' q str"
proof -
  note c = assms(1) [unfolded constant_name_def]
  let ?n = "name_size str"
  have same: "mc_mem s' a = mc_mem s a" if "in_region a q ?n" for a
    using that assms(1,3) regions_disjointD [of tab table_size q ?n a] unfolding constant_name_def by blast
  have "Suc (length str) \<le> ?n" by (rule name_size_le)
  then have "cstring (mc_mem s') q str"
    using c same in_region_mono [of _ q "Suc (length str)" ?n] cstring_cong [of "mc_mem s" q str "mc_mem s'"] by blast
  then show ?thesis using c assms(2) unfolding constant_name_def by blast
qed

lemma memcheck_write:
  assumes inv: "memcheck_inv tab s P" and p: "P p = Some l" and m: "\<And>a. \<not> in_region a p l \<Longrightarrow> m a = mc_mem s a"
  shows "memcheck_inv tab (mc_with s m) P" "\<And>a. kheap_ext (mc_ks s) a \<Longrightarrow> m a = mc_mem s a" "kheap_ext (mc_ks (mc_with s m)) a = kheap_ext (mc_ks s) a"
    "table_sites tab (mc_mem s) (ks_heap (mc_ks s)) A \<Longrightarrow> table_sites tab m (ks_heap (mc_ks s)) A"
    "kheap_room (mc_ks s) k \<Longrightarrow> kheap_room (mc_ks (mc_with s m)) k"
proof -
  note i = memcheck_invD [OF inv]
  show same: "m a = mc_mem s a" if "kheap_ext (mc_ks s) a" for a using that kh.ext_not_live [OF i(1) p] m by blast
  have ext: "kheap_ext ((mc_ks s)\<lparr>ks_mem := m\<rparr>) a = kheap_ext (mc_ks s) a" for a by (rule kheap_ext_heap) simp
  then show "kheap_ext (mc_ks (mc_with s m)) a = kheap_ext (mc_ks s) a" by (simp add: mc_with_def)
  have tk: "m a = mc_mem s a" if "in_region a tab table_size" for a using that i(5) same by blast
  note w = kh.write_live [OF i(1) p m]
  show "memcheck_inv tab (mc_with s m) P"
    using w i(2-5) ext table_kept(1) [OF refl tk i(6)] by (simp add: memcheck_inv_def mc_with_def)
  show "table_sites tab m (ks_heap (mc_ks s)) A" if "table_sites tab (mc_mem s) (ks_heap (mc_ks s)) A" using table_kept(2) [OF refl tk that] .
  show "kheap_room (mc_ks (mc_with s m)) k" if "kheap_room (mc_ks s) k" using w that by (simp add: mc_with_def)
qed

text \<open>
  The wrappers keep the contract of the allocator, for every place that calls them: what the kernel proves of itself
  on \<open>kzalloc\<close> and \<open>kfree\<close> through the contract also holds with the checker in between.
\<close>

interpretation mc: allocator "memcheck_kzalloc tab filename func line" "memcheck_kfree tab" "\<lambda>s. mc_mem s" mc_with
  "\<lambda>s P. memcheck_inv tab s P \<and> constant_name tab s filename fn \<and> constant_name tab s func fu \<and> names_end fu line"
  "\<lambda>s. kheap_room (mc_ks s)" "\<lambda>s a. kheap_ext (mc_ks s) a \<and> \<not> in_region a tab table_size"
  for tab filename func line fn fu
proof (unfold_locales, goal_cases)
  case (1 s P k sz)
  then have f: "memcheck_inv tab s P" "constant_name tab s filename fn" "constant_name tab s func fu" "names_end fu line" by blast+
  obtain p s' where a: "memcheck_kzalloc tab filename func line s sz = Some (p, s')" "p \<noteq> NULL" "P p = None" "p mod 4096 = 0"
    "memcheck_inv tab s' (P(p \<mapsto> 4096 * nblocks sz))" "kheap_room (mc_ks s') (k - nblocks sz)" "bytes (mc_mem s') p (unat sz) = replicate (unat sz) 0"
    "\<And>q l a. P q = Some l \<Longrightarrow> in_region a q l \<Longrightarrow> mc_mem s' a = mc_mem s a"
    "\<And>a. kheap_ext (mc_ks s) a \<Longrightarrow> kheap_ext (mc_ks s') a" "\<And>a. kheap_ext (mc_ks s) a \<Longrightarrow> \<not> in_region a tab table_size \<Longrightarrow> mc_mem s' a = mc_mem s a"
    by (rule memcheck_alloc [OF f 1(2-4)]) (rule that; assumption)
  note n = constant_name_kept [OF f(2) a(9,10)] constant_name_kept [OF f(3) a(9,10)]
  show ?case by (intro exI [of _ p] exI [of _ s'] conjI allI impI) (use a n f(4) in blast)+
next
  case (2 s P p l)
  then have f: "memcheck_inv tab s P" "constant_name tab s filename fn" "constant_name tab s func fu" "names_end fu line" by blast+
  obtain s' where a: "memcheck_kfree tab s p = Some s'" "memcheck_inv tab s' (P(p := None))" "\<And>k. kheap_room (mc_ks s) k \<Longrightarrow> kheap_room (mc_ks s') k"
    "\<And>q l' a. P q = Some l' \<Longrightarrow> q \<noteq> p \<Longrightarrow> in_region a q l' \<Longrightarrow> mc_mem s' a = mc_mem s a"
    "\<And>a. kheap_ext (mc_ks s) a \<Longrightarrow> kheap_ext (mc_ks s') a" "\<And>a. kheap_ext (mc_ks s) a \<Longrightarrow> \<not> in_region a tab table_size \<Longrightarrow> mc_mem s' a = mc_mem s a"
    by (rule memcheck_release [OF f(1) 2(2)]) (rule that; assumption)
  note n = constant_name_kept [OF f(2) a(5,6)] constant_name_kept [OF f(3) a(5,6)]
  show ?case by (intro exI [of _ s'] conjI allI impI) (use a n f(4) in blast)+
next
  case (3 s P p l m)
  then have inv: "memcheck_inv tab s P" by blast
  note w = memcheck_write [OF inv 3(2,3)]
  have n: "constant_name tab (mc_with s m) filename fn" "constant_name tab (mc_with s m) func fu"
    by (rule constant_name_kept [of tab s]; use 3(1) w(2,3) in \<open>simp add: mc_with_def\<close>)+
  show ?case using w n 3(1) by blast
next
  case (4 s m)
  show ?case by (simp add: mc_with_def)
next
  case (5 s P p l q l')
  then show ?case using kh.live_disjoint [OF memcheck_invD(1)] by blast
next
  case (6 s P p l a)
  then show ?case using kh.ext_not_live [OF memcheck_invD(1)] by blast
qed

section \<open>Sequences of operations\<close>

lemma kheap_init_place:
  assumes "kheap_init kernel_end s = Some s'" "unat kernel_end + 0x1003000 < 2 ^ 32"
  shows "ht_len (hp_table (ks_heap s')) = 4096" "unat (hp_base_addr (ks_heap s')) + 0x1000000 < 2 ^ 32"
proof -
  let ?b = "page_round_up kernel_end"
  have len: "KERNEL_HEAP_SIZE div 4096 = 4096" by (simp add: KERNEL_HEAP_SIZE_def)
  have b: "unat ?b \<le> unat kernel_end + 4095" using page_round_up_eq [of kernel_end] assms(2) by simp
  then have b1: "unat (?b + 4096) = unat ?b + 4096" using assms(2) by (simp add: unat_word_ariths)
  have "unat (page_round_up (?b + 4096)) = 4096 * ((unat ?b + 4096 + 4095) div 4096)"
    using page_round_up_eq [of "?b + 4096"] b b1 assms(2) by simp
  also have "\<dots> = unat ?b + 4096" using page_round_up_eq [of kernel_end] assms(2) by simp
  finally have "unat (page_round_up (?b + 4096)) + 0x1000000 < 2 ^ 32" using b assms(2) by simp
  moreover have "hp_base_addr (ks_heap s') = page_round_up (?b + 4096)" "ht_len (hp_table (ks_heap s')) = 4096"
    using assms(1) by (auto simp: kheap_init_def heap_create_def Let_def len status_defs split: if_splits)
  ultimately show "ht_len (hp_table (ks_heap s')) = 4096" "unat (hp_base_addr (ks_heap s')) + 0x1000000 < 2 ^ 32" by simp_all
qed

text \<open>
  The states under the checker, with what is live and where it was allocated: the table begins as zeroes of the kernel
  image; allocations that end before the last block are made, wherever the search finds them, for names of the constant data
  of the kernel; live regions are freed and written.
\<close>

inductive memcheck_reach :: "addr \<Rightarrow> addr \<Rightarrow> memcheck_state \<Rightarrow> (addr \<rightharpoonup> nat) \<Rightarrow> (addr \<rightharpoonup> site) \<Rightarrow> bool" for kernel_end tab where
  init: "memcheck_kheap_init kernel_end s0 = Some s \<Longrightarrow> \<forall>a. in_region a tab table_size \<longrightarrow> a < kernel_end \<and> mc_mem s0 a = 0 \<Longrightarrow>
    memcheck_reach kernel_end tab s Map.empty Map.empty"
| alloc: "memcheck_reach kernel_end tab s P A \<Longrightarrow> constant_name tab s filename fn \<Longrightarrow> constant_name tab s func fu \<Longrightarrow>
    names_end fu line \<Longrightarrow> memcheck_kzalloc tab filename func line s sz = Some (p, s') \<Longrightarrow> before_last_block (mc_ks s) p sz \<Longrightarrow>
    memcheck_reach kernel_end tab s' (P(p \<mapsto> 4096 * nblocks sz)) (A(p \<mapsto> \<lparr>site_file = fn, site_function = fu, site_line = line\<rparr>))"
| free: "memcheck_reach kernel_end tab s P A \<Longrightarrow> P p = Some l \<Longrightarrow> memcheck_kfree tab s p = Some s' \<Longrightarrow>
    memcheck_reach kernel_end tab s' (P(p := None)) (A(p := None))"
| store: "memcheck_reach kernel_end tab s P A \<Longrightarrow> P p = Some l \<Longrightarrow> in_region a p l \<Longrightarrow>
    memcheck_reach kernel_end tab (mc_with s (store8 (mc_mem s) a b)) P A"

lemma memcheck_reach_inv:
  assumes "memcheck_reach kernel_end tab s P A" "0 < kernel_end" "unat kernel_end + 0x1003000 < 2 ^ 32"
  shows "memcheck_inv tab s P \<and> kheap_last (mc_ks s) \<and> table_sites tab (mc_mem s) (ks_heap (mc_ks s)) A \<and> dom A = dom P"
  using assms(1)
proof induction
  case (init s0 s)
  obtain ks where k: "kheap_init kernel_end (mc_ks s0) = Some ks" "kheap_inv ks Map.empty"
    "\<forall>a < kernel_end. kheap_ext ks a \<and> ks_mem ks a = mc_mem s0 a" "kheap_room ks 4094"
    by (rule kheap_init_state [OF assms(2,3), of "mc_ks s0"]) (rule that; assumption)
  have s: "mc_ks s = ks" "allocation_table_len s = 4096"
    using init(1) k(1) by (auto simp: memcheck_kheap_init_def memcheck_table_init_def KERNEL_HEAP_SIZE_def)
  have "fld mce_blocks (ks_mem ks) (table_entry tab (word_of_nat b)) = 0" if "b < 4096" for b
    unfolding fld_def
  proof (rule load32_zero)
    fix x assume "in_region x (table_entry tab (word_of_nat b) + mce_blocks) 4"
    then have "in_region x (table_entry tab (word_of_nat b)) 112" by (rule field_region) simp_all
    then have "in_region x tab table_size" by (rule entry_in_table [OF _ that])
    then show "ks_mem ks x = 0" using init(2) k(3) by simp
  qed
  moreover have "kheap_last ks" using k(4) by (simp add: kheap_last_def kheap_room_def Let_def)
  ultimately show ?case using k(2,3) s init(2) kheap_init_place [OF k(1) assms(3)]
    by (simp add: memcheck_inv_def table_counts_def table_sites_def)
next
  case (alloc s P A filename fn func fu line sz p s')
  then have "memcheck_inv tab s P" "kheap_last (mc_ks s)" by blast+
  note a = memcheck_alloc_any [OF this alloc.hyps(2-6)]
  show ?case using a alloc.IH by (auto simp del: fun_upd_apply)
next
  case (free s P A p l s')
  have inv: "memcheck_inv tab s P" and last: "kheap_room (mc_ks s) 0" using free.IH by (simp_all add: kheap_last_room)
  show ?case
    by (rule memcheck_release [OF inv free.hyps(2)])
      (use free.IH free.hyps(3) last in \<open>auto simp: kheap_last_room simp del: fun_upd_apply\<close>)
next
  case (store s P A p l a b)
  then have inv: "memcheck_inv tab s P" by blast
  have "store8 (mc_mem s) a b x = mc_mem s x" if "\<not> in_region x p l" for x using that store.hyps(3) by (auto simp: store8_apply)
  note w = memcheck_write [OF inv store.hyps(2) this]
  show ?case using w(1,4,5) store.IH by (simp add: mc_with_def kheap_last_room)
qed

section \<open>The report\<close>

text \<open>What \<open>memcheck_check\<close> should print: a line for every live allocation, by address, but not those of \<open>skip\<close>.\<close>

definition report_line :: "addr \<Rightarrow> site \<Rightarrow> u8 list" where
  "report_line p w = map of_char ''alloc: '' @ shown_file w @ [58] @ shown_function w @ [58] @ itoa_text (site_line w)
     @ map of_char '' addr: '' @ itoa_text p @ [10]"

definition leak_report :: "u8 list \<Rightarrow> (nat \<Rightarrow> addr) \<Rightarrow> (addr \<rightharpoonup> site) \<Rightarrow> nat list \<Rightarrow> u8 list" where
  "leak_report skip at A bs = concat (map (\<lambda>b. case A (at b) of None \<Rightarrow> []
     | Some w \<Rightarrow> if shown_function w = skip then [] else report_line (at b) w) bs)"

lemma memcheck_report_prints:
  assumes "entry_names m e p w"
  shows "memcheck_report m e t = Some (put_text (report_line p w) t)"
proof -
  have "print_str m (e + mce_filename) t = Some (put_text (shown_file w) t)" "print_str m (e + mce_function) t = Some (put_text (shown_function w) t)" for t
    using entry_names_shown [OF assms] by (simp_all add: print_str_text)
  then show ?thesis
    using assms by (simp add: memcheck_report_def entry_names_def print_char_text print_literal_text print_itoa_text report_line_def
        put_text_append [symmetric])
qed

lemma memcheck_check_step:
  assumes inv: "memcheck_inv tab s P" "table_sites tab (mc_mem s) (ks_heap (mc_ks s)) A" "dom A = dom P"
    and skip: "cstring (mc_mem s) skip sk" and b: "b < 4096"
  shows "memcheck_check_loop tab skip (word_of_nat b) (s\<lparr>mc_term := t\<rparr>)
    = memcheck_check_loop tab skip (word_of_nat (Suc b)) (s\<lparr>mc_term := put_text (leak_report sk (block_addr (ks_heap (mc_ks s))) A [b]) t\<rparr>)"
  (is "?l = memcheck_check_loop _ _ _ (s\<lparr>mc_term := put_text ?r t\<rparr>)")
proof -
  note i = memcheck_invD [OF inv(1)]
  let ?p = "block_addr (ks_heap (mc_ks s)) b" and ?e = "table_entry tab (word_of_nat b)" and ?s = "s\<lparr>mc_term := t\<rparr>"
  have lt: "(word_of_nat b :: u32) < allocation_table_len s" using b i(3) by (simp add: word_less_nat_alt unat_word_of_nat_lt)
  have nx: "(word_of_nat b + 1 :: u32) = word_of_nat (Suc b)" by simp
  show ?thesis
  proof (cases "A ?p")
    case None
    then have "P ?p = None" using inv(3) by (metis domIff)
    then have "fld mce_blocks (mc_mem s) ?e = 0" using i(6) b by (simp add: table_counts_def)
    then show ?thesis using lt None by (subst memcheck_check_loop.simps) (simp add: leak_report_def put_text_def add.commute)
  next
    case (Some w)
    then obtain l where l: "P ?p = Some l" using inv(3) by (metis domD domI)
    from live_block [OF i(1) l i(2)] obtain n where "l = 4096 * n" "0 < n" "n < 4096" by metis
    moreover from this have "word_of_nat n \<noteq> (0 :: u32)" by (simp add: u32_eq_iff_unat unat_word_of_nat_lt)
    ultimately have nz: "fld mce_blocks (mc_mem s) ?e \<noteq> 0" using i(6) b l by (simp add: table_counts_def)
    have w: "entry_names (mc_mem s) ?e ?p w" using inv(2) b Some by (simp add: table_sites_def)
    then have f: "cstring (mc_mem s) (?e + mce_function) (shown_function w)" by (rule entry_names_shown)
    have "strcmp (mc_mem s) (?e + mce_function) skip = Some (list_cmp (shown_function w) sk)" by (rule strcmp_cstring [OF f skip])
    moreover have "list_cmp (shown_function w) sk = 0 \<longleftrightarrow> shown_function w = sk"
      using f skip by (intro list_cmp_eq_0) (simp_all add: cstring_def)
    ultimately show ?thesis using lt nz Some memcheck_report_prints [OF w]
      by (subst memcheck_check_loop.simps) (simp add: leak_report_def put_text_def add.commute)
  qed
qed

lemma memcheck_check_lists:
  assumes inv: "memcheck_inv tab s P" "table_sites tab (mc_mem s) (ks_heap (mc_ks s)) A" "dom A = dom P"
    and skip: "cstring (mc_mem s) skip sk" and b: "b \<le> 4096"
  shows "memcheck_check_loop tab skip (word_of_nat b) (s\<lparr>mc_term := t\<rparr>)
    = Some (s\<lparr>mc_term := put_text (leak_report sk (block_addr (ks_heap (mc_ks s))) A [b..<4096]) t\<rparr>)"
  using b
proof (induction "4096 - b" arbitrary: b t)
  case 0
  then show ?case using memcheck_invD(3) [OF inv(1)] by (subst memcheck_check_loop.simps) (simp add: leak_report_def put_text_def)
next
  case (Suc d)
  then have b: "b < 4096" by simp
  then have "[b..<4096] = [b] @ [Suc b..<4096]" by (simp add: upt_conv_Cons)
  then have r: "leak_report sk at A [b..<4096] = leak_report sk at A [b] @ leak_report sk at A [Suc b..<4096]" for at
    by (simp only: leak_report_def map_append concat_append)
  show ?case unfolding r put_text_append memcheck_check_step [OF inv skip b] using Suc.hyps(1) [of "Suc b"] Suc.hyps(2) b by simp
qed

section \<open>Properties\<close>

text \<open>
  C10: the leak report is exact. In every state the checked heap reaches by allocations of any size, wherever the search
  finds them, but for a grant that reaches the last block of the table, by frees of live regions and by stores into them,
  \<open>memcheck_check\<close> returns, changes nothing but the terminal, and prints one line for each live allocation, in the order of
  the addresses, with the file, the function and the line that allocated it and its address, leaving out those of the
  function \<open>skip\<close>. Names of fewer than 50 characters are printed as they are; of a longer one the first 50 characters are,
  with what follows in the entry, since \<open>strncpy\<close> leaves it without an end (\<open>shown_names\<close>).
\<close>

theorem memcheck_check_reports_leaks:
  assumes "memcheck_reach kernel_end tab s P A" "0 < kernel_end" "unat kernel_end + 0x1003000 < 2 ^ 32" "cstring (mc_mem s) skip sk"
  shows "dom A = dom P \<and> memcheck_check tab skip s
    = Some (s\<lparr>mc_term := put_text (leak_report sk (block_addr (ks_heap (mc_ks s))) A [0..<4096]) (print_char 10 (mc_term s))\<rparr>)"
proof -
  note r = memcheck_reach_inv [OF assms(1-3)]
  show ?thesis
    using memcheck_check_lists [of tab s P A skip sk 0 "print_char 10 (mc_term s)"] r assms(4) by (simp add: memcheck_check_def)
qed

definition demo_names :: mem where
  "demo_names = (\<lambda>_. 0)(0x8000 := 107, 0x8001 := 46, 0x8002 := 99, 0x8100 := 102)"

definition demo_checked :: memcheck_state where
  "demo_checked = \<lparr>mc_ks = \<lparr>ks_mem = demo_names, ks_heap = demo_heap\<rparr>,
     mc_term = \<lparr>video_memory = \<lambda>_. 0, terminal_row = 0, terminal_column = 0\<rparr>, n_allocations = 0, allocation_table_len = 0\<rparr>"

lemma demo_checked_reach:
  obtains s s' p where "memcheck_reach 0xC0101234 0x10000 s Map.empty Map.empty" "memcheck_kzalloc 0x10000 0x8000 0x8100 7 s 5000 = Some (p, s')"
    "memcheck_reach 0xC0101234 0x10000 s' [p \<mapsto> 8192] [p \<mapsto> \<lparr>site_file = [107, 46, 99], site_function = [102], site_line = 7\<rparr>]"
    "cstring (mc_mem s') 0x9000 []" "memcheck_inv 0x10000 s' [p \<mapsto> 8192]"
proof -
  have low: "a < 0xC0101234" if "in_region a q n" "unat q + n \<le> 0x100000" for a q n
  proof -
    have "unat (a - q) < n" using that(1) by (simp add: in_region_def)
    then have "unat (q + (a - q)) < 0x100000" using that(2) by (simp only: unat_word_ariths) simp
    then show ?thesis by (simp add: word_less_nat_alt)
  qed
  obtain ks where k: "kheap_init 0xC0101234 (mc_ks demo_checked) = Some ks" "kheap_room ks 4094"
    "\<forall>a < 0xC0101234. kheap_ext ks a \<and> ks_mem ks a = demo_names a"
    by (rule kheap_init_state [of "0xC0101234" "mc_ks demo_checked"]) (auto simp: demo_checked_def)
  define s where "s = demo_checked\<lparr>mc_ks := ks, allocation_table_len := 4096\<rparr>"
  have zero: "demo_names a = 0" if "in_region a 0x10000 table_size" for a
    using that by (auto simp: demo_names_def in_region_def)
  have init: "memcheck_kheap_init 0xC0101234 demo_checked = Some s"
    using k(1) by (simp add: memcheck_kheap_init_def memcheck_table_init_def s_def KERNEL_HEAP_SIZE_def)
  have tb: "\<forall>a. in_region a 0x10000 table_size \<longrightarrow> a < 0xC0101234 \<and> mc_mem demo_checked a = 0"
    using low [of _ "0x10000" table_size] zero by (simp add: demo_checked_def)
  note r0 = memcheck_reach.init [OF init tb]
  have name: "constant_name 0x10000 s q str"
    if "cstring demo_names q str" "length str < 50" "regions_disjoint 0x10000 table_size q 50" "unat q + 50 \<le> 0x100000" for q str
  proof -
    have n: "name_size str = 50" using that(2) by (simp add: name_size_def)
    have e: "kheap_ext ks a \<and> ks_mem ks a = demo_names a" if "in_region a q 50" for a
      using low that \<open>unat q + 50 \<le> 0x100000\<close> k(3) by blast
    then have "cstring (ks_mem ks) q str" using in_region_mono [of _ q "Suc (length str)" 50] that(2) by (intro cstring_cong [OF that(1)]) simp
    then show ?thesis using that(3) e by (simp add: constant_name_def s_def n)
  qed
  have n: "constant_name 0x10000 s 0x8000 [107, 46, 99]" "constant_name 0x10000 s 0x8100 [102]" "constant_name 0x10000 s 0x9000 []"
    by (rule name; simp add: demo_names_def cstring_Cons regions_disjoint_def)+
  have room: "kheap_room (mc_ks s) 4094" using k(2) by (simp add: s_def)
  have inv0: "memcheck_inv 0x10000 s Map.empty" using memcheck_reach_inv [OF r0] by simp
  have ends: "names_end [102] 7" by (simp add: names_end_def)
  have sz: "0 < (5000 :: u32)" "nblocks 5000 \<le> 4094" by simp_all
  obtain p s' where a: "memcheck_kzalloc 0x10000 0x8000 0x8100 7 s 5000 = Some (p, s')"
    "\<And>a. kheap_ext (mc_ks s) a \<Longrightarrow> kheap_ext (mc_ks s') a" "\<And>a. kheap_ext (mc_ks s) a \<Longrightarrow> \<not> in_region a 0x10000 table_size \<Longrightarrow> mc_mem s' a = mc_mem s a"
    "before_last_block (mc_ks s) p 5000"
    by (rule memcheck_alloc [OF inv0 n(1,2) ends room sz]) (rule that; assumption)
  have r1: "memcheck_reach 0xC0101234 0x10000 s' [p \<mapsto> 4096 * nblocks 5000] [p \<mapsto> \<lparr>site_file = [107, 46, 99], site_function = [102], site_line = 7\<rparr>]"
    using memcheck_reach.alloc [OF r0 n(1,2) ends a(1,4)] by simp
  have "memcheck_inv 0x10000 s' [p \<mapsto> 4096 * nblocks 5000]" using memcheck_reach_inv [OF r1] by simp
  moreover have "cstring (mc_mem s') 0x9000 []" using constant_name_kept [OF n(3) a(2,3)] by (simp add: constant_name_def)
  ultimately show thesis using that [OF r0 a(1)] r1 by simp
qed

theorem memcheck_check_reports_leaks_witness:
  "\<exists>s p. memcheck_check 0x10000 0x9000 s = Some (s\<lparr>mc_term := put_text (leak_report [] (block_addr (ks_heap (mc_ks s)))
     [p \<mapsto> \<lparr>site_file = [107, 46, 99], site_function = [102], site_line = 7\<rparr>] [0..<4096]) (print_char 10 (mc_term s))\<rparr>)"
proof -
  obtain s p where s: "memcheck_reach 0xC0101234 0x10000 s [p \<mapsto> 8192] [p \<mapsto> \<lparr>site_file = [107, 46, 99], site_function = [102], site_line = 7\<rparr>]"
    "cstring (mc_mem s) 0x9000 []" by (rule demo_checked_reach)
  show ?thesis using memcheck_check_reports_leaks [OF s(1) _ _ s(2)] by auto
qed

text \<open>
  C26: double frees are caught. With the checker, freeing the address of a block of the heap panics if no allocation
  begins there, and otherwise releases it, whatever has been allocated, freed and written before.
\<close>

theorem memcheck_catches_double_free:
  assumes "memcheck_reach kernel_end tab s P A" "0 < kernel_end" "unat kernel_end + 0x1003000 < 2 ^ 32" "b < 4096"
  shows "memcheck_kfree tab s (block_addr (ks_heap (mc_ks s)) b) = None \<longleftrightarrow> P (block_addr (ks_heap (mc_ks s)) b) = None"
    (is "memcheck_kfree tab s ?p = None \<longleftrightarrow> _")
proof (cases "P ?p")
  case None
  have inv: "memcheck_inv tab s P" using memcheck_reach_inv [OF assms(1-3)] by blast
  note i = memcheck_invD [OF this]
  have "heap_layout (ks_heap (mc_ks s))" using i(1) heap_invD(1) by (auto simp: kheap_inv_def)
  then have "heap_addr_to_block (ks_heap (mc_ks s)) ?p = word_of_nat b"
    using heap_addr_to_block_block_addr [of "ks_heap (mc_ks s)" b] i(2) assms(4) by simp
  then have "memcheck_free tab ?p s = None"
    using None i(6) assms(4) by (simp add: memcheck_free_def kheap_addr_to_block_def table_counts_def)
  then show ?thesis using None by (simp add: memcheck_kfree_def)
next
  case (Some l)
  have inv: "memcheck_inv tab s P" using memcheck_reach_inv [OF assms(1-3)] by blast
  obtain s' where "memcheck_kfree tab s ?p = Some s'" by (rule memcheck_release [OF inv Some])
  then show ?thesis using Some by simp
qed

theorem memcheck_catches_double_free_witness:
  "\<exists>s. memcheck_kfree 0x10000 s (block_addr (ks_heap (mc_ks s)) 5) = None"
proof -
  obtain s where "memcheck_reach 0xC0101234 0x10000 s Map.empty Map.empty" by (rule demo_checked_reach)
  from memcheck_catches_double_free [OF this, of 5] show ?thesis by auto
qed

end
