(* ===== verification/Spec2Isabelle.thy ===== *)
theory Spec2Isabelle
  imports Path_Parser Gdt Circ_Buffer Termio Fat16_Volume Paging_Init Node_List Address_Space Process_List Process_Create Kernel Kernel_Start Memcheck
begin

text \<open>
  A verification development of AvocadOS, a kernel for the i386 in freestanding C. Paths below are relative to the
  root of the repository.

  \<^bold>\<open>The program.\<close> The boot code enters \<open>kernel_main\<close> (\<^verbatim>\<open>src/kernel/kernel.c\<close>) with large pages on. It loads the
  segment table, sets up the interrupt controllers, the heap, paging, the descriptors of the interrupts, the disks and
  the file systems, makes the first processes and tasks, turns interrupts on and loops. From then on the timer
  interrupt runs the scheduler, which switches from one task to the next. Everything that is allocated comes from one
  block allocator; page directories, task control blocks, processes, paths and open files are structures in the memory
  it hands out. A process is loaded from a FAT16 volume through the file layer, the driver, byte streams and an ATA
  drive behind port instructions.

  \<^bold>\<open>Conventions.\<close> A machine integer is a word of its width, a pointer a word of 32 bits, and the memory one function
  from addresses to bytes (\<open>mem\<close>, theory \<open>Prelude\<close>), so wrap-around, aliasing and accesses behind an array are in the
  models as they are in the code. A structure the code keeps in allocated memory is read and written there by field
  offset; where a component is the only one to see a structure, it is a record. State is passed explicitly, in one
  record per component that extends or contains the records of the components below it. Status codes are integers as
  in the code. A loop that may run forever is a \<open>partial_function (option)\<close>; there is no fuel. \<open>None\<close> as a result is a
  run without result: a loop that never ends, a panic, or an access the C standard leaves undefined; the text at the
  head of each theory says which. A property that an operation returns is stated as \<open>= Some\<close>. The port instructions
  and the link addresses are arguments of the definitions; what a device behind the ports does is a named hypothesis
  (\<open>ata_device\<close>, the 8259A of \<open>Kernel\<close>).

  \<^bold>\<open>The theories.\<close>

  \<^item> \<open>Prelude\<close>: words, memory, loads and stores, regions of addresses that may wrap; the collections \<open>region_simps\<close> and
    \<open>load_store_simps\<close>; the status codes of \<^verbatim>\<open>src/status.h\<close>.
  \<^item> \<open>String_C\<close> (\<^verbatim>\<open>src/string/string.c\<close>): blocks of memory, strings, comparison, \<open>itoa\<close> and its round trip.
  \<^item> \<open>Heap_C\<close> (\<^verbatim>\<open>src/memory/heap.c\<close>): the block table in memory; an abstract map of allocations, the invariant that
    ties the two together, first fit, release, and the two searches that go wrong on a full and on an empty heap.
  \<^item> \<open>Kheap\<close> (\<^verbatim>\<open>src/memory/kheap.c\<close> and \<open>memmove\<close>): the global heap. The locale \<open>allocator\<close> is the contract all later
    theories rely on: allocations are disjoint, aligned and zeroed, they keep all other memory, and room for \<open>k\<close>
    blocks guarantees that requests for that many blocks are met. It is interpreted as \<open>kh\<close> on \<open>kzalloc\<close> and \<open>kfree\<close>;
    \<open>kheap_reach\<close> are the states reachable by allocating, freeing and writing to what is allocated. Its allocations
    are those the code answers, for requests of any size, wherever the search finds free blocks and after however many
    frees; it leaves out only grants that reach the last block of the table (\<open>before_last_block\<close>), where the search
    counts over its end.
  \<^item> \<open>Memcheck\<close> (\<^verbatim>\<open>src/memory/memcheck.c\<close> and the wrappers in \<^verbatim>\<open>src/memory/kheap.c\<close>): the leak checker as it is with
    \<open>MEMCHECK\<close> defined. \<open>allocator\<close> is interpreted a second time, as \<open>mc\<close>, on the checked allocator; the table refines
    a map from live addresses to the places that allocated them, with names as an entry of the table shows them.
  \<^item> \<open>Path_Parser\<close> (\<^verbatim>\<open>src/fs/path_parser.c\<close>): parsing and freeing, as a round trip over the heap.
  \<^item> \<open>Gdt\<close> (\<^verbatim>\<open>src/kernel/gdt.c\<close>): descriptors, their native encoding and the task state segment.
  \<^item> \<open>Termio\<close> (\<^verbatim>\<open>src/termio/termio.c\<close>): the text screen, against a reference that prints character by character.
  \<^item> \<open>Circ_Buffer\<close> (\<^verbatim>\<open>buffer.c\<close>): the locale \<open>bounded_fifo\<close>, a queue of bounded length, and its interpretation \<open>cb\<close>;
    runs of any operations refine runs of the queue, with the refusals of a full and an empty one.
  \<^item> \<open>Ring\<close>: circular doubly linked lists over any memory of link fields. The locale \<open>link_store\<close> is the interface
    between lists and memory; it is interpreted on the nodes of \<^verbatim>\<open>list.c\<close> (\<open>nl\<close>), on task control blocks (\<open>tl\<close>) and on
    processes (\<open>pl\<close>).
  \<^item> \<open>Node_List\<close> (\<^verbatim>\<open>list.c\<close>): the list against HOL lists, printing included, with deletion as a loop that ends, and the
    swap that does not keep the list.
  \<^item> \<open>Disk\<close> (\<^verbatim>\<open>src/disk/disk.c\<close>, \<^verbatim>\<open>src/disk/disk_stream.c\<close>): sectors read by polling, and streams of bytes over them.
    \<open>ata_device\<close> states what the ATA protocol promises of the ports: registers and commands are taken only by an idle
    drive, and the data register delivers a word only after a status with BSY clear and DRQ set. \<open>block_device\<close> what a
    stream needs of a driver; \<open>ata_disk\<close> is a sublocale of \<open>block_device\<close>, and \<open>sim\<close> interprets it on a drive that
    follows the protocol.
  \<^item> \<open>Fat16\<close> (\<^verbatim>\<open>src/fs/fat16.c\<close>) is the driver; \<open>Fat16_Volume\<close> the reference view of a volume (chains of clusters, the
    bytes along a chain, the entries of the root) and the locale \<open>fat_volume\<close>, which extends \<open>block_device\<close>, in which
    reads and the search of the root are proved; \<open>fv\<close> interprets it on the disk driver.
  \<^item> \<open>File_Layer\<close> (\<^verbatim>\<open>src/fs/file.c\<close>, \<^verbatim>\<open>src/fs/file_table.c\<close>): streams over tables of operations, the table of open
    files.
  \<^item> \<open>Paging\<close> (\<^verbatim>\<open>src/memory/paging.c\<close>): page directories in memory. \<open>pg_inv\<close> says that a directory is well formed, that
    the heap will not hand out what it consists of, and that addresses can be translated while it changes; \<open>pg_frame\<close>
    what an operation leaves alone. Mapping a range is proved linear. \<open>user_space_empty\<close> says that a directory has no
    entries where programs are mapped. \<open>Page_Clone\<close> proves what a clone of the kernel's directory shares with it,
    \<open>Paging_Init\<close> that \<open>paging_init\<close> establishes the invariant from the state at boot. Addresses are translated by the
    code's own \<open>virtual_to_physical_addr\<close>, which looks a table up by its virtual address and adds the frame in it.
  \<^item> \<open>Tasks\<close> (\<^verbatim>\<open>src/kernel/task/task.c\<close>): control blocks, kernel stacks and the scheduler; the ring of tasks refines a
    queue that is rotated, and every task gets its turn.
  \<^item> \<open>Process\<close> (\<^verbatim>\<open>src/kernel/task/process.c\<close>); \<open>Address_Space\<close> proves which addresses a process sees after
    \<open>process_map_memory\<close>, and that the directory is its own: a fresh one, while that of the kernel keeps its entries;
    \<open>Process_List\<close> the list of processes, \<open>Tasking\<close> what \<open>tasking_init\<close> builds: the system process around the code
    that runs, with the software interrupt that pushes its frame on the kernel stack in use (\<open>frame_on_stack\<close>), the
    idle process, and the rings both are in. \<open>Process_Create\<close> puts these together: \<open>kernel_ok\<close> is the state between
    operations (the directory in force, the ring of tasks, the list of their processes, apart from each other),
    \<open>tasking_init\<close> establishes it and \<open>process_init\<close> keeps it for the lists with the new members.
  \<^item> \<open>Idt\<close> (\<^verbatim>\<open>src/idt/idt.c\<close>): gates, the dispatcher, the acknowledgement of interrupts; the timer interrupt refines a
    step of the scheduler. \<open>raise_int_20\<close> (\<^verbatim>\<open>src/idt/idt.asm\<close>) pushes the frame of vector 20 and runs the dispatcher
    on it.
  \<^item> \<open>Kernel\<close> (\<^verbatim>\<open>src/kernel/kernel.c\<close>): the interrupt controllers, checked against a model of their initialisation
    sequence (ICW1 to ICW4 and the mask, with the bits of ICW1 that say which of them follow), and \<open>kernel_main\<close> up to
    its endless loop. \<open>Kernel_Start\<close> proves that \<open>fat16_probe\<close> establishes the contract \<open>fat_volume\<close> and keeps the
    geometry of the header it read (\<open>mounted_as\<close>) and that \<open>kernel_main\<close> as a whole returns, from the results of its
    parts; \<open>spares\<close> (of \<open>Paging_Init\<close>) is what each part keeps of the heap for the others.

  \<^bold>\<open>How the properties fit together.\<close> \<open>kernel_main_starts\<close> composes the start of all components: the state it ends in
  satisfies \<open>kernel_ok\<close>, which contains the hypotheses of the properties on mapping, on the scheduler and on the list
  of processes. \<open>process_init_creates\<close> starts from \<open>kernel_ok\<close> and ends in it, so that processes can be created one
  after the other as long as the heap has blocks. \<open>paging_init_maps_kernel\<close> gives the kernel's directory in force with
  its invariant; that is what \<open>paging_clone_shares_kernel\<close> and \<open>process_map_memory_space\<close> assume.
  \<open>disk_read_sector_reads\<close>, \<open>diskstream_read_content\<close>, \<open>fat16_read_returns_content\<close> and \<open>fread_delivers_file\<close> lead
  from the sectors of the drive to the bytes a caller of \<open>fread\<close> gets. \<open>schedule_round_robin\<close>, \<open>task_new_runs_next\<close>,
  \<open>schedule_fair\<close> and \<open>timer_interrupt_switches\<close> lead from the ring of tasks to what an interrupt returns to. The
  properties on errors prove places where the code does not do what it means to.

  \<^bold>\<open>Bounds.\<close> The heap has 4096 blocks of 4096 bytes (\<^verbatim>\<open>src/config.h\<close>). Theorems that allocate ask for room for the
  blocks they use, counted exactly (\<open>tables_needed\<close> for a range of pages). Ranges that are mapped end below
  \<open>0xFFC00000\<close>, where a directory maps itself.

  \<^bold>\<open>Not modelled.\<close> \<open>panic\<close> (\<^verbatim>\<open>src/kernel/panic.c\<close>) prints and stops; it is \<open>None\<close> in the models of its callers.
  \<^verbatim>\<open>src/fs/fat.cc\<close> is a prototype outside the build, \<^verbatim>\<open>autogen/generate_asm_constants.c\<close> a host program of the build.
  The boot code, the context switch and the stubs of the interrupts are assembly, but for the software interrupt of
  \<open>init_system_process\<close>. Device interrupts do not come between the steps of an operation: \<open>kernel_main\<close> turns them on
  before its last steps, and its model goes on as if none arrived; what an interrupt does is the subject of \<open>Idt\<close>. The
  \<open>main\<close> functions of \<^verbatim>\<open>list.c\<close> and \<^verbatim>\<open>buffer.c\<close> only demonstrate them. The processor's translation of addresses is not
  part of the memory model: the memory is the one the kernel sees through its own mapping. The theorems on paging
  speak of the translation that the kernel computes from its tables with \<open>virtual_to_physical_addr\<close>; the present bits
  and access flags of the entries, and the frame numbers the directory holds for the processor beside the addresses of
  the tables, are written by the models as by the code, but the conclusions only say which of them stay as they were;
  they do not say what the processor makes of the tables.
\<close>

end
